(* ===== verification/Prelude.thy ===== *)
theory Prelude
  imports Complex_Main "HOL-Library.Word"
begin

text \<open>
  What the component theories share: machine integer types, the result type of the C
  functions that return a negative errno, the outcome type of the functions that can block
  on a semaphore or run into undefined behaviour, and the lemmas on words and lists that
  more than one component needs. The collections \<open>uword\<close> and \<open>outcome\<close>
  gather the rewrite rules of the first two kinds.
\<close>

named_theorems uword
named_theorems outcome

unbundle bit_operations_syntax

type_synonym u8 = "8 word"
type_synonym u16 = "16 word"
type_synonym u32 = "32 word"
type_synonym u64 = "64 word"

section \<open>Results of C functions\<close>

text \<open>
  A C function that returns \<open>-EINVAL\<close> and its kin on failure and a payload otherwise is a
  function into \<open>'a cres\<close>. \<open>ABORT\<close> is a failed \<open>assert\<close>: the process stops;
  \<open>UNDEF\<close> is an access outside an array or through an invalid pointer.
\<close>

datatype cerr = ENOENT | EINVAL | ENOMEM | E2BIG | ABORT | UNDEF

type_synonym 'a cres = "cerr + 'a"

text \<open>
  Going on after a result; reading through a pointer that may be invalid; a failed \<open>assert\<close>.
\<close>

definition cbind :: "'a cres \<Rightarrow> ('a \<Rightarrow> 'b cres) \<Rightarrow> 'b cres" where
  "cbind m k = (case m of Inl e \<Rightarrow> Inl e | Inr x \<Rightarrow> k x)"

definition need :: "'a option \<Rightarrow> ('a \<Rightarrow> 'b cres) \<Rightarrow> 'b cres" where
  "need x k = (case x of None \<Rightarrow> Inl UNDEF | Some a \<Rightarrow> k a)"

definition asserting :: "bool \<Rightarrow> 'b cres \<Rightarrow> 'b cres" where
  "asserting b m = (if b then m else Inl ABORT)"

lemma cbind_simps [simp]: "cbind (Inl e) k = Inl e" "cbind (Inr x) k = k x"
  by (simp_all add: cbind_def)

lemma need_simps [simp]: "need None k = Inl UNDEF" "need (Some a) k = k a"
  by (simp_all add: need_def)

lemma asserting_simps [simp]: "asserting True m = m" "asserting False m = Inl ABORT"
  by (simp_all add: asserting_def)

text \<open>
  The C idiom \<open>if (changed)\<close> on a result that is negative on error, 0 for unchanged and 1
  for changed is true in two of the three cases.
\<close>

definition nonzero :: "bool cres \<Rightarrow> bool" where
  "nonzero r = (r \<noteq> Inr False)"

lemma nonzero_simps [simp]:
  "nonzero (Inl e)" "nonzero (Inr True)" "\<not> nonzero (Inr False)"
  by (simp_all add: nonzero_def)

text \<open>
  Code that can wait on a semaphore, or dereference a pointer that is not valid, has an
  outcome: \<open>Done\<close> with a value and the new state, \<open>Blocked\<close> with the state in which it
  waits, or \<open>Fault\<close> for undefined behaviour (a NULL or out of range access, a second
  \<open>free\<close>).
\<close>

datatype ('a, 's) outcome = Done 'a 's | Blocked 's | Fault

fun obind :: "('a, 's) outcome \<Rightarrow> ('a \<Rightarrow> 's \<Rightarrow> ('b, 's) outcome) \<Rightarrow> ('b, 's) outcome" where
  "obind (Done a s) k = k a s"
| "obind (Blocked s) k = Blocked s"
| "obind Fault k = Fault"

lemma obind_eq_Done [outcome]:
  "obind m k = Done b t \<longleftrightarrow> (\<exists>a s. m = Done a s \<and> k a s = Done b t)"
  by (cases m) auto

lemma obind_assoc: "obind (obind m k) l = obind m (\<lambda>a s. obind (k a s) l)"
  by (cases m) auto

definition ofail :: "'a option \<Rightarrow> ('a \<Rightarrow> ('b, 's) outcome) \<Rightarrow> ('b, 's) outcome" where
  "ofail x k = (case x of None \<Rightarrow> Fault | Some a \<Rightarrow> k a)"

lemma ofail_simps [simp]: "ofail None k = Fault" "ofail (Some a) k = k a"
  by (simp_all add: ofail_def)

lemma ofail_eq_Done [outcome]:
  "ofail x k = Done b t \<longleftrightarrow> (\<exists>a. x = Some a \<and> k a = Done b t)"
  by (cases x) auto

section \<open>Words as numbers\<close>

abbreviation UINT_MAX :: u32 where "UINT_MAX \<equiv> 0xFFFFFFFF"

lemma unat_UINT_MAX [uword]: "unat UINT_MAX = 4294967295"
  by simp

lemma unat_u32_less [uword]: "unat (w :: u32) < 4294967296"
  using unsigned_less [of w] by simp

lemma unat_u32_le [uword]: "unat (w :: u32) \<le> 4294967295"
  using unat_u32_less [of w] by simp

lemma UINT_MAX_ge [simp]: "(w :: u32) \<le> UINT_MAX"
  by (simp add: word_le_nat_alt unat_u32_le)

lemma unat_inc: "(w :: 'a::len word) \<noteq> - 1 \<Longrightarrow> unat (w + 1) = unat w + 1"
  using unatSuc [of w] by (metis Suc_eq_plus1 add.commute eq_neg_iff_add_eq_0)

lemma unat_inc_less: "(w :: 'a::len word) < v \<Longrightarrow> unat (w + 1) = unat w + 1"
  by (rule unat_inc) (use word_order.extremum_strict in auto)

lemma UINT_MAX_minus1: "UINT_MAX = - 1"
  by simp

lemma unat_inc_u32: "(w :: u32) \<noteq> UINT_MAX \<Longrightarrow> unat (w + 1) = unat w + 1"
  unfolding UINT_MAX_minus1 by (rule unat_inc)

lemma unat_dec: "(w :: 'a::len word) \<noteq> 0 \<Longrightarrow> unat (w - 1) = unat w - 1"
  by (rule unat_minus_one)

lemma unat_dec_less: "v < (w :: 'a::len word) \<Longrightarrow> unat (w - 1) = unat w - 1"
  by (rule unat_minus_one) auto

lemma unat_not_max: "unat (w :: u32) + 1 < 2 ^ 32 \<Longrightarrow> w \<noteq> - 1"
  using unat_UINT_MAX unfolding UINT_MAX_minus1 by auto

text \<open>A conversion between widths keeps the value when it fits.\<close>

lemma unat_ucast_fits:
  "unat w < 2 ^ LENGTH('c) \<Longrightarrow> unat (ucast w :: 'c::len word) = unat w"
  by (simp add: unsigned_ucast_eq take_bit_nat_eq_self)

lemma unat_of_nat_fits: "n < 2 ^ LENGTH('a) \<Longrightarrow> unat (word_of_nat n :: 'a::len word) = n"
  by (simp add: unsigned_of_nat take_bit_nat_eq_self)

lemma unat_ucast_u64 [uword]: "unat (ucast (w :: u32) :: u64) = unat w"
  using unat_u32_less [of w] by (intro unat_ucast_fits) simp

text \<open>A property of bytes is checked by computing it for all 256 of them.\<close>

lemma byte_enum:
  assumes "list_all (\<lambda>n. P (word_of_nat n :: u8)) [0..<256]"
  shows "P c"
proof -
  have "unat c \<in> set [0..<256]" using unsigned_less [of c] by simp
  with assms have "P (word_of_nat (unat c))" unfolding list_all_iff by blast
  then show ?thesis by simp
qed

text \<open>Unsigned words as real numbers, for the denotation of intervals.\<close>

definition ur :: "'a::len word \<Rightarrow> real" where
  "ur w = real (unat w)"

lemma ur_less: "a < b \<longleftrightarrow> ur a < ur b"
  by (simp add: ur_def word_less_nat_alt del: of_nat_unat)

lemma ur_le: "a \<le> b \<longleftrightarrow> ur a \<le> ur b"
  by (simp add: ur_def word_le_nat_alt del: of_nat_unat)

lemma ur_eq: "a = b \<longleftrightarrow> ur a = ur b"
  by (simp add: ur_def word_unat_eq_iff del: of_nat_unat)

lemmas ur_cmp = ur_less ur_le ur_eq

lemma ur_ge_0 [simp]: "0 \<le> ur w"
  by (simp add: ur_def del: of_nat_unat)

lemma ur_0 [simp]: "ur (0 :: 'a::len word) = 0"
  by (simp add: ur_def del: of_nat_unat)

lemma ur_pos: "0 < ur w \<longleftrightarrow> w \<noteq> 0"
  by (simp add: ur_def unat_gt_0 del: of_nat_unat)

lemma ur_UINT_MAX [simp]: "ur UINT_MAX = 4294967295"
  by (simp add: ur_def del: of_nat_unat)

lemma ur_le_max: "ur (w :: u32) \<le> 4294967295"
  using unat_u32_le [of w] by (simp add: ur_def del: of_nat_unat)

lemma ur_Ints [simp]: "ur w \<in> \<int>"
  by (simp add: ur_def del: of_nat_unat)

lemma ur_inc: "(w :: u32) \<noteq> UINT_MAX \<Longrightarrow> ur (w + 1) = ur w + 1"
  by (simp add: ur_def unat_inc_u32 del: of_nat_unat)

lemma ur_inc_less: "(w :: u32) < v \<Longrightarrow> ur (w + 1) = ur w + 1"
  by (simp add: ur_def unat_inc_less del: of_nat_unat)

lemma ur_dec: "(w :: u32) \<noteq> 0 \<Longrightarrow> ur (w - 1) = ur w - 1"
  by (simp add: ur_def unat_dec of_nat_diff unat_gt_0 Suc_leI del: of_nat_unat)

lemma ur_dec_less: "v < (w :: u32) \<Longrightarrow> ur (w - 1) = ur w - 1"
  by (rule ur_dec) auto

text \<open>An integer is above an integral open bound exactly when it is above the next one.\<close>

lemma ur_of_int: "ur w = of_int (int (unat w))"
  by (simp add: ur_def del: of_nat_unat)

lemma Ints_less_iff: "x \<in> \<int> \<Longrightarrow> ur w < x \<longleftrightarrow> ur w + 1 \<le> x"
  unfolding ur_of_int by (elim Ints_cases) (metis of_int_less_iff of_int_le_iff of_int_add of_int_1 zless_imp_add1_zle add1_zle_eq)

lemma Ints_greater_iff: "x \<in> \<int> \<Longrightarrow> x < ur w \<longleftrightarrow> x \<le> ur w - 1"
  unfolding ur_of_int by (elim Ints_cases) (metis of_int_less_iff of_int_le_iff of_int_diff of_int_1 zle_diff1_eq)

end
