(* ===== verification/Refinable.thy ===== *)
theory Refinable
  imports Prelude
begin

text \<open>
  The contract between the constraint solver of the hardware parameters and the two kinds of
  sets it works on. A refinement operation replaces a set by its intersection with another,
  reports whether anything changed, and never loses a common element; a reported change makes
  the set smaller in a measure that bounds the number of changes. Intervals and masks provide
  the contract; the solver relies on it.
\<close>

locale refinable =
  fixes refine :: "'s \<Rightarrow> 's \<Rightarrow> bool cres \<times> 's"
    and mem :: "'s \<Rightarrow> 'v \<Rightarrow> bool"
    and weight :: "'s \<Rightarrow> nat"
  assumes keeps: "mem i x \<Longrightarrow> mem v x \<Longrightarrow> \<exists>c j. refine i v = (Inr c, j) \<and> mem j x"
    and exact: "mem i a \<Longrightarrow> mem v b \<Longrightarrow> refine i v = (Inr c, j) \<Longrightarrow> mem j x \<Longrightarrow> mem i x \<and> mem v x"
    and shrinks: "mem i a \<Longrightarrow> mem v b \<Longrightarrow> refine i v = (Inr c, j) \<Longrightarrow>
      weight j \<le> weight i \<and> (c \<longrightarrow> weight j < weight i)"
begin

lemma members:
  assumes "mem i x" "mem v x" "refine i v = (r, j)"
  shows "mem j y \<longleftrightarrow> mem i y \<and> mem v y"
  using assms keeps [of i x v] keeps [of i y v] exact [of i x v x _ j y] by auto

text \<open>Refining by a list of constraints, as the solver does with its rules.\<close>

fun refine_list :: "'s \<Rightarrow> 's list \<Rightarrow> bool cres \<times> 's" where
  "refine_list i [] = (Inr False, i)"
| "refine_list i (v # vs) =
     (case refine i v of
        (Inl e, j) \<Rightarrow> (Inl e, j)
      | (Inr c, j) \<Rightarrow>
          (case refine_list j vs of
             (Inl e, k) \<Rightarrow> (Inl e, k)
           | (Inr d, k) \<Rightarrow> (Inr (c \<or> d), k)))"

lemma refine_list_keeps:
  assumes "mem i x" "\<And>v. v \<in> set vs \<Longrightarrow> mem v x"
  shows "\<exists>c j. refine_list i vs = (Inr c, j) \<and> (\<forall>y. mem j y = (mem i y \<and> (\<forall>v \<in> set vs. mem v y))) \<and>
    weight j \<le> weight i \<and> (c \<longrightarrow> weight j < weight i)"
  using assms
proof (induction vs arbitrary: i)
  case (Cons v vs)
  obtain c j where j: "refine i v = (Inr c, j)" "mem j x"
    using keeps Cons.prems by (metis list.set_intros(1))
  have m: "mem j y = (mem i y \<and> mem v y)" for y
    using members [OF Cons.prems(1) _ j(1)] Cons.prems(2) [of v] by simp
  have w: "weight j \<le> weight i \<and> (c \<longrightarrow> weight j < weight i)"
    using shrinks [OF Cons.prems(1) _ j(1), of x] Cons.prems(2) [of v] by simp
  obtain d k where "refine_list j vs = (Inr d, k)"
    "\<forall>y. mem k y = (mem j y \<and> (\<forall>v \<in> set vs. mem v y))"
    "weight k \<le> weight j \<and> (d \<longrightarrow> weight k < weight j)"
    using Cons.IH [OF j(2)] Cons.prems(2) by auto
  then show ?case using j(1) m w by auto
qed auto

text \<open>The order of the constraints does not matter for the set that is left.\<close>

lemma refine_list_order:
  assumes "mem i x" "\<And>v. v \<in> set vs \<Longrightarrow> mem v x" "set vs = set ws"
    "refine_list i vs = (Inr c, j)" "refine_list i ws = (Inr d, k)"
  shows "mem j = mem k"
  using refine_list_keeps [of i x vs] refine_list_keeps [of i x ws] assms by (auto simp: fun_eq_iff)

lemma refine_again:
  assumes "mem i x" "mem v x" "refine i v = (r, j)" "refine j v = (s, k)"
  shows "mem k = mem j"
proof -
  have "mem j x" using members [OF assms(1-3)] assms(1,2) by simp
  then show ?thesis
    using members [OF assms(1-3)] members [OF _ assms(2,4)] by (auto simp: fun_eq_iff)
qed

end

end
