(* ===== verification/PcmInterval.thy ===== *)
theory PcmInterval
  imports Refinable
begin

text \<open>
  The interval arithmetic of the PCM hardware parameters, \<open>libasound/src/pcm/interval.c\<close>
  and \<open>interval_inline.h\<close>. An interval has unsigned 32 bit bounds, each of which may be
  open, and may be restricted to integers; \<open>iempty\<close> marks the empty one. A function that
  updates its first argument in place returns the updated interval beside its result. The
  second half gives every operation its meaning on sets of real values: refinement is
  intersection, and the arithmetic operations enclose the exact results.
\<close>

section \<open>Saturating arithmetic on unsigned int\<close>

definition div32 :: "u32 \<Rightarrow> u32 \<Rightarrow> u32 \<times> u32" where
  "div32 a b = (if b = 0 then (UINT_MAX, 0) else (a div b, a mod b))"

definition div_down :: "u32 \<Rightarrow> u32 \<Rightarrow> u32" where
  "div_down a b = (if b = 0 then UINT_MAX else a div b)"

definition div_up :: "u32 \<Rightarrow> u32 \<Rightarrow> u32" where
  "div_up a b =
     (if b = 0 then UINT_MAX
      else (let (q, r) = div32 a b in if r \<noteq> 0 then q + 1 else q))"

definition mul :: "u32 \<Rightarrow> u32 \<Rightarrow> u32" where
  "mul a b =
     (if a = 0 then 0
      else if div_down UINT_MAX a < b then UINT_MAX
      else a * b)"

definition add :: "u32 \<Rightarrow> u32 \<Rightarrow> u32" where
  "add a b = (if a \<ge> UINT_MAX - b then UINT_MAX else a + b)"

definition sub :: "u32 \<Rightarrow> u32 \<Rightarrow> u32" where
  "sub a b = (if a > b then a - b else 0)"

text \<open>
  The product is computed in 64 bits; \<open>None\<close> is the failed \<open>assert(n > 0)\<close> for a zero
  divisor.
\<close>

definition muldiv32 :: "u32 \<Rightarrow> u32 \<Rightarrow> u32 \<Rightarrow> (u32 \<times> u32) option" where
  "muldiv32 a b c =
     (let n = (ucast a :: u64) * ucast b
      in if c = 0 then (if n > 0 then Some (UINT_MAX, 0) else None)
         else let r = n mod ucast c; q = n div ucast c
              in if q \<ge> ucast UINT_MAX then Some (UINT_MAX, 0)
                 else Some (ucast q, ucast r))"

section \<open>The interval type and its inline operations\<close>

record snd_interval =
  imin :: u32
  imax :: u32
  openmin :: bool
  openmax :: bool
  integer :: bool
  iempty :: bool

definition snd_interval_any :: "snd_interval \<Rightarrow> snd_interval" where
  "snd_interval_any i =
     \<lparr>imin = 0, imax = UINT_MAX, openmin = False, openmax = False,
      integer = False, iempty = False\<rparr>"

definition snd_interval_none :: "snd_interval \<Rightarrow> snd_interval" where
  "snd_interval_none i = i\<lparr>iempty := True\<rparr>"

definition snd_interval_checkempty :: "snd_interval \<Rightarrow> bool" where
  "snd_interval_checkempty i =
     (imin i > imax i \<or> (imin i = imax i \<and> (openmin i \<or> openmax i)))"

definition snd_interval_empty :: "snd_interval \<Rightarrow> bool" where
  "snd_interval_empty i = iempty i"

definition snd_interval_single :: "snd_interval \<Rightarrow> bool cres" where
  "snd_interval_single i =
     (if snd_interval_empty i then Inl ABORT
      else Inr (imin i = imax i \<or> (imin i + 1 = imax i \<and> openmax i)))"

definition snd_interval_value :: "snd_interval \<Rightarrow> u32 cres" where
  "snd_interval_value i =
     (if snd_interval_single i = Inr True then Inr (imin i) else Inl ABORT)"

definition snd_interval_set_value :: "snd_interval \<Rightarrow> u32 \<Rightarrow> snd_interval" where
  "snd_interval_set_value i val =
     \<lparr>imin = val, imax = val, openmin = False, openmax = False,
      integer = False, iempty = False\<rparr>"

definition snd_interval_min :: "snd_interval \<Rightarrow> u32 cres" where
  "snd_interval_min i = (if snd_interval_empty i then Inl ABORT else Inr (imin i))"

definition snd_interval_max :: "snd_interval \<Rightarrow> u32 cres" where
  "snd_interval_max i = (if snd_interval_empty i then Inl ABORT else Inr (imax i))"

definition snd_interval_set_minmax :: "snd_interval \<Rightarrow> u32 \<Rightarrow> u32 \<Rightarrow> snd_interval" where
  "snd_interval_set_minmax i lo hi =
     \<lparr>imin = lo, imax = hi, openmin = False, openmax = False,
      integer = False, iempty = False\<rparr>"

definition snd_interval_test :: "snd_interval \<Rightarrow> u32 \<Rightarrow> bool" where
  "snd_interval_test i val =
     (\<not> (imin i > val \<or> (imin i = val \<and> openmin i) \<or>
         imax i < val \<or> (imax i = val \<and> openmax i)))"

definition snd_interval_copy :: "snd_interval \<Rightarrow> snd_interval \<Rightarrow> snd_interval" where
  "snd_interval_copy d s = s"

definition snd_interval_setinteger :: "snd_interval \<Rightarrow> bool cres \<times> snd_interval" where
  "snd_interval_setinteger i =
     (if integer i then (Inr False, i)
      else if openmin i \<and> openmax i \<and> imin i = imax i then (Inl EINVAL, i)
      else (Inr True, i\<lparr>integer := True\<rparr>))"

definition snd_interval_floor :: "snd_interval \<Rightarrow> snd_interval" where
  "snd_interval_floor i =
     (if integer i \<or> snd_interval_empty i then i
      else let i = i\<lparr>openmin := False\<rparr>;
               i = (if openmax i then i\<lparr>imax := imax i - 1, openmax := False\<rparr> else i)
           in i\<lparr>integer := True\<rparr>)"

definition snd_interval_unfloor :: "snd_interval \<Rightarrow> snd_interval" where
  "snd_interval_unfloor i =
     (if snd_interval_empty i then i
      else if imax i = UINT_MAX then i
      else if openmax i then i
      else i\<lparr>imax := imax i + 1, openmax := True, integer := False\<rparr>)"

text \<open>Both comparisons evaluate their operands left to right; a failed assertion aborts.\<close>

definition snd_interval_always_eq :: "snd_interval \<Rightarrow> snd_interval \<Rightarrow> bool cres" where
  "snd_interval_always_eq i1 i2 =
     (case snd_interval_single i1 of
        Inl e \<Rightarrow> Inl e
      | Inr False \<Rightarrow> Inr False
      | Inr True \<Rightarrow>
          (case snd_interval_single i2 of
             Inl e \<Rightarrow> Inl e
           | Inr False \<Rightarrow> Inr False
           | Inr True \<Rightarrow> Inr (snd_interval_value i1 = snd_interval_value i2)))"

definition snd_interval_never_eq :: "snd_interval \<Rightarrow> snd_interval \<Rightarrow> bool" where
  "snd_interval_never_eq i1 i2 =
     (imax i1 < imin i2 \<or>
      (imax i1 = imin i2 \<and> (openmax i1 \<or> openmin i1)) \<or>
      imin i1 > imax i2 \<or>
      (imin i1 = imax i2 \<and> (openmin i1 \<or> openmax i2)))"

section \<open>Refinement\<close>

definition snd_interval_refine_min :: "snd_interval \<Rightarrow> u32 \<Rightarrow> bool \<Rightarrow> bool cres \<times> snd_interval" where
  "snd_interval_refine_min i lo opn =
     (if snd_interval_empty i then (Inl ENOENT, i)
      else
        let (changed, i) =
              (if imin i < lo then (True, i\<lparr>imin := lo, openmin := opn\<rparr>)
               else if imin i = lo \<and> \<not> openmin i \<and> opn then (True, i\<lparr>openmin := True\<rparr>)
               else (False, i));
            i = (if integer i \<and> openmin i
                 then i\<lparr>imin := imin i + 1, openmin := False\<rparr> else i)
        in if snd_interval_checkempty i then (Inl EINVAL, snd_interval_none i)
           else (Inr changed, i))"

definition snd_interval_refine_max :: "snd_interval \<Rightarrow> u32 \<Rightarrow> bool \<Rightarrow> bool cres \<times> snd_interval" where
  "snd_interval_refine_max i hi opn =
     (if snd_interval_empty i then (Inl ENOENT, i)
      else
        let (changed, i) =
              (if imax i > hi then (True, i\<lparr>imax := hi, openmax := opn\<rparr>)
               else if imax i = hi \<and> \<not> openmax i \<and> opn then (True, i\<lparr>openmax := True\<rparr>)
               else (False, i));
            i = (if integer i \<and> openmax i
                 then i\<lparr>imax := imax i - 1, openmax := False\<rparr> else i)
        in if snd_interval_checkempty i then (Inl EINVAL, snd_interval_none i)
           else (Inr changed, i))"

text \<open>\<open>r <- v\<close>: the four tightening steps of the code, in its order.\<close>

definition refine_lo :: "snd_interval \<Rightarrow> snd_interval \<Rightarrow> bool \<times> snd_interval" where
  "refine_lo i v =
     (if imin i < imin v then (True, i\<lparr>imin := imin v, openmin := openmin v\<rparr>)
      else if imin i = imin v \<and> \<not> openmin i \<and> openmin v then (True, i\<lparr>openmin := True\<rparr>)
      else (False, i))"

definition refine_hi :: "snd_interval \<Rightarrow> snd_interval \<Rightarrow> bool \<times> snd_interval" where
  "refine_hi i v =
     (if imax i > imax v then (True, i\<lparr>imax := imax v, openmax := openmax v\<rparr>)
      else if imax i = imax v \<and> \<not> openmax i \<and> openmax v then (True, i\<lparr>openmax := True\<rparr>)
      else (False, i))"

definition refine_int :: "snd_interval \<Rightarrow> snd_interval \<Rightarrow> bool \<times> snd_interval" where
  "refine_int i v =
     (if \<not> integer i \<and> integer v then (True, i\<lparr>integer := True\<rparr>) else (False, i))"

definition refine_norm :: "snd_interval \<Rightarrow> snd_interval" where
  "refine_norm i =
     (if integer i then
        let i = (if openmin i then i\<lparr>imin := imin i + 1, openmin := False\<rparr> else i)
        in if openmax i then i\<lparr>imax := imax i - 1, openmax := False\<rparr> else i
      else if \<not> openmin i \<and> \<not> openmax i \<and> imin i = imax i then i\<lparr>integer := True\<rparr>
      else i)"

definition snd_interval_refine :: "snd_interval \<Rightarrow> snd_interval \<Rightarrow> bool cres \<times> snd_interval" where
  "snd_interval_refine i v =
     (if snd_interval_empty i then (Inl ENOENT, i)
      else
        let (c1, i) = refine_lo i v;
            (c2, i) = refine_hi i v;
            (c3, i) = refine_int i v;
            i = refine_norm i
        in if snd_interval_checkempty i then (Inl EINVAL, snd_interval_none i)
           else (Inr (c1 \<or> c2 \<or> c3), i))"

definition snd_interval_refine_first :: "snd_interval \<Rightarrow> bool cres \<times> snd_interval" where
  "snd_interval_refine_first i =
     (if snd_interval_empty i then (Inl ENOENT, i)
      else if snd_interval_single i = Inr True then (Inr False, i)
      else let i = i\<lparr>imax := imin i, openmax := openmin i\<rparr>
           in (Inr True, if openmax i then i\<lparr>imax := imax i + 1\<rparr> else i))"

definition snd_interval_refine_last :: "snd_interval \<Rightarrow> bool cres \<times> snd_interval" where
  "snd_interval_refine_last i =
     (if snd_interval_empty i then (Inl ENOENT, i)
      else if snd_interval_single i = Inr True then (Inr False, i)
      else let i = i\<lparr>imin := imax i, openmin := openmax i\<rparr>
           in (Inr True, if openmin i then i\<lparr>imin := imin i - 1\<rparr> else i))"

definition snd_interval_refine_set :: "snd_interval \<Rightarrow> u32 \<Rightarrow> bool cres \<times> snd_interval" where
  "snd_interval_refine_set i val =
     snd_interval_refine i
       \<lparr>imin = val, imax = val, openmin = False, openmax = False,
        integer = True, iempty = False\<rparr>"

section \<open>Arithmetic on intervals\<close>

text \<open>
  The result argument \<open>c\<close> is the memory the C function writes to: when an operand is
  empty only its \<open>empty\<close> flag is written.
\<close>

definition snd_interval_add :: "snd_interval \<Rightarrow> snd_interval \<Rightarrow> snd_interval \<Rightarrow> snd_interval" where
  "snd_interval_add a b c =
     (if iempty a \<or> iempty b then snd_interval_none c
      else \<lparr>imin = add (imin a) (imin b), imax = add (imax a) (imax b),
            openmin = (openmin a \<or> openmin b), openmax = (openmax a \<or> openmax b),
            integer = (integer a \<and> integer b), iempty = False\<rparr>)"

definition snd_interval_sub :: "snd_interval \<Rightarrow> snd_interval \<Rightarrow> snd_interval \<Rightarrow> snd_interval" where
  "snd_interval_sub a b c =
     (if iempty a \<or> iempty b then snd_interval_none c
      else \<lparr>imin = sub (imin a) (imax b), imax = add (imax a) (imin b),
            openmin = (openmin a \<or> openmax b), openmax = (openmax a \<or> openmin b),
            integer = (integer a \<and> integer b), iempty = False\<rparr>)"

definition snd_interval_mul :: "snd_interval \<Rightarrow> snd_interval \<Rightarrow> snd_interval \<Rightarrow> snd_interval" where
  "snd_interval_mul a b c =
     (if iempty a \<or> iempty b then snd_interval_none c
      else \<lparr>imin = mul (imin a) (imin b), imax = mul (imax a) (imax b),
            openmin = (openmin a \<or> openmin b), openmax = (openmax a \<or> openmax b),
            integer = (integer a \<and> integer b), iempty = False\<rparr>)"

definition snd_interval_div :: "snd_interval \<Rightarrow> snd_interval \<Rightarrow> snd_interval \<Rightarrow> snd_interval" where
  "snd_interval_div a b c =
     (if iempty a \<or> iempty b then snd_interval_none c
      else
        let (lo, r) = div32 (imin a) (imax b);
            olo = (r \<noteq> 0 \<or> openmin a \<or> openmax b);
            (hi, ohi) =
              (if imin b > 0 then
                 let (q, r) = div32 (imax a) (imin b)
                 in if r \<noteq> 0 then (q + 1, True) else (q, openmax a \<or> openmin b)
               else (UINT_MAX, False))
        in \<lparr>imin = lo, imax = hi, openmin = olo, openmax = ohi,
            integer = False, iempty = False\<rparr>)"

text \<open>
  The three scaled operations can fail an assertion in \<open>muldiv32\<close>; the common upper bound
  computation rounds up and opens the bound when the division is not exact.
\<close>

definition muldiv_hi :: "u32 \<times> u32 \<Rightarrow> bool \<Rightarrow> u32 \<times> bool" where
  "muldiv_hi qr opn = (case qr of (q, r) \<Rightarrow> if r \<noteq> 0 then (q + 1, True) else (q, opn))"

definition snd_interval_muldiv ::
    "snd_interval \<Rightarrow> snd_interval \<Rightarrow> snd_interval \<Rightarrow> snd_interval \<Rightarrow> snd_interval option" where
  "snd_interval_muldiv a b c d =
     (if iempty a \<or> iempty b \<or> iempty c then Some (snd_interval_none d)
      else case muldiv32 (imin a) (imin b) (imax c) of
        None \<Rightarrow> None
      | Some (lo, r) \<Rightarrow>
        (case muldiv32 (imax a) (imax b) (imin c) of
           None \<Rightarrow> None
         | Some qr \<Rightarrow>
           (let (hi, ohi) = muldiv_hi qr (openmax a \<or> openmax b \<or> openmin c)
            in Some \<lparr>imin = lo, imax = hi,
                 openmin = (r \<noteq> 0 \<or> openmin a \<or> openmin b \<or> openmax c),
                 openmax = ohi, integer = False, iempty = False\<rparr>)))"

definition snd_interval_muldivk ::
    "snd_interval \<Rightarrow> snd_interval \<Rightarrow> u32 \<Rightarrow> snd_interval \<Rightarrow> snd_interval option" where
  "snd_interval_muldivk a b k c =
     (if iempty a \<or> iempty b then Some (snd_interval_none c)
      else case muldiv32 (imin a) (imin b) k of
        None \<Rightarrow> None
      | Some (lo, r) \<Rightarrow>
        (case muldiv32 (imax a) (imax b) k of
           None \<Rightarrow> None
         | Some qr \<Rightarrow>
           (let (hi, ohi) = muldiv_hi qr (openmax a \<or> openmax b)
            in Some \<lparr>imin = lo, imax = hi, openmin = (r \<noteq> 0 \<or> openmin a \<or> openmin b),
                 openmax = ohi, integer = False, iempty = False\<rparr>)))"

definition snd_interval_mulkdiv ::
    "snd_interval \<Rightarrow> u32 \<Rightarrow> snd_interval \<Rightarrow> snd_interval \<Rightarrow> snd_interval option" where
  "snd_interval_mulkdiv a k b c =
     (if iempty a \<or> iempty b then Some (snd_interval_none c)
      else case muldiv32 (imin a) k (imax b) of
        None \<Rightarrow> None
      | Some (lo, r) \<Rightarrow>
        (case (if imin b > 0 then map_option (\<lambda>qr. muldiv_hi qr (openmax a \<or> openmin b))
                                    (muldiv32 (imax a) k (imin b))
               else Some (UINT_MAX, False)) of
           None \<Rightarrow> None
         | Some (hi, ohi) \<Rightarrow>
           Some \<lparr>imin = lo, imax = hi, openmin = (r \<noteq> 0 \<or> openmin a \<or> openmax b),
             openmax = ohi, integer = False, iempty = False\<rparr>))"

section \<open>Distances between bounds\<close>

text \<open>
  The helpers that choose between two candidate bounds work on \<open>int\<close>; a value outside the
  32 bit range, and a failed assertion, are \<open>None\<close>.
\<close>

definition int_ok :: "int \<Rightarrow> bool" where
  "int_ok x = (- 2147483648 \<le> x \<and> x \<le> 2147483647)"

definition dir_sign :: "int \<Rightarrow> int" where
  "dir_sign d = (if d < 0 then -1 else if d > 0 then 1 else 0)"

definition boundary_sub :: "int \<Rightarrow> int \<Rightarrow> int \<Rightarrow> int \<Rightarrow> (int \<times> int) option" where
  "boundary_sub a adir b bdir =
     (let c = a - b; cdir = dir_sign adir - dir_sign bdir
      in if \<not> int_ok c then None
         else if cdir = -2 then (if c > - 2147483648 then Some (c - 1, cdir) else None)
         else if cdir = 2 then (if c < 2147483647 then Some (c + 1, cdir) else None)
         else Some (c, cdir))"

definition boundary_lt :: "u32 \<Rightarrow> int \<Rightarrow> u32 \<Rightarrow> int \<Rightarrow> bool option" where
  "boundary_lt a adir b bdir =
     (if \<not> (a > 0 \<or> adir \<ge> 0) \<or> \<not> (b > 0 \<or> bdir \<ge> 0) then None
      else
        let (a, adir) = (if adir < 0 then (a - 1, 1) else if adir > 0 then (a, 1) else (a, adir));
            (b, bdir) = (if bdir < 0 then (b - 1, 1) else if bdir > 0 then (b, 1) else (b, bdir))
        in Some (a < b \<or> (a = b \<and> adir < bdir)))"

definition boundary_nearer :: "int \<Rightarrow> int \<Rightarrow> int \<Rightarrow> int \<Rightarrow> int \<Rightarrow> int \<Rightarrow> bool option" where
  "boundary_nearer lo lodir best bestdir hi hidir =
     (case boundary_sub best bestdir lo lodir of
        None \<Rightarrow> None
      | Some (dmin, dmindir) \<Rightarrow>
        (case boundary_sub hi hidir best bestdir of
           None \<Rightarrow> None
         | Some (dmax, dmaxdir) \<Rightarrow>
           boundary_lt (word_of_int dmin) dmindir (word_of_int dmax) dmaxdir))"

lemma word_of_int_less_nonneg:
  "0 \<le> x \<Longrightarrow> 0 \<le> y \<Longrightarrow> x < 4294967296 \<Longrightarrow> y < 4294967296 \<Longrightarrow>
     (word_of_int x :: u32) < word_of_int y \<longleftrightarrow> x < y"
  by (simp add: word_less_def uint_word_of_int)

lemma boundary_nearer_exact:
  assumes "0 \<le> lo" "lo \<le> best" "best \<le> hi" "hi \<le> 2147483647"
  shows "boundary_nearer lo 0 best 0 hi 0 = Some (best - lo < hi - best)"
  using assms by (simp add: boundary_nearer_def boundary_sub_def boundary_lt_def dir_sign_def
      int_ok_def Let_def word_of_int_less_nonneg del: of_int_diff)

section \<open>The values an interval stands for\<close>

text \<open>
  The denotation of an interval is a set of reals. \<open>proper\<close> intervals are those that are
  neither flagged nor found empty by the code's own test; on them no bound adjustment of
  \<open>snd_interval_refine\<close> can wrap around.
\<close>

definition lo_ok :: "snd_interval \<Rightarrow> real \<Rightarrow> bool" where
  "lo_ok i x = (if openmin i then ur (imin i) < x else ur (imin i) \<le> x)"

definition hi_ok :: "snd_interval \<Rightarrow> real \<Rightarrow> bool" where
  "hi_ok i x = (if openmax i then x < ur (imax i) else x \<le> ur (imax i))"

definition in_interval :: "snd_interval \<Rightarrow> real \<Rightarrow> bool" where
  "in_interval i x =
     (\<not> iempty i \<and> lo_ok i x \<and> hi_ok i x \<and> (integer i \<longrightarrow> x \<in> \<int>))"

definition proper :: "snd_interval \<Rightarrow> bool" where
  "proper i = (\<not> iempty i \<and> \<not> snd_interval_checkempty i)"

lemma proper_lo: "proper i \<Longrightarrow> openmin i \<Longrightarrow> imin i \<noteq> UINT_MAX"
  using UINT_MAX_ge [of "imax i"] by (auto simp: proper_def snd_interval_checkempty_def simp del: UINT_MAX_ge)

lemma proper_hi: "proper i \<Longrightarrow> openmax i \<Longrightarrow> imax i \<noteq> 0"
  by (auto simp: proper_def snd_interval_checkempty_def ur_cmp) (metis ur_ge_0 antisym not_less)

lemma refine_lo_ok: "lo_ok (snd (refine_lo i v)) x \<longleftrightarrow> lo_ok i x \<and> lo_ok v x"
  by (auto simp: refine_lo_def lo_ok_def ur_cmp)

lemma refine_hi_ok: "hi_ok (snd (refine_hi i v)) x \<longleftrightarrow> hi_ok i x \<and> hi_ok v x"
  by (auto simp: refine_hi_def hi_ok_def ur_cmp)

lemma refine_lo_frame [simp]:
  "imax (snd (refine_lo i v)) = imax i" "openmax (snd (refine_lo i v)) = openmax i"
  "integer (snd (refine_lo i v)) = integer i" "iempty (snd (refine_lo i v)) = iempty i"
  by (auto simp: refine_lo_def)

lemma refine_hi_frame [simp]:
  "imin (snd (refine_hi i v)) = imin i" "openmin (snd (refine_hi i v)) = openmin i"
  "integer (snd (refine_hi i v)) = integer i" "iempty (snd (refine_hi i v)) = iempty i"
  by (auto simp: refine_hi_def)

lemma refine_int_frame [simp]:
  "imin (snd (refine_int i v)) = imin i" "openmin (snd (refine_int i v)) = openmin i"
  "imax (snd (refine_int i v)) = imax i" "openmax (snd (refine_int i v)) = openmax i"
  "iempty (snd (refine_int i v)) = iempty i"
  "integer (snd (refine_int i v)) = (integer i \<or> integer v)"
  by (auto simp: refine_int_def)

lemma refine_ok_frame [simp]:
  "hi_ok (snd (refine_lo i v)) = hi_ok i"
  "lo_ok (snd (refine_hi i v)) = lo_ok i"
  "lo_ok (snd (refine_int i v)) = lo_ok i"
  "hi_ok (snd (refine_int i v)) = hi_ok i"
  by (simp_all add: fun_eq_iff lo_ok_def hi_ok_def)

lemma refine_norm_lo:
  "openmin i \<longrightarrow> imin i \<noteq> UINT_MAX \<Longrightarrow> integer i \<longrightarrow> x \<in> \<int> \<Longrightarrow>
     lo_ok (refine_norm i) x = lo_ok i x"
  by (auto simp: refine_norm_def lo_ok_def Let_def ur_inc Ints_less_iff)

lemma refine_norm_hi:
  "openmax i \<longrightarrow> imax i \<noteq> 0 \<Longrightarrow> integer i \<longrightarrow> x \<in> \<int> \<Longrightarrow>
     hi_ok (refine_norm i) x = hi_ok i x"
  by (auto simp: refine_norm_def hi_ok_def Let_def ur_dec Ints_greater_iff)

lemma refine_norm_in:
  assumes "openmin i \<longrightarrow> imin i \<noteq> UINT_MAX" "openmax i \<longrightarrow> imax i \<noteq> 0"
  shows "in_interval (refine_norm i) x = in_interval i x"
proof (cases "integer i \<longrightarrow> x \<in> \<int>")
  case True
  have i: "iempty (refine_norm i) = iempty i"
    by (simp add: refine_norm_def Let_def)
  show ?thesis
  proof (cases "integer i")
    case False
    have "lo_ok i x \<Longrightarrow> hi_ok i x \<Longrightarrow> integer (refine_norm i) \<Longrightarrow> x \<in> \<int>"
      using False by (auto simp: refine_norm_def lo_ok_def hi_ok_def Let_def split: if_splits)
    then show ?thesis
      using assms True False i by (auto simp: in_interval_def refine_norm_lo refine_norm_hi)
  next
    case int: True
    then have "integer (refine_norm i)"
      by (simp add: refine_norm_def Let_def)
    then show ?thesis
      using assms True int i by (auto simp: in_interval_def refine_norm_lo refine_norm_hi)
  qed
next
  case False
  then have "integer (refine_norm i)"
    by (simp add: refine_norm_def Let_def)
  then show ?thesis using False by (simp add: in_interval_def)
qed

text \<open>An interval that passes the emptiness check after normalisation has a member.\<close>

lemma norm_nonempty:
  assumes "\<not> iempty i" "\<not> snd_interval_checkempty i"
    "integer i \<longrightarrow> \<not> openmin i \<and> \<not> openmax i"
  shows "\<exists>x. in_interval i x"
proof -
  have le: "ur (imin i) \<le> ur (imax i)" and
    strict: "openmin i \<or> openmax i \<longrightarrow> ur (imin i) < ur (imax i)"
    using assms(2) by (auto simp: snd_interval_checkempty_def ur_cmp)
  show ?thesis
  proof (cases "openmin i \<or> openmax i")
    case True
    then have "in_interval i ((ur (imin i) + ur (imax i)) / 2)"
      using assms strict by (auto simp: in_interval_def lo_ok_def hi_ok_def)
    then show ?thesis ..
  next
    case False
    then have "in_interval i (ur (imin i))"
      using assms le by (auto simp: in_interval_def lo_ok_def hi_ok_def)
    then show ?thesis ..
  qed
qed

lemma checkempty_none: "snd_interval_checkempty i \<Longrightarrow> \<not> in_interval i x"
  by (auto simp: snd_interval_checkempty_def in_interval_def lo_ok_def hi_ok_def ur_cmp split: if_splits)

definition refined :: "snd_interval \<Rightarrow> snd_interval \<Rightarrow> snd_interval" where
  "refined i v = refine_norm (snd (refine_int (snd (refine_hi (snd (refine_lo i v)) v)) v))"

lemma refine_unfold:
  "\<not> iempty i \<Longrightarrow> snd_interval_refine i v =
     (if snd_interval_checkempty (refined i v) then (Inl EINVAL, snd_interval_none (refined i v))
      else (Inr (fst (refine_lo i v) \<or> fst (refine_hi (snd (refine_lo i v)) v) \<or>
                 fst (refine_int (snd (refine_hi (snd (refine_lo i v)) v)) v)), refined i v))"
  by (simp add: snd_interval_refine_def refined_def snd_interval_empty_def split: prod.split)

lemma in_refined:
  assumes "proper i" "proper v"
  shows "in_interval (refined i v) x \<longleftrightarrow> in_interval i x \<and> in_interval v x"
proof -
  let ?j = "snd (refine_int (snd (refine_hi (snd (refine_lo i v)) v)) v)"
  have "openmin ?j \<longrightarrow> imin ?j \<noteq> UINT_MAX"
    using proper_lo [OF assms(1)] proper_lo [OF assms(2)] by (auto simp: refine_lo_def)
  moreover have "openmax ?j \<longrightarrow> imax ?j \<noteq> 0"
    using proper_hi [OF assms(1)] proper_hi [OF assms(2)] by (auto simp: refine_hi_def)
  ultimately have "in_interval (refined i v) x = in_interval ?j x"
    unfolding refined_def by (rule refine_norm_in)
  also have "\<dots> = (\<not> iempty i \<and> lo_ok (snd (refine_lo i v)) x \<and>
      hi_ok (snd (refine_hi (snd (refine_lo i v)) v)) x \<and> (integer i \<or> integer v \<longrightarrow> x \<in> \<int>))"
    by (simp add: in_interval_def)
  also have "\<dots> = (in_interval i x \<and> in_interval v x)"
    using assms by (auto simp: in_interval_def refine_lo_ok refine_hi_ok proper_def)
  finally show ?thesis .
qed

section \<open>The arithmetic encloses the exact values\<close>

lemma unat_mul_u64: "unat ((ucast (a :: u32) :: u64) * ucast (b :: u32)) = unat a * unat b"
proof -
  have "unat a * unat b \<le> 4294967295 * 4294967295"
    by (intro mult_le_mono unat_u32_le)
  then show ?thesis
    by (simp add: unat_word_ariths unat_ucast_u64)
qed

lemma muldiv32_spec:
  assumes "c \<noteq> 0"
  obtains q r where "muldiv32 a b c = Some (q, r)"
    "q = UINT_MAX \<and> r = 0 \<and> 4294967295 * ur c \<le> ur a * ur b \<or>
     q \<noteq> UINT_MAX \<and> ur a * ur b = ur q * ur c + ur r \<and> ur r < ur c"
proof -
  let ?n = "(ucast a :: u64) * ucast b"
  have c: "unat (ucast c :: u64) = unat c" and c0: "0 < unat c"
    using assms by (simp_all add: unat_ucast_u64 unat_gt_0)
  have n: "unat ?n = unat a * unat b" by (rule unat_mul_u64)
  have q: "unat (?n div ucast c) = unat a * unat b div unat c"
    by (simp only: unat_div_distrib n c)
  have r: "unat (?n mod ucast c) = unat a * unat b mod unat c"
    by (simp only: unat_mod_distrib n c)
  show thesis
  proof (cases "?n div ucast c \<ge> ucast UINT_MAX")
    case True
    then have "4294967295 \<le> unat a * unat b div unat c"
      by (simp add: word_le_nat_alt q)
    then have "4294967295 * unat c \<le> unat a * unat b"
      using c0 by (simp add: less_eq_div_iff_mult_less_eq)
    then have "4294967295 * ur c \<le> ur a * ur b"
      unfolding ur_def by (metis of_nat_le_iff of_nat_mult of_nat_numeral)
    moreover have "muldiv32 a b c = Some (UINT_MAX, 0)"
      using True assms by (simp add: muldiv32_def Let_def)
    ultimately show thesis using that by blast
  next
    case False
    let ?q = "ucast (?n div ucast c) :: u32" and ?r = "ucast (?n mod ucast c) :: u32"
    have lt: "unat a * unat b div unat c < 4294967295"
      using False by (simp add: word_le_nat_alt q)
    have uq: "unat ?q = unat a * unat b div unat c"
      using lt by (simp add: unat_ucast_fits q)
    have ur': "unat ?r = unat a * unat b mod unat c"
      using mod_less_divisor [OF c0, of "unat a * unat b"] unat_u32_less [of c]
      by (simp add: unat_ucast_fits r)
    have split: "unat a * unat b = unat ?q * unat c + unat ?r"
      unfolding uq ur' by simp
    have "ur a * ur b = real (unat a * unat b)"
      by (simp only: ur_def of_nat_mult)
    also have "\<dots> = real (unat ?q * unat c + unat ?r)"
      by (simp only: split)
    also have "\<dots> = ur ?q * ur c + ur ?r"
      by (simp only: ur_def of_nat_mult of_nat_add)
    finally have "ur a * ur b = ur ?q * ur c + ur ?r" .
    moreover have "ur ?r < ur c"
      unfolding ur_def of_nat_less_iff ur' by (rule mod_less_divisor [OF c0])
    moreover have "?q \<noteq> UINT_MAX"
    proof
      assume "?q = UINT_MAX"
      then have "unat ?q = 4294967295" by (simp only: unat_UINT_MAX)
      with lt uq show False by linarith
    qed
    moreover have "muldiv32 a b c = Some (?q, ?r)"
      using False assms by (simp add: muldiv32_def Let_def)
    ultimately show thesis using that by blast
  qed
qed

lemma ur_mul: "ur (mul a b) = min (ur a * ur b) 4294967295"
proof (cases "a = 0")
  case True
  then show ?thesis by (simp add: mul_def)
next
  case False
  then have a: "0 < unat a" by (simp add: unat_gt_0)
  have iff: "div_down UINT_MAX a < b \<longleftrightarrow> 4294967295 < unat a * unat b"
    using a False by (simp add: div_down_def word_less_nat_alt unat_div_distrib
        div_less_iff_less_mult mult.commute)
  show ?thesis
  proof (cases "div_down UINT_MAX a < b")
    case True
    then have "4294967295 < unat a * unat b" by (simp only: iff)
    then have "4294967295 < ur a * ur b"
      unfolding ur_def by (metis of_nat_less_iff of_nat_mult of_nat_numeral)
    then show ?thesis using True False by (simp add: mul_def)
  next
    case le: False
    then have "unat a * unat b \<le> 4294967295" by (simp only: iff not_less)
    moreover from this have "unat (a * b) = unat a * unat b"
      by (simp add: unat_word_ariths)
    ultimately have "ur (a * b) = ur a * ur b" "ur a * ur b \<le> 4294967295"
      unfolding ur_def by (simp_all del: of_nat_unat) (metis of_nat_le_iff of_nat_mult of_nat_numeral)
    then show ?thesis using le False by (simp add: mul_def)
  qed
qed

lemma div32_spec:
  assumes "b \<noteq> 0"
  obtains q r where "div32 a b = (q, r)" "ur a = ur q * ur b + ur r" "ur r < ur b"
proof
  show "div32 a b = (a div b, a mod b)" using assms by (simp add: div32_def)
  have "unat a = unat (a div b) * unat b + unat (a mod b)"
    by (simp add: unat_div_distrib unat_mod_distrib)
  then show "ur a = ur (a div b) * ur b + ur (a mod b)"
    unfolding ur_def by (metis of_nat_add of_nat_mult)
  show "ur (a mod b) < ur b"
    using assms by (simp add: ur_def unat_mod_distrib unat_gt_0 del: of_nat_unat)
qed

lemma prod_ge:
  fixes p q x y :: real
  assumes "0 \<le> p" "p \<le> x" "0 \<le> q" "q \<le> y" "0 < x" "0 < y"
  shows "p * q \<le> x * y" "p < x \<or> q < y \<Longrightarrow> p * q < x * y"
proof -
  show "p * q \<le> x * y" using assms by (intro mult_mono) auto
  assume "p < x \<or> q < y"
  then show "p * q < x * y"
  proof
    assume "p < x"
    have "p * q \<le> p * y" using assms by (intro mult_left_mono) auto
    also have "\<dots> < x * y" using \<open>p < x\<close> assms by simp
    finally show ?thesis .
  next
    assume "q < y"
    have "p * q \<le> x * q" using assms by (intro mult_right_mono) auto
    also have "\<dots> < x * y" using \<open>q < y\<close> assms by simp
    finally show ?thesis .
  qed
qed

lemma in_intervalD:
  "in_interval i x \<Longrightarrow> ur (imin i) \<le> x \<and> x \<le> ur (imax i) \<and>
     (openmin i \<longrightarrow> ur (imin i) < x) \<and> (openmax i \<longrightarrow> x < ur (imax i)) \<and>
     (integer i \<longrightarrow> x \<in> \<int>) \<and> \<not> iempty i"
  by (auto simp: in_interval_def lo_ok_def hi_ok_def split: if_splits)

lemma in_mul:
  assumes "in_interval a x" "in_interval b y" "0 < x" "0 < y" "x * y < 4294967295"
  shows "in_interval (snd_interval_mul a b c) (x * y)"
proof -
  note a = in_intervalD [OF assms(1)] and b = in_intervalD [OF assms(2)]
  have lo: "ur (imin a) * ur (imin b) \<le> x * y"
    "openmin a \<or> openmin b \<Longrightarrow> ur (imin a) * ur (imin b) < x * y"
    using prod_ge [of "ur (imin a)" x "ur (imin b)" y] a b assms by auto
  have hi: "x * y \<le> ur (imax a) * ur (imax b)"
    "openmax a \<or> openmax b \<Longrightarrow> x * y < ur (imax a) * ur (imax b)"
    using prod_ge [of x "ur (imax a)" y "ur (imax b)"] a b assms by auto
  show ?thesis
    using a b lo hi assms(5) by (auto simp: in_interval_def lo_ok_def hi_ok_def
        snd_interval_mul_def ur_mul)
qed

text \<open>
  The bounds computed by a rounding division: the quotient bounds from below, the quotient
  plus one from above when there is a remainder.
\<close>

lemma quot_bounds:
  fixes n d :: real
  assumes "0 < d" "n = ur q * d + ur r" "ur r < d"
  shows "ur q \<le> n / d" "ur r \<noteq> 0 \<Longrightarrow> ur q < n / d" "ur r = 0 \<Longrightarrow> ur q = n / d"
    "n / d < ur q + 1"
  using assms ur_ge_0 [of r] by (auto simp: field_simps less_le simp del: ur_ge_0)

text \<open>Quotients of products, monotone in every argument.\<close>

lemma frac_ge:
  fixes p q d x y e :: real
  assumes "0 \<le> p" "p \<le> x" "0 \<le> q" "q \<le> y" "0 < x" "0 < y" "0 < e" "e \<le> d"
  shows "p * q / d \<le> x * y / e" "p < x \<or> q < y \<or> e < d \<Longrightarrow> p * q / d < x * y / e"
proof -
  have xy: "0 < x * y" using assms by simp
  have "p * q / d \<le> x * y / d"
    using prod_ge(1) [OF assms(1-6)] assms by (simp add: divide_right_mono)
  also have "\<dots> \<le> x * y / e"
    using xy assms by (intro divide_left_mono) auto
  finally show "p * q / d \<le> x * y / e" .
  assume "p < x \<or> q < y \<or> e < d"
  then consider "p < x \<or> q < y" | "e < d" by blast
  then show "p * q / d < x * y / e"
  proof cases
    case 1
    then have "p * q < x * y" using prod_ge(2) [OF assms(1-6)] by simp
    then have "p * q / d < x * y / d" using assms by (simp add: divide_strict_right_mono)
    also have "\<dots> \<le> x * y / e" using xy assms by (intro divide_left_mono) auto
    finally show ?thesis .
  next
    case 2
    have "p * q / d \<le> x * y / d"
      using prod_ge(1) [OF assms(1-6)] assms by (simp add: divide_right_mono)
    also have "\<dots> < x * y / e"
      using xy assms 2 by (intro divide_strict_left_mono) auto
    finally show ?thesis .
  qed
qed

text \<open>The lower and the upper bound of a scaled operation enclose the exact value \<open>z\<close>.\<close>

lemma muldiv32_lo:
  assumes "muldiv32 a b c = Some (lo, r)" "c \<noteq> 0" "z < 4294967295"
    and "ur a * ur b / ur c \<le> z" "opn \<Longrightarrow> ur a * ur b / ur c < z"
  shows "if r \<noteq> 0 \<or> opn then ur lo < z else ur lo \<le> z"
proof -
  have c: "0 < ur c" using assms(2) by (simp add: ur_pos)
  obtain q s where qs: "muldiv32 a b c = Some (q, s)"
    "q = UINT_MAX \<and> s = 0 \<and> 4294967295 * ur c \<le> ur a * ur b \<or>
     q \<noteq> UINT_MAX \<and> ur a * ur b = ur q * ur c + ur s \<and> ur s < ur c"
    by (rule muldiv32_spec [OF assms(2)])
  then have [simp]: "q = lo" "s = r" using assms(1) by auto
  from qs(2) show ?thesis
  proof
    assume "q = UINT_MAX \<and> s = 0 \<and> 4294967295 * ur c \<le> ur a * ur b"
    then have "4294967295 \<le> ur a * ur b / ur c" using c by (simp add: field_simps)
    then show ?thesis using assms by linarith
  next
    assume "q \<noteq> UINT_MAX \<and> ur a * ur b = ur q * ur c + ur s \<and> ur s < ur c"
    then have "ur a * ur b = ur lo * ur c + ur r" "ur r < ur c" by auto
    note quot_bounds [OF c this]
    then show ?thesis using assms(4,5) by (auto simp: ur_eq [of r 0])
  qed
qed

lemma muldiv32_hi:
  assumes "muldiv32 a b c = Some qr" "c \<noteq> 0" "z < 4294967295" "muldiv_hi qr opn = (hi, ohi)"
    and "z \<le> ur a * ur b / ur c" "opn \<Longrightarrow> z < ur a * ur b / ur c"
  shows "if ohi then z < ur hi else z \<le> ur hi"
proof -
  have c: "0 < ur c" using assms(2) by (simp add: ur_pos)
  obtain q s where qs: "muldiv32 a b c = Some (q, s)"
    "q = UINT_MAX \<and> s = 0 \<and> 4294967295 * ur c \<le> ur a * ur b \<or>
     q \<noteq> UINT_MAX \<and> ur a * ur b = ur q * ur c + ur s \<and> ur s < ur c"
    by (rule muldiv32_spec [OF assms(2)])
  then have [simp]: "qr = (q, s)" using assms(1) by auto
  from qs(2) show ?thesis
  proof
    assume "q = UINT_MAX \<and> s = 0 \<and> 4294967295 * ur c \<le> ur a * ur b"
    then show ?thesis using assms(3,4) by (auto simp: muldiv_hi_def)
  next
    assume "q \<noteq> UINT_MAX \<and> ur a * ur b = ur q * ur c + ur s \<and> ur s < ur c"
    then have *: "ur a * ur b = ur q * ur c + ur s" "ur s < ur c" "q \<noteq> UINT_MAX" by auto
    note quot_bounds [OF c *(1,2)]
    then show ?thesis using assms(4-6) *(3)
      by (auto simp: muldiv_hi_def ur_inc ur_eq [of s 0] split: if_splits)
  qed
qed


lemma in_muldivk:
  assumes "in_interval a x" "in_interval b y" "0 < x" "0 < y" "k \<noteq> 0"
    and "x * y / ur k < 4294967295" "snd_interval_muldivk a b k c = Some d"
  shows "in_interval d (x * y / ur k)"
proof -
  note a = in_intervalD [OF assms(1)] and b = in_intervalD [OF assms(2)]
  have k: "0 < ur k" using assms(5) by (simp add: ur_pos)
  have ne: "\<not> (iempty a \<or> iempty b)" using a b by blast
  then obtain lo r qr hi ohi where
    l: "muldiv32 (imin a) (imin b) k = Some (lo, r)" and
    h: "muldiv32 (imax a) (imax b) k = Some qr" and
    m: "muldiv_hi qr (openmax a \<or> openmax b) = (hi, ohi)" and
    d: "d = \<lparr>imin = lo, imax = hi, openmin = (r \<noteq> 0 \<or> openmin a \<or> openmin b),
                 openmax = ohi, integer = False, iempty = False\<rparr>"
    using assms(7) by (auto simp: snd_interval_muldivk_def split: option.splits prod.splits)
  have "if r \<noteq> 0 \<or> (openmin a \<or> openmin b) then ur lo < x * y / ur k else ur lo \<le> x * y / ur k"
    using a b assms k frac_ge [of "ur (imin a)" x "ur (imin b)" y "ur k" "ur k"]
    by (intro muldiv32_lo [OF l assms(5,6)]) auto
  moreover have "if ohi then x * y / ur k < ur hi else x * y / ur k \<le> ur hi"
    using a b assms k frac_ge [of x "ur (imax a)" y "ur (imax b)" "ur k" "ur k"]
    by (intro muldiv32_hi [OF h assms(5,6) m]) auto
  ultimately show ?thesis
    by (auto simp: d in_interval_def lo_ok_def hi_ok_def split: if_splits)
qed

lemma in_mulkdiv:
  assumes "in_interval a x" "in_interval b y" "0 < x" "0 < y" "k \<noteq> 0"
    and "x * ur k / y < 4294967295" "snd_interval_mulkdiv a k b c = Some d"
  shows "in_interval d (x * ur k / y)"
proof -
  note a = in_intervalD [OF assms(1)] and b = in_intervalD [OF assms(2)]
  have k: "0 < ur k" using assms(5) by (simp add: ur_pos)
  have bm: "0 < ur (imax b)" using b assms(4) by linarith
  then have bm': "imax b \<noteq> 0" by (simp add: ur_pos)
  have ne: "\<not> (iempty a \<or> iempty b)" using a b by blast
  then obtain lo r hi ohi where
    l: "muldiv32 (imin a) k (imax b) = Some (lo, r)" and
    h: "(if imin b > 0 then map_option (\<lambda>qr. muldiv_hi qr (openmax a \<or> openmin b))
                                    (muldiv32 (imax a) k (imin b))
               else Some (UINT_MAX, False)) = Some (hi, ohi)" and
    d: "d = \<lparr>imin = lo, imax = hi, openmin = (r \<noteq> 0 \<or> openmin a \<or> openmax b),
                 openmax = ohi, integer = False, iempty = False\<rparr>"
    using assms(7) by (auto simp: snd_interval_mulkdiv_def split: option.splits prod.splits)
  have "if r \<noteq> 0 \<or> (openmin a \<or> openmax b) then ur lo < x * ur k / y else ur lo \<le> x * ur k / y"
    using a b assms k frac_ge [of "ur (imin a)" x "ur k" "ur k" y "ur (imax b)"]
    by (intro muldiv32_lo [OF l bm' assms(6)]) auto
  moreover have "if ohi then x * ur k / y < ur hi else x * ur k / y \<le> ur hi"
  proof (cases "imin b > 0")
    case True
    then have bp: "imin b \<noteq> 0" "0 < ur (imin b)" by (auto simp: ur_pos)
    from True h obtain qr where q: "muldiv32 (imax a) k (imin b) = Some qr"
      "muldiv_hi qr (openmax a \<or> openmin b) = (hi, ohi)" by auto
    show ?thesis
      using a b assms k bp frac_ge [of x "ur (imax a)" "ur k" "ur k" "ur (imin b)" y]
      by (intro muldiv32_hi [OF q(1) bp(1) assms(6) q(2)]) auto
  next
    case False
    then show ?thesis using h assms(6) by auto
  qed
  ultimately show ?thesis
    by (auto simp: d in_interval_def lo_ok_def hi_ok_def split: if_splits)
qed

lemma in_div:
  assumes "in_interval a x" "in_interval b y" "0 < x" "0 < y" "x / y < 4294967295"
  shows "in_interval (snd_interval_div a b c) (x / y)"
proof -
  note a = in_intervalD [OF assms(1)] and b = in_intervalD [OF assms(2)]
  have bm: "0 < ur (imax b)" using b assms(4) by linarith
  then have bm': "imax b \<noteq> 0" by (simp add: ur_pos)
  obtain lo r where l: "div32 (imin a) (imax b) = (lo, r)"
    "ur (imin a) = ur lo * ur (imax b) + ur r" "ur r < ur (imax b)"
    by (rule div32_spec [OF bm'])
  note ql = quot_bounds [OF bm l(2,3)]
  have lo: "if r \<noteq> 0 \<or> openmin a \<or> openmax b then ur lo < x / y else ur lo \<le> x / y"
    using a b assms ql frac_ge [of "ur (imin a)" x 1 1 y "ur (imax b)"]
    by (auto simp: ur_eq [of r 0])
  show ?thesis
  proof (cases "imin b > 0")
    case True
    then have bp: "imin b \<noteq> 0" "0 < ur (imin b)" by (auto simp: ur_pos)
    obtain q s where h: "div32 (imax a) (imin b) = (q, s)"
      "ur (imax a) = ur q * ur (imin b) + ur s" "ur s < ur (imin b)"
      by (rule div32_spec [OF bp(1)])
    note qh = quot_bounds [OF bp(2) h(2,3)]
    have fr: "x / y \<le> ur (imax a) / ur (imin b)"
      "openmax a \<or> openmin b \<Longrightarrow> x / y < ur (imax a) / ur (imin b)"
      using a b assms bp frac_ge [of x "ur (imax a)" 1 1 "ur (imin b)" y] by auto
    have "q \<noteq> UINT_MAX \<or> s = 0"
    proof (rule ccontr)
      assume "\<not> ?thesis"
      then have "ur (imax a) = 4294967295 * ur (imin b) + ur s" "0 < ur s" "1 \<le> ur (imin b)"
        using h(2) bp by (auto simp: ur_pos ur_def unat_gt_0 Suc_leI simp del: of_nat_unat)
      then show False using ur_le_max [of "imax a"] by (smt (verit))
    qed
    then have hi: "if s \<noteq> 0 then x / y < ur (q + 1)
        else if openmax a \<or> openmin b then x / y < ur q else x / y \<le> ur q"
      using qh fr by (auto simp: ur_inc ur_eq [of s 0])
    show ?thesis using a b lo hi l(1) h(1) True
      by (auto simp: in_interval_def lo_ok_def hi_ok_def snd_interval_div_def split: if_splits)
  next
    case False
    then show ?thesis using a b lo l(1) assms(5)
      by (auto simp: in_interval_def lo_ok_def hi_ok_def snd_interval_div_def split: if_splits)
  qed
qed

text \<open>Refining the bounds one at a time.\<close>

lemma refine_min_exact:
  assumes "proper i" "opn \<longrightarrow> lo \<noteq> UINT_MAX" "snd_interval_refine_min i lo opn = (r, j)"
  shows "(\<exists>c. r = Inr c) \<or> r = Inl EINVAL"
    "in_interval j x \<longleftrightarrow> in_interval i x \<and> (if opn then ur lo < x else ur lo \<le> x)"
    "r = Inl EINVAL \<longleftrightarrow> iempty j"
proof -
  let ?v = "i\<lparr>imin := lo, openmin := opn\<rparr>"
  define k where "k = snd (refine_lo i ?v)"
  define m where "m = (if integer k \<and> openmin k then k\<lparr>imin := imin k + 1, openmin := False\<rparr> else k)"
  have ne: "\<not> iempty i" using assms(1) by (simp add: proper_def)
  have j: "(r, j) = (if snd_interval_checkempty m then (Inl EINVAL, snd_interval_none m)
      else (Inr (fst (refine_lo i ?v)), m))"
    unfolding assms(3) [symmetric] using ne
    by (auto simp: snd_interval_refine_min_def snd_interval_empty_def m_def k_def refine_lo_def Let_def)
  have km: "openmin k \<longrightarrow> imin k \<noteq> UINT_MAX"
    using proper_lo [OF assms(1)] assms(2) by (auto simp: k_def refine_lo_def)
  have lok: "lo_ok k x \<longleftrightarrow> lo_ok i x \<and> (if opn then ur lo < x else ur lo \<le> x)"
    unfolding k_def refine_lo_ok by (simp add: lo_ok_def)
  have "integer k \<longrightarrow> x \<in> \<int> \<Longrightarrow> lo_ok m x = lo_ok k x"
    using km by (auto simp: m_def lo_ok_def ur_inc Ints_less_iff)
  moreover have "hi_ok m = hi_ok k" "integer m = integer k" "iempty m = iempty k"
    by (auto simp: m_def hi_ok_def fun_eq_iff)
  moreover have "hi_ok k = hi_ok i" "integer k = integer i" "iempty k = iempty i"
    by (simp_all add: k_def)
  ultimately have in_m: "in_interval m x \<longleftrightarrow> in_interval i x \<and> (if opn then ur lo < x else ur lo \<le> x)"
    and nem: "\<not> iempty m" using lok ne by (auto simp: in_interval_def)
  show "(\<exists>c. r = Inr c) \<or> r = Inl EINVAL" using j by (auto split: if_splits)
  show "in_interval j x \<longleftrightarrow> in_interval i x \<and> (if opn then ur lo < x else ur lo \<le> x)"
    using j in_m checkempty_none [of m x]
    by (cases "snd_interval_checkempty m") (simp_all add: snd_interval_none_def in_interval_def [of "_\<lparr>iempty := _\<rparr>"])
  show "r = Inl EINVAL \<longleftrightarrow> iempty j"
    using j nem by (auto simp: snd_interval_none_def split: if_splits)
qed

lemma refine_max_exact:
  assumes "proper i" "opn \<longrightarrow> hi \<noteq> 0" "snd_interval_refine_max i hi opn = (r, j)"
  shows "(\<exists>c. r = Inr c) \<or> r = Inl EINVAL"
    "in_interval j x \<longleftrightarrow> in_interval i x \<and> (if opn then x < ur hi else x \<le> ur hi)"
    "r = Inl EINVAL \<longleftrightarrow> iempty j"
proof -
  let ?v = "i\<lparr>imax := hi, openmax := opn\<rparr>"
  define k where "k = snd (refine_hi i ?v)"
  define m where "m = (if integer k \<and> openmax k then k\<lparr>imax := imax k - 1, openmax := False\<rparr> else k)"
  have ne: "\<not> iempty i" using assms(1) by (simp add: proper_def)
  have j: "(r, j) = (if snd_interval_checkempty m then (Inl EINVAL, snd_interval_none m)
      else (Inr (fst (refine_hi i ?v)), m))"
    unfolding assms(3) [symmetric] using ne
    by (auto simp: snd_interval_refine_max_def snd_interval_empty_def m_def k_def refine_hi_def Let_def)
  have km: "openmax k \<longrightarrow> imax k \<noteq> 0"
    using proper_hi [OF assms(1)] assms(2) by (auto simp: k_def refine_hi_def)
  have lok: "hi_ok k x \<longleftrightarrow> hi_ok i x \<and> (if opn then x < ur hi else x \<le> ur hi)"
    unfolding k_def refine_hi_ok by (simp add: hi_ok_def)
  have "integer k \<longrightarrow> x \<in> \<int> \<Longrightarrow> hi_ok m x = hi_ok k x"
    using km by (auto simp: m_def hi_ok_def ur_dec Ints_greater_iff)
  moreover have "lo_ok m = lo_ok k" "integer m = integer k" "iempty m = iempty k"
    by (auto simp: m_def lo_ok_def fun_eq_iff)
  moreover have "lo_ok k = lo_ok i" "integer k = integer i" "iempty k = iempty i"
    by (simp_all add: k_def)
  ultimately have in_m: "in_interval m x \<longleftrightarrow> in_interval i x \<and> (if opn then x < ur hi else x \<le> ur hi)"
    and nem: "\<not> iempty m" using lok ne by (auto simp: in_interval_def)
  show "(\<exists>c. r = Inr c) \<or> r = Inl EINVAL" using j by (auto split: if_splits)
  show "in_interval j x \<longleftrightarrow> in_interval i x \<and> (if opn then x < ur hi else x \<le> ur hi)"
    using j in_m checkempty_none [of m x]
    by (cases "snd_interval_checkempty m") (simp_all add: snd_interval_none_def in_interval_def [of "_\<lparr>iempty := _\<rparr>"])
  show "r = Inl EINVAL \<longleftrightarrow> iempty j"
    using j nem by (auto simp: snd_interval_none_def split: if_splits)
qed

text \<open>
  A value in an interval keeps it proper, so soundness of refinement needs no more than a
  common member.
\<close>

lemma in_proper: "in_interval i x \<Longrightarrow> proper i"
  using checkempty_none [of i x] by (auto simp: proper_def in_interval_def)

lemma refine_keeps:
  assumes "in_interval i x" "in_interval v x"
  obtains c j where "snd_interval_refine i v = (Inr c, j)" "in_interval j x"
proof -
  have "\<not> snd_interval_checkempty (refined i v)" "in_interval (refined i v) x"
    using in_refined [OF in_proper in_proper, OF assms] checkempty_none assms by blast+
  moreover have "\<not> iempty i" using assms(1) by (simp add: in_interval_def)
  ultimately show thesis using that by (simp add: refine_unfold)
qed

text \<open>Every change reported by refinement makes the interval smaller.\<close>

definition ivl_size :: "snd_interval \<Rightarrow> nat" where
  "ivl_size i = 2 * (4294967295 - unat (imin i)) + (if openmin i then 0 else 1) +
     2 * unat (imax i) + (if openmax i then 0 else 1) + (if integer i then 0 else 1)"

lemma refine_norm_size:
  assumes "openmin i \<longrightarrow> imin i \<noteq> UINT_MAX" "openmax i \<longrightarrow> imax i \<noteq> 0"
  shows "ivl_size (refine_norm i) \<le> ivl_size i"
proof -
  have "openmin i \<Longrightarrow> unat (imin i + 1) = unat (imin i) + 1" "openmax i \<Longrightarrow> unat (imax i - 1) = unat (imax i) - 1"
    using assms by (simp_all add: unat_inc_u32 unat_dec)
  moreover have "openmin i \<Longrightarrow> unat (imin i) < 4294967295"
    using assms(1) unat_u32_le [of "imin i"] by (metis le_neq_implies_less unat_UINT_MAX word_unat_eq_iff)
  moreover have "openmax i \<Longrightarrow> 0 < unat (imax i)" using assms(2) by (simp add: unat_gt_0)
  ultimately show ?thesis by (auto simp: refine_norm_def ivl_size_def Let_def)
qed

lemma refine_lo_size:
  "ivl_size (snd (refine_lo i v)) \<le> ivl_size i"
  "fst (refine_lo i v) \<Longrightarrow> ivl_size (snd (refine_lo i v)) < ivl_size i"
  using unat_u32_le [of "imin v"]
  by (auto simp: refine_lo_def ivl_size_def word_less_nat_alt split: if_splits)

lemma refine_hi_size:
  "ivl_size (snd (refine_hi i v)) \<le> ivl_size i"
  "fst (refine_hi i v) \<Longrightarrow> ivl_size (snd (refine_hi i v)) < ivl_size i"
  by (auto simp: refine_hi_def ivl_size_def word_less_nat_alt split: if_splits)

lemma refine_int_size:
  "ivl_size (snd (refine_int i v)) \<le> ivl_size i"
  "fst (refine_int i v) \<Longrightarrow> ivl_size (snd (refine_int i v)) < ivl_size i"
  by (auto simp: refine_int_def ivl_size_def split: if_splits)

lemma refine_size:
  assumes "proper i" "proper v" "snd_interval_refine i v = (Inr c, j)"
  shows "ivl_size j \<le> ivl_size i \<and> (c \<longrightarrow> ivl_size j < ivl_size i)"
proof -
  let ?a = "snd (refine_lo i v)"
  let ?b = "snd (refine_hi ?a v)"
  let ?c = "snd (refine_int ?b v)"
  have ne: "\<not> iempty i" using assms(1) by (simp add: proper_def)
  have j: "j = refine_norm ?c" and c: "c = (fst (refine_lo i v) \<or> fst (refine_hi ?a v) \<or> fst (refine_int ?b v))"
    using assms(3) ne by (auto simp: refine_unfold refined_def split: if_splits)
  have "openmin ?c \<longrightarrow> imin ?c \<noteq> UINT_MAX"
    using proper_lo [OF assms(1)] proper_lo [OF assms(2)] by (auto simp: refine_lo_def)
  moreover have "openmax ?c \<longrightarrow> imax ?c \<noteq> 0"
    using proper_hi [OF assms(1)] proper_hi [OF assms(2)] by (auto simp: refine_hi_def)
  ultimately have "ivl_size j \<le> ivl_size ?c"
    unfolding j by (rule refine_norm_size)
  then show ?thesis
    using refine_int_size [of ?b v] refine_hi_size [of ?a v] refine_lo_size [of i v] c
    by (meson le_less_trans less_le_trans le_trans)
qed

lemma refine_none_left [simp]: "iempty i \<Longrightarrow> snd_interval_refine i v = (Inl ENOENT, i)"
  by (simp add: snd_interval_refine_def snd_interval_empty_def)

lemma ur_add: "ur (add a b) = min (ur a + ur b) 4294967295"
proof -
  have s: "unat (UINT_MAX - b) = 4294967295 - unat b"
    using unat_sub [of b UINT_MAX] by simp
  have le: "unat b \<le> 4294967295" "unat a \<le> 4294967295" by (rule unat_u32_le)+
  show ?thesis
  proof (cases "a \<ge> UINT_MAX - b")
    case True
    then have "4294967295 \<le> unat a + unat b"
      using le s unfolding word_le_nat_alt by linarith
    then have "4294967295 \<le> ur a + ur b"
      unfolding ur_def by (metis of_nat_le_iff of_nat_add of_nat_numeral)
    then show ?thesis using True by (simp add: add_def)
  next
    case False
    then have "unat a + unat b < 4294967295"
      using le s unfolding word_le_nat_alt by linarith
    moreover from this have "unat (a + b) = unat a + unat b" by (simp add: unat_word_ariths)
    ultimately have "ur (a + b) = ur a + ur b" "ur a + ur b < 4294967295"
      unfolding ur_def by (simp_all del: of_nat_unat)
    then show ?thesis using False by (simp add: add_def)
  qed
qed

lemma in_add:
  assumes "in_interval a x" "in_interval b y" "x + y < 4294967295"
  shows "in_interval (snd_interval_add a b c) (x + y)"
  using in_intervalD [OF assms(1)] in_intervalD [OF assms(2)] assms(3)
  by (auto simp: in_interval_def lo_ok_def hi_ok_def snd_interval_add_def ur_add)

text \<open>
  The upper bound of \<open>snd_interval_sub\<close> adds the lower bound of the subtrahend instead of
  subtracting it: the result still encloses the difference, but \<open>[5,5] - [3,3]\<close> is
  \<open>[2,8]\<close>.
\<close>

lemma sub_imprecise:
  "snd_interval_sub (snd_interval_set_value z 5) (snd_interval_set_value z 3) c =
     \<lparr>imin = 2, imax = 8, openmin = False, openmax = False, integer = False, iempty = False\<rparr>"
  by (simp add: snd_interval_sub_def snd_interval_set_value_def sub_def add_def)

text \<open>
  \<open>snd_interval_never_eq\<close> tests the open lower bound of the first interval where the second
  is meant: \<open>[0,3]\<close> and \<open>(3,5]\<close> have nothing in common and are not recognised.
\<close>

lemma never_eq_incomplete:
  "let a = \<lparr>imin = 0, imax = 3, openmin = False, openmax = False, integer = False, iempty = False\<rparr>;
       b = \<lparr>imin = 3, imax = 5, openmin = True, openmax = False, integer = False, iempty = False\<rparr>
   in \<not> snd_interval_never_eq a b \<and> (\<nexists>x. in_interval a x \<and> in_interval b x)"
  by (auto simp: snd_interval_never_eq_def in_interval_def lo_ok_def hi_ok_def Let_def ur_def)

text \<open>The same mistake makes it report intervals as disjoint that share an end point.\<close>

lemma never_eq_unsound:
  "let a = \<lparr>imin = 0, imax = 3, openmin = True, openmax = False, integer = False, iempty = False\<rparr>;
       b = \<lparr>imin = 3, imax = 5, openmin = False, openmax = False, integer = False, iempty = False\<rparr>
   in snd_interval_never_eq a b \<and> in_interval a 3 \<and> in_interval b 3"
  by (auto simp: snd_interval_never_eq_def in_interval_def lo_ok_def hi_ok_def Let_def ur_def)

text \<open>
  On an integer interval an open bound at the end of the range wraps around: refining the
  minimum of \<open>[0, 5]\<close> above \<open>UINT_MAX\<close> leaves the interval as it was, and refining its
  maximum below 0 gives the full range.
\<close>

lemma refine_bounds_wrap:
  "let i = \<lparr>imin = 0, imax = 5, openmin = False, openmax = False, integer = True, iempty = False\<rparr>
   in snd_interval_refine_min i UINT_MAX True = (Inr True, i) \<and>
      snd_interval_refine_max i 0 True = (Inr True, i\<lparr>imax := UINT_MAX\<rparr>)"
  by (simp add: snd_interval_refine_min_def snd_interval_refine_max_def snd_interval_empty_def
      snd_interval_checkempty_def)

text \<open>Choosing the first or the last value.\<close>

lemma single_iff:
  assumes "proper i"
  shows "snd_interval_single i = Inr True \<longleftrightarrow>
    imin i = imax i \<or> (ur (imin i) + 1 = ur (imax i) \<and> openmax i)"
proof (cases "imin i = UINT_MAX")
  case True
  then have "imax i = UINT_MAX" "imin i + 1 \<noteq> UINT_MAX"
    using assms UINT_MAX_ge [of "imax i"]
    by (auto simp: proper_def snd_interval_checkempty_def simp del: UINT_MAX_ge)
  then show ?thesis using True assms
    by (simp add: snd_interval_single_def snd_interval_empty_def proper_def)
next
  case False
  then show ?thesis using assms
    by (auto simp: snd_interval_single_def snd_interval_empty_def proper_def ur_eq [of "imin i + 1"] ur_inc)
qed

lemma refine_first_closed:
  assumes "proper i" "\<not> openmin i" "snd_interval_single i \<noteq> Inr True"
  shows "\<exists>j. snd_interval_refine_first i = (Inr True, j) \<and>
    (\<forall>x. in_interval j x = (in_interval i x \<and> x = ur (imin i)))"
  using assms by (auto simp: snd_interval_refine_first_def snd_interval_empty_def proper_def Let_def
      in_interval_def lo_ok_def hi_ok_def snd_interval_checkempty_def ur_cmp)

lemma refine_last_closed:
  assumes "proper i" "\<not> openmax i" "snd_interval_single i \<noteq> Inr True"
  shows "\<exists>j. snd_interval_refine_last i = (Inr True, j) \<and>
    (\<forall>x. in_interval j x = (in_interval i x \<and> x = ur (imax i)))"
  using assms by (auto simp: snd_interval_refine_last_def snd_interval_empty_def proper_def Let_def
      in_interval_def lo_ok_def hi_ok_def snd_interval_checkempty_def ur_cmp)

text \<open>Intervals provide the refinement contract.\<close>

interpretation ivl: refinable snd_interval_refine in_interval ivl_size
proof unfold_locales
  show "\<exists>c j. snd_interval_refine i v = (Inr c, j) \<and> in_interval j x"
    if "in_interval i x" "in_interval v x" for i v x
    using refine_keeps [OF that] by metis
next
  show "in_interval i x \<and> in_interval v x"
    if "in_interval i a" "in_interval v b" "snd_interval_refine i v = (Inr c, j)" "in_interval j x"
    for i a v b c j x
    using in_refined [OF in_proper [OF that(1)] in_proper [OF that(2)], of x] that
    by (auto simp: refine_unfold in_interval_def split: if_splits)
next
  show "ivl_size j \<le> ivl_size i \<and> (c \<longrightarrow> ivl_size j < ivl_size i)"
    if "in_interval i a" "in_interval v b" "snd_interval_refine i v = (Inr c, j)" for i a v b c j
    using refine_size [OF in_proper [OF that(1)] in_proper [OF that(2)] that(3)] .
qed

text \<open>The scaled products do not fail their assertion.\<close>

lemma interval_arithmetic_total:
  assumes "in_interval a x" "in_interval b y" "0 < x" "0 < y" "k \<noteq> 0"
  shows "(\<exists>d. snd_interval_muldivk a b k c = Some d) \<and> (\<exists>d. snd_interval_mulkdiv a k b c = Some d)"
proof -
  have tot: "\<exists>q r. muldiv32 u v w = Some (q, r)" if "w \<noteq> 0" for u v w
    using muldiv32_spec [OF that] by metis
  have bm: "imax b \<noteq> 0" using in_intervalD [OF assms(2)] assms(4) ur_pos [of "imax b"] by auto
  have ex1: "\<exists>d. snd_interval_muldivk a b k c = Some d"
    using tot [OF assms(5), of "imin a" "imin b"] tot [OF assms(5), of "imax a" "imax b"]
    by (auto simp: snd_interval_muldivk_def split: prod.splits)
  have "imin b > 0 \<Longrightarrow> \<exists>q r. muldiv32 (imax a) k (imin b) = Some (q, r)" by (rule tot) auto
  then have ex2: "\<exists>d. snd_interval_mulkdiv a k b c = Some d"
    using tot [OF bm, of "imin a" k]
    by (auto simp: snd_interval_mulkdiv_def split: prod.splits option.splits)
  show ?thesis using ex1 ex2 by blast
qed

text \<open>The outcome of a refinement, on both branches.\<close>

lemma ivl_refine_exact:
  assumes "proper i" "proper v" "snd_interval_refine i v = (r, j)"
  shows "r = Inl EINVAL \<and> iempty j \<and> (\<nexists>x. in_interval i x \<and> in_interval v x) \<or>
         (\<exists>c. r = Inr c) \<and> proper j \<and> (\<exists>x. in_interval j x) \<and>
         (\<forall>x. in_interval j x = (in_interval i x \<and> in_interval v x))"
proof (cases "snd_interval_checkempty (refined i v)")
  case True
  then show ?thesis
    using assms in_refined [OF assms(1,2)] checkempty_none [OF True]
    by (auto simp: refine_unfold proper_def snd_interval_none_def)
next
  case False
  have ne: "\<not> iempty (refined i v)"
    using assms(1) by (simp add: refined_def refine_norm_def Let_def proper_def)
  have "\<exists>x. in_interval (refined i v) x"
    by (rule norm_nonempty [OF ne False]) (simp add: refined_def refine_norm_def Let_def)
  then show ?thesis
    using assms False ne in_refined [OF assms(1,2)]
    by (auto simp: refine_unfold proper_def)
qed

section \<open>Properties\<close>

text \<open>
  C8 -- refinement is intersection. On two intervals that are not empty the function returns
  \<open>-EINVAL\<close> exactly when they have no value in common, and then it marks the result empty;
  otherwise the result is an interval that contains exactly the common values.
\<close>

theorem refine_is_intersection:
  assumes "proper i" "proper v" "snd_interval_refine i v = (r, j)"
  shows "r = Inl EINVAL \<and> iempty j \<and> (\<nexists>x. in_interval i x \<and> in_interval v x) \<or>
         (\<exists>c. r = Inr c) \<and> proper j \<and> (\<exists>x. in_interval j x) \<and>
         (\<forall>x. in_interval j x = (in_interval i x \<and> in_interval v x))"
  by (rule ivl_refine_exact [OF assms])

lemma refine_is_intersection_witness:
  "\<exists>r j. snd_interval_refine
       \<lparr>imin = 8000, imax = 48000, openmin = False, openmax = True, integer = True, iempty = False\<rparr>
       \<lparr>imin = 44100, imax = UINT_MAX, openmin = True, openmax = False, integer = False, iempty = False\<rparr>
       = (r, j) \<and> r = Inr True \<and> imin j = 44101 \<and> imax j = 47999 \<and> proper j"
proof -
  let ?i = "\<lparr>imin = 8000, imax = 48000, openmin = False, openmax = True, integer = True, iempty = False\<rparr>"
  let ?v = "\<lparr>imin = 44100, imax = UINT_MAX, openmin = True, openmax = False, integer = False, iempty = False\<rparr>"
  have p: "proper ?i" "proper ?v" by (simp_all add: proper_def snd_interval_checkempty_def)
  have e: "snd_interval_refine ?i ?v = (Inr True, \<lparr>imin = 44101, imax = 47999, openmin = False,
     openmax = False, integer = True, iempty = False\<rparr>)"
    by (simp add: snd_interval_refine_def snd_interval_empty_def refine_lo_def refine_hi_def
        refine_int_def refine_norm_def snd_interval_checkempty_def snd_interval_none_def)
  show ?thesis using refine_is_intersection [OF p e] e by auto
qed

text \<open>
  C21 -- the arithmetic on intervals encloses the exact results. For positive values of the
  operands (rates, periods and buffer sizes are positive) whose result is below the
  saturation value \<open>UINT_MAX\<close>, the product, the quotient, and the scaled products of the two
  rules with a constant lie in the computed interval, open bounds included; the scaled forms
  do not fail their assertion.
\<close>

theorem interval_arithmetic_encloses:
  assumes "in_interval a x" "in_interval b y" "0 < x" "0 < y" "k \<noteq> 0"
  shows "(x * y < 4294967295 \<longrightarrow> in_interval (snd_interval_mul a b c) (x * y)) \<and>
    (x / y < 4294967295 \<longrightarrow> in_interval (snd_interval_div a b c) (x / y)) \<and>
    (\<exists>d. snd_interval_muldivk a b k c = Some d \<and>
      (x * y / ur k < 4294967295 \<longrightarrow> in_interval d (x * y / ur k))) \<and>
    (\<exists>d. snd_interval_mulkdiv a k b c = Some d \<and>
      (x * ur k / y < 4294967295 \<longrightarrow> in_interval d (x * ur k / y)))"
proof -
  show ?thesis
    using in_mul [OF assms(1-4)] in_div [OF assms(1-4)] interval_arithmetic_total [OF assms, of c]
      in_muldivk [OF assms] in_mulkdiv [OF assms] by blast
qed

lemma interval_arithmetic_encloses_witness:
  "let a = \<lparr>imin = 8000, imax = 48000, openmin = False, openmax = False, integer = True, iempty = False\<rparr>;
       b = \<lparr>imin = 2, imax = 4, openmin = True, openmax = False, integer = True, iempty = False\<rparr>
   in in_interval (snd_interval_mul a b a) (44100 * 4)"
proof -
  let ?a = "\<lparr>imin = 8000, imax = 48000, openmin = False, openmax = False, integer = True, iempty = False\<rparr>"
  let ?b = "\<lparr>imin = 2, imax = 4, openmin = True, openmax = False, integer = True, iempty = False\<rparr>"
  have "in_interval ?a 44100" "in_interval ?b 4"
    by (simp_all add: in_interval_def lo_ok_def hi_ok_def ur_def)
  from interval_arithmetic_encloses [OF this, of 1 ?a] show ?thesis by simp
qed

text \<open>
  Moving one bound. With an interval that is not empty, and unless the new bound is
  open at the end of the unsigned range, \<open>snd_interval_refine_min\<close> and
  \<open>snd_interval_refine_max\<close> keep exactly the values on the right side of the new bound, and
  fail, marking the interval empty, only when no value is left.
\<close>

theorem refine_one_bound:
  assumes "proper i" "opn \<longrightarrow> lo \<noteq> UINT_MAX \<and> hi \<noteq> 0"
  shows "(case snd_interval_refine_min i lo opn of (r, j) \<Rightarrow>
         (\<forall>x. in_interval j x = (in_interval i x \<and> (if opn then ur lo < x else ur lo \<le> x))) \<and>
         ((\<exists>c. r = Inr c) \<or> r = Inl EINVAL) \<and> (r = Inl EINVAL) = iempty j) \<and>
      (case snd_interval_refine_max i hi opn of (r, j) \<Rightarrow>
         (\<forall>x. in_interval j x = (in_interval i x \<and> (if opn then x < ur hi else x \<le> ur hi))) \<and>
         ((\<exists>c. r = Inr c) \<or> r = Inl EINVAL) \<and> (r = Inl EINVAL) = iempty j)"
  using refine_min_exact [OF assms(1), of opn lo] refine_max_exact [OF assms(1), of opn hi] assms(2)
  by (auto split: prod.splits)

lemma refine_one_bound_witness:
  "let i = \<lparr>imin = 8000, imax = 48000, openmin = False, openmax = False, integer = True, iempty = False\<rparr>
   in in_interval (snd (snd_interval_refine_min i 44100 True)) 48000 \<and>
      \<not> in_interval (snd (snd_interval_refine_max i 44100 False)) 48000"
proof -
  let ?i = "\<lparr>imin = 8000, imax = 48000, openmin = False, openmax = False, integer = True, iempty = False\<rparr>"
  have "proper ?i" "in_interval ?i 48000"
    by (simp_all add: proper_def snd_interval_checkempty_def in_interval_def lo_ok_def hi_ok_def ur_def)
  then show ?thesis
    using refine_one_bound [of ?i True 44100 1] refine_one_bound [of ?i False 0 44100]
    by (auto simp: Let_def ur_def split: prod.splits)
qed

end
