(* ===== verification/PcmMask.thy ===== *)
theory PcmMask
  imports Refinable
begin

text \<open>
  The bit masks of the PCM hardware parameters, \<open>libasound/src/pcm/mask_inline.h\<close>. The structure
  has eight words (\<open>SNDRV_MASK_MAX\<close> of \<open>asound.h\<close>, 256 bits), but the library uses the first
  \<open>SND_MASK_MAX\<close> (\<open>mask.h\<close>) bits, that is two words: the loops run over these, and the other words
  stay as they are, save that \<open>snd_mask_none\<close> clears the whole structure. The functions that take
  the number of a bit assert \<open>val <= SND_MASK_MAX\<close>; bit 64 itself lies in the third word, which exists
  but which no loop looks at. \<open>in_mask\<close> gives a mask its meaning as a set of numbers below 64.
\<close>

unbundle bit_operations_syntax

type_synonym snd_mask = "u32 list"

abbreviation SND_MASK_MAX :: u32 where "SND_MASK_MAX \<equiv> 64"
abbreviation MASK_SIZE :: nat where "MASK_SIZE \<equiv> 2"

text \<open>The number of words of the structure.\<close>

abbreviation MASK_WORDS :: nat where "MASK_WORDS \<equiv> 8"

definition MASK_OFS :: "u32 \<Rightarrow> nat" where
  "MASK_OFS i = unat (drop_bit 5 i)"

definition MASK_BIT :: "u32 \<Rightarrow> u32" where
  "MASK_BIT i = push_bit (unat (i AND 31)) 1"

section \<open>Bit counting\<close>

definition ld2 :: "u32 \<Rightarrow> nat" where
  "ld2 v =
     (let r = 0;
          (v, r) = (if v \<ge> 0x10000 then (drop_bit 16 v, r + 16) else (v, r));
          (v, r) = (if v \<ge> 0x100 then (drop_bit 8 v, r + 8) else (v, r));
          (v, r) = (if v \<ge> 0x10 then (drop_bit 4 v, r + 4) else (v, r));
          (v, r) = (if v \<ge> 4 then (drop_bit 2 v, r + 2) else (v, r))
      in if v \<ge> 2 then r + 1 else r)"

definition hweight32 :: "u32 \<Rightarrow> u32" where
  "hweight32 v =
     (let v = (v AND 0x55555555) + (drop_bit 1 v AND 0x55555555);
          v = (v AND 0x33333333) + (drop_bit 2 v AND 0x33333333);
          v = (v AND 0x0F0F0F0F) + (drop_bit 4 v AND 0x0F0F0F0F);
          v = (v AND 0x00FF00FF) + (drop_bit 8 v AND 0x00FF00FF)
      in (v AND 0x0000FFFF) + (drop_bit 16 v AND 0x0000FFFF))"

text \<open>The C library's \<open>ffs\<close>: one more than the index of the lowest set bit, 0 for 0.\<close>

definition ffs :: "u32 \<Rightarrow> nat" where
  "ffs v = (case List.find (bit v) [0..<32] of None \<Rightarrow> 0 | Some i \<Rightarrow> i + 1)"

section \<open>The operations\<close>

definition snd_mask_none :: "snd_mask \<Rightarrow> snd_mask" where
  "snd_mask_none msk = replicate MASK_WORDS 0"

definition snd_mask_any :: "snd_mask \<Rightarrow> snd_mask" where
  "snd_mask_any msk = replicate MASK_SIZE 0xFFFFFFFF @ drop MASK_SIZE msk"

definition snd_mask_empty :: "snd_mask \<Rightarrow> bool" where
  "snd_mask_empty msk = (\<forall>w \<in> set (take MASK_SIZE msk). w = 0)"

definition snd_mask_full :: "snd_mask \<Rightarrow> bool" where
  "snd_mask_full msk = (\<forall>w \<in> set (take MASK_SIZE msk). w = 0xFFFFFFFF)"

definition snd_mask_count :: "snd_mask \<Rightarrow> u32" where
  "snd_mask_count msk = foldl (\<lambda>w b. w + hweight32 b) 0 (take MASK_SIZE msk)"

text \<open>The scans return the first and the last word that is not 0.\<close>

fun min_from :: "nat \<Rightarrow> snd_mask \<Rightarrow> nat" where
  "min_from i [] = 0"
| "min_from i (b # bs) = (if b \<noteq> 0 then ffs b - 1 + i * 32 else min_from (i + 1) bs)"

fun max_upto :: "nat \<Rightarrow> snd_mask \<Rightarrow> nat" where
  "max_upto 0 bs = 0"
| "max_upto (Suc i) bs = (if bs ! i \<noteq> 0 then ld2 (bs ! i) + i * 32 else max_upto i bs)"

definition snd_mask_min :: "snd_mask \<Rightarrow> u32 cres" where
  "snd_mask_min msk =
     (if snd_mask_empty msk then Inl ABORT else Inr (of_nat (min_from 0 (take MASK_SIZE msk))))"

definition snd_mask_max :: "snd_mask \<Rightarrow> u32 cres" where
  "snd_mask_max msk =
     (if snd_mask_empty msk then Inl ABORT else Inr (of_nat (max_upto MASK_SIZE msk)))"

text \<open>Access to one bit, after the assertion; the word of bit 64 is the third.\<close>

definition mask_guard :: "u32 \<Rightarrow> 'a \<Rightarrow> 'a cres" where
  "mask_guard val x =
     (if \<not> val \<le> SND_MASK_MAX then Inl ABORT else Inr x)"

definition set_bit_of :: "snd_mask \<Rightarrow> u32 \<Rightarrow> snd_mask" where
  "set_bit_of msk val = msk[MASK_OFS val := (msk ! MASK_OFS val) OR MASK_BIT val]"

definition reset_bit_of :: "snd_mask \<Rightarrow> u32 \<Rightarrow> snd_mask" where
  "reset_bit_of msk val = msk[MASK_OFS val := (msk ! MASK_OFS val) AND NOT (MASK_BIT val)]"

definition snd_mask_set :: "snd_mask \<Rightarrow> u32 \<Rightarrow> snd_mask cres" where
  "snd_mask_set msk val = mask_guard val (set_bit_of msk val)"

definition snd_mask_reset :: "snd_mask \<Rightarrow> u32 \<Rightarrow> snd_mask cres" where
  "snd_mask_reset msk val = mask_guard val (reset_bit_of msk val)"

text \<open>The loops over a range, after \<open>to <= SND_MASK_MAX && from <= to\<close>.\<close>

definition range_guard :: "u32 \<Rightarrow> u32 \<Rightarrow> 'a \<Rightarrow> 'a cres" where
  "range_guard lo hi x =
     (if \<not> (hi \<le> SND_MASK_MAX \<and> lo \<le> hi) then Inl ABORT else Inr x)"

definition snd_mask_set_range :: "snd_mask \<Rightarrow> u32 \<Rightarrow> u32 \<Rightarrow> snd_mask cres" where
  "snd_mask_set_range msk lo hi =
     range_guard lo hi (foldl (\<lambda>m i. set_bit_of m (of_nat i)) msk [unat lo..<unat hi + 1])"

definition snd_mask_reset_range :: "snd_mask \<Rightarrow> u32 \<Rightarrow> u32 \<Rightarrow> snd_mask cres" where
  "snd_mask_reset_range msk lo hi =
     range_guard lo hi (foldl (\<lambda>m i. reset_bit_of m (of_nat i)) msk [unat lo..<unat hi + 1])"

definition snd_mask_leave :: "snd_mask \<Rightarrow> u32 \<Rightarrow> snd_mask cres" where
  "snd_mask_leave msk val =
     mask_guard val ((snd_mask_none msk)[MASK_OFS val := (msk ! MASK_OFS val) AND MASK_BIT val])"

definition snd_mask_intersect :: "snd_mask \<Rightarrow> snd_mask \<Rightarrow> snd_mask" where
  "snd_mask_intersect msk v = map2 (AND) (take MASK_SIZE msk) (take MASK_SIZE v) @ drop MASK_SIZE msk"

definition snd_mask_union :: "snd_mask \<Rightarrow> snd_mask \<Rightarrow> snd_mask" where
  "snd_mask_union msk v = map2 (OR) (take MASK_SIZE msk) (take MASK_SIZE v) @ drop MASK_SIZE msk"

definition snd_mask_eq :: "snd_mask \<Rightarrow> snd_mask \<Rightarrow> bool" where
  "snd_mask_eq msk v = (take MASK_SIZE msk = take MASK_SIZE v)"

definition snd_mask_copy :: "snd_mask \<Rightarrow> snd_mask \<Rightarrow> snd_mask" where
  "snd_mask_copy msk v = v"

definition snd_mask_test :: "snd_mask \<Rightarrow> u32 \<Rightarrow> bool cres" where
  "snd_mask_test msk val = mask_guard val ((msk ! MASK_OFS val) AND MASK_BIT val \<noteq> 0)"

fun single_loop :: "bool \<Rightarrow> snd_mask \<Rightarrow> bool" where
  "single_loop c [] = True"
| "single_loop c (b # bs) =
     (if b = 0 then single_loop c bs
      else if b AND (b - 1) \<noteq> 0 then False
      else if c then False
      else single_loop True bs)"

definition snd_mask_single :: "snd_mask \<Rightarrow> bool cres" where
  "snd_mask_single msk = (if snd_mask_empty msk then Inl ABORT else Inr (single_loop False (take MASK_SIZE msk)))"

definition snd_mask_value :: "snd_mask \<Rightarrow> u32 cres" where
  "snd_mask_value msk = snd_mask_min msk"

definition snd_mask_always_eq :: "snd_mask \<Rightarrow> snd_mask \<Rightarrow> bool cres" where
  "snd_mask_always_eq m1 m2 =
     (case snd_mask_single m1 of
        Inl e \<Rightarrow> Inl e
      | Inr False \<Rightarrow> Inr False
      | Inr True \<Rightarrow>
          (case snd_mask_single m2 of
             Inl e \<Rightarrow> Inl e
           | Inr False \<Rightarrow> Inr False
           | Inr True \<Rightarrow> Inr (snd_mask_value m1 = snd_mask_value m2)))"

definition snd_mask_never_eq :: "snd_mask \<Rightarrow> snd_mask \<Rightarrow> bool" where
  "snd_mask_never_eq m1 m2 = (\<forall>(a, b) \<in> set (zip (take MASK_SIZE m1) (take MASK_SIZE m2)). a AND b = 0)"

section \<open>Refinement\<close>

text \<open>As for intervals: the result and the updated mask.\<close>

definition snd_mask_refine :: "snd_mask \<Rightarrow> snd_mask \<Rightarrow> bool cres \<times> snd_mask" where
  "snd_mask_refine msk v =
     (if snd_mask_empty msk then (Inl ENOENT, msk)
      else let old = snd_mask_copy msk msk;
               msk = snd_mask_intersect msk v
           in if snd_mask_empty msk then (Inl EINVAL, msk)
              else (Inr (\<not> snd_mask_eq msk old), msk))"

text \<open>A write that ends in a failed assertion leaves the mask as it was.\<close>

definition after_write :: "snd_mask cres \<Rightarrow> snd_mask \<Rightarrow> (snd_mask \<Rightarrow> bool cres) \<Rightarrow> bool cres \<times> snd_mask" where
  "after_write w old r = (case w of Inl e \<Rightarrow> (Inl e, old) | Inr m \<Rightarrow> (r m, m))"

definition snd_mask_refine_first :: "snd_mask \<Rightarrow> bool cres \<times> snd_mask" where
  "snd_mask_refine_first msk =
     (if snd_mask_empty msk then (Inl ENOENT, msk)
      else if snd_mask_single msk = Inr True then (Inr False, msk)
      else case snd_mask_min msk of
             Inl e \<Rightarrow> (Inl e, msk)
           | Inr v \<Rightarrow> after_write (snd_mask_leave msk v) msk (\<lambda>m. Inr True))"

definition snd_mask_refine_last :: "snd_mask \<Rightarrow> bool cres \<times> snd_mask" where
  "snd_mask_refine_last msk =
     (if snd_mask_empty msk then (Inl ENOENT, msk)
      else if snd_mask_single msk = Inr True then (Inr False, msk)
      else case snd_mask_max msk of
             Inl e \<Rightarrow> (Inl e, msk)
           | Inr v \<Rightarrow> after_write (snd_mask_leave msk v) msk (\<lambda>m. Inr True))"

definition snd_mask_refine_min :: "snd_mask \<Rightarrow> u32 \<Rightarrow> bool cres \<times> snd_mask" where
  "snd_mask_refine_min msk val =
     (if snd_mask_empty msk then (Inl ENOENT, msk)
      else case snd_mask_min msk of
        Inl e \<Rightarrow> (Inl e, msk)
      | Inr lo \<Rightarrow>
          if lo \<ge> val then (Inr False, msk)
          else after_write (snd_mask_reset_range msk 0 (val - 1)) msk
                 (\<lambda>m. if snd_mask_empty m then Inl EINVAL else Inr True))"

definition snd_mask_refine_max :: "snd_mask \<Rightarrow> u32 \<Rightarrow> bool cres \<times> snd_mask" where
  "snd_mask_refine_max msk val =
     (if snd_mask_empty msk then (Inl ENOENT, msk)
      else case snd_mask_max msk of
        Inl e \<Rightarrow> (Inl e, msk)
      | Inr hi \<Rightarrow>
          if hi \<le> val then (Inr False, msk)
          else after_write (snd_mask_reset_range msk (val + 1) SND_MASK_MAX) msk
                 (\<lambda>m. if snd_mask_empty m then Inl EINVAL else Inr True))"

definition snd_mask_refine_set :: "snd_mask \<Rightarrow> u32 \<Rightarrow> bool cres \<times> snd_mask" where
  "snd_mask_refine_set msk val =
     (if snd_mask_empty msk then (Inl ENOENT, msk)
      else let changed = (snd_mask_single msk \<noteq> Inr True)
           in after_write (snd_mask_leave msk val) msk
                (\<lambda>m. if snd_mask_empty m then Inl EINVAL else Inr changed))"

section \<open>Masks as sets\<close>

definition mask_ok :: "snd_mask \<Rightarrow> bool" where
  "mask_ok m = (length m = MASK_WORDS)"

definition in_mask :: "snd_mask \<Rightarrow> nat \<Rightarrow> bool" where
  "in_mask m v = (v < 64 \<and> bit (m ! (v div 32)) (v mod 32))"

lemma word_nonzero_bit: "(w :: u32) \<noteq> 0 \<longleftrightarrow> (\<exists>n < 32. bit w n)"
  using bit_imp_le_length [of w] by (auto simp: bit_eq_iff [of w 0])

lemma empty_iff_no_member:
  assumes "mask_ok m"
  shows "snd_mask_empty m \<longleftrightarrow> (\<forall>v. \<not> in_mask m v)"
proof
  show "\<forall>v. \<not> in_mask m v" if e: "snd_mask_empty m"
  proof
    fix v
    have "m ! (v div 32) = 0" if "v < 64"
      using e assms that nth_mem [of "v div 32" "take 2 m"]
      by (simp add: snd_mask_empty_def mask_ok_def div_less_iff_less_mult)
    then show "\<not> in_mask m v" by (auto simp: in_mask_def)
  qed
next
  assume a: "\<forall>v. \<not> in_mask m v"
  show "snd_mask_empty m"
    unfolding snd_mask_empty_def
  proof
    fix w assume "w \<in> set (take 2 m)"
    then obtain i where i: "i < 2" "m ! i = w" using assms by (auto simp: in_set_conv_nth mask_ok_def)
    show "w = 0"
    proof (rule ccontr)
      assume "w \<noteq> 0"
      then obtain n where "n < 32" "bit w n" using word_nonzero_bit by blast
      with i have "in_mask m (i * 32 + n)" by (simp add: in_mask_def)
      with a show False by blast
    qed
  qed
qed

lemma intersect_ok [simp]: "mask_ok m \<Longrightarrow> mask_ok v \<Longrightarrow> mask_ok (snd_mask_intersect m v)"
  by (simp add: mask_ok_def snd_mask_intersect_def)

lemma in_intersect:
  "mask_ok m \<Longrightarrow> mask_ok v \<Longrightarrow> in_mask (snd_mask_intersect m v) x \<longleftrightarrow> in_mask m x \<and> in_mask v x"
  by (auto simp: mask_ok_def snd_mask_intersect_def in_mask_def bit_and_iff div_less_iff_less_mult nth_append)

lemma in_union:
  "mask_ok m \<Longrightarrow> mask_ok v \<Longrightarrow> in_mask (snd_mask_union m v) x \<longleftrightarrow> in_mask m x \<or> in_mask v x"
  by (auto simp: mask_ok_def snd_mask_union_def in_mask_def bit_or_iff div_less_iff_less_mult nth_append)

lemma MASK_OFS_BIT:
  "MASK_OFS v = unat v div 32"
  "bit (MASK_BIT v) n \<longleftrightarrow> n < 32 \<and> n = unat v mod 32"
proof -
  show "MASK_OFS v = unat v div 32" by (simp add: MASK_OFS_def drop_bit_eq_div unat_div_distrib)
  have "v AND 31 = take_bit 5 v" by (simp add: take_bit_eq_mask mask_eq_exp_minus_1)
  then have "unat (v AND 31) = unat v mod 32"
    by (simp add: take_bit_eq_mod unat_mod_distrib)
  then show "bit (MASK_BIT v) n \<longleftrightarrow> n < 32 \<and> n = unat v mod 32"
    by (auto simp: MASK_BIT_def bit_simps)
qed

lemma in_reset_bit:
  "mask_ok m \<Longrightarrow> unat v \<le> 64 \<Longrightarrow> in_mask (reset_bit_of m v) x \<longleftrightarrow> in_mask m x \<and> x \<noteq> unat v"
  by (auto simp: mask_ok_def in_mask_def reset_bit_of_def MASK_OFS_BIT nth_list_update bit_simps
      div_less_iff_less_mult) (metis div_mult_mod_eq)

lemma in_set_bit:
  "mask_ok m \<Longrightarrow> unat v < 64 \<Longrightarrow> in_mask (set_bit_of m v) x \<longleftrightarrow> in_mask m x \<or> x = unat v"
  by (auto simp: mask_ok_def in_mask_def set_bit_of_def MASK_OFS_BIT nth_list_update bit_simps
      div_less_iff_less_mult) (metis div_mult_mod_eq)

text \<open>\<open>ffs\<close> and \<open>ld2\<close> find the extreme set bits.\<close>

lemma ffs_lowest:
  assumes "w \<noteq> 0"
  shows "bit w (ffs w - 1)" "ffs w - 1 < 32" "\<And>j. j < ffs w - 1 \<Longrightarrow> \<not> bit w j"
proof -
  obtain n where n: "n < 32" "bit w n" using assms word_nonzero_bit by blast
  then have "List.find (bit w) [0..<32] \<noteq> None" by (auto simp: find_None_iff)
  then obtain i where i: "List.find (bit w) [0..<32] = Some i" by blast
  then have "i < 32" "bit w i" "\<forall>j<i. \<not> bit w j"
    by (auto simp: find_Some_iff)
  then show "bit w (ffs w - 1)" "ffs w - 1 < 32" "\<And>j. j < ffs w - 1 \<Longrightarrow> \<not> bit w j"
    by (simp_all add: ffs_def i)
qed

lemma unat_drop_bit_div: "unat (drop_bit k (w :: u32)) = unat w div 2 ^ k"
  unfolding unat_drop_bit_eq by (rule drop_bit_eq_div)

lemma div_one: "(n :: nat) div d = 1 \<Longrightarrow> 0 < d \<Longrightarrow> d \<le> n \<and> n < 2 * d"
  using div_mult_mod_eq [of n d] mod_less_divisor [of d n] by (auto simp del: mod_less_divisor)

text \<open>One halving step: the bits that remain are counted in \<open>r\<close>.\<close>

lemma ld2_step:
  fixes v :: u32
  assumes "unat v = n div 2 ^ r" "0 < unat v" "unat v < 2 ^ (2 * k)" "unat c = 2 ^ k"
    "(v', r') = (if v \<ge> c then (drop_bit k v, r + k) else (v, r))"
  shows "unat v' = n div 2 ^ r'" "0 < unat v'" "unat v' < 2 ^ k"
proof -
  have "0 < unat v div 2 ^ k" if "2 ^ k \<le> unat v"
    using that by (simp add: div_greater_zero_iff)
  moreover have "unat v div 2 ^ k < 2 ^ k"
    using assms(3) by (simp add: less_mult_imp_div_less mult_2 power_add)
  ultimately show "unat v' = n div 2 ^ r'" "0 < unat v'" "unat v' < 2 ^ k"
    using assms by (auto simp: unat_drop_bit_div word_le_nat_alt div_mult2_eq power_add split: if_splits)
qed

lemma ld2_bounds:
  assumes "w \<noteq> 0"
  shows "2 ^ ld2 w \<le> unat w \<and> unat w < 2 ^ (ld2 w + 1)"
proof -
  obtain v1 r1 where 1: "(v1, r1) = (if w \<ge> 0x10000 then (drop_bit 16 w, 0 + 16) else (w, 0 :: nat))"
    by (metis surj_pair)
  obtain v2 r2 where 2: "(v2, r2) = (if v1 \<ge> 0x100 then (drop_bit 8 v1, r1 + 8) else (v1, r1))"
    by (metis surj_pair)
  obtain v3 r3 where 3: "(v3, r3) = (if v2 \<ge> 0x10 then (drop_bit 4 v2, r2 + 4) else (v2, r2))"
    by (metis surj_pair)
  obtain v4 r4 where 4: "(v4, r4) = (if v3 \<ge> 4 then (drop_bit 2 v3, r3 + 2) else (v3, r3))"
    by (metis surj_pair)
  have r: "ld2 w = (if v4 \<ge> 2 then r4 + 1 else r4)"
    unfolding ld2_def Let_def by (simp only: prod.case flip: 1 2 3 4)
  have "unat w = unat w div 2 ^ 0" "0 < unat w" "unat w < 2 ^ (2 * 16)"
    using assms unat_u32_less [of w] by (simp_all add: unat_gt_0)
  note s1 = ld2_step [OF this _ 1]
  note s2 = ld2_step [OF s1(1,2) _ _ 2]
  have "unat v4 = unat w div 2 ^ r4 \<and> 0 < unat v4 \<and> unat v4 < 4"
    using s1 s2 ld2_step [OF s2(1,2) _ _ 3] ld2_step [OF _ _ _ _ 4, of "unat w"] by simp
  then consider "unat w div 2 ^ r4 = 1" "\<not> v4 \<ge> 2" | "unat w div 2 ^ r4 div 2 = 1" "v4 \<ge> 2"
    by (force simp: word_le_nat_alt)
  then show ?thesis
  proof cases
    case 1
    then show ?thesis using div_one [of "unat w" "2 ^ r4"] by (simp add: r)
  next
    case 2
    then have "unat w div (2 ^ r4 * 2) = 1" by (simp only: div_mult2_eq)
    then have "unat w div 2 ^ (r4 + 1) = 1" by (simp only: power_add power_one_right)
    then show ?thesis using 2(2) div_one [of "unat w" "2 ^ (r4 + 1)"] by (simp add: r)
  qed
qed


lemma ld2_highest:
  assumes "w \<noteq> 0"
  shows "bit w (ld2 w)" "ld2 w < 32" "\<And>j. ld2 w < j \<Longrightarrow> \<not> bit w j"
proof -
  note b = ld2_bounds [OF assms]
  have "(2 :: nat) ^ ld2 w < 2 ^ 32" using b unat_u32_less [of w] by simp
  then show "ld2 w < 32" by (rule power_less_imp_less_exp [rotated]) simp
  have "unat w div 2 ^ ld2 w = 1" using b by (intro div_nat_eqI) simp_all
  then have "bit (unat w) (ld2 w)" by (simp add: bit_iff_odd)
  then show "bit w (ld2 w)" by (simp add: bit_unsigned_iff)
  fix j assume "ld2 w < j"
  then have "(2 :: nat) ^ (ld2 w + 1) \<le> 2 ^ j" by (intro power_increasing) auto
  then have "unat w < 2 ^ j" using b by linarith
  then have "\<not> bit (unat w) j" by (simp add: bit_iff_odd)
  then show "\<not> bit w j" using bit_imp_le_length by (auto simp: bit_unsigned_iff)
qed

text \<open>The scans find the least and the greatest member.\<close>

lemma min_from_spec:
  assumes "\<exists>w \<in> set bs. w \<noteq> 0"
  shows "\<exists>k < length bs. bs ! k \<noteq> 0 \<and> min_from i bs = ffs (bs ! k) - 1 + (i + k) * 32 \<and> (\<forall>l < k. bs ! l = 0)"
  using assms
proof (induction bs arbitrary: i)
  case (Cons b bs)
  show ?case
  proof (cases "b = 0")
    case True
    then have "\<exists>w \<in> set bs. w \<noteq> 0" using Cons.prems by simp
    from Cons.IH [OF this, of "i + 1"] obtain k where "k < length bs" "bs ! k \<noteq> 0"
      "min_from (i + 1) bs = ffs (bs ! k) - 1 + (i + 1 + k) * 32" "\<forall>l < k. bs ! l = 0"
      by blast
    then show ?thesis using True
      by (intro exI [of _ "Suc k"]) (auto simp: less_Suc_eq_0_disj)
  qed (intro exI [of _ 0], simp)
qed simp

lemma max_upto_spec:
  assumes "\<exists>k < n. bs ! k \<noteq> 0"
  shows "\<exists>k < n. bs ! k \<noteq> 0 \<and> max_upto n bs = ld2 (bs ! k) + k * 32 \<and> (\<forall>l. k < l \<and> l < n \<longrightarrow> bs ! l = 0)"
  using assms
proof (induction n)
  case (Suc n)
  show ?case
  proof (cases "bs ! n = 0")
    case True
    then have "\<exists>k < n. bs ! k \<noteq> 0" using Suc.prems less_Suc_eq by auto
    from Suc.IH [OF this] obtain k where k: "k < n" "bs ! k \<noteq> 0"
      "max_upto n bs = ld2 (bs ! k) + k * 32" "\<forall>l. k < l \<and> l < n \<longrightarrow> bs ! l = 0" by blast
    have "k < Suc n \<and> bs ! k \<noteq> 0 \<and> max_upto (Suc n) bs = ld2 (bs ! k) + k * 32 \<and>
        (\<forall>l. k < l \<and> l < Suc n \<longrightarrow> bs ! l = 0)"
      using k True less_Suc_eq by auto
    then show ?thesis by blast
  qed (intro exI [of _ n], auto)
qed simp

lemma nonempty_word: "\<not> snd_mask_empty m \<Longrightarrow> mask_ok m \<Longrightarrow> \<exists>k < 2. m ! k \<noteq> 0"
  by (auto simp: snd_mask_empty_def mask_ok_def in_set_conv_nth) blast

lemma member_word: "in_mask m v \<Longrightarrow> m ! (v div 32) \<noteq> 0 \<and> v div 32 < 2"
  by (auto simp: in_mask_def div_less_iff_less_mult)

lemma mask_min_spec:
  assumes "mask_ok m" "\<not> snd_mask_empty m"
  obtains v where "snd_mask_min m = Inr v" "in_mask m (unat v)" "\<And>x. in_mask m x \<Longrightarrow> unat v \<le> x"
    "unat v < 64"
proof -
  let ?n = "min_from 0 (take 2 m)"
  obtain k where k: "k < 2" "m ! k \<noteq> 0" "?n = ffs (m ! k) - 1 + k * 32" "\<forall>l < k. m ! l = 0"
    using min_from_spec [of "take 2 m" 0] assms by (auto simp: snd_mask_empty_def mask_ok_def)
  note f = ffs_lowest [OF k(2)]
  have n: "?n < 64" using f(2) k by simp
  have u: "unat (of_nat ?n :: u32) = ?n" using n by (simp add: unat_of_nat)
  have dm: "?n div 32 = k" "?n mod 32 = ffs (m ! k) - 1" using f(2) k(3) by simp_all
  have inm: "in_mask m ?n" unfolding in_mask_def dm using n f(1) by simp
  have least: "?n \<le> x" if x: "in_mask m x" for x
  proof (rule ccontr)
    assume "\<not> ?n \<le> x"
    then have lt: "x < ?n" by simp
    then have "x div 32 \<le> k" unfolding dm(1) [symmetric] by (simp add: div_le_mono)
    with member_word [OF x] k(4) have e: "x div 32 = k" by (metis le_neq_implies_less)
    with lt dm have "x mod 32 < ffs (m ! k) - 1"
      by (metis div_mult_mod_eq nat_add_left_cancel_less)
    with f(3) x e show False by (simp add: in_mask_def)
  qed
  show thesis
    using that [of "of_nat ?n"] assms(2) inm least n by (simp add: snd_mask_min_def u)
qed

lemma mask_max_spec:
  assumes "mask_ok m" "\<not> snd_mask_empty m"
  obtains v where "snd_mask_max m = Inr v" "in_mask m (unat v)" "\<And>x. in_mask m x \<Longrightarrow> x \<le> unat v"
    "unat v < 64"
proof -
  obtain k where k: "k < 2" "m ! k \<noteq> 0" "max_upto 2 m = ld2 (m ! k) + k * 32"
    "\<forall>l. k < l \<and> l < 2 \<longrightarrow> m ! l = 0"
    using max_upto_spec [of 2 m] nonempty_word [OF assms(2,1)] by blast
  let ?n = "max_upto 2 m"
  note f = ld2_highest [OF k(2)]
  have n: "?n < 64" using f(2) k by simp
  have u: "unat (of_nat ?n :: u32) = ?n" using n by (simp add: unat_of_nat)
  have dm: "?n div 32 = k" "?n mod 32 = ld2 (m ! k)" using f(2) k(3) by simp_all
  have inm: "in_mask m ?n" unfolding in_mask_def dm using n f(1) by simp
  have greatest: "x \<le> ?n" if x: "in_mask m x" for x
  proof (rule ccontr)
    assume "\<not> x \<le> ?n"
    then have lt: "?n < x" by simp
    then have "k \<le> x div 32" unfolding dm(1) [symmetric] by (simp add: div_le_mono)
    with member_word [OF x] k(4) have e: "x div 32 = k" by (metis le_neq_implies_less)
    with lt dm have "ld2 (m ! k) < x mod 32"
      by (metis div_mult_mod_eq nat_add_left_cancel_less)
    with f(3) x e show False by (simp add: in_mask_def)
  qed
  show thesis
    using that [of "of_nat ?n"] assms(2) inm greatest n by (simp add: snd_mask_max_def u)
qed


text \<open>Writing a single bit, keeping a single bit, removing a range.\<close>

lemma guard_in_range:
  "unat v \<le> 64 \<Longrightarrow> mask_guard v x = Inr x"
  by (simp add: mask_guard_def word_le_nat_alt)

lemma same_pos: "(x :: nat) = y \<longleftrightarrow> x div 32 = y div 32 \<and> x mod 32 = y mod 32"
  by (metis div_mult_mod_eq)

lemma in_leave:
  assumes "mask_ok m" "unat v \<le> 64"
  shows "\<exists>m'. snd_mask_leave m v = Inr m' \<and> mask_ok m' \<and>
    (\<forall>x. in_mask m' x = (in_mask m x \<and> x = unat v))"
proof -
  let ?m = "(replicate 8 0)[MASK_OFS v := (m ! MASK_OFS v) AND MASK_BIT v]"
  have o: "unat v div 32 < 8" using assms(2) by (simp add: div_less_iff_less_mult)
  have nth: "?m ! k = (if k = unat v div 32 then m ! k AND MASK_BIT v else 0)" if "k < 8" for k
    using o that by (simp add: MASK_OFS_BIT nth_list_update)
  have "in_mask ?m x = (in_mask m x \<and> x = unat v)" for x
  proof (cases "x < 64")
    case True
    then have "x div 32 < 8" by (simp add: div_less_iff_less_mult)
    from nth [OF this] True show ?thesis
      unfolding in_mask_def same_pos [of x "unat v"]
      by (cases "x div 32 = unat v div 32") (simp_all add: bit_and_iff MASK_OFS_BIT)
  qed (use assms(2) in \<open>auto simp: in_mask_def\<close>)
  then show ?thesis
    using assms by (auto simp: snd_mask_leave_def guard_in_range snd_mask_none_def mask_ok_def)
qed

lemma reset_ok [simp]: "mask_ok m \<Longrightarrow> mask_ok (reset_bit_of m v)"
  and set_ok [simp]: "mask_ok m \<Longrightarrow> mask_ok (set_bit_of m v)"
  by (simp_all add: mask_ok_def reset_bit_of_def set_bit_of_def)

lemma in_reset_fold:
  assumes "mask_ok m" "hi \<le> 65"
  shows "mask_ok (foldl (\<lambda>m i. reset_bit_of m (of_nat i)) m [lo..<hi]) \<and>
    (\<forall>x. in_mask (foldl (\<lambda>m i. reset_bit_of m (of_nat i)) m [lo..<hi]) x =
       (in_mask m x \<and> \<not> (lo \<le> x \<and> x < hi)))"
  using assms(2)
proof (induction hi)
  case (Suc n)
  have u: "unat (of_nat n :: u32) = n" using Suc.prems by (simp add: unat_of_nat)
  show ?case
  proof (cases "lo \<le> n")
    case True
    let ?f = "foldl (\<lambda>m i. reset_bit_of m (of_nat i)) m [lo..<n]"
    have ih: "mask_ok ?f" "in_mask ?f x = (in_mask m x \<and> \<not> (lo \<le> x \<and> x < n))" for x
      using Suc by simp_all
    have step: "in_mask (reset_bit_of ?f (of_nat n)) x = (in_mask ?f x \<and> x \<noteq> n)" for x
      using in_reset_bit [OF ih(1), of "of_nat n"] Suc.prems unfolding u by simp
    have e: "foldl (\<lambda>m i. reset_bit_of m (of_nat i)) m [lo..<Suc n] = reset_bit_of ?f (of_nat n)"
      using True by simp
    have "(lo \<le> x \<and> x < Suc n) = ((lo \<le> x \<and> x < n) \<or> x = n)" for x using True by linarith
    then show ?thesis unfolding e step ih(2) using reset_ok [OF ih(1)] by simp
  next
    case False
    then show ?thesis using assms(1) by simp
  qed
qed (use assms in simp)

lemma reset_range_spec:
  assumes "mask_ok m" "unat hi \<le> 64" "lo \<le> hi"
  shows "\<exists>m'. snd_mask_reset_range m lo hi = Inr m' \<and> mask_ok m' \<and>
    (\<forall>x. in_mask m' x = (in_mask m x \<and> \<not> (unat lo \<le> x \<and> x \<le> unat hi)))"
proof -
  have g: "range_guard lo hi x = Inr x" for x :: snd_mask
    using assms by (simp add: range_guard_def word_le_nat_alt)
  show ?thesis
    using in_reset_fold [OF assms(1), of "unat hi + 1" "unat lo"] assms(2)
    by (auto simp: snd_mask_reset_range_def g less_Suc_eq_le simp del: upt_Suc)
qed

text \<open>A word passes the test \<open>b & (b - 1)\<close> exactly when it has one bit.\<close>

lemma clear_lowest:
  assumes "(w :: u32) \<noteq> 0"
  shows "bit (w AND (w - 1)) j \<longleftrightarrow> bit w j \<and> j \<noteq> ffs w - 1"
proof -
  define k where "k = ffs w - 1"
  define h where "h = (w AND NOT (mask (k + 1)))"
  have low: "bit w k" "k < 32" "\<And>j. j < k \<Longrightarrow> \<not> bit w j"
    unfolding k_def by (rule ffs_lowest [OF assms])+
  have h: "bit h j \<longleftrightarrow> k < j \<and> bit w j" for j
    using bit_imp_le_length [of w j] by (auto simp: h_def bit_simps)
  have p: "bit (2 ^ k :: u32) j \<longleftrightarrow> j = k" for j
    using low(2) by (auto simp: bit_simps)
  have m: "bit (mask k :: u32) j \<longleftrightarrow> j < k" for j
    using low(2) by (auto simp: bit_simps)
  have "w = h OR 2 ^ k"
    using low by (intro bit_word_eqI) (auto simp: bit_or_iff h p, metis not_less_iff_gr_or_eq)
  also have "\<dots> = h + 2 ^ k"
    by (rule disjunctive_add_eq_or [symmetric]) (auto intro!: bit_word_eqI simp: bit_and_iff h p)
  finally have "w - 1 = h + mask k"
    by (simp add: mask_eq_exp_minus_1)
  also have "\<dots> = h OR mask k"
    by (rule disjunctive_add_eq_or) (auto intro!: bit_word_eqI simp: bit_and_iff h m)
  finally have "w - 1 = h OR mask k" .
  then have "bit (w AND (w - 1)) j \<longleftrightarrow> bit w j \<and> (bit h j \<or> j < k)"
    by (simp add: bit_and_iff bit_or_iff m)
  then show ?thesis
    unfolding k_def [symmetric] h using low by (metis not_less_iff_gr_or_eq)
qed

lemma one_bit:
  assumes "(w :: u32) \<noteq> 0"
  shows "w AND (w - 1) = 0 \<longleftrightarrow> (\<forall>i j. bit w i \<and> bit w j \<longrightarrow> i = j)"
proof -
  have "w AND (w - 1) = 0 \<longleftrightarrow> (\<forall>j. \<not> (bit w j \<and> j \<noteq> ffs w - 1))"
    unfolding bit_eq_iff [of _ 0] clear_lowest [OF assms] using bit_imp_le_length [of w] by auto
  then show ?thesis using ffs_lowest(1) [OF assms] by metis
qed

lemma single_loop_True: "single_loop True bs \<longleftrightarrow> (\<forall>b \<in> set bs. b = 0)"
  by (induction bs) auto

lemma single_loop_False:
  "single_loop False bs \<longleftrightarrow>
     (\<forall>k l i j. k < length bs \<and> l < length bs \<and> bit (bs ! k) i \<and> bit (bs ! l) j \<longrightarrow> k = l \<and> i = j)"
proof (induction bs)
  case (Cons b bs)
  show ?case
  proof (cases "b = 0")
    case True
    then show ?thesis using Cons by (auto simp: nth_Cons split: nat.splits)
  next
    case False
    then obtain n where n: "bit b n" using word_nonzero_bit by blast
    have z: "(\<forall>c \<in> set bs. c = 0) \<longleftrightarrow> (\<forall>k i. k < length bs \<longrightarrow> \<not> bit (bs ! k) i)"
      using word_nonzero_bit by (metis bit_0_eq bot_apply bot_bool_def in_set_conv_nth)
    have l: "single_loop False (b # bs) \<longleftrightarrow> b AND (b - 1) = 0 \<and> (\<forall>c \<in> set bs. c = 0)"
      using False by (simp add: single_loop_True)
    show ?thesis
    proof (intro iffI allI impI)
      fix k l i j
      assume s: "single_loop False (b # bs)"
        and a: "k < length (b # bs) \<and> l < length (b # bs) \<and> bit ((b # bs) ! k) i \<and> bit ((b # bs) ! l) j"
      have "\<forall>i j. bit b i \<and> bit b j \<longrightarrow> i = j" "\<forall>k i. k < length bs \<longrightarrow> \<not> bit (bs ! k) i"
        using s l z one_bit [OF False] by blast+
      then show "k = l \<and> i = j" using a by (cases k; cases l) auto
    next
      assume u: "\<forall>k l i j. k < length (b # bs) \<and> l < length (b # bs) \<and> bit ((b # bs) ! k) i \<and>
        bit ((b # bs) ! l) j \<longrightarrow> k = l \<and> i = j"
      have "\<forall>i j. bit b i \<and> bit b j \<longrightarrow> i = j" using u [rule_format, of 0 0] by simp
      moreover have "\<not> bit (bs ! k) i" if "k < length bs" for k i
        using u [rule_format, of 0 "Suc k" n i] n that by auto
      ultimately show "single_loop False (b # bs)"
        using l z one_bit [OF False] by blast
    qed
  qed
qed simp

lemma mask_single_iff:
  assumes "mask_ok m" "\<not> snd_mask_empty m"
  shows "snd_mask_single m = Inr True \<longleftrightarrow> (\<forall>x y. in_mask m x \<and> in_mask m y \<longrightarrow> x = y)"
proof -
  let ?m = "take 2 m"
  have "single_loop False ?m \<longleftrightarrow> (\<forall>x y. in_mask m x \<and> in_mask m y \<longrightarrow> x = y)"
  proof
    assume s: "single_loop False ?m"
    show "\<forall>x y. in_mask m x \<and> in_mask m y \<longrightarrow> x = y"
    proof (intro allI impI)
      fix x y assume "in_mask m x \<and> in_mask m y"
      then have "x div 32 < length ?m \<and> y div 32 < length ?m \<and> bit (?m ! (x div 32)) (x mod 32) \<and>
          bit (?m ! (y div 32)) (y mod 32)"
        using assms(1) by (simp add: in_mask_def mask_ok_def div_less_iff_less_mult)
      then show "x = y" using s unfolding single_loop_False same_pos [of x y] by blast
    qed
  next
    assume u: "\<forall>x y. in_mask m x \<and> in_mask m y \<longrightarrow> x = y"
    show "single_loop False ?m" unfolding single_loop_False
    proof (intro allI impI)
      fix k l i j assume "k < length ?m \<and> l < length ?m \<and> bit (?m ! k) i \<and> bit (?m ! l) j"
      then have a: "k < 2 \<and> l < 2 \<and> bit (m ! k) i \<and> bit (m ! l) j" by auto
      then have b: "i < 32" "j < 32" using bit_imp_le_length [of "m ! k" i] bit_imp_le_length [of "m ! l" j] by simp_all
      have "in_mask m (k * 32 + i)" "in_mask m (l * 32 + j)"
        using a b assms(1) by (simp_all add: in_mask_def mask_ok_def)
      then have "k * 32 + i = l * 32 + j" using u by blast
      then have "(k * 32 + i) div 32 = (l * 32 + j) div 32" "(k * 32 + i) mod 32 = (l * 32 + j) mod 32"
        by simp_all
      then show "k = l \<and> i = j" using b by simp
    qed
  qed
  then show ?thesis using assms by (simp add: snd_mask_single_def)
qed

text \<open>Masks provide the refinement contract; their weight is the number of members.\<close>

definition mask_mem :: "snd_mask \<Rightarrow> nat \<Rightarrow> bool" where
  "mask_mem m v = (mask_ok m \<and> in_mask m v)"

definition mask_weight :: "snd_mask \<Rightarrow> nat" where
  "mask_weight m = card {v. in_mask m v}"

lemma finite_members [simp]: "finite {v. in_mask m v}"
  by (rule finite_subset [of _ "{..<64}"]) (auto simp: in_mask_def)

lemma mask_eqI:
  assumes "mask_ok m" "mask_ok n" "\<And>v. in_mask m v = in_mask n v"
  shows "snd_mask_eq m n"
  unfolding snd_mask_eq_def
proof (rule nth_equalityI)
  show "length (take 2 m) = length (take 2 n)" using assms by (simp add: mask_ok_def)
  fix k assume "k < length (take 2 m)"
  then have k: "k < 2" by simp
  have "m ! k = n ! k"
  proof (rule bit_word_eqI)
    fix i assume "i < LENGTH(32)"
    then show "bit (m ! k) i = bit (n ! k) i"
      using assms(3) [of "k * 32 + i"] k by (simp add: in_mask_def)
  qed
  then show "take 2 m ! k = take 2 n ! k" using k by simp
qed

lemma in_mask_take: "in_mask m v \<longleftrightarrow> v < 64 \<and> bit (take 2 m ! (v div 32)) (v mod 32)"
  by (auto simp: in_mask_def div_less_iff_less_mult)

lemma eq_members: "snd_mask_eq m n \<Longrightarrow> in_mask m v = in_mask n v"
  unfolding in_mask_take by (simp add: snd_mask_eq_def)

lemma mask_refine_cases:
  assumes "mask_ok m" "mask_ok v" "in_mask m a"
  shows "snd_mask_refine m v = (if \<forall>x. \<not> (in_mask m x \<and> in_mask v x)
      then (Inl EINVAL, snd_mask_intersect m v)
      else (Inr (\<exists>x. in_mask m x \<and> \<not> in_mask v x), snd_mask_intersect m v))"
proof -
  have "snd_mask_eq (snd_mask_intersect m v) m \<longleftrightarrow> \<not> (\<exists>x. in_mask m x \<and> \<not> in_mask v x)"
    using mask_eqI [OF intersect_ok [OF assms(1,2)] assms(1)] eq_members in_intersect [OF assms(1,2)] by metis
  moreover have "\<not> snd_mask_empty m" using assms by (auto simp: empty_iff_no_member)
  moreover have "snd_mask_empty (snd_mask_intersect m v) \<longleftrightarrow> (\<forall>x. \<not> (in_mask m x \<and> in_mask v x))"
    using assms by (simp add: empty_iff_no_member in_intersect)
  ultimately show ?thesis
    by (simp add: snd_mask_refine_def snd_mask_copy_def Let_def)
qed

interpretation msk: refinable snd_mask_refine mask_mem mask_weight
proof unfold_locales
  show "\<exists>c j. snd_mask_refine i v = (Inr c, j) \<and> mask_mem j x"
    if "mask_mem i x" "mask_mem v x" for i v x
    using that mask_refine_cases [of i v x] by (auto simp: mask_mem_def in_intersect)
next
  show "mask_mem i x \<and> mask_mem v x"
    if "mask_mem i a" "mask_mem v b" "snd_mask_refine i v = (Inr c, j)" "mask_mem j x" for i a v b c j x
    using that mask_refine_cases [of i v a] by (auto simp: mask_mem_def in_intersect split: if_splits)
next
  fix i a v b c j
  assume a: "mask_mem i a" "mask_mem v b" "snd_mask_refine i v = (Inr c, j)"
  then have j: "j = snd_mask_intersect i v" "c = (\<exists>x. in_mask i x \<and> \<not> in_mask v x)"
    using mask_refine_cases [of i v a] by (auto simp: mask_mem_def split: if_splits)
  have s: "{x. in_mask j x} = {x. in_mask i x} \<inter> {x. in_mask v x}"
    using a by (auto simp: j mask_mem_def in_intersect)
  then have "mask_weight j \<le> mask_weight i"
    unfolding mask_weight_def by (auto intro: card_mono)
  moreover have "mask_weight j < mask_weight i" if c
    unfolding mask_weight_def s using that j(2) by (intro psubset_card_mono) auto
  ultimately show "mask_weight j \<le> mask_weight i \<and> (c \<longrightarrow> mask_weight j < mask_weight i)" by blast
qed

section \<open>Properties\<close>

text \<open>
  C22 -- refining a mask is set intersection: on a mask that is not empty the function returns
  \<open>-EINVAL\<close> exactly when the two masks have no member in common, and otherwise leaves the
  common members and reports a change exactly when a member was lost. The members are the numbers
  below 64; the words of the structure beyond them stay as they are.
\<close>

theorem mask_refine_is_intersection:
  assumes "mask_ok m" "mask_ok v" "\<not> snd_mask_empty m" "snd_mask_refine m v = (r, n)"
  shows "mask_ok n \<and> (\<forall>x. in_mask n x = (in_mask m x \<and> in_mask v x)) \<and>
    drop MASK_SIZE n = drop MASK_SIZE m \<and>
    (if \<exists>x. in_mask m x \<and> in_mask v x
     then r = Inr (\<exists>x. in_mask m x \<and> \<not> in_mask v x) else r = Inl EINVAL)"
proof -
  obtain a where "in_mask m a" using assms(1,3) by (auto simp: empty_iff_no_member)
  moreover have "drop 2 (snd_mask_intersect m v) = drop 2 m"
    using assms(1,2) by (simp add: snd_mask_intersect_def mask_ok_def)
  ultimately show ?thesis using mask_refine_cases [OF assms(1,2)] assms in_intersect [OF assms(1,2)]
    by (auto split: if_splits)
qed

lemma mask_refine_is_intersection_witness:
  "\<forall>x. in_mask [4, 0, 5, 0, 0, 0, 0, 0] x = (in_mask [7, 0, 5, 0, 0, 0, 0, 0] x \<and> in_mask [12, 0, 0, 0, 0, 0, 0, 0] x)"
proof -
  have "snd_mask_refine [7, 0, 5, 0, 0, 0, 0, 0] [12, 0, 0, 0, 0, 0, 0, 0] = (Inr True, [4, 0, 5, 0, 0, 0, 0, 0])"
    by (simp add: snd_mask_refine_def snd_mask_empty_def snd_mask_intersect_def snd_mask_eq_def
        snd_mask_copy_def Let_def)
  from mask_refine_is_intersection [OF _ _ _ this] show ?thesis
    by (simp add: mask_ok_def snd_mask_empty_def)
qed

text \<open>
  Choosing from a mask. \<open>snd_mask_refine_first\<close> leaves exactly the least member,
  \<open>snd_mask_refine_last\<close> exactly the greatest, \<open>snd_mask_refine_min\<close> the members from a
  bound on (with \<open>-EINVAL\<close> when there is none) and \<open>snd_mask_refine_max\<close> those up to a bound, for
  every mask that is not empty.
\<close>

theorem mask_choices:
  assumes "mask_ok m" "\<not> snd_mask_empty m"
  shows "(\<exists>c n. snd_mask_refine_first m = (Inr c, n) \<and>
      (\<forall>x. in_mask n x = (in_mask m x \<and> (\<forall>y. in_mask m y \<longrightarrow> x \<le> y)))) \<and>
    (\<exists>c n. snd_mask_refine_last m = (Inr c, n) \<and>
      (\<forall>x. in_mask n x = (in_mask m x \<and> (\<forall>y. in_mask m y \<longrightarrow> y \<le> x)))) \<and>
    (val \<le> 64 \<longrightarrow> (\<exists>r n. snd_mask_refine_min m val = (r, n) \<and>
      (\<forall>x. in_mask n x = (in_mask m x \<and> unat val \<le> x)) \<and>
      (r = Inl EINVAL) = (\<forall>x. in_mask m x \<longrightarrow> x < unat val) \<and>
      (r = Inl EINVAL \<or> (\<exists>c. r = Inr c)))) \<and>
    (\<exists>r n. snd_mask_refine_max m val = (r, n) \<and>
      (\<forall>x. in_mask n x = (in_mask m x \<and> x \<le> unat val)) \<and>
      (r = Inl EINVAL) = (\<forall>x. in_mask m x \<longrightarrow> unat val < x) \<and>
      (r = Inl EINVAL \<or> (\<exists>c. r = Inr c)))"
proof (intro conjI impI)
  obtain lo where lo: "snd_mask_min m = Inr lo" "in_mask m (unat lo)"
    "\<And>x. in_mask m x \<Longrightarrow> unat lo \<le> x" "unat lo \<le> 64"
    using mask_min_spec [OF assms] by (metis less_imp_le)
  obtain hi where hi: "snd_mask_max m = Inr hi" "in_mask m (unat hi)"
    "\<And>x. in_mask m x \<Longrightarrow> x \<le> unat hi" "unat hi < 64" "unat hi \<le> 64"
    using mask_max_spec [OF assms] by (metis less_imp_le)
  note single = mask_single_iff [OF assms]
  show "\<exists>c n. snd_mask_refine_first m = (Inr c, n) \<and>
      (\<forall>x. in_mask n x = (in_mask m x \<and> (\<forall>y. in_mask m y \<longrightarrow> x \<le> y)))"
  proof (cases "snd_mask_single m = Inr True")
    case True
    then have "\<forall>x. in_mask m x \<longrightarrow> (\<forall>y. in_mask m y \<longrightarrow> x \<le> y)" using single by blast
    then show ?thesis using True assms by (auto simp: snd_mask_refine_first_def)
  next
    case False
    have "\<forall>x. in_mask m x \<and> (\<forall>y. in_mask m y \<longrightarrow> x \<le> y) \<longleftrightarrow> in_mask m x \<and> x = unat lo"
      using lo(2,3) by (meson le_antisym)
    then show ?thesis using False assms in_leave [OF assms(1) lo(4)]
      by (auto simp: snd_mask_refine_first_def lo(1) after_write_def)
  qed
  show "\<exists>c n. snd_mask_refine_last m = (Inr c, n) \<and>
      (\<forall>x. in_mask n x = (in_mask m x \<and> (\<forall>y. in_mask m y \<longrightarrow> y \<le> x)))"
  proof (cases "snd_mask_single m = Inr True")
    case True
    then have "\<forall>x. in_mask m x \<longrightarrow> (\<forall>y. in_mask m y \<longrightarrow> y \<le> x)" using single by blast
    then show ?thesis using True assms by (auto simp: snd_mask_refine_last_def)
  next
    case False
    have "\<forall>x. in_mask m x \<and> (\<forall>y. in_mask m y \<longrightarrow> y \<le> x) \<longleftrightarrow> in_mask m x \<and> x = unat hi"
      using hi(2,3) by (meson le_antisym)
    then show ?thesis using False assms in_leave [OF assms(1) hi(5)]
      by (auto simp: snd_mask_refine_last_def hi(1) after_write_def)
  qed
  show "\<exists>r n. snd_mask_refine_max m val = (r, n) \<and>
      (\<forall>x. in_mask n x = (in_mask m x \<and> x \<le> unat val)) \<and>
      (r = Inl EINVAL) = (\<forall>x. in_mask m x \<longrightarrow> unat val < x) \<and>
      (r = Inl EINVAL \<or> (\<exists>c. r = Inr c))"
  proof (cases "hi \<le> val")
    case True
    then have "\<forall>x. in_mask m x \<longrightarrow> x \<le> unat val"
      using hi(3) by (meson le_trans word_le_nat_alt)
    moreover from this have "\<not> (\<forall>x. in_mask m x \<longrightarrow> unat val < x)" using hi(2) by (meson not_less)
    ultimately show ?thesis using True assms(2) by (auto simp: snd_mask_refine_max_def hi(1))
  next
    case False
    then have lt: "unat val < unat hi" by (simp add: word_le_nat_alt)
    then have u: "unat (val + 1) = unat val + 1"
      by (intro unat_inc_less [of val hi]) (simp add: word_less_nat_alt)
    have m64: "unat SND_MASK_MAX \<le> 64" by simp
    have le: "val + 1 \<le> SND_MASK_MAX" using u lt hi(4) by (simp add: word_le_nat_alt)
    obtain n where n: "snd_mask_reset_range m (val + 1) SND_MASK_MAX = Inr n" "mask_ok n"
        "\<forall>x. in_mask n x = (in_mask m x \<and> \<not> (unat (val + 1) \<le> x \<and> x \<le> unat (64 :: u32)))"
      using reset_range_spec [OF assms(1) m64 le] by blast
    have "x < 64" if "in_mask m x" for x using that by (simp add: in_mask_def)
    then have x: "\<forall>x. in_mask n x = (in_mask m x \<and> x \<le> unat val)"
      using n(3) unfolding u by fastforce
    have "snd_mask_empty n \<longleftrightarrow> (\<forall>x. in_mask m x \<longrightarrow> unat val < x)"
      unfolding empty_iff_no_member [OF n(2)] using x not_le by blast
    then show ?thesis using False assms(2) n(1) x
      by (auto simp: snd_mask_refine_max_def hi(1) after_write_def)
  qed
  assume v: "val \<le> 64"
  show "\<exists>r n. snd_mask_refine_min m val = (r, n) \<and>
      (\<forall>x. in_mask n x = (in_mask m x \<and> unat val \<le> x)) \<and>
      (r = Inl EINVAL) = (\<forall>x. in_mask m x \<longrightarrow> x < unat val) \<and>
      (r = Inl EINVAL \<or> (\<exists>c. r = Inr c))"
  proof (cases "lo \<ge> val")
    case True
    then have "\<forall>x. in_mask m x \<longrightarrow> unat val \<le> x"
      using lo(3) by (meson le_trans word_le_nat_alt)
    moreover from this have "\<not> (\<forall>x. in_mask m x \<longrightarrow> x < unat val)" using lo(2) by (meson not_less)
    ultimately show ?thesis using True assms(2) by (auto simp: snd_mask_refine_min_def lo(1))
  next
    case False
    then have "val \<noteq> 0" by auto
    then have d: "unat (val - 1) = unat val - 1" "0 < unat val"
      using unat_dec [of val] by (auto simp: unat_gt_0)
    have "unat (val - 1) \<le> 64" using v d by (simp add: word_le_nat_alt)
    from reset_range_spec [OF assms(1) this, of 0] obtain n where
      n: "snd_mask_reset_range m 0 (val - 1) = Inr n" "mask_ok n"
        "\<forall>x. in_mask n x = (in_mask m x \<and> unat val \<le> x)"
      using d by fastforce
    have "snd_mask_empty n \<longleftrightarrow> (\<forall>x. in_mask m x \<longrightarrow> x < unat val)"
      using n(3) by (auto simp: empty_iff_no_member [OF n(2)])
    then show ?thesis using False assms(2) n
      by (auto simp: snd_mask_refine_min_def lo(1) after_write_def)
  qed
qed

lemma mask_choices_witness:
  "\<exists>c n. snd_mask_refine_first [6, 0, 0, 0, 0, 0, 0, 0] = (Inr c, n) \<and>
     (\<forall>x. in_mask n x = (in_mask [6, 0, 0, 0, 0, 0, 0, 0] x \<and>
        (\<forall>y. in_mask [6, 0, 0, 0, 0, 0, 0, 0] y \<longrightarrow> x \<le> y)))"
  using mask_choices [of "[6, 0, 0, 0, 0, 0, 0, 0]" 0] by (simp add: mask_ok_def snd_mask_empty_def)

text \<open>
  The assertions let the number \<open>SND_MASK_MAX\<close> through although it is not below it: its bit can be set
  and tested, but it belongs to a word the loops never look at, so the mask stays empty.
\<close>

lemma mask_last_bit_unseen:
  "case snd_mask_set (snd_mask_none m) SND_MASK_MAX of
     Inl e \<Rightarrow> False
   | Inr n \<Rightarrow> snd_mask_test n SND_MASK_MAX = Inr True \<and> snd_mask_empty n \<and> snd_mask_count n = 0"
  unfolding snd_mask_none_def by code_simp

end
