(* ===== verification/PcmFormat.thy ===== *)
theory PcmFormat
  imports Prelude
begin

text \<open>
  The tables of PCM sample formats, \<open>libasound/src/pcm/pcm_misc.c\<close>: sign, endianness,
  nominal and physical width, size of a number of samples, the silence pattern, the routine
  that fills a buffer with silence, and the table that finds a linear format from its
  attributes. The target is the little endian ARM of the device (\<open>SNDRV_LITTLE_ENDIAN\<close>,
  32 bit \<open>size_t\<close>).
\<close>

unbundle bit_operations_syntax

section \<open>Formats\<close>

text \<open>The enumeration; \<open>FORMAT_OTHER\<close> stands for the integers it does not name.\<close>

datatype snd_pcm_format =
    S8 | U8 | S16_LE | S16_BE | U16_LE | U16_BE | S24_LE | S24_BE | U24_LE | U24_BE
  | S32_LE | S32_BE | U32_LE | U32_BE | FLOAT_LE | FLOAT_BE | FLOAT64_LE | FLOAT64_BE
  | IEC958_SUBFRAME_LE | IEC958_SUBFRAME_BE | MU_LAW | A_LAW | IMA_ADPCM | MPEG | GSM
  | SPECIAL
  | S24_3LE | S24_3BE | U24_3LE | U24_3BE | S20_3LE | S20_3BE | U20_3LE | U20_3BE
  | S18_3LE | S18_3BE | U18_3LE | U18_3BE
  | FORMAT_OTHER int

abbreviation FORMAT_UNKNOWN :: snd_pcm_format where
  "FORMAT_UNKNOWN \<equiv> FORMAT_OTHER (-1)"

text \<open>The numbers of the enumeration, with its two jumps (to 31 and 32).\<close>

definition format_of_int :: "int \<Rightarrow> snd_pcm_format" where
  "format_of_int k =
     (if 0 \<le> k \<and> k \<le> 24 then
        [S8, U8, S16_LE, S16_BE, U16_LE, U16_BE, S24_LE, S24_BE, U24_LE, U24_BE,
         S32_LE, S32_BE, U32_LE, U32_BE, FLOAT_LE, FLOAT_BE, FLOAT64_LE, FLOAT64_BE,
         IEC958_SUBFRAME_LE, IEC958_SUBFRAME_BE, MU_LAW, A_LAW, IMA_ADPCM, MPEG, GSM] ! nat k
      else if 31 \<le> k \<and> k \<le> 43 then
        [SPECIAL, S24_3LE, S24_3BE, U24_3LE, U24_3BE, S20_3LE, S20_3BE, U20_3LE, U20_3BE,
         S18_3LE, S18_3BE, U18_3LE, U18_3BE] ! nat (k - 31)
      else FORMAT_OTHER k)"

definition SND_PCM_FORMAT_LAST :: nat where
  "SND_PCM_FORMAT_LAST = 43"

section \<open>The tables\<close>

definition snd_pcm_format_signed :: "snd_pcm_format \<Rightarrow> bool cres" where
  "snd_pcm_format_signed format =
     (if format \<in> {S8, S16_LE, S16_BE, S24_LE, S24_BE, S32_LE, S32_BE, S24_3LE, S24_3BE,
                    S20_3LE, S20_3BE, S18_3LE, S18_3BE} then Inr True
      else if format \<in> {U8, U16_LE, U16_BE, U24_LE, U24_BE, U32_LE, U32_BE, U24_3LE, U24_3BE,
                         U20_3LE, U20_3BE, U18_3LE, U18_3BE} then Inr False
      else Inl EINVAL)"

definition snd_pcm_format_unsigned :: "snd_pcm_format \<Rightarrow> bool cres" where
  "snd_pcm_format_unsigned format =
     (case snd_pcm_format_signed format of Inl e \<Rightarrow> Inl e | Inr val \<Rightarrow> Inr (\<not> val))"

definition snd_pcm_format_linear :: "snd_pcm_format \<Rightarrow> bool" where
  "snd_pcm_format_linear format =
     (case snd_pcm_format_signed format of Inl e \<Rightarrow> False | Inr val \<Rightarrow> True)"

definition snd_pcm_format_float :: "snd_pcm_format \<Rightarrow> bool" where
  "snd_pcm_format_float format = (format \<in> {FLOAT_LE, FLOAT_BE, FLOAT64_LE, FLOAT64_BE})"

definition snd_pcm_format_little_endian :: "snd_pcm_format \<Rightarrow> bool cres" where
  "snd_pcm_format_little_endian format =
     (if format \<in> {S16_LE, U16_LE, S24_LE, U24_LE, S32_LE, U32_LE, FLOAT_LE, FLOAT64_LE,
                    IEC958_SUBFRAME_LE, S24_3LE, S20_3LE, S18_3LE, U24_3LE, U20_3LE, U18_3LE}
      then Inr True
      else if format \<in> {S16_BE, U16_BE, S24_BE, U24_BE, S32_BE, U32_BE, FLOAT_BE, FLOAT64_BE,
                    IEC958_SUBFRAME_BE, S24_3BE, S20_3BE, S18_3BE, U24_3BE, U20_3BE, U18_3BE}
      then Inr False
      else Inl EINVAL)"

definition snd_pcm_format_big_endian :: "snd_pcm_format \<Rightarrow> bool cres" where
  "snd_pcm_format_big_endian format =
     (case snd_pcm_format_little_endian format of Inl e \<Rightarrow> Inl e | Inr val \<Rightarrow> Inr (\<not> val))"

definition snd_pcm_format_cpu_endian :: "snd_pcm_format \<Rightarrow> bool cres" where
  "snd_pcm_format_cpu_endian format = snd_pcm_format_little_endian format"

definition snd_pcm_format_width :: "snd_pcm_format \<Rightarrow> nat cres" where
  "snd_pcm_format_width format =
     (if format \<in> {S8, U8} then Inr 8
      else if format \<in> {S16_LE, S16_BE, U16_LE, U16_BE} then Inr 16
      else if format \<in> {S18_3LE, S18_3BE, U18_3LE, U18_3BE} then Inr 18
      else if format \<in> {S20_3LE, S20_3BE, U20_3LE, U20_3BE} then Inr 20
      else if format \<in> {S24_LE, S24_BE, U24_LE, U24_BE, S24_3LE, S24_3BE, U24_3LE, U24_3BE}
        then Inr 24
      else if format \<in> {S32_LE, S32_BE, U32_LE, U32_BE, FLOAT_LE, FLOAT_BE} then Inr 32
      else if format \<in> {FLOAT64_LE, FLOAT64_BE} then Inr 64
      else if format \<in> {IEC958_SUBFRAME_LE, IEC958_SUBFRAME_BE} then Inr 32
      else if format \<in> {MU_LAW, A_LAW} then Inr 8
      else if format = IMA_ADPCM then Inr 4
      else Inl EINVAL)"

definition snd_pcm_format_physical_width :: "snd_pcm_format \<Rightarrow> nat cres" where
  "snd_pcm_format_physical_width format =
     (if format \<in> {S8, U8} then Inr 8
      else if format \<in> {S16_LE, S16_BE, U16_LE, U16_BE} then Inr 16
      else if format \<in> {S18_3LE, S18_3BE, U18_3LE, U18_3BE, S20_3LE, S20_3BE, U20_3LE, U20_3BE,
                         S24_3LE, S24_3BE, U24_3LE, U24_3BE} then Inr 24
      else if format \<in> {S24_LE, S24_BE, U24_LE, U24_BE, S32_LE, S32_BE, U32_LE, U32_BE,
                         FLOAT_LE, FLOAT_BE, IEC958_SUBFRAME_LE, IEC958_SUBFRAME_BE} then Inr 32
      else if format \<in> {FLOAT64_LE, FLOAT64_BE} then Inr 64
      else if format \<in> {MU_LAW, A_LAW} then Inr 8
      else if format = IMA_ADPCM then Inr 4
      else Inl EINVAL)"

definition snd_pcm_format_size :: "snd_pcm_format \<Rightarrow> u32 \<Rightarrow> u32 cres" where
  "snd_pcm_format_size format samples =
     (if format \<in> {S8, U8} then Inr samples
      else if format \<in> {S16_LE, S16_BE, U16_LE, U16_BE} then Inr (samples * 2)
      else if format \<in> {S18_3LE, S18_3BE, U18_3LE, U18_3BE, S20_3LE, S20_3BE, U20_3LE, U20_3BE,
                         S24_3LE, S24_3BE, U24_3LE, U24_3BE} then Inr (samples * 3)
      else if format \<in> {S24_LE, S24_BE, U24_LE, U24_BE, S32_LE, S32_BE, U32_LE, U32_BE,
                         FLOAT_LE, FLOAT_BE} then Inr (samples * 4)
      else if format \<in> {FLOAT64_LE, FLOAT64_BE} then Inr (samples * 8)
      else if format \<in> {IEC958_SUBFRAME_LE, IEC958_SUBFRAME_BE} then Inr (samples * 4)
      else if format \<in> {MU_LAW, A_LAW} then Inr samples
      else if format = IMA_ADPCM then
        (if samples AND 1 \<noteq> 0 then Inl EINVAL else Inr (samples div 2))
      else Inl ABORT)"

section \<open>Silence\<close>

text \<open>The bits of the floating point zero are 0, whatever the byte order.\<close>

definition snd_pcm_format_silence_64 :: "snd_pcm_format \<Rightarrow> u64 cres" where
  "snd_pcm_format_silence_64 format =
     (if format \<in> {S8, S16_LE, S16_BE, S24_LE, S24_BE, S32_LE, S32_BE, S24_3LE, S24_3BE,
                    S20_3LE, S20_3BE, S18_3LE, S18_3BE} then Inr 0
      else if format = U8 then Inr 0x8080808080808080
      else if format = U16_LE then Inr 0x8000800080008000
      else if format = U24_LE then Inr 0x0080000000800000
      else if format = U32_LE then Inr 0x8000000080000000
      else if format = U16_BE then Inr 0x0080008000800080
      else if format = U24_BE then Inr 0x0000800000008000
      else if format = U32_BE then Inr 0x0000008000000080
      else if format = U24_3LE then Inr 0x0000800000800000
      else if format = U24_3BE then Inr 0x0080000080000080
      else if format = U20_3LE then Inr 0x0000080000080000
      else if format = U20_3BE then Inr 0x0008000008000008
      else if format = U18_3LE then Inr 0x0000020000020000
      else if format = U18_3BE then Inr 0x0002000002000002
      else if format \<in> {FLOAT_LE, FLOAT64_LE, FLOAT_BE, FLOAT64_BE} then Inr 0
      else if format \<in> {IEC958_SUBFRAME_LE, IEC958_SUBFRAME_BE} then Inr 0
      else if format = MU_LAW then Inr 0x7f7f7f7f7f7f7f7f
      else if format = A_LAW then Inr 0x5555555555555555
      else if format \<in> {IMA_ADPCM, MPEG, GSM, SPECIAL} then Inr 0
      else Inl ABORT)"

text \<open>
  The narrower patterns assert that the format fits; a negative width (an error code)
  passes the comparison.
\<close>

definition phys_le :: "snd_pcm_format \<Rightarrow> nat \<Rightarrow> bool" where
  "phys_le format n =
     (case snd_pcm_format_physical_width format of Inl e \<Rightarrow> True | Inr w \<Rightarrow> w \<le> n)"

definition snd_pcm_format_silence_32 :: "snd_pcm_format \<Rightarrow> u32 cres" where
  "snd_pcm_format_silence_32 format =
     (if \<not> phys_le format 32 then Inl ABORT
      else case snd_pcm_format_silence_64 format of Inl e \<Rightarrow> Inl e | Inr s \<Rightarrow> Inr (ucast s))"

definition snd_pcm_format_silence_16 :: "snd_pcm_format \<Rightarrow> u16 cres" where
  "snd_pcm_format_silence_16 format =
     (if \<not> phys_le format 16 then Inl ABORT
      else case snd_pcm_format_silence_64 format of Inl e \<Rightarrow> Inl e | Inr s \<Rightarrow> Inr (ucast s))"

definition snd_pcm_format_silence :: "snd_pcm_format \<Rightarrow> u8 cres" where
  "snd_pcm_format_silence format =
     (if \<not> phys_le format 8 then Inl ABORT
      else case snd_pcm_format_silence_64 format of Inl e \<Rightarrow> Inl e | Inr s \<Rightarrow> Inr (ucast s))"

text \<open>The bytes of a little endian store of the low \<open>n\<close> bytes of a word.\<close>

definition le_bytes :: "nat \<Rightarrow> 'a::len word \<Rightarrow> u8 list" where
  "le_bytes n w = map (\<lambda>i. ucast (drop_bit (8 * i) w)) [0..<n]"

text \<open>
  The bytes that \<open>snd_pcm_format_set_silence\<close> writes at the start of the buffer. The byte
  counts of the \<open>memset\<close> calls are computed on \<open>unsigned int\<close>.
\<close>

definition fill :: "u32 \<Rightarrow> u8 list \<Rightarrow> u8 list" where
  "fill samples pattern = concat (replicate (unat samples) pattern)"

definition snd_pcm_format_set_silence :: "snd_pcm_format \<Rightarrow> u32 \<Rightarrow> u8 list cres" where
  "snd_pcm_format_set_silence format samples =
     (if samples = 0 then Inr []
      else case snd_pcm_format_physical_width format of
        Inl e \<Rightarrow> Inl ABORT
      | Inr w \<Rightarrow>
        (case snd_pcm_format_silence_64 format of
           Inl e \<Rightarrow> Inl e
         | Inr s \<Rightarrow>
           if w = 4 then
             (if samples mod 2 \<noteq> 0 then Inl EINVAL
              else Inr (replicate (unat (samples div 2)) (ucast s)))
           else if w = 8 then Inr (replicate (unat samples) (ucast s))
           else if w = 16 then
             (let silence = ucast s :: u16
              in if silence = 0 then Inr (replicate (unat (samples * 2)) 0)
                 else Inr (fill samples (le_bytes 2 silence)))
           else if w = 24 then
             (let silence = ucast s :: u32
              in if silence = 0 then Inr (replicate (unat (samples * 3)) 0)
                 else Inr (fill samples [ucast silence, ucast (drop_bit 8 silence),
                                         ucast (drop_bit 16 silence)]))
           else if w = 32 then
             (let silence = ucast s :: u32
              in if silence = 0 then Inr (replicate (unat (samples * 4)) 0)
                 else Inr (fill samples (le_bytes 4 silence)))
           else if w = 64 then
             (if s = 0 then Inr (replicate (unat (samples * 8)) 0)
              else Inr (fill samples (le_bytes 8 s)))
           else Inl ABORT))"

section \<open>Finding a linear format\<close>

definition linear_formats :: "snd_pcm_format list list list" where
  "linear_formats =
     [[[S8, S8], [U8, U8]],
      [[S16_LE, S16_BE], [U16_LE, U16_BE]],
      [[S24_LE, S24_BE], [U24_LE, U24_BE]],
      [[S32_LE, S32_BE], [U32_LE, U32_BE]]]"

definition linear24_formats :: "snd_pcm_format list list list" where
  "linear24_formats =
     [[[S24_3LE, S24_3BE], [U24_3LE, U24_3BE]],
      [[S20_3LE, S20_3BE], [U20_3LE, U20_3BE]],
      [[S18_3LE, S18_3BE], [U18_3LE, U18_3BE]]]"

definition snd_pcm_build_linear_format :: "int \<Rightarrow> int \<Rightarrow> int \<Rightarrow> int \<Rightarrow> snd_pcm_format" where
  "snd_pcm_build_linear_format width pwidth unsignd big_endian =
     (let u = (if unsignd \<noteq> 0 then 1 else 0); b = (if big_endian \<noteq> 0 then 1 else 0)
      in if pwidth = 24 then
           (if width = 24 then linear24_formats ! 0 ! u ! b
            else if width = 20 then linear24_formats ! 1 ! u ! b
            else if width = 18 then linear24_formats ! 2 ! u ! b
            else FORMAT_UNKNOWN)
         else
           (if width = 8 then linear_formats ! 0 ! u ! b
            else if width = 16 then linear_formats ! 1 ! u ! b
            else if width = 24 then linear_formats ! 2 ! u ! b
            else if width = 32 then linear_formats ! 3 ! u ! b
            else FORMAT_UNKNOWN))"

lemmas format_tables =
  snd_pcm_format_signed_def snd_pcm_format_unsigned_def snd_pcm_format_linear_def
  snd_pcm_format_little_endian_def snd_pcm_format_big_endian_def
  snd_pcm_format_width_def snd_pcm_format_physical_width_def

text \<open>Case analysis over the formats that are linear.\<close>

lemma linear_cases:
  assumes "snd_pcm_format_linear f"
  shows "f \<in> {S8, S16_LE, S16_BE, S24_LE, S24_BE, S32_LE, S32_BE, S24_3LE, S24_3BE,
              S20_3LE, S20_3BE, S18_3LE, S18_3BE,
              U8, U16_LE, U16_BE, U24_LE, U24_BE, U32_LE, U32_BE, U24_3LE, U24_3BE,
              U20_3LE, U20_3BE, U18_3LE, U18_3BE}"
  using assms by (auto simp: snd_pcm_format_linear_def snd_pcm_format_signed_def split: if_splits)


text \<open>The unsigned reading of the bytes of one sample, in the byte order of its format.\<close>

fun le_value :: "u8 list \<Rightarrow> nat" where
  "le_value [] = 0"
| "le_value (b # bs) = unat b + 256 * le_value bs"

definition sample_value :: "snd_pcm_format \<Rightarrow> u8 list \<Rightarrow> nat" where
  "sample_value f bs =
     (if snd_pcm_format_big_endian f = Inr True then le_value (rev bs) else le_value bs)"

text \<open>The level of silence: 0 for a signed format, half the range for an unsigned one.\<close>

definition silence_level :: "snd_pcm_format \<Rightarrow> nat" where
  "silence_level f =
     (if snd_pcm_format_unsigned f = Inr True
      then (case snd_pcm_format_width f of Inl e \<Rightarrow> 0 | Inr w \<Rightarrow> 2 ^ (w - 1)) else 0)"

definition phys_bytes :: "snd_pcm_format \<Rightarrow> nat" where
  "phys_bytes f = (case snd_pcm_format_physical_width f of Inl e \<Rightarrow> 0 | Inr w \<Rightarrow> w div 8)"

lemma concat_replicate_nth:
  "i < n \<Longrightarrow> take (length p) (drop (i * length p) (concat (replicate n p))) = p"
proof (induction n arbitrary: i)
  case (Suc n)
  then show ?case by (cases i) simp_all
qed simp

lemma unat_times: 
  "unat (n :: u32) * k < 4294967296 \<Longrightarrow> unat (n * of_nat k) = unat n * k"
proof (cases "unat n = 0")
  case False
  assume a: "unat n * k < 4294967296"
  have "k \<le> unat n * k" using False by simp
  with a have "k < 4294967296" by linarith
  then have "unat (of_nat k :: u32) = k" by (simp add: unat_of_nat)
  with a show ?thesis by (simp add: unat_word_ariths)
qed (simp add: unat_word_ariths)

lemma concat_replicate_single: "concat (replicate n [x]) = replicate n x"
  by (induction n) simp_all

lemma concat_replicate_zeros: "concat (replicate n (replicate k x)) = replicate (n * k) x"
  by (induction n) (simp_all add: replicate_add)

lemma concat_zeros:
  "concat (replicate n [x, x]) = replicate (n * 2) x"
  "concat (replicate n [x, x, x]) = replicate (n * 3) x"
  "concat (replicate n [x, x, x, x]) = replicate (n * 4) x"
  using concat_replicate_zeros [of n 2 x] concat_replicate_zeros [of n 3 x]
    concat_replicate_zeros [of n 4 x] by (simp_all add: eval_nat_numeral)

text \<open>The sample that is repeated, per format.\<close>

definition silence_sample :: "snd_pcm_format \<Rightarrow> u8 list" where
  "silence_sample f =
     (case snd_pcm_format_silence_64 f of Inl e \<Rightarrow> [] | Inr s \<Rightarrow> le_bytes (phys_bytes f) s)"

lemma rep_cong: "p = q \<Longrightarrow> concat (replicate n p) = concat (replicate n q)"
  by simp

lemma set_silence_linear:
  assumes "snd_pcm_format_linear f" "unat n * 8 < 4294967296"
  shows "snd_pcm_format_set_silence f n = Inr (concat (replicate (unat n) (silence_sample f)))"
proof -
  have k: "unat (n * 2) = unat n * 2" "unat (n * 3) = unat n * 3" "unat (n * 4) = unat n * 4"
    using assms(2) unat_times [of n 2] unat_times [of n 3] unat_times [of n 4] by simp_all
  show ?thesis
    using linear_cases [OF assms(1)] unfolding insert_iff empty_iff
    by (elim disjE; simp add: snd_pcm_format_set_silence_def snd_pcm_format_physical_width_def
        snd_pcm_format_silence_64_def silence_sample_def phys_bytes_def le_bytes_def upt_rec
        fill_def k concat_replicate_single concat_zeros; (intro impI rep_cong, simp)?)
qed

lemma silence_sample_level:
  assumes "snd_pcm_format_linear f"
  shows "length (silence_sample f) = phys_bytes f" "sample_value f (silence_sample f) = silence_level f"
  using linear_cases [OF assms] unfolding insert_iff empty_iff
  by (elim disjE; simp add: silence_sample_def snd_pcm_format_silence_64_def phys_bytes_def format_tables
      le_bytes_def upt_rec sample_value_def silence_level_def)+

section \<open>Properties\<close>

text \<open>The arguments of the lookup that describe a format.\<close>

definition attributes_of :: "snd_pcm_format \<Rightarrow> int \<Rightarrow> int \<Rightarrow> int \<Rightarrow> int \<Rightarrow> bool" where
  "attributes_of f w pw u be =
     (snd_pcm_format_width f = Inr (nat w) \<and> 0 \<le> w \<and>
      snd_pcm_format_physical_width f = Inr (nat pw) \<and> 0 \<le> pw \<and>
      snd_pcm_format_unsigned f = Inr (u \<noteq> 0) \<and>
      (case snd_pcm_format_big_endian f of Inl e \<Rightarrow> True | Inr b \<Rightarrow> b = (be \<noteq> 0)))"

text \<open>
  C26 -- a linear format is determined by its attributes: looking it up with its own nominal
  width, physical width, sign and endianness finds it again (for the 8 bit formats, which
  have no endianness, with any endianness argument), and conversely a format found by the
  lookup has the nominal width and the sign that were asked for.
\<close>

theorem build_linear_format_roundtrip:
  "(attributes_of f w pw u be \<longrightarrow> snd_pcm_build_linear_format w pw u be = f) \<and>
   (snd_pcm_build_linear_format w pw u be = FORMAT_UNKNOWN \<or>
    snd_pcm_format_width (snd_pcm_build_linear_format w pw u be) = Inr (nat w) \<and>
    snd_pcm_format_unsigned (snd_pcm_build_linear_format w pw u be) = Inr (u \<noteq> 0))"
proof
  show "attributes_of f w pw u be \<longrightarrow> snd_pcm_build_linear_format w pw u be = f"
  proof
    assume a: "attributes_of f w pw u be"
    then have "snd_pcm_format_linear f"
      by (auto simp: attributes_of_def snd_pcm_format_unsigned_def snd_pcm_format_linear_def split: sum.splits)
    from linear_cases [OF this] a show "snd_pcm_build_linear_format w pw u be = f"
      unfolding insert_iff empty_iff
      by (elim disjE) (auto simp: attributes_of_def format_tables snd_pcm_build_linear_format_def
          linear_formats_def linear24_formats_def nat_eq_iff2)
  qed
next
  show "snd_pcm_build_linear_format w pw u be = FORMAT_UNKNOWN \<or>
    snd_pcm_format_width (snd_pcm_build_linear_format w pw u be) = Inr (nat w) \<and>
    snd_pcm_format_unsigned (snd_pcm_build_linear_format w pw u be) = Inr (u \<noteq> 0)"
    by (auto simp: format_tables snd_pcm_build_linear_format_def linear_formats_def linear24_formats_def)
qed


lemma build_linear_format_roundtrip_witness:
  "snd_pcm_build_linear_format 20 24 1 1 = U20_3BE"
  using build_linear_format_roundtrip [of U20_3BE 20 24 1 1]
  by (simp add: attributes_of_def format_tables)

text \<open>
  The lookup does not compare the physical width outside the packed formats: 16 bit samples
  in 64 bit containers are answered with a 16 bit format instead of \<open>FORMAT_UNKNOWN\<close>.
\<close>

lemma build_linear_format_ignores_pwidth:
  "snd_pcm_build_linear_format 16 64 0 0 = S16_LE \<and> snd_pcm_format_physical_width S16_LE = Inr 16"
  by (simp add: snd_pcm_build_linear_format_def linear_formats_def snd_pcm_format_physical_width_def)

text \<open>
  C27 -- silence is the zero level. For every linear format, filling \<open>n\<close> samples (whose byte
  count fits in \<open>unsigned int\<close>) writes \<open>n\<close> times the physical sample size, and every sample
  read back in the byte order of the format is 0 when the format is signed and the middle of
  the range when it is unsigned.
\<close>

theorem set_silence_is_zero_level:
  assumes "snd_pcm_format_linear f" "unat n * 8 < 4294967296"
  shows "\<exists>bytes. snd_pcm_format_set_silence f n = Inr bytes \<and>
     length bytes = unat n * phys_bytes f \<and>
     (\<forall>i < unat n. sample_value f (take (phys_bytes f) (drop (i * phys_bytes f) bytes)) = silence_level f)"
  using silence_sample_level [OF assms(1)] concat_replicate_nth [of _ "unat n" "silence_sample f"]
  by (simp add: set_silence_linear [OF assms] length_concat sum_list_replicate)

lemma set_silence_is_zero_level_witness:
  "\<exists>bytes. snd_pcm_format_set_silence U24_BE 3 = Inr bytes \<and> length bytes = 12 \<and>
     sample_value U24_BE (take 4 (drop (2 * 4) bytes)) = 8388608"
proof -
  have "snd_pcm_format_linear U24_BE" "unat (3 :: u32) * 8 < 4294967296" "(2 :: nat) < unat (3 :: u32)"
    by (simp_all add: format_tables)
  from set_silence_is_zero_level [OF this(1,2)] this(3) obtain bytes where
    "snd_pcm_format_set_silence U24_BE 3 = Inr bytes"
    "length bytes = unat (3 :: u32) * phys_bytes U24_BE"
    "sample_value U24_BE (take (phys_bytes U24_BE) (drop (2 * phys_bytes U24_BE) bytes)) = silence_level U24_BE"
    by blast
  moreover have "phys_bytes U24_BE = 4" "silence_level U24_BE = 8388608"
    by (simp_all add: format_tables phys_bytes_def silence_level_def)
  ultimately show ?thesis by simp
qed

text \<open>
  C28 -- the tables agree with each other. A format with a nominal width has a physical width
  that is at least as large; a sample of a linear format fills whole bytes, and then the size
  table is the physical width times the number of samples; the formats with an endianness
  are exactly the ones of more than one byte.
\<close>

theorem format_tables_agree:
  "(snd_pcm_format_width f = Inr w \<longrightarrow> (\<exists>p. snd_pcm_format_physical_width f = Inr p \<and> w \<le> p)) \<and>
   (snd_pcm_format_linear f \<longrightarrow> snd_pcm_format_size f n = Inr (n * of_nat (phys_bytes f))) \<and>
   ((\<exists>b. snd_pcm_format_little_endian f = Inr b) =
    (\<exists>p. snd_pcm_format_physical_width f = Inr p \<and> p > 8))"
proof (intro conjI impI)
  assume "snd_pcm_format_linear f"
  from linear_cases [OF this] show "snd_pcm_format_size f n = Inr (n * of_nat (phys_bytes f))"
    unfolding insert_iff empty_iff
    by (elim disjE) (simp_all add: snd_pcm_format_size_def phys_bytes_def snd_pcm_format_physical_width_def)
next
  show "(\<exists>b. snd_pcm_format_little_endian f = Inr b) =
    (\<exists>p. snd_pcm_format_physical_width f = Inr p \<and> p > 8)"
    by (cases f) (simp_all add: snd_pcm_format_little_endian_def snd_pcm_format_physical_width_def, blast+)
next
  show "snd_pcm_format_width f = Inr w \<Longrightarrow> \<exists>p. snd_pcm_format_physical_width f = Inr p \<and> w \<le> p"
    by (cases f) (simp_all add: snd_pcm_format_width_def snd_pcm_format_physical_width_def)
qed

lemma format_tables_agree_witness:
  "snd_pcm_format_size S24_3LE 100 = Inr 300"
  using format_tables_agree [of S24_3LE 24 100]
  by (simp add: format_tables phys_bytes_def)

end
