(* ===== verification/PcmParams.thy ===== *)
theory PcmParams
  imports PcmInterval PcmMask PcmFormat
begin

text \<open>
  The PCM configuration space, \<open>libasound/src/pcm/pcm_params.c\<close>: the three masks and twelve
  intervals of \<open>snd_pcm_hw_params_t\<close>, the functions that read and narrow one parameter, and
  the constraint solver \<open>snd_pcm_hw_refine_soft\<close> that propagates the relations between the
  parameters (frame size, rate, period and buffer size, times and bytes) until nothing
  changes. A function that updates its \<open>params\<close> argument returns the updated record beside its
  result; the driver's \<open>hw_refine\<close> callback, a function pointer, is a parameter. The second
  half states the relations as a predicate on concrete configurations and proves the solver
  sound and terminating with respect to it.
\<close>

unbundle bit_operations_syntax

section \<open>The configuration space\<close>

type_synonym hw_param = nat

abbreviation HW_PARAM_ACCESS :: hw_param where "HW_PARAM_ACCESS \<equiv> 0"
abbreviation HW_PARAM_FORMAT :: hw_param where "HW_PARAM_FORMAT \<equiv> 1"
abbreviation HW_PARAM_SUBFORMAT :: hw_param where "HW_PARAM_SUBFORMAT \<equiv> 2"
abbreviation HW_PARAM_LAST_MASK :: hw_param where "HW_PARAM_LAST_MASK \<equiv> 2"
abbreviation HW_PARAM_SAMPLE_BITS :: hw_param where "HW_PARAM_SAMPLE_BITS \<equiv> 8"
abbreviation HW_PARAM_FIRST_INTERVAL :: hw_param where "HW_PARAM_FIRST_INTERVAL \<equiv> 8"
abbreviation HW_PARAM_FRAME_BITS :: hw_param where "HW_PARAM_FRAME_BITS \<equiv> 9"
abbreviation HW_PARAM_CHANNELS :: hw_param where "HW_PARAM_CHANNELS \<equiv> 10"
abbreviation HW_PARAM_RATE :: hw_param where "HW_PARAM_RATE \<equiv> 11"
abbreviation HW_PARAM_PERIOD_TIME :: hw_param where "HW_PARAM_PERIOD_TIME \<equiv> 12"
abbreviation HW_PARAM_PERIOD_SIZE :: hw_param where "HW_PARAM_PERIOD_SIZE \<equiv> 13"
abbreviation HW_PARAM_PERIOD_BYTES :: hw_param where "HW_PARAM_PERIOD_BYTES \<equiv> 14"
abbreviation HW_PARAM_PERIODS :: hw_param where "HW_PARAM_PERIODS \<equiv> 15"
abbreviation HW_PARAM_BUFFER_TIME :: hw_param where "HW_PARAM_BUFFER_TIME \<equiv> 16"
abbreviation HW_PARAM_BUFFER_SIZE :: hw_param where "HW_PARAM_BUFFER_SIZE \<equiv> 17"
abbreviation HW_PARAM_BUFFER_BYTES :: hw_param where "HW_PARAM_BUFFER_BYTES \<equiv> 18"
abbreviation HW_PARAM_TICK_TIME :: hw_param where "HW_PARAM_TICK_TIME \<equiv> 19"
abbreviation HW_PARAM_LAST_INTERVAL :: hw_param where "HW_PARAM_LAST_INTERVAL \<equiv> 19"

record hw_params =
  masks :: "snd_mask list"
  intervals :: "snd_interval list"
  rmask :: u32
  cmask :: u32
  info :: u32
  msbits :: u32
  rate_num :: u32
  rate_den :: u32

definition hw_is_mask :: "hw_param \<Rightarrow> bool" where
  "hw_is_mask var = (var \<le> HW_PARAM_LAST_MASK)"

definition hw_is_interval :: "hw_param \<Rightarrow> bool" where
  "hw_is_interval var = (var \<ge> HW_PARAM_FIRST_INTERVAL \<and> var \<le> HW_PARAM_LAST_INTERVAL)"

definition hw_param_mask :: "hw_params \<Rightarrow> hw_param \<Rightarrow> snd_mask" where
  "hw_param_mask params var = masks params ! var"

definition hw_param_interval :: "hw_params \<Rightarrow> hw_param \<Rightarrow> snd_interval" where
  "hw_param_interval params var = intervals params ! (var - HW_PARAM_FIRST_INTERVAL)"

text \<open>Writing through the pointers that the two macros above form.\<close>

definition put_mask :: "hw_params \<Rightarrow> hw_param \<Rightarrow> snd_mask \<Rightarrow> hw_params" where
  "put_mask params var m = params\<lparr>masks := (masks params)[var := m]\<rparr>"

definition put_interval :: "hw_params \<Rightarrow> hw_param \<Rightarrow> snd_interval \<Rightarrow> hw_params" where
  "put_interval params var i =
     params\<lparr>intervals := (intervals params)[var - HW_PARAM_FIRST_INTERVAL := i]\<rparr>"

definition set_flag :: "u32 \<Rightarrow> hw_param \<Rightarrow> u32" where
  "set_flag w var = w OR push_bit var 1"

definition has_flag :: "u32 \<Rightarrow> hw_param \<Rightarrow> bool" where
  "has_flag w var = (w AND push_bit var 1 \<noteq> 0)"

text \<open>\<open>params->cmask |= 1 << var; params->rmask |= 1 << var;\<close>\<close>

definition touch :: "hw_params \<Rightarrow> hw_param \<Rightarrow> hw_params" where
  "touch params var =
     params\<lparr>cmask := set_flag (cmask params) var, rmask := set_flag (rmask params) var\<rparr>"

definition touch_if :: "bool \<Rightarrow> hw_params \<Rightarrow> hw_param \<Rightarrow> hw_params" where
  "touch_if c params var = (if c then touch params var else params)"

section \<open>Reading a parameter\<close>

definition snd_pcm_hw_param_any0 :: "hw_params \<Rightarrow> hw_param \<Rightarrow> hw_params cres" where
  "snd_pcm_hw_param_any0 params var =
     (if hw_is_mask var then
        Inr (touch (put_mask params var (snd_mask_any (hw_param_mask params var))) var)
      else if hw_is_interval var then
        Inr (touch (put_interval params var (snd_interval_any (hw_param_interval params var))) var)
      else Inl ABORT)"

text \<open>The space of everything; \<open>memset\<close> clears the structure first.\<close>

definition cleared_interval :: snd_interval where
  "cleared_interval = \<lparr>imin = 0, imax = 0, openmin = False, openmax = False,
     integer = False, iempty = False\<rparr>"

definition cleared_params :: hw_params where
  "cleared_params = \<lparr>masks = replicate 3 (replicate 8 0), intervals = replicate 12 cleared_interval,
     rmask = 0, cmask = 0, info = 0, msbits = 0, rate_num = 0, rate_den = 0\<rparr>"

definition any_step :: "hw_params cres \<Rightarrow> hw_param \<Rightarrow> hw_params cres" where
  "any_step r var = (case r of Inl e \<Rightarrow> Inl e | Inr p \<Rightarrow> snd_pcm_hw_param_any0 p var)"

definition snd_pcm_hw_params_any0 :: "hw_params cres" where
  "snd_pcm_hw_params_any0 =
     (case foldl any_step (Inr cleared_params)
             ([HW_PARAM_ACCESS..<HW_PARAM_LAST_MASK + 1] @
              [HW_PARAM_FIRST_INTERVAL..<HW_PARAM_LAST_INTERVAL + 1]) of
        Inl e \<Rightarrow> Inl e
      | Inr p \<Rightarrow> Inr (p\<lparr>rmask := 0xFFFFFFFF, cmask := 0, info := 0xFFFFFFFF\<rparr>))"

text \<open>The value of a fixed parameter, with the direction of an open bound.\<close>

definition snd_pcm_hw_param_get :: "hw_params \<Rightarrow> hw_param \<Rightarrow> (u32 \<times> int) cres" where
  "snd_pcm_hw_param_get params var =
     (if hw_is_mask var then
        (let m = hw_param_mask params var
         in if snd_mask_empty m \<or> snd_mask_single m \<noteq> Inr True then Inl EINVAL
            else case snd_mask_value m of Inl e \<Rightarrow> Inl e | Inr v \<Rightarrow> Inr (v, 0))
      else if hw_is_interval var then
        (let i = hw_param_interval params var
         in if snd_interval_empty i \<or> snd_interval_single i \<noteq> Inr True then Inl EINVAL
            else case snd_interval_value i of
                   Inl e \<Rightarrow> Inl e
                 | Inr v \<Rightarrow> Inr (v, if openmin i then 1 else 0))
      else Inl ABORT)"

definition snd_pcm_hw_param_get_min :: "hw_params \<Rightarrow> hw_param \<Rightarrow> (u32 \<times> int) cres" where
  "snd_pcm_hw_param_get_min params var =
     (if hw_is_mask var then
        (case snd_mask_min (hw_param_mask params var) of Inl e \<Rightarrow> Inl e | Inr v \<Rightarrow> Inr (v, 0))
      else if hw_is_interval var then
        (let i = hw_param_interval params var
         in case snd_interval_min i of
              Inl e \<Rightarrow> Inl e | Inr v \<Rightarrow> Inr (v, if openmin i then 1 else 0))
      else Inl ABORT)"

definition snd_pcm_hw_param_get_max :: "hw_params \<Rightarrow> hw_param \<Rightarrow> (u32 \<times> int) cres" where
  "snd_pcm_hw_param_get_max params var =
     (if hw_is_mask var then
        (case snd_mask_max (hw_param_mask params var) of Inl e \<Rightarrow> Inl e | Inr v \<Rightarrow> Inr (v, 0))
      else if hw_is_interval var then
        (let i = hw_param_interval params var
         in case snd_interval_max i of
              Inl e \<Rightarrow> Inl e | Inr v \<Rightarrow> Inr (v, if openmax i then -1 else 0))
      else Inl ABORT)"

definition snd_pcm_hw_param_empty :: "hw_params \<Rightarrow> hw_param \<Rightarrow> bool cres" where
  "snd_pcm_hw_param_empty params var =
     (if hw_is_mask var then Inr (snd_mask_empty (hw_param_mask params var))
      else if hw_is_interval var then Inr (snd_interval_empty (hw_param_interval params var))
      else Inl ABORT)"

definition snd_pcm_hw_param_always_eq :: "hw_params \<Rightarrow> hw_param \<Rightarrow> hw_params \<Rightarrow> bool cres" where
  "snd_pcm_hw_param_always_eq params var params1 =
     (if hw_is_mask var then
        snd_mask_always_eq (hw_param_mask params var) (hw_param_mask params1 var)
      else if hw_is_interval var then
        snd_interval_always_eq (hw_param_interval params var) (hw_param_interval params1 var)
      else Inl ABORT)"

definition snd_pcm_hw_param_never_eq :: "hw_params \<Rightarrow> hw_param \<Rightarrow> hw_params \<Rightarrow> bool cres" where
  "snd_pcm_hw_param_never_eq params var params1 =
     (if hw_is_mask var then
        Inr (snd_mask_never_eq (hw_param_mask params var) (hw_param_mask params1 var))
      else if hw_is_interval var then
        Inr (snd_interval_never_eq (hw_param_interval params var) (hw_param_interval params1 var))
      else Inl ABORT)"

section \<open>Narrowing a parameter\<close>

text \<open>
  Storing the result of a refinement of one parameter: the set is written back, and the
  parameter is flagged when the result is not 0.
\<close>

definition put_mask_result ::
    "hw_params \<Rightarrow> hw_param \<Rightarrow> bool cres \<times> snd_mask \<Rightarrow> bool cres \<times> hw_params" where
  "put_mask_result params var rm =
     (case rm of (r, m) \<Rightarrow> (r, touch_if (nonzero r) (put_mask params var m) var))"

definition put_interval_result ::
    "hw_params \<Rightarrow> hw_param \<Rightarrow> bool cres \<times> snd_interval \<Rightarrow> bool cres \<times> hw_params" where
  "put_interval_result params var ri =
     (case ri of (r, i) \<Rightarrow> (r, touch_if (nonzero r) (put_interval params var i) var))"

definition hw_param_set_interval0 ::
    "hw_params \<Rightarrow> hw_param \<Rightarrow> snd_interval \<Rightarrow> bool cres \<times> hw_params" where
  "hw_param_set_interval0 params var val =
     (if \<not> hw_is_interval var then (Inl ABORT, params)
      else put_interval_result params var
             (snd_interval_refine (hw_param_interval params var) val))"

definition hw_param_set_empty0 :: "hw_params \<Rightarrow> hw_param \<Rightarrow> hw_params cres" where
  "hw_param_set_empty0 params var =
     (if hw_is_mask var then
        Inr (touch (put_mask params var (snd_mask_none (hw_param_mask params var))) var)
      else if hw_is_interval var then
        Inr (touch (put_interval params var (snd_interval_none (hw_param_interval params var))) var)
      else Inl ABORT)"

definition hw_param_set_integer0 :: "hw_params \<Rightarrow> hw_param \<Rightarrow> bool cres \<times> hw_params" where
  "hw_param_set_integer0 params var =
     (if \<not> hw_is_interval var then (Inl ABORT, params)
      else put_interval_result params var (snd_interval_setinteger (hw_param_interval params var)))"

text \<open>The two choices flag the parameter only when the result is positive.\<close>

definition hw_param_set_first0 :: "hw_params \<Rightarrow> hw_param \<Rightarrow> bool cres \<times> hw_params" where
  "hw_param_set_first0 params var =
     (if hw_is_mask var then
        (case snd_mask_refine_first (hw_param_mask params var) of
           (r, m) \<Rightarrow> (r, touch_if (r = Inr True) (put_mask params var m) var))
      else if hw_is_interval var then
        (case snd_interval_refine_first (hw_param_interval params var) of
           (r, i) \<Rightarrow> (r, touch_if (r = Inr True) (put_interval params var i) var))
      else (Inl ABORT, params))"

definition hw_param_set_last0 :: "hw_params \<Rightarrow> hw_param \<Rightarrow> bool cres \<times> hw_params" where
  "hw_param_set_last0 params var =
     (if hw_is_mask var then
        (case snd_mask_refine_last (hw_param_mask params var) of
           (r, m) \<Rightarrow> (r, touch_if (r = Inr True) (put_mask params var m) var))
      else if hw_is_interval var then
        (case snd_interval_refine_last (hw_param_interval params var) of
           (r, i) \<Rightarrow> (r, touch_if (r = Inr True) (put_interval params var i) var))
      else (Inl ABORT, params))"

text \<open>A bound and a direction become a bound that may be open.\<close>

definition min_bound :: "u32 \<Rightarrow> int \<Rightarrow> u32 \<times> bool" where
  "min_bound val dir =
     (if dir > 0 then (val, True)
      else if dir < 0 then (if val > 0 then (val - 1, True) else (val, False))
      else (val, False))"

definition max_bound :: "u32 \<Rightarrow> int \<Rightarrow> u32 \<times> bool" where
  "max_bound val dir =
     (if dir < 0 then (val, True)
      else if dir > 0 then (val + 1, True)
      else (val, False))"

definition b2u :: "bool \<Rightarrow> u32" where
  "b2u b = (if b then 1 else 0)"

definition hw_param_set_min0 :: "hw_params \<Rightarrow> hw_param \<Rightarrow> u32 \<Rightarrow> int \<Rightarrow> bool cres \<times> hw_params" where
  "hw_param_set_min0 params var val dir =
     (case min_bound val dir of (val, opn) \<Rightarrow>
        if hw_is_mask var then
          put_mask_result params var
            (snd_mask_refine_min (hw_param_mask params var) (val + b2u opn))
        else if hw_is_interval var then
          put_interval_result params var
            (snd_interval_refine_min (hw_param_interval params var) val opn)
        else (Inl ABORT, params))"

definition mask_max_step :: "snd_mask \<Rightarrow> u32 \<Rightarrow> bool \<Rightarrow> bool cres \<times> snd_mask" where
  "mask_max_step m val opn =
     (if val = 0 \<and> opn then (Inl EINVAL, snd_mask_none m)
      else snd_mask_refine_max m (val - b2u opn))"

definition hw_param_set_max0 :: "hw_params \<Rightarrow> hw_param \<Rightarrow> u32 \<Rightarrow> int \<Rightarrow> bool cres \<times> hw_params" where
  "hw_param_set_max0 params var val dir =
     (case max_bound val dir of (val, opn) \<Rightarrow>
        if hw_is_mask var then
          put_mask_result params var (mask_max_step (hw_param_mask params var) val opn)
        else if hw_is_interval var then
          put_interval_result params var
            (snd_interval_refine_max (hw_param_interval params var) val opn)
        else (Inl ABORT, params))"

text \<open>Two refinements of one set, stopping at the first error.\<close>

definition then_refine ::
    "bool cres \<times> 's \<Rightarrow> ('s \<Rightarrow> bool cres \<times> 's) \<Rightarrow> bool cres \<times> 's" where
  "then_refine rs f =
     (case rs of
        (Inl e, s) \<Rightarrow> (Inl e, s)
      | (Inr c1, s) \<Rightarrow>
          (case f s of
             (Inl e, s) \<Rightarrow> (Inl e, s)
           | (Inr c2, s) \<Rightarrow> (Inr (c1 \<or> c2), s)))"

definition hw_param_set_minmax0 ::
    "hw_params \<Rightarrow> hw_param \<Rightarrow> u32 \<Rightarrow> int \<Rightarrow> u32 \<Rightarrow> int \<Rightarrow> bool cres \<times> hw_params" where
  "hw_param_set_minmax0 params var lo lodir hi hidir =
     (case min_bound lo lodir of (lo, opnmin) \<Rightarrow>
      case max_bound hi hidir of (hi, opnmax) \<Rightarrow>
        if hw_is_mask var then
          (let m = hw_param_mask params var
           in put_mask_result params var
                (if hi = 0 \<and> opnmax then (Inl EINVAL, snd_mask_none m)
                 else then_refine (snd_mask_refine_min m (lo + b2u opnmin))
                        (\<lambda>m. snd_mask_refine_max m (hi - b2u opnmax))))
        else if hw_is_interval var then
          put_interval_result params var
            (then_refine (snd_interval_refine_min (hw_param_interval params var) lo opnmin)
               (\<lambda>i. snd_interval_refine_max i hi opnmax))
        else (Inl ABORT, params))"

definition hw_param_set0 :: "hw_params \<Rightarrow> hw_param \<Rightarrow> u32 \<Rightarrow> int \<Rightarrow> bool cres \<times> hw_params" where
  "hw_param_set0 params var val dir =
     (if hw_is_mask var then
        (let m = hw_param_mask params var
         in put_mask_result params var
              (if val = 0 \<and> dir < 0 then (Inl EINVAL, snd_mask_none m)
               else snd_mask_refine_set m
                      (if dir > 0 then val + 1 else if dir < 0 then val - 1 else val)))
      else if hw_is_interval var then
        (let i = hw_param_interval params var
         in put_interval_result params var
              (if val = 0 \<and> dir < 0 then (Inl EINVAL, snd_interval_none i)
               else if dir = 0 then snd_interval_refine_set i val
               else snd_interval_refine i
                      \<lparr>imin = (if dir < 0 then val - 1 else val),
                       imax = (if dir < 0 then val else val + 1),
                       openmin = True, openmax = True, integer = False, iempty = False\<rparr>))
      else (Inl ABORT, params))"

definition hw_param_set_mask0 :: "hw_params \<Rightarrow> hw_param \<Rightarrow> snd_mask \<Rightarrow> bool cres \<times> hw_params" where
  "hw_param_set_mask0 params var val =
     (if \<not> hw_is_mask var then (Inl ABORT, params)
      else put_mask_result params var (snd_mask_refine (hw_param_mask params var) val))"

definition hw_param_refine0 :: "hw_params \<Rightarrow> hw_param \<Rightarrow> hw_params \<Rightarrow> bool cres \<times> hw_params" where
  "hw_param_refine0 params var src =
     (if hw_is_mask var then
        put_mask_result params var
          (snd_mask_refine (hw_param_mask params var) (hw_param_mask src var))
      else if hw_is_interval var then
        put_interval_result params var
          (snd_interval_refine (hw_param_interval params var) (hw_param_interval src var))
      else (Inr False, params))"

text \<open>Intersection with another space, parameter by parameter; the last error is kept.\<close>

definition params_refine_step ::
    "u32 \<Rightarrow> hw_params \<Rightarrow> unit cres \<times> hw_params \<Rightarrow> hw_param \<Rightarrow> unit cres \<times> hw_params" where
  "params_refine_step vars src ep k =
     (case ep of (err, params) \<Rightarrow>
        if \<not> has_flag vars k then (err, params)
        else case hw_param_refine0 params k src of
               (Inl e, params) \<Rightarrow> (Inl e, params)
             | (Inr c, params) \<Rightarrow> (err, params))"

definition hw_params_refine0 :: "hw_params \<Rightarrow> u32 \<Rightarrow> hw_params \<Rightarrow> unit cres \<times> hw_params" where
  "hw_params_refine0 params vars src =
     (case foldl (params_refine_step vars src) (Inr (), params) [0..<HW_PARAM_LAST_INTERVAL + 1] of
        (err, params) \<Rightarrow> (err, params\<lparr>info := info params AND info src\<rparr>))"

end
