(* ===== verification/PcmSolve.thy ===== *)
theory PcmSolve
  imports PcmParams
begin

text \<open>
  The constraint solver of the PCM configuration space, the second half of
  \<open>libasound/src/pcm/pcm_params.c\<close>: the rules, their table, and the propagation loop
  \<open>snd_pcm_hw_refine_soft\<close> with its change stamps. The rules compute into an interval on the
  stack that is not initialised; its content is the parameter \<open>t0\<close>. A loop that does not end
  is the value \<open>None\<close>.
\<close>

unbundle bit_operations_syntax

section \<open>The rules\<close>

datatype hw_rule_func =
    RULE_FORMAT | RULE_SAMPLE_BITS | RULE_MUL | RULE_DIV | RULE_MULDIVK | RULE_MULKDIV

record hw_rule =
  rule_var :: hw_param
  rule_func :: hw_rule_func
  rule_deps :: "hw_param list"
  private_data :: u32

definition rule_interval ::
    "hw_params \<Rightarrow> hw_rule \<Rightarrow> snd_interval option \<Rightarrow> bool cres \<times> hw_params" where
  "rule_interval params r t =
     (case t of
        None \<Rightarrow> (Inl ABORT, params)
      | Some t \<Rightarrow>
          (case snd_interval_refine (hw_param_interval params (rule_var r)) t of
             (c, i) \<Rightarrow> (c, put_interval params (rule_var r) i)))"

definition dep :: "hw_params \<Rightarrow> hw_rule \<Rightarrow> nat \<Rightarrow> snd_interval" where
  "dep params r n = hw_param_interval params (rule_deps r ! n)"

definition snd_pcm_hw_rule_mul ::
    "snd_interval \<Rightarrow> hw_params \<Rightarrow> hw_rule \<Rightarrow> bool cres \<times> hw_params" where
  "snd_pcm_hw_rule_mul t0 params r =
     rule_interval params r (Some (snd_interval_mul (dep params r 0) (dep params r 1) t0))"

definition snd_pcm_hw_rule_div ::
    "snd_interval \<Rightarrow> hw_params \<Rightarrow> hw_rule \<Rightarrow> bool cres \<times> hw_params" where
  "snd_pcm_hw_rule_div t0 params r =
     rule_interval params r (Some (snd_interval_div (dep params r 0) (dep params r 1) t0))"

definition snd_pcm_hw_rule_muldivk ::
    "snd_interval \<Rightarrow> hw_params \<Rightarrow> hw_rule \<Rightarrow> bool cres \<times> hw_params" where
  "snd_pcm_hw_rule_muldivk t0 params r =
     rule_interval params r
       (snd_interval_muldivk (dep params r 0) (dep params r 1) (private_data r) t0)"

definition snd_pcm_hw_rule_mulkdiv ::
    "snd_interval \<Rightarrow> hw_params \<Rightarrow> hw_rule \<Rightarrow> bool cres \<times> hw_params" where
  "snd_pcm_hw_rule_mulkdiv t0 params r =
     rule_interval params r
       (snd_interval_mulkdiv (dep params r 0) (private_data r) (dep params r 1) t0)"

text \<open>The format mask and the interval of the sample bits narrow each other.\<close>

fun rule_format_loop :: "snd_interval \<Rightarrow> nat list \<Rightarrow> bool \<Rightarrow> snd_mask \<Rightarrow> bool cres \<times> snd_mask" where
  "rule_format_loop i [] changed m = (Inr changed, m)"
| "rule_format_loop i (k # ks) changed m =
     (if snd_mask_test m (of_nat k) \<noteq> Inr True then rule_format_loop i ks changed m
      else case snd_pcm_format_physical_width (format_of_int (int k)) of
        Inl e \<Rightarrow> rule_format_loop i ks changed m
      | Inr bits \<Rightarrow>
          if \<not> snd_interval_test i (of_nat bits) then
            (case snd_mask_reset m (of_nat k) of
               Inl e \<Rightarrow> (Inl e, m)
             | Inr m \<Rightarrow>
                 if snd_mask_empty m then (Inl EINVAL, m)
                 else rule_format_loop i ks True m)
          else rule_format_loop i ks changed m)"

definition snd_pcm_hw_rule_format :: "hw_params \<Rightarrow> hw_rule \<Rightarrow> bool cres \<times> hw_params" where
  "snd_pcm_hw_rule_format params r =
     (case rule_format_loop (dep params r 0) [0..<SND_PCM_FORMAT_LAST + 1] False
             (hw_param_mask params (rule_var r)) of
        (c, m) \<Rightarrow> (c, put_mask params (rule_var r) m))"

fun sample_bits_loop :: "snd_mask \<Rightarrow> nat list \<Rightarrow> u32 \<Rightarrow> u32 \<Rightarrow> u32 \<times> u32" where
  "sample_bits_loop m [] lo hi = (lo, hi)"
| "sample_bits_loop m (k # ks) lo hi =
     (if snd_mask_test m (of_nat k) \<noteq> Inr True then sample_bits_loop m ks lo hi
      else case snd_pcm_format_physical_width (format_of_int (int k)) of
        Inl e \<Rightarrow> sample_bits_loop m ks lo hi
      | Inr bits \<Rightarrow>
          sample_bits_loop m ks
            (if lo > of_nat bits then of_nat bits else lo)
            (if hi < of_nat bits then of_nat bits else hi))"

definition snd_pcm_hw_rule_sample_bits :: "hw_params \<Rightarrow> hw_rule \<Rightarrow> bool cres \<times> hw_params" where
  "snd_pcm_hw_rule_sample_bits params r =
     (case sample_bits_loop (hw_param_mask params (rule_deps r ! 0))
             [0..<SND_PCM_FORMAT_LAST + 1] UINT_MAX 0 of
        (lo, hi) \<Rightarrow>
          (case then_refine (snd_interval_refine_min (hw_param_interval params (rule_var r)) lo False)
                  (\<lambda>i. snd_interval_refine_max i hi False) of
             (c, i) \<Rightarrow> (c, put_interval params (rule_var r) i)))"

definition run_rule :: "snd_interval \<Rightarrow> hw_params \<Rightarrow> hw_rule \<Rightarrow> bool cres \<times> hw_params" where
  "run_rule t0 params r =
     (case rule_func r of
        RULE_FORMAT \<Rightarrow> snd_pcm_hw_rule_format params r
      | RULE_SAMPLE_BITS \<Rightarrow> snd_pcm_hw_rule_sample_bits params r
      | RULE_MUL \<Rightarrow> snd_pcm_hw_rule_mul t0 params r
      | RULE_DIV \<Rightarrow> snd_pcm_hw_rule_div t0 params r
      | RULE_MULDIVK \<Rightarrow> snd_pcm_hw_rule_muldivk t0 params r
      | RULE_MULKDIV \<Rightarrow> snd_pcm_hw_rule_mulkdiv t0 params r)"

definition hw_rule_of :: "hw_param \<Rightarrow> hw_rule_func \<Rightarrow> hw_param list \<Rightarrow> u32 \<Rightarrow> hw_rule" where
  "hw_rule_of v f ds k = \<lparr>rule_var = v, rule_func = f, rule_deps = ds, private_data = k\<rparr>"

definition refine_rules :: "hw_rule list" where
  "refine_rules =
     [hw_rule_of HW_PARAM_FORMAT RULE_FORMAT [HW_PARAM_SAMPLE_BITS] 0,
      hw_rule_of HW_PARAM_SAMPLE_BITS RULE_SAMPLE_BITS [HW_PARAM_FORMAT, HW_PARAM_SAMPLE_BITS] 0,
      hw_rule_of HW_PARAM_SAMPLE_BITS RULE_DIV [HW_PARAM_FRAME_BITS, HW_PARAM_CHANNELS] 0,
      hw_rule_of HW_PARAM_FRAME_BITS RULE_MUL [HW_PARAM_SAMPLE_BITS, HW_PARAM_CHANNELS] 0,
      hw_rule_of HW_PARAM_FRAME_BITS RULE_MULKDIV [HW_PARAM_PERIOD_BYTES, HW_PARAM_PERIOD_SIZE] 8,
      hw_rule_of HW_PARAM_FRAME_BITS RULE_MULKDIV [HW_PARAM_BUFFER_BYTES, HW_PARAM_BUFFER_SIZE] 8,
      hw_rule_of HW_PARAM_CHANNELS RULE_DIV [HW_PARAM_FRAME_BITS, HW_PARAM_SAMPLE_BITS] 0,
      hw_rule_of HW_PARAM_RATE RULE_MULKDIV [HW_PARAM_PERIOD_SIZE, HW_PARAM_PERIOD_TIME] 1000000,
      hw_rule_of HW_PARAM_RATE RULE_MULKDIV [HW_PARAM_BUFFER_SIZE, HW_PARAM_BUFFER_TIME] 1000000,
      hw_rule_of HW_PARAM_PERIODS RULE_DIV [HW_PARAM_BUFFER_SIZE, HW_PARAM_PERIOD_SIZE] 0,
      hw_rule_of HW_PARAM_PERIOD_SIZE RULE_DIV [HW_PARAM_BUFFER_SIZE, HW_PARAM_PERIODS] 0,
      hw_rule_of HW_PARAM_PERIOD_SIZE RULE_MULKDIV [HW_PARAM_PERIOD_BYTES, HW_PARAM_FRAME_BITS] 8,
      hw_rule_of HW_PARAM_PERIOD_SIZE RULE_MULDIVK [HW_PARAM_PERIOD_TIME, HW_PARAM_RATE] 1000000,
      hw_rule_of HW_PARAM_BUFFER_SIZE RULE_MUL [HW_PARAM_PERIOD_SIZE, HW_PARAM_PERIODS] 0,
      hw_rule_of HW_PARAM_BUFFER_SIZE RULE_MULKDIV [HW_PARAM_BUFFER_BYTES, HW_PARAM_FRAME_BITS] 8,
      hw_rule_of HW_PARAM_BUFFER_SIZE RULE_MULDIVK [HW_PARAM_BUFFER_TIME, HW_PARAM_RATE] 1000000,
      hw_rule_of HW_PARAM_PERIOD_BYTES RULE_MULDIVK [HW_PARAM_PERIOD_SIZE, HW_PARAM_FRAME_BITS] 8,
      hw_rule_of HW_PARAM_BUFFER_BYTES RULE_MULDIVK [HW_PARAM_BUFFER_SIZE, HW_PARAM_FRAME_BITS] 8,
      hw_rule_of HW_PARAM_PERIOD_TIME RULE_MULKDIV [HW_PARAM_PERIOD_SIZE, HW_PARAM_RATE] 1000000,
      hw_rule_of HW_PARAM_BUFFER_TIME RULE_MULKDIV [HW_PARAM_BUFFER_SIZE, HW_PARAM_RATE] 1000000]"

section \<open>What every configuration satisfies\<close>

definition refine_masks :: "snd_mask list" where
  "refine_masks =
     [0x1F # replicate 7 0,
      0x81FFFFFF # 0xFFF # replicate 6 0,
      0x1 # replicate 7 0]"

definition from_to_max :: "u32 \<Rightarrow> bool \<Rightarrow> snd_interval" where
  "from_to_max lo whole =
     \<lparr>imin = lo, imax = UINT_MAX, openmin = False, openmax = False, integer = whole, iempty = False\<rparr>"

definition refine_intervals :: "snd_interval list" where
  "refine_intervals =
     [from_to_max 1 True, from_to_max 1 True, from_to_max 1 True, from_to_max 1 False,
      from_to_max 0 False, from_to_max 0 False, from_to_max 0 False, from_to_max 0 False,
      from_to_max 1 False, from_to_max 1 True, from_to_max 1 True, from_to_max 0 False]"

section \<open>The solver\<close>

text \<open>The two initial loops, over the parameters that are flagged in \<open>rmask\<close>.\<close>

fun refine_masks_loop :: "hw_param list \<Rightarrow> hw_params \<Rightarrow> unit cres \<times> hw_params" where
  "refine_masks_loop [] params = (Inr (), params)"
| "refine_masks_loop (k # ks) params =
     (if \<not> has_flag (rmask params) k then refine_masks_loop ks params
      else case snd_mask_refine (hw_param_mask params k) (refine_masks ! k) of
        (changed, m) \<Rightarrow>
          (let params = put_mask params k m;
               params = (if nonzero changed
                         then params\<lparr>cmask := set_flag (cmask params) k\<rparr> else params)
           in case changed of
                Inl e \<Rightarrow> (Inl e, params)
              | Inr c \<Rightarrow> refine_masks_loop ks params))"

fun refine_intervals_loop :: "hw_param list \<Rightarrow> hw_params \<Rightarrow> unit cres \<times> hw_params" where
  "refine_intervals_loop [] params = (Inr (), params)"
| "refine_intervals_loop (k # ks) params =
     (if \<not> has_flag (rmask params) k then refine_intervals_loop ks params
      else case snd_interval_refine (hw_param_interval params k)
                  (refine_intervals ! (k - HW_PARAM_FIRST_INTERVAL)) of
        (changed, i) \<Rightarrow>
          (let params = put_interval params k i;
               params = (if nonzero changed
                         then params\<lparr>cmask := set_flag (cmask params) k\<rparr> else params)
           in case changed of
                Inl e \<Rightarrow> (Inl e, params)
              | Inr c \<Rightarrow> refine_intervals_loop ks params))"

record solver =
  sparams :: hw_params
  rstamps :: "u32 list"
  vstamps :: "u32 list"
  stamp :: u32
  again :: bool

definition rule_due :: "solver \<Rightarrow> nat \<Rightarrow> hw_rule \<Rightarrow> bool" where
  "rule_due s k r = (\<exists>d \<in> set (rule_deps r). vstamps s ! d > rstamps s ! k)"

text \<open>One pass over the rules \<open>k, k + 1, ...\<close>; an error ends it.\<close>

fun rules_pass :: "snd_interval \<Rightarrow> nat \<Rightarrow> hw_rule list \<Rightarrow> solver \<Rightarrow> unit cres \<times> solver" where
  "rules_pass t0 k [] s = (Inr (), s)"
| "rules_pass t0 k (r # rs) s =
     (if \<not> rule_due s k r then rules_pass t0 (k + 1) rs s
      else case run_rule t0 (sparams s) r of
        (changed, params) \<Rightarrow>
          (let s = s\<lparr>sparams := params, rstamps := (rstamps s)[k := stamp s]\<rparr>;
               s = (if nonzero changed then
                      s\<lparr>sparams := params\<lparr>cmask := set_flag (cmask params) (rule_var r)\<rparr>,
                        vstamps := (vstamps s)[rule_var r := stamp s],
                        again := True\<rparr>
                    else s)
           in case changed of
                Inl e \<Rightarrow> (Inl e, s)
              | Inr c \<Rightarrow> rules_pass t0 (k + 1) rs (s\<lparr>stamp := stamp s + 1\<rparr>)))"

partial_function (option) rules_loop ::
    "snd_interval \<Rightarrow> solver \<Rightarrow> (unit cres \<times> hw_params) option" where
  "rules_loop t0 s =
     (case rules_pass t0 0 refine_rules (s\<lparr>again := False\<rparr>) of
        (Inl e, s) \<Rightarrow> Some (Inl e, sparams s)
      | (Inr _, s) \<Rightarrow> if again s then rules_loop t0 s else Some (Inr (), sparams s))"

text \<open>The derived fields; \<open>snd_interval_single\<close> asserts that the interval is not empty.\<close>

definition set_msbits :: "hw_params \<Rightarrow> hw_params cres" where
  "set_msbits params =
     (if msbits params \<noteq> 0 then Inr params
      else let i = hw_param_interval params HW_PARAM_SAMPLE_BITS
           in case snd_interval_single i of
                Inl e \<Rightarrow> Inl e
              | Inr sgl \<Rightarrow> Inr (if sgl then params\<lparr>msbits := imin i\<rparr> else params))"

definition set_rate :: "hw_params \<Rightarrow> hw_params cres" where
  "set_rate params =
     (if rate_den params \<noteq> 0 then Inr params
      else let i = hw_param_interval params HW_PARAM_RATE
           in case snd_interval_single i of
                Inl e \<Rightarrow> Inl e
              | Inr sgl \<Rightarrow>
                  Inr (if sgl then params\<lparr>rate_num := imin i, rate_den := 1\<rparr> else params))"

definition refine_finish :: "hw_params \<Rightarrow> unit cres \<times> hw_params" where
  "refine_finish params =
     (case set_msbits params of
        Inl e \<Rightarrow> (Inl e, params)
      | Inr params \<Rightarrow>
          (case set_rate params of
             Inl e \<Rightarrow> (Inl e, params)
           | Inr params \<Rightarrow> (Inr (), params\<lparr>rmask := 0\<rparr>)))"

definition snd_pcm_hw_refine_soft ::
    "snd_interval \<Rightarrow> hw_params \<Rightarrow> (unit cres \<times> hw_params) option" where
  "snd_pcm_hw_refine_soft t0 params =
     (case refine_masks_loop [HW_PARAM_ACCESS..<HW_PARAM_LAST_MASK + 1] params of
        (Inl e, params) \<Rightarrow> Some (Inl e, params)
      | (Inr _, params) \<Rightarrow>
        (case refine_intervals_loop [HW_PARAM_FIRST_INTERVAL..<HW_PARAM_LAST_INTERVAL + 1] params of
           (Inl e, params) \<Rightarrow> Some (Inl e, params)
         | (Inr _, params) \<Rightarrow>
             let s = \<lparr>sparams = params, rstamps = replicate (length refine_rules) 0,
                      vstamps = map (\<lambda>k. if has_flag (rmask params) k then 1 else 0)
                                  [0..<HW_PARAM_LAST_INTERVAL + 1],
                      stamp = 2, again = False\<rparr>
             in case rules_loop t0 s of
                  None \<Rightarrow> None
                | Some (Inl e, params) \<Rightarrow> Some (Inl e, params)
                | Some (Inr _, params) \<Rightarrow> Some (refine_finish params)))"

section \<open>Concrete configurations\<close>

text \<open>
  A configuration fixes a member of every mask (among them the number of the format) and a
  real value of every interval parameter, positive and below \<open>UINT_MAX\<close>, related as a sound
  device relates them.
\<close>

record config =
  cmasks :: "hw_param \<Rightarrow> nat"
  cvalues :: "hw_param \<Rightarrow> real"

definition value_ok :: "real \<Rightarrow> bool" where
  "value_ok x = (0 < x \<and> x < 4294967295)"

definition consistent :: "config \<Rightarrow> bool" where
  "consistent c =
     ((\<forall>k \<in> set [8..<19]. value_ok (cvalues c k)) \<and>
      (\<exists>bits. snd_pcm_format_physical_width (format_of_int (int (cmasks c HW_PARAM_FORMAT))) = Inr bits \<and>
        cvalues c HW_PARAM_SAMPLE_BITS = real bits) \<and>
      cvalues c HW_PARAM_FRAME_BITS = cvalues c HW_PARAM_SAMPLE_BITS * cvalues c HW_PARAM_CHANNELS \<and>
      8 * cvalues c HW_PARAM_PERIOD_BYTES = cvalues c HW_PARAM_FRAME_BITS * cvalues c HW_PARAM_PERIOD_SIZE \<and>
      8 * cvalues c HW_PARAM_BUFFER_BYTES = cvalues c HW_PARAM_FRAME_BITS * cvalues c HW_PARAM_BUFFER_SIZE \<and>
      cvalues c HW_PARAM_BUFFER_SIZE = cvalues c HW_PARAM_PERIOD_SIZE * cvalues c HW_PARAM_PERIODS \<and>
      1000000 * cvalues c HW_PARAM_PERIOD_SIZE = cvalues c HW_PARAM_PERIOD_TIME * cvalues c HW_PARAM_RATE \<and>
      1000000 * cvalues c HW_PARAM_BUFFER_SIZE = cvalues c HW_PARAM_BUFFER_TIME * cvalues c HW_PARAM_RATE)"

definition shape :: "hw_params \<Rightarrow> bool" where
  "shape p = (length (masks p) = 3 \<and> length (intervals p) = 12 \<and> (\<forall>m \<in> set (masks p). mask_ok m))"

definition admits :: "hw_params \<Rightarrow> config \<Rightarrow> bool" where
  "admits p c =
     (shape p \<and> (\<forall>k < 3. mask_mem (masks p ! k) (cmasks c k)) \<and>
      (\<forall>k < 12. in_interval (intervals p ! k) (cvalues c (k + 8))))"

text \<open>The weight of a space bounds the number of changes that are still possible.\<close>

definition space_weight :: "hw_params \<Rightarrow> nat" where
  "space_weight p = sum_list (map mask_weight (masks p)) + sum_list (map ivl_size (intervals p))"

lemma sum_list_update_le:
  assumes "k < length xs" "f y \<le> f (xs ! k)"
  shows "sum_list (map f (xs[k := y])) \<le> sum_list (map f xs)"
    "f y < f (xs ! k) \<Longrightarrow> sum_list (map f (xs[k := y])) < sum_list (map (f :: 'a \<Rightarrow> nat) xs)"
proof -
  have "sum_list (map f (xs[k := y])) + f (xs ! k) = sum_list (map f xs) + f y"
    using assms(1) by (induction xs arbitrary: k) (auto split: nat.splits)
  then show "sum_list (map f (xs[k := y])) \<le> sum_list (map f xs)"
    "f y < f (xs ! k) \<Longrightarrow> sum_list (map f (xs[k := y])) < sum_list (map f xs)"
    using assms(2) by linarith+
qed

text \<open>A step that keeps a configuration and does not grow.\<close>

definition good_step :: "config \<Rightarrow> hw_params \<Rightarrow> bool cres \<times> hw_params \<Rightarrow> bool" where
  "good_step c p rq =
     (\<exists>ch q. rq = (Inr ch, q) \<and> admits q c \<and> space_weight q \<le> space_weight p \<and>
        (ch \<longrightarrow> space_weight q < space_weight p) \<and> (\<forall>d. admits q d \<longrightarrow> admits p d) \<and>
        rmask q = rmask p)"

lemma good_put_interval:
  assumes "admits p c" "8 \<le> var" "var \<le> 19" "in_interval i (cvalues c var)"
    and "\<And>x. in_interval i x \<Longrightarrow> in_interval (hw_param_interval p var) x"
    and "ivl_size i \<le> ivl_size (hw_param_interval p var)"
    and "ch \<longrightarrow> ivl_size i < ivl_size (hw_param_interval p var)"
  shows "good_step c p (Inr ch, put_interval p var i)"
proof -
  have k: "var - 8 < length (intervals p)" "var - 8 < 12" "var - 8 + 8 = var"
    using assms(1-3) by (auto simp: admits_def shape_def)
  have w: "space_weight (put_interval p var i) \<le> space_weight p"
    "ch \<Longrightarrow> space_weight (put_interval p var i) < space_weight p"
    using sum_list_update_le [OF k(1), of ivl_size i] assms(6,7)
    by (auto simp: space_weight_def put_interval_def hw_param_interval_def)
  have a: "admits (put_interval p var i) c"
    using assms(1,4) k by (auto simp: admits_def shape_def put_interval_def nth_list_update)
  have "admits p d" if d: "admits (put_interval p var i) d" for d
  proof -
    have "in_interval (intervals p ! j) (cvalues d (j + 8))" if "j < 12" for j
    proof (cases "j = var - 8")
      case True
      then show ?thesis using d k assms(5) that
        by (auto simp: admits_def put_interval_def nth_list_update hw_param_interval_def)
    next
      case False
      then show ?thesis using d that by (auto simp: admits_def put_interval_def nth_list_update)
    qed
    then show ?thesis using d by (auto simp: admits_def shape_def put_interval_def)
  qed
  then show ?thesis using a w by (auto simp: good_step_def put_interval_def)
qed

lemma good_put_mask:
  assumes "admits p c" "var \<le> 2" "mask_mem m (cmasks c var)"
    and "\<And>x. mask_mem m x \<Longrightarrow> mask_mem (hw_param_mask p var) x"
    and "mask_weight m \<le> mask_weight (hw_param_mask p var)"
    and "ch \<longrightarrow> mask_weight m < mask_weight (hw_param_mask p var)"
  shows "good_step c p (Inr ch, put_mask p var m)"
proof -
  have k: "var < length (masks p)" "var < 3"
    using assms(1,2) by (auto simp: admits_def shape_def)
  have w: "space_weight (put_mask p var m) \<le> space_weight p"
    "ch \<Longrightarrow> space_weight (put_mask p var m) < space_weight p"
    using sum_list_update_le [OF k(1), of mask_weight m] assms(5,6)
    by (auto simp: space_weight_def put_mask_def hw_param_mask_def)
  have ok: "mask_ok m" using assms(3) by (simp add: mask_mem_def)
  have a: "admits (put_mask p var m) c"
    using assms(1,3) k ok set_update_subset_insert [of "masks p" var m]
    by (auto simp: admits_def shape_def put_mask_def nth_list_update)
  have "admits p d" if d: "admits (put_mask p var m) d" for d
  proof -
    have "mask_mem (masks p ! j) (cmasks d j)" if "j < 3" for j
    proof (cases "j = var")
      case True
      then show ?thesis using d k assms(4) that
        by (auto simp: admits_def put_mask_def nth_list_update hw_param_mask_def)
    next
      case False
      then show ?thesis using d that by (auto simp: admits_def put_mask_def nth_list_update)
    qed
    then show ?thesis using d assms(1) by (auto simp: admits_def shape_def put_mask_def)
  qed
  then show ?thesis using a w by (auto simp: good_step_def put_mask_def)
qed

lemma mask_test_iff:
  assumes "unat v < 64"
  shows "snd_mask_test m v = Inr (in_mask m (unat v))"
proof -
  have "(m ! MASK_OFS v) AND MASK_BIT v \<noteq> 0 \<longleftrightarrow> bit (m ! MASK_OFS v) (unat v mod 32)"
    unfolding word_nonzero_bit by (auto simp: bit_and_iff MASK_OFS_BIT)
  then show ?thesis using assms
    by (simp add: snd_mask_test_def guard_in_range in_mask_def MASK_OFS_BIT(1))
qed

lemma refine_min_size:
  assumes "proper i" "opn \<longrightarrow> lo \<noteq> UINT_MAX" "snd_interval_refine_min i lo opn = (Inr c, j)"
  shows "ivl_size j \<le> ivl_size i \<and> (c \<longrightarrow> ivl_size j < ivl_size i)"
proof -
  let ?v = "i\<lparr>imin := lo, openmin := opn\<rparr>"
  define k where "k = snd (refine_lo i ?v)"
  have ne: "\<not> iempty i" using assms(1) by (simp add: proper_def)
  have j: "j = (if integer k \<and> openmin k then k\<lparr>imin := imin k + 1, openmin := False\<rparr> else k)"
    "c = fst (refine_lo i ?v)"
    using assms(3) ne
    by (auto simp: snd_interval_refine_min_def snd_interval_empty_def k_def refine_lo_def Let_def split: if_splits)
  have km: "openmin k \<longrightarrow> imin k \<noteq> UINT_MAX"
    using proper_lo [OF assms(1)] assms(2) by (auto simp: k_def refine_lo_def)
  have "ivl_size j \<le> ivl_size k"
  proof (cases "integer k \<and> openmin k")
    case True
    then have "imin k \<noteq> UINT_MAX" using km by simp
    moreover from this have "unat (imin k) < 4294967295"
      using unat_u32_le [of "imin k"] by (metis le_neq_implies_less unat_UINT_MAX word_unat_eq_iff)
    ultimately show ?thesis using True by (auto simp: j(1) ivl_size_def unat_inc_u32)
  qed (auto simp: j(1))
  then show ?thesis
    using refine_lo_size [of i ?v] j(2) unfolding k_def by auto
qed

lemma refine_max_size:
  assumes "proper i" "opn \<longrightarrow> hi \<noteq> 0" "snd_interval_refine_max i hi opn = (Inr c, j)"
  shows "ivl_size j \<le> ivl_size i \<and> (c \<longrightarrow> ivl_size j < ivl_size i)"
proof -
  let ?v = "i\<lparr>imax := hi, openmax := opn\<rparr>"
  define k where "k = snd (refine_hi i ?v)"
  have ne: "\<not> iempty i" using assms(1) by (simp add: proper_def)
  have j: "j = (if integer k \<and> openmax k then k\<lparr>imax := imax k - 1, openmax := False\<rparr> else k)"
    "c = fst (refine_hi i ?v)"
    using assms(3) ne
    by (auto simp: snd_interval_refine_max_def snd_interval_empty_def k_def refine_hi_def Let_def split: if_splits)
  have km: "openmax k \<longrightarrow> imax k \<noteq> 0"
    using proper_hi [OF assms(1)] assms(2) by (auto simp: k_def refine_hi_def)
  have "ivl_size j \<le> ivl_size k"
  proof (cases "integer k \<and> openmax k")
    case True
    then have "imax k \<noteq> 0" using km by simp
    then show ?thesis using True unat_gt_0 [of "imax k"] by (auto simp: j(1) ivl_size_def unat_dec)
  qed (auto simp: j(1))
  then show ?thesis
    using refine_hi_size [of i ?v] j(2) unfolding k_def by auto
qed

text \<open>The two bound refinements as steps on a member.\<close>

lemma refine_min_keeps:
  assumes "in_interval i x" "ur lo \<le> x"
  shows "\<exists>c j. snd_interval_refine_min i lo False = (Inr c, j) \<and> in_interval j x \<and>
    (\<forall>y. in_interval j y \<longrightarrow> in_interval i y) \<and> ivl_size j \<le> ivl_size i \<and> (c \<longrightarrow> ivl_size j < ivl_size i)"
proof -
  obtain r j where e: "snd_interval_refine_min i lo False = (r, j)" by (metis surj_pair)
  note p = in_proper [OF assms(1)]
  note ex = refine_min_exact [OF p _ e, simplified]
  have "in_interval j x" using ex(2) assms by simp
  then have "\<not> iempty j" by (simp add: in_interval_def)
  then obtain c where "r = Inr c" using ex(1,3) by blast
  then show ?thesis using e ex(2) assms refine_min_size [OF p _ e [unfolded \<open>r = Inr c\<close>]] by auto
qed

lemma refine_max_keeps:
  assumes "in_interval i x" "x \<le> ur hi"
  shows "\<exists>c j. snd_interval_refine_max i hi False = (Inr c, j) \<and> in_interval j x \<and>
    (\<forall>y. in_interval j y \<longrightarrow> in_interval i y) \<and> ivl_size j \<le> ivl_size i \<and> (c \<longrightarrow> ivl_size j < ivl_size i)"
proof -
  obtain r j where e: "snd_interval_refine_max i hi False = (r, j)" by (metis surj_pair)
  note p = in_proper [OF assms(1)]
  note ex = refine_max_exact [OF p _ e, simplified]
  have "in_interval j x" using ex(2) assms by simp
  then have "\<not> iempty j" by (simp add: in_interval_def)
  then obtain c where "r = Inr c" using ex(1,3) by blast
  then show ?thesis using e ex(2) assms refine_max_size [OF p _ e [unfolded \<open>r = Inr c\<close>]] by auto
qed

lemma phys_width_le: "snd_pcm_format_physical_width f = Inr bits \<Longrightarrow> bits \<le> 64"
  by (auto simp: snd_pcm_format_physical_width_def split: if_splits)

lemma ur_of_nat: "n < 4294967296 \<Longrightarrow> ur (of_nat n :: u32) = real n"
  by (simp add: ur_def unat_of_nat del: of_nat_unat)

lemma interval_test_iff: "snd_interval_test i v \<longleftrightarrow> lo_ok i (ur v) \<and> hi_ok i (ur v)"
  by (auto simp: snd_interval_test_def lo_ok_def hi_ok_def ur_cmp)

text \<open>The loop over the formats keeps the format of the configuration.\<close>

lemma rule_format_loop_keeps:
  assumes "snd_pcm_format_physical_width (format_of_int (int f)) = Inr bits"
    "in_interval i (real bits)" "\<forall>k \<in> set ks. k < 64" "mask_mem m f"
  shows "\<exists>ch n. rule_format_loop i ks ch0 m = (Inr ch, n) \<and> mask_mem n f \<and>
    (\<forall>x. mask_mem n x \<longrightarrow> mask_mem m x) \<and> mask_weight n \<le> mask_weight m \<and>
    (ch \<longrightarrow> ch0 \<or> mask_weight n < mask_weight m)"
  using assms(3,4)
proof (induction ks arbitrary: m ch0)
  case (Cons k ks)
  have k: "unat (of_nat k :: u32) = k" "k < 64" using Cons.prems(1) by (simp_all add: unat_of_nat)
  have t: "snd_mask_test m (of_nat k) = Inr (in_mask m k)"
    using mask_test_iff [of "of_nat k" m] k by simp
  have ks: "\<forall>k \<in> set ks. k < 64" using Cons.prems(1) by simp
  note IH = Cons.IH [OF ks]
  show ?case
  proof (cases "in_mask m k \<and> (\<exists>b. snd_pcm_format_physical_width (format_of_int (int k)) = Inr b \<and>
      \<not> snd_interval_test i (of_nat b))")
    case False
    then have "rule_format_loop i (k # ks) ch0 m = rule_format_loop i ks ch0 m"
      by (auto simp: t split: sum.splits)
    then show ?thesis using IH [OF Cons.prems(2)] by simp
  next
    case True
    then obtain b where b: "in_mask m k" "snd_pcm_format_physical_width (format_of_int (int k)) = Inr b"
      "\<not> snd_interval_test i (of_nat b)" by blast
    have "k \<noteq> f"
    proof
      assume "k = f"
      then have "b = bits" using b(2) assms(1) by simp
      then have "ur (of_nat b :: u32) = real bits" using phys_width_le [OF assms(1)] by (simp add: ur_of_nat)
      then show False using b(3) assms(2) by (simp add: interval_test_iff in_interval_def)
    qed
    let ?n = "reset_bit_of m (of_nat k)"
    have ok: "mask_ok m" "in_mask m f" using Cons.prems(2) by (simp_all add: mask_mem_def)
    have n: "in_mask ?n x \<longleftrightarrow> in_mask m x \<and> x \<noteq> k" for x
      using in_reset_bit [OF ok(1), of "of_nat k"] k by simp
    have nf: "mask_mem ?n f" using ok n \<open>k \<noteq> f\<close> by (simp add: mask_mem_def)
    have w: "mask_weight ?n < mask_weight m"
      unfolding mask_weight_def by (rule psubset_card_mono) (use n b(1) in auto)
    have "\<not> snd_mask_empty ?n" using n ok \<open>k \<noteq> f\<close> by (auto simp: empty_iff_no_member)
    then have "rule_format_loop i (k # ks) ch0 m = rule_format_loop i ks True ?n"
      using b k by (simp add: t snd_mask_reset_def guard_in_range)
    moreover have "mask_mem n x \<longrightarrow> mask_mem m x" if "\<forall>x. mask_mem n x \<longrightarrow> mask_mem ?n x" for n x
      using that n ok(1) by (auto simp: mask_mem_def)
    ultimately show ?thesis using IH [OF nf, of True] w by fastforce
  qed
qed auto

lemma sample_bits_loop_bounds:
  assumes "snd_pcm_format_physical_width (format_of_int (int f)) = Inr bits"
    "\<forall>k \<in> set ks. k < 64" "in_mask m f" "sample_bits_loop m ks lo hi = (lo', hi')"
  shows "lo' \<le> lo \<and> hi \<le> hi' \<and> (f \<in> set ks \<longrightarrow> lo' \<le> of_nat bits \<and> of_nat bits \<le> hi')"
  using assms(2,4)
proof (induction ks arbitrary: lo hi)
  case (Cons k ks)
  have k: "unat (of_nat k :: u32) = k" "k < 64" using Cons.prems(1) by (simp_all add: unat_of_nat)
  have t: "snd_mask_test m (of_nat k) = Inr (in_mask m k)"
    using mask_test_iff [of "of_nat k" m] k by simp
  have ks: "\<forall>k \<in> set ks. k < 64" using Cons.prems(1) by simp
  show ?case
  proof (cases "\<exists>b. in_mask m k \<and> snd_pcm_format_physical_width (format_of_int (int k)) = Inr b")
    case True
    then obtain b where b: "in_mask m k" "snd_pcm_format_physical_width (format_of_int (int k)) = Inr b" by blast
    let ?lo = "if lo > of_nat b then of_nat b else lo" and ?hi = "if hi < of_nat b then of_nat b else hi"
    have "sample_bits_loop m ks ?lo ?hi = (lo', hi')"
      using Cons.prems(2) b by (simp add: t del: sample_bits_loop.simps(1))
    note ih = Cons.IH [OF ks this]
    have "?lo \<le> lo" "hi \<le> ?hi" "?lo \<le> of_nat b" "of_nat b \<le> ?hi" by auto
    moreover have "k = f \<Longrightarrow> b = bits" using b(2) assms(1) by simp
    ultimately show ?thesis using ih by (auto intro: order_trans)
  next
    case False
    then have "sample_bits_loop m ks lo hi = (lo', hi')" "k \<noteq> f"
      using Cons.prems(2) assms(1,3) by (auto simp: t split: sum.splits)
    then show ?thesis using Cons.IH [OF ks] by auto
  qed
qed simp

lemma admits_interval:
  assumes "admits p c" "8 \<le> var" "var \<le> 19"
  shows "in_interval (hw_param_interval p var) (cvalues c var)"
proof -
  have "var - 8 < 12" "var - 8 + 8 = var" using assms(2,3) by simp_all
  then show ?thesis using assms(1) unfolding admits_def hw_param_interval_def by metis
qed

lemma admits_mask: "admits p c \<Longrightarrow> var \<le> 2 \<Longrightarrow> mask_mem (hw_param_mask p var) (cmasks c var)"
  by (simp add: admits_def hw_param_mask_def)

lemma good_interval_rule:
  assumes "admits p c" "8 \<le> rule_var r" "rule_var r \<le> 19" "t = Some i" "in_interval i (cvalues c (rule_var r))"
  shows "good_step c p (rule_interval p r t)"
proof -
  let ?j = "hw_param_interval p (rule_var r)"
  have m: "in_interval ?j (cvalues c (rule_var r))" by (rule admits_interval [OF assms(1-3)])
  obtain ch k where k: "snd_interval_refine ?j i = (Inr ch, k)" "in_interval k (cvalues c (rule_var r))"
    using ivl.keeps [OF m assms(5)] by blast
  have "good_step c p (Inr ch, put_interval p (rule_var r) k)"
    using ivl.exact [OF m assms(5) k(1)] ivl.shrinks [OF m assms(5) k(1)]
    by (intro good_put_interval [OF assms(1-3) k(2)]) auto
  then show ?thesis using k(1) by (simp add: rule_interval_def assms(4))
qed

lemma good_then:
  assumes "admits p c" "8 \<le> var" "var \<le> 19" "ur lo \<le> cvalues c var" "cvalues c var \<le> ur hi"
    "then_refine (snd_interval_refine_min (hw_param_interval p var) lo False)
       (\<lambda>i. snd_interval_refine_max i hi False) = (ch, i)"
  shows "good_step c p (ch, put_interval p var i)"
proof -
  obtain c1 j where j: "snd_interval_refine_min (hw_param_interval p var) lo False = (Inr c1, j)"
    "in_interval j (cvalues c var)" "\<forall>y. in_interval j y \<longrightarrow> in_interval (hw_param_interval p var) y"
    "ivl_size j \<le> ivl_size (hw_param_interval p var)" "c1 \<longrightarrow> ivl_size j < ivl_size (hw_param_interval p var)"
    using refine_min_keeps [OF admits_interval [OF assms(1-3)] assms(4)] by blast
  obtain c2 k where k: "snd_interval_refine_max j hi False = (Inr c2, k)"
    "in_interval k (cvalues c var)" "\<forall>y. in_interval k y \<longrightarrow> in_interval j y"
    "ivl_size k \<le> ivl_size j" "c2 \<longrightarrow> ivl_size k < ivl_size j"
    using refine_max_keeps [OF j(2) assms(5)] by blast
  have e: "ch = Inr (c1 \<or> c2)" "i = k" using assms(6) j(1) k(1) by (auto simp: then_refine_def)
  show ?thesis unfolding e
    by (rule good_put_interval [OF assms(1-3) k(2)]) (use j k in auto)
qed

lemma good_format_rule:
  assumes "admits p c" "consistent c" "rule_var r = 1" "rule_deps r = [8]"
  shows "good_step c p (snd_pcm_hw_rule_format p r)"
proof -
  obtain bits where b: "snd_pcm_format_physical_width (format_of_int (int (cmasks c 1))) = Inr bits"
    "cvalues c 8 = real bits" using assms(2) by (auto simp: consistent_def)
  have i: "in_interval (dep p r 0) (real bits)"
    using admits_interval [OF assms(1), of 8] b(2) by (simp add: dep_def assms(4))
  have ks: "\<forall>k \<in> set [0..<SND_PCM_FORMAT_LAST + 1]. k < 64" by (auto simp: SND_PCM_FORMAT_LAST_def)
  obtain ch n where n: "rule_format_loop (dep p r 0) [0..<SND_PCM_FORMAT_LAST + 1] False (hw_param_mask p 1) = (Inr ch, n)"
    "mask_mem n (cmasks c 1)" "\<forall>x. mask_mem n x \<longrightarrow> mask_mem (hw_param_mask p 1) x"
    "mask_weight n \<le> mask_weight (hw_param_mask p 1)" "ch \<longrightarrow> mask_weight n < mask_weight (hw_param_mask p 1)"
    using rule_format_loop_keeps [OF b(1) i ks admits_mask [OF assms(1)], of False] by auto
  have "good_step c p (Inr ch, put_mask p 1 n)"
    by (rule good_put_mask [OF assms(1) _ n(2)]) (use n in auto)
  then show ?thesis using n(1) by (simp add: snd_pcm_hw_rule_format_def assms(3))
qed

lemma good_sample_bits_rule:
  assumes "admits p c" "consistent c" "rule_var r = 8" "rule_deps r = [1, 8]"
  shows "good_step c p (snd_pcm_hw_rule_sample_bits p r)"
proof -
  obtain bits where b: "snd_pcm_format_physical_width (format_of_int (int (cmasks c 1))) = Inr bits"
    "cvalues c 8 = real bits" using assms(2) by (auto simp: consistent_def)
  have ub: "ur (of_nat bits :: u32) = real bits" using phys_width_le [OF b(1)] by (simp add: ur_of_nat)
  have f: "in_mask (hw_param_mask p 1) (cmasks c 1)"
    using admits_mask [OF assms(1), of 1] by (simp add: mask_mem_def)
  obtain lo hi where lh: "sample_bits_loop (hw_param_mask p 1) [0..<SND_PCM_FORMAT_LAST + 1] UINT_MAX 0 = (lo, hi)"
    by (metis surj_pair)
  have "cmasks c 1 \<le> 43"
  proof (rule ccontr)
    assume "\<not> cmasks c 1 \<le> 43"
    then have "format_of_int (int (cmasks c 1)) = FORMAT_OTHER (int (cmasks c 1))"
      by (simp add: format_of_int_def)
    then show False using b(1) by (simp add: snd_pcm_format_physical_width_def)
  qed
  then have "lo \<le> of_nat bits" "of_nat bits \<le> hi"
    using sample_bits_loop_bounds [OF b(1) _ f lh] by (auto simp: SND_PCM_FORMAT_LAST_def)
  then have "ur lo \<le> cvalues c 8" "cvalues c 8 \<le> ur hi" by (simp_all add: ur_le ub b(2))
  from good_then [OF assms(1) _ _ this] show ?thesis
    unfolding snd_pcm_hw_rule_sample_bits_def assms(3,4) nth_Cons_0 lh prod.case
    by (auto split: prod.split)
qed

lemma ur_8: "ur (8 :: u32) = 8" and ur_1000000: "ur (1000000 :: u32) = 1000000"
  by (simp_all add: ur_def del: of_nat_unat)

text \<open>
  The twenty rules of the table, each an instance of the arithmetic on intervals and of one
  relation between the values of a consistent configuration.
\<close>

lemma value_pos:
  assumes "consistent c" "8 \<le> k" "k < 19"
  shows "0 < cvalues c k" "cvalues c k < 4294967295"
proof -
  have "\<forall>k \<in> set [8..<19]. value_ok (cvalues c k)" using assms(1) unfolding consistent_def by blast
  moreover have "k \<in> set [8..<19]" unfolding set_upt atLeastLessThan_iff using assms(2,3) by blast
  ultimately have "value_ok (cvalues c k)" by (rule bspec)
  then show "0 < cvalues c k" "cvalues c k < 4294967295" by (simp_all add: value_ok_def)
qed

definition in_range :: "hw_param \<Rightarrow> bool" where
  "in_range k = (8 \<le> k \<and> k < 19)"

lemma good_arith:
  assumes "admits p c" "consistent c" "in_range v" "in_range a" "in_range b"
  shows "cvalues c v = cvalues c a * cvalues c b \<Longrightarrow>
      good_step c p (run_rule t0 p (hw_rule_of v RULE_MUL [a, b] k))"
    "cvalues c v = cvalues c a / cvalues c b \<Longrightarrow>
      good_step c p (run_rule t0 p (hw_rule_of v RULE_DIV [a, b] k))"
    "k \<noteq> 0 \<Longrightarrow> cvalues c v = cvalues c a * cvalues c b / ur k \<Longrightarrow>
      good_step c p (run_rule t0 p (hw_rule_of v RULE_MULDIVK [a, b] k))"
    "k \<noteq> 0 \<Longrightarrow> cvalues c v = cvalues c a * ur k / cvalues c b \<Longrightarrow>
      good_step c p (run_rule t0 p (hw_rule_of v RULE_MULKDIV [a, b] k))"
proof -
  have va: "8 \<le> v" "v \<le> 19" and ia: "in_interval (hw_param_interval p a) (cvalues c a)"
    and ib: "in_interval (hw_param_interval p b) (cvalues c b)"
    and pa: "0 < cvalues c a" and pb: "0 < cvalues c b" and lv: "cvalues c v < 4294967295"
    using assms(3-5) admits_interval [OF assms(1)] value_pos [OF assms(2)] by (auto simp: in_range_def)
  let ?r = "\<lambda>f. hw_rule_of v f [a, b] k"
  have d: "dep p (?r f) 0 = hw_param_interval p a" "dep p (?r f) 1 = hw_param_interval p b"
    "rule_var (?r f) = v" "private_data (?r f) = k" "rule_func (?r f) = f" for f
    by (simp_all add: dep_def hw_rule_of_def)
  have good: "good_step c p (rule_interval p (?r f) (Some i))" if "in_interval i (cvalues c v)" for f i
    using that va by (intro good_interval_rule [OF assms(1) _ _ refl]) (simp_all add: d)
  note rules = run_rule_def d snd_pcm_hw_rule_mul_def snd_pcm_hw_rule_div_def
    snd_pcm_hw_rule_muldivk_def snd_pcm_hw_rule_mulkdiv_def hw_rule_func.case
  show "good_step c p (run_rule t0 p (?r RULE_MUL))" if "cvalues c v = cvalues c a * cvalues c b"
    unfolding rules using in_mul [OF ia ib pa pb] lv that by (intro good) simp
  show "good_step c p (run_rule t0 p (?r RULE_DIV))" if "cvalues c v = cvalues c a / cvalues c b"
    unfolding rules using in_div [OF ia ib pa pb] lv that by (intro good) simp
  assume k: "k \<noteq> 0"
  from interval_arithmetic_total [OF ia ib pa pb k, of t0]
  obtain x y where x: "snd_interval_muldivk (hw_param_interval p a) (hw_param_interval p b) k t0 = Some x"
    and y: "snd_interval_mulkdiv (hw_param_interval p a) k (hw_param_interval p b) t0 = Some y" by blast
  show "good_step c p (run_rule t0 p (?r RULE_MULDIVK))" if "cvalues c v = cvalues c a * cvalues c b / ur k"
    unfolding rules x using in_muldivk [OF ia ib pa pb k _ x] lv that by (intro good) simp
  show "good_step c p (run_rule t0 p (?r RULE_MULKDIV))" if "cvalues c v = cvalues c a * ur k / cvalues c b"
    unfolding rules y using in_mulkdiv [OF ia ib pa pb k _ y] lv that by (intro good) simp
qed

lemma good_rule:
  assumes "admits p c" "consistent c" "r \<in> set refine_rules"
  shows "good_step c p (run_rule t0 p r)"
proof -
  have pos: "0 < cvalues c 8" "0 < cvalues c 9" "0 < cvalues c 10" "0 < cvalues c 11" "0 < cvalues c 12"
    "0 < cvalues c 13" "0 < cvalues c 14" "0 < cvalues c 15" "0 < cvalues c 16" "0 < cvalues c 17" "0 < cvalues c 18"
    by (simp_all add: value_pos [OF assms(2)])
  have rel: "cvalues c 9 = cvalues c 8 * cvalues c 10" "8 * cvalues c 14 = cvalues c 9 * cvalues c 13"
    "8 * cvalues c 18 = cvalues c 9 * cvalues c 17" "cvalues c 17 = cvalues c 13 * cvalues c 15"
    "1000000 * cvalues c 13 = cvalues c 12 * cvalues c 11"
    "1000000 * cvalues c 17 = cvalues c 16 * cvalues c 11"
    using assms(2) unfolding consistent_def by blast+
  have nz: "(8 :: u32) \<noteq> 0" "(1000000 :: u32) \<noteq> 0" by simp_all
  note arith = good_arith(1,2) [OF assms(1,2)]
    good_arith(3,4) [OF assms(1,2) _ _ _ nz(1), unfolded ur_8]
    good_arith(3,4) [OF assms(1,2) _ _ _ nz(2), unfolded ur_1000000]
  have form: "good_step c p (run_rule t0 p (hw_rule_of 1 RULE_FORMAT [8] 0))"
    "good_step c p (run_rule t0 p (hw_rule_of 8 RULE_SAMPLE_BITS [1, 8] 0))"
    using good_format_rule [OF assms(1,2), of "hw_rule_of 1 RULE_FORMAT [8] 0"]
      good_sample_bits_rule [OF assms(1,2), of "hw_rule_of 8 RULE_SAMPLE_BITS [1, 8] 0"]
    by (simp_all add: run_rule_def hw_rule_of_def)
  show ?thesis
    using assms(3) unfolding refine_rules_def list.set insert_iff empty_iff
    apply (elim disjE FalseE; hypsubst)
    apply (rule form arith; use pos rel in \<open>simp add: in_range_def field_simps; fail\<close>)+
    done
qed

text \<open>Fields that the denotation of a space does not read.\<close>

lemma admits_frame [simp]:
  "admits (p\<lparr>cmask := x\<rparr>) c = admits p c" "admits (p\<lparr>rmask := x\<rparr>) c = admits p c"
  "admits (p\<lparr>msbits := x\<rparr>) c = admits p c"
  "admits (p\<lparr>rate_num := x, rate_den := y\<rparr>) c = admits p c"
  by (simp_all add: admits_def shape_def)

lemma weight_frame [simp]: "space_weight (p\<lparr>cmask := x\<rparr>) = space_weight p"
  by (simp add: space_weight_def)

lemma rules_pass_good:
  assumes "consistent c" "set rs \<subseteq> set refine_rules" "admits (sparams s) c"
  shows "\<exists>s'. rules_pass t0 k rs s = (Inr (), s') \<and> admits (sparams s') c \<and>
    space_weight (sparams s') \<le> space_weight (sparams s) \<and>
    (\<forall>d. admits (sparams s') d \<longrightarrow> admits (sparams s) d) \<and>
    (again s' \<longrightarrow> again s \<or> space_weight (sparams s') < space_weight (sparams s))"
  using assms(2,3)
proof (induction rs arbitrary: k s)
  case (Cons r rs)
  have sub: "set rs \<subseteq> set refine_rules" using Cons.prems(1) by simp
  show ?case
  proof (cases "rule_due s k r")
    case False
    then show ?thesis using Cons.IH [OF sub Cons.prems(2), of "k + 1"] by simp
  next
    case True
    have "good_step c (sparams s) (run_rule t0 (sparams s) r)"
      by (rule good_rule [OF Cons.prems(2) assms(1)]) (use Cons.prems(1) in simp)
    then obtain ch q where q: "run_rule t0 (sparams s) r = (Inr ch, q)" "admits q c"
      "space_weight q \<le> space_weight (sparams s)" "ch \<longrightarrow> space_weight q < space_weight (sparams s)"
      "\<forall>d. admits q d \<longrightarrow> admits (sparams s) d" by (auto simp: good_step_def)
    define s1 where "s1 = s\<lparr>sparams := q, rstamps := (rstamps s)[k := stamp s]\<rparr>"
    define s2 where "s2 = (if ch then s1\<lparr>sparams := q\<lparr>cmask := set_flag (cmask q) (rule_var r)\<rparr>,
      vstamps := (vstamps s1)[rule_var r := stamp s1], again := True\<rparr> else s1)"
    define s3 where "s3 = s2\<lparr>stamp := stamp s2 + 1\<rparr>"
    have step: "rules_pass t0 k (r # rs) s = rules_pass t0 (k + 1) rs s3"
      using True q(1) by (cases ch) (simp_all add: s1_def s2_def s3_def)
    have s3: "admits (sparams s3) c" "space_weight (sparams s3) = space_weight q"
      "\<forall>d. admits (sparams s3) d = admits q d" "again s3 = (ch \<or> again s)"
      using q(2) by (auto simp: s1_def s2_def s3_def)
    show ?thesis unfolding step
      using Cons.IH [OF sub s3(1), of "k + 1"] s3 q by fastforce
  qed
qed auto

lemma rules_loop_good:
  assumes "consistent c" "admits (sparams s) c"
  shows "\<exists>q. rules_loop t0 s = Some (Inr (), q) \<and> admits q c \<and> (\<forall>d. admits q d \<longrightarrow> admits (sparams s) d)"
  using assms(2)
proof (induction "space_weight (sparams s)" arbitrary: s rule: less_induct)
  case less
  obtain s' where p: "rules_pass t0 0 refine_rules (s\<lparr>again := False\<rparr>) = (Inr (), s')"
    "admits (sparams s') c" "\<forall>d. admits (sparams s') d \<longrightarrow> admits (sparams s) d"
    "again s' \<longrightarrow> space_weight (sparams s') < space_weight (sparams s)"
    using rules_pass_good [OF assms(1) order_refl, of "s\<lparr>again := False\<rparr>" t0 0] less.prems by auto
  show ?case
  proof (cases "again s'")
    case True
    then have "rules_loop t0 s = rules_loop t0 s'"
      by (subst rules_loop.simps) (simp add: p(1))
    then show ?thesis using less.hyps [of s'] p True by auto
  next
    case False
    then have "rules_loop t0 s = Some (Inr (), sparams s')"
      by (subst rules_loop.simps) (simp add: p(1))
    then show ?thesis using p by blast
  qed
qed

definition in_tables :: "config \<Rightarrow> bool" where
  "in_tables c =
     ((\<forall>k < 3. mask_mem (refine_masks ! k) (cmasks c k)) \<and>
      (\<forall>k < 12. in_interval (refine_intervals ! k) (cvalues c (k + 8))))"

lemma masks_loop_good:
  assumes "in_tables c" "\<forall>k \<in> set ks. k \<le> 2" "admits p c"
  shows "\<exists>q. refine_masks_loop ks p = (Inr (), q) \<and> admits q c \<and> (\<forall>d. admits q d \<longrightarrow> admits p d)"
  using assms(2,3)
proof (induction ks arbitrary: p)
  case (Cons k ks)
  have k: "k \<le> 2" "\<forall>k \<in> set ks. k \<le> 2" using Cons.prems(1) by simp_all
  note IH = Cons.IH [OF k(2)]
  show ?case
  proof (cases "has_flag (rmask p) k")
    case False
    then show ?thesis using IH [OF Cons.prems(2)] by simp
  next
    case True
    have m: "mask_mem (hw_param_mask p k) (cmasks c k)" by (rule admits_mask [OF Cons.prems(2) k(1)])
    have v: "mask_mem (refine_masks ! k) (cmasks c k)" using assms(1) k(1) by (simp add: in_tables_def)
    obtain ch n where n: "snd_mask_refine (hw_param_mask p k) (refine_masks ! k) = (Inr ch, n)"
      "mask_mem n (cmasks c k)" using msk.keeps [OF m v] by blast
    have "good_step c p (Inr ch, put_mask p k n)"
      using msk.exact [OF m v n(1)] msk.shrinks [OF m v n(1)]
      by (intro good_put_mask [OF Cons.prems(2) k(1) n(2)]) auto
    then have a: "admits (put_mask p k n) c" "\<forall>d. admits (put_mask p k n) d \<longrightarrow> admits p d"
      by (auto simp: good_step_def)
    let ?q = "if ch then (put_mask p k n)\<lparr>cmask := set_flag (cmask (put_mask p k n)) k\<rparr> else put_mask p k n"
    have "refine_masks_loop (k # ks) p = refine_masks_loop ks ?q"
      using True n(1) by (cases ch) (simp_all add: Let_def)
    moreover have "admits ?q c" "\<forall>d. admits ?q d \<longrightarrow> admits p d" using a by auto
    ultimately show ?thesis using IH by metis
  qed
qed simp

lemma intervals_loop_good:
  assumes "in_tables c" "\<forall>k \<in> set ks. 8 \<le> k \<and> k \<le> 19" "admits p c"
  shows "\<exists>q. refine_intervals_loop ks p = (Inr (), q) \<and> admits q c \<and> (\<forall>d. admits q d \<longrightarrow> admits p d)"
  using assms(2,3)
proof (induction ks arbitrary: p)
  case (Cons k ks)
  have k: "8 \<le> k" "k \<le> 19" "\<forall>k \<in> set ks. 8 \<le> k \<and> k \<le> 19" using Cons.prems(1) by simp_all
  note IH = Cons.IH [OF k(3)]
  show ?case
  proof (cases "has_flag (rmask p) k")
    case False
    then show ?thesis using IH [OF Cons.prems(2)] by simp
  next
    case True
    have m: "in_interval (hw_param_interval p k) (cvalues c k)"
      by (rule admits_interval [OF Cons.prems(2) k(1,2)])
    have "k - 8 < 12" "k - 8 + 8 = k" using k by simp_all
    then have v: "in_interval (refine_intervals ! (k - 8)) (cvalues c k)"
      using assms(1) unfolding in_tables_def by metis
    obtain ch n where n: "snd_interval_refine (hw_param_interval p k) (refine_intervals ! (k - 8)) = (Inr ch, n)"
      "in_interval n (cvalues c k)" using ivl.keeps [OF m v] by blast
    have "good_step c p (Inr ch, put_interval p k n)"
      using ivl.exact [OF m v n(1)] ivl.shrinks [OF m v n(1)]
      by (intro good_put_interval [OF Cons.prems(2) k(1,2) n(2)]) auto
    then have a: "admits (put_interval p k n) c" "\<forall>d. admits (put_interval p k n) d \<longrightarrow> admits p d"
      by (auto simp: good_step_def)
    let ?q = "if ch then (put_interval p k n)\<lparr>cmask := set_flag (cmask (put_interval p k n)) k\<rparr>
      else put_interval p k n"
    have "refine_intervals_loop (k # ks) p = refine_intervals_loop ks ?q"
      using True n(1) by (cases ch) (simp_all add: Let_def)
    moreover have "admits ?q c" "\<forall>d. admits ?q d \<longrightarrow> admits p d" using a by auto
    ultimately show ?thesis using IH by metis
  qed
qed simp

lemma finish_good:
  assumes "admits p c"
  shows "\<exists>q. refine_finish p = (Inr (), q) \<and> rmask q = 0 \<and> (\<forall>d. admits q d = admits p d)"
proof -
  have ne: "\<not> iempty (hw_param_interval p 8)" "\<not> iempty (hw_param_interval p 11)"
    using admits_interval [OF assms, of 8] admits_interval [OF assms, of 11] by (auto simp: in_interval_def)
  have "\<exists>q. set_msbits p = Inr q \<and> intervals q = intervals p \<and> (\<forall>d. admits q d = admits p d)"
    using ne(1) by (simp add: set_msbits_def snd_interval_single_def snd_interval_empty_def Let_def)
  then obtain q where q: "set_msbits p = Inr q" "intervals q = intervals p" "\<forall>d. admits q d = admits p d"
    by blast
  have ne2: "\<not> iempty (hw_param_interval q 11)" using ne(2) q(2) by (simp add: hw_param_interval_def)
  then have "\<exists>r. set_rate q = Inr r \<and> (\<forall>d. admits r d = admits q d)"
    by (simp add: set_rate_def snd_interval_single_def snd_interval_empty_def Let_def)
  then obtain r where r: "set_rate q = Inr r" "\<forall>d. admits r d = admits q d" by blast
  show ?thesis using q r by (simp add: refine_finish_def)
qed

section \<open>Properties\<close>

text \<open>
  C1 -- the solver loses no configuration. When the space admits a concrete configuration that
  satisfies the relations between the parameters and lies in the static tables, the
  propagation ends, succeeds, still admits that configuration, admits nothing that the space
  did not admit, and clears \<open>rmask\<close>; this holds whatever the uninitialised temporary of the
  rules contains. In particular an error means that no such configuration exists.
\<close>

theorem refine_soft_sound:
  assumes "admits p c" "consistent c" "in_tables c"
  shows "\<exists>q. snd_pcm_hw_refine_soft t0 p = Some (Inr (), q) \<and> admits q c \<and>
    (\<forall>d. admits q d \<longrightarrow> admits p d) \<and> rmask q = 0"
proof -
  obtain p1 where p1: "refine_masks_loop [0..<2 + 1] p = (Inr (), p1)" "admits p1 c"
    "\<forall>d. admits p1 d \<longrightarrow> admits p d"
    using masks_loop_good [OF assms(3) _ assms(1), of "[0..<2 + 1]"] by force
  obtain p2 where p2: "refine_intervals_loop [8..<19 + 1] p1 = (Inr (), p2)" "admits p2 c"
    "\<forall>d. admits p2 d \<longrightarrow> admits p1 d"
    using intervals_loop_good [OF assms(3) _ p1(2), of "[8..<19 + 1]"] by force
  define s where "s = \<lparr>sparams = p2, rstamps = replicate (length refine_rules) 0,
    vstamps = map (\<lambda>k. if has_flag (rmask p2) k then 1 else 0) [0..<19 + 1], stamp = 2, again = False\<rparr>"
  obtain p3 where p3: "rules_loop t0 s = Some (Inr (), p3)" "admits p3 c" "\<forall>d. admits p3 d \<longrightarrow> admits p2 d"
    using rules_loop_good [OF assms(2), of s t0] p2(2) by (auto simp: s_def)
  obtain q where "refine_finish p3 = (Inr (), q)" "rmask q = 0" "\<forall>d. admits q d = admits p3 d"
    using finish_good [OF p3(2)] by blast
  then show ?thesis
    unfolding snd_pcm_hw_refine_soft_def p1(1) p2(1) prod.case sum.case Let_def s_def [symmetric] p3(1)
    using p1 p2 p3 by simp
qed


definition stereo_space :: hw_params where
  "stereo_space = \<lparr>masks = replicate 3 (replicate 8 0xFFFFFFFF),
     intervals = replicate 12 \<lparr>imin = 0, imax = UINT_MAX, openmin = False, openmax = False,
       integer = False, iempty = False\<rparr>,
     rmask = 0xFFFFFFFF, cmask = 0, info = 0xFFFFFFFF, msbits = 0, rate_num = 0, rate_den = 0\<rparr>"

definition stereo_config :: config where
  "stereo_config = \<lparr>cmasks = (\<lambda>k. if k = 1 then 2 else 0),
     cvalues = (\<lambda>k. [16, 32, 2, 48000, 64000 / 3, 1024, 4096, 4, 256000 / 3, 4096, 16384, 1] ! (k - 8))\<rparr>"

lemma all_less_12: "(\<forall>k < (12 :: nat). P k) \<longleftrightarrow>
    P 0 \<and> P 1 \<and> P 2 \<and> P 3 \<and> P 4 \<and> P 5 \<and> P 6 \<and> P 7 \<and> P 8 \<and> P 9 \<and> P 10 \<and> P 11"
  by (simp add: eval_nat_numeral all_simps less_Suc_eq) blast

lemma all_less_3: "(\<forall>k < (3 :: nat). P k) \<longleftrightarrow> P 0 \<and> P 1 \<and> P 2"
  by (auto simp: eval_nat_numeral less_Suc_eq)

lemma stereo_admitted: "admits stereo_space stereo_config"
  unfolding admits_def shape_def all_less_12 all_less_3
  by (simp add: stereo_space_def stereo_config_def mask_mem_def mask_ok_def in_mask_def
      in_interval_def lo_ok_def hi_ok_def)

lemma stereo_consistent: "consistent stereo_config"
  unfolding consistent_def
  by (simp add: stereo_config_def value_ok_def format_of_int_def snd_pcm_format_physical_width_def)

lemma stereo_in_tables: "in_tables stereo_config"
  unfolding in_tables_def all_less_12 all_less_3
  by (simp add: stereo_config_def refine_masks_def refine_intervals_def from_to_max_def mask_mem_def
      mask_ok_def in_mask_def in_interval_def lo_ok_def hi_ok_def ur_def)

lemma refine_soft_sound_witness:
  "\<exists>q. snd_pcm_hw_refine_soft cleared_interval stereo_space = Some (Inr (), q) \<and>
     admits q stereo_config \<and> rmask q = 0"
  using refine_soft_sound [OF stereo_admitted stereo_consistent stereo_in_tables] by blast

end
