(* ===== verification/PcmSet.thy ===== *)
theory PcmSet
  imports PcmSolve
begin

text \<open>
  The functions of \<open>libasound/src/pcm/pcm_params.c\<close> that fix or narrow one parameter and then
  let the driver propagate the change. The driver's \<open>hw_refine\<close> operation, reached through
  the function pointer \<open>pcm->ops->hw_refine\<close>, is the parameter \<open>hwref\<close>. Each function works in
  one of three modes: change the space, try it and restore it on failure, or only test. A
  direction argument that is a null pointer is 0.
\<close>

type_synonym hw_refiner = "hw_params \<Rightarrow> unit cres \<times> hw_params"

datatype set_mode = SND_CHANGE | SND_TRY | SND_TEST

text \<open>
  The locals of a setting function: the caller's structure, the local \<open>save\<close>, and whether the pointer
  \<open>params\<close> has been set to \<open>save\<close>, as it is in test mode. In change mode \<open>save\<close> is never read.
\<close>

record set_locals =
  caller :: hw_params
  saved :: hw_params
  at_saved :: bool

definition enter :: "set_mode \<Rightarrow> hw_params \<Rightarrow> set_locals" where
  "enter mode params = \<lparr>caller = params, saved = params, at_saved = (mode = SND_TEST)\<rparr>"

definition deref :: "set_locals \<Rightarrow> hw_params" where
  "deref l = (if at_saved l then saved l else caller l)"

definition assign :: "hw_params \<Rightarrow> set_locals \<Rightarrow> set_locals" where
  "assign p l = (if at_saved l then l\<lparr>saved := p\<rparr> else l\<lparr>caller := p\<rparr>)"

text \<open>A call that works on \<open>*params\<close>.\<close>

definition on :: "(hw_params \<Rightarrow> 'a cres \<times> hw_params) \<Rightarrow> set_locals \<Rightarrow> 'a cres \<times> set_locals" where
  "on f l = (case f (deref l) of (r, p) \<Rightarrow> (r, assign p l))"

text \<open>
  The label \<open>_fail\<close>. A failed assertion does not get there: it ends the program in the state it has.
\<close>

definition returned :: "cerr \<Rightarrow> bool" where
  "returned e = (e \<noteq> ABORT \<and> e \<noteq> UNDEF)"

definition fail :: "set_mode \<Rightarrow> cerr \<Rightarrow> set_locals \<Rightarrow> 'a cres \<times> hw_params" where
  "fail mode err l =
     (Inl err, caller (if returned err \<and> mode = SND_TRY then assign (saved l) l else l))"

text \<open>Propagation after a change, unless nothing is flagged.\<close>

definition refine_if ::
    "hw_refiner \<Rightarrow> bool \<Rightarrow> bool cres \<times> hw_params \<Rightarrow> (hw_params \<Rightarrow> 'a cres) \<Rightarrow> (hw_params \<Rightarrow> 'a cres)
       \<Rightarrow> 'a cres \<times> hw_params" where
  "refine_if hwref wanted ep after plain =
     (case ep of
        (Inl e, params) \<Rightarrow> (Inl e, params)
      | (Inr _, params) \<Rightarrow>
          if wanted \<and> rmask params \<noteq> 0 then
            (case hwref params of
               (Inl e, params) \<Rightarrow> (Inl e, params)
             | (Inr _, params) \<Rightarrow> (after params, params))
          else (plain params, params))"

definition snd_pcm_hw_param_any :: "hw_refiner \<Rightarrow> hw_params \<Rightarrow> hw_param \<Rightarrow> unit cres \<times> hw_params" where
  "snd_pcm_hw_param_any hwref params var =
     (case snd_pcm_hw_param_any0 params var of
        Inl e \<Rightarrow> (Inl e, params)
      | Inr params \<Rightarrow> hwref params)"

definition snd_pcm_hw_param_set_integer ::
    "hw_refiner \<Rightarrow> hw_params \<Rightarrow> set_mode \<Rightarrow> hw_param \<Rightarrow> unit cres \<times> hw_params" where
  "snd_pcm_hw_param_set_integer hwref params mode var =
     (case on (\<lambda>p. hw_param_set_integer0 p var) (enter mode params) of
        (Inl err, l) \<Rightarrow> fail mode err l
      | (Inr _, l) \<Rightarrow>
          if rmask (deref l) \<noteq> 0 then
            (case on hwref l of
               (Inl err, l) \<Rightarrow> fail mode err l
             | (Inr _, l) \<Rightarrow> (Inr (), caller l))
          else (Inr (), caller l))"

definition snd_pcm_hw_param_set_first ::
    "hw_refiner \<Rightarrow> hw_params \<Rightarrow> hw_param \<Rightarrow> (u32 \<times> int) cres \<times> hw_params" where
  "snd_pcm_hw_param_set_first hwref params var =
     refine_if hwref True (hw_param_set_first0 params var)
       (\<lambda>p. snd_pcm_hw_param_get p var) (\<lambda>p. snd_pcm_hw_param_get p var)"

definition snd_pcm_hw_param_set_last ::
    "hw_refiner \<Rightarrow> hw_params \<Rightarrow> hw_param \<Rightarrow> (u32 \<times> int) cres \<times> hw_params" where
  "snd_pcm_hw_param_set_last hwref params var =
     refine_if hwref True (hw_param_set_last0 params var)
       (\<lambda>p. snd_pcm_hw_param_get p var) (\<lambda>p. snd_pcm_hw_param_get p var)"

text \<open>
  When the propagation left the parameter empty the error is \<open>-ENOENT\<close>, else the new bound is the
  result. \<open>snd_pcm_hw_param_empty\<close> fails only by an assertion.
\<close>

definition snd_pcm_hw_param_set_min ::
    "hw_refiner \<Rightarrow> hw_params \<Rightarrow> set_mode \<Rightarrow> hw_param \<Rightarrow> u32 \<Rightarrow> int \<Rightarrow> (u32 \<times> int) cres \<times> hw_params" where
  "snd_pcm_hw_param_set_min hwref params mode var val dir =
     (case on (\<lambda>p. hw_param_set_min0 p var val dir) (enter mode params) of
        (Inl err, l) \<Rightarrow> fail mode err l
      | (Inr _, l) \<Rightarrow>
          if (mode \<noteq> SND_TEST \<or> hw_is_interval var) \<and> rmask (deref l) \<noteq> 0 then
            (case on hwref l of
               (Inl err, l) \<Rightarrow> fail mode err l
             | (Inr _, l) \<Rightarrow>
                 (case snd_pcm_hw_param_empty (deref l) var of
                    Inl err \<Rightarrow> (Inl err, caller l)
                  | Inr True \<Rightarrow> fail mode ENOENT l
                  | Inr False \<Rightarrow> (snd_pcm_hw_param_get_min (deref l) var, caller l)))
          else (snd_pcm_hw_param_get_min (deref l) var, caller l))"

definition snd_pcm_hw_param_set_max ::
    "hw_refiner \<Rightarrow> hw_params \<Rightarrow> set_mode \<Rightarrow> hw_param \<Rightarrow> u32 \<Rightarrow> int \<Rightarrow> (u32 \<times> int) cres \<times> hw_params" where
  "snd_pcm_hw_param_set_max hwref params mode var val dir =
     (case on (\<lambda>p. hw_param_set_max0 p var val dir) (enter mode params) of
        (Inl err, l) \<Rightarrow> fail mode err l
      | (Inr _, l) \<Rightarrow>
          if (mode \<noteq> SND_TEST \<or> hw_is_interval var) \<and> rmask (deref l) \<noteq> 0 then
            (case on hwref l of
               (Inl err, l) \<Rightarrow> fail mode err l
             | (Inr _, l) \<Rightarrow>
                 (case snd_pcm_hw_param_empty (deref l) var of
                    Inl err \<Rightarrow> (Inl err, caller l)
                  | Inr True \<Rightarrow> fail mode ENOENT l
                  | Inr False \<Rightarrow> (snd_pcm_hw_param_get_max (deref l) var, caller l)))
          else (snd_pcm_hw_param_get_max (deref l) var, caller l))"

definition snd_pcm_hw_param_set_minmax ::
    "hw_refiner \<Rightarrow> hw_params \<Rightarrow> set_mode \<Rightarrow> hw_param \<Rightarrow> u32 \<Rightarrow> int \<Rightarrow> u32 \<Rightarrow> int
       \<Rightarrow> ((u32 \<times> int) \<times> (u32 \<times> int)) cres \<times> hw_params" where
  "snd_pcm_hw_param_set_minmax hwref params mode var lo lodir hi hidir =
     (let bounds = (\<lambda>l.
            case snd_pcm_hw_param_get_min (deref l) var of
              Inl err \<Rightarrow> (Inl err, caller l)
            | Inr lo \<Rightarrow>
                (case snd_pcm_hw_param_get_max (deref l) var of
                   Inl err \<Rightarrow> (Inl err, caller l)
                 | Inr hi \<Rightarrow> (Inr (lo, hi), caller l)))
      in case on (\<lambda>p. hw_param_set_minmax0 p var lo lodir hi hidir) (enter mode params) of
           (Inl err, l) \<Rightarrow> fail mode err l
         | (Inr _, l) \<Rightarrow>
             if (mode \<noteq> SND_TEST \<or> hw_is_interval var) \<and> rmask (deref l) \<noteq> 0 then
               (case on hwref l of
                  (Inl err, l) \<Rightarrow> fail mode err l
                | (Inr _, l) \<Rightarrow> bounds l)
             else bounds l)"

definition snd_pcm_hw_param_set ::
    "hw_refiner \<Rightarrow> hw_params \<Rightarrow> set_mode \<Rightarrow> hw_param \<Rightarrow> u32 \<Rightarrow> int \<Rightarrow> unit cres \<times> hw_params" where
  "snd_pcm_hw_param_set hwref params mode var val dir =
     (case on (\<lambda>p. hw_param_set0 p var val dir) (enter mode params) of
        (Inl err, l) \<Rightarrow> fail mode err l
      | (Inr _, l) \<Rightarrow>
          if (mode \<noteq> SND_TEST \<or> hw_is_interval var) \<and> rmask (deref l) \<noteq> 0 then
            (case on hwref l of
               (Inl err, l) \<Rightarrow> fail mode err l
             | (Inr _, l) \<Rightarrow> (Inr (), caller l))
          else (Inr (), caller l))"

definition snd_pcm_hw_param_set_mask ::
    "hw_refiner \<Rightarrow> hw_params \<Rightarrow> set_mode \<Rightarrow> hw_param \<Rightarrow> snd_mask \<Rightarrow> unit cres \<times> hw_params" where
  "snd_pcm_hw_param_set_mask hwref params mode var val =
     (case on (\<lambda>p. hw_param_set_mask0 p var val) (enter mode params) of
        (Inl err, l) \<Rightarrow> fail mode err l
      | (Inr _, l) \<Rightarrow>
          if mode \<noteq> SND_TEST \<and> rmask (deref l) \<noteq> 0 then
            (case on hwref l of
               (Inl err, l) \<Rightarrow> fail mode err l
             | (Inr _, l) \<Rightarrow> (Inr (), caller l))
          else (Inr (), caller l))"

text \<open>Choosing one configuration: the first failure ends the sequence.\<close>

definition and_then ::
    "'a cres \<times> hw_params \<Rightarrow> (hw_params \<Rightarrow> 'b cres \<times> hw_params) \<Rightarrow> 'b cres \<times> hw_params" where
  "and_then rp f = (case rp of (Inl e, p) \<Rightarrow> (Inl e, p) | (Inr _, p) \<Rightarrow> f p)"

definition snd_pcm_hw_params_choose :: "hw_refiner \<Rightarrow> hw_params \<Rightarrow> unit cres \<times> hw_params" where
  "snd_pcm_hw_params_choose hwref params =
     and_then (snd_pcm_hw_param_set_first hwref params HW_PARAM_ACCESS) (\<lambda>p.
     and_then (snd_pcm_hw_param_set_first hwref p HW_PARAM_FORMAT) (\<lambda>p.
     and_then (snd_pcm_hw_param_set_first hwref p HW_PARAM_SUBFORMAT) (\<lambda>p.
     and_then (snd_pcm_hw_param_set_first hwref p HW_PARAM_CHANNELS) (\<lambda>p.
     and_then (snd_pcm_hw_param_set_first hwref p HW_PARAM_RATE) (\<lambda>p.
     and_then (snd_pcm_hw_param_set_first hwref p HW_PARAM_PERIOD_TIME) (\<lambda>p.
     and_then (snd_pcm_hw_param_set_first hwref p HW_PARAM_PERIOD_SIZE) (\<lambda>p.
     and_then (snd_pcm_hw_param_set_last hwref p HW_PARAM_BUFFER_SIZE) (\<lambda>p.
     and_then (snd_pcm_hw_param_set_first hwref p HW_PARAM_TICK_TIME) (\<lambda>p. (Inr (), p))))))))))"

section \<open>The caller's structure\<close>

text \<open>
  What holds of the locals until a function returns, and of what it returns: in test mode the caller's
  structure is untouched, in try mode the saved copy is; an error that is not a failed assertion then
  comes with the structure as it was.
\<close>

definition kept :: "set_mode \<Rightarrow> hw_params \<Rightarrow> set_locals \<Rightarrow> bool" where
  "kept mode p l =
     (case mode of
        SND_CHANGE \<Rightarrow> True
      | SND_TRY \<Rightarrow> saved l = p \<and> \<not> at_saved l
      | SND_TEST \<Rightarrow> caller l = p \<and> at_saved l)"

definition unharmed :: "set_mode \<Rightarrow> hw_params \<Rightarrow> 'a cres \<times> hw_params \<Rightarrow> bool" where
  "unharmed mode p rq =
     (case rq of (r, q) \<Rightarrow>
        (mode = SND_TEST \<longrightarrow> q = p) \<and> (mode = SND_TRY \<longrightarrow> (\<exists>e. r = Inl e \<and> returned e) \<longrightarrow> q = p))"

lemma unharmed_restored:
  "unharmed mode p rq \<Longrightarrow> mode = SND_TEST \<or> mode = SND_TRY \<Longrightarrow>
     case rq of (r, q) \<Rightarrow> mode = SND_TEST \<or> (\<exists>e. r = Inl e \<and> returned e) \<longrightarrow> q = p"
  by (auto simp: unharmed_def)

lemma kept_enter: "kept mode p (enter mode p)"
  by (cases mode) (simp_all add: kept_def enter_def)

lemma kept_on: "on f l = (r, l') \<Longrightarrow> kept mode p l \<Longrightarrow> kept mode p l'"
  by (cases mode) (auto simp: kept_def on_def assign_def split: prod.splits)

lemma unharmed_fail: "kept mode p l \<Longrightarrow> unharmed mode p (fail mode e l)"
  by (cases mode) (auto simp: kept_def unharmed_def fail_def assign_def)

lemma unharmed_return:
  "kept mode p l \<Longrightarrow> (\<And>e. r = Inl e \<Longrightarrow> \<not> returned e) \<Longrightarrow> unharmed mode p (r, caller l)"
  by (cases mode) (auto simp: kept_def unharmed_def)

text \<open>Reading a bound fails only by an assertion.\<close>

lemma get_bound_asserts:
  "snd_pcm_hw_param_get_min q var = Inl e \<Longrightarrow> \<not> returned e"
  "snd_pcm_hw_param_get_max q var = Inl e \<Longrightarrow> \<not> returned e"
  "snd_pcm_hw_param_empty q var = Inl e \<Longrightarrow> \<not> returned e"
  by (auto simp: snd_pcm_hw_param_get_min_def snd_pcm_hw_param_get_max_def snd_pcm_hw_param_empty_def
      snd_mask_min_def snd_mask_max_def snd_interval_min_def snd_interval_max_def Let_def returned_def
      split: if_splits sum.splits)

lemma setters_unharmed:
  shows "unharmed mode p (snd_pcm_hw_param_set_min hwref p mode var v d)"
    "unharmed mode p (snd_pcm_hw_param_set_max hwref p mode var v d)"
    "unharmed mode p (snd_pcm_hw_param_set_minmax hwref p mode var v d v' d')"
    "unharmed mode p (snd_pcm_hw_param_set hwref p mode var v d)"
    "unharmed mode p (snd_pcm_hw_param_set_mask hwref p mode var m)"
    "unharmed mode p (snd_pcm_hw_param_set_integer hwref p mode var)"
  unfolding snd_pcm_hw_param_set_min_def snd_pcm_hw_param_set_max_def snd_pcm_hw_param_set_minmax_def snd_pcm_hw_param_set_def snd_pcm_hw_param_set_mask_def snd_pcm_hw_param_set_integer_def Let_def
  by (auto split: prod.split sum.split bool.split intro!: unharmed_fail unharmed_return
      dest: get_bound_asserts kept_on [OF _ kept_enter] kept_on [OF _ kept_on [OF _ kept_enter]])











section \<open>Narrowing\<close>





section \<open>Properties\<close>

text \<open>
  C16 -- test and try do no harm. Whatever the driver does, every setting function leaves the
  caller's space unchanged in test mode, and in try mode whenever it returns an error.
\<close>

theorem modes_restore:
  assumes "mode = SND_TEST \<or> mode = SND_TRY"
  shows "(case snd_pcm_hw_param_set_min hwref p mode var v d of
        (r, q) \<Rightarrow> mode = SND_TEST \<or> (\<exists>e. r = Inl e \<and> returned e) \<longrightarrow> q = p) \<and>
    (case snd_pcm_hw_param_set_max hwref p mode var v d of
        (r, q) \<Rightarrow> mode = SND_TEST \<or> (\<exists>e. r = Inl e \<and> returned e) \<longrightarrow> q = p) \<and>
    (case snd_pcm_hw_param_set_minmax hwref p mode var v d v' d' of
        (r, q) \<Rightarrow> mode = SND_TEST \<or> (\<exists>e. r = Inl e \<and> returned e) \<longrightarrow> q = p) \<and>
    (case snd_pcm_hw_param_set hwref p mode var v d of
        (r, q) \<Rightarrow> mode = SND_TEST \<or> (\<exists>e. r = Inl e \<and> returned e) \<longrightarrow> q = p) \<and>
    (case snd_pcm_hw_param_set_mask hwref p mode var m of
        (r, q) \<Rightarrow> mode = SND_TEST \<or> (\<exists>e. r = Inl e \<and> returned e) \<longrightarrow> q = p) \<and>
    (case snd_pcm_hw_param_set_integer hwref p mode var of
        (r, q) \<Rightarrow> mode = SND_TEST \<or> (\<exists>e. r = Inl e \<and> returned e) \<longrightarrow> q = p)"
  by (intro conjI unharmed_restored [OF _ assms] setters_unharmed)

lemma modes_restore_witness:
  "snd (snd_pcm_hw_param_set_min (\<lambda>p. (Inl EINVAL, cleared_params)) stereo_space SND_TRY 11 96000 0) = stereo_space"
proof -
  let ?h = "\<lambda>p. (Inl EINVAL, cleared_params)"
  have "hw_is_interval 11" by (simp add: hw_is_interval_def)
  moreover have "fst (snd_pcm_hw_param_set_min ?h stereo_space SND_TRY 11 96000 0) = Inl EINVAL"
    by (simp add: snd_pcm_hw_param_set_min_def enter_def on_def deref_def assign_def fail_def
        hw_param_set_min0_def min_bound_def
        hw_is_mask_def hw_is_interval_def put_interval_result_def snd_interval_refine_min_def
        snd_interval_empty_def snd_interval_checkempty_def hw_param_interval_def stereo_space_def
        touch_if_def touch_def set_flag_def put_interval_def)
  ultimately show ?thesis
    using modes_restore [where mode = SND_TRY and hwref = ?h and p = stereo_space and var = 11
        and v = 96000 and d = 0]
    by (cases "snd_pcm_hw_param_set_min ?h stereo_space SND_TRY 11 96000 0") (auto simp: returned_def)
qed



end
