(* ===== verification/PcmCodec.thy ===== *)
theory PcmCodec
  imports Prelude
begin

text \<open>
  The sample codecs of the ALSA library: mu-law (\<open>libasound/src/pcm/pcm_mulaw.c\<close>), A-law
  (\<open>pcm_alaw.c\<close>) and IMA ADPCM (\<open>pcm_adpcm.c\<close>). A linear sample is an \<open>int\<close> in the 16 bit
  range, a mu-law or A-law code an 8 bit word; the shifts and masks are those of the code.
  The two loops of the ADPCM codec run over the three bits of a code; its \<open>short\<close> variables
  wrap at 16 bits, and the signedness of plain \<open>char\<close>, which the platform decides, is an
  argument.
\<close>

unbundle bit_operations_syntax

section \<open>Mu-law and A-law\<close>

text \<open>The three tests both segment searches make on the shifted magnitude.\<close>

definition seg_search :: "nat \<Rightarrow> int \<Rightarrow> nat" where
  "seg_search r val =
     (let (val, r) = (if val AND 0xf0 \<noteq> 0 then (drop_bit 4 val, r + 4) else (val, r));
          (val, r) = (if val AND 0x0c \<noteq> 0 then (drop_bit 2 val, r + 2) else (val, r))
      in if val AND 0x02 \<noteq> 0 then r + 1 else r)"

definition ulaw_val_seg :: "int \<Rightarrow> nat" where
  "ulaw_val_seg val = seg_search 0 (drop_bit 7 val)"

definition alaw_val_seg :: "int \<Rightarrow> nat" where
  "alaw_val_seg val = seg_search 1 (drop_bit 8 val)"

definition s16_to_ulaw :: "int \<Rightarrow> u8" where
  "s16_to_ulaw pcm_val =
     (let (pcm_val, sign_mask) =
            (if pcm_val < 0 then (0x84 - pcm_val, 0x7f) else (pcm_val + 0x84, 0xff));
          pcm_val = (if pcm_val > 0x7fff then 0x7fff else pcm_val);
          seg = ulaw_val_seg pcm_val;
          uval = (word_of_int (push_bit 4 (int seg) OR (drop_bit (seg + 3) pcm_val AND 0x0f)) :: u8)
      in uval XOR sign_mask)"

definition ulaw_to_s16 :: "u8 \<Rightarrow> int" where
  "ulaw_to_s16 u_val =
     (let u_val = NOT u_val;
          t = push_bit 3 (uint (u_val AND 0x0f)) + 0x84;
          t = push_bit (unat (drop_bit 4 (u_val AND 0x70))) t
      in if u_val AND 0x80 \<noteq> 0 then 0x84 - t else t - 0x84)"

definition s16_to_alaw :: "int \<Rightarrow> u8" where
  "s16_to_alaw pcm_val =
     (let (pcm_val, sign_mask) =
            (if pcm_val \<ge> 0 then (pcm_val, 0xD5)
             else (if - pcm_val > 0x7fff then 0x7fff else - pcm_val, 0x55));
          aval = (word_of_int
            (if pcm_val < 256 then drop_bit 4 pcm_val
             else (let seg = alaw_val_seg pcm_val
                   in push_bit 4 (int seg) OR (drop_bit (seg + 3) pcm_val AND 0x0f))) :: u8)
      in aval XOR sign_mask)"

definition alaw_to_s16 :: "u8 \<Rightarrow> int" where
  "alaw_to_s16 a_val =
     (let a_val = a_val XOR 0x55;
          t = uint (a_val AND 0x7f);
          t = (if t < 16 then push_bit 4 t + 8
               else (let seg = nat (drop_bit 4 t AND 0x07)
                     in push_bit (seg - 1) (push_bit 4 (t AND 0x0f) + 0x108)))
      in if a_val AND 0x80 \<noteq> 0 then t else - t)"

text \<open>
  The tables of the two decoders and the segment search, checked entry by entry.
\<close>

lemma seg_search_enum:
  "list_all (\<lambda>w. let r = seg_search 0 (int w) in r \<le> 7 \<and> 2 ^ r \<le> w \<and> w < 2 ^ (r + 1)) [1..<256]"
  by code_simp

lemma ulaw_decode_enum:
  "list_all (\<lambda>k. ulaw_to_s16 (word_of_nat k XOR 0xff) = (int (k mod 16) * 8 + 132) * 2 ^ (k div 16) - 132 \<and>
     ulaw_to_s16 (word_of_nat k XOR 0x7f) = 132 - (int (k mod 16) * 8 + 132) * 2 ^ (k div 16)) [0..<128]"
  by code_simp

lemma ulaw_round: "c \<noteq> 0x7f \<Longrightarrow> s16_to_ulaw (ulaw_to_s16 c) = c"
proof -
  have "c = 0x7f \<or> s16_to_ulaw (ulaw_to_s16 c) = c" by (rule byte_enum) code_simp
  then show "c \<noteq> 0x7f \<Longrightarrow> s16_to_ulaw (ulaw_to_s16 c) = c" by blast
qed

lemma alaw_round: "s16_to_alaw (alaw_to_s16 c) = c"
  by (rule byte_enum) code_simp

lemma alaw_decode_enum:
  "list_all (\<lambda>k. alaw_to_s16 (word_of_nat k XOR 0xD5) = (if k < 16 then int k * 16 + 8
        else (int (k mod 16) * 16 + 264) * 2 ^ (k div 16 - 1)) \<and>
     alaw_to_s16 (word_of_nat k XOR 0x55) = - (if k < 16 then int k * 16 + 8
        else (int (k mod 16) * 16 + 264) * 2 ^ (k div 16 - 1))) [0..<128]"
  by code_simp


lemma le_div_int: "0 < (c :: int) \<Longrightarrow> q \<le> v div c \<longleftrightarrow> q * c \<le> v"
proof
  assume c: "0 < c" and q: "q \<le> v div c"
  have "q * c \<le> v div c * c" using q c by (simp add: mult_right_mono)
  also have "\<dots> = v - v mod c" by (simp add: minus_mod_eq_div_mult)
  also have "\<dots> \<le> v" using c by simp
  finally show "q * c \<le> v" .
next
  assume "0 < c" "q * c \<le> v"
  then show "q \<le> v div c" using zdiv_mono1 [of "q * c" v c] by simp
qed

lemma div_less_int: "0 < (c :: int) \<Longrightarrow> v div c < q \<longleftrightarrow> v < q * c"
  using le_div_int [of c q v] by linarith

lemma seg_search_spec:
  assumes "1 \<le> w" "w < 256"
  shows "seg_search 0 w \<le> 7 \<and> 2 ^ seg_search 0 w \<le> w \<and> w < 2 ^ (seg_search 0 w + 1)"
proof -
  have "nat w \<in> set [1..<256]" using assms by auto
  with seg_search_enum have "let r = seg_search 0 (int (nat w)) in r \<le> 7 \<and> 2 ^ r \<le> nat w \<and> nat w < 2 ^ (r + 1)"
    unfolding list_all_iff by blast
  then show ?thesis using assms by (simp add: Let_def le_nat_iff nat_less_iff)
qed

lemma seg_search_shift: "seg_search (Suc r) w = Suc (seg_search r w)"
  by (simp add: seg_search_def Let_def)

text \<open>The segment and the four bits below the leading one, as arithmetic on the magnitude.\<close>

lemma segment_cases:
  assumes "2 ^ k \<le> v" "v < 2 ^ (k + 8)"
  shows "seg_search 0 (drop_bit k v) \<le> 7 \<and> 2 ^ (seg_search 0 (drop_bit k v) + k) \<le> v \<and>
     v < 2 ^ (seg_search 0 (drop_bit k v) + k + 1)"
proof -
  have "1 \<le> v div 2 ^ k" "v div 2 ^ k < 256"
    using assms by (simp_all add: le_div_int div_less_int power_add mult.commute)
  from seg_search_spec [OF this] show ?thesis
    by (simp add: drop_bit_eq_div le_div_int div_less_int power_add ac_simps)
qed

lemma or_enum: "list_all (\<lambda>n. push_bit 4 (int (n div 16)) OR int (n mod 16) = int n) [0..<128]"
  by code_simp

lemma or_low_bits:
  assumes "s \<le> 7" "0 \<le> q" "q < 16"
  shows "push_bit 4 (int s) OR q = int (16 * s + nat q)"
proof -
  have "16 * s + nat q \<in> set [0..<128]" using assms by auto
  with or_enum have "push_bit 4 (int ((16 * s + nat q) div 16)) OR int ((16 * s + nat q) mod 16) = int (16 * s + nat q)"
    unfolding list_all_iff by blast
  then show ?thesis using assms by (simp add: nat_less_iff)
qed

lemma and_15: "(x :: int) AND 15 = x mod 16"
  using take_bit_eq_mask [of 4 x] by (simp add: take_bit_eq_mod mask_eq_exp_minus_1)

text \<open>What a magnitude becomes: segment times 16 plus the step in the segment.\<close>

definition seg_code :: "nat \<Rightarrow> int \<Rightarrow> nat" where
  "seg_code s v = 16 * s + nat (v div 2 ^ (s + 3) mod 16)"

lemma seg_code_bits:
  "s \<le> 7 \<Longrightarrow> push_bit 4 (int s) OR (drop_bit (s + 3) v AND 0x0f) = int (seg_code s v)"
  by (simp add: and_15 or_low_bits seg_code_def drop_bit_eq_div)

lemma mod_16: "16 \<le> (q :: int) \<Longrightarrow> q < 32 \<Longrightarrow> q mod 16 = q - 16"
  by presburger

lemma seg_code_step:
  fixes v :: int
  assumes "2 ^ (s + 7) \<le> v" "v < 2 ^ (s + 8)"
  shows "v div 2 ^ (s + 3) mod 16 = v div 2 ^ (s + 3) - 16"
    and "\<bar>(v div 2 ^ (s + 3)) * 2 ^ (s + 3) + 2 ^ (s + 2) - v\<bar> \<le> 2 ^ (s + 2)"
proof -
  let ?c = "2 ^ (s + 3) :: int"
  have "16 \<le> v div ?c" "v div ?c < 32"
    using assms by (simp_all add: le_div_int div_less_int power_add mult.commute)
  then show "v div ?c mod 16 = v div ?c - 16" by (rule mod_16)
  have "v = v div ?c * ?c + v mod ?c" by (rule div_mult_mod_eq [symmetric])
  moreover have "0 \<le> v mod ?c" "v mod ?c < ?c" by simp_all
  moreover have "?c = 2 * 2 ^ (s + 2)" by (simp add: power_add)
  ultimately show "\<bar>v div ?c * ?c + 2 ^ (s + 2) - v\<bar> \<le> 2 ^ (s + 2)" by linarith
qed

text \<open>
  Encoding, as arithmetic: a magnitude in segment \<open>s\<close> has a seven bit code, and the middle of
  its quantisation step, which is what both decoders return, is near it.
\<close>

lemma step_mid: "((q - 16) * 8 + 132) * 2 ^ s = q * 2 ^ (s + 3) + 2 ^ (s + 2 :: nat)" for q :: int
  by (simp add: power_add algebra_simps)

lemma segment_code:
  fixes v :: int
  assumes "s \<le> 7" "2 ^ (s + 7) \<le> v" "v < 2 ^ (s + 8)"
  shows "seg_code s v < 128" "seg_code s v div 16 = s"
    "(int (seg_code s v mod 16) * 8 + 132) * 2 ^ s = (v div 2 ^ (s + 3)) * 2 ^ (s + 3) + 2 ^ (s + 2)"
    "32 * \<bar>(int (seg_code s v mod 16) * 8 + 132) * 2 ^ s - v\<bar> \<le> v"
proof -
  let ?q = "v div 2 ^ (s + 3)"
  have q: "?q mod 16 = ?q - 16" by (rule seg_code_step [OF assms(2,3)])
  have m: "0 \<le> ?q mod 16" "?q mod 16 < 16" by simp_all
  then have n: "nat (?q mod 16) < 16" by linarith
  then show "seg_code s v < 128" using assms(1) by (simp add: seg_code_def)
  have "seg_code s v mod 16 = nat (?q mod 16)" using n by (simp add: seg_code_def)
  moreover show "seg_code s v div 16 = s" using n by (simp add: seg_code_def)
  ultimately show e: "(int (seg_code s v mod 16) * 8 + 132) * 2 ^ s = ?q * 2 ^ (s + 3) + 2 ^ (s + 2)"
    using step_mid [of ?q s] m q by simp
  have scale: "\<bar>a\<bar> \<le> b \<Longrightarrow> 32 * b \<le> v \<Longrightarrow> 32 * \<bar>a\<bar> \<le> v" for a b :: int by linarith
  have "32 * 2 ^ (s + 2) \<le> v" using assms(2) by (simp add: power_add)
  then show "32 * \<bar>(int (seg_code s v mod 16) * 8 + 132) * 2 ^ s - v\<bar> \<le> v"
    unfolding e using scale [OF seg_code_step(2) [OF assms(2,3)]] by blast
qed

lemma ulaw_val_seg:
  assumes "132 \<le> v" "v \<le> 32767"
  shows "ulaw_val_seg v \<le> 7 \<and> 2 ^ (ulaw_val_seg v + 7) \<le> v \<and> v < 2 ^ (ulaw_val_seg v + 8)"
  using segment_cases [of 7 v] assms by (simp add: ulaw_val_seg_def add.commute)

lemma alaw_val_seg:
  assumes "256 \<le> v" "v \<le> 32767"
  shows "1 \<le> alaw_val_seg v \<and> alaw_val_seg v \<le> 7 \<and> 2 ^ (alaw_val_seg v + 7) \<le> v \<and> v < 2 ^ (alaw_val_seg v + 8)"
proof -
  have "alaw_val_seg v = Suc (seg_search 0 (drop_bit 8 v))"
    using seg_search_shift [of 0] by (simp add: alaw_val_seg_def)
  moreover have s: "seg_search 0 (drop_bit 8 v) \<le> 7 \<and> 2 ^ (seg_search 0 (drop_bit 8 v) + 8) \<le> v \<and>
      v < 2 ^ (seg_search 0 (drop_bit 8 v) + 9)"
    using segment_cases [of 8 v] assms by (simp add: add.commute)
  moreover have "seg_search 0 (drop_bit 8 v) \<noteq> 7" using s assms(2) by auto
  ultimately show ?thesis by (simp add: add.commute)
qed

lemma ulaw_decode:
  assumes "k < 128"
  shows "ulaw_to_s16 (word_of_nat k XOR 0xff) = (int (k mod 16) * 8 + 132) * 2 ^ (k div 16) - 132"
    "ulaw_to_s16 (word_of_nat k XOR 0x7f) = 132 - (int (k mod 16) * 8 + 132) * 2 ^ (k div 16)"
proof -
  have "k \<in> set [0..<128]" using assms by simp
  with ulaw_decode_enum show
    "ulaw_to_s16 (word_of_nat k XOR 0xff) = (int (k mod 16) * 8 + 132) * 2 ^ (k div 16) - 132"
    "ulaw_to_s16 (word_of_nat k XOR 0x7f) = 132 - (int (k mod 16) * 8 + 132) * 2 ^ (k div 16)"
    unfolding list_all_iff by blast+
qed

lemma alaw_decode:
  assumes "k < 128"
  defines "t \<equiv> (if k < 16 then int k * 16 + 8 else (int (k mod 16) * 16 + 264) * 2 ^ (k div 16 - 1))"
  shows "alaw_to_s16 (word_of_nat k XOR 0xD5) = t" "alaw_to_s16 (word_of_nat k XOR 0x55) = - t"
proof -
  have "k \<in> set [0..<128]" using assms by simp
  with alaw_decode_enum show "alaw_to_s16 (word_of_nat k XOR 0xD5) = t" "alaw_to_s16 (word_of_nat k XOR 0x55) = - t"
    unfolding list_all_iff t_def by blast+
qed

text \<open>The two encoders on a magnitude and a sign.\<close>

lemma s16_to_ulaw_eq:
  assumes "\<bar>x\<bar> \<le> 32635"
  shows "s16_to_ulaw x = word_of_nat (seg_code (ulaw_val_seg (\<bar>x\<bar> + 132)) (\<bar>x\<bar> + 132)) XOR
     (if x < 0 then 0x7f else 0xff)"
proof -
  let ?v = "\<bar>x\<bar> + 132"
  have s: "ulaw_val_seg ?v \<le> 7" using ulaw_val_seg [of ?v] assms by simp
  have "(if x < 0 then (132 - x, 127 :: u8) else (x + 132, 255)) = (?v, if x < 0 then 127 else 255)" by auto
  then show ?thesis
    using assms by (simp add: s16_to_ulaw_def Let_def seg_code_bits [OF s, simplified])
qed

lemma s16_to_alaw_eq:
  assumes "- 32768 \<le> x" "x \<le> 32767"
  defines "v \<equiv> min 32767 \<bar>x\<bar>"
  shows "s16_to_alaw x = word_of_nat (if v < 256 then nat (v div 16) else seg_code (alaw_val_seg v) v) XOR
     (if x < 0 then 0x55 else 0xD5)"
proof -
  have v: "(if 0 \<le> x then (x, 0xD5 :: u8) else (if - x > 0x7fff then 0x7fff else - x, 0x55)) =
      (v, if x < 0 then 0x55 else 0xD5)" using assms by auto
  have s: "\<not> v < 256 \<Longrightarrow> alaw_val_seg v \<le> 7" using alaw_val_seg [of v] by (simp add: v_def)
  have "0 \<le> v" by (simp add: v_def)
  show ?thesis
    unfolding s16_to_alaw_def v Let_def prod.case
    using seg_code_bits [of "alaw_val_seg v" v] s \<open>0 \<le> v\<close>
    by (auto simp: drop_bit_eq_div)
qed

lemma ulaw_error:
  assumes "\<bar>x\<bar> \<le> 32635"
  shows "32 * \<bar>ulaw_to_s16 (s16_to_ulaw x) - x\<bar> \<le> \<bar>x\<bar> + 132"
proof -
  let ?v = "\<bar>x\<bar> + 132" let ?k = "seg_code (ulaw_val_seg ?v) ?v"
  have s: "ulaw_val_seg ?v \<le> 7 \<and> 2 ^ (ulaw_val_seg ?v + 7) \<le> ?v \<and> ?v < 2 ^ (ulaw_val_seg ?v + 8)"
    using assms by (intro ulaw_val_seg) auto
  note k = segment_code [of "ulaw_val_seg ?v" ?v, OF conjunct1 [OF s] conjunct1 [OF conjunct2 [OF s]] conjunct2 [OF conjunct2 [OF s]]]
  define t where "t = (int (?k mod 16) * 8 + 132) * 2 ^ ulaw_val_seg ?v"
  have "ulaw_to_s16 (s16_to_ulaw x) = (if x < 0 then 132 - t else t - 132)"
    unfolding s16_to_ulaw_eq [OF assms] t_def using ulaw_decode [OF k(1)]
    by (cases "x < 0") (simp_all only: k(2) if_True if_False)
  moreover have "32 * \<bar>t - ?v\<bar> \<le> ?v" using k(4) by (simp add: t_def)
  moreover have "\<bar>(if x < 0 then 132 - t else t - 132) - x\<bar> = \<bar>t - ?v\<bar>" by (cases "x < 0") simp_all
  ultimately show ?thesis by simp
qed

lemma ulaw_clips:
  assumes "32635 < \<bar>x\<bar>"
  shows "ulaw_to_s16 (s16_to_ulaw x) = (if x < 0 then - 32124 else 32124)"
proof -
  have s: "ulaw_val_seg 32767 = 7" by code_simp
  have "s16_to_ulaw x = (if x < 0 then 0 else 0x80)"
    using assms by (auto simp: s16_to_ulaw_def Let_def s)
  moreover have "ulaw_to_s16 0 = - 32124" "ulaw_to_s16 0x80 = 32124" by code_simp+
  ultimately show ?thesis by simp
qed

lemma half_step: "1 \<le> s \<Longrightarrow> (m * 16 + 264) * 2 ^ (s - 1) = (m * 8 + 132) * 2 ^ s" for m :: int
  by (cases s) (simp_all add: algebra_simps)

lemma clip_near:
  fixes t v a :: int
  assumes "32 * \<bar>t - v\<bar> \<le> v" "a = v \<or> v = 32767 \<and> a = 32768"
  shows "32 * \<bar>t - a\<bar> \<le> a"
  using assms(2)
proof
  assume "v = 32767 \<and> a = 32768"
  have "32 * y \<le> 32767 \<Longrightarrow> y \<le> 1023" for y :: int by presburger
  with assms(1) \<open>v = 32767 \<and> a = 32768\<close> have "\<bar>t - 32767\<bar> \<le> 1023" by blast
  then have "\<bar>t - a\<bar> \<le> 1024" using \<open>v = 32767 \<and> a = 32768\<close> by linarith
  then show ?thesis using \<open>v = 32767 \<and> a = 32768\<close> by simp
qed (use assms(1) in simp)

lemma alaw_error:
  assumes "- 32768 \<le> x" "x \<le> 32767"
  shows "\<bar>alaw_to_s16 (s16_to_alaw x) - x\<bar> \<le> 8 \<or> 32 * \<bar>alaw_to_s16 (s16_to_alaw x) - x\<bar> \<le> \<bar>x\<bar>"
proof (cases "\<bar>x\<bar> < 256")
  case True
  define k where "k = nat (\<bar>x\<bar> div 16)"
  have k: "k < 16" "int k = \<bar>x\<bar> div 16" using True by (auto simp: k_def)
  have "s16_to_alaw x = word_of_nat k XOR (if x < 0 then 0x55 else 0xD5)"
    using s16_to_alaw_eq [OF assms] True by (simp add: k_def)
  then have "alaw_to_s16 (s16_to_alaw x) = (if x < 0 then - (int k * 16 + 8) else int k * 16 + 8)"
    using alaw_decode [of k] k(1) by simp
  then show ?thesis using k(2) by (auto split: if_splits; presburger)
next
  case False
  let ?v = "min 32767 \<bar>x\<bar>" let ?s = "alaw_val_seg ?v" let ?k = "seg_code ?s ?v"
  have s: "1 \<le> ?s \<and> ?s \<le> 7 \<and> 2 ^ (?s + 7) \<le> ?v \<and> ?v < 2 ^ (?s + 8)"
    using False by (intro alaw_val_seg) auto
  have k: "?k < 128" "?k div 16 = ?s" "32 * \<bar>(int (?k mod 16) * 8 + 132) * 2 ^ ?s - ?v\<bar> \<le> ?v"
    using segment_code [of ?s ?v] s by blast+
  have "\<not> ?k < 16" using k(2) s by (metis div_less not_one_le_zero)
  moreover have "(int (?k mod 16) * 16 + 264) * 2 ^ (?s - 1) = (int (?k mod 16) * 8 + 132) * 2 ^ ?s"
    using half_step s by blast
  moreover have enc: "s16_to_alaw x = word_of_nat ?k XOR (if x < 0 then 0x55 else 0xD5)"
    using s16_to_alaw_eq [OF assms] False by (simp only: min_less_iff_disj if_False simp_thms) simp
  ultimately have d: "alaw_to_s16 (s16_to_alaw x) =
      (if x < 0 then - ((int (?k mod 16) * 8 + 132) * 2 ^ ?s) else (int (?k mod 16) * 8 + 132) * 2 ^ ?s)"
    using alaw_decode [OF k(1)] enc by (cases "x < 0") (simp_all only: k(2) if_True if_False)
  define t where "t = (int (?k mod 16) * 8 + 132) * 2 ^ ?s"
  have b: "32 * \<bar>t - ?v\<bar> \<le> ?v" using k(3) by (simp only: t_def)
  have "\<bar>x\<bar> = ?v \<or> ?v = 32767 \<and> \<bar>x\<bar> = 32768" using assms by (auto simp: min_def)
  from clip_near [OF b this] have "32 * \<bar>t - \<bar>x\<bar>\<bar> \<le> \<bar>x\<bar>" .
  moreover have "\<bar>(if x < 0 then - t else t) - x\<bar> = \<bar>t - \<bar>x\<bar>\<bar>" by (cases "x < 0") simp_all
  ultimately show ?thesis unfolding d t_def [symmetric] by simp
qed

section \<open>IMA ADPCM\<close>

text \<open>A value stored into a \<open>short\<close>, and into a plain \<open>char\<close> of either signedness.\<close>

definition to_short :: "int \<Rightarrow> int" where
  "to_short v = signed_take_bit 15 v"

definition to_char :: "bool \<Rightarrow> int \<Rightarrow> int" where
  "to_char signed_char v = (if signed_char then signed_take_bit 7 v else take_bit 8 v)"

definition IndexAdjust :: "bool \<Rightarrow> int list" where
  "IndexAdjust signed_char = map (to_char signed_char) [-1, -1, -1, -1, 2, 4, 6, 8]"

definition StepSize :: "int list" where
  "StepSize = [
     7, 8, 9, 10, 11, 12, 13, 14, 16, 17,
     19, 21, 23, 25, 28, 31, 34, 37, 41, 45,
     50, 55, 60, 66, 73, 80, 88, 97, 107, 118,
     130, 143, 157, 173, 190, 209, 230, 253, 279, 307,
     337, 371, 408, 449, 494, 544, 598, 658, 724, 796,
     876, 963, 1060, 1166, 1282, 1411, 1552, 1707, 1878, 2066,
     2272, 2499, 2749, 3024, 3327, 3660, 4026, 4428, 4871, 5358,
     5894, 6484, 7132, 7845, 8630, 9493, 10442, 11487, 12635, 13899,
     15289, 16818, 18500, 20350, 22385, 24623, 27086, 29794, 32767]"

record adpcm_state =
  pred_val :: int
  step_idx :: int

text \<open>The update that both directions share: the clamped prediction and the clamped index.\<close>

definition clamp_pred :: "int \<Rightarrow> int" where
  "clamp_pred v = (if v > 32767 then 32767 else if v < - 32768 then - 32768 else v)"

definition clamp_idx :: "int \<Rightarrow> int" where
  "clamp_idx i = (if i < 0 then 0 else if i > 88 then 88 else i)"

definition adpcm_update :: "bool \<Rightarrow> bool \<Rightarrow> nat \<Rightarrow> int \<Rightarrow> adpcm_state \<Rightarrow> adpcm_state" where
  "adpcm_update signed_char neg code pred_diff state =
     \<lparr>pred_val = clamp_pred (pred_val state + (if neg then - pred_diff else pred_diff)),
      step_idx = clamp_idx (step_idx state + IndexAdjust signed_char ! code)\<rparr>"

text \<open>The quantising loop: \<open>i\<close> runs over 4, 2, 1 while the step is halved.\<close>

fun quantise :: "nat list \<Rightarrow> int \<Rightarrow> int \<Rightarrow> int \<Rightarrow> nat \<Rightarrow> nat \<times> int" where
  "quantise [] step diff pred_diff adjust_idx = (adjust_idx, pred_diff)"
| "quantise (i # is) step diff pred_diff adjust_idx =
     (if diff \<ge> step
      then quantise is (drop_bit 1 step) (to_short (diff - step)) (to_short (pred_diff + step)) (adjust_idx OR i)
      else quantise is (drop_bit 1 step) diff pred_diff adjust_idx)"

fun reconstruct :: "nat list \<Rightarrow> nat \<Rightarrow> int \<Rightarrow> int \<Rightarrow> int" where
  "reconstruct [] code step pred_diff = pred_diff"
| "reconstruct (i # is) code step pred_diff =
     reconstruct is code (drop_bit 1 step)
       (if code AND i \<noteq> 0 then to_short (pred_diff + step) else pred_diff)"

definition adpcm_encoder :: "bool \<Rightarrow> int \<Rightarrow> adpcm_state \<Rightarrow> nat \<times> adpcm_state" where
  "adpcm_encoder signed_char sl state =
     (let diff = to_short (sl - pred_val state);
          neg = diff < 0;
          diff = (if neg then to_short (- diff) else diff);
          step = StepSize ! nat (step_idx state);
          (adjust_idx, pred_diff) = quantise [4, 2, 1] step diff (drop_bit 3 step) 0
      in ((if neg then 8 else 0) OR adjust_idx,
          adpcm_update signed_char neg adjust_idx pred_diff state))"

definition adpcm_decoder :: "bool \<Rightarrow> nat \<Rightarrow> adpcm_state \<Rightarrow> int \<times> adpcm_state" where
  "adpcm_decoder signed_char code state =
     (let neg = code AND 8 \<noteq> 0;
          code = code AND 7;
          step = StepSize ! nat (step_idx state);
          pred_diff = reconstruct [4, 2, 1] code step (drop_bit 3 step);
          state = adpcm_update signed_char neg code pred_diff state
      in (pred_val state, state))"

text \<open>A stream of samples, one after the other.\<close>

fun adpcm_encode :: "bool \<Rightarrow> int list \<Rightarrow> adpcm_state \<Rightarrow> nat list \<times> adpcm_state" where
  "adpcm_encode sc [] state = ([], state)"
| "adpcm_encode sc (x # xs) state =
     (case adpcm_encoder sc x state of (c, state) \<Rightarrow>
        case adpcm_encode sc xs state of (cs, state) \<Rightarrow> (c # cs, state))"

fun adpcm_decode :: "bool \<Rightarrow> nat list \<Rightarrow> adpcm_state \<Rightarrow> int list \<times> adpcm_state" where
  "adpcm_decode sc [] state = ([], state)"
| "adpcm_decode sc (c # cs) state =
     (case adpcm_decoder sc c state of (x, state) \<Rightarrow>
        case adpcm_decode sc cs state of (xs, state) \<Rightarrow> (x # xs, state))"

text \<open>
  The predictions the encoder makes; the decoder's output has to be these.
\<close>

fun adpcm_predictions :: "bool \<Rightarrow> int list \<Rightarrow> adpcm_state \<Rightarrow> int list" where
  "adpcm_predictions sc [] state = []"
| "adpcm_predictions sc (x # xs) state =
     (let state = snd (adpcm_encoder sc x state) in pred_val state # adpcm_predictions sc xs state)"

definition adpcm_ok :: "adpcm_state \<Rightarrow> bool" where
  "adpcm_ok state \<longleftrightarrow> - 32768 \<le> pred_val state \<and> pred_val state \<le> 32767 \<and>
     0 \<le> step_idx state \<and> step_idx state \<le> 88"

text \<open>The clamps keep the state in its ranges, so no table is read out of its bounds.\<close>

lemma adpcm_update_ok: "adpcm_ok (adpcm_update sc neg c d s)"
  by (simp add: adpcm_ok_def adpcm_update_def clamp_pred_def clamp_idx_def)

lemma adpcm_encoder_ok: "adpcm_ok (snd (adpcm_encoder sc x s))"
  by (simp add: adpcm_encoder_def Let_def adpcm_update_ok split: prod.split)

lemma adpcm_decoder_ok: "adpcm_ok (snd (adpcm_decoder sc c s))"
  by (simp add: adpcm_decoder_def Let_def adpcm_update_ok)

lemma StepSize_range:
  assumes "adpcm_ok s"
  shows "7 \<le> StepSize ! nat (step_idx s) \<and> StepSize ! nat (step_idx s) \<le> 32767 \<and>
     nat (step_idx s) < length StepSize"
proof -
  have "list_all (\<lambda>v. 7 \<le> v \<and> v \<le> 32767) StepSize" "length StepSize = 89" by code_simp+
  moreover have "nat (step_idx s) < 89" using assms by (auto simp: adpcm_ok_def)
  ultimately show ?thesis by (simp add: list_all_length)
qed

text \<open>
  The code the quantising loop builds makes the decoder's loop add the same steps: encoder
  and decoder stay in lockstep, whatever the signedness of \<open>char\<close>.
\<close>

lemma quantise_cases:
  "\<exists>a < 8. quantise [4, 2, 1] step diff d 0 = (a, reconstruct [4, 2, 1] a step d)"
proof -
  let ?p = "\<lambda>a. a < 8 \<and> quantise [4, 2, 1] step diff d 0 = (a, reconstruct [4, 2, 1] a step d)"
  have "?p 0 \<or> ?p 1 \<or> ?p 2 \<or> ?p 3 \<or> ?p 4 \<or> ?p 5 \<or> ?p 6 \<or> ?p 7"
    by auto
  then show ?thesis by blast
qed

lemma code_bits:
  assumes "a < 8"
  shows "((if neg then 8 else 0) OR a) AND 8 \<noteq> 0 \<longleftrightarrow> neg" "((if neg then 8 else 0) OR a) AND 7 = (a :: nat)"
proof -
  have "a \<in> {0, 1, 2, 3, 4, 5, 6, 7}" using assms by auto
  then show "((if neg then 8 else 0) OR a) AND 8 \<noteq> 0 \<longleftrightarrow> neg" "((if neg then 8 else 0) OR a) AND 7 = a"
    by (cases neg; auto)+
qed

lemma adpcm_step:
  "adpcm_decoder sc (fst (adpcm_encoder sc x s)) s =
     (pred_val (snd (adpcm_encoder sc x s)), snd (adpcm_encoder sc x s))"
  "fst (adpcm_encoder sc x s) < 16"
proof -
  define d where "d = to_short (x - pred_val s)"
  let ?st = "StepSize ! nat (step_idx s)"
  obtain a where a: "a < 8"
    "quantise [4, 2, 1] ?st (if d < 0 then to_short (- d) else d) (drop_bit 3 ?st) 0 =
       (a, reconstruct [4, 2, 1] a ?st (drop_bit 3 ?st))"
    using quantise_cases by blast
  have e: "adpcm_encoder sc x s = ((if d < 0 then 8 else 0) OR a,
      adpcm_update sc (d < 0) a (reconstruct [4, 2, 1] a ?st (drop_bit 3 ?st)) s)"
    by (simp only: adpcm_encoder_def Let_def d_def [symmetric] a(2) prod.case)
  show "adpcm_decoder sc (fst (adpcm_encoder sc x s)) s =
      (pred_val (snd (adpcm_encoder sc x s)), snd (adpcm_encoder sc x s))"
    unfolding e adpcm_decoder_def Let_def fst_conv snd_conv code_bits [OF a(1)] by simp
  have "a \<in> {0, 1, 2, 3, 4, 5, 6, 7}" using a(1) by auto
  then show "fst (adpcm_encoder sc x s) < 16" unfolding e by (cases "d < 0") auto
qed

lemma adpcm_stream:
  "adpcm_decode sc (fst (adpcm_encode sc xs s)) s = (adpcm_predictions sc xs s, snd (adpcm_encode sc xs s))"
proof (induction xs arbitrary: s)
  case (Cons x xs)
  show ?case
    using adpcm_step(1) [of sc x s] Cons.IH [of "snd (adpcm_encoder sc x s)"]
    by (cases "adpcm_encoder sc x s"; cases "adpcm_encode sc xs (snd (adpcm_encoder sc x s))")
       (simp add: Let_def)
qed simp

lemma adpcm_codes:
  "length (fst (adpcm_encode sc xs s)) = length xs \<and> set (fst (adpcm_encode sc xs s)) \<subseteq> {..<16} \<and>
   (adpcm_ok s \<longrightarrow> adpcm_ok (snd (adpcm_encode sc xs s)))"
proof (induction xs arbitrary: s)
  case (Cons x xs)
  show ?case
    using adpcm_step(2) [of sc x s] adpcm_encoder_ok [of sc x s] Cons.IH [of "snd (adpcm_encoder sc x s)"]
    by (cases "adpcm_encoder sc x s"; cases "adpcm_encode sc xs (snd (adpcm_encoder sc x s))") simp
qed simp

text \<open>How near the prediction gets, as long as no \<open>short\<close> overflows.\<close>

lemma to_short_id: "- 32768 \<le> v \<Longrightarrow> v \<le> 32767 \<Longrightarrow> to_short v = v"
  by (simp add: to_short_def signed_take_bit_int_eq_self)

lemma quantise_error:
  assumes "7 \<le> step" "0 \<le> diff" "diff < 2 * step" "diff + step div 8 \<le> 32767"
  shows "\<bar>diff - snd (quantise [4, 2, 1] step diff (drop_bit 3 step) 0)\<bar> \<le> step div 8 + 2"
proof -
  define s1 s2 s3 where "s1 = step div 2" and "s2 = s1 div 2" and "s3 = s2 div 2"
  have e: "drop_bit 1 step = s1" "drop_bit 1 s1 = s2" "drop_bit 3 step = s3" "step div 8 = s3"
    by (simp_all add: s1_def s2_def s3_def drop_bit_eq_div zdiv_zmult2_eq [symmetric])
  have r: "2 * s1 \<le> step" "step \<le> 2 * s1 + 1" "2 * s2 \<le> s1" "s1 \<le> 2 * s2 + 1" "2 * s3 \<le> s2" "s2 \<le> 2 * s3 + 1"
    unfolding s1_def s2_def s3_def by presburger+
  have b: "0 \<le> s3" "diff + s3 \<le> 32767" "diff < 2 * step" using assms r e by auto
  show ?thesis
    unfolding quantise.simps e(1,2,3,4)
    using assms(1,2) b r by (auto simp: to_short_id)
qed

lemma clamp_nearer: "- 32768 \<le> x \<Longrightarrow> x \<le> 32767 \<Longrightarrow> \<bar>x - clamp_pred v\<bar> \<le> \<bar>x - v\<bar>"
  by (auto simp: clamp_pred_def)

lemma signed_miss: "\<bar>\<bar>x - p\<bar> - e\<bar> \<le> k \<Longrightarrow> \<bar>x - (p + (if x - p < 0 then - e else e))\<bar> \<le> k" for x p e k :: int
  by (cases "x - p < 0") simp_all

lemma adpcm_tracks_step:
  assumes "adpcm_ok s" "- 32768 \<le> x" "x \<le> 32767"
  defines "step \<equiv> StepSize ! nat (step_idx s)"
  assumes "\<bar>x - pred_val s\<bar> < 2 * step" "\<bar>x - pred_val s\<bar> + step div 8 \<le> 32767"
  shows "\<bar>x - pred_val (snd (adpcm_encoder sc x s))\<bar> \<le> step div 8 + 2"
proof -
  let ?d = "x - pred_val s"
  have st: "7 \<le> step" using StepSize_range [OF assms(1)] by (simp add: step_def)
  have "\<bar>?d\<bar> \<le> 32767" using assms(6) st by (simp add: pos_imp_zdiv_nonneg_iff)
  then have d: "to_short ?d = ?d" "to_short (- ?d) = - ?d" by (auto intro!: to_short_id)
  obtain a pd where q: "quantise [4, 2, 1] step \<bar>?d\<bar> (drop_bit 3 step) 0 = (a, pd)" by (metis surj_pair)
  have "\<bar>\<bar>?d\<bar> - pd\<bar> \<le> step div 8 + 2"
    using quantise_error [OF st abs_ge_zero assms(5,6)] by (simp only: q snd_conv)
  then have "\<bar>x - (pred_val s + (if ?d < 0 then - pd else pd))\<bar> \<le> step div 8 + 2" by (rule signed_miss)
  moreover have "pred_val (snd (adpcm_encoder sc x s)) = clamp_pred (pred_val s + (if ?d < 0 then - pd else pd))"
  proof -
    have "(if ?d < 0 then to_short (- ?d) else ?d) = \<bar>?d\<bar>" using d(2) by (simp add: abs_if)
    then show ?thesis
      by (simp only: adpcm_encoder_def Let_def step_def [symmetric] d(1) q prod.case snd_conv adpcm_update_def adpcm_state.simps)
  qed
  ultimately show ?thesis using clamp_nearer [OF assms(2,3)] order_trans by metis
qed

text \<open>
  Three behaviours outside that range. Where plain \<open>char\<close> is unsigned, as on ARM, the entries
  of \<open>IndexAdjust\<close> that should lower the step by one raise it to the largest: the quiet
  passages of a signal are coded with the coarsest step. A jump of the input of more than
  32767 overflows \<open>diff\<close> and moves the prediction the wrong way, and so does a code of the
  decoder whose difference overflows \<open>pred_diff\<close>.
\<close>

lemma adpcm_unsigned_char:
  assumes "adpcm_ok s" "c < 4"
  shows "step_idx (snd (adpcm_decoder False c s)) = 88" "step_idx (snd (adpcm_decoder True c s)) = max 0 (step_idx s - 1)"
proof -
  have "c \<in> {0, 1, 2, 3}" using assms(2) by auto
  moreover have "IndexAdjust False = [255, 255, 255, 255, 2, 4, 6, 8]" "IndexAdjust True = [-1, -1, -1, -1, 2, 4, 6, 8]"
    by code_simp+
  ultimately show "step_idx (snd (adpcm_decoder False c s)) = 88"
    "step_idx (snd (adpcm_decoder True c s)) = max 0 (step_idx s - 1)"
    using assms(1) by (auto simp: adpcm_decoder_def adpcm_update_def clamp_idx_def adpcm_ok_def Let_def)
qed

lemma adpcm_diff_overflow:
  "pred_val (snd (adpcm_encoder True 32767 \<lparr>pred_val = - 32768, step_idx = 88\<rparr>)) = - 32768"
  by code_simp

lemma adpcm_pred_diff_overflow:
  "fst (adpcm_decoder True 7 \<lparr>pred_val = 0, step_idx = 88\<rparr>) = - 4100"
  by code_simp

section \<open>Properties\<close>

text \<open>
  C31 -- the companding codecs keep every code. Decoding a mu-law or A-law code and encoding the
  sample gives the code back; the one exception is \<open>0x7f\<close>, the negative zero of mu-law, which
  comes back as the positive zero.
\<close>

theorem companding_roundtrip:
  "s16_to_alaw (alaw_to_s16 c) = c \<and>
   s16_to_ulaw (ulaw_to_s16 c) = (if c = 0x7f then 0xff else c)"
proof -
  have "s16_to_ulaw (ulaw_to_s16 0x7f) = 0xff" by code_simp
  then show ?thesis using alaw_round ulaw_round by auto
qed

text \<open>
  C32 -- the companding error. For 16 bit samples the relative error is a 32nd: for A-law
  of the magnitude (or 8, in the linear part near zero), for mu-law of the magnitude with its bias of 132.
  Beyond 32635 mu-law clips to 32124, with the right sign.
\<close>

theorem companding_error:
  assumes "- 32768 \<le> x" "x \<le> 32767"
  shows "\<bar>alaw_to_s16 (s16_to_alaw x) - x\<bar> \<le> max 8 (\<bar>x\<bar> div 32) \<and>
    (if \<bar>x\<bar> \<le> 32635 then 32 * \<bar>ulaw_to_s16 (s16_to_ulaw x) - x\<bar> \<le> \<bar>x\<bar> + 132
     else ulaw_to_s16 (s16_to_ulaw x) = (if x < 0 then - 32124 else 32124))"
proof -
  have "32 * e \<le> y \<Longrightarrow> e \<le> y div 32" for e y :: int by presburger
  then show ?thesis using alaw_error [OF assms] ulaw_error [of x] ulaw_clips [of x] by (auto simp: le_max_iff_disj)
qed

lemma companding_error_witness:
  "\<bar>alaw_to_s16 (s16_to_alaw (- 1000)) + 1000\<bar> \<le> 31 \<and> 32 * \<bar>ulaw_to_s16 (s16_to_ulaw (- 1000)) + 1000\<bar> \<le> 1132"
  using companding_error [of "- 1000"] by simp

text \<open>
  C33 -- ADPCM encoder and decoder stay in lockstep. Decoding an encoded stream from the state
  the encoder started in gives exactly the encoder's predictions and ends in its final state;
  every code has four bits, and the state stays in its ranges, so the tables are never read
  out of bounds. This holds for either signedness of \<open>char\<close>.
\<close>

theorem adpcm_lockstep:
  assumes "adpcm_ok s"
  shows "adpcm_decode sc (fst (adpcm_encode sc xs s)) s = (adpcm_predictions sc xs s, snd (adpcm_encode sc xs s)) \<and>
   length (fst (adpcm_encode sc xs s)) = length xs \<and> set (fst (adpcm_encode sc xs s)) \<subseteq> {..<16} \<and>
   adpcm_ok (snd (adpcm_encode sc xs s))"
  using adpcm_stream adpcm_codes assms by simp

lemma adpcm_lockstep_witness:
  "adpcm_decode True (fst (adpcm_encode True [100, 250, - 30] \<lparr>pred_val = 0, step_idx = 0\<rparr>)) \<lparr>pred_val = 0, step_idx = 0\<rparr> =
     ([11, 41, - 22], snd (adpcm_encode True [100, 250, - 30] \<lparr>pred_val = 0, step_idx = 0\<rparr>))"
proof -
  have "adpcm_predictions True [100, 250, - 30] \<lparr>pred_val = 0, step_idx = 0\<rparr> = [11, 41, - 22]" by code_simp
  then show ?thesis
    using adpcm_lockstep [of "\<lparr>pred_val = 0, step_idx = 0\<rparr>" True "[100, 250, - 30]"] by (simp add: adpcm_ok_def)
qed

text \<open>
  C34 -- the prediction follows the signal. In a good state, for a sample that differs from the
  prediction by less than two steps, and by so little that no \<open>short\<close> overflows, the new
  prediction misses the sample by at most an eighth of the step and 2.
\<close>

theorem adpcm_tracks:
  assumes "adpcm_ok s" "- 32768 \<le> x" "x \<le> 32767"
    "\<bar>x - pred_val s\<bar> < 2 * StepSize ! nat (step_idx s)"
    "\<bar>x - pred_val s\<bar> + StepSize ! nat (step_idx s) div 8 \<le> 32767"
  shows "\<bar>x - pred_val (snd (adpcm_encoder sc x s))\<bar> \<le> StepSize ! nat (step_idx s) div 8 + 2"
  by (rule adpcm_tracks_step [OF assms])

lemma adpcm_tracks_witness:
  "\<bar>1500 - pred_val (snd (adpcm_encoder True 1500 \<lparr>pred_val = 0, step_idx = 50\<rparr>))\<bar> \<le> 111"
  using adpcm_tracks [of "\<lparr>pred_val = 0, step_idx = 50\<rparr>" 1500 True]
  by (simp add: adpcm_ok_def StepSize_def)

end
