(* ===== verification/PcmAreas.thy ===== *)
theory PcmAreas
  imports PcmFormat
begin

text \<open>
  Areas of samples, \<open>snd_pcm_area_silence\<close>, \<open>snd_pcm_areas_silence\<close>, \<open>snd_pcm_area_copy\<close> and
  \<open>snd_pcm_areas_copy\<close> of \<open>libasound/src/pcm/pcm.c\<close>. An area says where the samples of one channel
  lie: an address, the bit of the first sample and the distance of samples in bits. The memory is a
  function from addresses to bytes; address 0 is \<open>NULL\<close>. Frames and offsets are \<open>unsigned long\<close> of the
  32 bit target, and so is the bit offset, which wraps. The areas of a call are given as lists with
  one element for each channel. What a copy does is proved in the theory after this one.
\<close>

type_synonym pcm_mem = "nat \<Rightarrow> u8"

text \<open>A return value, 0 or \<open>-EINVAL\<close>, with the memory afterwards; or a failed assertion.\<close>

type_synonym pcm_result = "(int \<times> pcm_mem) cres"

record snd_pcm_channel_area_t =
  addr :: nat
  first :: u32
  step :: u32

section \<open>Addresses and memory\<close>

definition snd_pcm_channel_area_addr :: "snd_pcm_channel_area_t \<Rightarrow> u32 \<Rightarrow> nat cres" where
  "snd_pcm_channel_area_addr area offset =
     (let bitofs = first area + step area * offset
      in asserting (unat bitofs mod 8 = 0) (Inr (addr area + unat bitofs div 8)))"

definition put :: "nat \<Rightarrow> u8 list \<Rightarrow> pcm_mem \<Rightarrow> pcm_mem" where
  "put a bs m = (\<lambda>x. if a \<le> x \<and> x < a + length bs then bs ! (x - a) else m x)"

definition get :: "nat \<Rightarrow> nat \<Rightarrow> pcm_mem \<Rightarrow> u8 list" where
  "get a k m = map m [a..<a + k]"

definition mem_copy :: "nat \<Rightarrow> nat \<Rightarrow> nat \<Rightarrow> pcm_mem \<Rightarrow> pcm_mem" where
  "mem_copy dst src n m = put dst (get src n m) m"

section \<open>Silence\<close>

fun put_dwords :: "nat \<Rightarrow> nat \<Rightarrow> u64 \<Rightarrow> pcm_mem \<Rightarrow> pcm_mem" where
  "put_dwords 0 dst silence m = m"
| "put_dwords (Suc n) dst silence m = put_dwords n (dst + 8) silence (put dst (le_bytes 8 silence) m)"

fun put_samples :: "u8 list \<Rightarrow> nat \<Rightarrow> nat \<Rightarrow> nat \<Rightarrow> pcm_mem \<Rightarrow> pcm_mem" where
  "put_samples bs 0 dst dst_step m = m"
| "put_samples bs (Suc n) dst dst_step m = put_samples bs n (dst + dst_step) dst_step (put dst bs m)"

text \<open>
  Samples of four bits, two in a byte; \<open>dstbit\<close> is 0 for the upper one. After a sample the pointer and
  the bit are advanced.
\<close>

definition next_nibble :: "nat \<Rightarrow> nat \<Rightarrow> nat \<Rightarrow> nat \<Rightarrow> nat \<times> nat" where
  "next_nibble p b p_step b_step =
     (if b + b_step = 8 then (p + p_step + 1, 0) else (p + p_step, b + b_step))"

fun put_nibbles :: "u8 \<Rightarrow> u8 \<Rightarrow> nat \<Rightarrow> nat \<Rightarrow> nat \<Rightarrow> nat \<Rightarrow> nat \<Rightarrow> pcm_mem \<Rightarrow> pcm_mem" where
  "put_nibbles s0 s1 0 dst dst_step dstbit dstbit_step m = m"
| "put_nibbles s0 s1 (Suc n) dst dst_step dstbit dstbit_step m =
     (let m = m(dst := (if dstbit \<noteq> 0 then (m dst AND 0xf0) OR s1 else (m dst AND 0x0f) OR s0));
          (dst, dstbit) = next_nibble dst dstbit dst_step dstbit_step
      in put_nibbles s0 s1 n dst dst_step dstbit dstbit_step m)"

text \<open>The width as an \<open>int\<close>: for a format that has none it is the error code, \<open>-EINVAL\<close>.\<close>

definition width_of :: "snd_pcm_format \<Rightarrow> int" where
  "width_of format = (case snd_pcm_format_physical_width format of Inl e \<Rightarrow> - 22 | Inr w \<Rightarrow> int w)"

text \<open>
  The first loop writes whole double words through a pointer of its own; the samples that are left are
  written from \<open>dst\<close>, which has not moved. Samples of 24 bits have no loop.
\<close>

definition snd_pcm_area_silence ::
    "snd_pcm_channel_area_t \<Rightarrow> u32 \<Rightarrow> u32 \<Rightarrow> snd_pcm_format \<Rightarrow> pcm_mem \<Rightarrow> pcm_result" where
  "snd_pcm_area_silence dst_area dst_offset samples format m =
     (if addr dst_area = 0 then Inr (0, m)
      else
        cbind (snd_pcm_channel_area_addr dst_area dst_offset) (\<lambda>dst.
        cbind (snd_pcm_format_silence_64 format) (\<lambda>silence.
          let width = width_of format;
              contiguous = (step dst_area = of_int width);
              dwords = samples * of_int width div 64;
              m = (if contiguous then put_dwords (unat dwords) dst silence m else m);
              samples = (if contiguous then samples - dwords * 64 div of_int width else samples);
              dst_step = unat (step dst_area) div 8
          in if contiguous \<and> samples = 0 then Inr (0, m)
             else if width = 4 then
               Inr (0, put_nibbles (ucast silence AND 0xf0) (ucast silence AND 0x0f) (unat samples) dst dst_step
                      (unat (first dst_area) mod 8) (unat (step dst_area) mod 8) m)
             else if width = 24 then Inr (0, put dst (le_bytes 3 silence) m)
             else if width \<in> {8, 16, 32, 64} then
               Inr (0, put_samples (le_bytes (nat width div 8) silence) (unat samples) dst dst_step m)
             else Inr (- 22, m))))"

text \<open>How many channels from the first on lie side by side.\<close>

fun adjacent :: "u32 \<Rightarrow> snd_pcm_channel_area_t \<Rightarrow> snd_pcm_channel_area_t list \<Rightarrow> nat" where
  "adjacent width a [] = 1"
| "adjacent width a (b # as) =
     (if addr b \<noteq> addr a \<or> step b \<noteq> step a \<or> first b \<noteq> first a + width then 1
      else 1 + adjacent width b as)"

lemma adjacent_pos [simp]: "adjacent w a as > 0"
  by (cases as) auto

function silence_loop ::
    "u32 \<Rightarrow> snd_pcm_channel_area_t list \<Rightarrow> u32 \<Rightarrow> u32 \<Rightarrow> snd_pcm_format \<Rightarrow> pcm_mem \<Rightarrow> pcm_result" where
  "silence_loop width [] dst_offset frames format m = Inr (0, m)"
| "silence_loop width (a # as) dst_offset frames format m =
     (let chns = adjacent width a as in
      if chns > 1 \<and> of_nat chns * width = step a
      then cbind (snd_pcm_area_silence (a\<lparr>step := width\<rparr>) (dst_offset * of_nat chns)
                    (frames * of_nat chns) format m) (\<lambda>(err, m).
             if err < 0 then Inr (err, m)
             else silence_loop width (drop chns (a # as)) dst_offset frames format m)
      else cbind (snd_pcm_area_silence a dst_offset frames format m) (\<lambda>(err, m).
             if err < 0 then Inr (err, m)
             else silence_loop width as dst_offset frames format m))"
  by pat_completeness auto
termination by (relation "measure (\<lambda>(w, as, _). length as)") auto

definition snd_pcm_areas_silence ::
    "snd_pcm_channel_area_t list \<Rightarrow> u32 \<Rightarrow> u32 \<Rightarrow> snd_pcm_format \<Rightarrow> pcm_mem \<Rightarrow> pcm_result" where
  "snd_pcm_areas_silence dst_areas dst_offset frames format =
     silence_loop (of_int (width_of format)) dst_areas dst_offset frames format"

section \<open>Copying\<close>

text \<open>
  The loops over samples. A sample of 2, 4 or 8 bytes is read as a whole, one of 3 bytes byte by
  byte. The nibble of a sample of four bits stays in the half of the byte it was in.
\<close>

fun copy_samples :: "nat \<Rightarrow> nat \<Rightarrow> nat \<Rightarrow> nat \<Rightarrow> nat \<Rightarrow> nat \<Rightarrow> pcm_mem \<Rightarrow> pcm_mem" where
  "copy_samples k 0 dst dst_step src src_step m = m"
| "copy_samples k (Suc n) dst dst_step src src_step m =
     copy_samples k n (dst + dst_step) dst_step (src + src_step) src_step (put dst (get src k m) m)"

fun copy_samples3 :: "nat \<Rightarrow> nat \<Rightarrow> nat \<Rightarrow> nat \<Rightarrow> nat \<Rightarrow> pcm_mem \<Rightarrow> pcm_mem" where
  "copy_samples3 0 dst dst_step src src_step m = m"
| "copy_samples3 (Suc n) dst dst_step src src_step m =
     (let m = m(dst := m src); m = m(dst + 1 := m (src + 1)); m = m(dst + 2 := m (src + 2))
      in copy_samples3 n (dst + dst_step) dst_step (src + src_step) src_step m)"

fun copy_nibbles ::
    "nat \<Rightarrow> nat \<Rightarrow> nat \<Rightarrow> nat \<Rightarrow> nat \<Rightarrow> nat \<Rightarrow> nat \<Rightarrow> nat \<Rightarrow> nat \<Rightarrow> pcm_mem \<Rightarrow> pcm_mem" where
  "copy_nibbles 0 dst dst_step dstbit dstbit_step src src_step srcbit srcbit_step m = m"
| "copy_nibbles (Suc n) dst dst_step dstbit dstbit_step src src_step srcbit srcbit_step m =
     (let srcval = m src AND (if srcbit \<noteq> 0 then 0x0f else 0xf0);
          m = m(dst := (m dst AND (if dstbit \<noteq> 0 then 0xf0 else 0x0f)) OR srcval);
          (src, srcbit) = next_nibble src srcbit src_step srcbit_step;
          (dst, dstbit) = next_nibble dst dstbit dst_step dstbit_step
      in copy_nibbles n dst dst_step dstbit dstbit_step src src_step srcbit srcbit_step m)"

text \<open>
  The code compares the pointers to the two areas; \<open>same\<close> tells whether they are equal, as they are when
  a caller moves samples within one area.
\<close>

definition snd_pcm_area_copy ::
    "bool \<Rightarrow> snd_pcm_channel_area_t \<Rightarrow> u32 \<Rightarrow> snd_pcm_channel_area_t \<Rightarrow> u32 \<Rightarrow> u32 \<Rightarrow> snd_pcm_format \<Rightarrow>
      pcm_mem \<Rightarrow> pcm_result" where
  "snd_pcm_area_copy same dst_area dst_offset src_area src_offset samples format m =
     (if same \<and> dst_offset = src_offset then Inr (0, m)
      else if addr src_area = 0 then snd_pcm_area_silence dst_area dst_offset samples format m
      else
        cbind (snd_pcm_channel_area_addr src_area src_offset) (\<lambda>src.
        if addr dst_area = 0 then Inr (0, m)
        else
        cbind (snd_pcm_channel_area_addr dst_area dst_offset) (\<lambda>dst.
          let width = width_of format;
              contiguous = (step src_area = of_int width \<and> step dst_area = of_int width);
              bytes = samples * of_int width div 8;
              m = (if contiguous then mem_copy dst src (unat bytes) m else m);
              samples = (if contiguous then samples - bytes * 8 div of_int width else samples);
              src_step = unat (step src_area) div 8;
              dst_step = unat (step dst_area) div 8
          in if contiguous \<and> samples = 0 then Inr (0, m)
             else if width = 4 then
               Inr (0, copy_nibbles (unat samples)
                      dst dst_step (unat (first dst_area) mod 8) (unat (step dst_area) mod 8)
                      src src_step (unat (first src_area) mod 8) (unat (step src_area) mod 8) m)
             else if width = 24 then Inr (0, copy_samples3 (unat samples) dst dst_step src src_step m)
             else if width \<in> {8, 16, 32, 64} then
               Inr (0, copy_samples (nat width div 8) (unat samples) dst dst_step src src_step m)
             else Inr (- 22, m))))"

text \<open>
  How many pairs of channels lie side by side in both lists, at most as far as the step of the
  destination is that of the source.
\<close>

fun adjacent2 ::
    "u32 \<Rightarrow> snd_pcm_channel_area_t \<times> snd_pcm_channel_area_t \<Rightarrow>
      (snd_pcm_channel_area_t \<times> snd_pcm_channel_area_t) list \<Rightarrow> nat" where
  "adjacent2 width (d, s) [] = (if step d = step s then 1 else 0)"
| "adjacent2 width (d, s) ((d', s') # ps) =
     (if step d \<noteq> step s then 0
      else if step s' \<noteq> step s \<or> addr s' \<noteq> addr s \<or> addr d' \<noteq> addr d \<or>
              first s' \<noteq> first s + width \<or> first d' \<noteq> first d + width then 1
      else 1 + adjacent2 width (d', s') ps)"

text \<open>
  The result of \<open>snd_pcm_area_copy\<close> is ignored. Both pointers advance by the same number of areas, so
  they stay equal or different all along; the collapsed areas are two local variables.
\<close>

function copy_loop ::
    "bool \<Rightarrow> u32 \<Rightarrow> (snd_pcm_channel_area_t \<times> snd_pcm_channel_area_t) list \<Rightarrow> u32 \<Rightarrow> u32 \<Rightarrow> u32 \<Rightarrow>
      snd_pcm_format \<Rightarrow> pcm_mem \<Rightarrow> pcm_result" where
  "copy_loop same width [] dst_offset src_offset frames format m = Inr (0, m)"
| "copy_loop same width ((d, s) # ps) dst_offset src_offset frames format m =
     (let chns = adjacent2 width (d, s) ps in
      if chns > 1 \<and> of_nat chns * width = step s
      then cbind (snd_pcm_area_copy False (d\<lparr>step := width\<rparr>) (dst_offset * of_nat chns)
                    (s\<lparr>step := width\<rparr>) (src_offset * of_nat chns) (frames * of_nat chns) format m)
             (\<lambda>(_, m). copy_loop same width (drop chns ((d, s) # ps)) dst_offset src_offset frames format m)
      else cbind (snd_pcm_area_copy same d dst_offset s src_offset frames format m)
             (\<lambda>(_, m). copy_loop same width ps dst_offset src_offset frames format m))"
  by pat_completeness auto
termination by (relation "measure (\<lambda>(same, w, ps, _). length ps)") auto

text \<open>
  \<open>channels\<close> is the length of the lists of areas, and \<open>same\<close> tells whether the two pointers are equal.
\<close>

definition snd_pcm_areas_copy ::
    "bool \<Rightarrow> snd_pcm_channel_area_t list \<Rightarrow> u32 \<Rightarrow> snd_pcm_channel_area_t list \<Rightarrow> u32 \<Rightarrow> u32 \<Rightarrow>
      snd_pcm_format \<Rightarrow> pcm_mem \<Rightarrow> pcm_result" where
  "snd_pcm_areas_copy same dst_areas dst_offset src_areas src_offset frames format m =
     (if dst_areas = [] \<or> frames = 0 then Inr (- 22, m)
      else copy_loop same (of_int (width_of format)) (zip dst_areas src_areas) dst_offset src_offset frames format m)"

section \<open>Areas of a buffer\<close>

definition snd_pcm_areas_from_buf :: "nat \<Rightarrow> u32 \<Rightarrow> u32 \<Rightarrow> nat \<Rightarrow> snd_pcm_channel_area_t list" where
  "snd_pcm_areas_from_buf channels sample_bits frame_bits buf =
     map (\<lambda>channel. \<lparr>addr = buf, first = of_nat channel * sample_bits, step = frame_bits\<rparr>) [0..<channels]"

definition snd_pcm_areas_from_bufs :: "u32 \<Rightarrow> nat list \<Rightarrow> snd_pcm_channel_area_t list" where
  "snd_pcm_areas_from_bufs sample_bits bufs =
     map (\<lambda>buf. \<lparr>addr = buf, first = 0, step = sample_bits\<rparr>) bufs"

end
