(* ===== verification/PcmCopy.thy ===== *)
theory PcmCopy
  imports PcmAreas
begin

text \<open>
  What copying areas of samples does. \<open>copied\<close> relates the memory before and after: the bytes of each
  destination sample are those its source had, and nothing else has changed. Copying adjacent channels
  at once, by \<open>memcpy\<close> or by larger steps, comes to the same as copying each sample of each channel.
\<close>

section \<open>Copying a set of samples\<close>

abbreviation extent :: "nat \<Rightarrow> nat \<Rightarrow> nat set" where
  "extent k a \<equiv> {a..<a + k}"

definition copied :: "nat \<Rightarrow> (nat \<times> nat) set \<Rightarrow> pcm_mem \<Rightarrow> pcm_mem \<Rightarrow> bool" where
  "copied k S m m' =
     ((\<forall>d s j. (d, s) \<in> S \<longrightarrow> j < k \<longrightarrow> m' (d + j) = m (s + j)) \<and>
      (\<forall>x. (\<forall>d s. (d, s) \<in> S \<longrightarrow> x \<notin> extent k d) \<longrightarrow> m' x = m x))"

text \<open>No destination meets a source, or another destination.\<close>

definition separate :: "nat \<Rightarrow> (nat \<times> nat) set \<Rightarrow> bool" where
  "separate k S =
     (\<forall>d s d' s'. (d, s) \<in> S \<longrightarrow> (d', s') \<in> S \<longrightarrow>
        extent k d \<inter> extent k s' = {} \<and> (d = d' \<and> s = s' \<or> extent k d \<inter> extent k d' = {}))"

lemma separate_mono: "separate k S \<Longrightarrow> T \<subseteq> S \<Longrightarrow> separate k T"
  unfolding separate_def by (meson subsetD)

lemma copiedI:
  "(\<And>d s j. (d, s) \<in> S \<Longrightarrow> j < k \<Longrightarrow> m' (d + j) = m (s + j)) \<Longrightarrow>
    (\<And>x. (\<And>d s. (d, s) \<in> S \<Longrightarrow> x \<notin> extent k d) \<Longrightarrow> m' x = m x) \<Longrightarrow> copied k S m m'"
  unfolding copied_def by blast

lemma copied_in: "copied k S m m' \<Longrightarrow> (d, s) \<in> S \<Longrightarrow> j < k \<Longrightarrow> m' (d + j) = m (s + j)"
  unfolding copied_def by blast

lemma copied_out: "copied k S m m' \<Longrightarrow> (\<And>d s. (d, s) \<in> S \<Longrightarrow> x \<notin> extent k d) \<Longrightarrow> m' x = m x"
  unfolding copied_def by blast

lemma separate_src: "separate k S \<Longrightarrow> (d, s) \<in> S \<Longrightarrow> (d', s') \<in> S \<Longrightarrow> x \<in> extent k d \<Longrightarrow> x \<notin> extent k s'"
  unfolding separate_def by blast

lemma separate_dst:
  "separate k S \<Longrightarrow> (d, s) \<in> S \<Longrightarrow> (d', s') \<in> S \<Longrightarrow> x \<in> extent k d \<Longrightarrow> x \<in> extent k d' \<Longrightarrow> d = d' \<and> s = s'"
  unfolding separate_def by blast

lemma copied_empty [simp]: "copied k {} m m"
  by (simp add: copied_def)

lemma copied_one: "copied k {(d, s)} m (put d (get s k m) m)"
  by (auto simp: copied_def put_def get_def)

lemma copied_union:
  assumes S: "copied k S m m1" and T: "copied k T m1 m2" and sep: "separate k (S \<union> T)"
  shows "copied k (S \<union> T) m m2"
proof (rule copiedI)
  fix d s j assume ds: "(d, s) \<in> S \<union> T" and j: "j < k"
  show "m2 (d + j) = m (s + j)"
  proof (cases "(d, s) \<in> T")
    case True
    have "m1 (s + j) = m (s + j)"
      using separate_src [OF sep _ ds, where x = "s + j"] j by (intro copied_out [OF S]) auto
    then show ?thesis using copied_in [OF T True j] by simp
  next
    case False
    have "m2 (d + j) = m1 (d + j)"
      using separate_dst [OF sep ds, where x = "d + j"] j False by (intro copied_out [OF T]) force
    then show ?thesis using copied_in [OF S _ j] ds False by auto
  qed
next
  fix x assume x: "\<And>d s. (d, s) \<in> S \<union> T \<Longrightarrow> x \<notin> extent k d"
  have "m2 x = m1 x" by (rule copied_out [OF T]) (use x in blast)
  also have "\<dots> = m x" by (rule copied_out [OF S]) (use x in blast)
  finally show "m2 x = m x" .
qed

text \<open>Samples at equal distances.\<close>

abbreviation strided :: "nat \<Rightarrow> nat \<Rightarrow> nat \<Rightarrow> nat \<Rightarrow> nat \<Rightarrow> (nat \<times> nat) set" where
  "strided dst dst_step src src_step n \<equiv> (\<lambda>i. (dst + dst_step * i, src + src_step * i)) ` {..<n}"

lemma strided_Suc:
  "strided dst dst_step src src_step (Suc n) =
     insert (dst, src) (strided (dst + dst_step) dst_step (src + src_step) src_step n)"
  by (simp add: lessThan_Suc_eq_insert_0 image_image algebra_simps)

lemma copy_samples_copied:
  "separate k (strided dst dst_step src src_step n) \<Longrightarrow>
    copied k (strided dst dst_step src src_step n) m (copy_samples k n dst dst_step src src_step m)"
proof (induction n arbitrary: dst src m)
  case (Suc n)
  let ?S = "strided (dst + dst_step) dst_step (src + src_step) src_step n"
  have "copied k ?S (put dst (get src k m) m) (copy_samples k (Suc n) dst dst_step src src_step m)"
    using Suc.IH separate_mono [OF Suc.prems, of ?S] by (simp add: strided_Suc subset_insertI)
  from copied_union [OF copied_one this] show ?case
    using Suc.prems by (simp add: strided_Suc)
qed simp

lemma put3: "extent 3 d \<inter> extent 3 s = {} \<Longrightarrow>
    (let m = m(d := m s); m = m(d + 1 := m (s + 1)); m = m(d + 2 := m (s + 2)) in m) = put d (get s 3 m) m"
  by (auto simp: put_def get_def fun_eq_iff Let_def upt_rec nth_Cons' numeral_3_eq_3 numeral_2_eq_2)

lemma copy_samples3_eq:
  "separate 3 (strided dst dst_step src src_step n) \<Longrightarrow>
    copy_samples3 n dst dst_step src src_step m = copy_samples 3 n dst dst_step src src_step m"
proof (induction n arbitrary: dst src m)
  case (Suc n)
  have "extent 3 dst \<inter> extent 3 src = {}"
    using Suc.prems unfolding strided_Suc separate_def by blast
  from put3 [OF this, of m] have "copy_samples3 (Suc n) dst dst_step src src_step m =
      copy_samples3 n (dst + dst_step) dst_step (src + src_step) src_step (put dst (get src 3 m) m)"
    by (simp only: copy_samples3.simps Let_def)
  then show ?case
    using Suc.IH separate_mono [OF Suc.prems] by (simp add: strided_Suc subset_insertI)
qed simp

lemma mem_copy_copied:
  assumes "k > 0"
  shows "copied k (strided dst k src k n) m (mem_copy dst src (k * n) m)"
proof (rule copiedI)
  fix d s j assume "(d, s) \<in> strided dst k src k n" and j: "j < k"
  then obtain i where i: "i < n" "d = dst + k * i" "s = src + k * i" by auto
  have "k * i + j < k * Suc i" using j by simp
  also have "\<dots> \<le> k * n" using i(1) by (intro mult_le_mono2) simp
  finally show "mem_copy dst src (k * n) m (d + j) = m (s + j)"
    using i(2,3) by (simp add: mem_copy_def put_def get_def add.assoc)
next
  fix x assume x: "\<And>d s. (d, s) \<in> strided dst k src k n \<Longrightarrow> x \<notin> extent k d"
  have False if a: "dst \<le> x" "x < dst + k * n"
  proof -
    let ?i = "(x - dst) div k"
    have "x \<in> extent k (dst + k * ?i)"
      using a(1) mod_less_divisor [OF assms, of "x - dst"] mult_div_mod_eq [of k "x - dst"]
      unfolding atLeastLessThan_iff by linarith
    moreover have "?i < n" using a by (simp add: less_mult_imp_div_less mult.commute)
    ultimately show False using x [of "dst + k * ?i" "src + k * ?i"] by auto
  qed
  then show "mem_copy dst src (k * n) m x = m x" by (auto simp: mem_copy_def put_def get_def)
qed

section \<open>One area\<close>

text \<open>Where a sample lies, and areas whose samples are whole bytes and do not leave the address range.\<close>

definition pos :: "snd_pcm_channel_area_t \<Rightarrow> nat \<Rightarrow> nat" where
  "pos a i = addr a + (unat (first a) + unat (step a) * i) div 8"

definition area_ok :: "nat \<Rightarrow> snd_pcm_channel_area_t \<Rightarrow> bool" where
  "area_ok n a =
     (addr a \<noteq> 0 \<and> unat (first a) mod 8 = 0 \<and> unat (step a) mod 8 = 0 \<and>
      unat (first a) + unat (step a) * n < 2 ^ 32)"

lemma area_bitofs:
  assumes "area_ok n a" "unat off \<le> n"
  shows "unat (first a + step a * off) = unat (first a) + unat (step a) * unat off"
proof -
  have "unat (step a) * unat off \<le> unat (step a) * n" using assms(2) by (rule mult_le_mono2)
  then have "unat (first a) + unat (step a) * unat off < 2 ^ 32"
    using assms(1) unfolding area_ok_def by linarith
  then show ?thesis by (simp add: unat_word_ariths)
qed

lemma area_addr:
  assumes "area_ok n a" "unat off \<le> n"
  shows "snd_pcm_channel_area_addr a off = Inr (pos a (unat off))"
proof -
  have "(unat (first a) + unat (step a) * unat off) mod 8 = 0"
    using assms(1) by (simp add: area_ok_def mod_add_eq [symmetric] mod_mult_left_eq [symmetric])
  then show ?thesis by (simp add: snd_pcm_channel_area_addr_def area_bitofs [OF assms] Let_def pos_def)
qed

lemma pos_step:
  assumes "area_ok n a" shows "pos a (o1 + i) = pos a o1 + unat (step a) div 8 * i"
proof -
  obtain f s where fs: "unat (first a) = 8 * f" "unat (step a) = 8 * s"
    using assms unfolding area_ok_def by (metis dvd_def dvd_eq_mod_eq_0)
  have "(8 * f + 8 * s * i) div 8 = f + s * i" for i
    by (metis distrib_left mult.assoc nonzero_mult_div_cancel_left zero_neq_numeral)
  then show ?thesis unfolding pos_def fs by (simp add: distrib_left)
qed

text \<open>The formats whose samples are whole bytes.\<close>

definition byte_format :: "snd_pcm_format \<Rightarrow> nat \<Rightarrow> bool" where
  "byte_format format k = (k \<in> {1, 2, 3, 4, 8} \<and> width_of format = 8 * int k)"

text \<open>The samples \<open>o1\<close> to \<open>o1 + n - 1\<close> of one area and those from \<open>o2\<close> of another.\<close>

definition sample_pairs ::
    "nat \<Rightarrow> nat \<Rightarrow> nat \<Rightarrow> snd_pcm_channel_area_t \<times> snd_pcm_channel_area_t \<Rightarrow> (nat \<times> nat) set" where
  "sample_pairs o1 o2 n p = (\<lambda>i. (pos (fst p) (o1 + i), pos (snd p) (o2 + i))) ` {..<n}"

lemma sample_pairs_strided:
  assumes "area_ok n1 d" "area_ok n2 s"
  shows "sample_pairs o1 o2 n (d, s) =
    strided (pos d o1) (unat (step d) div 8) (pos s o2) (unat (step s) div 8) n"
  by (simp add: sample_pairs_def pos_step [OF assms(1)] pos_step [OF assms(2)])

lemma area_copy_copied:
  assumes fmt: "byte_format format k" and same: "same \<longrightarrow> s = d"
    and d: "area_ok (unat o1 + unat n) d" and s: "area_ok (unat o2 + unat n) s"
    and sep: "separate k (sample_pairs (unat o1) (unat o2) (unat n) (d, s))"
  shows "\<exists>m'. snd_pcm_area_copy same d o1 s o2 n format m = Inr (0, m') \<and>
    copied k (sample_pairs (unat o1) (unat o2) (unat n) (d, s)) m m'"
proof (cases "same \<and> o1 = o2")
  case True
  have k: "k > 0" using fmt by (auto simp: byte_format_def)
  have "n = 0"
  proof (rule ccontr)
    assume "n \<noteq> 0"
    then have "(pos d (unat o1), pos s (unat o2)) \<in> sample_pairs (unat o1) (unat o2) (unat n) (d, s)"
      by (auto simp: sample_pairs_def image_iff unat_gt_0 intro!: bexI [of _ 0])
    from separate_src [OF sep this this, of "pos d (unat o1)"] show False using True same k by auto
  qed
  then show ?thesis using True by (auto simp: snd_pcm_area_copy_def sample_pairs_def)
next
  case False
  let ?S = "sample_pairs (unat o1) (unat o2) (unat n) (d, s)"
  let ?ds = "unat (step d) div 8" and ?ss = "unat (step s) div 8"
  note S = sample_pairs_strided [OF d s, of "unat o1" "unat o2" "unat n"]
  have k: "k > 0" "k \<in> {1, 2, 3, 4, 8}" "width_of format = 8 * int k" using fmt by (auto simp: byte_format_def)
  have a: "snd_pcm_channel_area_addr d o1 = Inr (pos d (unat o1))"
    "snd_pcm_channel_area_addr s o2 = Inr (pos s (unat o2))" "addr d \<noteq> 0" "addr s \<noteq> 0"
    using area_addr [OF d, of o1] area_addr [OF s, of o2] d s by (simp_all add: area_ok_def)
  show ?thesis
  proof (cases "step s = of_int (width_of format) \<and> step d = of_int (width_of format)")
    case True
    have w: "unat (step s) = 8 * k" "unat (step d) = 8 * k" using True k(2,3) by auto
    have "8 * k * unat n < 2 ^ 32" using s w(1) by (simp add: area_ok_def algebra_simps)
    then have b: "unat (n * of_int (width_of format)) = 8 * (k * unat n)"
      using w(1) True by (simp add: unat_word_ariths mult.commute)
    have bytes: "unat (n * of_int (width_of format) div 8) = k * unat n" by (simp add: unat_div b)
    have "n * of_int (width_of format) div 8 * 8 div of_int (width_of format) = n"
    proof (rule word_unat_eq_iff [THEN iffD2])
      have "unat (n * of_int (width_of format) div 8 * 8) = 8 * (k * unat n)"
        using \<open>8 * k * unat n < 2 ^ 32\<close> bytes by (simp add: unat_word_ariths mult.commute mult.left_commute)
      then show "unat (n * of_int (width_of format) div 8 * 8 div of_int (width_of format)) = unat n"
        using w(1) True k(1) by (simp add: unat_div)
    qed
    then have "snd_pcm_area_copy same d o1 s o2 n format m = Inr (0, mem_copy (pos d (unat o1)) (pos s (unat o2)) (k * unat n) m)"
      using False a True bytes by (auto simp: snd_pcm_area_copy_def Let_def)
    moreover have "copied k ?S m (mem_copy (pos d (unat o1)) (pos s (unat o2)) (k * unat n) m)"
      unfolding S using mem_copy_copied [OF k(1)] w by simp
    ultimately show ?thesis by blast
  next
    case noncontiguous: False
    have nc: "(step s = of_int (width_of format) \<and> step d = of_int (width_of format)) = False"
      "(same \<and> o1 = o2) = False"
      using noncontiguous False by auto
    have c: "copied k ?S m (copy_samples k (unat n) (pos d (unat o1)) ?ds (pos s (unat o2)) ?ss m)"
      using copy_samples_copied sep unfolding S by blast
    have "snd_pcm_area_copy same d o1 s o2 n format m =
        Inr (0, if k = 3 then copy_samples3 (unat n) (pos d (unat o1)) ?ds (pos s (unat o2)) ?ss m
                else copy_samples k (unat n) (pos d (unat o1)) ?ds (pos s (unat o2)) ?ss m)"
      unfolding snd_pcm_area_copy_def Let_def nc using k(2)
      by (elim insertE emptyE) (simp_all only: a cbind_simps False k(3), simp_all)
    then show ?thesis using c copy_samples3_eq [of "pos d (unat o1)" ?ds "pos s (unat o2)" ?ss "unat n" m] sep
      unfolding S by (cases "k = 3") auto
  qed
qed

section \<open>Adjacent channels\<close>

lemma adjacent2_spec:
  "i < adjacent2 w p ps \<Longrightarrow>
    i < length (p # ps) \<and> step (fst ((p # ps) ! i)) = step (snd p) \<and> step (snd ((p # ps) ! i)) = step (snd p) \<and>
    addr (fst ((p # ps) ! i)) = addr (fst p) \<and> addr (snd ((p # ps) ! i)) = addr (snd p) \<and>
    first (fst ((p # ps) ! i)) = first (fst p) + of_nat i * w \<and>
    first (snd ((p # ps) ! i)) = first (snd p) + of_nat i * w"
proof (induction w p ps arbitrary: i rule: adjacent2.induct)
  case (2 w d s d' s' ps)
  show ?case
  proof (cases i)
    case (Suc j)
    then have c: "step d = step s" "step s' = step s" "addr s' = addr s" "addr d' = addr d"
      "first s' = first s + w" "first d' = first d + w" "j < adjacent2 w (d', s') ps"
      using 2(2) by (auto split: if_splits)
    have "i < length ((d, s) # (d', s') # ps) \<and> ((d, s) # (d', s') # ps) ! i = ((d', s') # ps) ! j"
      using 2(1) c Suc by auto
    then show ?thesis using 2(1) [of j] c Suc by (auto simp: algebra_simps)
  qed (use 2 in \<open>auto split: if_splits\<close>)
qed (auto split: if_splits)

lemma adjacent2_length: "adjacent2 w p ps \<le> length (p # ps)"
  using adjacent2_spec [of "adjacent2 w p ps - 1" w p ps] by (cases "adjacent2 w p ps = 0") auto

text \<open>
  The samples of \<open>c\<close> channels side by side are those of one area with the width of a sample as its
  step.
\<close>

lemma merged_pos:
  assumes a: "area_ok N a" and b: "addr b = addr a" "step b = step a" "first b = first a + of_nat j * w"
    and w: "unat (step a) = c * unat w" and "j < c" "0 < N" "i < N"
  shows "pos (a\<lparr>step := w\<rparr>) (i * c + j) = pos b i"
proof -
  have "unat (first a) + c * unat w * N < 2 ^ 32" using a w by (simp add: area_ok_def)
  moreover have "j * unat w \<le> c * unat w * N"
    using \<open>j < c\<close> \<open>0 < N\<close> by (metis less_imp_le mult_le_mono mult_1_right nat_mult_1_right Suc_leI One_nat_def mult_le_mono1)
  ultimately have f: "unat (first a) + j * unat w < 2 ^ 32" by linarith
  then have "unat (of_nat j * w) = j * unat w"
    by (simp add: unat_word_ariths unsigned_of_nat take_bit_nat_def mod_mult_left_eq)
  then have "unat (first b) = unat (first a) + j * unat w" using f b(3) by (simp add: unat_word_ariths)
  moreover have "unat (first a) + unat w * (i * c + j) = unat (first a) + j * unat w + c * unat w * i"
    by (simp add: algebra_simps)
  ultimately show ?thesis using b(1,2) w by (simp add: pos_def)
qed

lemma merged_ok: "area_ok N a \<Longrightarrow> unat (step a) = c * unat w \<Longrightarrow> unat w mod 8 = 0 \<Longrightarrow> area_ok (N * c) (a\<lparr>step := w\<rparr>)"
  by (simp add: area_ok_def mult.commute mult.left_commute)

lemma times_image: "(\<lambda>(i, j). i * c + j) ` ({..<n} \<times> {..<c}) = {..<n * (c :: nat)}"
proof (intro set_eqI iffI)
  fix x assume "x \<in> {..<n * c}"
  then have "x div c < n" "x mod c < c" "x = x div c * c + x mod c"
    by (cases "c = 0"; simp add: less_mult_imp_div_less)+
  then show "x \<in> (\<lambda>(i, j). i * c + j) ` ({..<n} \<times> {..<c})" by (metis (no_types, lifting) SigmaI case_prod_conv imageI lessThan_iff)
next
  fix x assume "x \<in> (\<lambda>(i, j). i * c + j) ` ({..<n} \<times> {..<c})"
  then obtain i j where "i < n" "j < c" "x = i * c + j" by auto
  moreover have "i * c + j < Suc i * c" using \<open>j < c\<close> by simp
  moreover have "Suc i * c \<le> n * c" using \<open>i < n\<close> by (intro mult_le_mono1) simp
  ultimately show "x \<in> {..<n * c}" by simp
qed

lemma merged_pairs:
  assumes d: "area_ok (o1 + n) d" and s: "area_ok (o2 + n) s" and n: "0 < n"
    and ps: "p = (d, s)" and c: "c = adjacent2 w p ps" and w: "unat (step s) = c * unat w"
  shows "sample_pairs (o1 * c) (o2 * c) (n * c) (d\<lparr>step := w\<rparr>, s\<lparr>step := w\<rparr>) =
    (\<Union>q \<in> set (take c (p # ps)). sample_pairs o1 o2 n q)"
proof -
  let ?f = "\<lambda>x. (pos (d\<lparr>step := w\<rparr>) (o1 * c + x), pos (s\<lparr>step := w\<rparr>) (o2 * c + x))"
  let ?q = "\<lambda>j. (p # ps) ! j"
  have len: "length (take c (p # ps)) = c" using adjacent2_length [of w p ps] c by simp
  have q: "?f (i * c + j) = (pos (fst (?q j)) (o1 + i), pos (snd (?q j)) (o2 + i))"
    if "i < n" "j < c" for i j
  proof -
    note A = adjacent2_spec [of j w p ps, folded c, OF that(2)]
    have e: "o1 * c + (i * c + j) = (o1 + i) * c + j" "o2 * c + (i * c + j) = (o2 + i) * c + j"
      by (simp_all add: algebra_simps)
    have "step d = step s" using adjacent2_spec [of 0 w p ps, folded c] that(2) ps by simp
    then have "pos (d\<lparr>step := w\<rparr>) ((o1 + i) * c + j) = pos (fst (?q j)) (o1 + i)"
      using A ps w that n by (intro merged_pos [OF d]) auto
    moreover have "pos (s\<lparr>step := w\<rparr>) ((o2 + i) * c + j) = pos (snd (?q j)) (o2 + i)"
      using A ps w that n by (intro merged_pos [OF s]) auto
    ultimately show ?thesis unfolding e by simp
  qed
  have "sample_pairs (o1 * c) (o2 * c) (n * c) (d\<lparr>step := w\<rparr>, s\<lparr>step := w\<rparr>) =
      ?f ` (\<lambda>(i, j). i * c + j) ` ({..<n} \<times> {..<c})"
    unfolding times_image by (simp add: sample_pairs_def)
  also have "\<dots> = (\<Union>j < c. sample_pairs o1 o2 n (?q j))"
    using q by (force simp: sample_pairs_def image_iff)
  also have "\<dots> = (\<Union>q \<in> set (take c (p # ps)). sample_pairs o1 o2 n q)"
    using len by (fastforce simp: set_conv_nth)
  finally show ?thesis .
qed

lemma merged_copied:
  assumes fmt: "byte_format format k" and d: "area_ok (unat o1 + unat n) d" and s: "area_ok (unat o2 + unat n) s"
    and n: "0 < unat n" and c: "c = adjacent2 w (d, s) ps" and w: "w = of_int (width_of format)"
    and adj: "of_nat c * w = step s" "c > 0" "length ((d, s) # ps) * (8 * k) < 2 ^ 32"
    and sep: "separate k (\<Union>q \<in> set ((d, s) # ps). sample_pairs (unat o1) (unat o2) (unat n) q)"
  shows "\<exists>m'. snd_pcm_area_copy False (d\<lparr>step := w\<rparr>) (o1 * of_nat c) (s\<lparr>step := w\<rparr>) (o2 * of_nat c)
      (n * of_nat c) format m = Inr (0, m') \<and>
    copied k (\<Union>q \<in> set (take c ((d, s) # ps)). sample_pairs (unat o1) (unat o2) (unat n) q) m m'"
proof -
  have k: "k > 0" "unat w = 8 * k" using fmt w by (auto simp: byte_format_def)
  have "c \<le> length ((d, s) # ps)" using adjacent2_length [of w "(d, s)" ps] c by simp
  then have "c * (8 * k) < 2 ^ 32" using adj(3) by (meson le_less_trans mult_le_mono1)
  then have "unat (of_nat c * w) = c * unat w"
    using k by (simp add: unat_word_ariths unsigned_of_nat take_bit_nat_def mod_mult_left_eq)
  then have st: "unat (step s) = c * unat w" using adj(1) by simp
  have sd: "step d = step s" using adjacent2_spec [of 0 w "(d, s)" ps] c adj(2) by simp
  have fits: "unat (x * of_nat c) = unat x * c" if "unat x \<le> N" "area_ok N a" "unat (step a) = c * unat w" for x :: u32 and N a
  proof -
    have "unat x * c \<le> N * c" using that(1) by (rule mult_le_mono1)
    also have "\<dots> \<le> c * unat w * N" using k by (simp add: mult.commute mult.left_commute)
    also have "\<dots> < 2 ^ 32" using that(2) unfolding area_ok_def that(3) [symmetric] by linarith
    finally have "unat x * c < 2 ^ 32" .
    then show ?thesis by (simp add: unat_word_ariths unsigned_of_nat take_bit_nat_def mod_mult_right_eq)
  qed
  have u: "unat (o1 * of_nat c) = unat o1 * c" "unat (o2 * of_nat c) = unat o2 * c" "unat (n * of_nat c) = unat n * c"
    using fits [OF _ d] fits [OF _ s] d s st sd by (metis le_add1 le_add2)+
  note M = merged_pairs [OF d s n refl c st]
  have "area_ok (unat (o1 * of_nat c) + unat (n * of_nat c)) (d\<lparr>step := w\<rparr>)"
    "area_ok (unat (o2 * of_nat c) + unat (n * of_nat c)) (s\<lparr>step := w\<rparr>)"
    using merged_ok [OF d, of c w] merged_ok [OF s, of c w] st sd k(2) unfolding u by (simp_all add: distrib_right)
  moreover have "separate k (sample_pairs (unat (o1 * of_nat c)) (unat (o2 * of_nat c)) (unat (n * of_nat c))
      (d\<lparr>step := w\<rparr>, s\<lparr>step := w\<rparr>))"
    unfolding u M by (rule separate_mono [OF sep]) (use set_take_subset in fast)
  ultimately have "\<exists>m'. snd_pcm_area_copy False (d\<lparr>step := w\<rparr>) (o1 * of_nat c) (s\<lparr>step := w\<rparr>) (o2 * of_nat c)
      (n * of_nat c) format m = Inr (0, m') \<and>
    copied k (sample_pairs (unat (o1 * of_nat c)) (unat (o2 * of_nat c)) (unat (n * of_nat c))
      (d\<lparr>step := w\<rparr>, s\<lparr>step := w\<rparr>)) m m'"
    by (intro area_copy_copied [OF fmt]) simp_all
  then show ?thesis unfolding u M .
qed

lemma copy_loop_copied:
  assumes fmt: "byte_format format k" and n: "0 < unat n"
  shows "list_all (\<lambda>p. area_ok (unat o1 + unat n) (fst p) \<and> area_ok (unat o2 + unat n) (snd p) \<and> (same \<longrightarrow> snd p = fst p)) ps \<Longrightarrow>
    length ps * (8 * k) < 2 ^ 32 \<Longrightarrow>
    separate k (\<Union>q \<in> set ps. sample_pairs (unat o1) (unat o2) (unat n) q) \<Longrightarrow>
    \<exists>m'. copy_loop same (of_int (width_of format)) ps o1 o2 n format m = Inr (0, m') \<and>
      copied k (\<Union>q \<in> set ps. sample_pairs (unat o1) (unat o2) (unat n) q) m m'"
proof (induction "length ps" arbitrary: ps m rule: less_induct)
  case less
  let ?w = "of_int (width_of format) :: u32"
  let ?S = "\<lambda>ps. \<Union>q \<in> set ps. sample_pairs (unat o1) (unat o2) (unat n) q"
  show ?case
  proof (cases ps)
    case (Cons p qs)
    obtain d s where p: "p = (d, s)" by (cases p)
    let ?c = "adjacent2 ?w (d, s) qs"
    have ok: "area_ok (unat o1 + unat n) d" "area_ok (unat o2 + unat n) s" "same \<longrightarrow> s = d"
      using less(2) Cons p by auto
    have rest: "\<exists>m'. copy_loop same ?w rs o1 o2 n format m = Inr (0, m') \<and> copied k (?S rs) m m'"
      if rs: "rs = drop (Suc j) ps" for rs j m
    proof (rule less(1))
      show "length rs < length ps" using rs Cons by simp
      show "list_all (\<lambda>p. area_ok (unat o1 + unat n) (fst p) \<and> area_ok (unat o2 + unat n) (snd p) \<and> (same \<longrightarrow> snd p = fst p)) rs"
        using less(2) set_drop_subset unfolding rs list_all_iff by fast
      have "length rs \<le> length ps" using rs by simp
      then show "length rs * (8 * k) < 2 ^ 32" using less(3) by (meson le_less_trans mult_le_mono1)
      show "separate k (?S rs)" by (rule separate_mono [OF less(4)]) (use rs set_drop_subset in fast)
    qed
    have step: "\<exists>m'. cbind (r m) (\<lambda>(_, m). copy_loop same ?w rs o1 o2 n format m) = Inr (0, m') \<and> copied k (?S ps) m m'"
      if r: "\<exists>m1. r m = Inr (0, m1) \<and> copied k T m m1" "rs = drop (Suc j) ps" "T \<union> ?S rs = ?S ps" for r T rs j
    proof -
      obtain m1 where m1: "r m = Inr (0, m1)" "copied k T m m1" using r(1) by blast
      obtain m2 where m2: "copy_loop same ?w rs o1 o2 n format m1 = Inr (0, m2)" "copied k (?S rs) m1 m2"
        using rest [OF r(2)] by blast
      show ?thesis using copied_union [OF m1(2) m2(2)] less(4) r(3) m1(1) m2(1) by simp
    qed
    show ?thesis
    proof (cases "?c > 1 \<and> of_nat ?c * ?w = step s")
      case True
      then obtain j where j: "?c = Suc j" by (cases ?c) auto
      have "set ps = set (take ?c ps) \<union> set (drop ?c ps)" by (metis append_take_drop_id set_append)
      then have "?S (take ?c ps) \<union> ?S (drop ?c ps) = ?S ps" by (metis UN_Un)
      moreover have "\<exists>m1. snd_pcm_area_copy False (d\<lparr>step := ?w\<rparr>) (o1 * of_nat ?c) (s\<lparr>step := ?w\<rparr>) (o2 * of_nat ?c)
          (n * of_nat ?c) format m = Inr (0, m1) \<and> copied k (?S (take ?c ps)) m m1"
        using merged_copied [OF fmt ok(1,2) n refl refl] True less(3,4) Cons p by auto
      moreover have "copy_loop same ?w ps o1 o2 n format m =
          cbind (snd_pcm_area_copy False (d\<lparr>step := ?w\<rparr>) (o1 * of_nat ?c) (s\<lparr>step := ?w\<rparr>) (o2 * of_nat ?c)
            (n * of_nat ?c) format m) (\<lambda>(_, m). copy_loop same ?w (drop ?c ps) o1 o2 n format m)"
        using True Cons p by (simp add: Let_def)
      ultimately show ?thesis
        using step [of "snd_pcm_area_copy False (d\<lparr>step := ?w\<rparr>) (o1 * of_nat ?c) (s\<lparr>step := ?w\<rparr>) (o2 * of_nat ?c)
            (n * of_nat ?c) format" "?S (take ?c ps)" "drop ?c ps" j] j by metis
    next
      case False
      have "separate k (sample_pairs (unat o1) (unat o2) (unat n) (d, s))"
        by (rule separate_mono [OF less(4)]) (use Cons p in auto)
      then have "\<exists>m1. snd_pcm_area_copy same d o1 s o2 n format m = Inr (0, m1) \<and>
          copied k (sample_pairs (unat o1) (unat o2) (unat n) (d, s)) m m1"
        using area_copy_copied [OF fmt ok(3,1,2)] by blast
      moreover have "copy_loop same ?w ps o1 o2 n format m =
          cbind (snd_pcm_area_copy same d o1 s o2 n format m) (\<lambda>(_, m). copy_loop same ?w qs o1 o2 n format m)"
        using False Cons p by (auto simp: Let_def)
      moreover have "qs = drop (Suc 0) ps" "sample_pairs (unat o1) (unat o2) (unat n) (d, s) \<union> ?S qs = ?S ps"
        using Cons p by auto
      ultimately show ?thesis
        using step [of "snd_pcm_area_copy same d o1 s o2 n format" "sample_pairs (unat o1) (unat o2) (unat n) (d, s)" qs 0]
        by metis
    qed
  qed simp
qed

section \<open>All channels\<close>

text \<open>What a copy of \<open>frames\<close> frames means: each sample of each channel, one by one.\<close>

definition channel_samples ::
    "snd_pcm_channel_area_t list \<Rightarrow> nat \<Rightarrow> snd_pcm_channel_area_t list \<Rightarrow> nat \<Rightarrow> nat \<Rightarrow> (nat \<times> nat) set" where
  "channel_samples ds o1 ss o2 n =
     {(pos (ds ! c) (o1 + i), pos (ss ! c) (o2 + i)) | c i. c < length ds \<and> i < n}"

lemma channel_samples_pairs:
  assumes "length ss = length ds"
  shows "channel_samples ds o1 ss o2 n = (\<Union>q \<in> set (zip ds ss). sample_pairs o1 o2 n q)"
  using assms by (force simp: channel_samples_def sample_pairs_def set_zip)

definition areas_ok :: "nat \<Rightarrow> nat \<Rightarrow> snd_pcm_channel_area_t list \<Rightarrow> bool" where
  "areas_ok k n as = (list_all (area_ok n) as \<and> length as * (8 * k) < 2 ^ 32)"

lemma areas_copied:
  assumes "byte_format format k" "ds \<noteq> []" "length ss = length ds" "frames \<noteq> 0"
    and "same \<longrightarrow> ss = ds"
    and "areas_ok k (unat o1 + unat frames) ds" "areas_ok k (unat o2 + unat frames) ss"
    and "separate k (channel_samples ds (unat o1) ss (unat o2) (unat frames))"
  shows "\<exists>m'. snd_pcm_areas_copy same ds o1 ss o2 frames format m = Inr (0, m') \<and>
    copied k (channel_samples ds (unat o1) ss (unat o2) (unat frames)) m m'"
proof -
  have "list_all (\<lambda>p. area_ok (unat o1 + unat frames) (fst p) \<and> area_ok (unat o2 + unat frames) (snd p) \<and>
      (same \<longrightarrow> snd p = fst p)) (zip ds ss)"
    using assms(3,5,6,7) by (auto simp: areas_ok_def list_all_length)
  moreover have "length (zip ds ss) * (8 * k) < 2 ^ 32" using assms(3,6) by (simp add: areas_ok_def)
  moreover have "unat frames > 0" using assms(4) by (simp add: unat_gt_0)
  ultimately show ?thesis
    using copy_loop_copied [OF assms(1), of frames o1 o2 same "zip ds ss" m] assms(2,4,8)
    unfolding channel_samples_pairs [OF assms(3)] by (simp add: snd_pcm_areas_copy_def)
qed

text \<open>
  C7 -- Copying the channels of a block of frames from one set of areas to another does what copying
  each sample of each channel would do, and changes no other byte: whether the areas are interleaved,
  apart or neither, whether adjacent channels are copied as one area and whether an area is copied by
  \<open>memcpy\<close> or sample by sample. The samples are whole bytes, the areas lie within the range of the bit
  offset, and destinations meet neither sources nor each other. The two pointers may be equal (\<open>same\<close>),
  when both lists are then the same.
\<close>

theorem areas_copy_is_samplewise:
  assumes "byte_format format k" "ds \<noteq> []" "length ss = length ds" "frames \<noteq> 0"
    and "same \<longrightarrow> ss = ds"
    and "areas_ok k (unat o1 + unat frames) ds" "areas_ok k (unat o2 + unat frames) ss"
    and "separate k (channel_samples ds (unat o1) ss (unat o2) (unat frames))"
  shows "\<exists>m'. snd_pcm_areas_copy same ds o1 ss o2 frames format m = Inr (0, m') \<and>
    copied k (channel_samples ds (unat o1) ss (unat o2) (unat frames)) m m'"
  by (rule areas_copied [OF assms])

section \<open>Interleaved buffers\<close>

lemma unat_u32: "n < 2 ^ 32 \<Longrightarrow> unat (of_nat n :: u32) = n"
  by (rule unat_of_nat_fits) simp

lemma interleaved_first:
  assumes "c < channels" "channels * (8 * k) < 2 ^ 32"
  shows "unat (of_nat c * of_nat (8 * k) :: u32) = c * (8 * k)"
proof -
  have "c * (8 * k) \<le> channels * (8 * k)" using assms(1) by (intro mult_le_mono1) simp
  then have "c * (8 * k) < 2 ^ 32" using assms(2) by linarith
  then show ?thesis unfolding of_nat_mult [symmetric] by (rule unat_u32)
qed

lemma interleaved_pos:
  assumes "c < channels" "channels * (8 * k) < 2 ^ 32"
  shows "pos (snd_pcm_areas_from_buf channels (of_nat (8 * k)) (of_nat (channels * (8 * k))) buf ! c) i =
    buf + k * (i * channels + c)"
proof -
  have "c * (8 * k) + channels * (8 * k) * i = 8 * (k * (i * channels + c))"
    by (simp add: algebra_simps)
  then show ?thesis
    using assms(1) interleaved_first [OF assms] unat_u32 [OF assms(2)]
    by (simp add: snd_pcm_areas_from_buf_def pos_def del: of_nat_mult)
qed

lemma interleaved_ok:
  assumes "buf \<noteq> 0" "(n + 1) * (channels * (8 * k)) < 2 ^ 32"
  shows "areas_ok k n (snd_pcm_areas_from_buf channels (of_nat (8 * k)) (of_nat (channels * (8 * k))) buf)"
proof -
  have s: "channels * (8 * k) < 2 ^ 32" using assms(2) by (simp only: add_mult_distrib)
  have "c * (8 * k) + channels * (8 * k) * n < 2 ^ 32" if c: "c < channels" for c
  proof -
    have "c * (8 * k) \<le> channels * (8 * k)" using c by (intro mult_le_mono1) simp
    then have "c * (8 * k) + channels * (8 * k) * n \<le> (n + 1) * (channels * (8 * k))"
      by (simp add: algebra_simps)
    then show ?thesis using assms(2) by linarith
  qed
  then show ?thesis using assms(1) s interleaved_first [OF _ s] unat_u32 [OF s]
    unfolding areas_ok_def area_ok_def snd_pcm_areas_from_buf_def list_all_iff
    by (simp del: of_nat_mult)
qed

text \<open>The samples of interleaved buffers follow each other without gaps.\<close>

lemma interleaved_samples:
  fixes buf1 buf2 :: nat
  assumes "channels * (8 * k) < 2 ^ 32"
  defines "areas \<equiv> snd_pcm_areas_from_buf channels (of_nat (8 * k)) (of_nat (channels * (8 * k)))"
  shows "channel_samples (areas buf1) o1 (areas buf2) o2 n =
    strided (buf1 + k * (o1 * channels)) k (buf2 + k * (o2 * channels)) k (n * channels)"
proof -
  let ?f = "\<lambda>x. (buf1 + k * (o1 * channels) + k * x, buf2 + k * (o2 * channels) + k * x)"
  have "length (areas buf1) = channels" by (simp add: areas_def snd_pcm_areas_from_buf_def)
  then have "channel_samples (areas buf1) o1 (areas buf2) o2 n =
      {(buf1 + k * ((o1 + i) * channels + c), buf2 + k * ((o2 + i) * channels + c)) | c i. c < channels \<and> i < n}"
    unfolding channel_samples_def areas_def interleaved_pos [OF _ assms(1)]
    by (intro Collect_cong ex_cong1) (auto simp: interleaved_pos [OF _ assms(1)] simp del: of_nat_mult of_nat_numeral)
  also have "\<dots> = ?f ` (\<lambda>(i, c). i * channels + c) ` ({..<n} \<times> {..<channels})"
    by (force simp: image_iff algebra_simps)
  finally show ?thesis unfolding times_image .
qed

lemma separate_strided:
  assumes k: "k > 0" and apart: "dst + k * n \<le> src \<or> src + k * n \<le> dst"
  shows "separate k (strided dst k src k n)"
proof -
  have e: "k * i + k \<le> k * n" if "i < n" for i
    using that by (metis Suc_leI add.commute mult_Suc_right mult_le_mono2)
  have d: "k * i + k \<le> k * j \<or> k * j + k \<le> k * i \<or> i = j" for i j
    by (metis Suc_leI add.commute linorder_neqE_nat mult_Suc_right mult_le_mono2)
  show ?thesis unfolding separate_def
  proof (intro allI impI conjI)
    fix d s d' s'
    assume S: "(d, s) \<in> strided dst k src k n" "(d', s') \<in> strided dst k src k n"
    then obtain i j where i: "i < n" "d = dst + k * i" "s = src + k * i"
      and j: "j < n" "d' = dst + k * j" "s' = src + k * j" by auto
    show "extent k d \<inter> extent k s' = {}" using e [OF i(1)] e [OF j(1)] apart i(2) j(3) by auto
    show "d = d' \<and> s = s' \<or> extent k d \<inter> extent k d' = {}" using d [of i j] i(2,3) j(2,3) by auto
  qed
qed

lemma copied_unique: "copied k S m m1 \<Longrightarrow> copied k S m m2 \<Longrightarrow> m1 = m2"
  unfolding copied_def fun_eq_iff by (metis add_diff_inverse_nat atLeastLessThan_iff linorder_not_less nat_add_left_cancel_less)

lemma areas_copy_is_samplewise_witness:
  "\<forall>m. snd_pcm_areas_copy False (snd_pcm_areas_from_buf 2 16 32 1000) 1
     (snd_pcm_areas_from_buf 2 16 32 2000) 0 3 S16_LE m = Inr (0, mem_copy 1004 2000 12 m)"
proof (rule allI)
  fix m
  let ?D = "snd_pcm_areas_from_buf 2 16 32 1000" and ?S = "snd_pcm_areas_from_buf 2 16 32 2000"
  have S: "channel_samples ?D 1 ?S 0 3 = strided 1004 2 2000 2 6"
    using interleaved_samples [of 2 2 1000 1 2000 0 3] by simp
  have "areas_ok 2 4 ?D" "areas_ok 2 3 ?S"
    using interleaved_ok [of 1000 4 2 2] interleaved_ok [of 2000 3 2 2] by simp_all
  moreover have "separate 2 (channel_samples ?D 1 ?S 0 3)" unfolding S by (rule separate_strided) auto
  moreover have "byte_format S16_LE 2"
    by (simp add: byte_format_def width_of_def snd_pcm_format_physical_width_def)
  moreover have "?D \<noteq> []" "length ?S = length ?D" by (simp_all add: snd_pcm_areas_from_buf_def)
  ultimately obtain m' where "snd_pcm_areas_copy False ?D 1 ?S 0 3 S16_LE m = Inr (0, m')"
      "copied 2 (channel_samples ?D 1 ?S 0 3) m m'"
    using areas_copy_is_samplewise [of S16_LE 2 ?D ?S 3 False 1 0 m] by auto
  then show "snd_pcm_areas_copy False ?D 1 ?S 0 3 S16_LE m = Inr (0, mem_copy 1004 2000 12 m)"
    using copied_unique [OF _ mem_copy_copied [of 2 1004 2000 6 m]] unfolding S by simp
qed

section \<open>What silencing and copying leave out\<close>

text \<open>
  Silencing ten adjacent samples of one byte leaves the last two as they were: after the first
  double word \<open>dst\<close> still points to the first sample, and the rest is written there.
\<close>

lemma silence_leaves_tail:
  "map_sum id (\<lambda>(e, m). (e, map m [1000..<1010]))
      (snd_pcm_area_silence \<lparr>addr = 1000, first = 0, step = 8\<rparr> 0 10 U8 (\<lambda>_. 1)) =
    Inr (0, [128, 128, 128, 128, 128, 128, 128, 128, 1, 1])"
  by code_simp

text \<open>Of the samples of three bytes only the first is silenced, even when no sample is asked for.\<close>

lemma silence_writes_one_sample:
  "map_sum id (\<lambda>(e, m). (e, map m [1000..<1006]))
      (snd_pcm_area_silence \<lparr>addr = 1000, first = 0, step = 48\<rparr> 0 n S24_3LE (\<lambda>_. 1)) =
    Inr (0, [0, 0, 0, 1, 1, 1])"
  by (simp add: snd_pcm_area_silence_def snd_pcm_channel_area_addr_def width_of_def put_def upt_rec
      snd_pcm_format_physical_width_def snd_pcm_format_silence_64_def le_bytes_def)

text \<open>
  A channel of four bit samples in the lower half of each byte can be neither silenced nor copied,
  although the loops have a case for it: the address of its samples is not that of a byte.
\<close>

lemma nibble_channel_aborts:
  "snd_pcm_area_silence \<lparr>addr = 1000, first = 4, step = 8\<rparr> n samples IMA_ADPCM m = Inl ABORT"
proof -
  have "(4 + 8 * unat n) mod 4294967296 mod 8 = (4 + 8 * unat n) mod 8" by (intro mod_mod_cancel) simp
  then have "unat (4 + 8 * n) mod 8 = 4" by (simp add: unat_word_ariths mod_add_right_eq)
  then show ?thesis by (simp add: snd_pcm_area_silence_def snd_pcm_channel_area_addr_def)
qed

end
