(* ===== verification/PcmRing.thy ===== *)
theory PcmRing
  imports PcmCopy
begin

text \<open>
  The ring buffer of a stream: \<open>libasound/src/pcm/pcm_mmap.c\<close>, the functions of \<open>pcm_local.h\<close> and
  \<open>pcm.c\<close> that read and move the two pointers, begin and commit an access, and transfer frames
  between the ring and areas of the application. Frame counts are \<open>unsigned long\<close> of the 32 bit
  target, results are \<open>signed\<close> and negative for an error. \<open>CHECK_SANITY\<close> is not evaluated in the
  configuration of the repository, while \<open>assert\<close> is: \<open>local.h\<close> includes \<open>assert.h\<close> before
  \<open>config.h\<close> defines \<open>NDEBUG\<close>. What a device does is a record of operations on the stream.
\<close>

datatype snd_pcm_state_t =
  OPEN | SETUP | PREPARED | RUNNING | XRUN | DRAINING | PAUSED | SUSPENDED | DISCONNECTED | STATE_OTHER int

datatype snd_pcm_stream_t = PLAYBACK | CAPTURE

datatype snd_pcm_access_t =
  MMAP_INTERLEAVED | MMAP_NONINTERLEAVED | MMAP_COMPLEX | RW_INTERLEAVED | RW_NONINTERLEAVED

abbreviation "EINTR \<equiv> 4 :: int"
abbreviation "EIO \<equiv> 5 :: int"
abbreviation "EAGAIN \<equiv> 11 :: int"
abbreviation "ENODEV \<equiv> 19 :: int"
abbreviation "EPIPE \<equiv> 32 :: int"
abbreviation "EBADFD \<equiv> 77 :: int"
abbreviation "ESTRPIPE \<equiv> 86 :: int"

text \<open>The stream, with the two pointers behind \<open>appl.ptr\<close> and \<open>hw.ptr\<close> and the memory of the process.\<close>

record 'd pcm =
  stream :: snd_pcm_stream_t
  is_setup :: bool
  nonblock :: bool
  access :: snd_pcm_access_t
  format :: snd_pcm_format
  channels :: nat
  sample_bits :: u32
  frame_bits :: u32
  buffer_size :: u32
  boundary :: u32
  avail_min :: u32
  start_threshold :: u32
  stop_threshold :: u32
  running_areas :: "snd_pcm_channel_area_t list option"
  stopped_areas :: "snd_pcm_channel_area_t list option"
  appl_ptr :: u32
  hw_ptr :: u32
  memory :: pcm_mem
  private_data :: 'd

type_synonym 'd pcm_op = "'d pcm \<Rightarrow> (int \<times> 'd pcm) cres"

text \<open>
  \<open>wait_nocheck\<close> stands for \<open>snd_pcm_wait_nocheck\<close>, which calls \<open>poll\<close> on the descriptors of the
  device.
\<close>

record 'd fast_ops =
  op_state :: "'d pcm \<Rightarrow> snd_pcm_state_t \<times> 'd pcm"
  op_hwsync :: "'d pcm_op"
  op_prepare :: "'d pcm_op"
  op_reset :: "'d pcm_op"
  op_start :: "'d pcm_op"
  op_drop :: "'d pcm_op"
  op_drain :: "'d pcm_op"
  op_pause :: "bool \<Rightarrow> 'd pcm_op"
  op_resume :: "'d pcm_op"
  op_rewind :: "u32 \<Rightarrow> 'd pcm_op"
  op_forward :: "u32 \<Rightarrow> 'd pcm_op"
  op_avail_update :: "'d pcm_op"
  op_mmap_commit :: "u32 \<Rightarrow> u32 \<Rightarrow> 'd pcm_op"
  wait_nocheck :: "'d pcm_op"

definition CHECK_SANITY :: "bool \<Rightarrow> bool" where
  "CHECK_SANITY x = False"

section \<open>The pointers\<close>

definition snd_pcm_mmap_playback_avail :: "'d pcm \<Rightarrow> u32" where
  "snd_pcm_mmap_playback_avail p =
     (let avail = hw_ptr p + buffer_size p - appl_ptr p
      in if sint avail < 0 then avail + boundary p
         else if avail \<ge> boundary p then avail - boundary p else avail)"

definition snd_pcm_mmap_capture_avail :: "'d pcm \<Rightarrow> u32" where
  "snd_pcm_mmap_capture_avail p =
     (let avail = hw_ptr p - appl_ptr p in if sint avail < 0 then avail + boundary p else avail)"

definition snd_pcm_mmap_avail :: "'d pcm \<Rightarrow> u32" where
  "snd_pcm_mmap_avail p =
     (if stream p = PLAYBACK then snd_pcm_mmap_playback_avail p else snd_pcm_mmap_capture_avail p)"

definition snd_pcm_mmap_playback_hw_avail :: "'d pcm \<Rightarrow> int" where
  "snd_pcm_mmap_playback_hw_avail p = sint (buffer_size p - snd_pcm_mmap_playback_avail p)"

definition snd_pcm_mmap_capture_hw_avail :: "'d pcm \<Rightarrow> int" where
  "snd_pcm_mmap_capture_hw_avail p = sint (buffer_size p - snd_pcm_mmap_capture_avail p)"

definition snd_pcm_mmap_hw_avail :: "'d pcm \<Rightarrow> int" where
  "snd_pcm_mmap_hw_avail p =
     (let avail = hw_ptr p - appl_ptr p;
          avail = (if stream p = PLAYBACK then avail + buffer_size p else avail);
          avail = (if sint avail < 0 then avail + boundary p else avail)
      in sint (buffer_size p - avail))"

definition snd_pcm_mmap_offset :: "'d pcm \<Rightarrow> u32" where
  "snd_pcm_mmap_offset p = appl_ptr p mod buffer_size p"

definition snd_pcm_mmap_hw_offset :: "'d pcm \<Rightarrow> u32" where
  "snd_pcm_mmap_hw_offset p = hw_ptr p mod buffer_size p"

definition snd_pcm_mmap_appl_backward :: "'d pcm \<Rightarrow> u32 \<Rightarrow> 'd pcm" where
  "snd_pcm_mmap_appl_backward p frames =
     (let a = appl_ptr p - frames in p\<lparr>appl_ptr := (if sint a < 0 then a + boundary p else a)\<rparr>)"

definition snd_pcm_mmap_appl_forward :: "'d pcm \<Rightarrow> u32 \<Rightarrow> 'd pcm" where
  "snd_pcm_mmap_appl_forward p frames =
     (let a = appl_ptr p + frames in p\<lparr>appl_ptr := (if a \<ge> boundary p then a - boundary p else a)\<rparr>)"

definition snd_pcm_mmap_hw_backward :: "'d pcm \<Rightarrow> u32 \<Rightarrow> 'd pcm" where
  "snd_pcm_mmap_hw_backward p frames =
     (let h = hw_ptr p - frames in p\<lparr>hw_ptr := (if sint h < 0 then h + boundary p else h)\<rparr>)"

definition snd_pcm_mmap_hw_forward :: "'d pcm \<Rightarrow> u32 \<Rightarrow> 'd pcm" where
  "snd_pcm_mmap_hw_forward p frames =
     (let h = hw_ptr p + frames in p\<lparr>hw_ptr := (if h \<ge> boundary p then h - boundary p else h)\<rparr>)"

text \<open>
  The boundary of the default parameters: the buffer size is doubled while twice the value, and a
  buffer more, is a \<open>long\<close>.
\<close>

abbreviation LONG_MAX :: u32 where
  "LONG_MAX \<equiv> 2147483647"

partial_function (option) double_boundary :: "u32 \<Rightarrow> u32 \<Rightarrow> u32 option" where
  "double_boundary bs b = (if b * 2 \<le> LONG_MAX - bs then double_boundary bs (b * 2) else Some b)"

section \<open>Operations of the stream\<close>

definition snd_pcm_state :: "'d fast_ops \<Rightarrow> 'd pcm \<Rightarrow> snd_pcm_state_t \<times> 'd pcm" where
  "snd_pcm_state ops p = op_state ops p"

definition if_setup :: "'d pcm_op \<Rightarrow> 'd pcm_op" where
  "if_setup f p = (if CHECK_SANITY (\<not> is_setup p) then Inr (- EIO, p) else f p)"

definition snd_pcm_hwsync :: "'d fast_ops \<Rightarrow> 'd pcm_op" where
  "snd_pcm_hwsync ops = if_setup (op_hwsync ops)"

definition snd_pcm_prepare :: "'d fast_ops \<Rightarrow> 'd pcm_op" where
  "snd_pcm_prepare ops = if_setup (op_prepare ops)"

definition snd_pcm_reset :: "'d fast_ops \<Rightarrow> 'd pcm_op" where
  "snd_pcm_reset ops = if_setup (op_reset ops)"

definition snd_pcm_start :: "'d fast_ops \<Rightarrow> 'd pcm_op" where
  "snd_pcm_start ops = if_setup (op_start ops)"

definition snd_pcm_drop :: "'d fast_ops \<Rightarrow> 'd pcm_op" where
  "snd_pcm_drop ops = if_setup (op_drop ops)"

definition snd_pcm_drain :: "'d fast_ops \<Rightarrow> 'd pcm_op" where
  "snd_pcm_drain ops = if_setup (op_drain ops)"

definition snd_pcm_pause :: "'d fast_ops \<Rightarrow> bool \<Rightarrow> 'd pcm_op" where
  "snd_pcm_pause ops enable = if_setup (op_pause ops enable)"

definition snd_pcm_resume :: "'d fast_ops \<Rightarrow> 'd pcm_op" where
  "snd_pcm_resume ops = if_setup (op_resume ops)"

definition snd_pcm_rewind :: "'d fast_ops \<Rightarrow> u32 \<Rightarrow> 'd pcm_op" where
  "snd_pcm_rewind ops frames =
     if_setup (\<lambda>p. if frames = 0 then Inr (0, p) else op_rewind ops frames p)"

definition snd_pcm_forward :: "'d fast_ops \<Rightarrow> u32 \<Rightarrow> 'd pcm_op" where
  "snd_pcm_forward ops frames =
     if_setup (\<lambda>p. if frames = 0 then Inr (0, p) else op_forward ops frames p)"

definition snd_pcm_avail_update :: "'d fast_ops \<Rightarrow> 'd pcm_op" where
  "snd_pcm_avail_update ops p = op_avail_update ops p"

definition snd_pcm_avail :: "'d fast_ops \<Rightarrow> 'd pcm_op" where
  "snd_pcm_avail ops =
     if_setup (\<lambda>p. cbind (op_hwsync ops p)
       (\<lambda>(err, p). if err < 0 then Inr (err, p) else op_avail_update ops p))"

definition state_error :: "snd_pcm_state_t \<Rightarrow> int option" where
  "state_error st =
     (case st of XRUN \<Rightarrow> Some (- EPIPE) | SUSPENDED \<Rightarrow> Some (- ESTRPIPE) | DISCONNECTED \<Rightarrow> Some (- ENODEV)
      | _ \<Rightarrow> None)"

definition snd_pcm_check_error :: "'d fast_ops \<Rightarrow> int \<Rightarrow> 'd pcm \<Rightarrow> int \<times> 'd pcm" where
  "snd_pcm_check_error ops err p =
     (if err = - EINTR
      then let (st, p) = snd_pcm_state ops p
           in (case state_error st of Some e \<Rightarrow> (e, p) | None \<Rightarrow> (err, p))
      else (err, p))"

definition snd_pcm_wait :: "'d fast_ops \<Rightarrow> 'd pcm_op" where
  "snd_pcm_wait ops p =
     (if snd_pcm_mmap_avail p \<ge> avail_min p
      then let (st, p) = snd_pcm_state ops p
           in Inr (case state_error st of Some e \<Rightarrow> (e, p) | None \<Rightarrow> (1, p))
      else wait_nocheck ops p)"

text \<open>\<open>poll\<close> is asked to wait a second between two attempts; whether they end is up to the device.\<close>

partial_function (option) resume_again :: "'d fast_ops \<Rightarrow> 'd pcm \<Rightarrow> (int \<times> 'd pcm) cres option" where
  "resume_again ops p =
     (case snd_pcm_resume ops p of
        Inl e \<Rightarrow> Some (Inl e)
      | Inr (err, p) \<Rightarrow> if err = - EAGAIN then resume_again ops p else Some (Inr (err, p)))"

definition snd_pcm_recover :: "'d fast_ops \<Rightarrow> int \<Rightarrow> 'd pcm \<Rightarrow> (int \<times> 'd pcm) cres option" where
  "snd_pcm_recover ops err p =
     (let err = (if err > 0 then - err else err) in
      if err = - EINTR then Some (Inr (0, p))
      else if err = - EPIPE then
        Some (cbind (snd_pcm_prepare ops p) (\<lambda>(err, p). Inr (if err < 0 then err else 0, p)))
      else if err = - ESTRPIPE then
        (case resume_again ops p of
           None \<Rightarrow> None
         | Some r \<Rightarrow> Some (cbind r (\<lambda>(err, p).
             if err < 0 then cbind (snd_pcm_prepare ops p) (\<lambda>(err, p). Inr (if err < 0 then err else 0, p))
             else Inr (0, p))))
      else Some (Inr (err, p)))"

section \<open>Access to the ring\<close>

definition snd_pcm_mmap_areas :: "'d fast_ops \<Rightarrow> 'd pcm \<Rightarrow> snd_pcm_channel_area_t list option \<times> 'd pcm" where
  "snd_pcm_mmap_areas ops p =
     (if stopped_areas p \<noteq> None
      then let (st, p) = snd_pcm_state ops p
           in (if st \<noteq> RUNNING then stopped_areas p else running_areas p, p)
      else (running_areas p, p))"

text \<open>The first result is \<open>None\<close> for \<open>-EBADFD\<close>, which leaves areas, offset and count unset.\<close>

definition snd_pcm_mmap_begin ::
    "'d fast_ops \<Rightarrow> u32 \<Rightarrow> 'd pcm \<Rightarrow> (snd_pcm_channel_area_t list \<times> u32 \<times> u32) option \<times> 'd pcm" where
  "snd_pcm_mmap_begin ops frames p =
     (case snd_pcm_mmap_areas ops p of
        (None, p) \<Rightarrow> (None, p)
      | (Some xareas, p) \<Rightarrow>
          let offset = appl_ptr p mod buffer_size p;
              avail = snd_pcm_mmap_avail p;
              avail = (if avail > buffer_size p then buffer_size p else avail);
              cont = buffer_size p - offset;
              f = frames;
              f = (if f > avail then avail else f);
              f = (if f > cont then cont else f)
          in (Some (xareas, offset, f), p))"

definition snd_pcm_mmap_commit :: "'d fast_ops \<Rightarrow> u32 \<Rightarrow> u32 \<Rightarrow> 'd pcm_op" where
  "snd_pcm_mmap_commit ops offset frames p =
     (if CHECK_SANITY (offset \<noteq> appl_ptr p mod buffer_size p) then Inr (- EPIPE, p)
      else if CHECK_SANITY (frames > snd_pcm_mmap_avail p) then Inr (- EPIPE, p)
      else op_mmap_commit ops offset frames p)"

text \<open>
  One turn of the loops that copy: the result of \<open>snd_pcm_mmap_begin\<close> is not looked at, and areas
  that were not set are read. The copy's result is ignored too. The areas of the caller are never the
  device's own array of areas: the functions below lay them out on their stack.
\<close>

definition mmap_turn ::
    "'d fast_ops \<Rightarrow> bool \<Rightarrow> snd_pcm_channel_area_t list \<Rightarrow> u32 \<Rightarrow> u32 \<Rightarrow> 'd pcm_op" where
  "mmap_turn ops writing areas offset sz p =
     (let (acc, p) = snd_pcm_mmap_begin ops sz p in
      need acc (\<lambda>(pcm_areas, pcm_offset, frames).
        cbind (if writing
               then snd_pcm_areas_copy False pcm_areas pcm_offset areas offset frames (format p) (memory p)
               else snd_pcm_areas_copy False areas offset pcm_areas pcm_offset frames (format p) (memory p))
          (\<lambda>(_, m). snd_pcm_mmap_commit ops pcm_offset frames (p\<lparr>memory := m\<rparr>))))"

partial_function (option) mmap_loop ::
    "'d fast_ops \<Rightarrow> bool \<Rightarrow> snd_pcm_channel_area_t list \<Rightarrow> u32 \<Rightarrow> u32 \<Rightarrow> u32 \<Rightarrow> 'd pcm \<Rightarrow>
      (int \<times> 'd pcm) cres option" where
  "mmap_loop ops writing areas offset sz xfer p =
     (if sz = 0 then Some (Inr (sint xfer, p))
      else case mmap_turn ops writing areas offset sz p of
        Inl e \<Rightarrow> Some (Inl e)
      | Inr (result, p) \<Rightarrow>
          if result < 0 then Some (Inr (if xfer > 0 then sint xfer else result, p))
          else mmap_loop ops writing areas (offset + of_int result) (sz - of_int result)
                 (xfer + of_int result) p)"

type_synonym 'd xfer_func =
  "'d pcm \<Rightarrow> snd_pcm_channel_area_t list \<Rightarrow> u32 \<Rightarrow> u32 \<Rightarrow> (int \<times> 'd pcm) cres option"

definition snd_pcm_mmap_write_areas :: "'d fast_ops \<Rightarrow> 'd xfer_func" where
  "snd_pcm_mmap_write_areas ops p areas offset sz =
     (if snd_pcm_mmap_playback_avail p < sz then Some (Inr (- EPIPE, p))
      else mmap_loop ops True areas offset sz 0 p)"

definition snd_pcm_mmap_read_areas :: "'d fast_ops \<Rightarrow> 'd xfer_func" where
  "snd_pcm_mmap_read_areas ops p areas offset sz =
     (if snd_pcm_mmap_capture_avail p < sz then Some (Inr (- EPIPE, p))
      else mmap_loop ops False areas offset sz 0 p)"

section \<open>Transfers\<close>

text \<open>
  One turn of the loops that transfer leaves the loop, starts over after a wait, or has moved frames.
  \<open>err\<close> is the variable of the function, which keeps its last value.
\<close>

datatype 'd turn =
    Leave int "'d pcm"
  | Again int "'d pcm"
  | Moved snd_pcm_state_t u32 int "'d pcm"

definition xfer_turn ::
    "'d fast_ops \<Rightarrow> (snd_pcm_state_t \<Rightarrow> u32 \<Rightarrow> int \<Rightarrow> 'd pcm \<Rightarrow> 'd turn cres) \<Rightarrow> bool \<Rightarrow> 'd xfer_func \<Rightarrow>
      snd_pcm_channel_area_t list \<Rightarrow> snd_pcm_state_t \<Rightarrow> u32 \<Rightarrow> u32 \<Rightarrow> int \<Rightarrow> 'd pcm \<Rightarrow> 'd turn cres option" where
  "xfer_turn ops after waits func areas st offset sz err p =
     (case (if st = RUNNING then snd_pcm_hwsync ops p else Inr (err, p)) of
        Inl e \<Rightarrow> Some (Inl e)
      | Inr (err, p) \<Rightarrow>
          if st = RUNNING \<and> err < 0 then Some (Inr (Leave err p))
          else case snd_pcm_avail_update ops p of
            Inl e \<Rightarrow> Some (Inl e)
          | Inr (avail, p) \<Rightarrow>
              if avail < 0 then Some (Inr (Leave avail p))
              else if waits \<and> of_int avail < avail_min p \<and> sz > of_int avail then
                if nonblock p then Some (Inr (Leave (- EAGAIN) p))
                else Some (cbind (snd_pcm_wait ops p) (\<lambda>(err, p).
                       Inr (if err < 0 then Leave err p else Again err p)))
              else let frames = (if sz > of_int avail then of_int avail else sz) in
                if frames = 0 then Some (Inr (Leave err p))
                else case func p areas offset frames of
                  None \<Rightarrow> None
                | Some (Inl e) \<Rightarrow> Some (Inl e)
                | Some (Inr (err, p)) \<Rightarrow>
                    if err < 0 then Some (Inr (Leave err p))
                    else Some (after st (of_int avail) err p))"

text \<open>A read has nothing to do after frames have been moved.\<close>

definition after_read :: "snd_pcm_state_t \<Rightarrow> u32 \<Rightarrow> int \<Rightarrow> 'd pcm \<Rightarrow> 'd turn cres" where
  "after_read st avail err p = Inr (Moved st (of_int err) err p)"

text \<open>A write starts the stream when enough is queued. When that fails the loop is left at once.\<close>

definition after_write :: "'d fast_ops \<Rightarrow> snd_pcm_state_t \<Rightarrow> u32 \<Rightarrow> int \<Rightarrow> 'd pcm \<Rightarrow> 'd turn cres" where
  "after_write ops st avail err p =
     (let frames = of_int err in
      if st = PREPARED then
        let hw_avail = buffer_size p - avail + frames;
            (st, p) = snd_pcm_state ops p
        in if st = PREPARED \<and> sint hw_avail \<ge> sint (start_threshold p)
           then cbind (snd_pcm_start ops p) (\<lambda>(err, p).
                  Inr (if err < 0 then Leave err p else Moved st frames err p))
           else Inr (Moved st frames err p)
      else Inr (Moved st frames err p))"

definition xfer_end :: "'d fast_ops \<Rightarrow> u32 \<Rightarrow> int \<Rightarrow> 'd pcm \<Rightarrow> int \<times> 'd pcm" where
  "xfer_end ops xfer err p = (if xfer > 0 then (sint xfer, p) else snd_pcm_check_error ops err p)"

partial_function (option) read_loop ::
    "'d fast_ops \<Rightarrow> 'd xfer_func \<Rightarrow> snd_pcm_channel_area_t list \<Rightarrow> snd_pcm_state_t \<Rightarrow> u32 \<Rightarrow> u32 \<Rightarrow> u32 \<Rightarrow> int \<Rightarrow>
      'd pcm \<Rightarrow> (int \<times> 'd pcm) cres option" where
  "read_loop ops func areas st offset sz xfer err p =
     (if sz = 0 then Some (Inr (xfer_end ops xfer err p))
      else case xfer_turn ops after_read True func areas st offset sz err p of
        None \<Rightarrow> None
      | Some (Inl e) \<Rightarrow> Some (Inl e)
      | Some (Inr (Leave err p)) \<Rightarrow> Some (Inr (xfer_end ops xfer err p))
      | Some (Inr (Again err p)) \<Rightarrow> read_loop ops func areas st offset sz xfer err p
      | Some (Inr (Moved st frames err p)) \<Rightarrow>
          read_loop ops func areas st (offset + frames) (sz - frames) (xfer + frames) err p)"

partial_function (option) write_loop ::
    "'d fast_ops \<Rightarrow> 'd xfer_func \<Rightarrow> snd_pcm_channel_area_t list \<Rightarrow> snd_pcm_state_t \<Rightarrow> u32 \<Rightarrow> u32 \<Rightarrow> u32 \<Rightarrow> int \<Rightarrow>
      'd pcm \<Rightarrow> (int \<times> 'd pcm) cres option" where
  "write_loop ops func areas st offset sz xfer err p =
     (if sz = 0 then Some (Inr (xfer_end ops xfer err p))
      else case xfer_turn ops (after_write ops) (st = RUNNING) func areas st offset sz err p of
        None \<Rightarrow> None
      | Some (Inl e) \<Rightarrow> Some (Inl e)
      | Some (Inr (Leave err p)) \<Rightarrow> Some (Inr (xfer_end ops xfer err p))
      | Some (Inr (Again err p)) \<Rightarrow> write_loop ops func areas st offset sz xfer err p
      | Some (Inr (Moved st frames err p)) \<Rightarrow>
          write_loop ops func areas st (offset + frames) (sz - frames) (xfer + frames) err p)"

declare double_boundary.simps [code] resume_again.simps [code] mmap_loop.simps [code]
  read_loop.simps [code] write_loop.simps [code]

definition snd_pcm_read_areas ::
    "'d fast_ops \<Rightarrow> 'd xfer_func \<Rightarrow> snd_pcm_channel_area_t list \<Rightarrow> u32 \<Rightarrow> u32 \<Rightarrow> 'd pcm \<Rightarrow>
      (int \<times> 'd pcm) cres option" where
  "snd_pcm_read_areas ops func areas offset sz p =
     (let (st, p) = snd_pcm_state ops p in
      if sz = 0 then Some (Inr (0, p))
      else case st of
        PREPARED \<Rightarrow>
          (case snd_pcm_start ops p of
             Inl e \<Rightarrow> Some (Inl e)
           | Inr (err, p) \<Rightarrow>
               if err < 0 then Some (Inr (xfer_end ops 0 err p))
               else read_loop ops func areas st offset sz 0 err p)
      | DRAINING \<Rightarrow> read_loop ops func areas st offset sz 0 0 p
      | RUNNING \<Rightarrow> read_loop ops func areas st offset sz 0 0 p
      | _ \<Rightarrow> Some (Inr (case state_error st of Some e \<Rightarrow> e | None \<Rightarrow> - EBADFD, p)))"

definition snd_pcm_write_areas ::
    "'d fast_ops \<Rightarrow> 'd xfer_func \<Rightarrow> snd_pcm_channel_area_t list \<Rightarrow> u32 \<Rightarrow> u32 \<Rightarrow> 'd pcm \<Rightarrow>
      (int \<times> 'd pcm) cres option" where
  "snd_pcm_write_areas ops func areas offset sz p =
     (let (st, p) = snd_pcm_state ops p in
      if sz = 0 then Some (Inr (0, p))
      else if st \<in> {PREPARED, RUNNING} then write_loop ops func areas st offset sz 0 0 p
      else Some (Inr (case state_error st of Some e \<Rightarrow> e | None \<Rightarrow> - EBADFD, p)))"

definition snd_pcm_mmap_writei :: "'d fast_ops \<Rightarrow> nat \<Rightarrow> u32 \<Rightarrow> 'd pcm \<Rightarrow> (int \<times> 'd pcm) cres option" where
  "snd_pcm_mmap_writei ops buf sz p =
     snd_pcm_write_areas ops (snd_pcm_mmap_write_areas ops)
       (snd_pcm_areas_from_buf (channels p) (sample_bits p) (frame_bits p) buf) 0 sz p"

definition snd_pcm_mmap_writen :: "'d fast_ops \<Rightarrow> nat list \<Rightarrow> u32 \<Rightarrow> 'd pcm \<Rightarrow> (int \<times> 'd pcm) cres option" where
  "snd_pcm_mmap_writen ops bufs sz p =
     snd_pcm_write_areas ops (snd_pcm_mmap_write_areas ops)
       (snd_pcm_areas_from_bufs (sample_bits p) bufs) 0 sz p"

definition snd_pcm_mmap_readi :: "'d fast_ops \<Rightarrow> nat \<Rightarrow> u32 \<Rightarrow> 'd pcm \<Rightarrow> (int \<times> 'd pcm) cres option" where
  "snd_pcm_mmap_readi ops buf sz p =
     snd_pcm_read_areas ops (snd_pcm_mmap_read_areas ops)
       (snd_pcm_areas_from_buf (channels p) (sample_bits p) (frame_bits p) buf) 0 sz p"

definition snd_pcm_mmap_readn :: "'d fast_ops \<Rightarrow> nat list \<Rightarrow> u32 \<Rightarrow> 'd pcm \<Rightarrow> (int \<times> 'd pcm) cres option" where
  "snd_pcm_mmap_readn ops bufs sz p =
     snd_pcm_read_areas ops (snd_pcm_mmap_read_areas ops)
       (snd_pcm_areas_from_bufs (sample_bits p) bufs) 0 sz p"

end
