(* ===== verification/PcmDevice.thy ===== *)
theory PcmDevice
  imports PcmRing
begin

text \<open>
  Two kinds of device: the null device of \<open>libasound/src/pcm/pcm_null.c\<close>, which takes and gives
  frames at once, and the operations of \<open>pcm_hw.c\<close> on a device of the kernel. The kernel is a record
  of the calls the code makes; they return 0 or a positive number, or the negative error number the
  code finds in \<open>errno\<close>. The pointers a kernel keeps in shared memory change at calls only, as they do
  when \<open>SYNC_PTR\<close> is used.
\<close>

section \<open>The null device\<close>

record snd_pcm_null_t =
  null_state :: snd_pcm_state_t

type_synonym null_op = "snd_pcm_null_t pcm_op"

definition set_null_state :: "snd_pcm_state_t \<Rightarrow> snd_pcm_null_t pcm \<Rightarrow> snd_pcm_null_t pcm" where
  "set_null_state st p = p\<lparr>private_data := (private_data p)\<lparr>null_state := st\<rparr>\<rparr>"

definition snd_pcm_null_state :: "snd_pcm_null_t pcm \<Rightarrow> snd_pcm_state_t \<times> snd_pcm_null_t pcm" where
  "snd_pcm_null_state p = (null_state (private_data p), p)"

definition snd_pcm_null_hwsync :: null_op where
  "snd_pcm_null_hwsync p = Inr (0, p)"

definition snd_pcm_null_prepare :: null_op where
  "snd_pcm_null_prepare p = Inr (0, (set_null_state PREPARED p)\<lparr>appl_ptr := 0, hw_ptr := 0\<rparr>)"

definition snd_pcm_null_reset :: null_op where
  "snd_pcm_null_reset p = Inr (0, p\<lparr>appl_ptr := 0, hw_ptr := 0\<rparr>)"

definition snd_pcm_null_start :: null_op where
  "snd_pcm_null_start p =
     asserting (null_state (private_data p) = PREPARED)
       (Inr (0, (set_null_state RUNNING p)
          \<lparr>hw_ptr := (if stream p = CAPTURE then appl_ptr p + buffer_size p else appl_ptr p)\<rparr>))"

definition snd_pcm_null_drop :: null_op where
  "snd_pcm_null_drop p =
     asserting (null_state (private_data p) \<noteq> OPEN) (Inr (0, set_null_state SETUP p))"

definition snd_pcm_null_drain :: null_op where
  "snd_pcm_null_drain p =
     asserting (null_state (private_data p) \<noteq> OPEN) (Inr (0, set_null_state SETUP p))"

definition snd_pcm_null_pause :: "bool \<Rightarrow> null_op" where
  "snd_pcm_null_pause enable p =
     Inr (if null_state (private_data p) \<noteq> (if enable then RUNNING else PAUSED) then (- EBADFD, p)
          else (0, set_null_state (if enable then PAUSED else RUNNING) p))"

definition snd_pcm_null_rewind :: "u32 \<Rightarrow> null_op" where
  "snd_pcm_null_rewind frames p =
     Inr (case null_state (private_data p) of
        RUNNING \<Rightarrow> (sint frames, snd_pcm_mmap_appl_backward (snd_pcm_mmap_hw_backward p frames) frames)
      | PREPARED \<Rightarrow> (sint frames, snd_pcm_mmap_appl_backward p frames)
      | _ \<Rightarrow> (- EBADFD, p))"

definition snd_pcm_null_forward :: "u32 \<Rightarrow> null_op" where
  "snd_pcm_null_forward frames p =
     Inr (case null_state (private_data p) of
        RUNNING \<Rightarrow> (sint frames, snd_pcm_mmap_appl_forward (snd_pcm_mmap_hw_forward p frames) frames)
      | PREPARED \<Rightarrow> (sint frames, snd_pcm_mmap_appl_forward p frames)
      | _ \<Rightarrow> (- EBADFD, p))"

definition snd_pcm_null_resume :: null_op where
  "snd_pcm_null_resume p = Inr (0, p)"

definition snd_pcm_null_xfer_areas :: "snd_pcm_null_t xfer_func" where
  "snd_pcm_null_xfer_areas p areas offset sz =
     Some (Inr (sint sz, snd_pcm_mmap_hw_forward (snd_pcm_mmap_appl_forward p sz) sz))"

definition snd_pcm_null_mmap_commit :: "u32 \<Rightarrow> u32 \<Rightarrow> null_op" where
  "snd_pcm_null_mmap_commit offset sz = snd_pcm_null_forward sz"

definition snd_pcm_null_avail_update :: null_op where
  "snd_pcm_null_avail_update p = Inr (sint (buffer_size p), p)"

text \<open>Waiting is done by \<open>poll\<close> on the descriptor, which is that of \<open>/dev/null\<close>: it is always ready.\<close>

definition snd_pcm_null_fast_ops :: "snd_pcm_null_t fast_ops" where
  "snd_pcm_null_fast_ops =
     \<lparr>op_state = snd_pcm_null_state, op_hwsync = snd_pcm_null_hwsync, op_prepare = snd_pcm_null_prepare,
      op_reset = snd_pcm_null_reset, op_start = snd_pcm_null_start, op_drop = snd_pcm_null_drop,
      op_drain = snd_pcm_null_drain, op_pause = snd_pcm_null_pause, op_resume = snd_pcm_null_resume,
      op_rewind = snd_pcm_null_rewind, op_forward = snd_pcm_null_forward,
      op_avail_update = snd_pcm_null_avail_update, op_mmap_commit = snd_pcm_null_mmap_commit,
      wait_nocheck = (\<lambda>p. Inr (1, p))\<rparr>"

definition snd_pcm_null_writei :: "u32 \<Rightarrow> snd_pcm_null_t pcm \<Rightarrow> (int \<times> snd_pcm_null_t pcm) cres option" where
  "snd_pcm_null_writei sz = snd_pcm_write_areas snd_pcm_null_fast_ops snd_pcm_null_xfer_areas [] 0 sz"

definition snd_pcm_null_readi :: "u32 \<Rightarrow> snd_pcm_null_t pcm \<Rightarrow> (int \<times> snd_pcm_null_t pcm) cres option" where
  "snd_pcm_null_readi sz = snd_pcm_read_areas snd_pcm_null_fast_ops snd_pcm_null_xfer_areas [] 0 sz"

section \<open>A device of the kernel\<close>

record 'k snd_pcm_hw_t =
  version :: int
  sync_ptr_used :: bool
  mmap_status_state :: snd_pcm_state_t
  kernel_data :: 'k

type_synonym 'k hw_pcm = "'k snd_pcm_hw_t pcm"
type_synonym 'k hw_call = "'k hw_pcm \<Rightarrow> int \<times> 'k hw_pcm"

text \<open>The flags of \<open>SYNC_PTR\<close>.\<close>

datatype sync_flag = SYNC_NONE | SYNC_HWSYNC | SYNC_APPL

record 'k kernel =
  ioctl_sync_ptr :: "sync_flag \<Rightarrow> 'k hw_call"
  ioctl_hwsync :: "'k hw_call"
  ioctl_delay :: "'k hw_pcm \<Rightarrow> int \<times> int \<times> 'k hw_pcm"
  ioctl_prepare :: "'k hw_call"
  ioctl_reset :: "'k hw_call"
  ioctl_start :: "'k hw_call"
  ioctl_drop :: "'k hw_call"
  ioctl_drain :: "'k hw_call"
  ioctl_pause :: "bool \<Rightarrow> 'k hw_call"
  ioctl_resume :: "'k hw_call"
  ioctl_rewind :: "u32 \<Rightarrow> 'k hw_pcm \<Rightarrow> int \<times> u32 \<times> 'k hw_pcm"
  ioctl_forward :: "u32 \<Rightarrow> 'k hw_pcm \<Rightarrow> int \<times> u32 \<times> 'k hw_pcm"
  ioctl_xrun :: "'k hw_call"
  poll_wait :: "'k hw_call"

definition PROTOCOL_VERSION :: "int \<Rightarrow> int \<Rightarrow> int \<Rightarrow> int" where
  "PROTOCOL_VERSION major minor subminor = major * 65536 + minor * 256 + subminor"

definition hw_version :: "'k hw_pcm \<Rightarrow> int" where
  "hw_version p = version (private_data p)"

definition FAST_PCM_STATE :: "'k hw_pcm \<Rightarrow> snd_pcm_state_t" where
  "FAST_PCM_STATE p = mmap_status_state (private_data p)"

definition sync_ptr1 :: "'k kernel \<Rightarrow> sync_flag \<Rightarrow> 'k hw_call" where
  "sync_ptr1 k flags p =
     (let (err, p) = ioctl_sync_ptr k flags p in (if err < 0 then err else 0, p))"

definition sync_ptr :: "'k kernel \<Rightarrow> sync_flag \<Rightarrow> 'k hw_call" where
  "sync_ptr k flags p = (if sync_ptr_used (private_data p) then sync_ptr1 k flags p else (0, p))"

text \<open>A call that is only followed by the test for an error.\<close>

definition plain :: "'k hw_call \<Rightarrow> 'k snd_pcm_hw_t pcm_op" where
  "plain call p = (let (err, p) = call p in Inr (if err < 0 then err else 0, p))"

definition then_sync :: "'k kernel \<Rightarrow> 'k hw_call \<Rightarrow> 'k snd_pcm_hw_t pcm_op" where
  "then_sync k call p =
     (let (err, p) = call p in Inr (if err < 0 then (err, p) else sync_ptr k SYNC_APPL p))"

text \<open>An error of \<open>sync_ptr\<close> is returned as the state.\<close>

definition snd_pcm_hw_state :: "'k kernel \<Rightarrow> 'k hw_pcm \<Rightarrow> snd_pcm_state_t \<times> 'k hw_pcm" where
  "snd_pcm_hw_state k p =
     (let (err, p) = sync_ptr k SYNC_NONE p in
      (if err < 0 then STATE_OTHER err else FAST_PCM_STATE p, p))"

definition snd_pcm_hw_delay :: "'k kernel \<Rightarrow> 'k hw_pcm \<Rightarrow> int \<times> int \<times> 'k hw_pcm" where
  "snd_pcm_hw_delay k p =
     (if sync_ptr_used (private_data p)
      then let (err, p) = sync_ptr1 k SYNC_HWSYNC p in
        if err < 0 then (err, 0, p)
        else if FAST_PCM_STATE p \<in> {RUNNING, DRAINING, PAUSED, PREPARED, SUSPENDED} then
          (0, if stream p = PLAYBACK then snd_pcm_mmap_playback_hw_avail p
              else sint (snd_pcm_mmap_capture_avail p), p)
        else if FAST_PCM_STATE p = XRUN then (- EPIPE, 0, p)
        else (- EBADFD, 0, p)
      else ioctl_delay k p)"

definition snd_pcm_hw_hwsync :: "'k kernel \<Rightarrow> 'k snd_pcm_hw_t pcm_op" where
  "snd_pcm_hw_hwsync k p =
     (if PROTOCOL_VERSION 2 0 3 \<le> hw_version p then
        plain (if sync_ptr_used (private_data p) then sync_ptr1 k SYNC_HWSYNC else ioctl_hwsync k) p
      else
        let (err, delay, p) = snd_pcm_hw_delay k p in
        Inr (if err < 0 \<and> FAST_PCM_STATE p \<notin> {PREPARED, SUSPENDED} then err else 0, p))"

definition snd_pcm_hw_prepare :: "'k kernel \<Rightarrow> 'k snd_pcm_hw_t pcm_op" where
  "snd_pcm_hw_prepare k = then_sync k (ioctl_prepare k)"

definition snd_pcm_hw_reset :: "'k kernel \<Rightarrow> 'k snd_pcm_hw_t pcm_op" where
  "snd_pcm_hw_reset k = then_sync k (ioctl_reset k)"

definition snd_pcm_hw_start :: "'k kernel \<Rightarrow> 'k snd_pcm_hw_t pcm_op" where
  "snd_pcm_hw_start k p = (let (_, p) = sync_ptr k SYNC_NONE p in plain (ioctl_start k) p)"

definition snd_pcm_hw_drop :: "'k kernel \<Rightarrow> 'k snd_pcm_hw_t pcm_op" where
  "snd_pcm_hw_drop k = plain (ioctl_drop k)"

definition snd_pcm_hw_drain :: "'k kernel \<Rightarrow> 'k snd_pcm_hw_t pcm_op" where
  "snd_pcm_hw_drain k = plain (ioctl_drain k)"

definition snd_pcm_hw_pause :: "'k kernel \<Rightarrow> bool \<Rightarrow> 'k snd_pcm_hw_t pcm_op" where
  "snd_pcm_hw_pause k enable = plain (ioctl_pause k enable)"

definition snd_pcm_hw_resume :: "'k kernel \<Rightarrow> 'k snd_pcm_hw_t pcm_op" where
  "snd_pcm_hw_resume k = plain (ioctl_resume k)"

text \<open>The kernel stores the number of frames it has moved the pointer by.\<close>

definition snd_pcm_hw_rewind :: "'k kernel \<Rightarrow> u32 \<Rightarrow> 'k snd_pcm_hw_t pcm_op" where
  "snd_pcm_hw_rewind k frames p =
     (let (err, frames, p) = ioctl_rewind k frames p in
      if err < 0 then Inr (err, p)
      else let (err, p) = sync_ptr k SYNC_APPL p in Inr (if err < 0 then err else sint frames, p))"

definition snd_pcm_hw_forward :: "'k kernel \<Rightarrow> u32 \<Rightarrow> 'k snd_pcm_hw_t pcm_op" where
  "snd_pcm_hw_forward k frames p =
     (if PROTOCOL_VERSION 2 0 4 \<le> hw_version p then
        let (err, frames, p) = ioctl_forward k frames p in
        if err < 0 then Inr (err, p)
        else let (err, p) = sync_ptr k SYNC_APPL p in Inr (if err < 0 then err else sint frames, p)
      else
        let (err, p) = sync_ptr k SYNC_HWSYNC p in
        if err < 0 then Inr (err, p)
        else if FAST_PCM_STATE p \<in> {RUNNING, DRAINING, PAUSED, PREPARED} then
          let avail = snd_pcm_mmap_avail p in
          if sint avail < 0 then Inr (0, p)
          else let frames = (if frames > avail then avail else frames);
                   (err, p) = sync_ptr k SYNC_NONE (snd_pcm_mmap_appl_forward p frames)
               in Inr (if err < 0 then err else sint frames, p)
        else Inr (if FAST_PCM_STATE p = XRUN then - EPIPE else - EBADFD, p))"

definition snd_pcm_hw_mmap_commit :: "'k kernel \<Rightarrow> u32 \<Rightarrow> u32 \<Rightarrow> 'k snd_pcm_hw_t pcm_op" where
  "snd_pcm_hw_mmap_commit k offset sz p =
     (let (_, p) = sync_ptr k SYNC_NONE (snd_pcm_mmap_appl_forward p sz) in Inr (sint sz, p))"

definition snd_pcm_hw_avail_update :: "'k kernel \<Rightarrow> 'k snd_pcm_hw_t pcm_op" where
  "snd_pcm_hw_avail_update k p =
     (let (_, p) = sync_ptr k SYNC_NONE p;
          avail = snd_pcm_mmap_avail p
      in if FAST_PCM_STATE p = RUNNING \<and> avail \<ge> stop_threshold p then
           if PROTOCOL_VERSION 2 0 1 \<le> hw_version p
           then let (err, p) = ioctl_xrun k p in Inr (if err < 0 then err else - EPIPE, p)
           else Inr (- EPIPE, p)
         else if FAST_PCM_STATE p = XRUN then Inr (- EPIPE, p)
         else Inr (sint avail, p))"

definition snd_pcm_hw_fast_ops :: "'k kernel \<Rightarrow> 'k snd_pcm_hw_t fast_ops" where
  "snd_pcm_hw_fast_ops k =
     \<lparr>op_state = snd_pcm_hw_state k, op_hwsync = snd_pcm_hw_hwsync k, op_prepare = snd_pcm_hw_prepare k,
      op_reset = snd_pcm_hw_reset k, op_start = snd_pcm_hw_start k, op_drop = snd_pcm_hw_drop k,
      op_drain = snd_pcm_hw_drain k, op_pause = snd_pcm_hw_pause k, op_resume = snd_pcm_hw_resume k,
      op_rewind = snd_pcm_hw_rewind k, op_forward = snd_pcm_hw_forward k,
      op_avail_update = snd_pcm_hw_avail_update k, op_mmap_commit = snd_pcm_hw_mmap_commit k,
      wait_nocheck = (\<lambda>p. Inr (poll_wait k p))\<rparr>"

end
