(* ===== verification/PcmWrite.thy ===== *)
theory PcmWrite
  imports PcmDevice
begin

text \<open>
  Writing to a playback stream. The ring holds a queue of frames: those between the two pointers. The
  device takes frames from the front, by moving its pointer; the locale \<open>playback_device\<close> is what the
  write functions rely on. A write appends frames of the application at the back and says how many.
\<close>

section \<open>The two pointers\<close>

lemma sint_of_int_fits: "- 2147483648 \<le> i \<Longrightarrow> i < 2147483648 \<Longrightarrow> sint (of_int i :: u32) = i"
  by (simp add: signed_of_int signed_take_bit_int_eq_self)

lemma unat_of_int_fits: "0 \<le> i \<Longrightarrow> i < 4294967296 \<Longrightarrow> unat (of_int i :: u32) = nat i"
  by (simp add: unsigned_of_int take_bit_int_eq_self)

lemma sint_small: "unat x < 2147483648 \<Longrightarrow> sint x = int (unat x)" for x :: u32
proof -
  assume "unat x < 2147483648"
  then have "sint (of_int (int (unat x)) :: u32) = int (unat x)" by (intro sint_of_int_fits) linarith+
  then show ?thesis by simp
qed

lemma u32_of_unat: "x = of_int (int (unat x))" for x :: u32
  by simp

text \<open>The number of frames the device has not taken yet.\<close>

definition queued :: "'d pcm \<Rightarrow> nat" where
  "queued p = (unat (appl_ptr p) + unat (boundary p) - unat (hw_ptr p)) mod unat (boundary p)"

definition ring_ok :: "'d pcm \<Rightarrow> bool" where
  "ring_ok p =
     (stream p = PLAYBACK \<and> 0 < unat (buffer_size p) \<and> unat (buffer_size p) dvd unat (boundary p) \<and>
      unat (buffer_size p) < unat (boundary p) \<and> unat (boundary p) + unat (buffer_size p) < 2 ^ 31 \<and>
      unat (appl_ptr p) < unat (boundary p) \<and> unat (hw_ptr p) < unat (boundary p) \<and>
      queued p \<le> unat (buffer_size p))"

lemma mod_distance: "a < b \<Longrightarrow> h < b \<Longrightarrow> (a + b - h) mod b = (if h \<le> a then a - h else a + b - h)"
  for a b h :: nat
  by (auto simp: mod_if)

lemma queued_eq:
  assumes "ring_ok p"
  shows "queued p = (if unat (hw_ptr p) \<le> unat (appl_ptr p) then unat (appl_ptr p) - unat (hw_ptr p)
    else unat (appl_ptr p) + unat (boundary p) - unat (hw_ptr p))"
  using assms mod_distance by (simp add: queued_def ring_ok_def)

lemma word_avail:
  fixes hw bs appl bd :: u32
  defines "w \<equiv> hw + bs - appl"
  defines "i \<equiv> int (unat hw) + int (unat bs) - int (unat appl)"
  assumes "unat hw < unat bd" "unat appl < unat bd" "unat bd + unat bs < 2 ^ 31"
  shows "unat (if sint w < 0 then w + bd else if w \<ge> bd then w - bd else w) =
    nat (if i < 0 then i + int (unat bd) else if i \<ge> int (unat bd) then i - int (unat bd) else i)"
proof -
  have w: "w = of_int i" "w + bd = of_int (i + int (unat bd))" "w - bd = of_int (i - int (unat bd))"
    unfolding w_def i_def by simp_all
  have "unat bd + unat bs < 2147483648" using assms(5) by simp
  then have I: "int (unat hw) < int (unat bd)" "int (unat appl) < int (unat bd)"
    "int (unat bd) + int (unat bs) < 2147483648"
    "0 \<le> int (unat hw)" "0 \<le> int (unat appl)" "0 \<le> int (unat bs)"
    using assms(3,4) by linarith+
  have s: "sint w = i" unfolding w(1) by (rule sint_of_int_fits) (use I in \<open>unfold i_def, linarith+\<close>)
  have u: "unat (of_int j :: u32) = nat j" if "0 \<le> j" "j \<le> i + int (unat bd)" for j
    by (rule unat_of_int_fits) (use that I in \<open>unfold i_def, linarith+\<close>)
  have le: "i \<ge> 0 \<Longrightarrow> (bd \<le> w) = (int (unat bd) \<le> i)"
    unfolding w(1) word_le_nat_alt using u [of i] by (simp only: le_nat_iff)
  show ?thesis
  proof (cases "i < 0")
    case True
    moreover have "0 \<le> i + int (unat bd)" using I unfolding i_def by linarith
    ultimately show ?thesis unfolding s w(2) using u [of "i + int (unat bd)"] by simp
  next
    case False
    then show ?thesis unfolding s using le u [of i] u [of "i - int (unat bd)"] w by auto
  qed
qed

lemma avail_arith:
  fixes A H b B q :: nat
  assumes "A < B" "H < B" "b < B" "q = (if H \<le> A then A - H else A + B - H)" "q \<le> b"
  shows "nat (if int H + int b - int A < 0 then int H + int b - int A + int B
    else if int H + int b - int A \<ge> int B then int H + int b - int A - int B else int H + int b - int A) = b - q"
  using assms by (cases "H \<le> A") auto

text \<open>The room for new frames, exactly.\<close>

lemma playback_avail:
  assumes "ring_ok p"
  shows "unat (snd_pcm_mmap_playback_avail p) = unat (buffer_size p) - queued p"
proof -
  note R = assms [unfolded ring_ok_def] queued_eq [OF assms]
  have "unat (hw_ptr p) < unat (boundary p)" "unat (appl_ptr p) < unat (boundary p)"
    "unat (boundary p) + unat (buffer_size p) < 2 ^ 31" using R by blast+
  note A = word_avail [OF this]
  show ?thesis
    unfolding snd_pcm_mmap_playback_avail_def Let_def A
    by (rule avail_arith) (use R in auto)
qed

text \<open>Moving the application's pointer adds to the queue.\<close>

lemma forward_ptr:
  fixes x bd n :: u32
  assumes "unat x < unat bd" "unat n \<le> unat bd" "unat bd + unat n < 2 ^ 32"
  shows "unat (if x + n \<ge> bd then x + n - bd else x + n) = (unat x + unat n) mod unat bd"
proof -
  have u: "unat (x + n) = unat x + unat n" using assms by (simp add: unat_word_ariths)
  then have "x + n \<ge> bd \<Longrightarrow> unat (x + n - bd) = unat x + unat n - unat bd"
    by (metis unat_sub)
  moreover have "(unat x + unat n) mod unat bd =
      (if unat x + unat n \<ge> unat bd then unat x + unat n - unat bd else unat x + unat n)"
    using assms(1,2) by (auto simp: mod_if le_mod_geq)
  ultimately show ?thesis using u by (auto simp: word_le_nat_alt)
qed

lemma queued_forward:
  fixes A H B n q :: nat
  assumes "A < B" "H < B" "q = (A + B - H) mod B" "q + n < B"
  shows "((A + n) mod B + B - H) mod B = q + n"
proof -
  have "((A + n) mod B + (B - H)) mod B = (A + n + (B - H)) mod B" by (rule mod_add_left_eq)
  also have "\<dots> = ((A + (B - H)) mod B + n) mod B"
    unfolding mod_add_left_eq by (simp add: add.commute add.left_commute)
  finally show ?thesis using assms by simp
qed

lemma appl_forward:
  assumes "ring_ok p" "unat n \<le> unat (buffer_size p) - queued p"
  shows "ring_ok (snd_pcm_mmap_appl_forward p n)" "queued (snd_pcm_mmap_appl_forward p n) = queued p + unat n"
proof -
  let ?p = "snd_pcm_mmap_appl_forward p n"
  note R = assms(1) [unfolded ring_ok_def]
  have "appl_ptr ?p = (if appl_ptr p + n \<ge> boundary p then appl_ptr p + n - boundary p else appl_ptr p + n)"
    by (simp add: snd_pcm_mmap_appl_forward_def Let_def)
  also have "unat \<dots> = (unat (appl_ptr p) + unat n) mod unat (boundary p)"
    by (rule forward_ptr) (use R assms(2) in auto)
  finally have a: "unat (appl_ptr ?p) = (unat (appl_ptr p) + unat n) mod unat (boundary p)" .
  have f: "hw_ptr ?p = hw_ptr p" "boundary ?p = boundary p" "buffer_size ?p = buffer_size p" "stream ?p = stream p"
    by (simp_all add: snd_pcm_mmap_appl_forward_def Let_def)
  show q: "queued ?p = queued p + unat n"
    unfolding queued_def a f using R assms(2) by (intro queued_forward) (auto simp: queued_def)
  have "queued p + unat n \<le> unat (buffer_size p)" using R assms(2) by linarith
  then show "ring_ok ?p" unfolding ring_ok_def q a f using R by simp
qed

text \<open>The device takes frames from the queue; it may change its own data, and nothing else.\<close>

definition plays :: "'d pcm \<Rightarrow> 'd pcm \<Rightarrow> bool" where
  "plays p p' =
     (\<exists>n h d. n \<le> queued p \<and> unat h = (unat (hw_ptr p) + n) mod unat (boundary p) \<and>
        p' = p\<lparr>hw_ptr := h, private_data := d\<rparr>)"

lemma playsI: "n \<le> queued p \<Longrightarrow> unat h = (unat (hw_ptr p) + n) mod unat (boundary p) \<Longrightarrow>
    plays p (p\<lparr>hw_ptr := h, private_data := d\<rparr>)"
  unfolding plays_def by blast

lemma plays_fields:
  assumes "plays p p'"
  shows "stream p' = stream p" "nonblock p' = nonblock p" "format p' = format p" "buffer_size p' = buffer_size p"
    "boundary p' = boundary p" "running_areas p' = running_areas p" "stopped_areas p' = stopped_areas p"
    "appl_ptr p' = appl_ptr p" "memory p' = memory p"
  using assms unfolding plays_def by auto

lemma queued_played:
  fixes A H B n :: nat
  assumes "A < B" "H < B" "n \<le> (A + B - H) mod B"
  shows "(A + B - (H + n) mod B) mod B = (A + B - H) mod B - n"
proof -
  have q: "(A + B - H) mod B = (if H \<le> A then A - H else A + B - H)" using assms(1,2) by (rule mod_distance)
  have "(H + n) mod B = (if H + n < B then H + n else H + n - B)"
    using assms q by (auto simp: le_mod_geq split: if_splits)
  moreover have "(H + n) mod B < B" using assms(1) by simp
  then have "(A + B - (H + n) mod B) mod B = (if (H + n) mod B \<le> A then A - (H + n) mod B else A + B - (H + n) mod B)"
    using assms(1) by (intro mod_distance)
  ultimately show ?thesis using assms q by (auto split: if_splits)
qed

lemma ring_plays:
  assumes "ring_ok p" "n \<le> queued p" "unat h = (unat (hw_ptr p) + n) mod unat (boundary p)"
  shows "ring_ok (p\<lparr>hw_ptr := h, private_data := d\<rparr>)" "queued (p\<lparr>hw_ptr := h, private_data := d\<rparr>) = queued p - n"
proof -
  note R = assms(1) [unfolded ring_ok_def]
  show q: "queued (p\<lparr>hw_ptr := h, private_data := d\<rparr>) = queued p - n"
    using queued_played [of "unat (appl_ptr p)" "unat (boundary p)" "unat (hw_ptr p)" n] R assms(2,3)
    by (simp add: queued_def)
  have "unat h < unat (boundary p)" using R assms(3) by simp
  then show "ring_ok (p\<lparr>hw_ptr := h, private_data := d\<rparr>)"
    unfolding ring_ok_def q using R by auto
qed

lemma plays_ring: "ring_ok p \<Longrightarrow> plays p p' \<Longrightarrow> ring_ok p'"
  unfolding plays_def by (auto intro: ring_plays(1))

lemma plays_queued: "ring_ok p \<Longrightarrow> plays p p' \<Longrightarrow> queued p' \<le> queued p"
  unfolding plays_def by (auto simp: ring_plays(2))

lemma plays_refl: "ring_ok p \<Longrightarrow> plays p (p\<lparr>private_data := d\<rparr>)"
  using playsI [of 0 p "hw_ptr p" d] by (simp add: ring_ok_def)

lemma plays_trans:
  assumes "ring_ok p" "plays p p1" "plays p1 p2" shows "plays p p2"
proof -
  obtain n h d where n: "n \<le> queued p" "unat h = (unat (hw_ptr p) + n) mod unat (boundary p)"
      "p1 = p\<lparr>hw_ptr := h, private_data := d\<rparr>" using assms(2) unfolding plays_def by blast
  obtain n' h' d' where n': "n' \<le> queued p1" "unat h' = (unat (hw_ptr p1) + n') mod unat (boundary p1)"
      "p2 = p1\<lparr>hw_ptr := h', private_data := d'\<rparr>" using assms(3) unfolding plays_def by blast
  have "n + n' \<le> queued p" using n' ring_plays(2) [OF assms(1) n(1,2), of d] n(1,3) by simp
  moreover have "unat h' = (unat (hw_ptr p) + (n + n')) mod unat (boundary p)"
    using n'(2) n(2,3) by (simp add: mod_add_left_eq add.assoc)
  ultimately show ?thesis using playsI [of "n + n'" p h' d'] n(3) n'(3) by simp
qed

section \<open>The frames in the ring\<close>

text \<open>A frame is a list with the bytes of the sample of each channel.\<close>

definition frame_at :: "nat \<Rightarrow> snd_pcm_channel_area_t list \<Rightarrow> pcm_mem \<Rightarrow> nat \<Rightarrow> u8 list list" where
  "frame_at k as m i = map (\<lambda>a. get (pos a i) k m) as"

definition frames :: "nat \<Rightarrow> snd_pcm_channel_area_t list \<Rightarrow> pcm_mem \<Rightarrow> nat \<Rightarrow> nat \<Rightarrow> u8 list list list" where
  "frames k as m i n = map (\<lambda>j. frame_at k as m (i + j)) [0..<n]"

text \<open>What the device has still to play, in order.\<close>

definition queue :: "nat \<Rightarrow> snd_pcm_channel_area_t list \<Rightarrow> 'd pcm \<Rightarrow> u8 list list list" where
  "queue k ring p =
     map (\<lambda>j. frame_at k ring (memory p) ((unat (hw_ptr p) + j) mod unat (buffer_size p))) [0..<queued p]"

lemma frames_add: "frames k as m i (n + n') = frames k as m i n @ frames k as m (i + n) n'"
  by (rule nth_equalityI) (auto simp: frames_def nth_append add.assoc)

lemma frames_0 [simp]: "frames k as m i 0 = []"
  by (simp add: frames_def)

lemma frames_cong: "(\<And>j. j < n \<Longrightarrow> frame_at k as m (i + j) = frame_at k as m' (i + j)) \<Longrightarrow>
    frames k as m i n = frames k as m' i n"
  by (simp add: frames_def)

lemma queue_plays:
  assumes "ring_ok p" "plays p p'"
  shows "\<exists>n. queue k ring p' = drop n (queue k ring p)"
proof -
  obtain n h d where n: "n \<le> queued p" "unat h = (unat (hw_ptr p) + n) mod unat (boundary p)"
    "p' = p\<lparr>hw_ptr := h, private_data := d\<rparr>" using assms(2) unfolding plays_def by blast
  have "(unat h + j) mod unat (buffer_size p) = (unat (hw_ptr p) + (n + j)) mod unat (buffer_size p)" for j
  proof -
    have "(unat h + j) mod unat (buffer_size p) = (unat h mod unat (buffer_size p) + j) mod unat (buffer_size p)"
      by (simp add: mod_add_left_eq)
    also have "unat h mod unat (buffer_size p) = (unat (hw_ptr p) + n) mod unat (buffer_size p)"
      unfolding n(2) using assms(1) by (intro mod_mod_cancel) (simp add: ring_ok_def)
    finally show ?thesis by (simp add: mod_add_left_eq add.assoc)
  qed
  then have "queue k ring p' = drop n (queue k ring p)"
    using ring_plays(2) [OF assms(1) n(1,2), of d] n(1,3)
    by (intro nth_equalityI) (auto simp: queue_def)
  then show ?thesis ..
qed

text \<open>
  The samples of the ring lie apart from each other and from those of the application.
\<close>

definition ring_apart ::
    "nat \<Rightarrow> snd_pcm_channel_area_t list \<Rightarrow> nat \<Rightarrow> snd_pcm_channel_area_t list \<Rightarrow> nat \<Rightarrow> bool" where
  "ring_apart k ring b user N =
     ((\<forall>a c i j. a < length ring \<longrightarrow> c < length ring \<longrightarrow> i < b \<longrightarrow> j < b \<longrightarrow> (a, i) \<noteq> (c, j) \<longrightarrow>
         extent k (pos (ring ! a) i) \<inter> extent k (pos (ring ! c) j) = {}) \<and>
      (\<forall>a c i j. a < length ring \<longrightarrow> c < length user \<longrightarrow> i < b \<longrightarrow> j < N \<longrightarrow>
         extent k (pos (ring ! a) i) \<inter> extent k (pos (user ! c) j) = {}))"

lemma ring_apart_ring:
  "ring_apart k ring b user N \<Longrightarrow> a < length ring \<Longrightarrow> c < length ring \<Longrightarrow> i < b \<Longrightarrow> j < b \<Longrightarrow>
    (a, i) \<noteq> (c, j) \<Longrightarrow> extent k (pos (ring ! a) i) \<inter> extent k (pos (ring ! c) j) = {}"
  unfolding ring_apart_def by blast

lemma ring_apart_user:
  "ring_apart k ring b user N \<Longrightarrow> a < length ring \<Longrightarrow> c < length user \<Longrightarrow> i < b \<Longrightarrow> j < N \<Longrightarrow>
    extent k (pos (ring ! a) i) \<inter> extent k (pos (user ! c) j) = {}"
  unfolding ring_apart_def by blast

lemma ring_apart_separate:
  assumes "ring_apart k ring b user N" "length user = length ring" "o1 + n \<le> b" "o2 + n \<le> N"
  shows "separate k (channel_samples ring o1 user o2 n)"
  unfolding separate_def
proof (intro allI impI conjI)
  fix d s d' s'
  assume "(d, s) \<in> channel_samples ring o1 user o2 n" "(d', s') \<in> channel_samples ring o1 user o2 n"
  then obtain a i c j where ai: "a < length ring" "i < n" "d = pos (ring ! a) (o1 + i)" "s = pos (user ! a) (o2 + i)"
    and cj: "c < length ring" "j < n" "d' = pos (ring ! c) (o1 + j)" "s' = pos (user ! c) (o2 + j)"
    unfolding channel_samples_def by auto
  show "extent k d \<inter> extent k s' = {}"
    unfolding ai cj using assms(2-) ai(1,2) cj(1,2) by (intro ring_apart_user [OF assms(1)]) auto
  show "d = d' \<and> s = s' \<or> extent k d \<inter> extent k d' = {}"
  proof (cases "(a, i) = (c, j)")
    case False
    then have "extent k d \<inter> extent k d' = {}"
      unfolding ai cj using assms(3) ai(1,2) cj(1,2) by (intro ring_apart_ring [OF assms(1)]) auto
    then show ?thesis ..
  next
    case True
    then have "a = c" "i = j" by simp_all
    then show ?thesis using ai(3,4) cj(3,4) by simp
  qed
qed

lemma get_cong: "(\<And>x. x \<in> extent k a \<Longrightarrow> m x = m' x) \<Longrightarrow> get a k m = get a k m'"
  by (simp add: get_def)

lemma copied_frames:
  assumes c: "copied k (channel_samples ring o1 user o2 n) m m'"
    and apart: "ring_apart k ring b user N" "length user = length ring" "o1 + n \<le> b" "o2 + n \<le> N"
  shows "i < n \<Longrightarrow> frame_at k ring m' (o1 + i) = frame_at k user m (o2 + i)"
    and "j < b \<Longrightarrow> j \<notin> {o1..<o1 + n} \<Longrightarrow> frame_at k ring m' j = frame_at k ring m j"
    and "j < N \<Longrightarrow> frame_at k user m' j = frame_at k user m j"
proof -
  have out: "get a k m' = get a k m"
    if "\<And>c i. c < length ring \<Longrightarrow> i < n \<Longrightarrow> extent k (pos (ring ! c) (o1 + i)) \<inter> extent k a = {}" for a
  proof (rule get_cong)
    fix x assume x: "x \<in> extent k a"
    have "x \<notin> extent k d" if "(d, s) \<in> channel_samples ring o1 user o2 n" for d s
      using that \<open>\<And>c i. c < length ring \<Longrightarrow> i < n \<Longrightarrow> extent k (pos (ring ! c) (o1 + i)) \<inter> extent k a = {}\<close> x
      unfolding channel_samples_def by blast
    then show "m' x = m x" by (rule copied_out [OF c])
  qed
  show "frame_at k ring m' (o1 + i) = frame_at k user m (o2 + i)" if "i < n"
  proof (rule nth_equalityI)
    fix a assume "a < length (frame_at k ring m' (o1 + i))"
    then have a: "a < length ring" by (simp add: frame_at_def)
    have "(pos (ring ! a) (o1 + i), pos (user ! a) (o2 + i)) \<in> channel_samples ring o1 user o2 n"
      using a that unfolding channel_samples_def by blast
    from copied_in [OF c this] have "get (pos (ring ! a) (o1 + i)) k m' = get (pos (user ! a) (o2 + i)) k m"
      unfolding get_def by (intro nth_equalityI) auto
    then show "frame_at k ring m' (o1 + i) ! a = frame_at k user m (o2 + i) ! a"
      using a apart(2) by (simp add: frame_at_def)
  qed (simp add: frame_at_def apart(2))
  show "frame_at k ring m' j = frame_at k ring m j" if j: "j < b" "j \<notin> {o1..<o1 + n}"
  proof -
    have "get (pos x j) k m' = get (pos x j) k m" if "x \<in> set ring" for x
    proof -
      obtain a where a: "a < length ring" "x = ring ! a" using \<open>x \<in> set ring\<close> by (auto simp: in_set_conv_nth)
      show ?thesis unfolding a(2)
        by (rule out, rule ring_apart_ring [OF apart(1)]) (use a(1) j apart(3) in auto)
    qed
    then show ?thesis by (simp add: frame_at_def)
  qed
  show "frame_at k user m' j = frame_at k user m j" if j: "j < N"
  proof -
    have "get (pos x j) k m' = get (pos x j) k m" if "x \<in> set user" for x
    proof -
      obtain a where a: "a < length user" "x = user ! a" using \<open>x \<in> set user\<close> by (auto simp: in_set_conv_nth)
      show ?thesis unfolding a(2)
        by (rule out, rule ring_apart_user [OF apart(1)]) (use a(1) j apart(3) in auto)
    qed
    then show ?thesis by (simp add: frame_at_def)
  qed
qed

section \<open>Appending frames\<close>

lemma appl_pos:
  assumes "ring_ok p"
  shows "(unat (hw_ptr p) + queued p) mod unat (buffer_size p) = unat (appl_ptr p) mod unat (buffer_size p)"
proof -
  note R = assms [unfolded ring_ok_def]
  have "unat (hw_ptr p) + queued p = unat (appl_ptr p) \<or>
      unat (hw_ptr p) + queued p = unat (appl_ptr p) + unat (boundary p)"
    using R queued_eq [OF assms] by auto
  moreover have "(unat (appl_ptr p) + unat (boundary p)) mod unat (buffer_size p) =
      unat (appl_ptr p) mod unat (buffer_size p)"
    using R by (metis add.right_neutral dvd_imp_mod_0 mod_add_right_eq)
  ultimately show ?thesis by auto
qed

lemma queue_append:
  fixes n r :: u32
  defines "off \<equiv> \<lambda>p. unat (appl_ptr p) mod unat (buffer_size p)"
  assumes R: "ring_ok p" and n: "unat n \<le> unat (buffer_size p) - queued p" "off p + unat n \<le> unat (buffer_size p)"
    and r: "unat r \<le> unat n"
    and put: "\<And>i. i < unat n \<Longrightarrow> frame_at k ring m' (off p + i) = fs i"
    and keep: "\<And>j. j < unat (buffer_size p) \<Longrightarrow> j \<notin> {off p..<off p + unat n} \<Longrightarrow>
      frame_at k ring m' j = frame_at k ring (memory p) j"
  shows "queue k ring (snd_pcm_mmap_appl_forward (p\<lparr>memory := m'\<rparr>) r) = queue k ring p @ map fs [0..<unat r]"
proof -
  let ?p = "snd_pcm_mmap_appl_forward (p\<lparr>memory := m'\<rparr>) r" and ?b = "unat (buffer_size p)" and ?H = "unat (hw_ptr p)"
  have pm: "ring_ok (p\<lparr>memory := m'\<rparr>)" "queued (p\<lparr>memory := m'\<rparr>) = queued p"
    using R by (auto simp: ring_ok_def queued_def)
  have q: "queued ?p = queued p + unat r" using appl_forward(2) [OF pm(1)] n(1) r pm(2) by simp
  have f: "hw_ptr ?p = hw_ptr p" "buffer_size ?p = buffer_size p" "memory ?p = m'"
    by (simp_all add: snd_pcm_mmap_appl_forward_def Let_def)
  have b: "0 < ?b" using R by (simp add: ring_ok_def)
  have behind: "(?H + (queued p + i)) mod ?b = off p + i" if "i < unat n" for i
  proof -
    have "(?H + (queued p + i)) mod ?b = (off p + i) mod ?b"
      unfolding off_def appl_pos [OF R, symmetric] by (simp add: mod_add_left_eq add.assoc)
    then show ?thesis using that n(2) by simp
  qed
  have front: "(?H + j) mod ?b \<notin> {off p..<off p + unat n}" if j: "j < queued p" for j
  proof
    assume "(?H + j) mod ?b \<in> {off p..<off p + unat n}"
    then obtain i where i: "i < unat n" "(?H + j) mod ?b = off p + i"
      by (metis add_less_cancel_left atLeastLessThan_iff le_Suc_ex)
    then have "(?H + (queued p + i)) mod ?b = (?H + j) mod ?b" using behind by simp
    moreover have "?H + j \<le> ?H + (queued p + i)" using j by simp
    ultimately have "?b dvd ?H + (queued p + i) - (?H + j)" by (simp only: mod_eq_dvd_iff_nat)
    then have "?b dvd queued p + i - j" by simp
    moreover have "0 < queued p + i - j" "queued p + i - j < ?b" using i(1) j n(1) by linarith+
    ultimately show False by (meson nat_dvd_not_less)
  qed
  show ?thesis
  proof (rule nth_equalityI)
    fix j assume "j < length (queue k ring ?p)"
    then have j: "j < queued p + unat r" by (simp add: queue_def q)
    show "queue k ring ?p ! j = (queue k ring p @ map fs [0..<unat r]) ! j"
    proof (cases "j < queued p")
      case True
      then show ?thesis using keep [OF _ front] j b by (simp add: queue_def q f nth_append)
    next
      case False
      then obtain i where i: "j = queued p + i" "i < unat r" using j by (metis add_less_cancel_left le_Suc_ex not_less)
      then have "i < unat n" using r by simp
      then show ?thesis using i put behind by (simp add: queue_def q f nth_append)
    qed
  qed (simp add: queue_def q)
qed

text \<open>
  What stays the same while a write runs: the ring lies in \<open>running_areas\<close>, the application's frames in
  \<open>N\<close> frames of its own areas, samples are whole bytes.
\<close>

definition setting ::
    "nat \<Rightarrow> snd_pcm_channel_area_t list \<Rightarrow> snd_pcm_channel_area_t list \<Rightarrow> nat \<Rightarrow> 'd pcm \<Rightarrow> bool" where
  "setting k ring user N p =
     (byte_format (format p) k \<and> ring \<noteq> [] \<and> length user = length ring \<and>
      running_areas p = Some ring \<and> stopped_areas p = None \<and>
      areas_ok k (unat (buffer_size p)) ring \<and> areas_ok k N user \<and>
      ring_apart k ring (unat (buffer_size p)) user N)"

lemma areas_ok_mono: "areas_ok k n as \<Longrightarrow> n' \<le> n \<Longrightarrow> areas_ok k n' as"
  unfolding areas_ok_def list_all_iff area_ok_def
  by (meson add_le_mono le_less_trans mult_le_mono2 order_refl)

text \<open>
  Frames \<open>o\<close> to \<open>o + n - 1\<close> of the application have been appended to the queue, while the device may
  have played some from the front.
\<close>

definition appends ::
    "nat \<Rightarrow> snd_pcm_channel_area_t list \<Rightarrow> snd_pcm_channel_area_t list \<Rightarrow> nat \<Rightarrow> nat \<Rightarrow> nat \<Rightarrow>
      'd pcm \<Rightarrow> 'd pcm \<Rightarrow> bool" where
  "appends k ring user N i n p p' =
     (ring_ok p' \<and> setting k ring user N p' \<and> nonblock p' = nonblock p \<and>
      (\<exists>played. played @ queue k ring p' = queue k ring p @ frames k user (memory p) i n) \<and>
      (\<forall>j < N. frame_at k user (memory p') j = frame_at k user (memory p) j))"

lemma appends_plays:
  assumes "ring_ok p" "setting k ring user N p" "plays p p'"
  shows "appends k ring user N i 0 p p'"
proof -
  obtain n where "queue k ring p' = drop n (queue k ring p)" using queue_plays [OF assms(1,3)] by blast
  then have "take n (queue k ring p) @ queue k ring p' = queue k ring p @ frames k user (memory p) i 0" by simp
  then show ?thesis
    using assms plays_ring [OF assms(1,3)] plays_fields [OF assms(3)]
    unfolding appends_def setting_def by metis
qed

lemma appends_trans:
  assumes "appends k ring user N i n p p1" "appends k ring user N (i + n) n' p1 p2" "i + n + n' \<le> N"
  shows "appends k ring user N i (n + n') p p2"
proof -
  obtain x where x: "x @ queue k ring p1 = queue k ring p @ frames k user (memory p) i n"
    using assms(1) unfolding appends_def by blast
  obtain y where y: "y @ queue k ring p2 = queue k ring p1 @ frames k user (memory p1) (i + n) n'"
    using assms(2) unfolding appends_def by blast
  have "frames k user (memory p1) (i + n) n' = frames k user (memory p) (i + n) n'"
    using assms(1,3) unfolding appends_def by (intro frames_cong) auto
  then have "(x @ y) @ queue k ring p2 = queue k ring p @ frames k user (memory p) i (n + n')"
    using x y by (simp add: frames_add)
  then show ?thesis using assms unfolding appends_def by metis
qed

lemma appends_0: "appends k ring user N i 0 p p1 \<Longrightarrow> appends k ring user N i n p1 p2 \<Longrightarrow> i + n \<le> N \<Longrightarrow>
    appends k ring user N i n p p2"
  using appends_trans [of k ring user N i 0 p p1 n p2] by simp

section \<open>Devices\<close>

text \<open>The device fails to start: the only case in which frames are moved and not counted.\<close>

definition may_fail_to_start :: "'d fast_ops \<Rightarrow> bool" where
  "may_fail_to_start ops = (\<exists>p p' r. op_start ops p = Inr (r, p') \<and> r < 0)"

text \<open>What one turn of the loop does: the frames moved, counted or not.\<close>

definition turn_ok ::
    "'d fast_ops \<Rightarrow> nat \<Rightarrow> snd_pcm_channel_area_t list \<Rightarrow> snd_pcm_channel_area_t list \<Rightarrow> nat \<Rightarrow>
      nat \<Rightarrow> nat \<Rightarrow> snd_pcm_state_t \<Rightarrow> int \<Rightarrow> 'd pcm \<Rightarrow> 'd turn \<Rightarrow> bool" where
  "turn_ok ops k ring user N i n st err p t =
     (case t of
        Leave e p' \<Rightarrow>
          (\<exists>c \<le> n. appends k ring user N i c p p' \<and> (c > 0 \<longrightarrow> may_fail_to_start ops \<and> e < 0)) \<and>
          (e \<le> 0 \<or> e = err \<and> st \<noteq> RUNNING)
      | Again e p' \<Rightarrow> appends k ring user N i 0 p p' \<and> \<not> nonblock p \<and> st = RUNNING
      | Moved st' f e p' \<Rightarrow> 0 < unat f \<and> unat f \<le> n \<and> appends k ring user N i (unat f) p p')"

text \<open>
  The value a write returns when \<open>c\<close> frames have been appended: their number, or an error if there
  are none; less only when the device fails to start.
\<close>

definition outcome :: "'d fast_ops \<Rightarrow> nat \<Rightarrow> int \<Rightarrow> bool" where
  "outcome ops c r = (r = int c \<or> r < 0 \<and> c = 0 \<or> may_fail_to_start ops \<and> r < int c)"

text \<open>
  What the write functions rely on. Every operation returns and does nothing to the ring but to play
  from its front; a commit moves the application's pointer by the number of frames it returns, at most
  those asked for, or fails.
\<close>

locale playback_device =
  fixes ops :: "'d fast_ops"
  assumes state_plays: "ring_ok p \<Longrightarrow> op_state ops p = (st, p') \<Longrightarrow> plays p p'"
    and hwsync_plays: "ring_ok p \<Longrightarrow> \<exists>r p'. op_hwsync ops p = Inr (r, p') \<and> r \<le> 0 \<and> plays p p'"
    and avail_plays: "ring_ok p \<Longrightarrow> \<exists>r p'. op_avail_update ops p = Inr (r, p') \<and> plays p p'"
    and start_plays: "ring_ok p \<Longrightarrow> op_state ops p = (PREPARED, p1) \<Longrightarrow>
      \<exists>r p'. op_start ops p1 = Inr (r, p') \<and> plays p1 p'"
    and wait_plays: "ring_ok p \<Longrightarrow> \<exists>r p'. wait_nocheck ops p = Inr (r, p') \<and> plays p p'"
    and commit_plays: "ring_ok p \<Longrightarrow> 0 < unat n \<Longrightarrow> unat n \<le> unat (buffer_size p) - queued p \<Longrightarrow>
      \<exists>r p'. op_mmap_commit ops off n p = Inr (r, p') \<and>
        (r < 0 \<and> plays p p' \<or>
         0 < r \<and> r \<le> uint n \<and> plays (snd_pcm_mmap_appl_forward p (of_int r)) p')"
begin

lemma begin_access:
  assumes "ring_ok p" "setting k ring user N p" "0 < unat n" "unat n \<le> unat (buffer_size p) - queued p"
  shows "\<exists>f. snd_pcm_mmap_begin ops n p = (Some (ring, appl_ptr p mod buffer_size p, f), p) \<and>
    0 < unat f \<and> unat f \<le> unat n \<and>
    unat (appl_ptr p) mod unat (buffer_size p) + unat f \<le> unat (buffer_size p)"
proof -
  let ?off = "appl_ptr p mod buffer_size p" and ?a = "snd_pcm_mmap_playback_avail p"
  have b: "unat ?off < unat (buffer_size p)" using assms(1) by (simp add: unat_mod ring_ok_def)
  then have c: "unat (buffer_size p - ?off) = unat (buffer_size p) - unat ?off" by (simp add: unat_sub word_le_nat_alt)
  have a: "unat ?a = unat (buffer_size p) - queued p" by (rule playback_avail [OF assms(1)])
  have room: "\<not> ?a > buffer_size p" "\<not> n > ?a" using a assms(4) by (simp_all add: word_less_nat_alt)
  have "snd_pcm_mmap_begin ops n p =
      (Some (ring, ?off, if n > buffer_size p - ?off then buffer_size p - ?off else n), p)"
    using assms(1,2) room unfolding snd_pcm_mmap_begin_def snd_pcm_mmap_areas_def snd_pcm_mmap_avail_def setting_def ring_ok_def
    by (simp add: Let_def)
  then show ?thesis using b c assms(3) by (auto simp: unat_mod word_less_nat_alt)
qed

lemma turn_appends:
  assumes R: "ring_ok p" and S: "setting k ring user N p"
    and n: "0 < unat n" "unat n \<le> unat (buffer_size p) - queued p" "unat i + unat n \<le> N"
  shows "\<exists>r p'. mmap_turn ops True user i n p = Inr (r, p') \<and> r \<le> uint n \<and> r \<noteq> 0 \<and>
    appends k ring user N (unat i) (nat r) p p' \<and>
    buffer_size p' = buffer_size p \<and> queued p' \<le> queued p + nat r"
proof -
  let ?off = "appl_ptr p mod buffer_size p" and ?b = "unat (buffer_size p)"
  obtain f where f: "snd_pcm_mmap_begin ops n p = (Some (ring, ?off, f), p)" "0 < unat f" "unat f \<le> unat n"
      "unat ?off + unat f \<le> ?b"
    using begin_access [OF R S n(1,2)] by (auto simp: unat_mod)
  have apart: "ring_apart k ring ?b user N" and len: "length user = length ring" using S by (auto simp: setting_def)
  have fi: "unat i + unat f \<le> N" using f(3) n(3) by simp
  have f0: "f \<noteq> 0" using f(2) by (simp add: unat_gt_0)
  have "areas_ok k (unat ?off + unat f) ring" "areas_ok k (unat i + unat f) user"
    using S f(4) fi unfolding setting_def by (auto elim: areas_ok_mono)
  then obtain m' where m': "snd_pcm_areas_copy False ring ?off user i f (format p) (memory p) = Inr (0, m')"
      and cp: "copied k (channel_samples ring (unat ?off) user (unat i) (unat f)) (memory p) m'"
    using areas_copied [of "format p" k ring user f False ?off i "memory p"] S f0
      ring_apart_separate [OF apart len f(4) fi] unfolding setting_def by blast
  note F = copied_frames [OF cp apart len f(4) fi]
  let ?p = "p\<lparr>memory := m'\<rparr>"
  have P: "ring_ok ?p" "queued ?p = queued p" "setting k ring user N ?p" using R S by (auto simp: ring_ok_def queued_def setting_def)
  have app: "appends k ring user N (unat i) (unat r) p (snd_pcm_mmap_appl_forward ?p r)"
    if r: "unat r \<le> unat f" for r
  proof -
    have "unat f \<le> ?b - queued p" using f(3) n(2) by simp
    then have "queue k ring (snd_pcm_mmap_appl_forward ?p r) = queue k ring p @ frames k user (memory p) (unat i) (unat r)"
      unfolding frames_def using f(4) F(1,2) by (intro queue_append [OF R _ _ r]) (auto simp: unat_mod)
    then have "\<exists>x. x @ queue k ring (snd_pcm_mmap_appl_forward ?p r) =
        queue k ring p @ frames k user (memory p) (unat i) (unat r)" by (intro exI [of _ "[]"]) simp
    moreover have "ring_ok (snd_pcm_mmap_appl_forward ?p r)"
      using r f(3) n(2) P(2) by (intro appl_forward(1) [OF P(1)]) simp
    moreover have "setting k ring user N (snd_pcm_mmap_appl_forward ?p r)"
      using S by (simp add: setting_def snd_pcm_mmap_appl_forward_def Let_def)
    ultimately show ?thesis
      unfolding appends_def using F(3) by (simp add: snd_pcm_mmap_appl_forward_def Let_def)
  qed
  have turn: "mmap_turn ops True user i n p = op_mmap_commit ops ?off f ?p"
    by (simp add: mmap_turn_def f(1) m' snd_pcm_mmap_commit_def CHECK_SANITY_def)
  have "unat f \<le> unat (buffer_size ?p) - queued ?p" using f(3) n(2) P(2) by simp
  from commit_plays [OF P(1) f(2) this] obtain r p' where r: "op_mmap_commit ops ?off f ?p = Inr (r, p')"
      "r < 0 \<and> plays ?p p' \<or> 0 < r \<and> r \<le> uint f \<and> plays (snd_pcm_mmap_appl_forward ?p (of_int r)) p'" by blast
  show ?thesis
  proof (cases "r < 0")
    case True
    then have "plays ?p p'" using r(2) by simp
    have "snd_pcm_mmap_appl_forward ?p 0 = ?p"
      using R by (simp add: snd_pcm_mmap_appl_forward_def ring_ok_def word_le_nat_alt)
    then have "appends k ring user N (unat i) 0 p ?p" using app [of 0] by simp
    from appends_trans [OF this, of 0 p'] appends_plays [OF P(1,3) \<open>plays ?p p'\<close>] fi
    have "appends k ring user N (unat i) 0 p p'" by simp
    moreover have "queued p' \<le> queued p" using plays_queued [OF P(1) \<open>plays ?p p'\<close>] P(2) by simp
    moreover have "buffer_size p' = buffer_size p" using plays_fields [OF \<open>plays ?p p'\<close>] by simp
    moreover have "r \<le> uint n" using True uint_ge_0 [of n] by linarith
    ultimately show ?thesis using turn r(1) True by simp
  next
    case False
    let ?q = "snd_pcm_mmap_appl_forward ?p (of_int r)"
    from False r(2) have pl: "plays ?q p'" and r0: "0 < r" and rf: "r \<le> uint f" by auto
    have u: "unat (of_int r :: u32) = nat r"
      using r0 rf uint_lt2p [of f] by (intro unat_of_int_fits) auto
    have le: "nat r \<le> unat f" using rf by (simp add: nat_le_iff)
    have q: "ring_ok ?q" "queued ?q = queued p + nat r"
      using appl_forward [OF P(1), of "of_int r"] u le f(3) n(2) P(2) by auto
    have a: "appends k ring user N (unat i) (nat r) p ?q" using app [of "of_int r"] u le by simp
    then have "setting k ring user N ?q" by (simp add: appends_def)
    from appends_trans [OF a, of 0 p'] appends_plays [OF q(1) this pl] fi le
    have "appends k ring user N (unat i) (nat r) p p'" by simp
    moreover have "queued p' \<le> queued p + nat r" using plays_queued [OF q(1) pl] q(2) by simp
    moreover have "buffer_size p' = buffer_size p"
      using plays_fields [OF pl] by (simp add: snd_pcm_mmap_appl_forward_def Let_def)
    moreover have "nat r \<le> unat n" using le f(3) by simp
    then have "r \<le> uint n" by (simp add: nat_le_iff)
    ultimately show ?thesis using turn r(1) r0 by simp
  qed
qed

lemma loop_appends:
  assumes "N < 2 ^ 32"
  shows "ring_ok p \<Longrightarrow> setting k ring user N p \<Longrightarrow> unat n \<le> unat (buffer_size p) - queued p \<Longrightarrow>
    unat i + unat n \<le> N \<Longrightarrow> unat xfer + unat n < 2 ^ 31 \<Longrightarrow>
    \<exists>r p' c. mmap_loop ops True user i n xfer p = Some (Inr (r, p')) \<and> c \<le> unat n \<and>
      appends k ring user N (unat i) c p p' \<and>
      (if r < 0 then c = 0 \<and> xfer = 0 else r = int (unat xfer + c) \<and> (0 < unat n \<longrightarrow> 0 < r))"
proof (induction "unat n" arbitrary: n i xfer p rule: less_induct)
  case less
  note R = less.prems(1) and S = less.prems(2) and room = less.prems(3) and iN = less.prems(4) and xn = less.prems(5)
  show ?case
  proof (cases "n = 0")
    case True
    have "appends k ring user N (unat i) 0 p p"
      using appends_plays [OF R S plays_refl [OF R, of "private_data p"]] by simp
    moreover have "mmap_loop ops True user i n xfer p = Some (Inr (sint xfer, p))"
      by (subst mmap_loop.simps) (simp add: True)
    ultimately show ?thesis using True xn sint_small [of xfer]
      by (intro exI [of _ "sint xfer"] exI [of _ p] exI [of _ 0]) auto
  next
    case False
    then have n0: "0 < unat n" by (simp add: unat_gt_0)
    obtain r p1 where t: "mmap_turn ops True user i n p = Inr (r, p1)" "r \<le> uint n" "r \<noteq> 0"
        "appends k ring user N (unat i) (nat r) p p1" "buffer_size p1 = buffer_size p" "queued p1 \<le> queued p + nat r"
      using turn_appends [OF R S n0 room iN] by blast
    show ?thesis
    proof (cases "r < 0")
      case True
      then have "mmap_loop ops True user i n xfer p =
          Some (Inr (if xfer > 0 then sint xfer else r, p1))"
        by (subst mmap_loop.simps) (simp add: False t(1))
      moreover have "xfer \<noteq> 0 \<Longrightarrow> 0 < uint xfer" by (metis less_le uint_0_iff uint_ge_0)
      ultimately show ?thesis using True t(4) xn sint_small [of xfer]
        by (intro exI [of _ "if xfer > 0 then sint xfer else r"] exI [of _ p1] exI [of _ 0])
          (auto simp: word_gt_0 unat_gt_0)
    next
      case False
      then have r0: "0 < r" using t(3) by simp
      have rn: "nat r \<le> unat n" using t(2) by (simp add: nat_le_iff)
      have u: "unat (of_int r :: u32) = nat r"
        using r0 t(2) uint_lt2p [of n] by (intro unat_of_int_fits) auto
      have nu: "unat (n - of_int r) = unat n - nat r" using u rn by (simp add: unat_sub word_le_nat_alt)
      have iu: "unat (i + of_int r) = unat i + nat r"
        using u rn iN assms by (simp add: unat_word_ariths)
      have xu: "unat (xfer + of_int r) = unat xfer + nat r"
        using u rn xn by (simp add: unat_word_ariths)
      have "unat (buffer_size p) - queued p - nat r \<le> unat (buffer_size p1) - queued p1"
        using t(5,6) by (simp add: diff_le_mono2)
      then have room1: "unat n - nat r \<le> unat (buffer_size p1) - queued p1"
        using diff_le_mono [OF room, of "nat r"] by linarith
      have "\<exists>r' p' c. mmap_loop ops True user (i + of_int r) (n - of_int r) (xfer + of_int r) p1 = Some (Inr (r', p')) \<and>
          c \<le> unat (n - of_int r) \<and> appends k ring user N (unat (i + of_int r)) c p1 p' \<and>
          (if r' < 0 then c = 0 \<and> xfer + of_int r = 0
           else r' = int (unat (xfer + of_int r) + c) \<and> (0 < unat (n - of_int r) \<longrightarrow> 0 < r'))"
        using t(4) room1 iN xn rn r0 n0 nu iu xu by (intro less.hyps) (auto simp: appends_def)
      then obtain r' p' c where l: "mmap_loop ops True user (i + of_int r) (n - of_int r) (xfer + of_int r) p1 = Some (Inr (r', p'))"
          "c \<le> unat n - nat r" "appends k ring user N (unat i + nat r) c p1 p'"
          "if r' < 0 then c = 0 \<and> xfer + of_int r = 0
           else r' = int (unat xfer + nat r + c) \<and> (0 < unat n - nat r \<longrightarrow> 0 < r')"
        unfolding nu iu xu by blast
      have "xfer + of_int r \<noteq> 0" using xu r0 by (metis add_is_0 unat_0 nat_0_iff not_less)
      then have "\<not> r' < 0" "r' = int (unat xfer + (nat r + c))" using l(4) by (auto split: if_splits)
      moreover have "appends k ring user N (unat i) (nat r + c) p p'"
        using appends_trans [OF t(4) l(3)] l(2) rn iN by simp
      moreover have "mmap_loop ops True user i n xfer p = Some (Inr (r', p'))"
        using l(1) by (subst mmap_loop.simps) (simp add: False n0 t(1) \<open>n \<noteq> 0\<close>)
      moreover have "nat r + c \<le> unat n" using l(2) rn by simp
      moreover have "0 < r'" using \<open>r' = int (unat xfer + (nat r + c))\<close> r0 by linarith
      ultimately show ?thesis
        by (intro exI [of _ r'] exI [of _ p'] exI [of _ "nat r + c"]) simp
    qed
  qed
qed

lemma write_areas_appends:
  assumes "ring_ok p" "setting k ring user N p" "0 < unat n" "unat n < 2 ^ 31" "unat i + unat n \<le> N" "N < 2 ^ 32"
  shows "\<exists>r p'. snd_pcm_mmap_write_areas ops p user i n = Some (Inr (r, p')) \<and> r \<le> uint n \<and> r \<noteq> 0 \<and>
    appends k ring user N (unat i) (nat r) p p'"
proof (cases "snd_pcm_mmap_playback_avail p < n")
  case True
  have "appends k ring user N (unat i) 0 p p"
    using appends_plays [OF assms(1,2) plays_refl [OF assms(1), of "private_data p"]] by simp
  moreover have "- EPIPE \<le> uint n" using uint_ge_0 [of n] by linarith
  ultimately show ?thesis using True
    by (intro exI [of _ "- EPIPE"] exI [of _ p]) (auto simp: snd_pcm_mmap_write_areas_def)
next
  case False
  then have "unat n \<le> unat (buffer_size p) - queued p"
    using playback_avail [OF assms(1)] by (simp add: word_less_nat_alt)
  then obtain r p' c where l: "mmap_loop ops True user i n 0 p = Some (Inr (r, p'))" "c \<le> unat n"
      "appends k ring user N (unat i) c p p'"
      "if r < 0 then c = 0 \<and> (0 :: u32) = 0 else r = int (unat (0 :: u32) + c) \<and> (0 < unat n \<longrightarrow> 0 < r)"
    using loop_appends [OF assms(6,1,2), of n i 0] assms(3-5) by auto
  then have "nat r = c" "r \<noteq> 0" using assms(3) by (auto split: if_splits)
  moreover from this l(2) have "r \<le> uint n" by (auto simp: nat_le_iff)
  ultimately show ?thesis using False l by (auto simp: snd_pcm_mmap_write_areas_def)
qed

lemma wait_ok: "ring_ok p \<Longrightarrow> \<exists>r p'. snd_pcm_wait ops p = Inr (r, p') \<and> plays p p'"
  using wait_plays state_plays unfolding snd_pcm_wait_def snd_pcm_state_def
  by (fastforce split: option.splits prod.splits)

lemma after_write_ok:
  assumes "ring_ok p" "setting k ring user N p" "appends k ring user N i (nat r) p0 p" "0 < r" "r \<le> int n"
    "n < 2 ^ 32" "i + n \<le> N"
  shows "\<exists>t. after_write ops st avail r p = Inr t \<and> turn_ok ops k ring user N i n st err p0 t"
proof -
  have u: "unat (of_int r :: u32) = nat r" using assms(4-6) by (intro unat_of_int_fits) auto
  have c: "0 < nat r" "nat r \<le> n" using assms(4,5) by auto
  have more: "appends k ring user N i (nat r) p0 p'" if "plays p p'" for p'
    using appends_trans [OF assms(3), of 0 p'] appends_plays [OF assms(1,2) that, of "i + nat r"] c assms(7) by simp
  obtain st1 p1 where s: "op_state ops p = (st1, p1)" by (cases "op_state ops p")
  have p1: "plays p p1" by (rule state_plays [OF assms(1) s])
  show ?thesis
  proof (cases "st = PREPARED \<and> st1 = PREPARED \<and>
      sint (buffer_size p - avail + of_int r) \<ge> sint (start_threshold p1)")
    case True
    then obtain r2 p2 where r2: "op_start ops p1 = Inr (r2, p2)" "plays p1 p2"
      using start_plays [OF assms(1)] s by blast
    have "plays p p2" by (rule plays_trans [OF assms(1) p1 r2(2)])
    from more [OF this] show ?thesis
      using True s r2 u c
      by (auto simp: after_write_def snd_pcm_state_def snd_pcm_start_def if_setup_def CHECK_SANITY_def Let_def turn_ok_def
          may_fail_to_start_def intro!: exI [of _ "nat r"])
  next
    case False
    then show ?thesis
      using s u c more [OF p1] assms(3)
      by (auto simp: after_write_def snd_pcm_state_def Let_def turn_ok_def)
  qed
qed

lemma xfer_turn_ok:
  assumes "N < 2 ^ 32" and R: "ring_ok p" and S: "setting k ring user N p"
    and n: "0 < unat n" "unat n < 2 ^ 31" "unat i + unat n \<le> N"
  shows "\<exists>t. xfer_turn ops (after_write ops) (st = RUNNING) (snd_pcm_mmap_write_areas ops) user st i n err p =
      Some (Inr t) \<and> turn_ok ops k ring user N (unat i) (unat n) st err p t"
proof -
  let ?app = "\<lambda>c. appends k ring user N (unat i) c p"
  obtain r0 q0 where hw: "op_hwsync ops p = Inr (r0, q0)" "r0 \<le> 0" "plays p q0" using hwsync_plays [OF R] by blast
  obtain e1 p1 where h: "(if st = RUNNING then snd_pcm_hwsync ops p else Inr (err, p)) = Inr (e1, p1)"
      "plays p p1" "e1 \<le> 0 \<or> e1 = err \<and> st \<noteq> RUNNING"
    using hw plays_refl [OF R, of "private_data p"]
    by (cases "st = RUNNING") (auto simp: snd_pcm_hwsync_def if_setup_def CHECK_SANITY_def)
  have R1: "ring_ok p1" by (rule plays_ring [OF R h(2)])
  obtain a p2 where a: "op_avail_update ops p1 = Inr (a, p2)" "plays p1 p2" using avail_plays [OF R1] by blast
  have p2: "plays p p2" by (rule plays_trans [OF R h(2) a(2)])
  have A: "?app 0 p1" "?app 0 p2" using appends_plays [OF R S] h(2) p2 by blast+
  have R2: "ring_ok p2" "setting k ring user N p2" "nonblock p2 = nonblock p" using A(2) by (auto simp: appends_def)
  obtain w p3 where w: "snd_pcm_wait ops p2 = Inr (w, p3)" "plays p2 p3" using wait_ok [OF R2(1)] by blast
  have p3: "?app 0 p3" using appends_plays [OF R S plays_trans [OF R p2 w(2)]] .
  let ?f = "if n > of_int a then of_int a else n"
  have f: "unat ?f \<le> unat n" by (simp add: word_less_nat_alt)
  consider "st = RUNNING" "e1 < 0" | "\<not> (st = RUNNING \<and> e1 < 0)" "a < 0"
    | "\<not> (st = RUNNING \<and> e1 < 0)" "\<not> a < 0" "st = RUNNING \<and> of_int a < avail_min p2 \<and> n > of_int a"
    | "\<not> (st = RUNNING \<and> e1 < 0)" "\<not> a < 0" "\<not> (st = RUNNING \<and> of_int a < avail_min p2 \<and> n > of_int a)" "?f = 0"
    | "\<not> (st = RUNNING \<and> e1 < 0)" "\<not> a < 0" "\<not> (st = RUNNING \<and> of_int a < avail_min p2 \<and> n > of_int a)" "?f \<noteq> 0"
    by blast
  then show ?thesis
  proof cases
    case 1
    then show ?thesis using A(1) h(1)
      by (auto simp: xfer_turn_def turn_ok_def intro!: exI [of _ "Leave e1 p1"] exI [of _ 0])
  next
    case 2
    then show ?thesis using A(2) h(1) a(1)
      by (auto simp: xfer_turn_def snd_pcm_avail_update_def turn_ok_def intro!: exI [of _ "Leave a p2"] exI [of _ 0])
  next
    case 3
    then show ?thesis
    proof (cases "nonblock p2")
      case True
      then show ?thesis using 3 A(2) h(1) a(1)
        by (auto simp: xfer_turn_def snd_pcm_avail_update_def turn_ok_def
            intro!: exI [of _ "Leave (- EAGAIN) p2"] exI [of _ 0])
    next
      case False
      then show ?thesis using 3 p3 h(1) a(1) w(1) R2(3)
        by (auto simp: xfer_turn_def snd_pcm_avail_update_def turn_ok_def
            intro!: exI [of _ "if w < 0 then Leave w p3 else Again w p3"] exI [of _ 0])
    qed
  next
    case 4
    then show ?thesis using A(2) h(1,3) a(1)
      by (auto simp: xfer_turn_def snd_pcm_avail_update_def turn_ok_def Let_def intro!: exI [of _ "Leave e1 p2"] exI [of _ 0])
  next
    case 5
    then have f0: "0 < unat ?f" by (simp add: unat_gt_0)
    obtain r p4 where r: "snd_pcm_mmap_write_areas ops p2 user i ?f = Some (Inr (r, p4))" "r \<le> uint ?f" "r \<noteq> 0"
        "appends k ring user N (unat i) (nat r) p2 p4"
      using write_areas_appends [OF R2(1,2) f0, of i] f n(2,3) assms(1) by auto
    have "nat r \<le> unat ?f" using r(2) by (simp add: nat_le_iff)
    then have q: "?app (nat r) p4" using appends_0 [OF A(2) r(4)] f n(3) by linarith
    show ?thesis
    proof (cases "r < 0")
      case True
      then show ?thesis using 5 q h(1) a(1) r(1)
        by (auto simp: xfer_turn_def snd_pcm_avail_update_def turn_ok_def Let_def intro!: exI [of _ "Leave r p4"] exI [of _ 0])
    next
      case False
      have "ring_ok p4" "setting k ring user N p4" using q by (auto simp: appends_def)
      moreover have "int (unat ?f) \<le> int (unat n)" using f by linarith
      then have "0 < r" "r \<le> int (unat n)" using False r(2,3) by (auto simp del: of_nat_le_iff)
      ultimately obtain t where "after_write ops st (of_int a) r p4 = Inr t" "turn_ok ops k ring user N (unat i) (unat n) st err p t"
        using after_write_ok [OF _ _ q, of "unat n" st "of_int a" err] n(2,3) by auto
      then show ?thesis using 5 False h(1) a(1) r(1)
        by (intro exI [of _ t]) (auto simp: xfer_turn_def snd_pcm_avail_update_def Let_def)
    qed
  qed
qed

lemma check_error_ok:
  assumes "ring_ok p"
  shows "\<exists>r p'. snd_pcm_check_error ops err p = (r, p') \<and> plays p p' \<and> (err \<le> 0 \<longrightarrow> r \<le> 0) \<and> (err < 0 \<longrightarrow> r < 0)"
proof -
  obtain st p1 where s: "op_state ops p = (st, p1)" by (cases "op_state ops p")
  then show ?thesis
    using state_plays [OF assms s] plays_refl [OF assms, of "private_data p"]
    by (cases st) (auto simp: snd_pcm_check_error_def snd_pcm_state_def state_error_def)
qed

lemma xfer_end_ok:
  assumes p: "appends k ring user N i n p0 p" and "i + n \<le> N"
    and x: "unat xfer < 2 ^ 31" and out: "0 < n \<longrightarrow> may_fail_to_start ops \<and> err < 0" and e: "err \<le> 0 \<or> xfer > 0"
  shows "\<exists>r p'. xfer_end ops xfer err p = (r, p') \<and> appends k ring user N i n p0 p' \<and> outcome ops (unat xfer + n) r"
proof -
  have R: "ring_ok p" "setting k ring user N p" using p by (auto simp: appends_def)
  show ?thesis
  proof (cases "xfer > 0")
    case True
    then show ?thesis using p x out sint_small [of xfer]
      by (auto simp: xfer_end_def outcome_def)
  next
    case False
    then have "xfer = 0" by (simp add: word_gt_0)
    obtain r p' where c: "snd_pcm_check_error ops err p = (r, p')" "plays p p'" "err \<le> 0 \<longrightarrow> r \<le> 0" "err < 0 \<longrightarrow> r < 0"
      using check_error_ok [OF R(1)] by blast
    have "appends k ring user N i n p0 p'"
      using appends_trans [OF p, of 0 p'] appends_plays [OF R c(2), of "i + n"] assms(2) by simp
    then show ?thesis using False \<open>xfer = 0\<close> c e out by (auto simp: xfer_end_def outcome_def)
  qed
qed

lemma write_loop_partial:
  assumes N: "N < 2 ^ 32"
    and "write_loop ops (snd_pcm_mmap_write_areas ops) user st i n xfer err p = Some res"
    and "ring_ok p" "setting k ring user N p" "unat i + unat n \<le> N" "unat xfer + unat n < 2 ^ 31"
    and "err \<le> 0 \<or> xfer > 0 \<or> st = RUNNING \<and> n \<noteq> 0"
  shows "\<exists>r p' c. res = Inr (r, p') \<and> c \<le> unat n \<and> appends k ring user N (unat i) c p p' \<and>
    outcome ops (unat xfer + c) r"
proof -
  let ?Q = "\<lambda>ops' func user' st i n xfer err p res.
    ops' = ops \<and> func = snd_pcm_mmap_write_areas ops \<and> user' = user \<and> ring_ok p \<and> setting k ring user N p \<and>
    unat i + unat n \<le> N \<and> unat xfer + unat n < 2 ^ 31 \<and> (err \<le> 0 \<or> xfer > 0 \<or> st = RUNNING \<and> n \<noteq> 0) \<longrightarrow>
    (\<exists>r p' c. res = Inr (r, p') \<and> c \<le> unat n \<and> appends k ring user N (unat i) c p p' \<and> outcome ops (unat xfer + c) r)"
  have "?Q ops (snd_pcm_mmap_write_areas ops) user st i n xfer err p res"
  proof (rule write_loop.raw_induct [where P = ?Q, OF _ assms(2)], goal_cases)
    case (1 f ops' func user' st i n xfer err p res)
    note IH = 1(1) and eq = 1(2)
    show ?case
    proof (rule impI, elim conjE)
      assume a: "ops' = ops" "func = snd_pcm_mmap_write_areas ops" "user' = user"
        and R: "ring_ok p" and S: "setting k ring user N p" and iN: "unat i + unat n \<le> N"
        and xn: "unat xfer + unat n < 2 ^ 31" and e: "err \<le> 0 \<or> xfer > 0 \<or> st = RUNNING \<and> n \<noteq> 0"
      show "\<exists>r p' c. res = Inr (r, p') \<and> c \<le> unat n \<and> appends k ring user N (unat i) c p p' \<and> outcome ops (unat xfer + c) r"
      proof (cases "n = 0")
        case True
        have "appends k ring user N (unat i) 0 p p"
          using appends_plays [OF R S plays_refl [OF R, of "private_data p"]] by simp
        from xfer_end_ok [OF this, of xfer err] e xn iN True eq show ?thesis by (force simp: a)
      next
        case False
        then have n0: "0 < unat n" by (simp add: unat_gt_0)
        obtain t where t: "xfer_turn ops (after_write ops) (st = RUNNING) (snd_pcm_mmap_write_areas ops) user st i n err p = Some (Inr t)"
            "turn_ok ops k ring user N (unat i) (unat n) st err p t"
          using xfer_turn_ok [OF N R S n0 _ iN] xn by auto
        show ?thesis
        proof (cases t)
          case (Leave e' p')
          then obtain c where c: "c \<le> unat n" "appends k ring user N (unat i) c p p'"
              "c > 0 \<longrightarrow> may_fail_to_start ops \<and> e' < 0" "e' \<le> 0 \<or> xfer > 0"
            using t(2) e unfolding turn_ok_def by auto
          have "unat i + c \<le> N" "unat xfer < 2 ^ 31" using c(1) iN xn by auto
          from xfer_end_ok [OF c(2) this c(3,4)] show ?thesis
            using eq c(1) by (auto simp: a False t(1) Leave)
        next
          case (Again e' p')
          then have ag: "appends k ring user N (unat i) 0 p p'" "st = RUNNING" using t(2) by (auto simp: turn_ok_def)
          have "f ops (snd_pcm_mmap_write_areas ops) user st i n xfer e' p' = Some res"
            using eq by (simp add: a False t(1) Again)
          from IH [OF this] ag iN xn False obtain r p'' c where
            "res = Inr (r, p'')" "c \<le> unat n" "appends k ring user N (unat i) c p' p''" "outcome ops (unat xfer + c) r"
            by (auto simp: appends_def)
          then show ?thesis using appends_0 [OF ag(1)] iN by fastforce
        next
          case (Moved st' g e' p')
          then have mv: "0 < unat g" "unat g \<le> unat n" "appends k ring user N (unat i) (unat g) p p'"
            using t(2) by (auto simp: turn_ok_def)
          have u: "unat (i + g) = unat i + unat g" "unat (n - g) = unat n - unat g" "unat (xfer + g) = unat xfer + unat g"
            using mv(2) iN xn N by (auto simp: unat_word_ariths unat_sub word_le_nat_alt)
          have x0: "xfer + g > 0" using u(3) mv(1) by (metis add_gr_0 unat_gt_0 word_gt_0)
          have "f ops (snd_pcm_mmap_write_areas ops) user st' (i + g) (n - g) (xfer + g) e' p' = Some res"
            using eq by (simp add: a False t(1) Moved)
          from IH [OF this] mv iN xn x0 obtain r p'' c where
            r: "res = Inr (r, p'')" "c \<le> unat n - unat g" "appends k ring user N (unat i + unat g) c p' p''"
              "outcome ops (unat xfer + unat g + c) r"
            unfolding u by (auto simp: appends_def)
          have "appends k ring user N (unat i) (unat g + c) p p''"
            using appends_trans [OF mv(3) r(3)] r(2) mv(2) iN by simp
          then show ?thesis using r mv(2)
            by (intro exI [of _ r] exI [of _ p''] exI [of _ "unat g + c"]) (simp add: add.assoc)
        qed
      qed
    qed
  qed
  then show ?thesis using assms by simp
qed

text \<open>Without waiting the loop ends.\<close>

lemma write_loop_ends:
  assumes N: "N < 2 ^ 32"
  shows "ring_ok p \<Longrightarrow> setting k ring user N p \<Longrightarrow> nonblock p \<Longrightarrow> unat i + unat n \<le> N \<Longrightarrow> unat n < 2 ^ 31 \<Longrightarrow>
    \<exists>res. write_loop ops (snd_pcm_mmap_write_areas ops) user st i n xfer err p = Some res"
proof (induction "unat n" arbitrary: n i xfer st err p rule: less_induct)
  case less
  note R = less.prems(1) and S = less.prems(2) and iN = less.prems(4)
  show ?case
  proof (cases "n = 0")
    case False
    then have n0: "0 < unat n" by (simp add: unat_gt_0)
    obtain t where t: "xfer_turn ops (after_write ops) (st = RUNNING) (snd_pcm_mmap_write_areas ops) user st i n err p = Some (Inr t)"
        "turn_ok ops k ring user N (unat i) (unat n) st err p t"
      using xfer_turn_ok [OF N R S n0 less.prems(5) iN] by blast
    show ?thesis
    proof (cases t)
      case (Moved st' g e' p')
      then have mv: "0 < unat g" "unat g \<le> unat n" "appends k ring user N (unat i) (unat g) p p'"
        using t(2) by (auto simp: turn_ok_def)
      have u: "unat (i + g) = unat i + unat g" "unat (n - g) = unat n - unat g"
        using mv(2) iN N by (auto simp: unat_word_ariths unat_sub word_le_nat_alt)
      have "\<exists>res. write_loop ops (snd_pcm_mmap_write_areas ops) user st' (i + g) (n - g) (xfer + g) e' p' = Some res"
        using mv iN u n0 less.prems(3,5) by (intro less.hyps) (auto simp: appends_def)
      then show ?thesis by (subst write_loop.simps) (simp add: False t(1) Moved)
    qed (use less.prems(3) t False in \<open>subst write_loop.simps; simp add: turn_ok_def\<close>)+
  qed (subst write_loop.simps, simp)
qed

text \<open>The whole call, from any state of the stream.\<close>

lemma write_areas_partial:
  assumes N: "N < 2 ^ 32" and R: "ring_ok p" and S: "setting k ring user N p"
    and n: "unat i + unat n \<le> N" "unat n < 2 ^ 31"
    and res: "snd_pcm_write_areas ops (snd_pcm_mmap_write_areas ops) user i n p = Some res"
  shows "\<exists>r p' c. res = Inr (r, p') \<and> c \<le> unat n \<and> appends k ring user N (unat i) c p p' \<and> outcome ops c r"
proof -
  obtain st p1 where s: "op_state ops p = (st, p1)" by (cases "op_state ops p")
  have a: "appends k ring user N (unat i) 0 p p1" by (rule appends_plays [OF R S state_plays [OF R s]])
  then have R1: "ring_ok p1" "setting k ring user N p1" by (auto simp: appends_def)
  consider "n = 0" | "n \<noteq> 0" "st \<in> {PREPARED, RUNNING}" | "n \<noteq> 0" "st \<notin> {PREPARED, RUNNING}" by blast
  then show ?thesis
  proof cases
    case 1
    then show ?thesis using res a s by (auto simp: snd_pcm_write_areas_def snd_pcm_state_def outcome_def)
  next
    case 2
    then have "write_loop ops (snd_pcm_mmap_write_areas ops) user st i n 0 0 p1 = Some res"
      using res s by (auto simp: snd_pcm_write_areas_def snd_pcm_state_def)
    from write_loop_partial [OF N this R1 n(1)] n(2) obtain r p' c where
      "res = Inr (r, p')" "c \<le> unat n" "appends k ring user N (unat i) c p1 p'" "outcome ops c r" by auto
    then show ?thesis using appends_0 [OF a] n(1) by fastforce
  next
    case 3
    then have "res = Inr (case state_error st of Some e \<Rightarrow> e | None \<Rightarrow> - EBADFD, p1)"
      using res s by (auto simp: snd_pcm_write_areas_def snd_pcm_state_def)
    then show ?thesis using a by (cases st) (auto simp: state_error_def outcome_def)
  qed
qed

lemma write_areas_ends:
  assumes "N < 2 ^ 32" and R: "ring_ok p" and S: "setting k ring user N p" and "nonblock p"
    and "unat i + unat n \<le> N" "unat n < 2 ^ 31"
  shows "\<exists>res. snd_pcm_write_areas ops (snd_pcm_mmap_write_areas ops) user i n p = Some res"
proof -
  obtain st p1 where s: "op_state ops p = (st, p1)" by (cases "op_state ops p")
  have "appends k ring user N (unat i) 0 p p1" by (rule appends_plays [OF R S state_plays [OF R s]])
  then show ?thesis
    using write_loop_ends [OF assms(1), of p1 k ring user i n st 0 0] assms(4-6) s
    by (auto simp: snd_pcm_write_areas_def snd_pcm_state_def appends_def)
qed

end

end
