(* ===== verification/PcmStream.thy ===== *)
theory PcmStream
  imports PcmWrite
begin

text \<open>
  The two kinds of device provide what the write functions rely on, the null device by itself and a
  device of the kernel as long as the kernel does nothing to the ring but play from its front. So a
  write to the ring appends what the application gave to the frames played, in order.
\<close>

section \<open>The null device\<close>

lemma null_forward_plays:
  assumes "ring_ok p" "unat n \<le> unat (buffer_size p) - queued p"
  shows "plays (snd_pcm_mmap_appl_forward p n) (snd_pcm_mmap_appl_forward (snd_pcm_mmap_hw_forward p n) n)"
proof -
  let ?q = "snd_pcm_mmap_appl_forward p n" and ?h = "hw_ptr (snd_pcm_mmap_hw_forward p n)"
  note R = assms(1) [unfolded ring_ok_def]
  have "?h = (if hw_ptr p + n \<ge> boundary p then hw_ptr p + n - boundary p else hw_ptr p + n)"
    by (simp add: snd_pcm_mmap_hw_forward_def Let_def)
  also have "unat \<dots> = (unat (hw_ptr p) + unat n) mod unat (boundary p)"
    by (rule forward_ptr) (use R assms(2) in auto)
  finally have "plays ?q (?q\<lparr>hw_ptr := ?h, private_data := private_data p\<rparr>)"
    using appl_forward(2) [OF assms] by (intro playsI [of "unat n"]) (auto simp: snd_pcm_mmap_appl_forward_def Let_def)
  moreover have "?q\<lparr>hw_ptr := ?h, private_data := private_data p\<rparr> =
      snd_pcm_mmap_appl_forward (snd_pcm_mmap_hw_forward p n) n"
    by (simp add: snd_pcm_mmap_appl_forward_def snd_pcm_mmap_hw_forward_def Let_def)
  ultimately show ?thesis by simp
qed

interpretation null: playback_device snd_pcm_null_fast_ops
proof (unfold_locales, goal_cases)
  case (1 p st p')
  then show ?case using plays_refl [of p "private_data p"] by (simp add: snd_pcm_null_fast_ops_def snd_pcm_null_state_def)
next
  case (2 p)
  then show ?case using plays_refl [of p "private_data p"] by (simp add: snd_pcm_null_fast_ops_def snd_pcm_null_hwsync_def)
next
  case (3 p)
  then show ?case using plays_refl [of p "private_data p"] by (simp add: snd_pcm_null_fast_ops_def snd_pcm_null_avail_update_def)
next
  case (4 p p1)
  then have st: "null_state (private_data p1) = PREPARED" "p1 = p"
    by (auto simp: snd_pcm_null_fast_ops_def snd_pcm_null_state_def)
  have "unat (appl_ptr p) = (unat (hw_ptr p) + queued p) mod unat (boundary p)"
    using 4(1) queued_eq [OF 4(1)] by (auto simp: ring_ok_def)
  from playsI [OF le_refl this, of "(private_data p)\<lparr>null_state := RUNNING\<rparr>"]
  moreover have "p\<lparr>private_data := x, hw_ptr := y\<rparr> = p\<lparr>hw_ptr := y, private_data := x\<rparr>" for x y by simp
  ultimately have "plays p (p\<lparr>private_data := (private_data p)\<lparr>null_state := RUNNING\<rparr>, hw_ptr := appl_ptr p\<rparr>)"
    by (simp only:)
  then show ?case
    using st 4(1)
    by (auto simp: snd_pcm_null_fast_ops_def snd_pcm_null_start_def asserting_def set_null_state_def ring_ok_def)
next
  case (5 p)
  then show ?case using plays_refl [of p "private_data p"] by (simp add: snd_pcm_null_fast_ops_def)
next
  case (6 p n off)
  let ?q = "snd_pcm_mmap_appl_forward p n"
  have n: "unat n < 2147483648" using 6 by (auto simp: ring_ok_def)
  have s: "sint n = uint n" "(of_int (sint n) :: u32) = n" using sint_small [OF n] by simp_all
  have "0 < uint n" using 6(2) by (metis gr_zeroI nat_less_iff uint_ge_0 unat_gt_0 uint_0_iff less_le)
  moreover have "plays ?q ?q" using plays_refl [OF appl_forward(1) [OF 6(1,3)], of "private_data ?q"] by simp
  moreover have "plays p p" using plays_refl [OF 6(1), of "private_data p"] by simp
  ultimately show ?case
    using null_forward_plays [OF 6(1,3)] s
    by (cases "null_state (private_data p)")
      (auto simp: snd_pcm_null_fast_ops_def snd_pcm_null_mmap_commit_def snd_pcm_null_forward_def)
qed

section \<open>A device of the kernel\<close>

text \<open>
  What is asked of the kernel: the calls the write functions lead to move the device's pointer over
  queued frames, and change nothing else but the kernel's own data and the state of the stream.
\<close>

definition kernel_plays :: "'k kernel \<Rightarrow> bool" where
  "kernel_plays k =
     (\<forall>p. ring_ok p \<longrightarrow>
        plays p (snd (ioctl_sync_ptr k SYNC_NONE p)) \<and> plays p (snd (ioctl_sync_ptr k SYNC_HWSYNC p)) \<and>
        plays p (snd (ioctl_hwsync k p)) \<and> plays p (snd (snd (ioctl_delay k p))) \<and>
        plays p (snd (ioctl_start k p)) \<and> plays p (snd (ioctl_xrun k p)) \<and> plays p (snd (poll_wait k p)))"

lemma kernel_playsD:
  assumes "kernel_plays k" "ring_ok p"
  shows "ioctl_sync_ptr k SYNC_NONE p = (r, p') \<Longrightarrow> plays p p'" "ioctl_sync_ptr k SYNC_HWSYNC p = (r, p') \<Longrightarrow> plays p p'"
    "ioctl_hwsync k p = (r, p') \<Longrightarrow> plays p p'" "ioctl_delay k p = (r, d, p') \<Longrightarrow> plays p p'"
    "ioctl_start k p = (r, p') \<Longrightarrow> plays p p'" "ioctl_xrun k p = (r, p') \<Longrightarrow> plays p p'" "poll_wait k p = (r, p') \<Longrightarrow> plays p p'"
  using assms unfolding kernel_plays_def by (metis snd_conv)+

lemma sync_ptr_plays:
  assumes "kernel_plays k" "ring_ok p" "f = SYNC_NONE \<or> f = SYNC_HWSYNC"
  shows "sync_ptr1 k f p = (r, p') \<Longrightarrow> plays p p'" "sync_ptr k f p = (r, p') \<Longrightarrow> plays p p'"
proof -
  show a: "plays p p'" if "sync_ptr1 k f p = (r, p')" for r p'
    using that assms(3) kernel_playsD(1,2) [OF assms(1,2)]
    by (auto simp: sync_ptr1_def Let_def split: prod.splits)
  show "plays p p'" if "sync_ptr k f p = (r, p')"
    using that a plays_refl [OF assms(2), of "private_data p"] by (auto simp: sync_ptr_def split: if_splits)
qed

lemma hw_device:
  assumes k: "kernel_plays k"
  shows "playback_device (snd_pcm_hw_fast_ops k)"
proof (unfold_locales, goal_cases)
  case (1 p st p')
  then show ?case
    by (auto simp: snd_pcm_hw_fast_ops_def snd_pcm_hw_state_def split: prod.splits intro: sync_ptr_plays(2) [OF k])
next
  case (2 p)
  then show ?case
    using kernel_playsD [OF k 2] sync_ptr_plays(1) [OF k 2, of SYNC_HWSYNC] plays_refl [OF 2, of "private_data p"]
    by (auto simp: snd_pcm_hw_fast_ops_def snd_pcm_hw_hwsync_def plain_def snd_pcm_hw_delay_def Let_def split: prod.splits)
next
  case (3 p)
  obtain r p1 where s: "sync_ptr k SYNC_NONE p = (r, p1)" by (cases "sync_ptr k SYNC_NONE p")
  then have p1: "plays p p1" by (rule sync_ptr_plays(2) [OF k 3 disjI1 [OF refl]])
  obtain e p2 where x: "ioctl_xrun k p1 = (e, p2)" by (cases "ioctl_xrun k p1")
  have "plays p p2" by (rule plays_trans [OF 3 p1 kernel_playsD(6) [OF k plays_ring [OF 3 p1] x]])
  then show ?case using p1 s x
    by (auto simp: snd_pcm_hw_fast_ops_def snd_pcm_hw_avail_update_def Let_def)
next
  case (4 p p1)
  then have "sync_ptr k SYNC_NONE p = (fst (sync_ptr k SYNC_NONE p), p1)"
    by (auto simp: snd_pcm_hw_fast_ops_def snd_pcm_hw_state_def split: prod.splits)
  then have R1: "ring_ok p1" by (rule plays_ring [OF 4(1) sync_ptr_plays(2) [OF k 4(1) disjI1 [OF refl]]])
  obtain r p2 where s: "sync_ptr k SYNC_NONE p1 = (r, p2)" by (cases "sync_ptr k SYNC_NONE p1")
  then have p2: "plays p1 p2" by (rule sync_ptr_plays(2) [OF k R1 disjI1 [OF refl]])
  obtain e p3 where x: "ioctl_start k p2 = (e, p3)" by (cases "ioctl_start k p2")
  have "plays p1 p3" by (rule plays_trans [OF R1 p2 kernel_playsD(5) [OF k plays_ring [OF R1 p2] x]])
  then show ?case using s x
    by (auto simp: snd_pcm_hw_fast_ops_def snd_pcm_hw_start_def plain_def Let_def)
next
  case (5 p)
  then show ?case using kernel_playsD(7) [OF k 5]
    by (cases "poll_wait k p") (auto simp: snd_pcm_hw_fast_ops_def)
next
  case (6 p n off)
  have n: "unat n < 2147483648" using 6 by (auto simp: ring_ok_def)
  have s: "sint n = uint n" "(of_int (sint n) :: u32) = n" using sint_small [OF n] by simp_all
  have "0 < uint n" using 6(2) by (metis gr_zeroI nat_less_iff uint_ge_0 unat_gt_0 uint_0_iff less_le)
  moreover obtain r p' where y: "sync_ptr k SYNC_NONE (snd_pcm_mmap_appl_forward p n) = (r, p')"
    by (cases "sync_ptr k SYNC_NONE (snd_pcm_mmap_appl_forward p n)")
  then have "plays (snd_pcm_mmap_appl_forward p n) p'"
    by (rule sync_ptr_plays(2) [OF k appl_forward(1) [OF 6(1,3)] disjI1 [OF refl]])
  ultimately show ?case using s y by (simp add: snd_pcm_hw_fast_ops_def snd_pcm_hw_mmap_commit_def)
qed

section \<open>Writing\<close>

text \<open>
  C2 -- Writing interleaved frames through the ring of a kernel device. Whatever the device plays
  meanwhile, the frames played and those still queued are, in order, what was queued before and then
  the first \<open>c\<close> frames of the application's buffer; the call returns \<open>c\<close>, or an error when \<open>c\<close> is 0, and
  less than \<open>c\<close> only with a kernel that refuses to start the stream. In non-blocking mode it returns.
  The pointers stay in range, and the ring holds no more frames than it has room for.
\<close>

theorem write_appends_frames:
  assumes "kernel_plays k" "ring_ok p" "setting b ring user N p" "unat n \<le> N" "N < 2 ^ 31"
    and "user = snd_pcm_areas_from_buf (channels p) (sample_bits p) (frame_bits p) buf"
  shows "(nonblock p \<longrightarrow> (\<exists>res. snd_pcm_mmap_writei (snd_pcm_hw_fast_ops k) buf n p = Some res)) \<and>
    (\<forall>res. snd_pcm_mmap_writei (snd_pcm_hw_fast_ops k) buf n p = Some res \<longrightarrow>
      (\<exists>r p' c played. res = Inr (r, p') \<and> ring_ok p' \<and> c \<le> unat n \<and>
         played @ queue b ring p' = queue b ring p @ frames b user (memory p) 0 c \<and>
         (r = int c \<or> r < 0 \<and> c = 0 \<or> may_fail_to_start (snd_pcm_hw_fast_ops k) \<and> r < int c)))"
proof -
  note D = hw_device [OF assms(1)]
  have n: "N < 2 ^ 32" "unat (0 :: u32) + unat n \<le> N" "unat n < 2 ^ 31" using assms(4,5) by auto
  show ?thesis
  proof (intro conjI impI allI)
    show "\<exists>res. snd_pcm_mmap_writei (snd_pcm_hw_fast_ops k) buf n p = Some res" if "nonblock p"
      using playback_device.write_areas_ends [OF D n(1) assms(2,3) that n(2,3)] assms(6)
      by (simp add: snd_pcm_mmap_writei_def)
    show "\<exists>r p' c played. res = Inr (r, p') \<and> ring_ok p' \<and> c \<le> unat n \<and>
         played @ queue b ring p' = queue b ring p @ frames b user (memory p) 0 c \<and>
         (r = int c \<or> r < 0 \<and> c = 0 \<or> may_fail_to_start (snd_pcm_hw_fast_ops k) \<and> r < int c)"
      if "snd_pcm_mmap_writei (snd_pcm_hw_fast_ops k) buf n p = Some res" for res
      using playback_device.write_areas_partial [OF D n(1) assms(2,3) n(2,3), of res] that assms(6)
      unfolding snd_pcm_mmap_writei_def appends_def outcome_def unat_0 by blast
  qed
qed

text \<open>Interleaved buffers one behind the other are apart.\<close>

lemma interleaved_apart:
  assumes k: "0 < k" and s: "chs * (8 * k) < 2 ^ 32" and "ring + k * (b * chs) \<le> user"
  defines "areas \<equiv> snd_pcm_areas_from_buf chs (of_nat (8 * k)) (of_nat (chs * (8 * k)))"
  shows "ring_apart k (areas ring) b (areas user) N"
proof -
  have len: "length (areas x) = chs" for x by (simp add: areas_def snd_pcm_areas_from_buf_def)
  have pos: "pos (areas x ! c) i = x + k * (i * chs + c)" if "c < chs" for x c i
    unfolding areas_def by (rule interleaved_pos [OF that s])
  have apart: "extent k (x + k * u) \<inter> extent k (x + k * v) = {}" if "u \<noteq> v" for x u v :: nat
  proof -
    have "k * u + k \<le> k * v \<or> k * v + k \<le> k * u"
      using that by (metis Suc_leI add.commute linorder_neqE_nat mult_Suc_right mult_le_mono2)
    then show ?thesis by auto
  qed
  have idx: "i * chs + a \<noteq> j * chs + c" if "a < chs" "c < chs" "(a, i) \<noteq> (c, j)" for a c i j
  proof
    assume e: "i * chs + a = j * chs + c"
    have "(i * chs + a) mod chs = a" "(j * chs + c) mod chs = c"
      "(i * chs + a) div chs = i" "(j * chs + c) div chs = j" using that(1,2) by auto
    then show False using e that(3) by simp
  qed
  show ?thesis unfolding ring_apart_def len
  proof (intro conjI allI impI)
    fix a c i j :: nat assume "a < chs" "c < chs" "(a, i) \<noteq> (c, j)"
    then show "extent k (pos (areas ring ! a) i) \<inter> extent k (pos (areas ring ! c) j) = {}"
      using apart idx by (simp add: pos)
  next
    fix a c i j :: nat assume a: "a < chs" "c < chs" "i < b"
    have "i * chs + a + 1 \<le> Suc i * chs" using a(1) by simp
    also have "\<dots> \<le> b * chs" using a(3) by (intro mult_le_mono1) simp
    finally have "k * (i * chs + a) + k \<le> k * (b * chs)"
      by (metis Suc_eq_plus1 add.commute mult_Suc_right mult_le_mono2)
    then have "ring + k * (i * chs + a) + k \<le> user + k * (j * chs + c)" using assms(3) by linarith
    then show "extent k (pos (areas ring ! a) i) \<inter> extent k (pos (areas user ! c) j) = {}"
      using a(1,2) by (auto simp: pos)
  qed
qed

text \<open>
  A kernel for examples: it plays all that is queued when asked to synchronise with the device, and
  starting a stream returns \<open>e\<close>.
\<close>

definition example_kernel :: "int \<Rightarrow> unit kernel" where
  "example_kernel e =
     (let set_state = \<lambda>st p. p\<lparr>private_data := (private_data p)\<lparr>mmap_status_state := st\<rparr>\<rparr> in
      \<lparr>ioctl_sync_ptr = (\<lambda>f p. (0, if f = SYNC_HWSYNC then p\<lparr>hw_ptr := appl_ptr p\<rparr> else p)),
       ioctl_hwsync = (\<lambda>p. (0, p)), ioctl_delay = (\<lambda>p. (0, 0, p)), ioctl_prepare = (\<lambda>p. (0, set_state PREPARED p)),
       ioctl_reset = (\<lambda>p. (0, p)), ioctl_start = (\<lambda>p. (e, if e < 0 then p else set_state RUNNING p)),
       ioctl_drop = (\<lambda>p. (0, set_state SETUP p)), ioctl_drain = (\<lambda>p. (0, set_state SETUP p)),
       ioctl_pause = (\<lambda>_ p. (0, p)), ioctl_resume = (\<lambda>p. (0, p)), ioctl_rewind = (\<lambda>n p. (0, n, p)),
       ioctl_forward = (\<lambda>n p. (0, n, p)), ioctl_xrun = (\<lambda>p. (0, set_state XRUN p)), poll_wait = (\<lambda>p. (1, p))\<rparr>)"

definition example_pcm :: "snd_pcm_state_t \<Rightarrow> bool \<Rightarrow> unit hw_pcm" where
  "example_pcm st nb =
     \<lparr>stream = PLAYBACK, is_setup = True, nonblock = nb, access = MMAP_INTERLEAVED, format = S16_LE, channels = 2,
      sample_bits = 16, frame_bits = 32, buffer_size = 8, boundary = 64, avail_min = 4, start_threshold = 1,
      stop_threshold = 64, running_areas = Some (snd_pcm_areas_from_buf 2 16 32 16), stopped_areas = None,
      appl_ptr = 62, hw_ptr = 60, memory = (\<lambda>x. of_nat x),
      private_data = \<lparr>version = 131081, sync_ptr_used = True, mmap_status_state = st, kernel_data = ()\<rparr>\<rparr>"

lemma example_kernel_plays: "kernel_plays (example_kernel e)"
proof -
  have "plays p (p\<lparr>hw_ptr := appl_ptr p\<rparr>)" if "ring_ok p" for p :: "unit hw_pcm"
  proof -
    have "unat (appl_ptr p) = (unat (hw_ptr p) + queued p) mod unat (boundary p)"
      using that queued_eq [OF that] by (auto simp: ring_ok_def)
    from playsI [OF le_refl this, of "private_data p"] show ?thesis by simp
  qed
  moreover have "plays p p" if "ring_ok p" for p :: "unit hw_pcm"
    using plays_refl [OF that, of "private_data p"] by simp
  ultimately show ?thesis
    unfolding kernel_plays_def example_kernel_def Let_def using plays_refl by auto
qed

lemma example_setting:
  "ring_ok (example_pcm st nb)"
  "setting 2 (snd_pcm_areas_from_buf 2 16 32 16) (snd_pcm_areas_from_buf 2 16 32 64) 20 (example_pcm st nb)"
proof -
  show "ring_ok (example_pcm st nb)" by (simp add: ring_ok_def queued_def example_pcm_def)
  have "areas_ok 2 8 (snd_pcm_areas_from_buf 2 16 32 16)" "areas_ok 2 20 (snd_pcm_areas_from_buf 2 16 32 64)"
    using interleaved_ok [of 16 8 2 2] interleaved_ok [of 64 20 2 2] by simp_all
  moreover have "ring_apart 2 (snd_pcm_areas_from_buf 2 16 32 16) 8 (snd_pcm_areas_from_buf 2 16 32 64) 20"
    using interleaved_apart [of 2 2 16 8 64 20] by simp
  moreover have "byte_format S16_LE 2"
    by (simp add: byte_format_def width_of_def snd_pcm_format_physical_width_def)
  ultimately show "setting 2 (snd_pcm_areas_from_buf 2 16 32 16) (snd_pcm_areas_from_buf 2 16 32 64) 20 (example_pcm st nb)"
    by (simp add: setting_def example_pcm_def snd_pcm_areas_from_buf_def)
qed

lemma write_appends_frames_witness:
  "\<exists>r p' c played. snd_pcm_mmap_writei (snd_pcm_hw_fast_ops (example_kernel 0)) 64 5 (example_pcm RUNNING True) =
      Some (Inr (r, p')) \<and> ring_ok p' \<and> c \<le> 5 \<and>
    played @ queue 2 (snd_pcm_areas_from_buf 2 16 32 16) p' =
      queue 2 (snd_pcm_areas_from_buf 2 16 32 16) (example_pcm RUNNING True) @
      frames 2 (snd_pcm_areas_from_buf 2 16 32 64) (\<lambda>x. of_nat x) 0 c \<and>
    (r = int c \<or> r < 0 \<and> c = 0 \<or> may_fail_to_start (snd_pcm_hw_fast_ops (example_kernel 0)) \<and> r < int c)"
proof -
  let ?p = "example_pcm RUNNING True"
  have "snd_pcm_areas_from_buf 2 16 32 64 = snd_pcm_areas_from_buf (channels ?p) (sample_bits ?p) (frame_bits ?p) 64"
    "nonblock ?p" "memory ?p = (\<lambda>x. of_nat x)" by (simp_all add: example_pcm_def)
  then show ?thesis
    using write_appends_frames [OF example_kernel_plays [of 0] example_setting [of RUNNING True], where n = 5 and buf = 64]
    by auto
qed

section \<open>Cases the contract of the functions does not foresee\<close>

text \<open>
  A stream that is ready to start takes only what fits into the ring, also in blocking mode: after the
  stream has been started the loop goes on with the state it had before, and does not wait.
\<close>

lemma blocking_write_is_short:
  "map_option (map_sum id fst)
     (snd_pcm_mmap_writei (snd_pcm_hw_fast_ops (example_kernel 0)) 64 20 (example_pcm PREPARED False)) = Some (Inr 6)"
  by code_simp

text \<open>When the device does not start, the frames are in the ring, but an error is returned.\<close>

lemma refused_start_is_not_counted:
  "map_option (map_sum id (map_prod id (\<lambda>p. appl_ptr p)))
     (snd_pcm_mmap_writei (snd_pcm_hw_fast_ops (example_kernel (- EIO))) 64 2 (example_pcm PREPARED True)) =
    Some (Inr (- EIO, 0))"
  by code_simp

text \<open>Without a mapped ring the addresses the copy uses were never set.\<close>

lemma unmapped_ring_is_used:
  "map_option (map_sum id fst)
     (snd_pcm_mmap_writei (snd_pcm_hw_fast_ops (example_kernel 0)) 64 2
       ((example_pcm RUNNING True)\<lparr>running_areas := None\<rparr>)) = Some (Inl UNDEF)"
  by code_simp

text \<open>
  The null device says that the whole ring is free. Before it is started this is not so, and a second
  write fails with the error for an underrun.
\<close>

lemma null_device_overflows:
  "map_option (map_sum id fst)
     (snd_pcm_mmap_writei snd_pcm_null_fast_ops 64 5
       \<lparr>stream = PLAYBACK, is_setup = True, nonblock = False, access = MMAP_INTERLEAVED, format = S16_LE, channels = 2,
        sample_bits = 16, frame_bits = 32, buffer_size = 8, boundary = 64, avail_min = 4, start_threshold = 8,
        stop_threshold = 64, running_areas = Some (snd_pcm_areas_from_buf 2 16 32 16), stopped_areas = None,
        appl_ptr = 5, hw_ptr = 0, memory = (\<lambda>x. 0), private_data = \<lparr>null_state = PREPARED\<rparr>\<rparr>) =
    Some (Inr (- EPIPE))"
  by code_simp

section \<open>The default boundary\<close>

text \<open>
  The boundary of \<open>snd_pcm_sw_params_default\<close> satisfies what is asked of it, for any ring of at most a
  third of the range.
\<close>

lemma double_boundary_ends:
  "0 < unat b \<Longrightarrow> unat b + unat bs \<le> 2147483647 \<Longrightarrow> unat bs dvd unat b \<Longrightarrow>
    \<exists>b'. double_boundary bs b = Some b' \<and> unat bs dvd unat b' \<and> unat b' + unat bs \<le> 2147483647 \<and> unat b \<le> unat b' \<and>
      unat b' * 2 + unat bs > 2147483647"
proof (induction "2147483648 - unat b" arbitrary: b rule: less_induct)
  case less
  have u: "unat (b * 2) = unat b * 2" using less.prems by (simp add: unat_word_ariths)
  have "bs \<le> LONG_MAX" using less.prems(2) by (simp add: word_le_nat_alt)
  then have m: "unat (LONG_MAX - bs) = 2147483647 - unat bs" by (simp add: unat_sub)
  show ?case
  proof (cases "b * 2 \<le> LONG_MAX - bs")
    case True
    then have le: "unat b * 2 + unat bs \<le> 2147483647" using u m less.prems(2) by (simp add: word_le_nat_alt)
    have "\<exists>b'. double_boundary bs (b * 2) = Some b' \<and> unat bs dvd unat b' \<and> unat b' + unat bs \<le> 2147483647 \<and>
        unat (b * 2) \<le> unat b' \<and> unat b' * 2 + unat bs > 2147483647"
      using less.prems u le by (intro less.hyps) auto
    then show ?thesis using True u by (subst double_boundary.simps) auto
  next
    case False
    then show ?thesis using u m less.prems by (subst double_boundary.simps) (auto simp: word_le_nat_alt)
  qed
qed

lemma default_boundary_ok:
  assumes "0 < unat bs" "3 * unat bs \<le> 2147483647"
  shows "\<exists>b. double_boundary bs bs = Some b \<and> unat bs dvd unat b \<and> unat bs < unat b \<and> unat b + unat bs < 2 ^ 31"
proof -
  obtain b where b: "double_boundary bs bs = Some b" "unat bs dvd unat b" "unat b + unat bs \<le> 2147483647"
      "unat bs \<le> unat b" "unat b * 2 + unat bs > 2147483647"
    using double_boundary_ends [of bs bs] assms by auto
  then have "unat bs < unat b" using assms(2) by (cases "unat b = unat bs") auto
  then show ?thesis using b by auto
qed

end
