(* ===== verification/SeqMidi.thy ===== *)
theory SeqMidi
  imports Prelude
begin

text \<open>
  The MIDI parser of the ALSA sequencer, \<open>libasound/src/seq/seq_midi_event.c\<close>: one object that
  encodes a byte stream into sequencer events, a byte at a time and with running status, and
  decodes events into bytes. \<open>size_t\<close> is 32 bits wide and wraps; an access of the message
  buffer outside its size is the value \<open>None\<close>. The variants of the data union of an event are
  separate fields, the channel shared as in the code; the pointer to system exclusive data is
  the bytes it points to.
\<close>

unbundle bit_operations_syntax

section \<open>Events\<close>

type_synonym snd_seq_event_type = nat

abbreviation SND_SEQ_EVENT_NOTEON :: snd_seq_event_type where "SND_SEQ_EVENT_NOTEON \<equiv> 6"
abbreviation SND_SEQ_EVENT_NOTEOFF :: snd_seq_event_type where "SND_SEQ_EVENT_NOTEOFF \<equiv> 7"
abbreviation SND_SEQ_EVENT_KEYPRESS :: snd_seq_event_type where "SND_SEQ_EVENT_KEYPRESS \<equiv> 8"
abbreviation SND_SEQ_EVENT_CONTROLLER :: snd_seq_event_type where "SND_SEQ_EVENT_CONTROLLER \<equiv> 10"
abbreviation SND_SEQ_EVENT_PGMCHANGE :: snd_seq_event_type where "SND_SEQ_EVENT_PGMCHANGE \<equiv> 11"
abbreviation SND_SEQ_EVENT_CHANPRESS :: snd_seq_event_type where "SND_SEQ_EVENT_CHANPRESS \<equiv> 12"
abbreviation SND_SEQ_EVENT_PITCHBEND :: snd_seq_event_type where "SND_SEQ_EVENT_PITCHBEND \<equiv> 13"
abbreviation SND_SEQ_EVENT_CONTROL14 :: snd_seq_event_type where "SND_SEQ_EVENT_CONTROL14 \<equiv> 14"
abbreviation SND_SEQ_EVENT_NONREGPARAM :: snd_seq_event_type where "SND_SEQ_EVENT_NONREGPARAM \<equiv> 15"
abbreviation SND_SEQ_EVENT_REGPARAM :: snd_seq_event_type where "SND_SEQ_EVENT_REGPARAM \<equiv> 16"
abbreviation SND_SEQ_EVENT_SONGPOS :: snd_seq_event_type where "SND_SEQ_EVENT_SONGPOS \<equiv> 20"
abbreviation SND_SEQ_EVENT_SONGSEL :: snd_seq_event_type where "SND_SEQ_EVENT_SONGSEL \<equiv> 21"
abbreviation SND_SEQ_EVENT_QFRAME :: snd_seq_event_type where "SND_SEQ_EVENT_QFRAME \<equiv> 22"
abbreviation SND_SEQ_EVENT_START :: snd_seq_event_type where "SND_SEQ_EVENT_START \<equiv> 30"
abbreviation SND_SEQ_EVENT_CONTINUE :: snd_seq_event_type where "SND_SEQ_EVENT_CONTINUE \<equiv> 31"
abbreviation SND_SEQ_EVENT_STOP :: snd_seq_event_type where "SND_SEQ_EVENT_STOP \<equiv> 32"
abbreviation SND_SEQ_EVENT_CLOCK :: snd_seq_event_type where "SND_SEQ_EVENT_CLOCK \<equiv> 36"
abbreviation SND_SEQ_EVENT_TUNE_REQUEST :: snd_seq_event_type where "SND_SEQ_EVENT_TUNE_REQUEST \<equiv> 40"
abbreviation SND_SEQ_EVENT_RESET :: snd_seq_event_type where "SND_SEQ_EVENT_RESET \<equiv> 41"
abbreviation SND_SEQ_EVENT_SENSING :: snd_seq_event_type where "SND_SEQ_EVENT_SENSING \<equiv> 42"
abbreviation SND_SEQ_EVENT_SYSEX :: snd_seq_event_type where "SND_SEQ_EVENT_SYSEX \<equiv> 130"
abbreviation SND_SEQ_EVENT_NONE :: snd_seq_event_type where "SND_SEQ_EVENT_NONE \<equiv> 255"

abbreviation SND_SEQ_EVENT_LENGTH_FIXED :: u8 where "SND_SEQ_EVENT_LENGTH_FIXED \<equiv> 0"
abbreviation SND_SEQ_EVENT_LENGTH_VARIABLE :: u8 where "SND_SEQ_EVENT_LENGTH_VARIABLE \<equiv> 4"
abbreviation SND_SEQ_EVENT_LENGTH_MASK :: u8 where "SND_SEQ_EVENT_LENGTH_MASK \<equiv> 12"

record seq_event =
  ev_type :: snd_seq_event_type
  ev_flags :: u8
  ev_channel :: u8
  ev_note :: u8
  ev_velocity :: u8
  ev_param :: u32
  ev_value :: int
  ext_len :: u32
  ext_data :: "u8 list"

definition set_length :: "u8 \<Rightarrow> seq_event \<Rightarrow> seq_event" where
  "set_length l ev = ev\<lparr>ev_flags := (ev_flags ev AND NOT SND_SEQ_EVENT_LENGTH_MASK) OR l\<rparr>"

section \<open>The parser\<close>

record midi_event =
  qlen :: u32
  nread :: u32
  mtype :: nat
  lastcmd :: u8
  nostat :: bool
  bufsize :: u32
  mbuf :: "u8 list"

abbreviation ST_INVALID :: nat where "ST_INVALID \<equiv> 7"
abbreviation ST_SPECIAL :: nat where "ST_SPECIAL \<equiv> 8"
abbreviation ST_SYSEX :: nat where "ST_SYSEX \<equiv> ST_SPECIAL"

abbreviation MIDI_CMD_CONTROL :: u8 where "MIDI_CMD_CONTROL \<equiv> 0xb0"
abbreviation MIDI_CMD_COMMON_SYSEX :: u8 where "MIDI_CMD_COMMON_SYSEX \<equiv> 0xf0"
abbreviation MIDI_CMD_COMMON_SYSEX_END :: u8 where "MIDI_CMD_COMMON_SYSEX_END \<equiv> 0xf7"
abbreviation MIDI_CMD_COMMON_CLOCK :: u8 where "MIDI_CMD_COMMON_CLOCK \<equiv> 0xf8"

text \<open>Reading and writing the message buffer.\<close>

definition buf_at :: "midi_event \<Rightarrow> nat \<Rightarrow> u8 option" where
  "buf_at dev i = (if i < length (mbuf dev) then Some (mbuf dev ! i) else None)"

definition buf_put :: "midi_event \<Rightarrow> nat \<Rightarrow> u8 \<Rightarrow> midi_event option" where
  "buf_put dev i c = (if i < length (mbuf dev) then Some (dev\<lparr>mbuf := (mbuf dev)[i := c]\<rparr>) else None)"

text \<open>The encoders of the data fields.\<close>

definition note_event :: "midi_event \<Rightarrow> seq_event \<Rightarrow> seq_event option" where
  "note_event dev ev =
     (case (buf_at dev 0, buf_at dev 1, buf_at dev 2) of
        (Some b0, Some b1, Some b2) \<Rightarrow>
          Some (ev\<lparr>ev_channel := b0 AND 0x0f, ev_note := b1, ev_velocity := b2\<rparr>)
      | _ \<Rightarrow> None)"

definition one_param_ctrl_event :: "midi_event \<Rightarrow> seq_event \<Rightarrow> seq_event option" where
  "one_param_ctrl_event dev ev =
     (case (buf_at dev 0, buf_at dev 1) of
        (Some b0, Some b1) \<Rightarrow> Some (ev\<lparr>ev_channel := b0 AND 0x0f, ev_value := uint b1\<rparr>)
      | _ \<Rightarrow> None)"

definition pitchbend_ctrl_event :: "midi_event \<Rightarrow> seq_event \<Rightarrow> seq_event option" where
  "pitchbend_ctrl_event dev ev =
     (case (buf_at dev 0, buf_at dev 1, buf_at dev 2) of
        (Some b0, Some b1, Some b2) \<Rightarrow>
          Some (ev\<lparr>ev_channel := b0 AND 0x0f, ev_value := uint b2 * 128 + uint b1 - 8192\<rparr>)
      | _ \<Rightarrow> None)"

definition two_param_ctrl_event :: "midi_event \<Rightarrow> seq_event \<Rightarrow> seq_event option" where
  "two_param_ctrl_event dev ev =
     (case (buf_at dev 0, buf_at dev 1, buf_at dev 2) of
        (Some b0, Some b1, Some b2) \<Rightarrow>
          Some (ev\<lparr>ev_channel := b0 AND 0x0f, ev_param := ucast b1, ev_value := uint b2\<rparr>)
      | _ \<Rightarrow> None)"

definition one_param_event :: "midi_event \<Rightarrow> seq_event \<Rightarrow> seq_event option" where
  "one_param_event dev ev =
     (case buf_at dev 1 of Some b1 \<Rightarrow> Some (ev\<lparr>ev_value := uint b1\<rparr>) | None \<Rightarrow> None)"

definition songpos_event :: "midi_event \<Rightarrow> seq_event \<Rightarrow> seq_event option" where
  "songpos_event dev ev =
     (case (buf_at dev 1, buf_at dev 2) of
        (Some b1, Some b2) \<Rightarrow> Some (ev\<lparr>ev_value := uint b2 * 128 + uint b1\<rparr>)
      | _ \<Rightarrow> None)"

text \<open>The decoders, as the bytes they write.\<close>

definition low7 :: "int \<Rightarrow> u8" where
  "low7 v = word_of_int (v AND 0x7f)"

definition note_decode :: "seq_event \<Rightarrow> u8 list" where
  "note_decode ev = [ev_note ev AND 0x7f, ev_velocity ev AND 0x7f]"

definition one_param_decode :: "seq_event \<Rightarrow> u8 list" where
  "one_param_decode ev = [low7 (ev_value ev)]"

definition pitchbend_decode :: "seq_event \<Rightarrow> u8 list" where
  "pitchbend_decode ev =
     (let value = ev_value ev + 8192 in [low7 value, low7 (drop_bit 7 value)])"

definition two_param_decode :: "seq_event \<Rightarrow> u8 list" where
  "two_param_decode ev = [ucast (ev_param ev AND 0x7f), low7 (ev_value ev)]"

definition songpos_decode :: "seq_event \<Rightarrow> u8 list" where
  "songpos_decode ev = [low7 (ev_value ev), low7 (drop_bit 7 (ev_value ev))]"

record status_event_entry =
  st_event :: snd_seq_event_type
  st_qlen :: int
  st_encode :: "(midi_event \<Rightarrow> seq_event \<Rightarrow> seq_event option) option"
  st_decode :: "(seq_event \<Rightarrow> u8 list) option"

definition st_none :: status_event_entry where
  "st_none = \<lparr>st_event = SND_SEQ_EVENT_NONE, st_qlen = - 1, st_encode = None, st_decode = None\<rparr>"

definition st_plain :: "snd_seq_event_type \<Rightarrow> int \<Rightarrow> status_event_entry" where
  "st_plain t n = \<lparr>st_event = t, st_qlen = n, st_encode = None, st_decode = None\<rparr>"

definition status_event :: "status_event_entry list" where
  "status_event = [
     \<lparr>st_event = SND_SEQ_EVENT_NOTEOFF, st_qlen = 2, st_encode = Some note_event, st_decode = Some note_decode\<rparr>,
     \<lparr>st_event = SND_SEQ_EVENT_NOTEON, st_qlen = 2, st_encode = Some note_event, st_decode = Some note_decode\<rparr>,
     \<lparr>st_event = SND_SEQ_EVENT_KEYPRESS, st_qlen = 2, st_encode = Some note_event, st_decode = Some note_decode\<rparr>,
     \<lparr>st_event = SND_SEQ_EVENT_CONTROLLER, st_qlen = 2, st_encode = Some two_param_ctrl_event, st_decode = Some two_param_decode\<rparr>,
     \<lparr>st_event = SND_SEQ_EVENT_PGMCHANGE, st_qlen = 1, st_encode = Some one_param_ctrl_event, st_decode = Some one_param_decode\<rparr>,
     \<lparr>st_event = SND_SEQ_EVENT_CHANPRESS, st_qlen = 1, st_encode = Some one_param_ctrl_event, st_decode = Some one_param_decode\<rparr>,
     \<lparr>st_event = SND_SEQ_EVENT_PITCHBEND, st_qlen = 2, st_encode = Some pitchbend_ctrl_event, st_decode = Some pitchbend_decode\<rparr>,
     st_none,
     st_plain SND_SEQ_EVENT_SYSEX 1,
     \<lparr>st_event = SND_SEQ_EVENT_QFRAME, st_qlen = 1, st_encode = Some one_param_event, st_decode = Some one_param_decode\<rparr>,
     \<lparr>st_event = SND_SEQ_EVENT_SONGPOS, st_qlen = 2, st_encode = Some songpos_event, st_decode = Some songpos_decode\<rparr>,
     \<lparr>st_event = SND_SEQ_EVENT_SONGSEL, st_qlen = 1, st_encode = Some one_param_event, st_decode = Some one_param_decode\<rparr>,
     st_none,
     st_none,
     st_plain SND_SEQ_EVENT_TUNE_REQUEST 0,
     st_none,
     st_plain SND_SEQ_EVENT_CLOCK 0,
     st_none,
     st_plain SND_SEQ_EVENT_START 0,
     st_plain SND_SEQ_EVENT_CONTINUE 0,
     st_plain SND_SEQ_EVENT_STOP 0,
     st_none,
     st_plain SND_SEQ_EVENT_SENSING 0,
     st_plain SND_SEQ_EVENT_RESET 0]"

section \<open>Creating and resetting\<close>

text \<open>
  The results of the two allocations are arguments: whether the \<open>calloc\<close> of the object
  succeeds, and what \<open>malloc\<close> gives for the buffer.
\<close>

definition snd_midi_event_new :: "u32 \<Rightarrow> bool \<Rightarrow> u8 list option \<Rightarrow> midi_event cres" where
  "snd_midi_event_new n dev_ok new_buf =
     (if \<not> dev_ok then Inl ENOMEM
      else if n > 0 \<and> new_buf = None then Inl ENOMEM
      else Inr \<lparr>qlen = 0, nread = 0, mtype = ST_INVALID, lastcmd = 0xff, nostat = False, bufsize = n,
                mbuf = (if n > 0 then the new_buf else [])\<rparr>)"

definition snd_midi_event_no_status :: "bool \<Rightarrow> midi_event \<Rightarrow> midi_event" where
  "snd_midi_event_no_status on dev = dev\<lparr>nostat := on\<rparr>"

definition reset_encode :: "midi_event \<Rightarrow> midi_event" where
  "reset_encode dev = dev\<lparr>nread := 0, qlen := 0, mtype := ST_INVALID\<rparr>"

definition snd_midi_event_reset_encode :: "midi_event \<Rightarrow> midi_event" where
  "snd_midi_event_reset_encode dev = reset_encode dev"

definition snd_midi_event_reset_decode :: "midi_event \<Rightarrow> midi_event" where
  "snd_midi_event_reset_decode dev = dev\<lparr>lastcmd := 0xff\<rparr>"

definition snd_midi_event_init :: "midi_event \<Rightarrow> midi_event" where
  "snd_midi_event_init dev = snd_midi_event_reset_decode (snd_midi_event_reset_encode dev)"

definition snd_midi_event_resize_buffer :: "midi_event \<Rightarrow> u32 \<Rightarrow> u8 list option \<Rightarrow> unit cres \<times> midi_event" where
  "snd_midi_event_resize_buffer dev n new_buf =
     (if n = bufsize dev then (Inr (), dev)
      else case new_buf of
        None \<Rightarrow> (Inl ENOMEM, dev)
      | Some b \<Rightarrow> (Inr (), reset_encode (dev\<lparr>mbuf := b, bufsize := n\<rparr>)))"

section \<open>Bytes to events\<close>

text \<open>The three places a byte can go, then what a complete message does.\<close>

definition new_command :: "midi_event \<Rightarrow> u8 \<Rightarrow> midi_event option" where
  "new_command dev c =
     (case buf_put dev 0 c of
        None \<Rightarrow> None
      | Some dev \<Rightarrow>
          (let t = (if c AND 0xf0 = 0xf0 then unat (c AND 0x0f) + ST_SPECIAL
                    else unat (drop_bit 4 c AND 0x07))
           in Some (dev\<lparr>mtype := t, nread := 1, qlen := word_of_int (st_qlen (status_event ! t))\<rparr>)))"

definition rest_of_command :: "midi_event \<Rightarrow> u8 \<Rightarrow> midi_event option" where
  "rest_of_command dev c =
     (case buf_put dev (unat (nread dev)) c of
        None \<Rightarrow> None
      | Some dev \<Rightarrow>
          Some (dev\<lparr>nread := nread dev + 1,
                    qlen := (if mtype dev \<noteq> ST_SYSEX then qlen dev - 1 else qlen dev)\<rparr>))"

definition running_status :: "midi_event \<Rightarrow> u8 \<Rightarrow> midi_event option" where
  "running_status dev c =
     (case buf_put dev 1 c of
        None \<Rightarrow> None
      | Some dev \<Rightarrow>
          Some (dev\<lparr>qlen := word_of_int (st_qlen (status_event ! mtype dev) - 1), nread := 2\<rparr>))"

definition complete_event :: "midi_event \<Rightarrow> u8 \<Rightarrow> seq_event \<Rightarrow> (int \<times> midi_event \<times> seq_event) option" where
  "complete_event dev c ev =
     (if qlen dev = 0 then
        (let st = status_event ! mtype dev;
             ev = set_length SND_SEQ_EVENT_LENGTH_FIXED (ev\<lparr>ev_type := st_event st\<rparr>)
         in case (case st_encode st of None \<Rightarrow> Some ev | Some enc \<Rightarrow> enc dev ev) of
              None \<Rightarrow> None
            | Some ev \<Rightarrow>
                Some (1, if mtype dev \<ge> ST_SPECIAL then dev\<lparr>mtype := ST_INVALID\<rparr> else dev, ev))
      else if mtype dev = ST_SYSEX \<and> (c = MIDI_CMD_COMMON_SYSEX_END \<or> nread dev \<ge> bufsize dev) then
        (let ev = (set_length SND_SEQ_EVENT_LENGTH_VARIABLE ev)
                    \<lparr>ev_type := SND_SEQ_EVENT_SYSEX, ext_len := nread dev,
                     ext_data := take (unat (nread dev)) (mbuf dev)\<rparr>
         in Some (1, if c \<noteq> MIDI_CMD_COMMON_SYSEX_END then dev\<lparr>nread := 0\<rparr> else reset_encode dev, ev))
      else Some (0, dev, ev))"

definition snd_midi_event_encode_byte ::
    "midi_event \<Rightarrow> u8 \<Rightarrow> seq_event \<Rightarrow> (int \<times> midi_event \<times> seq_event) option" where
  "snd_midi_event_encode_byte dev c ev =
     (if c \<ge> MIDI_CMD_COMMON_CLOCK then
        (let ev = set_length SND_SEQ_EVENT_LENGTH_FIXED
                    (ev\<lparr>ev_type := st_event (status_event ! (ST_SPECIAL + unat c - 0xf0))\<rparr>)
         in Some (if ev_type ev \<noteq> SND_SEQ_EVENT_NONE then 1 else 0, dev, ev))
      else
        (case (if c AND 0x80 \<noteq> 0 \<and> (c \<noteq> MIDI_CMD_COMMON_SYSEX_END \<or> mtype dev \<noteq> ST_SYSEX) then new_command dev c
               else if qlen dev > 0 then rest_of_command dev c
               else running_status dev c) of
           None \<Rightarrow> None
         | Some dev \<Rightarrow> complete_event dev c ev))"

fun encode_loop :: "midi_event \<Rightarrow> u8 list \<Rightarrow> int \<Rightarrow> seq_event \<Rightarrow> (int \<times> midi_event \<times> seq_event) option" where
  "encode_loop dev [] result ev = Some (result, dev, ev)"
| "encode_loop dev (c # cs) result ev =
     (case snd_midi_event_encode_byte dev c ev of
        None \<Rightarrow> None
      | Some (rc, dev, ev) \<Rightarrow>
          if rc < 0 then Some (rc, dev, ev)
          else if rc > 0 then Some (result + 1, dev, ev)
          else encode_loop dev cs (result + 1) ev)"

definition snd_midi_event_encode ::
    "midi_event \<Rightarrow> u8 list \<Rightarrow> seq_event \<Rightarrow> (int \<times> midi_event \<times> seq_event) option" where
  "snd_midi_event_encode dev bs ev = encode_loop dev bs 0 (ev\<lparr>ev_type := SND_SEQ_EVENT_NONE\<rparr>)"

section \<open>Events to bytes\<close>

definition needs_status :: "midi_event \<Rightarrow> u8 \<Rightarrow> bool" where
  "needs_status dev cmd = (cmd \<noteq> lastcmd dev \<or> nostat dev)"

definition ctrl_cmd :: "seq_event \<Rightarrow> u8" where
  "ctrl_cmd ev = MIDI_CMD_CONTROL OR (ev_channel ev AND 0x0f)"

definition extra_decode_ctrl14 :: "midi_event \<Rightarrow> int \<Rightarrow> seq_event \<Rightarrow> u8 list cres \<times> midi_event" where
  "extra_decode_ctrl14 dev count ev =
     (let cmd = ctrl_cmd ev; param = (ucast (ev_param ev) :: u8) in
      if ev_param ev < 32 then
        (if count < 4 \<or> nostat dev \<and> count < 6 \<or> needs_status dev cmd \<and> count < 5 then (Inl ENOMEM, dev)
         else (Inr ((if needs_status dev cmd then [cmd] else []) @ [param, low7 (drop_bit 7 (ev_value ev))] @
                    (if nostat dev then [cmd] else []) @ [param + 32, low7 (ev_value ev)]),
               if needs_status dev cmd then dev\<lparr>lastcmd := cmd\<rparr> else dev))
      else
        (if count < 2 \<or> needs_status dev cmd \<and> count < 3 then (Inl ENOMEM, dev)
         else (Inr ((if needs_status dev cmd then [cmd] else []) @ [ucast (ev_param ev AND 0x7f), low7 (ev_value ev)]),
               if needs_status dev cmd then dev\<lparr>lastcmd := cmd\<rparr> else dev)))"

definition xrpn_cbytes :: "seq_event \<Rightarrow> u8 list" where
  "xrpn_cbytes ev =
     (if ev_type ev = SND_SEQ_EVENT_NONREGPARAM then [0x63, 0x62, 0x06, 0x26] else [0x65, 0x64, 0x06, 0x26])"

definition xrpn_bytes :: "seq_event \<Rightarrow> u8 list" where
  "xrpn_bytes ev =
     [ucast (ev_param ev AND 0x7f), ucast (drop_bit 7 (ev_param ev AND 0x3f80)),
      low7 (ev_value ev), word_of_int (drop_bit 7 (ev_value ev AND 0x3f80))]"

definition extra_decode_xrpn :: "midi_event \<Rightarrow> int \<Rightarrow> seq_event \<Rightarrow> u8 list cres \<times> midi_event" where
  "extra_decode_xrpn dev count ev =
     (let cmd = ctrl_cmd ev in
      if count < 8 \<or> nostat dev \<and> count < 12 then (Inl ENOMEM, dev)
      else if cmd \<noteq> lastcmd dev \<and> \<not> nostat dev \<and> count < 9 then (Inl ENOMEM, dev)
      else (Inr ((if cmd \<noteq> lastcmd dev \<and> \<not> nostat dev then [cmd] else []) @
                 concat (map (\<lambda>(cb, b). (if nostat dev then [cmd] else []) @ [cb, b])
                           (zip (xrpn_cbytes ev) (xrpn_bytes ev)))),
            dev\<lparr>lastcmd := cmd\<rparr>))"

text \<open>The search for the type, from an index on.\<close>

fun find_status :: "nat \<Rightarrow> status_event_entry list \<Rightarrow> snd_seq_event_type \<Rightarrow> nat option" where
  "find_status k [] t = None"
| "find_status k (st # sts) t = (if t = st_event st then Some k else find_status (k + 1) sts t)"

definition decode_data :: "status_event_entry \<Rightarrow> seq_event \<Rightarrow> u8 list" where
  "decode_data st ev = (case st_decode st of Some dec \<Rightarrow> dec ev | None \<Rightarrow> [])"

definition snd_midi_event_decode :: "midi_event \<Rightarrow> int \<Rightarrow> seq_event \<Rightarrow> u8 list cres \<times> midi_event" where
  "snd_midi_event_decode dev count ev =
     (if ev_type ev = SND_SEQ_EVENT_NONE then (Inl ENOENT, dev)
      else case find_status 0 status_event (ev_type ev) of
        None \<Rightarrow>
          (if ev_type ev = SND_SEQ_EVENT_CONTROL14 then extra_decode_ctrl14 dev count ev
           else if ev_type ev = SND_SEQ_EVENT_NONREGPARAM \<or> ev_type ev = SND_SEQ_EVENT_REGPARAM
           then extra_decode_xrpn dev count ev
           else (Inl ENOENT, dev))
      | Some t \<Rightarrow>
          (let st = status_event ! t;
               cmd = (if t \<ge> ST_SPECIAL then 0xf0 + word_of_nat (t - ST_SPECIAL)
                      else 0x80 OR word_of_nat (t * 16) OR (ev_channel ev AND 0x0f))
           in if cmd = MIDI_CMD_COMMON_SYSEX then
                (if count < uint (ext_len ev) then (Inl ENOMEM, dev)
                 else if ev_flags ev AND SND_SEQ_EVENT_LENGTH_MASK = SND_SEQ_EVENT_LENGTH_FIXED then (Inl EINVAL, dev)
                 else if unat (ext_len ev) > length (ext_data ev) then (Inl UNDEF, dev)
                 else (Inr (take (unat (ext_len ev)) (ext_data ev)), dev))
              else if cmd AND 0xf0 = 0xf0 \<or> lastcmd dev \<noteq> cmd \<or> nostat dev then
                (if count < st_qlen st + 1 then (Inl ENOMEM, dev\<lparr>lastcmd := cmd\<rparr>)
                 else (Inr (take (nat (st_qlen st + 1)) (cmd # decode_data st ev)), dev\<lparr>lastcmd := cmd\<rparr>))
              else
                (if count < st_qlen st then (Inl ENOMEM, dev)
                 else (Inr (take (nat (st_qlen st)) (decode_data st ev)), dev))))"

end
