(* ===== verification/SeqMidiProof.thy ===== *)
theory SeqMidiProof
  imports SeqMidi
begin

text \<open>
  The MIDI parser, verified: the invariant of the encoder's state and memory safety on
  well-formed streams, the inverse pairs of the status table, and the round trip of a list of
  events through a decoder and an encoder with running status. The four behaviours at the
  end are outside the preconditions of the properties.
\<close>

unbundle bit_operations_syntax

section \<open>The state of the encoder\<close>

text \<open>How many data bytes a message of a type has; a message that is open has some of them left.\<close>

definition data_len :: "nat \<Rightarrow> nat" where
  "data_len t = nat (st_qlen (status_event ! t))"

definition short_type :: "nat \<Rightarrow> bool" where
  "short_type t = (t < 7 \<or> t \<in> {9, 10, 11})"

definition enc_ok :: "midi_event \<Rightarrow> bool" where
  "enc_ok dev \<longleftrightarrow> length (mbuf dev) = unat (bufsize dev) \<and> 3 \<le> unat (bufsize dev) \<and>
     (mtype dev < 7 \<and> qlen dev = 0 \<or> mtype dev = ST_INVALID \<and> qlen dev = 0 \<or>
      short_type (mtype dev) \<and> 0 < unat (qlen dev) \<and> 1 \<le> unat (nread dev) \<and>
        unat (nread dev) + unat (qlen dev) = data_len (mtype dev) + 1 \<or>
      mtype dev = ST_SYSEX \<and> qlen dev = 1 \<and> unat (nread dev) < unat (bufsize dev))"

text \<open>
  The bytes of a well-formed stream, given the state: no data byte without a status, none of
  the status bytes that MIDI leaves undefined, no end of exclusive outside of one.
\<close>

definition acceptable :: "midi_event \<Rightarrow> u8 \<Rightarrow> bool" where
  "acceptable dev c \<longleftrightarrow>
     (if c \<ge> 0xf8 then True
      else if c AND 0x80 \<noteq> 0 then c \<noteq> 0xf4 \<and> c \<noteq> 0xf5 \<and> (c = 0xf7 \<longrightarrow> mtype dev = ST_SYSEX)
      else mtype dev \<noteq> ST_INVALID)"

lemma data_len_simps:
  "data_len 0 = 2" "data_len (Suc 0) = 2" "data_len 2 = 2" "data_len 3 = 2" "data_len 4 = 1" "data_len 5 = 1"
  "data_len 6 = 2" "data_len 9 = 1" "data_len 10 = 2" "data_len 11 = 1" "data_len 14 = 0"
  by (simp_all add: data_len_def status_event_def st_plain_def)

lemma short_cases:
  "short_type t \<longleftrightarrow> t = 0 \<or> t = 1 \<or> t = 2 \<or> t = 3 \<or> t = 4 \<or> t = 5 \<or> t = 6 \<or> t = 9 \<or> t = 10 \<or> t = 11"
  unfolding short_type_def by auto

lemma short_qlen:
  assumes "short_type t"
  shows "st_qlen (status_event ! t) = int (data_len t)" "1 \<le> data_len t" "data_len t \<le> 2"
    "\<exists>enc dec. st_encode (status_event ! t) = Some enc \<and> st_decode (status_event ! t) = Some dec"
  using assms unfolding short_cases
  by (elim disjE; simp add: data_len_def status_event_def)+

text \<open>With three bytes of buffer an encoder of data fields finds what it reads.\<close>

lemma encoder_total:
  assumes "3 \<le> length (mbuf dev)" "short_type t"
  shows "\<exists>ev'. the (st_encode (status_event ! t)) dev ev = Some ev'"
proof -
  have "mbuf dev \<noteq> []" using assms(1) by auto
  with assms show ?thesis
  unfolding short_cases
  by (elim disjE; simp add: status_event_def note_event_def one_param_ctrl_event_def pitchbend_ctrl_event_def
        two_param_ctrl_event_def one_param_event_def songpos_event_def buf_at_def)
qed

lemma encode_preserves_type:
  assumes "st_encode (status_event ! t) = Some enc" "enc dev ev = Some ev'" "short_type t"
  shows "ev_type ev' = ev_type ev"
  using assms unfolding short_cases
  by (elim disjE; auto simp: status_event_def note_event_def one_param_ctrl_event_def pitchbend_ctrl_event_def
        two_param_ctrl_event_def one_param_event_def songpos_event_def split: option.splits)

text \<open>The type of a status byte.\<close>

definition status_type :: "u8 \<Rightarrow> nat" where
  "status_type c = (if c AND 0xf0 = 0xf0 then unat (c AND 0x0f) + ST_SPECIAL else unat (drop_bit 4 c AND 0x07))"

lemma status_type_cases:
  "c AND 0x80 \<noteq> 0 \<and> c < 0xf8 \<and> c \<noteq> 0xf4 \<and> c \<noteq> 0xf5 \<and> c \<noteq> 0xf7 \<longrightarrow>
     short_type (status_type c) \<or> c = 0xf0 \<and> status_type c = 8 \<or> c = 0xf6 \<and> status_type c = 14"
  by (rule byte_enum) code_simp

lemma new_command_eq:
  "0 < length (mbuf dev) \<Longrightarrow> new_command dev c =
     Some (dev\<lparr>mbuf := (mbuf dev)[0 := c], mtype := status_type c, nread := 1,
              qlen := word_of_int (st_qlen (status_event ! status_type c))\<rparr>)"
  by (simp add: new_command_def buf_put_def status_type_def Let_def)


text \<open>
  What happens to a message once a byte is stored: an open short message stays open or is
  delivered, and the state stays good.
\<close>

definition good_step ::
    "midi_event \<Rightarrow> (int \<times> midi_event \<times> seq_event) option \<Rightarrow> bool" where
  "good_step dev r \<longleftrightarrow> (\<exists>rc dev' ev'. r = Some (rc, dev', ev') \<and> (rc = 0 \<or> rc = 1) \<and> enc_ok dev' \<and>
     lastcmd dev' = lastcmd dev \<and> nostat dev' = nostat dev \<and> bufsize dev' = bufsize dev)"

lemma complete_short:
  assumes "length (mbuf dev) = unat (bufsize dev)" "3 \<le> unat (bufsize dev)" "short_type (mtype dev)"
    "1 \<le> unat (nread dev)" "unat (nread dev) + unat (qlen dev) = data_len (mtype dev) + 1"
  shows "good_step dev (complete_event dev c ev)"
proof (cases "qlen dev = 0")
  case True
  obtain enc where enc: "st_encode (status_event ! mtype dev) = Some enc" using short_qlen(4) [OF assms(3)] by blast
  obtain ev' where "enc dev (set_length SND_SEQ_EVENT_LENGTH_FIXED (ev\<lparr>ev_type := st_event (status_event ! mtype dev)\<rparr>)) = Some ev'"
    using encoder_total [of dev "mtype dev"] assms(1,2,3) enc by fastforce
  then have "complete_event dev c ev = Some (1, if mtype dev \<ge> ST_SPECIAL then dev\<lparr>mtype := ST_INVALID\<rparr> else dev, ev')"
    using True enc by (simp add: complete_event_def Let_def)
  moreover have "enc_ok (if mtype dev \<ge> ST_SPECIAL then dev\<lparr>mtype := ST_INVALID\<rparr> else dev)"
    using assms(1,2,3) True by (auto simp: enc_ok_def short_type_def)
  ultimately show ?thesis by (auto simp: good_step_def)
next
  case False
  then have "complete_event dev c ev = Some (0, dev, ev)"
    using assms(3) by (auto simp: complete_event_def short_type_def)
  moreover have "enc_ok dev" using assms False by (simp add: enc_ok_def unat_gt_0)
  ultimately show ?thesis by (auto simp: good_step_def)
qed

lemma complete_sysex:
  assumes "length (mbuf dev) = unat (bufsize dev)" "3 \<le> unat (bufsize dev)" "mtype dev = ST_SYSEX" "qlen dev = 1"
  shows "good_step dev (complete_event dev c ev)"
proof (cases "c = MIDI_CMD_COMMON_SYSEX_END \<or> nread dev \<ge> bufsize dev")
  case True
  then show ?thesis
    using assms by (auto simp: good_step_def complete_event_def enc_ok_def reset_encode_def Let_def)
next
  case False
  then have "unat (nread dev) < unat (bufsize dev)" by (simp add: word_le_nat_alt not_le)
  then show ?thesis using assms False by (auto simp: good_step_def complete_event_def enc_ok_def)
qed

lemma good_step_same:
  "good_step dev1 r \<Longrightarrow> lastcmd dev1 = lastcmd dev \<Longrightarrow> nostat dev1 = nostat dev \<Longrightarrow> bufsize dev1 = bufsize dev \<Longrightarrow>
     good_step dev r"
  by (auto simp: good_step_def)

lemma encode_new:
  assumes "enc_ok dev" "c AND 0x80 \<noteq> 0" "c < 0xf8" "c \<noteq> 0xf4" "c \<noteq> 0xf5" "c \<noteq> 0xf7"
  shows "good_step dev (snd_midi_event_encode_byte dev c ev)"
proof -
  let ?d = "dev\<lparr>mbuf := (mbuf dev)[0 := c], mtype := status_type c, nread := 1,
              qlen := word_of_int (st_qlen (status_event ! status_type c))\<rparr>"
  have b: "length (mbuf dev) = unat (bufsize dev)" "3 \<le> unat (bufsize dev)" using assms(1) by (auto simp: enc_ok_def)
  then have e: "snd_midi_event_encode_byte dev c ev = complete_event ?d c ev"
  proof -
    have "\<not> 0xf8 \<le> c" "mbuf dev \<noteq> []" using assms(3) b by auto
    then show ?thesis using assms(2,6) by (simp add: snd_midi_event_encode_byte_def new_command_eq)
  qed
  have "good_step ?d (complete_event ?d c ev)"
  proof -
    consider "short_type (status_type c)" | "c = 0xf0" "status_type c = 8" | "c = 0xf6" "status_type c = 14"
      using status_type_cases [of c] assms by blast
    then show ?thesis
    proof cases
      case 1
      then show ?thesis
        using b short_qlen [OF 1] by (intro complete_short) (auto simp: unat_of_nat_fits)
    next
      case 2
      then show ?thesis using b by (intro complete_sysex) (simp_all add: status_event_def st_plain_def)
    next
      case 3
      then show ?thesis
        using b by (simp add: good_step_def complete_event_def enc_ok_def status_event_def st_plain_def Let_def)
    qed
  qed
  then show ?thesis unfolding e by (rule good_step_same) simp_all
qed

lemma encode_rest:
  assumes "enc_ok dev" "qlen dev > 0" "c < 0xf8" "c AND 0x80 = 0 \<or> c = 0xf7 \<and> mtype dev = ST_SYSEX"
  shows "good_step dev (snd_midi_event_encode_byte dev c ev)"
proof -
  let ?d = "dev\<lparr>mbuf := (mbuf dev)[unat (nread dev) := c], nread := nread dev + 1,
      qlen := (if mtype dev \<noteq> ST_SYSEX then qlen dev - 1 else qlen dev)\<rparr>"
  have b: "length (mbuf dev) = unat (bufsize dev)" "3 \<le> unat (bufsize dev)" using assms(1) by (auto simp: enc_ok_def)
  have q: "qlen dev \<noteq> 0" using assms(2) by auto
  consider "short_type (mtype dev)" "1 \<le> unat (nread dev)" "unat (nread dev) + unat (qlen dev) = data_len (mtype dev) + 1"
    | "mtype dev = ST_SYSEX" "qlen dev = 1" "unat (nread dev) < unat (bufsize dev)"
    using assms(1) q by (auto simp: enc_ok_def)
  then have "unat (nread dev) < length (mbuf dev) \<and> good_step ?d (complete_event ?d c ev)"
  proof cases
    case 1
    have u: "unat (qlen dev - 1) = unat (qlen dev) - 1" "1 \<le> unat (qlen dev)"
      using q unat_dec by (auto simp: Suc_le_eq unat_gt_0)
    have n: "unat (nread dev) \<le> 2" using 1 short_qlen(3) [OF 1(1)] u by linarith
    then have i: "unat (nread dev + 1) = unat (nread dev) + 1" by (intro unat_inc unat_not_max) simp
    have "mtype dev \<noteq> ST_SYSEX" using 1(1) by (auto simp: short_type_def)
    then have "good_step ?d (complete_event ?d c ev)"
      using b 1 u i by (intro complete_short) auto
    then show ?thesis using n b by auto
  next
    case 2
    then have "good_step ?d (complete_event ?d c ev)" using b by (intro complete_sysex) auto
    then show ?thesis using 2 b by simp
  qed
  moreover have "snd_midi_event_encode_byte dev c ev = complete_event ?d c ev" if "unat (nread dev) < length (mbuf dev)"
    using assms that by (auto simp: snd_midi_event_encode_byte_def rest_of_command_def buf_put_def not_le)
  ultimately show ?thesis using good_step_same [of ?d _ dev] by simp
qed

lemma encode_running:
  assumes "enc_ok dev" "qlen dev = 0" "c AND 0x80 = 0" "c < 0xf8" "mtype dev \<noteq> ST_INVALID"
  shows "good_step dev (snd_midi_event_encode_byte dev c ev)"
proof -
  let ?d = "dev\<lparr>mbuf := (mbuf dev)[1 := c], qlen := word_of_int (st_qlen (status_event ! mtype dev) - 1), nread := 2\<rparr>"
  have b: "length (mbuf dev) = unat (bufsize dev)" "3 \<le> unat (bufsize dev)" using assms(1) by (auto simp: enc_ok_def)
  have t: "short_type (mtype dev)" using assms by (auto simp: enc_ok_def short_type_def)
  note q = short_qlen [OF t]
  have w: "(word_of_int (st_qlen (status_event ! mtype dev) - 1) :: u32) = word_of_nat (data_len (mtype dev) - 1)"
    using q(1,2) by (simp add: of_nat_diff)
  have "unat (word_of_nat (data_len (mtype dev) - 1) :: u32) = data_len (mtype dev) - 1"
    using q(3) by (intro unat_of_nat_fits) simp
  then have "good_step ?d (complete_event ?d c ev)"
    using b t q(2) w by (intro complete_short) auto
  moreover have "snd_midi_event_encode_byte dev c ev = complete_event ?d c ev"
  proof -
    have "\<not> 0xf8 \<le> c" "Suc 0 < length (mbuf dev)" using assms(4) b by auto
    then show ?thesis using assms(2,3) by (simp add: snd_midi_event_encode_byte_def running_status_def buf_put_def)
  qed
  ultimately show ?thesis using good_step_same [of ?d _ dev] by simp
qed

lemma encode_byte_safe:
  assumes "enc_ok dev" "acceptable dev c"
  shows "good_step dev (snd_midi_event_encode_byte dev c ev)"
proof -
  consider "c \<ge> 0xf8" | "c < 0xf8" "c AND 0x80 \<noteq> 0" "c \<noteq> 0xf7"
    | "c = 0xf7" "mtype dev = ST_SYSEX" | "c < 0xf8" "c AND 0x80 = 0" "mtype dev \<noteq> ST_INVALID"
    using assms(2) by (auto simp: acceptable_def not_le split: if_splits)
  then show ?thesis
  proof cases
    case 1
    then show ?thesis using assms(1) by (simp add: good_step_def snd_midi_event_encode_byte_def Let_def)
  next
    case 2
    then show ?thesis using assms by (intro encode_new) (auto simp: acceptable_def not_le)
  next
    case 3
    then have "qlen dev > 0" using assms(1) by (auto simp: enc_ok_def short_type_def)
    then show ?thesis using assms(1) 3 by (intro encode_rest) auto
  next
    case 4
    then show ?thesis
      using encode_rest [OF assms(1)] encode_running [OF assms(1)] by (cases "qlen dev = 0") (auto simp: word_neq_0_conv)
  qed
qed


section \<open>Round trip\<close>

text \<open>
  What an event of a type says, the ranges MIDI has for it, and the state in which encoder and
  decoder agree: the decoder's running status is the encoder's.
\<close>

definition event_fields :: "seq_event \<Rightarrow> int list" where
  "event_fields ev =
     (let t = ev_type ev in
      if t \<in> {SND_SEQ_EVENT_NOTEOFF, SND_SEQ_EVENT_NOTEON, SND_SEQ_EVENT_KEYPRESS}
      then [uint (ev_channel ev), uint (ev_note ev), uint (ev_velocity ev)]
      else if t = SND_SEQ_EVENT_CONTROLLER then [uint (ev_channel ev), uint (ev_param ev), ev_value ev]
      else if t \<in> {SND_SEQ_EVENT_PGMCHANGE, SND_SEQ_EVENT_CHANPRESS, SND_SEQ_EVENT_PITCHBEND}
      then [uint (ev_channel ev), ev_value ev]
      else if t \<in> {SND_SEQ_EVENT_QFRAME, SND_SEQ_EVENT_SONGPOS, SND_SEQ_EVENT_SONGSEL} then [ev_value ev]
      else [])"

definition event_in_range :: "seq_event \<Rightarrow> bool" where
  "event_in_range ev \<longleftrightarrow>
     ev_channel ev < 16 \<and> ev_note ev < 128 \<and> ev_velocity ev < 128 \<and> ev_param ev < 128 \<and>
     (if ev_type ev = SND_SEQ_EVENT_PITCHBEND then - 8192 \<le> ev_value ev \<and> ev_value ev < 8192
      else if ev_type ev = SND_SEQ_EVENT_SONGPOS then 0 \<le> ev_value ev \<and> ev_value ev < 16384
      else 0 \<le> ev_value ev \<and> ev_value ev < 128)"

abbreviation data_byte :: "u8 \<Rightarrow> bool" where
  "data_byte b \<equiv> b AND 0x80 = 0"

lemma data_byte_less: "data_byte b \<Longrightarrow> \<not> 0xf8 \<le> b"
proof -
  have "data_byte b \<longrightarrow> \<not> 0xf8 \<le> b" by (rule byte_enum) code_simp
  then show "data_byte b \<Longrightarrow> \<not> 0xf8 \<le> b" by blast
qed

lemma and_7f: "b AND 0x7f AND 0x80 = (0 :: u8)" "b < 128 \<Longrightarrow> b AND 0x7f = (b :: u8)"
proof -
  show "b AND 0x7f AND 0x80 = (0 :: u8)" by (rule byte_enum) code_simp
  have "b < 128 \<longrightarrow> b AND 0x7f = (b :: u8)" by (rule byte_enum) code_simp
  then show "b < 128 \<Longrightarrow> b AND 0x7f = (b :: u8)" by blast
qed

lemma low7_mod: "low7 v = word_of_int (v mod 128)"
  using take_bit_eq_mask [of 7 v] by (simp add: low7_def take_bit_eq_mod mask_eq_exp_minus_1)

lemma uint_low7 [simp]: "uint (low7 v) = v mod 128"
  by (simp add: low7_mod unsigned_of_int take_bit_eq_mod mod_pos_pos_trivial)

lemma small_data: "b < 128 \<Longrightarrow> b AND 0x80 = (0 :: u8)"
proof -
  have "b < 128 \<longrightarrow> b AND 0x80 = (0 :: u8)" by (rule byte_enum) code_simp
  then show "b < 128 \<Longrightarrow> b AND 0x80 = (0 :: u8)" by blast
qed

lemma low7_data [simp]: "low7 v AND 0x80 = 0"
  by (rule small_data) (simp add: word_less_alt)

lemma param_byte:
  assumes "p < (128 :: u32)"
  shows "(ucast (p AND 0x7f) :: u8) AND 0x80 = 0" "(ucast (ucast (p AND 0x7f) :: u8) :: u32) = p"
proof -
  have p: "unat p < 128" using assms by (simp add: word_less_nat_alt)
  have m: "p AND 0x7f = p"
    using p take_bit_eq_mask [of 7 p] take_bit_nat_eq_self [of "unat p" 7]
    by (simp add: mask_eq_exp_minus_1 word_unat_eq_iff unsigned_take_bit_eq)
  have u: "unat (ucast p :: u8) = unat p" by (rule unat_ucast_fits) (use p in simp)
  then have "(ucast p :: u8) < 128" using p by (simp add: word_less_nat_alt)
  then show "(ucast (p AND 0x7f) :: u8) AND 0x80 = 0" unfolding m by (rule small_data)
  have "unat (ucast (ucast p :: u8) :: u32) = unat p" using u p by (subst unat_ucast_fits) simp_all
  then show "(ucast (ucast (p AND 0x7f) :: u8) :: u32) = p" unfolding m by (simp add: word_unat_eq_iff)
qed

text \<open>
  The two functions of a table entry are inverse to each other: the data bytes an event is
  decoded to, put behind a status byte with its channel, are encoded to the same fields.
\<close>

lemma entry_roundtrip:
  assumes "short_type t" "ev_type ev = st_event (status_event ! t)" "event_in_range ev"
    "3 \<le> length (mbuf dev)" "t < 7 \<longrightarrow> mbuf dev ! 0 AND 0x0f = ev_channel ev"
    "ds = decode_data (status_event ! t) ev" "mbuf dev ! 1 = ds ! 0" "length ds = 2 \<longrightarrow> mbuf dev ! 2 = ds ! 1"
    "ev_type ev0 = ev_type ev"
  shows "length ds = data_len t \<and> (\<forall>d \<in> set ds. data_byte d) \<and>
    (\<exists>ev'. the (st_encode (status_event ! t)) dev ev0 = Some ev' \<and> ev_type ev' = ev_type ev \<and> event_fields ev' = event_fields ev)"
proof -
  have b: "mbuf dev \<noteq> []" "Suc 0 < length (mbuf dev)" "2 < length (mbuf dev)" using assms(4) by auto
  have v: "(v div 128 mod 128) * 128 + v mod 128 = v" if "0 \<le> v" "v < 16384" for v :: int
  proof -
    have "v div 128 < 128" "0 \<le> v div 128" using that by simp_all
    then show ?thesis using div_mult_mod_eq [of v 128] by simp
  qed
  have n: "ev_note ev AND 0x7f = ev_note ev" "ev_velocity ev AND 0x7f = ev_velocity ev"
    "ev_note ev AND 0x80 = 0" "ev_velocity ev AND 0x80 = 0" "ev_param ev < 128"
    using assms(3) and_7f(2) small_data by (auto simp: event_in_range_def)
  note p = param_byte [OF n(5)]
  show ?thesis
    using assms(1) unfolding short_cases
  proof (elim disjE)
    assume "t = 0"
    then show ?thesis using assms(2-9) b n(1-4)
      by (simp add: status_event_def decode_data_def data_len_def note_decode_def note_event_def buf_at_def
          event_fields_def)
  next
    assume "t = 1"
    then show ?thesis using assms(2-9) b n(1-4)
      by (simp add: status_event_def decode_data_def data_len_def note_decode_def note_event_def buf_at_def
          event_fields_def)
  next
    assume "t = 2"
    then show ?thesis using assms(2-9) b n(1-4)
      by (simp add: status_event_def decode_data_def data_len_def note_decode_def note_event_def buf_at_def
          event_fields_def)
  next
    assume "t = 3"
    then show ?thesis using assms(2-9) b p
      by (simp add: status_event_def decode_data_def data_len_def two_param_decode_def two_param_ctrl_event_def buf_at_def
          event_fields_def event_in_range_def)
  next
    assume "t = 4"
    then show ?thesis using assms(2-9) b
      by (simp add: status_event_def decode_data_def data_len_def one_param_decode_def one_param_ctrl_event_def buf_at_def
          event_fields_def event_in_range_def)
  next
    assume "t = 5"
    then show ?thesis using assms(2-9) b
      by (simp add: status_event_def decode_data_def data_len_def one_param_decode_def one_param_ctrl_event_def buf_at_def
          event_fields_def event_in_range_def)
  next
    assume "t = 6"
    then show ?thesis using assms(2-9) b v [of "ev_value ev + 8192"]
      by (simp add: status_event_def decode_data_def data_len_def pitchbend_decode_def pitchbend_ctrl_event_def buf_at_def
          event_fields_def event_in_range_def Let_def drop_bit_eq_div)
  next
    assume "t = 9"
    then show ?thesis using assms(2-9) b
      by (simp add: status_event_def decode_data_def data_len_def one_param_decode_def one_param_event_def buf_at_def
          event_fields_def event_in_range_def)
  next
    assume "t = 10"
    then show ?thesis using assms(2-9) b v [of "ev_value ev"]
      by (simp add: status_event_def decode_data_def data_len_def songpos_decode_def songpos_event_def buf_at_def
          event_fields_def event_in_range_def drop_bit_eq_div)
  next
    assume "t = 11"
    then show ?thesis using assms(2-9) b
      by (simp add: status_event_def decode_data_def data_len_def one_param_decode_def one_param_event_def buf_at_def
          event_fields_def event_in_range_def)
  qed
qed


text \<open>Parsing the bytes of one message: after a status byte, or under running status.\<close>

definition delivers :: "midi_event \<Rightarrow> seq_event \<Rightarrow> (int \<times> midi_event \<times> seq_event) option" where
  "delivers dev ev =
     (case the (st_encode (status_event ! mtype dev)) dev
         (set_length SND_SEQ_EVENT_LENGTH_FIXED (ev\<lparr>ev_type := st_event (status_event ! mtype dev)\<rparr>)) of
        None \<Rightarrow> None
      | Some ev \<Rightarrow> Some (1, if mtype dev \<ge> ST_SPECIAL then dev\<lparr>mtype := ST_INVALID\<rparr> else dev, ev))"

lemma complete_delivers: "short_type (mtype dev) \<Longrightarrow> qlen dev = 0 \<Longrightarrow> complete_event dev c ev = delivers dev ev"
  using short_qlen(4) [of "mtype dev"] by (auto simp: complete_event_def delivers_def Let_def)

lemma complete_open: "short_type (mtype dev) \<Longrightarrow> qlen dev \<noteq> 0 \<Longrightarrow> complete_event dev c ev = Some (0, dev, ev)"
  by (auto simp: complete_event_def short_type_def)

lemma byte_status:
  assumes "c AND 0x80 \<noteq> 0" "c < 0xf8" "c \<noteq> 0xf7" "mbuf dev \<noteq> []" "short_type (status_type c)"
  shows "snd_midi_event_encode_byte dev c ev =
    Some (0, dev\<lparr>mbuf := (mbuf dev)[0 := c], mtype := status_type c, nread := 1,
              qlen := word_of_nat (data_len (status_type c))\<rparr>, ev)"
proof -
  have "\<not> 0xf8 \<le> c" using assms(2) by auto
  moreover have "(word_of_nat (data_len (status_type c)) :: u32) \<noteq> 0"
  proof -
    have "data_len (status_type c) = 1 \<or> data_len (status_type c) = 2" using short_qlen(2,3) [OF assms(5)] by auto
    then show ?thesis by auto
  qed
  ultimately show ?thesis
    using assms short_qlen(1) [OF assms(5)]
    by (simp add: snd_midi_event_encode_byte_def new_command_eq complete_open)
qed

lemma byte_data:
  assumes "data_byte d" "short_type (mtype dev)" "qlen dev \<noteq> 0" "unat (nread dev) < length (mbuf dev)"
  defines "dev' \<equiv> dev\<lparr>mbuf := (mbuf dev)[unat (nread dev) := d], nread := nread dev + 1, qlen := qlen dev - 1\<rparr>"
  shows "snd_midi_event_encode_byte dev d ev = (if qlen dev = 1 then delivers dev' ev else Some (0, dev', ev))"
proof -
  have "mtype dev \<noteq> ST_SYSEX" using assms(2) by (auto simp: short_type_def)
  then have "snd_midi_event_encode_byte dev d ev = complete_event dev' d ev"
    using assms(1,3,4) data_byte_less [OF assms(1)]
    by (simp add: snd_midi_event_encode_byte_def rest_of_command_def buf_put_def dev'_def word_neq_0_conv)
  then show ?thesis
    using assms(2) by (auto simp: complete_delivers complete_open dev'_def)
qed

lemma byte_running:
  assumes "data_byte d" "mtype dev < 7" "qlen dev = 0" "1 < length (mbuf dev)"
  defines "dev' \<equiv> dev\<lparr>mbuf := (mbuf dev)[1 := d], qlen := word_of_nat (data_len (mtype dev) - 1), nread := 2\<rparr>"
  shows "snd_midi_event_encode_byte dev d ev = (if data_len (mtype dev) = 1 then delivers dev' ev else Some (0, dev', ev))"
proof -
  have t: "short_type (mtype dev)" using assms(2) by (simp add: short_type_def)
  have q: "data_len (mtype dev) = 1 \<or> data_len (mtype dev) = 2" using short_qlen(2,3) [OF t] by auto
  have "(word_of_int (st_qlen (status_event ! mtype dev) - 1) :: u32) = word_of_nat (data_len (mtype dev) - 1)"
    using short_qlen(1,2) [OF t] by (simp add: of_nat_diff)
  then have "snd_midi_event_encode_byte dev d ev = complete_event dev' d ev"
    using assms(1,3,4) data_byte_less [OF assms(1)]
    by (simp add: snd_midi_event_encode_byte_def running_status_def buf_put_def dev'_def)
  then show ?thesis
    using q t by (auto simp: complete_delivers complete_open dev'_def)
qed


text \<open>The data bytes of an open message, and the whole message when the parser is idle before it.\<close>

definition same_setup :: "midi_event \<Rightarrow> midi_event \<Rightarrow> bool" where
  "same_setup dev dev' \<longleftrightarrow> length (mbuf dev') = length (mbuf dev) \<and> mtype dev' = mtype dev \<and>
     mbuf dev' ! 0 = mbuf dev ! 0 \<and> lastcmd dev' = lastcmd dev \<and> nostat dev' = nostat dev"

definition loop_delivers :: "midi_event \<Rightarrow> seq_event \<Rightarrow> int \<Rightarrow> (int \<times> midi_event \<times> seq_event) option" where
  "loop_delivers dev ev n = (case delivers dev ev of None \<Rightarrow> None | Some (rc, dev, ev) \<Rightarrow> Some (n, dev, ev))"

lemma loop_last:
  "snd_midi_event_encode_byte dev d ev = delivers dev' ev \<Longrightarrow> encode_loop dev [d] r ev = loop_delivers dev' ev (r + 1)"
  by (auto simp: loop_delivers_def delivers_def split: option.splits)

lemma parse_data:
  assumes "length ds = 1 \<or> length ds = 2" "\<forall>d \<in> set ds. data_byte d" "short_type (mtype dev)"
    "qlen dev = word_of_nat (length ds)" "unat (nread dev) = k" "1 \<le> k" "k + length ds \<le> 3" "3 \<le> length (mbuf dev)"
  shows "\<exists>dev'. same_setup dev dev' \<and> qlen dev' = 0 \<and> (\<forall>i < length ds. mbuf dev' ! (k + i) = ds ! i) \<and>
    (\<forall>i < k. mbuf dev' ! i = mbuf dev ! i) \<and> encode_loop dev ds r ev = loop_delivers dev' ev (r + int (length ds))"
  using assms(1)
proof
  assume "length ds = 1"
  then obtain d where ds: "ds = [d]" by (auto simp: length_Suc_conv)
  let ?d = "dev\<lparr>mbuf := (mbuf dev)[unat (nread dev) := d], nread := nread dev + 1, qlen := qlen dev - 1\<rparr>"
  have "snd_midi_event_encode_byte dev d ev = delivers ?d ev"
    using byte_data [of d dev ev] assms ds by simp
  from loop_last [OF this, of r] show ?thesis
    using assms ds by (intro exI [of _ ?d]) (simp add: same_setup_def del: encode_loop.simps)
next
  assume "length ds = 2"
  then obtain d e where ds: "ds = [d, e]" by (auto simp: length_Suc_conv numeral_2_eq_2)
  have k: "k = 1" using assms(6,7) ds by simp
  have "nread dev = 1" using assms(5) k by (simp add: word_unat_eq_iff)
  define d1 where "d1 = dev\<lparr>mbuf := (mbuf dev)[unat (nread dev) := d], nread := nread dev + 1, qlen := qlen dev - 1\<rparr>"
  define d2 where "d2 = d1\<lparr>mbuf := (mbuf d1)[unat (nread d1) := e], nread := nread d1 + 1, qlen := qlen d1 - 1\<rparr>"
  have 1: "snd_midi_event_encode_byte dev d ev = Some (0, d1, ev)"
    using byte_data [of d dev ev] assms ds k unfolding d1_def by simp
  have f1: "mtype d1 = mtype dev" "length (mbuf d1) = length (mbuf dev)" "nread d1 = 2" "qlen d1 = 1"
    "mbuf d1 = (mbuf dev)[1 := d]" "lastcmd d1 = lastcmd dev" "nostat d1 = nostat dev"
    using assms ds \<open>nread dev = 1\<close> by (simp_all add: d1_def)
  have "snd_midi_event_encode_byte d1 e ev = delivers d2 ev"
    using byte_data [of e d1 ev] assms ds f1 unfolding d2_def by simp
  from loop_last [OF this, of "r + 1"] have "encode_loop dev ds r ev = loop_delivers d2 ev (r + int (length ds))"
    by (simp add: ds 1 add.commute)
  moreover have "mtype d2 = mtype dev" "qlen d2 = 0" "mbuf d2 = (mbuf dev)[1 := d, 2 := e]"
    "lastcmd d2 = lastcmd dev" "nostat d2 = nostat dev"
    using f1 by (simp_all add: d2_def)
  ultimately show ?thesis
    using assms(8) k ds by (intro exI [of _ d2]) (auto simp: same_setup_def less_Suc_eq numeral_2_eq_2)
qed

lemma parse_status:
  assumes "c AND 0x80 \<noteq> 0" "c < 0xf8" "c \<noteq> 0xf7" "3 \<le> length (mbuf dev)" "short_type (status_type c)"
    "length ds = data_len (status_type c)" "\<forall>d \<in> set ds. data_byte d"
  shows "\<exists>dev'. length (mbuf dev') = length (mbuf dev) \<and> mtype dev' = status_type c \<and> qlen dev' = 0 \<and>
    mbuf dev' ! 0 = c \<and> mbuf dev' ! 1 = ds ! 0 \<and> (length ds = 2 \<longrightarrow> mbuf dev' ! 2 = ds ! 1) \<and>
    encode_loop dev (c # ds) 0 ev = loop_delivers dev' ev (int (length ds) + 1)"
proof -
  let ?d = "dev\<lparr>mbuf := (mbuf dev)[0 := c], mtype := status_type c, nread := 1, qlen := word_of_nat (data_len (status_type c))\<rparr>"
  have b: "mbuf dev \<noteq> []" using assms(4) by auto
  have l: "length ds = 1 \<or> length ds = 2" using short_qlen(2,3) [OF assms(5)] assms(6) by auto
  from parse_data [OF l assms(7), of ?d 1 1 ev] assms l
  obtain dev' where "same_setup ?d dev'" "qlen dev' = 0" "\<forall>i < length ds. mbuf dev' ! (1 + i) = ds ! i"
    "\<forall>i < 1. mbuf dev' ! i = mbuf ?d ! i" "encode_loop ?d ds 1 ev = loop_delivers dev' ev (1 + int (length ds))"
    by auto
  moreover from this(3) have "length ds = 2 \<longrightarrow> mbuf dev' ! 2 = ds ! 1" by (auto simp: numeral_2_eq_2)
  ultimately show ?thesis
    using l b byte_status [OF assms(1-3) b assms(5), of ev]
    by (intro exI [of _ dev']) (auto simp: same_setup_def add.commute)
qed

lemma parse_running:
  assumes "mtype dev < 7" "qlen dev = 0" "3 \<le> length (mbuf dev)"
    "length ds = data_len (mtype dev)" "\<forall>d \<in> set ds. data_byte d"
  shows "\<exists>dev'. length (mbuf dev') = length (mbuf dev) \<and> mtype dev' = mtype dev \<and> qlen dev' = 0 \<and>
    mbuf dev' ! 0 = mbuf dev ! 0 \<and> mbuf dev' ! 1 = ds ! 0 \<and> (length ds = 2 \<longrightarrow> mbuf dev' ! 2 = ds ! 1) \<and>
    encode_loop dev ds 0 ev = loop_delivers dev' ev (int (length ds))"
proof -
  have t: "short_type (mtype dev)" using assms(1) by (simp add: short_type_def)
  have b: "1 < length (mbuf dev)" using assms(3) by auto
  have "length ds = 1 \<or> length ds = 2" using short_qlen(2,3) [OF t] assms(4) by auto
  then show ?thesis
  proof
    assume "length ds = 1"
    then obtain d where ds: "ds = [d]" by (auto simp: length_Suc_conv)
    have dl: "data_len (mtype dev) = 1" using assms(4) ds by simp
    let ?d = "dev\<lparr>mbuf := (mbuf dev)[1 := d], qlen := word_of_nat (data_len (mtype dev) - 1), nread := 2\<rparr>"
    have "snd_midi_event_encode_byte dev d ev = delivers ?d ev"
      using byte_running [of d dev ev] assms b ds by simp
    from loop_last [OF this, of 0] show ?thesis
      using assms(1-3,5) b ds dl by (intro exI [of _ ?d]) (simp del: encode_loop.simps)
  next
    assume "length ds = 2"
    then obtain d e where ds: "ds = [d, e]" by (auto simp: length_Suc_conv numeral_2_eq_2)
    define d1 where "d1 = dev\<lparr>mbuf := (mbuf dev)[1 := d], qlen := word_of_nat (data_len (mtype dev) - 1), nread := 2\<rparr>"
    have dl: "data_len (mtype dev) = 2" using assms(4) ds by simp
    have 1: "snd_midi_event_encode_byte dev d ev = Some (0, d1, ev)"
      using byte_running [of d dev ev] assms(1-3,5) dl b ds unfolding d1_def by simp
    have f1: "mtype d1 = mtype dev" "mbuf d1 = (mbuf dev)[1 := d]" "nread d1 = 2" "qlen d1 = word_of_nat (length [e])"
      using dl by (simp_all add: d1_def)
    obtain dev' where "same_setup d1 dev'" "qlen dev' = 0" "mbuf dev' ! 2 = e" "\<forall>i < 2. mbuf dev' ! i = mbuf d1 ! i"
      "encode_loop d1 [e] 1 ev = loop_delivers dev' ev (1 + 1)"
      using parse_data [of "[e]" d1 2 1 ev] assms t ds f1 by auto
    then show ?thesis
      using 1 ds b f1 by (intro exI [of _ dev']) (auto simp: same_setup_def)
  qed
qed

definition in_sync :: "midi_event \<Rightarrow> midi_event \<Rightarrow> bool" where
  "in_sync dec enc \<longleftrightarrow> 3 \<le> length (mbuf enc) \<and> qlen enc = 0 \<and> mtype enc \<le> ST_INVALID \<and>
     (lastcmd dec AND 0x80 \<noteq> 0 \<and> lastcmd dec < 0xf0 \<longrightarrow>
        mtype enc = status_type (lastcmd dec) \<and> mbuf enc ! 0 = lastcmd dec)"

text \<open>The status byte of a channel message.\<close>

definition channel_cmd_ok :: "nat \<Rightarrow> u8 \<Rightarrow> bool" where
  "channel_cmd_ok t ch \<longleftrightarrow>
     (let cmd = 0x80 OR word_of_nat (t * 16) OR ch
      in status_type cmd = t \<and> cmd AND 0x80 \<noteq> 0 \<and> cmd < 0xf0 \<and> cmd AND 0x0f = ch \<and> cmd AND 0xf0 \<noteq> 0xf0)"

lemma channel_cmd_enum: "list_all (\<lambda>t. list_all (\<lambda>n. channel_cmd_ok t (word_of_nat n)) [0..<16]) [0..<7]"
  by code_simp
lemma nibble: "unat (ch AND 0x0f :: u8) < 16"
  by (rule byte_enum [where c = ch]) code_simp

lemma channel_status:
  assumes "t < 7"
  shows "channel_cmd_ok t (ch AND 0x0f)"
proof -
  have "list_all (\<lambda>n. channel_cmd_ok t (word_of_nat n)) [0..<16]"
    using channel_cmd_enum assms unfolding list_all_iff [of _ "[0..<7]"] by simp
  moreover have "unat (ch AND 0x0f) \<in> set [0..<16]" using nibble [of ch] by simp
  ultimately have "channel_cmd_ok t (word_of_nat (unat (ch AND 0x0f)))" unfolding list_all_iff by blast
  then show ?thesis by simp
qed

lemma entry_data:
  assumes "short_type t" "ev_type ev = st_event (status_event ! t)" "event_in_range ev"
    "ds = decode_data (status_event ! t) ev"
  shows "length ds = data_len t" "\<forall>d \<in> set ds. data_byte d"
proof -
  obtain dev :: midi_event where "mbuf dev = [ev_channel ev, ds ! 0, ds ! 1]"
    by (metis midi_event.select_convs(7))
  moreover have "ev_channel ev AND 0x0f = ev_channel ev"
  proof -
    have "c < 16 \<longrightarrow> c AND 0x0f = (c :: u8)" for c by (rule byte_enum [where c = c]) code_simp
    then show ?thesis using assms(3) by (simp add: event_in_range_def)
  qed
  ultimately show "length ds = data_len t" "\<forall>d \<in> set ds. data_byte d"
    using entry_roundtrip [OF assms(1-3), of dev ds ev] assms(4) by auto
qed

text \<open>A message with data bytes, once its bytes are in the encoder's buffer.\<close>

lemma delivered:
  assumes "short_type t" "ev_type ev = st_event (status_event ! t)" "event_in_range ev"
    "3 \<le> length (mbuf dev)" "t < 7 \<longrightarrow> mbuf dev ! 0 AND 0x0f = ev_channel ev" "mtype dev = t"
    "ds = decode_data (status_event ! t) ev" "mbuf dev ! 1 = ds ! 0" "length ds = 2 \<longrightarrow> mbuf dev ! 2 = ds ! 1"
  shows "\<exists>ev'. loop_delivers dev ev0 n = Some (n, if t \<ge> ST_SPECIAL then dev\<lparr>mtype := ST_INVALID\<rparr> else dev, ev') \<and>
       ev_type ev' = ev_type ev \<and> event_fields ev' = event_fields ev"
  using entry_roundtrip [OF assms(1-5,7-9), of "set_length SND_SEQ_EVENT_LENGTH_FIXED (ev0\<lparr>ev_type := st_event (status_event ! t)\<rparr>)"]
    assms(2,6) by (auto simp: loop_delivers_def delivers_def set_length_def)

section \<open>From decoder to encoder\<close>

definition live_type :: "nat \<Rightarrow> bool" where
  "live_type t = (short_type t \<or> t \<in> {14, 16, 18, 19, 20, 22, 23})"

lemma live_cases:
  "live_type t \<longleftrightarrow> short_type t \<or> t = 14 \<or> t = 16 \<or> t = 18 \<or> t = 19 \<or> t = 20 \<or> t = 22 \<or> t = 23"
  by (simp add: live_type_def)

lemma find_live: "live_type t \<Longrightarrow> find_status 0 status_event (st_event (status_event ! t)) = Some t"
  unfolding live_cases short_cases
  by (elim disjE; simp add: status_event_def st_none_def st_plain_def)

definition status_byte :: "nat \<Rightarrow> seq_event \<Rightarrow> u8" where
  "status_byte t ev =
     (if t \<ge> ST_SPECIAL then 0xf0 + word_of_nat (t - ST_SPECIAL)
      else 0x80 OR word_of_nat (t * 16) OR (ev_channel ev AND 0x0f))"

lemma plain_entry:
  "live_type t \<Longrightarrow> \<not> short_type t \<Longrightarrow>
     st_qlen (status_event ! t) = 0 \<and> decode_data (status_event ! t) ev = [] \<and> st_encode (status_event ! t) = None"
  unfolding live_cases
  by (elim disjE; simp add: status_event_def decode_data_def st_plain_def)

lemma live_entry:
  assumes "live_type t" "ev_type ev = st_event (status_event ! t)" "event_in_range ev"
  shows "st_qlen (status_event ! t) = int (length (decode_data (status_event ! t) ev))"
    "length (decode_data (status_event ! t) ev) \<le> 2" "ev_type ev \<noteq> SND_SEQ_EVENT_NONE"
proof -
  have *: "short_type t \<Longrightarrow> st_qlen (status_event ! t) = int (length (decode_data (status_event ! t) ev)) \<and>
      length (decode_data (status_event ! t) ev) \<le> 2"
    using entry_data [OF _ assms(2,3) refl] short_qlen [of t] by simp
  have **: "\<not> short_type t \<Longrightarrow> st_qlen (status_event ! t) = 0 \<and> decode_data (status_event ! t) ev = []"
    using plain_entry assms(1) by simp
  show "st_qlen (status_event ! t) = int (length (decode_data (status_event ! t) ev))"
    "length (decode_data (status_event ! t) ev) \<le> 2"
    using * ** by (cases "short_type t"; simp)+
  show "ev_type ev \<noteq> SND_SEQ_EVENT_NONE"
    using assms(1) unfolding assms(2) live_cases short_cases
    by (elim disjE; simp add: status_event_def st_plain_def)
qed

lemma decode_live:
  assumes "live_type t" "ev_type ev = st_event (status_event ! t)" "event_in_range ev" "3 \<le> count"
  defines "cmd \<equiv> status_byte t ev" and "ds \<equiv> decode_data (status_event ! t) ev"
  shows "snd_midi_event_decode dec count ev =
    (if t \<ge> ST_SPECIAL \<or> lastcmd dec \<noteq> cmd \<or> nostat dec then (Inr (cmd # ds), dec\<lparr>lastcmd := cmd\<rparr>) else (Inr ds, dec))"
proof -
  have e: "(if t \<ge> ST_SPECIAL then 0xf0 + word_of_nat (t - ST_SPECIAL) else 0x80 OR word_of_nat (t * 16) OR (ev_channel ev AND 0x0f)) = cmd"
    by (simp add: cmd_def status_byte_def)
  have c: "cmd \<noteq> MIDI_CMD_COMMON_SYSEX \<and> (cmd AND 0xf0 = 0xf0 \<longleftrightarrow> t \<ge> ST_SPECIAL)"
  proof (cases "t < 7")
    case True
    then show ?thesis
      using channel_status [OF True, of "ev_channel ev"]
      by (auto simp: cmd_def status_byte_def channel_cmd_ok_def Let_def)
  next
    case False
    then show ?thesis
      using assms(1) unfolding live_cases short_cases cmd_def status_byte_def
      by (elim disjE; simp)
  qed
  note l = live_entry [OF assms(1-3), folded ds_def]
  have n: "nat (st_qlen (status_event ! t) + 1) = Suc (length ds)" "nat (st_qlen (status_event ! t)) = length ds"
    "\<not> count < st_qlen (status_event ! t) + 1" "\<not> count < st_qlen (status_event ! t)"
    using l(1,2) assms(4) by auto
  have f: "find_status 0 status_event (ev_type ev) = Some t" using find_live [OF assms(1)] assms(2) by simp
  have tk: "take (Suc (length ds)) (cmd # ds) = cmd # ds" "take (length ds) ds = ds" by simp_all
  show ?thesis
    unfolding snd_midi_event_decode_def f option.case Let_def e ds_def [symmetric]
    using l(3) c n by (auto simp: tk)
qed


text \<open>
  One event through both: its bytes are one message, consumed to the last byte, and the event
  that comes out says the same.
\<close>

definition live_event :: "seq_event \<Rightarrow> bool" where
  "live_event ev \<longleftrightarrow> event_in_range ev \<and>
     (\<exists>t < 24. live_type t \<and> ev_type ev = st_event (status_event ! t))"

lemma in_sync_after:
  assumes "3 \<le> length (mbuf dev)" "qlen dev = 0" "mtype dev = status_type cmd" "mbuf dev ! 0 = cmd" "mtype dev < 7"
  shows "in_sync (dec\<lparr>lastcmd := cmd\<rparr>) dev"
  using assms by (simp add: in_sync_def)

lemma loop_status:
  assumes "short_type t" "ev_type ev = st_event (status_event ! t)" "event_in_range ev" "3 \<le> length (mbuf enc)"
  defines "cmd \<equiv> status_byte t ev" and "ds \<equiv> decode_data (status_event ! t) ev"
  shows "\<exists>enc' ev'. encode_loop enc (cmd # ds) 0 ev0 = Some (int (length ds) + 1, enc', ev') \<and>
    ev_type ev' = ev_type ev \<and> event_fields ev' = event_fields ev \<and> in_sync (dec\<lparr>lastcmd := cmd\<rparr>) enc'"
proof -
  have ch: "t < 7 \<Longrightarrow> cmd AND 0x0f = ev_channel ev"
  proof -
    have "c < 16 \<longrightarrow> c AND 0x0f = (c :: u8)" for c by (rule byte_enum [where c = c]) code_simp
    then have "ev_channel ev AND 0x0f = ev_channel ev" using assms(3) by (simp add: event_in_range_def)
    then show "t < 7 \<Longrightarrow> cmd AND 0x0f = ev_channel ev"
      using channel_status [of t "ev_channel ev"]
      by (simp add: cmd_def status_byte_def channel_cmd_ok_def Let_def)
  qed
  have c: "cmd AND 0x80 \<noteq> 0 \<and> cmd < 0xf8 \<and> cmd \<noteq> 0xf7 \<and> status_type cmd = t \<and> (t < 7 \<longleftrightarrow> cmd < 0xf0)"
  proof (cases "t < 7")
    case True
    then have "channel_cmd_ok t (ev_channel ev AND 0x0f)" by (rule channel_status)
    with True have "cmd AND 0x80 \<noteq> 0" "cmd < 0xf0" "status_type cmd = t"
      by (auto simp: cmd_def status_byte_def channel_cmd_ok_def Let_def)
    moreover from \<open>cmd < 0xf0\<close> have "cmd < 0xf8" by (rule less_le_trans) simp
    ultimately show ?thesis using True by auto
  next
    case False
    then show ?thesis
      using assms(1) unfolding short_cases cmd_def status_byte_def
      by (elim disjE; simp add: status_type_def)
  qed
  note d = entry_data [OF assms(1-3) ds_def [THEN meta_eq_to_obj_eq]]
  obtain dev where dev: "length (mbuf dev) = length (mbuf enc)" "mtype dev = t" "qlen dev = 0" "mbuf dev ! 0 = cmd"
    "mbuf dev ! 1 = ds ! 0" "length ds = 2 \<longrightarrow> mbuf dev ! 2 = ds ! 1"
    "encode_loop enc (cmd # ds) 0 ev0 = loop_delivers dev ev0 (int (length ds) + 1)"
    using parse_status [of cmd enc ds ev0] c assms(1,4) d by auto
  have l: "3 \<le> length (mbuf dev)" using dev(1) assms(4) by simp
  obtain ev' where "loop_delivers dev ev0 (int (length ds) + 1) =
      Some (int (length ds) + 1, if t \<ge> ST_SPECIAL then dev\<lparr>mtype := ST_INVALID\<rparr> else dev, ev')"
    "ev_type ev' = ev_type ev" "event_fields ev' = event_fields ev"
    using delivered [OF assms(1-3) l _ dev(2) ds_def [THEN meta_eq_to_obj_eq] dev(5,6)] dev(4) ch by blast
  moreover have "in_sync (dec\<lparr>lastcmd := cmd\<rparr>) (if t \<ge> ST_SPECIAL then dev\<lparr>mtype := ST_INVALID\<rparr> else dev)"
    using c dev(2-4) l assms(1) by (auto simp: in_sync_def short_type_def)
  ultimately show ?thesis using dev(7) by simp
qed

lemma loop_running:
  assumes "t < 7" "ev_type ev = st_event (status_event ! t)" "event_in_range ev" "in_sync dec enc"
    "lastcmd dec = status_byte t ev"
  defines "ds \<equiv> decode_data (status_event ! t) ev"
  shows "\<exists>enc' ev'. encode_loop enc ds 0 ev0 = Some (int (length ds), enc', ev') \<and>
    ev_type ev' = ev_type ev \<and> event_fields ev' = event_fields ev \<and> in_sync dec enc'"
proof -
  have t: "short_type t" using assms(1) by (simp add: short_type_def)
  have k: "channel_cmd_ok t (ev_channel ev AND 0x0f)" using assms(1) by (rule channel_status)
  have "c < 16 \<longrightarrow> c AND 0x0f = (c :: u8)" for c by (rule byte_enum [where c = c]) code_simp
  then have "ev_channel ev AND 0x0f = ev_channel ev" using assms(3) by (simp add: event_in_range_def)
  with k assms(1) have c: "status_byte t ev AND 0x80 \<noteq> 0" "status_byte t ev < 0xf0" "status_type (status_byte t ev) = t"
    "status_byte t ev AND 0x0f = ev_channel ev"
    by (auto simp: status_byte_def channel_cmd_ok_def Let_def)
  then have e: "3 \<le> length (mbuf enc)" "qlen enc = 0" "mtype enc = t" "mbuf enc ! 0 = status_byte t ev"
    using assms(4,5) by (auto simp: in_sync_def)
  note d = entry_data [OF t assms(2,3) ds_def [THEN meta_eq_to_obj_eq]]
  obtain dev where dev: "length (mbuf dev) = length (mbuf enc)" "mtype dev = t" "qlen dev = 0"
    "mbuf dev ! 0 = status_byte t ev" "mbuf dev ! 1 = ds ! 0" "length ds = 2 \<longrightarrow> mbuf dev ! 2 = ds ! 1"
    "encode_loop enc ds 0 ev0 = loop_delivers dev ev0 (int (length ds))"
    using parse_running [of enc ds ev0] e assms(1) d by auto
  have l: "3 \<le> length (mbuf dev)" using dev(1) e(1) by simp
  obtain ev' where "loop_delivers dev ev0 (int (length ds)) = Some (int (length ds), dev, ev')"
    "ev_type ev' = ev_type ev" "event_fields ev' = event_fields ev"
    using delivered [OF t assms(2,3) l _ dev(2) ds_def [THEN meta_eq_to_obj_eq] dev(5,6)] dev(4) c(4) assms(1) by auto
  moreover have "in_sync dec dev"
    using assms(1,5) dev(2-4) l c by (simp add: in_sync_def)
  ultimately show ?thesis using dev(7) by auto
qed

lemma loop_plain:
  assumes "live_type t" "\<not> short_type t" "ev_type ev = st_event (status_event ! t)" "in_sync dec enc"
  defines "cmd \<equiv> status_byte t ev"
  shows "\<exists>enc' ev'. encode_loop enc [cmd] 0 ev0 = Some (1, enc', ev') \<and>
    ev_type ev' = ev_type ev \<and> event_fields ev' = event_fields ev \<and> in_sync (dec\<lparr>lastcmd := cmd\<rparr>) enc'"
proof -
  have b: "mbuf enc \<noteq> []" "3 \<le> length (mbuf enc)" "qlen enc = 0" "mtype enc \<le> ST_INVALID" using assms(4) by (auto simp: in_sync_def)
  have "t = 14 \<or> t = 16 \<or> t = 18 \<or> t = 19 \<or> t = 20 \<or> t = 22 \<or> t = 23"
    using assms(1,2) unfolding live_cases by blast
  then show ?thesis
    using assms(3) b unfolding cmd_def status_byte_def
    by (elim disjE; simp add: snd_midi_event_encode_byte_def new_command_eq status_type_def complete_event_def
        status_event_def st_plain_def set_length_def event_fields_def in_sync_def Let_def)
qed

lemma send_event:
  assumes "live_event ev" "in_sync dec enc" "3 \<le> count"
  shows "\<exists>bs dec' enc' ev'. snd_midi_event_decode dec count ev = (Inr bs, dec') \<and>
    snd_midi_event_encode enc bs ev0 = Some (int (length bs), enc', ev') \<and>
    ev_type ev' = ev_type ev \<and> event_fields ev' = event_fields ev \<and> in_sync dec' enc'"
proof -
  obtain t where t: "live_type t" "ev_type ev = st_event (status_event ! t)" "event_in_range ev" "t < 24"
    using assms(1) by (auto simp: live_event_def)
  let ?ds = "decode_data (status_event ! t) ev" and ?cmd = "status_byte t ev"
  let ?ev0 = "ev0\<lparr>ev_type := SND_SEQ_EVENT_NONE\<rparr>"
  note d = decode_live [OF t(1-3) assms(3), of dec]
  have l: "3 \<le> length (mbuf enc)" using assms(2) by (simp add: in_sync_def)
  have "short_type t \<Longrightarrow> t < 7 \<or> t \<ge> ST_SPECIAL" by (auto simp: short_type_def)
  consider "short_type t" "t \<ge> ST_SPECIAL \<or> lastcmd dec \<noteq> ?cmd \<or> nostat dec"
    | "t < 7" "\<not> (t \<ge> ST_SPECIAL \<or> lastcmd dec \<noteq> ?cmd \<or> nostat dec)" | "\<not> short_type t"
    using \<open>short_type t \<Longrightarrow> t < 7 \<or> t \<ge> ST_SPECIAL\<close> by blast
  then show ?thesis
  proof cases
    case 1
    then show ?thesis
      using d loop_status [OF 1(1) t(2,3) l, of ?ev0 dec] by (auto simp: snd_midi_event_encode_def add.commute)
  next
    case 2
    then show ?thesis
      using d loop_running [OF 2(1) t(2,3) assms(2), of ?ev0] by (auto simp: snd_midi_event_encode_def)
  next
    case 3
    then have "t \<ge> ST_SPECIAL" using t(1) unfolding live_cases by auto
    moreover have "?ds = []" using plain_entry [OF t(1) 3] by blast
    ultimately show ?thesis
      using d loop_plain [OF t(1) 3 t(2) assms(2), of ?ev0] by (auto simp: snd_midi_event_encode_def simp del: encode_loop.simps)
  qed
qed


text \<open>A list of events, each decoded by one parser and its bytes encoded by another.\<close>

fun transmit :: "int \<Rightarrow> midi_event \<Rightarrow> midi_event \<Rightarrow> seq_event \<Rightarrow> seq_event list \<Rightarrow> seq_event list option" where
  "transmit count dec enc ev0 [] = Some []"
| "transmit count dec enc ev0 (ev # evs) =
     (case snd_midi_event_decode dec count ev of
        (Inl e, dec) \<Rightarrow> None
      | (Inr bs, dec) \<Rightarrow>
          (case snd_midi_event_encode enc bs ev0 of
             None \<Rightarrow> None
           | Some (n, enc, ev') \<Rightarrow>
               if n \<noteq> int (length bs) then None
               else map_option (\<lambda>evs'. ev' # evs') (transmit count dec enc ev0 evs)))"

lemma transmit_all:
  assumes "\<forall>ev \<in> set evs. live_event ev" "in_sync dec enc" "3 \<le> count"
  shows "\<exists>evs'. transmit count dec enc ev0 evs = Some evs' \<and>
    map (\<lambda>e. (ev_type e, event_fields e)) evs' = map (\<lambda>e. (ev_type e, event_fields e)) evs"
  using assms
proof (induction evs arbitrary: dec enc)
  case (Cons ev evs)
  obtain bs dec' enc' ev' where s: "snd_midi_event_decode dec count ev = (Inr bs, dec')"
    "snd_midi_event_encode enc bs ev0 = Some (int (length bs), enc', ev')"
    "ev_type ev' = ev_type ev" "event_fields ev' = event_fields ev" "in_sync dec' enc'"
    using send_event [of ev dec enc count ev0] Cons.prems by auto
  moreover obtain evs' where "transmit count dec' enc' ev0 evs = Some evs'"
    "map (\<lambda>e. (ev_type e, event_fields e)) evs' = map (\<lambda>e. (ev_type e, event_fields e)) evs"
    using Cons.IH [of dec' enc'] Cons.prems s(5) by auto
  ultimately show ?case by (intro exI [of _ "ev' # evs'"]) simp
qed simp

text \<open>The bytes of a stream, judged one after the other in the states the parser goes through.\<close>

fun stream_ok :: "midi_event \<Rightarrow> u8 list \<Rightarrow> seq_event \<Rightarrow> bool" where
  "stream_ok dev [] ev = True"
| "stream_ok dev (c # cs) ev =
     (acceptable dev c \<and>
      (case snd_midi_event_encode_byte dev c ev of
         None \<Rightarrow> True | Some (rc, dev, ev) \<Rightarrow> stream_ok dev cs ev))"

lemma encode_loop_safe:
  assumes "enc_ok dev" "stream_ok dev bs ev"
  shows "\<exists>n dev' ev'. encode_loop dev bs r ev = Some (n, dev', ev') \<and> enc_ok dev' \<and> r \<le> n \<and> n \<le> r + int (length bs) \<and>
     lastcmd dev' = lastcmd dev \<and> bufsize dev' = bufsize dev"
  using assms
proof (induction bs arbitrary: dev ev r)
  case (Cons c bs)
  obtain rc dev1 ev1 where s: "snd_midi_event_encode_byte dev c ev = Some (rc, dev1, ev1)" "rc = 0 \<or> rc = 1"
    "enc_ok dev1" "lastcmd dev1 = lastcmd dev" "bufsize dev1 = bufsize dev"
    using encode_byte_safe [OF Cons.prems(1), of c ev] Cons.prems(2) by (auto simp: good_step_def)
  then have "stream_ok dev1 bs ev1" using Cons.prems(2) by simp
  from Cons.IH [OF s(3) this, of "r + 1"] s show ?case by auto
qed simp

text \<open>
  What happens outside such streams. A data byte while no status is in force makes the length
  of the message \<open>(size_t) -2\<close>, so the data bytes after it are stored one behind the other past
  the end of the buffer. Decoding a system exclusive event leaves the running status in force,
  which the message itself ends: the next channel event is sent without a status byte. A failed
  decoding for want of room has set the running status already. The two halves of a parameter
  number, and of its value, are sent in the wrong order.
\<close>

definition fresh_parser :: midi_event where
  "fresh_parser = \<lparr>qlen = 0, nread = 0, mtype = ST_INVALID, lastcmd = 0xff, nostat = False, bufsize = 16,
     mbuf = replicate 16 0\<rparr>"

definition blank_event :: seq_event where
  "blank_event = \<lparr>ev_type = SND_SEQ_EVENT_NONE, ev_flags = 0, ev_channel = 0, ev_note = 0, ev_velocity = 0,
     ev_param = 0, ev_value = 0, ext_len = 0, ext_data = []\<rparr>"

definition note_on :: seq_event where
  "note_on = blank_event\<lparr>ev_type := SND_SEQ_EVENT_NOTEON, ev_note := 60, ev_velocity := 100\<rparr>"

lemma stray_data_overflow:
  "snd_midi_event_new 16 True (Some (replicate 16 0)) = Inr fresh_parser"
  "snd_midi_event_encode fresh_parser (replicate 16 1) blank_event = None"
  by code_simp+

lemma sysex_keeps_running_status:
  "transmit 12 fresh_parser fresh_parser blank_event
     [note_on, blank_event\<lparr>ev_type := SND_SEQ_EVENT_SYSEX, ev_flags := 4, ext_len := 3, ext_data := [0xf0, 1, 0xf7]\<rparr>, note_on] \<noteq> None \<and>
   map ev_type (the (transmit 12 fresh_parser fresh_parser blank_event
     [note_on, blank_event\<lparr>ev_type := SND_SEQ_EVENT_SYSEX, ev_flags := 4, ext_len := 3, ext_data := [0xf0, 1, 0xf7]\<rparr>, note_on])) =
     [SND_SEQ_EVENT_NOTEON, SND_SEQ_EVENT_SYSEX, SND_SEQ_EVENT_NONE]"
  by code_simp

lemma failed_decode_sets_status:
  "fst (snd_midi_event_decode fresh_parser 2 note_on) = Inl ENOMEM"
  "fst (snd_midi_event_decode (snd (snd_midi_event_decode fresh_parser 2 note_on)) 3 note_on) = Inr [60, 100]"
  by code_simp+

lemma xrpn_swapped:
  "fst (snd_midi_event_decode fresh_parser 12
     (blank_event\<lparr>ev_type := SND_SEQ_EVENT_NONREGPARAM, ev_param := 1, ev_value := 2\<rparr>)) =
     Inr [0xb0, 0x63, 1, 0x62, 0, 0x06, 2, 0x26, 0]"
  by code_simp

section \<open>Properties\<close>

text \<open>
  C10 -- events survive the wire. Any list of channel, common and real time events in MIDI's
  ranges, decoded into bytes by one parser, with running status or without, and encoded by
  another, comes out with the same types and fields, every message consumed to its last byte.
\<close>

theorem midi_roundtrip:
  assumes "\<forall>ev \<in> set evs. live_event ev" "in_sync dec enc" "3 \<le> count"
  shows "\<exists>evs'. transmit count dec enc ev0 evs = Some evs' \<and>
    map (\<lambda>e. (ev_type e, event_fields e)) evs' = map (\<lambda>e. (ev_type e, event_fields e)) evs"
  by (rule transmit_all [OF assms])

lemma midi_roundtrip_witness:
  "\<exists>evs'. transmit 3 fresh_parser fresh_parser blank_event [note_on, note_on] = Some evs' \<and>
    map (\<lambda>e. (ev_type e, event_fields e)) evs' = [(6, [0, 60, 100]), (6, [0, 60, 100])]"
proof -
  have "event_in_range note_on" by code_simp
  moreover have "live_type 1" "ev_type note_on = st_event (status_event ! 1)" by code_simp+
  ultimately have "live_event note_on" unfolding live_event_def by (intro conjI exI [of _ 1]) simp_all
  moreover have "in_sync fresh_parser fresh_parser" by code_simp
  moreover have "(ev_type note_on, event_fields note_on) = (6, [0, 60, 100])" by code_simp
  ultimately show ?thesis
    using midi_roundtrip [of "[note_on, note_on]" fresh_parser fresh_parser 3 blank_event] by simp
qed

text \<open>
  C30 -- the parser stays inside its buffer. From a good state, on a stream without data bytes
  that lack a status and without undefined status bytes, encoding never writes or reads
  outside the buffer, consumes at most the bytes it is given, and leaves a good state.
\<close>

theorem midi_parser_safe:
  assumes "enc_ok dev" "stream_ok dev bs (ev\<lparr>ev_type := SND_SEQ_EVENT_NONE\<rparr>)"
  shows "\<exists>n dev' ev'. snd_midi_event_encode dev bs ev = Some (n, dev', ev') \<and> enc_ok dev' \<and>
    0 \<le> n \<and> n \<le> int (length bs) \<and> lastcmd dev' = lastcmd dev \<and> bufsize dev' = bufsize dev"
  using encode_loop_safe [OF assms, of 0] by (simp add: snd_midi_event_encode_def)

lemma midi_parser_safe_witness:
  "\<exists>n dev' ev'. snd_midi_event_encode fresh_parser [0x90, 60, 0xfe, 100, 61, 101] blank_event = Some (n, dev', ev') \<and>
    enc_ok dev' \<and> n \<le> 6"
proof -
  have "enc_ok fresh_parser" "stream_ok fresh_parser [0x90, 60, 0xfe, 100, 61, 101] (blank_event\<lparr>ev_type := SND_SEQ_EVENT_NONE\<rparr>)"
    by code_simp+
  from midi_parser_safe [OF this] show ?thesis by auto
qed

end
