(* ===== verification/OmxQueue.thy ===== *)
theory OmxQueue
  imports Prelude
begin

text \<open>
  The queue of the OpenMAX core, \<open>libomxil-bellagio/src/queue.c\<close>: a ring of
  \<open>MAX_QUEUE_ELEMENTS - 1\<close> cells on the heap, linked by \<open>q_forw\<close>, with a pointer to the oldest
  element and one to the next free cell; an element is a pointer that is not \<open>NULL\<close>, and a
  cell is free when its pointer is \<open>NULL\<close>. Addresses are numbers and 0 is \<open>NULL\<close>; \<open>malloc\<close>
  succeeds as long as its budget lasts; an access through an address that is not allocated,
  and a second \<open>free\<close>, are \<open>None\<close>. The contract \<open>bounded_fifo\<close> says what the ports and
  components rely on, and the ring provides it, to calls that follow each other and, as far as it
  goes, to calls that overlap: the operations test a cell before they take the mutex.
\<close>

abbreviation MAX_QUEUE_ELEMENTS :: nat where "MAX_QUEUE_ELEMENTS \<equiv> 10"

section \<open>The heap of cells\<close>

record 'a qelem_t =
  q_forw :: nat
  qdata :: "'a option"

record 'a qheap =
  cells :: "nat \<Rightarrow> 'a qelem_t option"
  brk :: nat
  budget :: nat

definition qmalloc :: "'a qheap \<Rightarrow> nat \<times> 'a qheap" where
  "qmalloc h =
     (if budget h = 0 then (0, h)
      else (Suc (brk h), h\<lparr>cells := (cells h)(Suc (brk h) \<mapsto> \<lparr>q_forw = 0, qdata = None\<rparr>),
                           brk := Suc (brk h), budget := budget h - 1\<rparr>))"

definition qfree :: "'a qheap \<Rightarrow> nat \<Rightarrow> 'a qheap option" where
  "qfree h a =
     (case cells h a of
        None \<Rightarrow> None
      | Some c \<Rightarrow> Some (h\<lparr>cells := (cells h)(a := None)\<rparr>))"

definition upd_cell :: "'a qheap \<Rightarrow> nat \<Rightarrow> ('a qelem_t \<Rightarrow> 'a qelem_t) \<Rightarrow> 'a qheap option" where
  "upd_cell h a f =
     (case cells h a of
        None \<Rightarrow> None
      | Some c \<Rightarrow> Some (h\<lparr>cells := (cells h)(a \<mapsto> f c)\<rparr>))"

record queue_t =
  qfirst :: nat
  qlast :: nat
  nelem :: int

section \<open>Initialisation and release\<close>

text \<open>The loop that frees the cells allocated so far, up to the \<open>NULL\<close> link of the last.\<close>

partial_function (option) free_chain :: "nat \<Rightarrow> 'a qheap \<Rightarrow> 'a qheap option" where
  "free_chain a h =
     (if a = 0 then Some h
      else case cells h a of
        None \<Rightarrow> None
      | Some c \<Rightarrow>
          (case qfree h a of None \<Rightarrow> None | Some h \<Rightarrow> free_chain (q_forw c) h))"

text \<open>Allocating and linking \<open>n\<close> more cells; \<open>False\<close> when \<open>malloc\<close> fails.\<close>

fun link_cells :: "nat \<Rightarrow> nat \<Rightarrow> 'a qheap \<Rightarrow> (bool \<times> nat \<times> 'a qheap) option" where
  "link_cells 0 current h = Some (True, current, h)"
| "link_cells (Suc n) current h =
     (case qmalloc h of (newelem, h) \<Rightarrow>
        if newelem = 0 then Some (False, current, h)
        else case upd_cell h current (\<lambda>c. c\<lparr>q_forw := newelem\<rparr>) of
               None \<Rightarrow> None
             | Some h \<Rightarrow> link_cells n newelem h)"

text \<open>
  The result is 0 or -1, the descriptor and the heap. \<open>mutex_ok\<close> is the result of
  \<open>pthread_mutex_init\<close>.
\<close>

definition queue_init ::
    "bool \<Rightarrow> queue_t \<Rightarrow> 'a qheap \<Rightarrow> (int \<times> queue_t \<times> 'a qheap) option" where
  "queue_init mutex_ok q h =
     (if \<not> mutex_ok then Some (-1, q, h)
      else case qmalloc h of (a, h) \<Rightarrow>
        if a = 0 then Some (-1, q\<lparr>qfirst := 0\<rparr>, h)
        else
          (let q = q\<lparr>qfirst := a, qlast := a, nelem := 0\<rparr>
           in case link_cells (MAX_QUEUE_ELEMENTS - 2) a h of
                None \<Rightarrow> None
              | Some (False, current, h) \<Rightarrow>
                  (case free_chain (qfirst q) h of
                     None \<Rightarrow> None
                   | Some h \<Rightarrow> Some (-1, q\<lparr>qfirst := 0\<rparr>, h))
              | Some (True, current, h) \<Rightarrow>
                  (case upd_cell h current (\<lambda>c. c\<lparr>q_forw := qfirst q\<rparr>) of
                     None \<Rightarrow> None
                   | Some h \<Rightarrow> Some (0, q, h))))"

fun deinit_loop :: "nat \<Rightarrow> nat \<Rightarrow> 'a qheap \<Rightarrow> (nat \<times> 'a qheap) option" where
  "deinit_loop 0 a h = Some (a, h)"
| "deinit_loop (Suc n) a h =
     (if a = 0 then deinit_loop n a h
      else case cells h a of
        None \<Rightarrow> None
      | Some c \<Rightarrow> (case qfree h a of None \<Rightarrow> None | Some h \<Rightarrow> deinit_loop n (q_forw c) h))"

definition queue_deinit :: "queue_t \<Rightarrow> 'a qheap \<Rightarrow> (queue_t \<times> 'a qheap) option" where
  "queue_deinit q h =
     (case deinit_loop (MAX_QUEUE_ELEMENTS - 2) (qfirst q) h of
        None \<Rightarrow> None
      | Some (a, h) \<Rightarrow>
          if a \<noteq> 0 then (case qfree h a of None \<Rightarrow> None | Some h \<Rightarrow> Some (q\<lparr>qfirst := 0\<rparr>, h))
          else Some (q\<lparr>qfirst := a\<rparr>, h))"

section \<open>Queueing\<close>

text \<open>
  The accesses of \<open>queue\<close> in their order: the test, which comes before the mutex is taken, and the
  three statements done while it is held.
\<close>

definition queue_full :: "queue_t \<Rightarrow> 'a qheap \<Rightarrow> bool option" where
  "queue_full q h = map_option (\<lambda>c. qdata c \<noteq> None) (cells h (qlast q))"

definition queue_store :: "queue_t \<Rightarrow> 'a option \<Rightarrow> 'a qheap \<Rightarrow> 'a qheap option" where
  "queue_store q data h = upd_cell h (qlast q) (\<lambda>c. c\<lparr>qdata := data\<rparr>)"

definition queue_advance :: "queue_t \<Rightarrow> 'a qheap \<Rightarrow> queue_t option" where
  "queue_advance q h = map_option (\<lambda>c. q\<lparr>qlast := q_forw c\<rparr>) (cells h (qlast q))"

definition queue_count :: "queue_t \<Rightarrow> queue_t" where
  "queue_count q = q\<lparr>nelem := nelem q + 1\<rparr>"

text \<open>A call nobody interrupts.\<close>

definition queue :: "queue_t \<Rightarrow> 'a option \<Rightarrow> 'a qheap \<Rightarrow> (int \<times> queue_t \<times> 'a qheap) option" where
  "queue q data h =
     (case queue_full q h of
        None \<Rightarrow> None
      | Some full \<Rightarrow>
          if full then Some (-1, q, h)
          else case queue_store q data h of
                 None \<Rightarrow> None
               | Some h \<Rightarrow>
                   (case queue_advance q h of
                      None \<Rightarrow> None
                    | Some q \<Rightarrow> Some (0, queue_count q, h)))"

text \<open>The accesses of \<open>dequeue\<close>: again the test is made without the mutex.\<close>

definition dequeue_none :: "queue_t \<Rightarrow> 'a qheap \<Rightarrow> bool option" where
  "dequeue_none q h = map_option (\<lambda>c. qdata c = None) (cells h (qfirst q))"

definition dequeue_read :: "queue_t \<Rightarrow> 'a qheap \<Rightarrow> 'a option option" where
  "dequeue_read q h = map_option qdata (cells h (qfirst q))"

definition dequeue_clear :: "queue_t \<Rightarrow> 'a qheap \<Rightarrow> 'a qheap option" where
  "dequeue_clear q h = upd_cell h (qfirst q) (\<lambda>c. c\<lparr>qdata := None\<rparr>)"

definition dequeue_advance :: "queue_t \<Rightarrow> 'a qheap \<Rightarrow> queue_t option" where
  "dequeue_advance q h = map_option (\<lambda>c. q\<lparr>qfirst := q_forw c\<rparr>) (cells h (qfirst q))"

definition dequeue_count :: "queue_t \<Rightarrow> queue_t" where
  "dequeue_count q = q\<lparr>nelem := nelem q - 1\<rparr>"

definition dequeue :: "queue_t \<Rightarrow> 'a qheap \<Rightarrow> ('a option \<times> queue_t \<times> 'a qheap) option" where
  "dequeue q h =
     (case dequeue_none q h of
        None \<Rightarrow> None
      | Some none \<Rightarrow>
          if none then Some (None, q, h)
          else case dequeue_read q h of
                 None \<Rightarrow> None
               | Some data \<Rightarrow>
                   (case dequeue_clear q h of
                      None \<Rightarrow> None
                    | Some h \<Rightarrow>
                        (case dequeue_advance q h of
                           None \<Rightarrow> None
                         | Some q \<Rightarrow> Some (data, dequeue_count q, h))))"

definition getquenelem :: "queue_t \<Rightarrow> int" where
  "getquenelem q = nelem q"

section \<open>The contract of a bounded queue\<close>

text \<open>
  The operations are partial because they follow pointers; on a represented state they are
  defined. \<open>rep\<close> relates a state to the list of its elements, oldest first.
\<close>

datatype 'a qop = Enqueue 'a | Dequeue

datatype 'a qresult = Queued bool | Dequeued "'a option"

text \<open>The specification: a list of at most \<open>cap\<close> elements.\<close>

fun fifo_step :: "nat \<Rightarrow> 'a qop \<Rightarrow> 'a list \<Rightarrow> 'a qresult \<times> 'a list" where
  "fifo_step cap (Enqueue x) xs =
     (if length xs < cap then (Queued True, xs @ [x]) else (Queued False, xs))"
| "fifo_step cap Dequeue xs =
     (case xs of [] \<Rightarrow> (Dequeued None, []) | x # ys \<Rightarrow> (Dequeued (Some x), ys))"

fun fifo_run :: "nat \<Rightarrow> 'a qop list \<Rightarrow> 'a list \<Rightarrow> 'a qresult list \<times> 'a list" where
  "fifo_run cap [] xs = ([], xs)"
| "fifo_run cap (p # ps) xs =
     (case fifo_step cap p xs of
        (r, ys) \<Rightarrow> (case fifo_run cap ps ys of (rs, zs) \<Rightarrow> (r # rs, zs)))"

locale bounded_fifo =
  fixes enq :: "'a \<Rightarrow> 's \<Rightarrow> (bool \<times> 's) option"
    and deq :: "'s \<Rightarrow> ('a option \<times> 's) option"
    and len :: "'s \<Rightarrow> int"
    and rep :: "'s \<Rightarrow> 'a list \<Rightarrow> bool"
    and cap :: nat
  assumes enq_room: "rep s xs \<Longrightarrow> length xs < cap \<Longrightarrow> \<exists>t. enq x s = Some (True, t) \<and> rep t (xs @ [x])"
    and enq_full: "rep s xs \<Longrightarrow> length xs = cap \<Longrightarrow> enq x s = Some (False, s)"
    and deq_cons: "rep s (x # xs) \<Longrightarrow> \<exists>t. deq s = Some (Some x, t) \<and> rep t xs"
    and deq_nil: "rep s [] \<Longrightarrow> deq s = Some (None, s)"
    and rep_len: "rep s xs \<Longrightarrow> len s = int (length xs) \<and> length xs \<le> cap"
begin

fun step :: "'a qop \<Rightarrow> 's \<Rightarrow> ('a qresult \<times> 's) option" where
  "step (Enqueue x) s = map_option (\<lambda>(b, t). (Queued b, t)) (enq x s)"
| "step Dequeue s = map_option (\<lambda>(x, t). (Dequeued x, t)) (deq s)"

fun run :: "'a qop list \<Rightarrow> 's \<Rightarrow> ('a qresult list \<times> 's) option" where
  "run [] s = Some ([], s)"
| "run (p # ps) s =
     (case step p s of
        None \<Rightarrow> None
      | Some (r, t) \<Rightarrow> map_option (\<lambda>(rs, u). (r # rs, u)) (run ps t))"

lemma step_refines:
  assumes "rep s xs"
  shows "\<exists>t. step p s = Some (fst (fifo_step cap p xs), t) \<and> rep t (snd (fifo_step cap p xs))"
proof (cases p)
  case (Enqueue x)
  show ?thesis
  proof (cases "length xs < cap")
    case True
    then show ?thesis using enq_room [OF assms True, of x] Enqueue by auto
  next
    case False
    then have "length xs = cap" using rep_len [OF assms] by simp
    then show ?thesis using enq_full [OF assms, of x] Enqueue assms by auto
  qed
next
  case Dequeue
  then show ?thesis using assms deq_nil deq_cons by (cases xs) fastforce+
qed

lemma run_refines:
  assumes "rep s xs"
  shows "\<exists>t. run ps s = Some (fst (fifo_run cap ps xs), t) \<and> rep t (snd (fifo_run cap ps xs))"
  using assms
proof (induction ps arbitrary: s xs)
  case (Cons p ps)
  obtain t where t: "step p s = Some (fst (fifo_step cap p xs), t)" "rep t (snd (fifo_step cap p xs))"
    using step_refines [OF Cons.prems] by blast
  show ?case using Cons.IH [OF t(2)] t(1) by (auto split: prod.splits)
qed simp

lemma run_len:
  assumes "rep s xs"
  shows "\<exists>rs t. run ps s = Some (rs, t) \<and> 0 \<le> len t \<and> len t \<le> int cap"
  using run_refines [OF assms, of ps] rep_len by fastforce

end

section \<open>The ring\<close>

text \<open>
  The cells \<open>as\<close> form a cycle and hold the elements \<open>xs\<close> in its first places. Between calls the
  descriptor points to the oldest element and behind the youngest.
\<close>

abbreviation QCAP :: nat where "QCAP \<equiv> MAX_QUEUE_ELEMENTS - 1"

definition ring_cells :: "'a qheap \<Rightarrow> nat list \<Rightarrow> 'a list \<Rightarrow> bool" where
  "ring_cells h as xs =
     (length as = QCAP \<and> distinct as \<and> 0 \<notin> set as \<and> length xs \<le> QCAP \<and>
      (\<forall>i < QCAP. cells h (as ! i) =
         Some \<lparr>q_forw = as ! ((i + 1) mod QCAP), qdata = (if i < length xs then Some (xs ! i) else None)\<rparr>))"

definition ring :: "queue_t \<Rightarrow> 'a qheap \<Rightarrow> nat list \<Rightarrow> 'a list \<Rightarrow> bool" where
  "ring q h as xs =
     (ring_cells h as xs \<and>
      qfirst q = as ! 0 \<and> qlast q = as ! (length xs mod QCAP) \<and> nelem q = int (length xs))"

definition qrep :: "queue_t \<times> 'a qheap \<Rightarrow> 'a list \<Rightarrow> bool" where
  "qrep s xs = (\<exists>as. ring (fst s) (snd s) as xs)"

definition q_enq :: "'a \<Rightarrow> queue_t \<times> 'a qheap \<Rightarrow> (bool \<times> queue_t \<times> 'a qheap) option" where
  "q_enq x s = map_option (\<lambda>(r, t). (r = 0, t)) (queue (fst s) (Some x) (snd s))"

definition q_deq :: "queue_t \<times> 'a qheap \<Rightarrow> ('a option \<times> queue_t \<times> 'a qheap) option" where
  "q_deq s = dequeue (fst s) (snd s)"

lemma ring_cell:
  assumes "ring_cells h as xs" "i < 9"
  shows "cells h (as ! i) =
    Some \<lparr>q_forw = as ! ((i + 1) mod 9), qdata = (if i < length xs then Some (xs ! i) else None)\<rparr>"
  using assms by (simp add: ring_cells_def)

lemma ring_store:
  assumes "ring_cells h as xs" "length xs < 9"
  shows "\<exists>h'. upd_cell h (as ! length xs) (\<lambda>c. c\<lparr>qdata := Some x\<rparr>) = Some h' \<and> ring_cells h' as (xs @ [x])"
proof -
  have r: "length as = 9" "distinct as" "0 \<notin> set as" using assms(1) by (auto simp: ring_cells_def)
  note c = ring_cell [OF assms(1)]
  have eq: "(as ! i = as ! length xs) = (i = length xs)" if "i < 9" for i
    by (rule nth_eq_iff_index_eq [OF r(2)]) (use that assms(2) r(1) in simp_all)
  show ?thesis unfolding ring_cells_def using r assms(2) c eq
    by (auto simp: upd_cell_def nth_append less_Suc_eq)
qed

lemma ring_clear:
  assumes "ring_cells h as (x # xs)"
  shows "\<exists>h'. upd_cell h (as ! 0) (\<lambda>c. c\<lparr>qdata := None\<rparr>) = Some h' \<and> ring_cells h' (rotate1 as) xs"
proof -
  have r: "length as = 9" "distinct as" "0 \<notin> set as" "length (x # xs) \<le> 9"
    using assms(1) by (auto simp: ring_cells_def)
  note c = ring_cell [OF assms(1)]
  let ?h = "h\<lparr>cells := (cells h)(as ! 0 \<mapsto> \<lparr>q_forw = as ! 1, qdata = None\<rparr>)\<rparr>"
  have rot: "rotate1 as ! i = as ! ((i + 1) mod 9)" if "i < 9" for i
    using nth_rotate1 [of i as] r(1) that by simp
  have cell: "cells ?h (rotate1 as ! i) = Some \<lparr>q_forw = rotate1 as ! ((i + 1) mod 9),
      qdata = (if i < length xs then Some (xs ! i) else None)\<rparr>" if i: "i < 9" for i
  proof (cases "i = 8")
    case True
    then show ?thesis using rot [of 8] rot [of 0] r(4) by simp
  next
    case False
    with i have i8: "i < 8" by simp
    have "as ! (i + 1) \<noteq> as ! 0"
      using nth_eq_iff_index_eq [OF r(2)] r(1) i8 by simp
    then show ?thesis using rot [OF i] rot [of "(i + 1) mod 9"] c [of "i + 1"] i8
      by (simp add: mod_Suc_eq)
  qed
  have "upd_cell h (as ! 0) (\<lambda>c. c\<lparr>qdata := None\<rparr>) = Some ?h"
    using c [of 0] by (simp add: upd_cell_def)
  moreover have "ring_cells ?h (rotate1 as) xs" unfolding ring_cells_def using r cell by simp
  ultimately show ?thesis by blast
qed

text \<open>The cell behind the last of the rotated ring is its first.\<close>

lemma ring_rotated:
  assumes "ring_cells h as (x # xs)"
  shows "as ! 0 = rotate1 as ! 8" "as ! 1 = rotate1 as ! 0"
    "as ! (length (x # xs) mod 9) = rotate1 as ! (length xs mod 9)"
proof -
  have r: "length as = 9" "length xs < 9" using assms by (auto simp: ring_cells_def)
  have rot: "rotate1 as ! i = as ! ((i + 1) mod 9)" if "i < 9" for i
    using nth_rotate1 [of i as] r(1) that by simp
  show "as ! 0 = rotate1 as ! 8" "as ! 1 = rotate1 as ! 0"
    "as ! (length (x # xs) mod 9) = rotate1 as ! (length xs mod 9)"
    using rot [of 8] rot [of 0] rot [of "length xs"] r(2) by simp_all
qed

lemma ring_enq:
  assumes "ring q h as xs" "length xs < QCAP"
  shows "\<exists>q' h'. queue q (Some x) h = Some (0, q', h') \<and> ring q' h' as (xs @ [x])"
proof -
  have R: "ring_cells h as xs" "qfirst q = as ! 0" "qlast q = as ! length xs" "nelem q = int (length xs)" "length xs < 9"
    using assms by (auto simp: ring_def)
  obtain h' where h': "queue_store q (Some x) h = Some h'" "ring_cells h' as (xs @ [x])"
    using ring_store [OF R(1,5), of x] R(3) by (auto simp: queue_store_def)
  have "queue_full q h = Some False" using ring_cell [OF R(1,5)] R(3) by (simp add: queue_full_def)
  moreover have "queue_advance q h' = Some (q\<lparr>qlast := as ! ((length xs + 1) mod 9)\<rparr>)"
    using ring_cell [OF h'(2) R(5)] R(3) by (simp add: queue_advance_def)
  ultimately show ?thesis using h' R by (simp add: queue_def ring_def queue_count_def)
qed

lemma ring_full:
  assumes "ring q h as xs" "length xs = QCAP"
  shows "queue q (Some x) h = Some (-1, q, h)"
proof -
  have "ring_cells h as xs" "qlast q = as ! 0" using assms by (auto simp: ring_def)
  from ring_cell [OF this(1), of 0] this(2) assms(2) show ?thesis by (simp add: queue_def queue_full_def)
qed

lemma ring_deq:
  assumes "ring q h as (x # xs)"
  shows "\<exists>q' h'. dequeue q h = Some (Some x, q', h') \<and> ring q' h' (rotate1 as) xs"
proof -
  have R: "ring_cells h as (x # xs)" "qfirst q = as ! 0" "qlast q = as ! (length (x # xs) mod 9)"
      "nelem q = int (length (x # xs))"
    using assms by (auto simp: ring_def)
  obtain h' where h': "dequeue_clear q h = Some h'" "ring_cells h' (rotate1 as) xs"
    using ring_clear [OF R(1)] R(2) by (auto simp: dequeue_clear_def)
  note rot = ring_rotated [OF R(1)]
  have "dequeue_none q h = Some False" "dequeue_read q h = Some (Some x)"
    using ring_cell [OF R(1), of 0] R(2) by (simp_all add: dequeue_none_def dequeue_read_def)
  moreover have "dequeue_advance q h' = Some (q\<lparr>qfirst := rotate1 as ! 0\<rparr>)"
    using ring_cell [OF h'(2), of 8] R(2) rot(1) by (simp add: dequeue_advance_def)
  ultimately show ?thesis using h' R rot(3) by (simp add: dequeue_def ring_def dequeue_count_def)
qed

lemma ring_empty:
  assumes "ring q h as []"
  shows "dequeue q h = Some (None, q, h)"
proof -
  have "ring_cells h as []" "qfirst q = as ! 0" using assms by (auto simp: ring_def)
  from ring_cell [OF this(1), of 0] this(2) show ?thesis by (simp add: dequeue_def dequeue_none_def)
qed

interpretation rq: bounded_fifo q_enq q_deq "\<lambda>s. getquenelem (fst s)" qrep QCAP
proof unfold_locales
  show "\<exists>t. q_enq x s = Some (True, t) \<and> qrep t (xs @ [x])" if "qrep s xs" "length xs < QCAP" for s xs x
    using that ring_enq [of "fst s" "snd s" _ xs x] by (fastforce simp: qrep_def q_enq_def)
  show "q_enq x s = Some (False, s)" if "qrep s xs" "length xs = QCAP" for s xs x
    using that ring_full [of "fst s" "snd s" _ xs x] by (cases s) (auto simp: qrep_def q_enq_def)
  show "\<exists>t. q_deq s = Some (Some x, t) \<and> qrep t xs" if "qrep s (x # xs)" for s x xs
    using that ring_deq [of "fst s" "snd s" _ x xs] by (fastforce simp: qrep_def q_deq_def)
  show "q_deq s = Some (None, s)" if "qrep s []" for s
    using that ring_empty [of "fst s" "snd s"] by (auto simp: qrep_def q_deq_def)
  show "getquenelem (fst s) = int (length xs) \<and> length xs \<le> QCAP" if "qrep s xs" for s xs
    using that by (auto simp: qrep_def ring_def ring_cells_def getquenelem_def)
qed


section \<open>Allocation and release of the ring\<close>

definition qheap_ok :: "'a qheap \<Rightarrow> bool" where
  "qheap_ok h = (cells h 0 = None \<and> (\<forall>a. brk h < a \<longrightarrow> cells h a = None))"

definition chain :: "'a qheap \<Rightarrow> nat list \<Rightarrow> bool" where
  "chain h as =
     (as \<noteq> [] \<and> distinct as \<and> 0 \<notin> set as \<and>
      (\<forall>i < length as. cells h (as ! i) =
         Some \<lparr>q_forw = (if i + 1 < length as then as ! (i + 1) else 0), qdata = None\<rparr>))"

lemma chain_alloc: "chain h as \<Longrightarrow> a \<in> set as \<Longrightarrow> cells h a \<noteq> None"
  by (auto simp: chain_def in_set_conv_nth)

lemma chain_snoc:
  fixes h :: "'a qheap" and b :: nat
  assumes "chain h as" "qheap_ok h"
  defines "n \<equiv> Suc (brk h)"
  defines "h1 \<equiv> h\<lparr>cells := (cells h)(n \<mapsto> \<lparr>q_forw = 0, qdata = None\<rparr>), brk := n, budget := b\<rparr>"
  shows "\<exists>h2. upd_cell h1 (last as) (\<lambda>c. c\<lparr>q_forw := n\<rparr>) = Some h2 \<and> chain h2 (as @ [n]) \<and> qheap_ok h2 \<and>
    budget h2 = b \<and> (\<forall>a. a \<notin> set (as @ [n]) \<longrightarrow> cells h2 a = cells h a)"
proof -
  have n: "n \<noteq> 0" "cells h n = None" using assms(2) by (simp_all add: n_def qheap_ok_def)
  have nin: "n \<notin> set as" using chain_alloc [OF assms(1)] n(2) by metis
  let ?k = "length as - 1"
  have ne: "as \<noteq> []" using assms(1) by (simp add: chain_def)
  then have last: "last as = as ! ?k" "?k < length as" by (simp_all add: last_conv_nth)
  have ln: "last as \<noteq> n" using nin ne by (metis last_in_set)
  have cl: "cells h (as ! i) = Some \<lparr>q_forw = (if i + 1 < length as then as ! (i + 1) else 0), qdata = None\<rparr>"
    if "i < length as" for i using assms(1) that by (simp add: chain_def)
  have c1: "cells h1 (last as) = Some \<lparr>q_forw = 0, qdata = None\<rparr>"
    using cl [OF last(2)] ln ne by (simp add: h1_def last(1))
  let ?h2 = "h1\<lparr>cells := (cells h1)(last as \<mapsto> \<lparr>q_forw = n, qdata = None\<rparr>)\<rparr>"
  have e: "upd_cell h1 (last as) (\<lambda>c. c\<lparr>q_forw := n\<rparr>) = Some ?h2"
    using c1 by (simp add: upd_cell_def)
  have d: "distinct as" "0 \<notin> set as" using assms(1) by (simp_all add: chain_def)
  have "cells ?h2 ((as @ [n]) ! i) = Some \<lparr>q_forw = (if i + 1 < length (as @ [n]) then (as @ [n]) ! (i + 1) else 0), qdata = None\<rparr>"
    if "i < length (as @ [n])" for i
  proof -
    have "i < ?k \<or> i = ?k \<or> i = length as" using that by auto
    then consider "i < ?k" | "i = ?k" | "i = length as" by blast
    then show ?thesis
    proof cases
      case 1
      then have "as ! i \<noteq> last as" "as ! i \<noteq> n"
        using d(1) last nin nth_eq_iff_index_eq [OF d(1)] by (auto simp: in_set_conv_nth)
      moreover have "Suc i < length as" using 1 by simp
      ultimately show ?thesis using cl [of i] by (simp add: h1_def nth_append)
    next
      case 2
      then show ?thesis using ne last by (simp add: nth_append)
    next
      case 3
      then show ?thesis using ln by (simp add: h1_def nth_append)
    qed
  qed
  then have "chain ?h2 (as @ [n])" using d nin n by (simp add: chain_def)
  moreover have "last as \<noteq> 0" using d(2) ne by (metis last_in_set)
  moreover have "last as \<le> n"
    using cl [OF last(2)] assms(2) last(1) by (metis le_SucI n_def not_le option.distinct(1) qheap_ok_def)
  ultimately have "qheap_ok ?h2" using assms(2) n by (auto simp: qheap_ok_def h1_def n_def)
  have "\<forall>a. a \<notin> set (as @ [n]) \<longrightarrow> cells ?h2 a = cells h a" using ne by (auto simp: h1_def)
  then show ?thesis using e \<open>chain ?h2 (as @ [n])\<close> \<open>qheap_ok ?h2\<close>
    by (intro exI [of _ ?h2]) (simp add: h1_def)
qed

lemma link_cells_spec:
  assumes "chain h as" "qheap_ok h"
  shows "\<exists>h' bs. link_cells n (last as) h = Some (n \<le> budget h, last (as @ bs), h') \<and>
    chain h' (as @ bs) \<and> qheap_ok h' \<and> (n \<le> budget h \<longrightarrow> length bs = n) \<and>
    (\<forall>a. a \<notin> set (as @ bs) \<longrightarrow> cells h' a = cells h a) \<and> (\<forall>b \<in> set bs. cells h b = None)"
  using assms
proof (induction n arbitrary: h as)
  case 0
  then show ?case by (intro exI [of _ h] exI [of _ "[]"]) simp
next
  case (Suc n)
  show ?case
  proof (cases "budget h = 0")
    case True
    then show ?thesis using Suc.prems
      by (intro exI [of _ h] exI [of _ "[]"]) (simp add: qmalloc_def)
  next
    case False
    let ?n = "Suc (brk h)"
    let ?h1 = "h\<lparr>cells := (cells h)(?n \<mapsto> \<lparr>q_forw = 0, qdata = None\<rparr>), brk := ?n, budget := budget h - 1\<rparr>"
    obtain h2 where h2: "upd_cell ?h1 (last as) (\<lambda>c. c\<lparr>q_forw := ?n\<rparr>) = Some h2" "chain h2 (as @ [?n])"
      "qheap_ok h2" "budget h2 = budget h - 1" "\<forall>a. a \<notin> set (as @ [?n]) \<longrightarrow> cells h2 a = cells h a"
      using chain_snoc [OF Suc.prems, of "budget h - 1"] by auto
    obtain h' bs where r: "link_cells n (last (as @ [?n])) h2 = Some (n \<le> budget h2, last ((as @ [?n]) @ bs), h')"
      "chain h' ((as @ [?n]) @ bs)" "qheap_ok h'" "n \<le> budget h2 \<longrightarrow> length bs = n"
      "\<forall>a. a \<notin> set ((as @ [?n]) @ bs) \<longrightarrow> cells h' a = cells h2 a" "\<forall>b \<in> set bs. cells h2 b = None"
      using Suc.IH [OF h2(2,3)] by blast
    have s: "link_cells (Suc n) (last as) h = Some (Suc n \<le> budget h, last (as @ ?n # bs), h')"
      using False h2(1,4) r(1) by (auto simp: qmalloc_def)
    have "cells h ?n = None" using Suc.prems(2) by (simp add: qheap_ok_def)
    moreover have "cells h b = None" if "b \<in> set bs" for b
    proof -
      have "distinct (as @ ?n # bs)" using r(2) by (simp add: chain_def)
      then have "b \<notin> set (as @ [?n])" using that by auto
      then show ?thesis using h2(5) r(6) that by metis
    qed
    ultimately show ?thesis using s r h2
      by (intro exI [of _ h'] exI [of _ "?n # bs"]) auto
  qed
qed

definition free_set :: "'a qheap \<Rightarrow> nat set \<Rightarrow> 'a qheap" where
  "free_set h S = h\<lparr>cells := (\<lambda>a. if a \<in> S then None else cells h a)\<rparr>"

lemma free_chain_spec:
  "chain h as \<Longrightarrow> free_chain (hd as) h = Some (free_set h (set as))"
proof (induction as arbitrary: h)
  case (Cons a as)
  have a: "a \<noteq> 0" "a \<notin> set as" "distinct as" "0 \<notin> set as" using Cons.prems by (auto simp: chain_def)
  have c: "cells h a = Some \<lparr>q_forw = (if as = [] then 0 else hd as), qdata = None\<rparr>"
    using Cons.prems unfolding chain_def by (auto simp: hd_conv_nth dest: spec [of _ 0])
  let ?h = "h\<lparr>cells := (cells h)(a := None)\<rparr>"
  have step: "free_chain (hd (a # as)) h = free_chain (if as = [] then 0 else hd as) ?h"
    by (subst free_chain.simps) (simp add: a c qfree_def)
  have fs: "free_set ?h (set as) = free_set h (set (a # as))"
    by (simp add: free_set_def fun_eq_iff)
  show ?case
  proof (cases "as = []")
    case True
    have "free_chain 0 ?h = Some ?h" by (subst free_chain.simps) simp
    then show ?thesis using step True by (simp add: free_set_def fun_upd_def)
  next
    case False
    have "chain ?h as"
    proof -
      have "cells ?h (as ! i) = Some \<lparr>q_forw = (if i + 1 < length as then as ! (i + 1) else 0), qdata = None\<rparr>"
        if "i < length as" for i
      proof -
        have "as ! i \<noteq> a" using that a(2) by (metis nth_mem)
        moreover have "Suc i < length (a # as)" using that by simp
        then have "cells h ((a # as) ! Suc i) =
          Some \<lparr>q_forw = (if Suc i + 1 < length (a # as) then (a # as) ! (Suc i + 1) else 0), qdata = None\<rparr>"
          using Cons.prems unfolding chain_def by blast
        ultimately show ?thesis by simp
      qed
      then show ?thesis using False a by (simp add: chain_def)
    qed
    from Cons.IH [OF this] show ?thesis using step False fs by simp
  qed
qed (simp add: chain_def)


text \<open>Releasing a ring.\<close>

lemma deinit_loop_ring:
  assumes "length as = 9" "distinct as" "0 \<notin> set as" "i + n \<le> 8"
    "\<And>j. j < 9 \<Longrightarrow> \<exists>d. cells h (as ! j) = Some \<lparr>q_forw = as ! ((j + 1) mod 9), qdata = d\<rparr>"
  shows "deinit_loop n (as ! i) (free_set h (set (take i as))) =
    Some (as ! (i + n), free_set h (set (take (i + n) as)))"
  using assms(4)
proof (induction n arbitrary: i)
  case (Suc n)
  have i: "i < 9" "i < length as" "(i + 1) mod 9 = i + 1" using Suc.prems assms(1) by simp_all
  have nz: "as ! i \<noteq> 0" using i(2) assms(3) by (metis nth_mem)
  have nin: "as ! i \<notin> set (take i as)"
    using assms(2) i(2) by (metis distinct_take id_take_nth_drop not_distinct_conv_prefix take_hd_drop
        append_take_drop_id hd_drop_conv_nth)
  obtain d where "cells h (as ! i) = Some \<lparr>q_forw = as ! (i + 1), qdata = d\<rparr>"
    using assms(5) [OF i(1)] unfolding i(3) by blast
  then have "cells (free_set h (set (take i as))) (as ! i) = Some \<lparr>q_forw = as ! (i + 1), qdata = d\<rparr>"
    using nin by (simp add: free_set_def)
  moreover have "(free_set h (set (take i as)))\<lparr>cells := (cells (free_set h (set (take i as))))(as ! i := None)\<rparr>
      = free_set h (set (take (i + 1) as))"
    using i(2) by (auto simp: free_set_def take_Suc_conv_app_nth fun_eq_iff)
  ultimately have "deinit_loop (Suc n) (as ! i) (free_set h (set (take i as))) =
      deinit_loop n (as ! (i + 1)) (free_set h (set (take (i + 1) as)))"
    using nz by (simp add: qfree_def)
  then show ?case using Suc.IH [of "i + 1"] Suc.prems by simp
qed simp

lemma free_set_empty [simp]: "free_set h {} = h"
  by (simp add: free_set_def)

lemma deinit_ring:
  assumes "ring q h as xs"
  shows "queue_deinit q h = Some (q\<lparr>qfirst := 0\<rparr>, free_set h (set as))"
proof -
  have r: "length as = 9" "distinct as" "0 \<notin> set as" "qfirst q = as ! 0"
    "\<And>j. j < 9 \<Longrightarrow> \<exists>d. cells h (as ! j) = Some \<lparr>q_forw = as ! ((j + 1) mod 9), qdata = d\<rparr>"
    using assms by (auto simp: ring_def ring_cells_def)
  have l: "deinit_loop 8 (as ! 0) h = Some (as ! 8, free_set h (set (take 8 as)))"
    using deinit_loop_ring [OF r(1-3), of 0 8 h] r(5) by simp
  have s: "as = take 8 as @ [as ! 8]"
    using take_Suc_conv_app_nth [of 8 as] r(1) by simp
  have nin: "as ! 8 \<notin> set (take 8 as)" using r(2) s by (metis distinct_append disjoint_insert(1) list.set(2))
  obtain d where "cells h (as ! 8) = Some \<lparr>q_forw = as ! 0, qdata = d\<rparr>" using r(5) [of 8] by auto
  then have "cells (free_set h (set (take 8 as))) (as ! 8) \<noteq> None" using nin by (simp add: free_set_def)
  moreover have "(free_set h (set (take 8 as)))\<lparr>cells := (cells (free_set h (set (take 8 as))))(as ! 8 := None)\<rparr>
      = free_set h (set as)"
    by (subst (4) s) (auto simp: free_set_def fun_eq_iff)
  moreover have "as ! 8 \<noteq> 0" using r(1,3) nth_mem [of 8 as] by (metis r(1) s butlast_snoc last_in_set last_snoc list.size(3) zero_neq_numeral)
  ultimately show ?thesis
    using l r(4) by (auto simp: queue_deinit_def qfree_def)
qed

lemma init_ring:
  assumes "qheap_ok h" "9 \<le> budget h"
  shows "\<exists>q' h' as. queue_init True q h = Some (0, q', h') \<and> ring q' h' as [] \<and>
    (\<forall>a. a \<notin> set as \<longrightarrow> cells h' a = cells h a) \<and> (\<forall>a \<in> set as. cells h a = None)"
proof -
  let ?n = "Suc (brk h)"
  let ?h1 = "h\<lparr>cells := (cells h)(?n \<mapsto> \<lparr>q_forw = 0, qdata = None\<rparr>), brk := ?n, budget := budget h - 1\<rparr>"
  have c1: "chain ?h1 [?n]" "qheap_ok ?h1" using assms(1) by (auto simp: chain_def qheap_ok_def)
  obtain h2 bs where l: "link_cells 8 (last [?n]) ?h1 = Some (8 \<le> budget ?h1, last ([?n] @ bs), h2)"
    "chain h2 ([?n] @ bs)" "qheap_ok h2" "8 \<le> budget ?h1 \<longrightarrow> length bs = 8"
    "\<forall>a. a \<notin> set ([?n] @ bs) \<longrightarrow> cells h2 a = cells ?h1 a" "\<forall>b \<in> set bs. cells ?h1 b = None"
    using link_cells_spec [OF c1, of 8] by blast
  let ?as = "?n # bs"
  have len: "length ?as = 9" using l(4) assms(2) by simp
  have ch: "distinct ?as" "0 \<notin> set ?as"
    "\<And>i. i < 9 \<Longrightarrow> cells h2 (?as ! i) = Some \<lparr>q_forw = (if i + 1 < 9 then ?as ! (i + 1) else 0), qdata = None\<rparr>"
    using l(2) len by (auto simp: chain_def)
  have "last ?as = ?as ! (length ?as - 1)" by (rule last_conv_nth) simp
  then have last: "last ?as = ?as ! 8" unfolding len by simp
  let ?h3 = "h2\<lparr>cells := (cells h2)(?as ! 8 \<mapsto> \<lparr>q_forw = ?n, qdata = None\<rparr>)\<rparr>"
  let ?q = "q\<lparr>qfirst := ?n, qlast := ?n, nelem := 0\<rparr>"
  have u: "upd_cell h2 (?as ! 8) (\<lambda>c. c\<lparr>q_forw := ?n\<rparr>) = Some ?h3"
    using ch(3) [of 8] by (simp add: upd_cell_def)
  have "last ([?n] @ bs) = ?as ! 8" using last by (simp only: append_Cons append_Nil)
  with l(1) have "link_cells 8 (last [?n]) ?h1 = Some (8 \<le> budget ?h1, ?as ! 8, h2)" by (simp only:)
  then have "link_cells 8 ?n ?h1 = Some (True, ?as ! 8, h2)" using assms(2) by simp
  then have "queue_init True q h = Some (0, ?q, ?h3)"
    using assms(2) u by (simp add: queue_init_def qmalloc_def Let_def)
  moreover have "ring ?q ?h3 ?as []"
  proof -
    have "cells ?h3 (?as ! i) = Some \<lparr>q_forw = ?as ! ((i + 1) mod 9), qdata = None\<rparr>" if i: "i < 9" for i
    proof (cases "i = 8")
      case False
      have "(?as ! i = ?as ! 8) = (i = 8)"
        by (rule nth_eq_iff_index_eq [OF ch(1)]) (use len i in simp_all)
      with False i have "?as ! i \<noteq> ?as ! 8" "i < 8" by auto
      then show ?thesis using ch(3) [OF i] by simp
    qed simp
    then show ?thesis using ch len by (simp add: ring_def ring_cells_def)
  qed
  moreover have "\<forall>a. a \<notin> set ?as \<longrightarrow> cells ?h3 a = cells h a"
  proof (intro allI impI)
    fix a assume a: "a \<notin> set ?as"
    moreover have "?as ! 8 \<in> set ?as" using len by (intro nth_mem) simp
    ultimately have "a \<noteq> ?as ! 8" by metis
    then show "cells ?h3 a = cells h a" using a l(5) by simp
  qed
  moreover have "\<forall>a \<in> set ?as. cells h a = None"
    using l(6) assms(1) ch(1) by (auto simp: qheap_ok_def split: if_splits)
  ultimately show ?thesis by blast
qed

lemma init_fails:
  assumes "qheap_ok h" "budget h < 9"
  shows "\<exists>q' h'. queue_init True q h = Some (-1, q', h') \<and> cells h' = cells h \<and> qfirst q' = 0"
proof (cases "budget h = 0")
  case True
  then show ?thesis by (simp add: queue_init_def qmalloc_def)
next
  case False
  let ?n = "Suc (brk h)"
  let ?h1 = "h\<lparr>cells := (cells h)(?n \<mapsto> \<lparr>q_forw = 0, qdata = None\<rparr>), brk := ?n, budget := budget h - 1\<rparr>"
  have c1: "chain ?h1 [?n]" "qheap_ok ?h1" using assms(1) by (auto simp: chain_def qheap_ok_def)
  obtain h2 bs where l: "link_cells 8 (last [?n]) ?h1 = Some (8 \<le> budget ?h1, last ([?n] @ bs), h2)"
    "chain h2 ([?n] @ bs)" "\<forall>a. a \<notin> set ([?n] @ bs) \<longrightarrow> cells h2 a = cells ?h1 a"
    "\<forall>b \<in> set bs. cells ?h1 b = None"
    using link_cells_spec [OF c1, of 8] by blast
  have f: "free_chain ?n h2 = Some (free_set h2 (set (?n # bs)))"
    using free_chain_spec [OF l(2)] by simp
  have "\<not> 8 \<le> budget ?h1" using assms(2) False by simp
  then have "queue_init True q h = Some (-1, q\<lparr>qfirst := 0, qlast := ?n, nelem := 0\<rparr>, free_set h2 (set (?n # bs)))"
    using l(1) f False by (simp add: queue_init_def qmalloc_def Let_def)
  moreover have "cells (free_set h2 (set (?n # bs))) a = cells h a" for a
    using l(3,4) assms(1) by (auto simp: free_set_def qheap_ok_def split: if_splits)
  ultimately show ?thesis by auto
qed


section \<open>Overlapping calls\<close>

text \<open>
  Threads that call \<open>queue\<close> and \<open>dequeue\<close> on one descriptor. Each access to the shared memory is a
  step, and the steps of different threads interleave; only the lock keeps others out. A thread's
  place in its call is a \<open>qpc\<close>; what it carries is the element it puts in or the one it has read. At
  \<open>Entering\<close> and \<open>Claiming\<close> it is past the test and waits for the lock, at the others it holds it.
  \<open>history\<close> is a ghost: the calls in the order in which they take effect, a successful \<open>queue\<close> when it
  stores the element, a successful \<open>dequeue\<close> when it clears the cell, the others at their test, each
  with the value the call returns.
\<close>

datatype 'a qpc =
    Idle
  | Entering 'a
  | Storing 'a
  | Advancing
  | Counting
  | Leaving
  | Claiming
  | Reading
  | Clearing "'a option"
  | Moving "'a option"
  | Discounting "'a option"
  | Yielding "'a option"

record 'a qsys =
  desc :: queue_t
  qmem :: "'a qheap"
  owner :: "nat option"
  pcs :: "nat \<Rightarrow> 'a qpc"
  history :: "('a qop \<times> 'a qresult) list"

definition q_start :: "queue_t \<Rightarrow> 'a qheap \<Rightarrow> 'a qsys" where
  "q_start q h = \<lparr>desc = q, qmem = h, owner = None, pcs = (\<lambda>t. Idle), history = []\<rparr>"

definition goto_pc :: "nat \<Rightarrow> 'a qpc \<Rightarrow> 'a qsys \<Rightarrow> 'a qsys" where
  "goto_pc t pc s = s\<lparr>pcs := (pcs s)(t := pc)\<rparr>"

definition log_op :: "'a qop \<Rightarrow> 'a qresult \<Rightarrow> 'a qsys \<Rightarrow> 'a qsys" where
  "log_op p r s = s\<lparr>history := history s @ [(p, r)]\<rparr>"

text \<open>The threads of \<open>P\<close> may call \<open>queue\<close> and those of \<open>C\<close> may call \<open>dequeue\<close>.\<close>

inductive q_step :: "nat set \<Rightarrow> nat set \<Rightarrow> 'a qsys \<Rightarrow> 'a qsys \<Rightarrow> bool" for P C s where
  call_queue: "t \<in> P \<Longrightarrow> pcs s t = Idle \<Longrightarrow> queue_full (desc s) (qmem s) = Some False \<Longrightarrow>
    q_step P C s (goto_pc t (Entering x) s)"
| call_refused: "t \<in> P \<Longrightarrow> pcs s t = Idle \<Longrightarrow> queue_full (desc s) (qmem s) = Some True \<Longrightarrow>
    q_step P C s (log_op (Enqueue x) (Queued False) s)"
| lock_queue: "pcs s t = Entering x \<Longrightarrow> owner s = None \<Longrightarrow>
    q_step P C s (goto_pc t (Storing x) (s\<lparr>owner := Some t\<rparr>))"
| store: "pcs s t = Storing x \<Longrightarrow> queue_store (desc s) (Some x) (qmem s) = Some h \<Longrightarrow>
    q_step P C s (goto_pc t Advancing (log_op (Enqueue x) (Queued True) (s\<lparr>qmem := h\<rparr>)))"
| advance: "pcs s t = Advancing \<Longrightarrow> queue_advance (desc s) (qmem s) = Some q \<Longrightarrow>
    q_step P C s (goto_pc t Counting (s\<lparr>desc := q\<rparr>))"
| count: "pcs s t = Counting \<Longrightarrow> q_step P C s (goto_pc t Leaving (s\<lparr>desc := queue_count (desc s)\<rparr>))"
| unlock_queue: "pcs s t = Leaving \<Longrightarrow> q_step P C s (goto_pc t Idle (s\<lparr>owner := None\<rparr>))"
| call_dequeue: "t \<in> C \<Longrightarrow> pcs s t = Idle \<Longrightarrow> dequeue_none (desc s) (qmem s) = Some False \<Longrightarrow>
    q_step P C s (goto_pc t Claiming s)"
| call_empty: "t \<in> C \<Longrightarrow> pcs s t = Idle \<Longrightarrow> dequeue_none (desc s) (qmem s) = Some True \<Longrightarrow>
    q_step P C s (log_op Dequeue (Dequeued None) s)"
| lock_dequeue: "pcs s t = Claiming \<Longrightarrow> owner s = None \<Longrightarrow>
    q_step P C s (goto_pc t Reading (s\<lparr>owner := Some t\<rparr>))"
| read: "pcs s t = Reading \<Longrightarrow> dequeue_read (desc s) (qmem s) = Some d \<Longrightarrow>
    q_step P C s (goto_pc t (Clearing d) s)"
| clear: "pcs s t = Clearing d \<Longrightarrow> dequeue_clear (desc s) (qmem s) = Some h \<Longrightarrow>
    q_step P C s (goto_pc t (Moving d) (log_op Dequeue (Dequeued d) (s\<lparr>qmem := h\<rparr>)))"
| move: "pcs s t = Moving d \<Longrightarrow> dequeue_advance (desc s) (qmem s) = Some q \<Longrightarrow>
    q_step P C s (goto_pc t (Discounting d) (s\<lparr>desc := q\<rparr>))"
| discount: "pcs s t = Discounting d \<Longrightarrow>
    q_step P C s (goto_pc t (Yielding d) (s\<lparr>desc := dequeue_count (desc s)\<rparr>))"
| unlock_dequeue: "pcs s t = Yielding d \<Longrightarrow> q_step P C s (goto_pc t Idle (s\<lparr>owner := None\<rparr>))"

inductive_cases q_stepE: "q_step P C s s'"

inductive q_reach :: "nat set \<Rightarrow> nat set \<Rightarrow> 'a qsys \<Rightarrow> 'a qsys \<Rightarrow> bool" for P C s0 where
  q_refl: "q_reach P C s0 s0"
| q_next: "q_reach P C s0 s \<Longrightarrow> q_step P C s s' \<Longrightarrow> q_reach P C s0 s'"

text \<open>The next access of a thread goes through a pointer to no cell.\<close>

definition q_fault :: "nat set \<Rightarrow> nat set \<Rightarrow> nat \<Rightarrow> 'a qsys \<Rightarrow> bool" where
  "q_fault P C t s =
     (case pcs s t of
        Idle \<Rightarrow> t \<in> P \<and> queue_full (desc s) (qmem s) = None \<or> t \<in> C \<and> dequeue_none (desc s) (qmem s) = None
      | Storing x \<Rightarrow> queue_store (desc s) (Some x) (qmem s) = None
      | Advancing \<Rightarrow> queue_advance (desc s) (qmem s) = None
      | Reading \<Rightarrow> dequeue_read (desc s) (qmem s) = None
      | Clearing d \<Rightarrow> dequeue_clear (desc s) (qmem s) = None
      | Moving d \<Rightarrow> dequeue_advance (desc s) (qmem s) = None
      | _ \<Rightarrow> False)"

text \<open>A thread that is in a call and does not wait for the lock goes on, unless it faults.\<close>

definition holding :: "'a qpc \<Rightarrow> bool" where
  "holding pc = (case pc of Idle \<Rightarrow> False | Entering _ \<Rightarrow> False | Claiming \<Rightarrow> False | _ \<Rightarrow> True)"

lemma q_moved:
  "q_step P C s (goto_pc t pc s1) \<Longrightarrow> pc \<noteq> pcs s t \<Longrightarrow> pcs s1 = pcs s \<Longrightarrow>
    \<exists>s'. q_step P C s s' \<and> pcs s' t \<noteq> pcs s t"
  by (rule exI) (auto simp: goto_pc_def)

lemma q_progress:
  assumes "pcs s t \<noteq> Idle" "\<not> q_fault P C t s" "holding (pcs s t) \<or> owner s = None"
  shows "\<exists>s'. q_step P C s s' \<and> pcs s' t \<noteq> pcs s t"
proof (cases "pcs s t")
  case (Entering x)
  then show ?thesis using assms(3) q_moved [OF lock_queue [OF Entering]] by (simp add: holding_def)
next
  case (Storing x)
  then show ?thesis using assms(2) q_moved [OF store [OF Storing]] by (auto simp: q_fault_def log_op_def)
next
  case Advancing
  then show ?thesis using assms(2) q_moved [OF advance [OF Advancing]] by (auto simp: q_fault_def)
next
  case Counting
  then show ?thesis using q_moved [OF count [OF Counting]] by simp
next
  case Leaving
  then show ?thesis using q_moved [OF unlock_queue [OF Leaving]] by simp
next
  case Claiming
  then show ?thesis using assms(3) q_moved [OF lock_dequeue [OF Claiming]] by (simp add: holding_def)
next
  case Reading
  then show ?thesis using assms(2) q_moved [OF read [OF Reading]] by (auto simp: q_fault_def)
next
  case (Clearing d)
  then show ?thesis using assms(2) q_moved [OF clear [OF Clearing]] by (auto simp: q_fault_def log_op_def)
next
  case (Moving d)
  then show ?thesis using assms(2) q_moved [OF move [OF Moving]] by (auto simp: q_fault_def)
next
  case (Discounting d)
  then show ?thesis using q_moved [OF discount [OF Discounting]] by simp
next
  case (Yielding d)
  then show ?thesis using q_moved [OF unlock_dequeue [OF Yielding]] by simp
qed (use assms in simp)

subsection \<open>One thread that queues and one that dequeues\<close>

text \<open>
  What holds at every step, with \<open>xs\<close> the elements in the ring. A thread past the test has found
  room, or an element. While the holder of the lock is between two statements, \<open>last\<close> or \<open>first\<close> is
  one cell behind, and the count is not yet right.
\<close>

definition place_ok :: "nat \<Rightarrow> nat \<Rightarrow> 'a list \<Rightarrow> nat \<Rightarrow> 'a qpc \<Rightarrow> bool" where
  "place_ok p c xs t pc =
     (case pc of
        Idle \<Rightarrow> True
      | Entering x \<Rightarrow> t = p \<and> length xs < 9
      | Storing x \<Rightarrow> t = p \<and> length xs < 9
      | Advancing \<Rightarrow> t = p
      | Counting \<Rightarrow> t = p
      | Leaving \<Rightarrow> t = p
      | Claiming \<Rightarrow> t = c \<and> xs \<noteq> []
      | Reading \<Rightarrow> t = c \<and> xs \<noteq> []
      | Clearing d \<Rightarrow> t = c \<and> xs \<noteq> [] \<and> d = Some (hd xs)
      | Moving d \<Rightarrow> t = c
      | Discounting d \<Rightarrow> t = c
      | Yielding d \<Rightarrow> t = c)"

definition ring_at :: "'a qpc \<Rightarrow> queue_t \<Rightarrow> 'a qheap \<Rightarrow> nat list \<Rightarrow> 'a list \<Rightarrow> bool" where
  "ring_at pc q h as xs =
     (ring_cells h as xs \<and> (pc = Advancing \<longrightarrow> xs \<noteq> []) \<and>
      qfirst q = as ! (case pc of Moving d \<Rightarrow> 8 | _ \<Rightarrow> 0) \<and>
      qlast q = as ! (case pc of Advancing \<Rightarrow> length xs - 1 | _ \<Rightarrow> length xs mod 9) \<and>
      nelem q = int (length xs) +
        (case pc of Advancing \<Rightarrow> - 1 | Counting \<Rightarrow> - 1 | Moving d \<Rightarrow> 1 | Discounting d \<Rightarrow> 1 | _ \<Rightarrow> 0))"

definition at_lock :: "'a qsys \<Rightarrow> 'a qpc" where
  "at_lock s = (case owner s of None \<Rightarrow> Idle | Some t \<Rightarrow> pcs s t)"

definition q_inv :: "nat \<Rightarrow> nat \<Rightarrow> 'a list \<Rightarrow> 'a qsys \<Rightarrow> bool" where
  "q_inv p c xs s =
     ((\<forall>t. holding (pcs s t) = (owner s = Some t)) \<and>
      (\<forall>t. place_ok p c xs t (pcs s t)) \<and>
      (\<exists>as. ring_at (at_lock s) (desc s) (qmem s) as xs))"

lemma q_invD:
  assumes "q_inv p c xs s"
  shows "holding (pcs s t) = (owner s = Some t)" "place_ok p c xs t (pcs s t)"
    "\<exists>as. ring_at (at_lock s) (desc s) (qmem s) as xs"
  using assms by (auto simp: q_inv_def)

text \<open>A step of thread \<open>t\<close>: what is to be shown of it alone.\<close>

lemma q_inv_goto:
  assumes "q_inv p c xs s" and s: "pcs s' = (pcs s)(t := pc)"
    and "holding pc = (owner s' = Some t)" "\<forall>u. u \<noteq> t \<longrightarrow> (owner s' = Some u) = (owner s = Some u)"
    and "place_ok p c ys t pc"
    and "\<forall>u. u \<noteq> t \<longrightarrow> place_ok p c xs u (pcs s u) \<longrightarrow> place_ok p c ys u (pcs s u)"
    and "\<exists>as. ring_at (at_lock s') (desc s') (qmem s') as ys"
  shows "q_inv p c ys s'"
  unfolding q_inv_def s using assms(3-7) q_invD [OF assms(1)] by simp

text \<open>The test sees what the ring holds, also while another thread has the lock.\<close>

lemma at_lock_simps:
  assumes "q_inv p c xs s"
  shows "holding (pcs s t) \<Longrightarrow> at_lock s = pcs s t"
    "pcs s p = Idle \<Longrightarrow> at_lock s \<noteq> Advancing" "pcs s c = Idle \<Longrightarrow> at_lock s \<noteq> Moving d"
    "at_lock (goto_pc t pc s) = (if owner s = Some t then pc else at_lock s)"
proof -
  show "at_lock s = pcs s t" if "holding (pcs s t)"
    using that q_invD(1) [OF assms, of t] by (simp add: at_lock_def)
  show "at_lock s \<noteq> Advancing" if "pcs s p = Idle"
    using that q_invD(2) [OF assms, of "the (owner s)"] by (auto simp: at_lock_def place_ok_def split: option.splits)
  show "at_lock s \<noteq> Moving d" if "pcs s c = Idle"
    using that q_invD(2) [OF assms, of "the (owner s)"] by (auto simp: at_lock_def place_ok_def split: option.splits)
  show "at_lock (goto_pc t pc s) = (if owner s = Some t then pc else at_lock s)"
    by (auto simp: at_lock_def goto_pc_def split: option.splits)
qed

lemma test_queue:
  assumes "q_inv p c xs s" "pcs s p = Idle"
  shows "queue_full (desc s) (qmem s) = Some (length xs = 9)"
proof -
  obtain as where R: "ring_at (at_lock s) (desc s) (qmem s) as xs" using q_invD(3) [OF assms(1)] by blast
  then have "length xs \<le> 9" "ring_cells (qmem s) as xs" by (auto simp: ring_at_def ring_cells_def)
  moreover have "qlast (desc s) = as ! (length xs mod 9)"
    using R at_lock_simps(2) [OF assms] by (auto simp: ring_at_def split: qpc.splits)
  ultimately show ?thesis using ring_cell [of "qmem s" as xs "length xs mod 9"]
    by (cases "length xs = 9") (auto simp: queue_full_def)
qed

lemma test_dequeue:
  assumes "q_inv p c xs s" "pcs s c = Idle"
  shows "dequeue_none (desc s) (qmem s) = Some (xs = [])"
proof -
  obtain as where R: "ring_at (at_lock s) (desc s) (qmem s) as xs" using q_invD(3) [OF assms(1)] by blast
  then have "ring_cells (qmem s) as xs" by (auto simp: ring_at_def)
  moreover have "qfirst (desc s) = as ! 0"
    using R at_lock_simps(3) [OF assms] by (auto simp: ring_at_def split: qpc.splits)
  ultimately show ?thesis using ring_cell [of "qmem s" as xs 0] by (auto simp: dequeue_none_def)
qed

lemma ring_at_step:
  assumes "ring_at pc q h as xs"
  shows "pc = Storing x \<Longrightarrow> length xs < 9 \<Longrightarrow>
      \<exists>h'. queue_store q (Some x) h = Some h' \<and> ring_at Advancing q h' as (xs @ [x])"
    "pc = Advancing \<Longrightarrow> \<exists>q'. queue_advance q h = Some q' \<and> ring_at Counting q' h as xs"
    "pc = Counting \<Longrightarrow> ring_at Leaving (queue_count q) h as xs"
    "pc = Reading \<Longrightarrow> xs \<noteq> [] \<Longrightarrow> dequeue_read q h = Some (Some (hd xs))"
    "pc = Clearing d \<Longrightarrow> xs \<noteq> [] \<Longrightarrow>
      \<exists>h'. dequeue_clear q h = Some h' \<and> ring_at (Moving d) q h' (rotate1 as) (tl xs)"
    "pc = Moving d \<Longrightarrow> \<exists>q'. dequeue_advance q h = Some q' \<and> ring_at (Discounting d) q' h as xs"
    "pc = Discounting d \<Longrightarrow> ring_at (Yielding d) (dequeue_count q) h as xs"
proof -
  have R: "ring_cells h as xs" using assms by (simp add: ring_at_def)
  note C = ring_cell [OF R]
  show "\<exists>h'. queue_store q (Some x) h = Some h' \<and> ring_at Advancing q h' as (xs @ [x])"
    if "pc = Storing x" "length xs < 9"
    using ring_store [OF R that(2), of x] assms that by (auto simp: ring_at_def queue_store_def)
  show "\<exists>q'. queue_advance q h = Some q' \<and> ring_at Counting q' h as xs" if "pc = Advancing"
    using C [of "length xs - 1"] R assms that by (auto simp: ring_at_def queue_advance_def ring_cells_def)
  show "ring_at Leaving (queue_count q) h as xs" if "pc = Counting"
    using assms that by (simp add: ring_at_def queue_count_def)
  show "dequeue_read q h = Some (Some (hd xs))" if "pc = Reading" "xs \<noteq> []"
    using C [of 0] assms that by (simp add: ring_at_def dequeue_read_def hd_conv_nth)
  show "\<exists>h'. dequeue_clear q h = Some h' \<and> ring_at (Moving d) q h' (rotate1 as) (tl xs)"
    if c: "pc = Clearing d" "xs \<noteq> []"
  proof -
    obtain y ys where xs: "xs = y # ys" using c(2) by (cases xs) auto
    obtain h' where "dequeue_clear q h = Some h'" "ring_cells h' (rotate1 as) ys"
      using ring_clear [of h as y ys] R assms c(1) xs by (auto simp: ring_at_def dequeue_clear_def)
    then show ?thesis using ring_rotated [of h as y ys] R assms c(1) xs by (simp add: ring_at_def)
  qed
  show "\<exists>q'. dequeue_advance q h = Some q' \<and> ring_at (Discounting d) q' h as xs" if "pc = Moving d"
    using C [of 8] assms that by (simp add: ring_at_def dequeue_advance_def)
  show "ring_at (Yielding d) (dequeue_count q) h as xs" if "pc = Discounting d"
    using assms that by (simp add: ring_at_def dequeue_count_def)
qed

text \<open>The lags of a thread outside its three statements are those of none.\<close>

lemma ring_at_quiet [simp]:
  "ring_at (Storing x) q h as xs = ring_at Idle q h as xs" "ring_at Leaving q h as xs = ring_at Idle q h as xs"
  "ring_at Reading q h as xs = ring_at Idle q h as xs" "ring_at (Clearing d) q h as xs = ring_at Idle q h as xs"
  "ring_at (Yielding d) q h as xs = ring_at Idle q h as xs"
  by (simp_all add: ring_at_def)

text \<open>One step: either the elements stay, or the operation entered into the history explains them.\<close>

definition explained :: "'a list \<Rightarrow> 'a list \<Rightarrow> 'a qsys \<Rightarrow> 'a qsys \<Rightarrow> bool" where
  "explained xs ys s s' =
     (history s' = history s \<and> ys = xs \<or>
      (\<exists>op r. history s' = history s @ [(op, r)] \<and> fifo_step QCAP op xs = (r, ys)))"

text \<open>Steps of a thread with the lock, of one that takes or gives it, and of one outside.\<close>

lemma q_inv_inside:
  assumes I: "q_inv p c xs s" and "holding (pcs s t)" "holding pc" "pcs s1 = pcs s" "owner s1 = owner s"
    and "place_ok p c ys t pc"
    and "\<forall>u. u \<noteq> t \<longrightarrow> place_ok p c xs u (pcs s u) \<longrightarrow> place_ok p c ys u (pcs s u)"
    and "ring_at pc (desc s1) (qmem s1) as ys"
  shows "q_inv p c ys (goto_pc t pc s1)"
  using assms(2-) q_invD(1) [OF I, of t]
  by (intro q_inv_goto [OF I, of _ t pc]) (auto simp: goto_pc_def at_lock_def)

lemma q_inv_lock:
  assumes I: "q_inv p c xs s" and "owner s = None" "holding pc" "place_ok p c xs t pc"
    and "\<And>as. ring_at pc (desc s) (qmem s) as xs = ring_at Idle (desc s) (qmem s) as xs"
  shows "q_inv p c xs (goto_pc t pc (s\<lparr>owner := Some t\<rparr>))"
  using assms(2-) q_invD(3) [OF I]
  by (intro q_inv_goto [OF I, of _ t pc]) (auto simp: goto_pc_def at_lock_def)

lemma q_inv_unlock:
  assumes I: "q_inv p c xs s" and "holding (pcs s t)"
    and "\<And>as. ring_at (pcs s t) (desc s) (qmem s) as xs = ring_at Idle (desc s) (qmem s) as xs"
  shows "q_inv p c xs (goto_pc t Idle (s\<lparr>owner := None\<rparr>))"
  using assms(2-) q_invD(3) [OF I] q_invD(1) [OF I, of t]
  by (intro q_inv_goto [OF I, of _ t Idle]) (auto simp: goto_pc_def at_lock_def place_ok_def holding_def)

lemma q_inv_outside:
  assumes I: "q_inv p c xs s" and "\<not> holding (pcs s t)" "\<not> holding pc" "place_ok p c xs t pc"
  shows "q_inv p c xs (goto_pc t pc s)"
  using assms(2-) q_invD(3) [OF I] q_invD(1) [OF I, of t] at_lock_simps(4) [OF I, of t pc]
  by (intro q_inv_goto [OF I, of _ t pc]) (auto simp: goto_pc_def)

lemma q_inv_log: "q_inv p c xs s \<Longrightarrow> q_inv p c xs (log_op op r s)"
  by (simp add: q_inv_def log_op_def at_lock_def cong: option.case_cong)

lemma explained_same:
  "explained xs xs s (goto_pc t pc s)" "explained xs xs s (goto_pc t pc (s\<lparr>owner := u\<rparr>))"
  "explained xs xs s (goto_pc t pc (s\<lparr>desc := q\<rparr>))"
  by (simp_all add: explained_def goto_pc_def)

lemma q_inv_step:
  assumes step: "q_step {p} {c} s s'" and I: "q_inv p c xs s"
  shows "\<exists>ys. q_inv p c ys s' \<and> explained xs ys s s'"
proof -
  obtain as where R: "ring_at (at_lock s) (desc s) (qmem s) as xs" using q_invD(3) [OF I] by blast
  have len: "length xs \<le> 9" using R by (simp add: ring_at_def ring_cells_def)
  note place = q_invD(2) [OF I] and cur = at_lock_simps(1) [OF I] and in_lock = q_inv_inside [OF I]
  from step show ?thesis
  proof (cases rule: q_step.cases)
    case (call_queue t x)
    then have "length xs < 9" using test_queue [OF I] len by auto
    then have "q_inv p c xs s'"
      using call_queue by (auto intro!: q_inv_outside [OF I] simp: holding_def place_ok_def)
    then show ?thesis using call_queue explained_same(1) by blast
  next
    case (call_refused t x)
    then have "length xs = 9" using test_queue [OF I] by auto
    then have "explained xs xs s s'" using call_refused by (auto simp: explained_def log_op_def)
    then show ?thesis using q_inv_log [OF I] call_refused by blast
  next
    case (lock_queue t x)
    then have "q_inv p c xs s'"
      using place [of t] by (auto intro!: q_inv_lock [OF I] simp: holding_def place_ok_def)
    then show ?thesis using lock_queue explained_same(2) by blast
  next
    case (store t x h)
    have c: "at_lock s = Storing x" using cur [of t] store by (simp add: holding_def)
    have l: "t = p" "length xs < 9" using place [of t] store by (simp_all add: place_ok_def)
    have "ring_at Advancing (desc s) h as (xs @ [x])" using ring_at_step(1) [OF R c l(2)] store by auto
    then have "q_inv p c (xs @ [x]) s'"
      unfolding store(1) using store(2) l(1)
      by (intro in_lock) (auto simp: holding_def place_ok_def log_op_def split: qpc.splits)
    then show ?thesis using store l by (auto simp: explained_def log_op_def goto_pc_def)
  next
    case (advance t q)
    have c: "at_lock s = Advancing" using cur [of t] advance by (simp add: holding_def)
    have l: "t = p" using place [of t] advance by (simp add: place_ok_def)
    have "ring_at Counting q (qmem s) as xs" using ring_at_step(2) [OF R c] advance by auto
    then have "q_inv p c xs s'"
      unfolding advance(1) using advance(2) l by (intro in_lock) (auto simp: holding_def place_ok_def)
    then show ?thesis using advance explained_same(3) by blast
  next
    case (count t)
    have c: "at_lock s = Counting" using cur [of t] count by (simp add: holding_def)
    have l: "t = p" using place [of t] count by (simp add: place_ok_def)
    have "q_inv p c xs s'"
      unfolding count(1) using count(2) l ring_at_step(3) [OF R c]
      by (intro in_lock) (auto simp: holding_def place_ok_def)
    then show ?thesis using count explained_same(3) by blast
  next
    case (unlock_queue t)
    then have "q_inv p c xs s'" by (auto intro!: q_inv_unlock [OF I] simp: holding_def)
    then show ?thesis using unlock_queue explained_same(2) by blast
  next
    case (call_dequeue t)
    then have "xs \<noteq> []" using test_dequeue [OF I] by auto
    then have "q_inv p c xs s'"
      using call_dequeue by (auto intro!: q_inv_outside [OF I] simp: holding_def place_ok_def)
    then show ?thesis using call_dequeue explained_same(1) by blast
  next
    case (call_empty t)
    then have "xs = []" using test_dequeue [OF I] by auto
    then have "explained xs xs s s'" using call_empty by (auto simp: explained_def log_op_def)
    then show ?thesis using q_inv_log [OF I] call_empty by blast
  next
    case (lock_dequeue t)
    then have "q_inv p c xs s'"
      using place [of t] by (auto intro!: q_inv_lock [OF I] simp: holding_def place_ok_def)
    then show ?thesis using lock_dequeue explained_same(2) by blast
  next
    case (read t d)
    have c: "at_lock s = Reading" using cur [of t] read by (simp add: holding_def)
    have l: "t = c" "xs \<noteq> []" using place [of t] read by (simp_all add: place_ok_def)
    have "d = Some (hd xs)" using ring_at_step(4) [OF R c l(2)] read by simp
    then have "q_inv p c xs s'"
      unfolding read(1) using read(2) l R c
      by (intro in_lock [of t _ s _ as]) (auto simp: holding_def place_ok_def)
    then show ?thesis using read explained_same(1) by blast
  next
    case (clear t d h)
    have c: "at_lock s = Clearing d" using cur [of t] clear by (simp add: holding_def)
    have l: "t = c" "xs \<noteq> []" "d = Some (hd xs)" using place [of t] clear by (simp_all add: place_ok_def)
    have "ring_at (Moving d) (desc s) h (rotate1 as) (tl xs)" using ring_at_step(5) [OF R c l(2)] clear by auto
    then have "q_inv p c (tl xs) s'"
      unfolding clear(1) using clear(2) l len
      by (intro in_lock) (auto simp: holding_def place_ok_def log_op_def split: qpc.splits)
    moreover have "explained xs (tl xs) s s'"
      using clear l by (cases xs) (auto simp: explained_def log_op_def goto_pc_def)
    ultimately show ?thesis by blast
  next
    case (move t d q)
    have c: "at_lock s = Moving d" using cur [of t] move by (simp add: holding_def)
    have l: "t = c" using place [of t] move by (simp add: place_ok_def)
    have "ring_at (Discounting d) q (qmem s) as xs" using ring_at_step(6) [OF R c] move by auto
    then have "q_inv p c xs s'"
      unfolding move(1) using move(2) l by (intro in_lock) (auto simp: holding_def place_ok_def)
    then show ?thesis using move explained_same(3) by blast
  next
    case (discount t d)
    have c: "at_lock s = Discounting d" using cur [of t] discount by (simp add: holding_def)
    have l: "t = c" using place [of t] discount by (simp add: place_ok_def)
    have "q_inv p c xs s'"
      unfolding discount(1) using discount(2) l ring_at_step(7) [OF R c]
      by (intro in_lock) (auto simp: holding_def place_ok_def)
    then show ?thesis using discount explained_same(3) by blast
  next
    case (unlock_dequeue t d)
    then have "q_inv p c xs s'" by (auto intro!: q_inv_unlock [OF I] simp: holding_def)
    then show ?thesis using unlock_dequeue explained_same(2) by blast
  qed
qed

lemma q_no_fault:
  assumes I: "q_inv p c xs s" shows "\<not> q_fault {p} {c} t s"
proof -
  obtain as where R: "ring_at (at_lock s) (desc s) (qmem s) as xs" using q_invD(3) [OF I] by blast
  note step = ring_at_step [OF R]
  show ?thesis
    using at_lock_simps(1) [OF I, of t] q_invD(2) [OF I, of t] test_queue [OF I] test_dequeue [OF I]
      step(1) step(2,4,5,6)
    by (fastforce simp: q_fault_def holding_def place_ok_def split: qpc.splits)
qed

lemma fifo_run_snoc:
  "fifo_step cap op (snd (fifo_run cap ops xs)) = (r, ys) \<Longrightarrow>
    fifo_run cap (ops @ [op]) xs = (fst (fifo_run cap ops xs) @ [r], ys)"
  by (induction ops arbitrary: xs) (auto split: prod.splits)

lemma q_reach_inv:
  assumes "ring q h as xs" "q_reach {p} {c} (q_start q h) s"
  shows "\<exists>ys. q_inv p c ys s \<and> fifo_run QCAP (map fst (history s)) xs = (map snd (history s), ys)"
  using assms(2)
proof (induction rule: q_reach.induct)
  case q_refl
  have "q_inv p c xs (q_start q h)"
    using assms(1) by (auto simp: q_inv_def q_start_def ring_def ring_at_def at_lock_def holding_def place_ok_def)
  then show ?case by (auto simp: q_start_def)
next
  case (q_next s s')
  then obtain ys where I: "q_inv p c ys s" and run: "fifo_run QCAP (map fst (history s)) xs = (map snd (history s), ys)"
    by blast
  obtain zs where "q_inv p c zs s'" "explained ys zs s s'" using q_inv_step [OF q_next.hyps(2) I] by blast
  then show ?case using run fifo_run_snoc [of QCAP _ "map fst (history s)" xs] by (fastforce simp: explained_def)
qed

subsection \<open>Sections of a call, and other numbers of threads\<close>

lemma q_reach_trans: "q_reach P C s1 s2 \<Longrightarrow> q_reach P C s0 s1 \<Longrightarrow> q_reach P C s0 s2"
  by (induction rule: q_reach.induct) (auto intro: q_reach.intros)

lemma q_reach_step: "q_step P C s s1 \<Longrightarrow> q_reach P C s1 s2 \<Longrightarrow> q_reach P C s s2"
  by (erule q_reach_trans) (rule q_reach.q_next [OF q_reach.q_refl])

text \<open>What a thread does that is past its test and is not interrupted any more.\<close>

lemma queue_section:
  assumes "pcs s t = Entering x" "owner s = None"
    and "queue_store (desc s) (Some x) (qmem s) = Some h" "queue_advance (desc s) h = Some q"
  shows "q_reach P C s (s\<lparr>desc := queue_count q, qmem := h, pcs := (pcs s)(t := Idle),
    history := history s @ [(Enqueue x, Queued True)]\<rparr>)" (is "q_reach P C s ?s")
proof -
  let ?s1 = "goto_pc t (Storing x) (s\<lparr>owner := Some t\<rparr>)"
  let ?s2 = "goto_pc t Advancing (log_op (Enqueue x) (Queued True) (?s1\<lparr>qmem := h\<rparr>))"
  let ?s3 = "goto_pc t Counting (?s2\<lparr>desc := q\<rparr>)"
  let ?s4 = "goto_pc t Leaving (?s3\<lparr>desc := queue_count (desc ?s3)\<rparr>)"
  let ?s5 = "goto_pc t Idle (?s4\<lparr>owner := None\<rparr>)"
  have "q_step P C s ?s1" by (rule lock_queue [OF assms(1,2)])
  moreover have "q_step P C ?s1 ?s2" by (rule store) (simp_all add: goto_pc_def assms)
  moreover have "q_step P C ?s2 ?s3" by (rule advance) (simp_all add: goto_pc_def log_op_def assms)
  moreover have "q_step P C ?s3 ?s4" by (rule count) (simp add: goto_pc_def)
  moreover have "q_step P C ?s4 ?s5" by (rule unlock_queue) (simp add: goto_pc_def)
  ultimately have "q_reach P C s ?s5" by (meson q_reach_step q_reach.q_refl)
  moreover have "?s5 = ?s" using assms(2) by (simp add: goto_pc_def log_op_def)
  ultimately show ?thesis by simp
qed

lemma dequeue_section:
  assumes "pcs s t = Claiming" "owner s = None" "dequeue_read (desc s) (qmem s) = Some d"
    and "dequeue_clear (desc s) (qmem s) = Some h" "dequeue_advance (desc s) h = Some q"
  shows "q_reach P C s (s\<lparr>desc := dequeue_count q, qmem := h, pcs := (pcs s)(t := Idle),
    history := history s @ [(Dequeue, Dequeued d)]\<rparr>)" (is "q_reach P C s ?s")
proof -
  let ?s1 = "goto_pc t Reading (s\<lparr>owner := Some t\<rparr>)"
  let ?s2 = "goto_pc t (Clearing d) ?s1"
  let ?s3 = "goto_pc t (Moving d) (log_op Dequeue (Dequeued d) (?s2\<lparr>qmem := h\<rparr>))"
  let ?s4 = "goto_pc t (Discounting d) (?s3\<lparr>desc := q\<rparr>)"
  let ?s5 = "goto_pc t (Yielding d) (?s4\<lparr>desc := dequeue_count (desc ?s4)\<rparr>)"
  let ?s6 = "goto_pc t Idle (?s5\<lparr>owner := None\<rparr>)"
  have "q_step P C s ?s1" by (rule lock_dequeue [OF assms(1,2)])
  moreover have "q_step P C ?s1 ?s2" by (rule read) (simp_all add: goto_pc_def assms)
  moreover have "q_step P C ?s2 ?s3" by (rule clear) (simp_all add: goto_pc_def assms)
  moreover have "q_step P C ?s3 ?s4" by (rule move) (simp_all add: goto_pc_def log_op_def assms)
  moreover have "q_step P C ?s4 ?s5" by (rule discount) (simp add: goto_pc_def)
  moreover have "q_step P C ?s5 ?s6" by (rule unlock_dequeue) (simp add: goto_pc_def)
  ultimately have "q_reach P C s ?s6" by (meson q_reach_step q_reach.q_refl)
  moreover have "?s6 = ?s" using assms(2) by (simp add: goto_pc_def log_op_def)
  ultimately show ?thesis by simp
qed

text \<open>
  Two threads that queue may both find the last free cell: the second overwrites the oldest element,
  and the count exceeds the number of cells.
\<close>

lemma two_producers_overwrite:
  assumes "ring q h as xs" "length xs = 8"
  shows "\<exists>s. q_reach {1, 2} {} (q_start q h) s \<and>
    history s = [(Enqueue x, Queued True), (Enqueue y, Queued True)] \<and>
    getquenelem (desc s) = 10 \<and> dequeue_read (desc s) (qmem s) = Some (Some y)"
proof -
  have R: "ring_cells h as xs" "qfirst q = as ! 0" "qlast q = as ! 8" "nelem q = 8"
    using assms by (auto simp: ring_def)
  obtain h1 where h1: "queue_store q (Some x) h = Some h1" "ring_cells h1 as (xs @ [x])"
    using ring_store [OF R(1), of x] assms(2) R(3) by (auto simp: queue_store_def)
  have c8: "cells h1 (as ! 8) = Some \<lparr>q_forw = as ! 0, qdata = Some x\<rparr>"
    using ring_cell [OF h1(2), of 8] assms(2) by (simp add: nth_append)
  obtain d where c0: "cells h1 (as ! 0) = Some \<lparr>q_forw = as ! 1, qdata = d\<rparr>"
    using ring_cell [OF h1(2), of 0] by simp
  let ?h2 = "h1\<lparr>cells := (cells h1)(as ! 0 \<mapsto> \<lparr>q_forw = as ! 1, qdata = Some y\<rparr>)\<rparr>"
  let ?s1 = "goto_pc 1 (Entering x) (q_start q h)"
  let ?s2 = "goto_pc 2 (Entering y) ?s1"
  let ?q1 = "q\<lparr>qlast := as ! 0\<rparr>"
  let ?s3 = "?s2\<lparr>desc := queue_count ?q1, qmem := h1, pcs := (pcs ?s2)(1 := Idle),
    history := history ?s2 @ [(Enqueue x, Queued True)]\<rparr>"
  let ?q2 = "(queue_count ?q1)\<lparr>qlast := as ! 1\<rparr>"
  let ?s4 = "?s3\<lparr>desc := queue_count ?q2, qmem := ?h2, pcs := (pcs ?s3)(2 := Idle),
    history := history ?s3 @ [(Enqueue y, Queued True)]\<rparr>"
  have free: "queue_full q h = Some False" using ring_cell [OF R(1), of 8] R(3) assms(2) by (simp add: queue_full_def)
  have "q_step {1, 2} {} (q_start q h) ?s1" using free by (intro call_queue) (simp_all add: q_start_def)
  moreover have "q_step {1, 2} {} ?s1 ?s2" using free by (intro call_queue) (simp_all add: q_start_def goto_pc_def)
  moreover have "q_reach {1, 2} {} ?s2 ?s3"
    using h1(1) c8 R(3) by (intro queue_section) (simp_all add: q_start_def goto_pc_def queue_advance_def)
  moreover have "q_reach {1, 2} {} ?s3 ?s4"
    using c0 by (intro queue_section)
      (simp_all add: q_start_def goto_pc_def queue_advance_def queue_store_def queue_count_def upd_cell_def)
  ultimately have "q_reach {1, 2} {} (q_start q h) ?s4" by (meson q_reach_step q_reach_trans)
  then show ?thesis
    using R(2,4) by (intro exI [of _ ?s4])
      (simp add: q_start_def goto_pc_def getquenelem_def queue_count_def dequeue_read_def)
qed

text \<open>
  Two threads that dequeue may both find the only element: the second returns \<open>NULL\<close> but moves \<open>first\<close>
  past a free cell. The next element goes into that cell and is not found.
\<close>

lemma two_consumers_strand:
  assumes "ring q h as [x]"
  shows "\<exists>s. q_reach {} {1, 2} (q_start q h) s \<and>
    history s = [(Dequeue, Dequeued (Some x)), (Dequeue, Dequeued None)] \<and>
    getquenelem (desc s) = - 1 \<and>
    (\<exists>q' h'. queue (desc s) (Some y) (qmem s) = Some (0, q', h') \<and> dequeue q' h' = Some (None, q', h'))"
proof -
  have R: "ring_cells h as [x]" "qfirst q = as ! 0" "qlast q = as ! 1" "nelem q = 1"
    using assms by (auto simp: ring_def)
  have d: "distinct as" "length as = 9" using R(1) by (auto simp: ring_cells_def)
  have ne: "as ! 0 \<noteq> as ! 1" "as ! 0 \<noteq> as ! 2" "as ! 1 \<noteq> as ! 2"
    using d by (simp_all add: nth_eq_iff_index_eq)
  have c: "cells h (as ! 0) = Some \<lparr>q_forw = as ! 1, qdata = Some x\<rparr>"
      "cells h (as ! 1) = Some \<lparr>q_forw = as ! 2, qdata = None\<rparr>" "cells h (as ! 2) = Some \<lparr>q_forw = as ! 3, qdata = None\<rparr>"
    using ring_cell [OF R(1), of 0] ring_cell [OF R(1), of 1] ring_cell [OF R(1), of 2] by (simp_all flip: numeral_2_eq_2)
  let ?h1 = "h\<lparr>cells := (cells h)(as ! 0 \<mapsto> \<lparr>q_forw = as ! 1, qdata = None\<rparr>)\<rparr>"
  let ?h2 = "h\<lparr>cells := (cells ?h1)(as ! 1 \<mapsto> \<lparr>q_forw = as ! 2, qdata = None\<rparr>)\<rparr>"
  let ?s1 = "goto_pc 1 Claiming (q_start q h)"
  let ?s2 = "goto_pc 2 Claiming ?s1"
  let ?q1 = "q\<lparr>qfirst := as ! 1\<rparr>"
  let ?s3 = "?s2\<lparr>desc := dequeue_count ?q1, qmem := ?h1, pcs := (pcs ?s2)(1 := Idle),
    history := history ?s2 @ [(Dequeue, Dequeued (Some x))]\<rparr>"
  let ?q2 = "(dequeue_count ?q1)\<lparr>qfirst := as ! 2\<rparr>"
  let ?s4 = "?s3\<lparr>desc := dequeue_count ?q2, qmem := ?h2, pcs := (pcs ?s3)(2 := Idle),
    history := history ?s3 @ [(Dequeue, Dequeued None)]\<rparr>"
  have some: "dequeue_none q h = Some False" using c R(2) by (simp add: dequeue_none_def)
  have "q_step {} {1, 2} (q_start q h) ?s1" using some by (intro call_dequeue) (simp_all add: q_start_def)
  moreover have "q_step {} {1, 2} ?s1 ?s2" using some by (intro call_dequeue) (simp_all add: q_start_def goto_pc_def)
  moreover have "q_reach {} {1, 2} ?s2 ?s3"
    using c R(2) by (intro dequeue_section)
      (simp_all add: q_start_def goto_pc_def dequeue_read_def dequeue_clear_def dequeue_advance_def upd_cell_def)
  moreover have "q_reach {} {1, 2} ?s3 ?s4"
    using c ne by (intro dequeue_section)
      (simp_all add: q_start_def goto_pc_def dequeue_read_def dequeue_clear_def dequeue_advance_def
        dequeue_count_def upd_cell_def)
  ultimately have "q_reach {} {1, 2} (q_start q h) ?s4" by (meson q_reach_step q_reach_trans)
  moreover have "queue (desc ?s4) (Some y) (qmem ?s4) =
      Some (0, (desc ?s4)\<lparr>qlast := as ! 2, nelem := 0\<rparr>,
        ?h2\<lparr>cells := (cells ?h2)(as ! 1 \<mapsto> \<lparr>q_forw = as ! 2, qdata = Some y\<rparr>)\<rparr>)"
    using c ne R by (simp add: queue_def queue_full_def queue_store_def queue_advance_def queue_count_def
        dequeue_count_def upd_cell_def)
  ultimately show ?thesis
    using R c ne by (intro exI [of _ ?s4])
      (simp add: q_start_def goto_pc_def getquenelem_def dequeue_count_def dequeue_def dequeue_none_def)
qed

section \<open>Properties\<close>

text \<open>Calls one after the other give the answers of the specification.\<close>

lemma queue_runs_fifo:
  assumes "qrep s xs"
  shows "\<exists>t. rq.run ps s = Some (fst (fifo_run QCAP ps xs), t) \<and>
    qrep t (snd (fifo_run QCAP ps xs)) \<and>
    getquenelem (fst t) = int (length (snd (fifo_run QCAP ps xs)))"
  using rq.run_refines [OF assms, of ps] rq.rep_len by blast

text \<open>
  C6 -- the ring is a first-in first-out queue for one thread that queues and one that dequeues,
  however the accesses of their calls interleave (they may be the same thread). From a ring of cells
  \<open>as\<close> that holds \<open>xs\<close>: no access goes astray; the calls, in the order in which they take effect,
  return what the queue of the specification returns, that is, an element is refused exactly when at
  that moment every cell of the ring holds one, \<open>NULL\<close> is returned exactly when none does, and the
  elements come out once each in the order they went in; while nobody holds the lock the ring holds
  the elements of the specification, never more than \<open>MAX_QUEUE_ELEMENTS\<close>, and \<open>getquenelem\<close> counts them;
  and a thread in a call can always go on unless it waits for the lock.
\<close>

theorem queue_refines_fifo:
  assumes "ring q h as xs" "q_reach {p} {c} (q_start q h) s"
  shows "(\<forall>t. \<not> q_fault {p} {c} t s) \<and>
    map snd (history s) = fst (fifo_run (length as) (map fst (history s)) xs) \<and>
    (let ys = snd (fifo_run (length as) (map fst (history s)) xs) in length ys \<le> MAX_QUEUE_ELEMENTS \<and>
      (owner s = None \<longrightarrow> qrep (desc s, qmem s) ys \<and> getquenelem (desc s) = int (length ys))) \<and>
    (\<forall>t. pcs s t \<noteq> Idle \<and> (holding (pcs s t) \<or> owner s = None) \<longrightarrow>
      (\<exists>s'. q_step {p} {c} s s' \<and> pcs s' t \<noteq> pcs s t))"
proof -
  have cap: "length as = QCAP" using assms(1) by (simp add: ring_def ring_cells_def)
  obtain ys where I: "q_inv p c ys s" and run: "fifo_run QCAP (map fst (history s)) xs = (map snd (history s), ys)"
    using q_reach_inv [OF assms] by blast
  obtain bs where R: "ring_at (at_lock s) (desc s) (qmem s) bs ys" using q_invD(3) [OF I] by blast
  have "length ys \<le> 9" using R by (simp add: ring_at_def ring_cells_def)
  moreover have "ring (desc s) (qmem s) bs ys" if "owner s = None"
    using R that by (simp add: ring_at_def at_lock_def ring_def)
  ultimately show ?thesis
    using q_no_fault [OF I] q_progress [of s _ "{p}" "{c}"] run unfolding cap by (auto simp: qrep_def getquenelem_def ring_def)
qed

definition empty_heap :: "nat \<Rightarrow> 'a qheap" where
  "empty_heap n = \<lparr>cells = (\<lambda>a. None), brk = 0, budget = n\<rparr>"

lemma empty_heap_ok: "qheap_ok (empty_heap n)"
  by (simp add: qheap_ok_def empty_heap_def)

lemma fresh_ring: "\<exists>q h as. ring q (h :: nat qheap) as []"
  using init_ring [OF empty_heap_ok, of 9 "\<lparr>qfirst = 0, qlast = 0, nelem = 0\<rparr>"]
  by (auto simp: empty_heap_def)

text \<open>Thread 1 queues a five, thread 2 takes it out and finds the queue empty.\<close>

lemma queue_refines_fifo_witness:
  "\<exists>q h s. q_reach {1} {2} (q_start q (h :: nat qheap)) s \<and> getquenelem (desc s) = 0 \<and>
     history s = [(Enqueue 5, Queued True), (Dequeue, Dequeued (Some 5)), (Dequeue, Dequeued None)]"
proof -
  obtain q and h :: "nat qheap" and as where R: "ring q h as []" using fresh_ring by blast
  note P = queue_refines_fifo [OF R, of 1 2]
  have C: "ring_cells h as []" "qlast q = as ! 0" "length as = 9" using R by (auto simp: ring_def ring_cells_def)
  let ?s1 = "goto_pc 1 (Entering 5) (q_start q h)"
  have "q_step {1} {2} (q_start q h) ?s1"
    using ring_cell [OF C(1), of 0] C(2) by (intro call_queue) (simp_all add: q_start_def queue_full_def)
  then have r1: "q_reach {1} {2} (q_start q h) ?s1" by (rule q_reach_step) (rule q_reach.q_refl)
  obtain h1 where h1: "queue_store q (Some 5) h = Some h1" "ring_cells h1 as [5]"
    using ring_store [OF C(1), of 5] C(2) by (auto simp: queue_store_def)
  have "q_reach {1} {2} ?s1 (?s1\<lparr>desc := queue_count (q\<lparr>qlast := as ! 1\<rparr>), qmem := h1,
      pcs := (pcs ?s1)(1 := Idle), history := history ?s1 @ [(Enqueue 5, Queued True)]\<rparr>)" (is "q_reach _ _ _ ?s2")
    using h1(1) C(2) ring_cell [OF h1(2), of 0]
    by (intro queue_section) (simp_all add: q_start_def goto_pc_def queue_advance_def)
  then have r2: "q_reach {1} {2} (q_start q h) ?s2" using q_reach_trans r1 by blast
  then obtain bs where B: "ring (desc ?s2) (qmem ?s2) bs [5]"
    using P [of ?s2] C(3) by (auto simp: q_start_def goto_pc_def qrep_def)
  then have "ring_cells h1 bs [5]" "as ! 0 = qfirst q" "qfirst q = bs ! 0"
    using R by (auto simp: ring_def queue_count_def)
  then have c: "cells h1 (qfirst q) = Some \<lparr>q_forw = bs ! 1, qdata = Some 5\<rparr>"
    using ring_cell [of h1 bs "[5]" 0] by simp
  obtain h2 where h2: "dequeue_clear (desc ?s2) h1 = Some h2" "ring_cells h2 (rotate1 bs) []"
    using ring_clear [of h1 bs 5 "[]"] \<open>ring_cells h1 bs [5]\<close> \<open>qfirst q = bs ! 0\<close>
    by (auto simp: dequeue_clear_def queue_count_def)
  let ?s3 = "goto_pc 2 Claiming ?s2"
  let ?q3 = "(desc ?s2)\<lparr>qfirst := rotate1 bs ! 0\<rparr>"
  have "q_step {1} {2} ?s2 ?s3"
    using c by (intro call_dequeue) (simp_all add: q_start_def goto_pc_def dequeue_none_def queue_count_def)
  moreover have "q_reach {1} {2} ?s3 (?s3\<lparr>desc := dequeue_count ?q3, qmem := h2,
      pcs := (pcs ?s3)(2 := Idle), history := history ?s3 @ [(Dequeue, Dequeued (Some 5))]\<rparr>)" (is "q_reach _ _ _ ?s4")
    using c h2(1) ring_cell [OF h2(2), of 8] ring_rotated(1) [OF \<open>ring_cells h1 bs [5]\<close>] \<open>qfirst q = bs ! 0\<close>
    by (intro dequeue_section)
      (simp_all add: q_start_def goto_pc_def dequeue_read_def dequeue_advance_def queue_count_def)
  ultimately have r4: "q_reach {1} {2} (q_start q h) ?s4" using q_reach_trans r2 q_reach_step by blast
  have "q_step {1} {2} ?s4 (log_op Dequeue (Dequeued None) ?s4)"
    using ring_cell [OF h2(2), of 0] \<open>qfirst q = bs ! 0\<close>
    by (intro call_empty [of 2]) (simp_all add: q_start_def goto_pc_def dequeue_none_def dequeue_count_def)
  then have r5: "q_reach {1} {2} (q_start q h) (log_op Dequeue (Dequeued None) ?s4)"
    using q_reach.q_next r4 by blast
  from P [OF r5] C(3) r5 show ?thesis
    by (intro exI [of _ q] exI [of _ h] exI [of _ "log_op Dequeue (Dequeued None) ?s4"])
      (simp add: q_start_def goto_pc_def log_op_def)
qed

text \<open>
  C29 -- the ring is allocated and released without a leak. On a well-formed heap with room
  for nine cells \<open>queue_init\<close> returns 0 and an empty queue made of nine fresh cells; with less
  room it returns -1, frees what it had allocated and leaves the heap as it was; and
  \<open>queue_deinit\<close> on any queue, whatever it still holds, frees exactly the cells of its ring.
\<close>

theorem queue_alloc_release:
  assumes "qheap_ok h"
  shows "(9 \<le> budget h \<longrightarrow> (\<exists>q' h' as. queue_init True q h = Some (0, q', h') \<and> ring q' h' as [] \<and>
        (\<forall>a. a \<notin> set as \<longrightarrow> cells h' a = cells h a) \<and> (\<forall>a \<in> set as. cells h a = None))) \<and>
    (budget h < 9 \<longrightarrow> (\<exists>q' h'. queue_init True q h = Some (-1, q', h') \<and> cells h' = cells h \<and> qfirst q' = 0)) \<and>
    (ring q h as xs \<longrightarrow> (\<exists>h'. queue_deinit q h = Some (q\<lparr>qfirst := 0\<rparr>, h') \<and>
        (\<forall>a. cells h' a = (if a \<in> set as then None else cells h a))))"
  using init_ring [OF assms] init_fails [OF assms] deinit_ring [of q h as xs]
  by (auto simp: free_set_def)

lemma queue_alloc_release_witness:
  "\<exists>q' h'. queue_init True \<lparr>qfirst = 0, qlast = 0, nelem = 0\<rparr> (empty_heap 8 :: nat qheap) = Some (-1, q', h') \<and>
     cells h' = (\<lambda>a. None)"
  using queue_alloc_release [OF empty_heap_ok [of 8], of "\<lparr>qfirst = 0, qlast = 0, nelem = 0\<rparr>" "[]" "[]"]
  by (auto simp: empty_heap_def)

text \<open>
  Queueing \<open>NULL\<close> is accepted and counted, but the cell stays free: the element cannot be
  taken out, and the next one goes behind it.
\<close>

lemma queue_null_is_lost:
  assumes "ring q h as []"
  shows "\<exists>q' h'. queue q None h = Some (0, q', h') \<and> nelem q' = 1 \<and> dequeue q' h' = Some (None, q', h')"
proof -
  have c: "cells h (as ! 0) = Some \<lparr>q_forw = as ! 1, qdata = None\<rparr>" "qfirst q = as ! 0" "qlast q = as ! 0" "nelem q = 0"
    using assms by (auto simp: ring_def ring_cells_def)
  then show ?thesis
    by (simp add: queue_def queue_full_def queue_store_def queue_advance_def queue_count_def upd_cell_def
        dequeue_def dequeue_none_def)
qed

end
