(* ===== verification/OmxSem.thy ===== *)
theory OmxSem
  imports Prelude
begin

text \<open>
  The semaphore of the OpenMAX core, \<open>libomxil-bellagio/src/tsemaphore.c\<close>: a counter under a
  mutex with a condition variable. First the operations as one thread sees them, where
  \<open>tsem_down\<close> on 0 and \<open>tsem_wait\<close> block; then all threads together, as steps between two
  releases of the mutex: a thread in \<open>tsem_down\<close> that finds 0 waits on the condition, a signal
  (or a spurious wake-up) makes a waiting thread test the counter again.
\<close>

section \<open>One thread\<close>

record tsem_t =
  semval :: u32

definition tsem_init :: "bool \<Rightarrow> bool \<Rightarrow> tsem_t \<Rightarrow> u32 \<Rightarrow> int \<times> tsem_t" where
  "tsem_init cond_ok mutex_ok tsem val =
     (if \<not> cond_ok then (-1, tsem)
      else if \<not> mutex_ok then (-1, tsem)
      else (0, tsem\<lparr>semval := val\<rparr>))"

definition tsem_down :: "tsem_t \<Rightarrow> (unit, tsem_t) outcome" where
  "tsem_down tsem =
     (if semval tsem = 0 then Blocked tsem else Done () (tsem\<lparr>semval := semval tsem - 1\<rparr>))"

definition tsem_up :: "tsem_t \<Rightarrow> tsem_t" where
  "tsem_up tsem = tsem\<lparr>semval := semval tsem + 1\<rparr>"

definition tsem_reset :: "tsem_t \<Rightarrow> tsem_t" where
  "tsem_reset tsem = tsem\<lparr>semval := 0\<rparr>"

definition tsem_wait :: "tsem_t \<Rightarrow> (unit, tsem_t) outcome" where
  "tsem_wait tsem = Blocked tsem"

definition tsem_signal :: "tsem_t \<Rightarrow> tsem_t" where
  "tsem_signal tsem = tsem"

lemma down_up [simp]: "semval t \<noteq> - 1 \<Longrightarrow> tsem_down (tsem_up t) = Done () t"
  using unat_inc [of "semval t"] by (auto simp: tsem_down_def tsem_up_def)

section \<open>All threads\<close>

text \<open>
  \<open>waiting\<close> threads of \<open>tsem_down\<close> sleep in \<open>pthread_cond_wait\<close>, \<open>notified\<close> ones have been
  woken and will test the counter again, \<open>bare\<close> threads sleep in \<open>tsem_wait\<close> on the same
  condition. \<open>ups\<close> and \<open>downs\<close> count the completed calls and \<open>dropped\<close> the tokens that calls of
  \<open>tsem_reset\<close> found in the counter, as ghosts.
\<close>

record sem_sys =
  sem :: tsem_t
  waiting :: nat
  notified :: nat
  bare :: nat
  ups :: nat
  downs :: nat
  dropped :: nat

definition sem_start :: "u32 \<Rightarrow> sem_sys" where
  "sem_start v = \<lparr>sem = \<lparr>semval = v\<rparr>, waiting = 0, notified = 0, bare = 0, ups = 0, downs = 0, dropped = 0\<rparr>"

text \<open>\<open>pthread_cond_signal\<close> wakes one of the sleeping threads, if there is one.\<close>

inductive cond_signal :: "sem_sys \<Rightarrow> sem_sys \<Rightarrow> bool" where
  wake_down: "waiting s > 0 \<Longrightarrow> cond_signal s (s\<lparr>waiting := waiting s - 1, notified := notified s + 1\<rparr>)"
| wake_bare: "bare s > 0 \<Longrightarrow> cond_signal s (s\<lparr>bare := bare s - 1\<rparr>)"
| wake_none: "waiting s = 0 \<Longrightarrow> bare s = 0 \<Longrightarrow> cond_signal s s"

inductive sem_step :: "sem_sys \<Rightarrow> sem_sys \<Rightarrow> bool" where
  down_take: "tsem_down (sem s) = Done () t \<Longrightarrow> sem_step s (s\<lparr>sem := t, downs := downs s + 1\<rparr>)"
| down_block: "tsem_down (sem s) = Blocked t \<Longrightarrow> sem_step s (s\<lparr>sem := t, waiting := waiting s + 1\<rparr>)"
| retry_take: "notified s > 0 \<Longrightarrow> tsem_down (sem s) = Done () t \<Longrightarrow>
    sem_step s (s\<lparr>sem := t, notified := notified s - 1, downs := downs s + 1\<rparr>)"
| retry_block: "notified s > 0 \<Longrightarrow> tsem_down (sem s) = Blocked t \<Longrightarrow>
    sem_step s (s\<lparr>sem := t, notified := notified s - 1, waiting := waiting s + 1\<rparr>)"
| up: "cond_signal (s\<lparr>sem := tsem_up (sem s), ups := ups s + 1\<rparr>) s' \<Longrightarrow> sem_step s s'"
| reset: "sem_step s (s\<lparr>sem := tsem_reset (sem s), dropped := dropped s + unat (semval (sem s))\<rparr>)"
| spurious: "waiting s > 0 \<Longrightarrow> sem_step s (s\<lparr>waiting := waiting s - 1, notified := notified s + 1\<rparr>)"
| wait: "sem_step s (s\<lparr>bare := bare s + 1\<rparr>)"
| wait_spurious: "bare s > 0 \<Longrightarrow> sem_step s (s\<lparr>bare := bare s - 1\<rparr>)"
| signal: "cond_signal (s\<lparr>sem := tsem_signal (sem s)\<rparr>) s' \<Longrightarrow> sem_step s s'"

inductive_cases cond_signalE: "cond_signal s s'"
inductive_cases sem_stepE: "sem_step s s'"

inductive sem_reach :: "u32 \<Rightarrow> sem_sys \<Rightarrow> bool" for v where
  start: "sem_reach v (sem_start v)"
| step: "sem_reach v s \<Longrightarrow> sem_step s s' \<Longrightarrow> sem_reach v s'"

lemma cond_signal_frame:
  "cond_signal s s' \<Longrightarrow> sem s' = sem s \<and> ups s' = ups s \<and> downs s' = downs s \<and> dropped s' = dropped s"
  by (erule cond_signalE) simp_all

lemma tsem_down_cases:
  "tsem_down t = Done () t' \<longleftrightarrow> semval t \<noteq> 0 \<and> t' = t\<lparr>semval := semval t - 1\<rparr>"
  "tsem_down t = Blocked t' \<longleftrightarrow> semval t = 0 \<and> t' = t"
  by (auto simp: tsem_down_def)

text \<open>Counting, as long as the counter has not wrapped around.\<close>

lemma sem_count_step:
  assumes "sem_step s s'" "unat (semval (sem s)) + downs s + dropped s = unat v + ups s" "unat v + ups s' < 2 ^ 32"
  shows "unat (semval (sem s')) + downs s' + dropped s' = unat v + ups s'"
  using assms(1)
proof (cases rule: sem_step.cases)
  case (up)
  then have f: "sem s' = tsem_up (sem s)" "ups s' = ups s + 1" "downs s' = downs s" "dropped s' = dropped s"
    using cond_signal_frame [OF up] by simp_all
  have "unat (semval (sem s)) + 1 < 2 ^ 32" using assms(2,3) f(2) by linarith
  then have "semval (sem s) \<noteq> - 1" by (rule unat_not_max)
  then have "unat (semval (sem s) + 1) = unat (semval (sem s)) + 1" by (rule unat_inc)
  then show ?thesis using assms(2) f by (simp add: tsem_up_def)
next
  case (signal)
  then show ?thesis using cond_signal_frame [OF signal] assms(2) by (simp add: tsem_signal_def)
qed (insert assms(2) unat_dec [of "semval (sem s)"] unat_gt_0 [of "semval (sem s)"],
    auto simp: tsem_down_cases tsem_reset_def simp del: unat_gt_0)

lemma ups_mono: "sem_step s s' \<Longrightarrow> ups s \<le> ups s'"
  by (erule sem_stepE) (auto dest: cond_signal_frame)

text \<open>No wake-up is lost while nobody sleeps in \<open>tsem_wait\<close>.\<close>

definition no_lost_wakeup :: "sem_sys \<Rightarrow> bool" where
  "no_lost_wakeup s = (waiting s > 0 \<longrightarrow> unat (semval (sem s)) \<le> notified s)"

lemma no_lost_wakeup_step:
  assumes "sem_step s s'" "no_lost_wakeup s" "bare s = 0" "unat (semval (sem s)) + 1 < 2 ^ 32"
  shows "no_lost_wakeup s'"
  using assms(1)
proof (cases rule: sem_step.cases)
  case (up)
  have "semval (sem s) \<noteq> - 1" using assms(4) by (rule unat_not_max)
  then have "unat (semval (sem s) + 1) = unat (semval (sem s)) + 1" by (rule unat_inc)
  then show ?thesis using up assms(2,3)
    by (auto elim!: cond_signalE simp: no_lost_wakeup_def tsem_up_def)
next
  case (signal)
  then show ?thesis using assms(2,3) by (auto elim!: cond_signalE simp: no_lost_wakeup_def tsem_signal_def)
qed (use assms(2) in \<open>auto simp: no_lost_wakeup_def tsem_down_cases tsem_reset_def unat_dec unat_gt_0\<close>)

inductive sem_reach_nowait :: "u32 \<Rightarrow> sem_sys \<Rightarrow> bool" for v where
  nstart: "sem_reach_nowait v (sem_start v)"
| nstep: "sem_reach_nowait v s \<Longrightarrow> sem_step s s' \<Longrightarrow> bare s' = 0 \<Longrightarrow> sem_reach_nowait v s'"

lemma nowait_bare: "sem_reach_nowait v s \<Longrightarrow> bare s = 0"
  by (induction rule: sem_reach_nowait.induct) (simp_all add: sem_start_def)

lemma nowait_reach: "sem_reach_nowait v s \<Longrightarrow> sem_reach v s"
  by (induction rule: sem_reach_nowait.induct) (auto intro: sem_reach.intros)

lemma count_reach:
  "sem_reach v s \<Longrightarrow> unat v + ups s < 2 ^ 32 \<Longrightarrow>
    unat (semval (sem s)) + downs s + dropped s = unat v + ups s"
proof (induction rule: sem_reach.induct)
  case start
  then show ?case by (simp add: sem_start_def)
next
  case (step s s')
  then have "unat v + ups s < 2 ^ 32" using ups_mono [OF step.hyps(2)] by linarith
  then show ?case using sem_count_step [OF step.hyps(2)] step by blast
qed

section \<open>Properties\<close>

text \<open>
  C24 -- the semaphore conserves its tokens. In every interleaving of calls of \<open>tsem_down\<close>, \<open>tsem_up\<close>,
  \<open>tsem_reset\<close>, \<open>tsem_wait\<close> and \<open>tsem_signal\<close> by any number of threads, spurious wake-ups included,
  and as long as fewer than \<open>2^32\<close> tokens were ever put in, the counter plus the completed \<open>tsem_down\<close>
  calls plus the tokens dropped by resets is the initial value plus the completed \<open>tsem_up\<close> calls. So
  no more downs complete than tokens were put in, and without a reset none is lost.
\<close>

theorem semaphore_conserves:
  assumes "sem_reach v s" "unat v + ups s < 2 ^ 32"
  shows "unat (semval (sem s)) + downs s + dropped s = unat v + ups s \<and> downs s \<le> unat v + ups s"
  using count_reach [OF assms] by simp

text \<open>One of two tokens is taken, the other dropped.\<close>

lemma semaphore_conserves_witness:
  "\<exists>s. sem_reach 2 s \<and> downs s = 1 \<and> dropped s = 1 \<and> unat (semval (sem s)) + downs s + dropped s = 2 + ups s"
proof -
  let ?r = "(sem_start 2)\<lparr>sem := \<lparr>semval = 1\<rparr>, downs := 1\<rparr>"
  let ?s = "(sem_start 2)\<lparr>sem := \<lparr>semval = 0\<rparr>, downs := 1, dropped := 1\<rparr>"
  have "sem_step (sem_start 2) ?r"
    using down_take [of "sem_start 2" "\<lparr>semval = 1\<rparr>"] by (simp add: sem_start_def tsem_down_def)
  moreover have "sem_step ?r ?s"
    using reset [of ?r] by (simp add: sem_start_def tsem_reset_def)
  ultimately have "sem_reach 2 ?s" by (meson sem_reach.intros)
  with semaphore_conserves [OF this] show ?thesis by (intro exI [of _ ?s]) (simp add: sem_start_def)
qed

text \<open>
  C25 -- no wake-up is lost. When no thread sleeps in \<open>tsem_wait\<close> on the same semaphore, then
  in every reachable state with a positive counter and a thread asleep in \<open>tsem_down\<close> there
  are at least as many woken threads, about to test the counter, as tokens: a token is never
  left behind with everybody asleep.
\<close>

theorem semaphore_no_lost_wakeup:
  assumes "sem_reach_nowait v s" "unat v + ups s + 1 < 2 ^ 32" "waiting s > 0"
  shows "unat (semval (sem s)) \<le> notified s"
proof -
  have "unat v + ups s + 1 < 2 ^ 32 \<Longrightarrow> no_lost_wakeup s"
    using assms(1)
  proof (induction rule: sem_reach_nowait.induct)
    case nstart
    then show ?case by (simp add: no_lost_wakeup_def sem_start_def)
  next
    case (nstep s s')
    have u: "unat v + ups s + 1 < 2 ^ 32" using ups_mono [OF nstep.hyps(2)] nstep.prems by linarith
    then have "unat (semval (sem s)) + downs s + dropped s = unat v + ups s"
      using count_reach [OF nowait_reach [OF nstep.hyps(1)]] by simp
    then have "unat (semval (sem s)) + 1 < 2 ^ 32" using u by linarith
    then show ?case
      using no_lost_wakeup_step [OF nstep.hyps(2) nstep.IH [OF u] nowait_bare [OF nstep.hyps(1)]] by simp
  qed
  then show ?thesis using assms by (simp add: no_lost_wakeup_def)
qed

lemma semaphore_no_lost_wakeup_witness:
  "\<exists>s. sem_reach_nowait 0 s \<and> waiting s = 1 \<and> notified s = 1 \<and> unat (semval (sem s)) \<le> notified s"
proof -
  let ?a = "(sem_start 0)\<lparr>waiting := 1\<rparr>" and ?b = "(sem_start 0)\<lparr>waiting := Suc (Suc 0)\<rparr>"
  let ?c = "(sem_start 0)\<lparr>sem := \<lparr>semval = 1\<rparr>, waiting := 1, notified := 1, ups := 1\<rparr>"
  have "sem_step (sem_start 0) ?a"
    using down_block [of "sem_start 0" "\<lparr>semval = 0\<rparr>"] by (simp add: sem_start_def tsem_down_def)
  moreover have "sem_step ?a ?b"
    using down_block [of ?a "\<lparr>semval = 0\<rparr>"] by (simp add: sem_start_def tsem_down_def)
  moreover have "sem_step ?b ?c"
    using up [of ?b ?c] wake_down [of "?b\<lparr>sem := \<lparr>semval = 1\<rparr>, ups := 1\<rparr>"]
    by (simp add: sem_start_def tsem_up_def)
  moreover have "bare ?a = 0" "bare ?b = 0" "bare ?c = 0" by (simp_all add: sem_start_def)
  ultimately have r: "sem_reach_nowait 0 ?c" by (meson sem_reach_nowait.intros)
  from semaphore_no_lost_wakeup [OF r] r show ?thesis by (intro exI [of _ ?c]) (simp add: sem_start_def)
qed

text \<open>
  With a thread in \<open>tsem_wait\<close> on the same semaphore the signal of \<open>tsem_up\<close> can go to it: the
  token stays behind while the thread in \<open>tsem_down\<close> sleeps on.
\<close>

lemma wait_steals_signal:
  "\<exists>s. sem_reach 0 s \<and> waiting s = 1 \<and> notified s = 0 \<and> semval (sem s) = 1"
proof -
  let ?a = "(sem_start 0)\<lparr>waiting := 1\<rparr>" and ?b = "(sem_start 0)\<lparr>waiting := 1, bare := 1\<rparr>"
  let ?c = "(sem_start 0)\<lparr>sem := \<lparr>semval = 1\<rparr>, waiting := 1, ups := 1\<rparr>"
  have "sem_step (sem_start 0) ?a"
    using down_block [of "sem_start 0" "\<lparr>semval = 0\<rparr>"] by (simp add: sem_start_def tsem_down_def)
  moreover have "sem_step ?a ?b"
    using wait [of ?a] by (simp add: sem_start_def)
  moreover have "sem_step ?b ?c"
    using up [of ?b ?c] wake_bare [of "?b\<lparr>sem := \<lparr>semval = 1\<rparr>, ups := 1\<rparr>"]
    by (simp add: sem_start_def tsem_up_def)
  ultimately have "sem_reach 0 ?c" by (meson sem_reach.intros)
  then show ?thesis by (intro exI [of _ ?c]) (simp add: sem_start_def)
qed

end
