(* ===== verification/OmxTypes.thy ===== *)
theory OmxTypes
  imports OmxQueue OmxSem
begin

text \<open>
  The state the port and component theories of the OpenMAX core work on, from
  \<open>libomxil-bellagio/src/base/omx_base_port.h\<close>, \<open>omx_base_component.h\<close> and \<open>OMX_Core.h\<close>: the
  structures of a component and of its ports, the heap of buffer headers and buffers, the
  semaphores by name, and the calls that leave the component (the tunnelled component, the
  resource manager, the other threads) as the fields of a record of functions.

  A pointer to a header or buffer is its address, a number, and 0 is \<open>NULL\<close>. A pointer to a
  semaphore, queue or array that a structure owns is an option. A queue of buffers is the list
  of its elements, and refuses an element when there are as many as the ring of the code has cells:
  OmxQueue proves that the ring is such a queue for one thread that queues and one that dequeues,
  however their calls overlap.
\<close>

named_theorems omx_defs

section \<open>Constants and enumerations\<close>

abbreviation OMX_ALL :: u32 where "OMX_ALL \<equiv> 0xFFFFFFFF"
abbreviation QCAP :: nat where "QCAP \<equiv> MAX_QUEUE_ELEMENTS - 1"
abbreviation TUNNEL_USE_BUFFER_RETRY :: nat where "TUNNEL_USE_BUFFER_RETRY \<equiv> 20"
abbreviation DEFAULT_NUMBER_BUFFERS_PER_PORT :: u32 where "DEFAULT_NUMBER_BUFFERS_PER_PORT \<equiv> 2"
abbreviation DEFAULT_MIN_NUMBER_BUFFERS_PER_PORT :: u32 where "DEFAULT_MIN_NUMBER_BUFFERS_PER_PORT \<equiv> 2"
abbreviation SPECVERSIONMAJOR :: u8 where "SPECVERSIONMAJOR \<equiv> 1"
abbreviation SPECVERSIONMINOR :: u8 where "SPECVERSIONMINOR \<equiv> 1"

datatype omx_err =
    OMX_ErrorNone | OMX_ErrorInsufficientResources | OMX_ErrorUndefined | OMX_ErrorBadParameter
  | OMX_ErrorNotImplemented | OMX_ErrorInvalidState | OMX_ErrorPortsNotCompatible
  | OMX_ErrorResourcesLost | OMX_ErrorNoMore | OMX_ErrorVersionMismatch | OMX_ErrorSameState
  | OMX_ErrorIncorrectStateTransition | OMX_ErrorIncorrectStateOperation
  | OMX_ErrorUnsupportedIndex | OMX_ErrorBadPortIndex | OMX_ErrorPortUnpopulated
  | OMX_ErrorComponentNotFound | OMX_ErrorOther u32

datatype omx_state =
    OMX_StateInvalid | OMX_StateLoaded | OMX_StateIdle | OMX_StateExecuting | OMX_StatePause
  | OMX_StateWaitForResources

text \<open>The destination of a state change arrives as a number and is compared with these.\<close>

fun state_code :: "omx_state \<Rightarrow> u32" where
  "state_code OMX_StateInvalid = 0"
| "state_code OMX_StateLoaded = 1"
| "state_code OMX_StateIdle = 2"
| "state_code OMX_StateExecuting = 3"
| "state_code OMX_StatePause = 4"
| "state_code OMX_StateWaitForResources = 5"

datatype omx_trans =
    OMX_TransStateInvalid | OMX_TransStateLoadedToIdle | OMX_TransStateIdleToPause
  | OMX_TransStatePauseToExecuting | OMX_TransStateIdleToExecuting
  | OMX_TransStateExecutingToIdle | OMX_TransStateExecutingToPause
  | OMX_TransStatePauseToIdle | OMX_TransStateIdleToLoaded | OMX_TransStateMax

datatype omx_dir = OMX_DirInput | OMX_DirOutput
datatype omx_domain =
    OMX_PortDomainAudio | OMX_PortDomainVideo | OMX_PortDomainImage | OMX_PortDomainOther
  | OMX_PortDomainMax
datatype omx_supplier =
    OMX_BufferSupplyUnspecified | OMX_BufferSupplyInput | OMX_BufferSupplyOutput

datatype omx_command =
    OMX_CommandStateSet | OMX_CommandFlush | OMX_CommandPortDisable | OMX_CommandPortEnable
  | OMX_CommandMarkBuffer | OMX_CommandMax

text \<open>The bits of \<open>TUNNEL_STATUS_FLAG\<close> and \<open>BUFFER_STATUS_FLAG\<close>.\<close>

abbreviation TUNNEL_ESTABLISHED :: u32 where "TUNNEL_ESTABLISHED \<equiv> 1"
abbreviation TUNNEL_IS_SUPPLIER :: u32 where "TUNNEL_IS_SUPPLIER \<equiv> 2"
abbreviation PROPRIETARY_COMMUNICATION_ESTABLISHED :: u32
  where "PROPRIETARY_COMMUNICATION_ESTABLISHED \<equiv> 4"
abbreviation OMX_PORTTUNNELFLAG_READONLY :: u32 where "OMX_PORTTUNNELFLAG_READONLY \<equiv> 1"

abbreviation BUFFER_FREE :: u32 where "BUFFER_FREE \<equiv> 0"
abbreviation BUFFER_ALLOCATED :: u32 where "BUFFER_ALLOCATED \<equiv> 1"
abbreviation BUFFER_ASSIGNED :: u32 where "BUFFER_ASSIGNED \<equiv> 2"
abbreviation HEADER_ALLOCATED :: u32 where "HEADER_ALLOCATED \<equiv> 4"

section \<open>Structure headers\<close>

text \<open>
  Every OpenMAX structure begins with its size and the version. The sizes are those of a 32 bit
  ABI; only their being the argument of both \<open>setHeader\<close> and \<open>checkHeader\<close> matters.
\<close>

record omx_head =
  nSize :: u32
  nVersionMajor :: u8
  nVersionMinor :: u8
  nRevision :: u8
  nStep :: u8

definition zero_head :: omx_head where
  "zero_head = \<lparr>nSize = 0, nVersionMajor = 0, nVersionMinor = 0, nRevision = 0, nStep = 0\<rparr>"

abbreviation sizeof_BUFFERHEADERTYPE :: u32 where "sizeof_BUFFERHEADERTYPE \<equiv> 80"
abbreviation sizeof_PORTDEFINITIONTYPE :: u32 where "sizeof_PORTDEFINITIONTYPE \<equiv> 96"
abbreviation sizeof_BUFFERSUPPLIERTYPE :: u32 where "sizeof_BUFFERSUPPLIERTYPE \<equiv> 16"
abbreviation sizeof_PORT_PARAM_TYPE :: u32 where "sizeof_PORT_PARAM_TYPE \<equiv> 16"
abbreviation sizeof_PRIORITYMGMTTYPE :: u32 where "sizeof_PRIORITYMGMTTYPE \<equiv> 16"
abbreviation sizeof_BELLAGIOTHREADS_ID :: u32 where "sizeof_BELLAGIOTHREADS_ID \<equiv> 16"

text \<open>\<open>checkHeader\<close> of a pointer: \<open>None\<close> is \<open>NULL\<close>.\<close>

definition checkHeader :: "omx_head option \<Rightarrow> u32 \<Rightarrow> omx_err" where
  "checkHeader header sz =
     (case header of
        None \<Rightarrow> OMX_ErrorBadParameter
      | Some h \<Rightarrow>
          if nSize h \<noteq> sz then OMX_ErrorBadParameter
          else if nVersionMajor h \<noteq> SPECVERSIONMAJOR \<or> nVersionMinor h \<noteq> SPECVERSIONMINOR
               then OMX_ErrorVersionMismatch
          else OMX_ErrorNone)"

definition setHeader :: "u32 \<Rightarrow> omx_head" where
  "setHeader sz =
     \<lparr>nSize = sz, nVersionMajor = SPECVERSIONMAJOR, nVersionMinor = SPECVERSIONMINOR,
      nRevision = 0, nStep = 0\<rparr>"

lemma check_set_header [simp]: "checkHeader (Some (setHeader n)) n = OMX_ErrorNone"
  by (simp add: checkHeader_def setHeader_def)

section \<open>The heap of headers and buffers\<close>

record omx_hdr =
  bhead :: omx_head
  pBuffer :: nat
  nAllocLen :: u32
  pAppPrivate :: nat
  pPlatformPrivate :: "nat option"
  nOutputPortIndex :: u32
  nInputPortIndex :: u32

text \<open>What \<open>calloc\<close> returns for a header.\<close>

definition zero_hdr :: omx_hdr where
  "zero_hdr = \<lparr>bhead = zero_head, pBuffer = 0, nAllocLen = 0, pAppPrivate = 0,
               pPlatformPrivate = None, nOutputPortIndex = 0, nInputPortIndex = 0\<rparr>"

datatype omx_obj = Header omx_hdr | Data u32

record omx_heap =
  hmem :: "nat \<Rightarrow> omx_obj option"
  hbrk :: nat
  hbudget :: nat

definition heap_ok :: "omx_heap \<Rightarrow> bool" where
  "heap_ok h = (hmem h 0 = None \<and> (\<forall>a > hbrk h. hmem h a = None))"

definition hcalloc :: "omx_obj \<Rightarrow> omx_heap \<Rightarrow> nat \<times> omx_heap" where
  "hcalloc v h =
     (if hbudget h = 0 then (0, h)
      else (Suc (hbrk h), h\<lparr>hmem := (hmem h)(Suc (hbrk h) \<mapsto> v), hbrk := Suc (hbrk h),
                           hbudget := hbudget h - 1\<rparr>))"

text \<open>\<open>free(NULL)\<close> does nothing; freeing what is not allocated is undefined.\<close>

definition hfree :: "nat \<Rightarrow> omx_heap \<Rightarrow> omx_heap option" where
  "hfree a h =
     (if a = 0 then Some h
      else if hmem h a = None then None
      else Some (h\<lparr>hmem := (hmem h)(a := None)\<rparr>))"

definition get_hdr :: "nat \<Rightarrow> omx_heap \<Rightarrow> omx_hdr option" where
  "get_hdr a h = (case hmem h a of Some (Header b) \<Rightarrow> Some b | _ \<Rightarrow> None)"

definition upd_hdr :: "nat \<Rightarrow> (omx_hdr \<Rightarrow> omx_hdr) \<Rightarrow> omx_heap \<Rightarrow> omx_heap option" where
  "upd_hdr a f h =
     (case get_hdr a h of
        None \<Rightarrow> None
      | Some b \<Rightarrow> Some (h\<lparr>hmem := (hmem h)(a \<mapsto> Header (f b))\<rparr>))"

section \<open>Ports\<close>

text \<open>
  The port definition. The format union is the twelve words of its largest member, the video format,
  as the 32 bit ABI lays it out (pointers, enumerations and booleans are words); the members of the
  four domains share them. The fields the base classes read are named below.
\<close>

record omx_portdef =
  phead :: omx_head
  nPortIndex :: u32
  eDir :: omx_dir
  nBufferCountActual :: u32
  nBufferCountMin :: u32
  nBufferSize :: u32
  bEnabled :: bool
  bPopulated :: bool
  eDomain :: omx_domain
  format_words :: "u32 list"
  bBuffersContiguous :: bool
  nBufferAlignment :: u32

text \<open>
  \<open>format.audio.eEncoding\<close>, \<open>format.video.eCompressionFormat\<close>, \<open>format.other.eFormat\<close>, and the value of
  \<open>OMX_AUDIO_CodingMax\<close>, \<open>OMX_VIDEO_CodingMax\<close> and \<open>OMX_OTHER_FormatMax\<close>.
\<close>

definition audio_eEncoding :: "omx_portdef \<Rightarrow> u32" where "audio_eEncoding d = format_words d ! 3"
definition video_eCompressionFormat :: "omx_portdef \<Rightarrow> u32" where
  "video_eCompressionFormat d = format_words d ! 9"
definition other_eFormat :: "omx_portdef \<Rightarrow> u32" where "other_eFormat d = format_words d ! 0"

abbreviation CodingMax :: u32 where "CodingMax \<equiv> 0x7FFFFFFF"

datatype omx_callback = EmptyBufferDone | FillBufferDone

record omx_port =
  hTunneledComponent :: nat
  nTunnelFlags :: u32
  nTunneledPort :: u32
  eBufferSupplier :: omx_supplier
  nNumTunnelBuffer :: u32
  pAllocSem :: "tsem_t option"
  bIsDestroying :: bool
  nNumBufferFlushed :: u32
  bIsPortFlushed :: bool
  pBufferQueue :: "nat list option"
  pBufferSem :: "tsem_t option"
  nNumAssignedBuffers :: u32
  sPortParam :: omx_portdef
  pInternalBufferStorage :: "nat list option"
  bBufferStateAllocated :: "u32 list option"
  bIsTransientToEnabled :: bool
  bIsTransientToDisabled :: bool
  bIsFullOfBuffers :: bool
  bIsEmptyOfBuffers :: bool
  BufferProcessedCallback :: "omx_callback option"

text \<open>The macros on ports.\<close>

definition PORT_IS_BEING_FLUSHED :: "omx_port \<Rightarrow> bool" where
  "PORT_IS_BEING_FLUSHED p = bIsPortFlushed p"
definition PORT_IS_BEING_DISABLED :: "omx_port \<Rightarrow> bool" where
  "PORT_IS_BEING_DISABLED p = bIsTransientToDisabled p"
definition PORT_IS_ENABLED :: "omx_port \<Rightarrow> bool" where
  "PORT_IS_ENABLED p = bEnabled (sPortParam p)"
definition PORT_IS_TUNNELED :: "omx_port \<Rightarrow> bool" where
  "PORT_IS_TUNNELED p = (nTunnelFlags p AND TUNNEL_ESTABLISHED \<noteq> 0)"
definition PORT_IS_DEEP_TUNNELED :: "omx_port \<Rightarrow> bool" where
  "PORT_IS_DEEP_TUNNELED p = (nTunnelFlags p AND PROPRIETARY_COMMUNICATION_ESTABLISHED \<noteq> 0)"
definition PORT_IS_BUFFER_SUPPLIER :: "omx_port \<Rightarrow> bool" where
  "PORT_IS_BUFFER_SUPPLIER p = (nTunnelFlags p AND TUNNEL_IS_SUPPLIER \<noteq> 0)"
definition PORT_IS_TUNNELED_N_BUFFER_SUPPLIER :: "omx_port \<Rightarrow> bool" where
  "PORT_IS_TUNNELED_N_BUFFER_SUPPLIER p =
     (nTunnelFlags p AND TUNNEL_ESTABLISHED \<noteq> 0 \<and> nTunnelFlags p AND TUNNEL_IS_SUPPLIER \<noteq> 0)"

lemma tunneled_supplier [simp]:
  "PORT_IS_TUNNELED_N_BUFFER_SUPPLIER p = (PORT_IS_TUNNELED p \<and> PORT_IS_BUFFER_SUPPLIER p)"
  by (simp add: PORT_IS_TUNNELED_N_BUFFER_SUPPLIER_def PORT_IS_TUNNELED_def PORT_IS_BUFFER_SUPPLIER_def)

section \<open>Components\<close>

record omx_message =
  messageType :: omx_command
  messageParam :: u32
  pCmdData :: "(nat \<times> nat) option"

datatype omx_event =
    EventCmdComplete omx_command u32
  | EventError omx_err u32
  | BufferDone omx_callback nat

record omx_domain_ports =
  nStartPortNumber :: u32
  nPorts :: u32

record 'p omx_comp =
  state :: omx_state
  transientState :: omx_trans
  callbacks :: bool
  messageQueue :: "omx_message list option"
  messageSem :: "tsem_t option"
  bMgmtSem :: "tsem_t option"
  bStateSem :: "tsem_t option"
  flush_all_condition :: "tsem_t option"
  flush_condition :: "tsem_t option"
  sPortTypesParam :: "omx_domain_ports list"
  ports :: "omx_port list"
  bufferMgmtThreadID :: int
  bIsEOSReached :: bool
  nGroupPriority :: u32
  nGroupID :: u32
  pMark :: "nat \<times> nat"
  currentQualityLevel :: int
  nqualitylevels :: u32
  name :: "string option"
  bellagioThreads :: "(u32 \<times> u32) option"
  heap :: omx_heap
  events :: "omx_event list"
  peer :: 'p

text \<open>The semaphores of a component, by name.\<close>

datatype omx_sem = SAlloc nat | SBuffer nat | SMgmt | SState | SFlushAll | SFlush | SMessage

text \<open>
  What a component calls outside itself. \<open>xWait\<close> is what the other threads (the client, the
  buffer management thread, the tunnelled component) do to the component while the calling
  thread sleeps on a semaphore that is 0; \<open>xPatience\<close> bounds how often a thread that waits for a
  condition is woken. The functions named \<open>x...\<close> after an OpenMAX call are the tunnelled
  component's: they take its handle and may change its state \<open>'p\<close> and the heap.
\<close>

record 'p omx_ext =
  xWait :: "omx_sem \<Rightarrow> 'p omx_comp \<Rightarrow> 'p omx_comp"
  xPatience :: nat
  xGetPortDefinition :: "nat \<Rightarrow> u32 \<Rightarrow> 'p \<Rightarrow> omx_err \<times> omx_portdef"
  xSetPortDefinition :: "nat \<Rightarrow> omx_portdef \<Rightarrow> 'p \<Rightarrow> omx_err \<times> 'p"
  xGetBufferSupplier :: "nat \<Rightarrow> u32 \<Rightarrow> 'p \<Rightarrow> omx_err \<times> omx_supplier"
  xSetBufferSupplier :: "nat \<Rightarrow> u32 \<Rightarrow> omx_supplier \<Rightarrow> 'p \<Rightarrow> omx_err \<times> 'p"
  xGetPropTunnelFlags :: "nat \<Rightarrow> u32 \<Rightarrow> 'p \<Rightarrow> omx_err"
  xUseBuffer :: "nat \<Rightarrow> u32 \<Rightarrow> u32 \<Rightarrow> nat \<Rightarrow> omx_heap \<Rightarrow> 'p \<Rightarrow> omx_err \<times> nat option \<times> omx_heap \<times> 'p"
  xFreeBuffer :: "nat \<Rightarrow> u32 \<Rightarrow> nat \<Rightarrow> omx_heap \<Rightarrow> 'p \<Rightarrow> omx_err \<times> omx_heap \<times> 'p"
  xEmptyThisBuffer :: "nat \<Rightarrow> nat \<Rightarrow> omx_heap \<Rightarrow> 'p \<Rightarrow> omx_err \<times> omx_heap \<times> 'p"
  xFillThisBuffer :: "nat \<Rightarrow> nat \<Rightarrow> omx_heap \<Rightarrow> 'p \<Rightarrow> omx_err \<times> omx_heap \<times> 'p"
  xRM_getResource :: "'p omx_comp \<Rightarrow> omx_err"
  xRM_waitForResource :: "'p omx_comp \<Rightarrow> omx_err"
  xPthreadCreate :: "'p omx_comp \<Rightarrow> int"

section \<open>Access to the state\<close>

definition get_port :: "nat \<Rightarrow> 'p omx_comp \<Rightarrow> omx_port option" where
  "get_port i s = (if i < length (ports s) then Some (ports s ! i) else None)"

definition upd_port :: "nat \<Rightarrow> (omx_port \<Rightarrow> omx_port) \<Rightarrow> 'p omx_comp \<Rightarrow> 'p omx_comp" where
  "upd_port i f s = s\<lparr>ports := (ports s)[i := f (ports s ! i)]\<rparr>"

definition upd_param :: "(omx_portdef \<Rightarrow> omx_portdef) \<Rightarrow> omx_port \<Rightarrow> omx_port" where
  "upd_param f p = p\<lparr>sPortParam := f (sPortParam p)\<rparr>"

definition emit :: "omx_event \<Rightarrow> 'p omx_comp \<Rightarrow> 'p omx_comp" where
  "emit e s = s\<lparr>events := events s @ [e]\<rparr>"

fun get_sem :: "omx_sem \<Rightarrow> 'p omx_comp \<Rightarrow> tsem_t option" where
  "get_sem (SAlloc i) s = Option.bind (get_port i s) pAllocSem"
| "get_sem (SBuffer i) s = Option.bind (get_port i s) pBufferSem"
| "get_sem SMgmt s = bMgmtSem s"
| "get_sem SState s = bStateSem s"
| "get_sem SFlushAll s = flush_all_condition s"
| "get_sem SFlush s = flush_condition s"
| "get_sem SMessage s = messageSem s"

fun put_sem :: "omx_sem \<Rightarrow> tsem_t \<Rightarrow> 'p omx_comp \<Rightarrow> 'p omx_comp" where
  "put_sem (SAlloc i) t s = upd_port i (\<lambda>p. p\<lparr>pAllocSem := Some t\<rparr>) s"
| "put_sem (SBuffer i) t s = upd_port i (\<lambda>p. p\<lparr>pBufferSem := Some t\<rparr>) s"
| "put_sem SMgmt t s = s\<lparr>bMgmtSem := Some t\<rparr>"
| "put_sem SState t s = s\<lparr>bStateSem := Some t\<rparr>"
| "put_sem SFlushAll t s = s\<lparr>flush_all_condition := Some t\<rparr>"
| "put_sem SFlush t s = s\<lparr>flush_condition := Some t\<rparr>"
| "put_sem SMessage t s = s\<lparr>messageSem := Some t\<rparr>"

definition up :: "omx_sem \<Rightarrow> 'p omx_comp \<Rightarrow> (unit, 'p omx_comp) outcome" where
  "up n s = ofail (get_sem n s) (\<lambda>t. Done () (put_sem n (tsem_up t) s))"

definition reset :: "omx_sem \<Rightarrow> 'p omx_comp \<Rightarrow> (unit, 'p omx_comp) outcome" where
  "reset n s = ofail (get_sem n s) (\<lambda>t. Done () (put_sem n (tsem_reset t) s))"

definition signal_sem :: "omx_sem \<Rightarrow> 'p omx_comp \<Rightarrow> (unit, 'p omx_comp) outcome" where
  "signal_sem n s = ofail (get_sem n s) (\<lambda>t. Done () (put_sem n (tsem_signal t) s))"

text \<open>
  \<open>tsem_down\<close>: when the counter is 0 the other threads run, and the caller stays blocked if they
  do not raise it.
\<close>

definition down :: "'p omx_ext \<Rightarrow> omx_sem \<Rightarrow> 'p omx_comp \<Rightarrow> (unit, 'p omx_comp) outcome" where
  "down x n s =
     ofail (get_sem n s) (\<lambda>t.
       let s' = (if semval t = 0 then xWait x n s else s) in
       ofail (get_sem n s') (\<lambda>t'.
         case tsem_down t' of
           Done _ t'' \<Rightarrow> Done () (put_sem n t'' s')
         | Blocked _ \<Rightarrow> Blocked s'
         | Fault \<Rightarrow> Fault))"

text \<open>
  The buffer queue of a port. Queueing \<open>NULL\<close> is outside the contract of the queue
  (\<open>queue_null_is_lost\<close> in OmxQueue) and counts as a fault; dequeueing from an empty queue
  returns \<open>NULL\<close>.
\<close>

definition enqueue :: "nat \<Rightarrow> nat \<Rightarrow> 'p omx_comp \<Rightarrow> (bool, 'p omx_comp) outcome" where
  "enqueue i a s =
     ofail (Option.bind (get_port i s) pBufferQueue) (\<lambda>q.
       if a = 0 then Fault
       else case fifo_step QCAP (Enqueue a) q of
              (Queued ok, q') \<Rightarrow> Done ok (upd_port i (\<lambda>p. p\<lparr>pBufferQueue := Some q'\<rparr>) s)
            | _ \<Rightarrow> Fault)"

definition dequeue_buffer :: "nat \<Rightarrow> 'p omx_comp \<Rightarrow> (nat, 'p omx_comp) outcome" where
  "dequeue_buffer i s =
     ofail (Option.bind (get_port i s) pBufferQueue) (\<lambda>q.
       case fifo_step QCAP (Dequeue :: nat qop) q of
         (Dequeued r, q') \<Rightarrow>
           Done (case r of None \<Rightarrow> 0 | Some a \<Rightarrow> a) (upd_port i (\<lambda>p. p\<lparr>pBufferQueue := Some q'\<rparr>) s)
       | _ \<Rightarrow> Fault)"

text \<open>The callbacks of the client, through a pointer that may be \<open>NULL\<close>.\<close>

definition event_handler :: "omx_event \<Rightarrow> 'p omx_comp \<Rightarrow> (unit, 'p omx_comp) outcome" where
  "event_handler e s = (if callbacks s then Done () (emit e s) else Fault)"

definition buffer_done :: "nat \<Rightarrow> nat \<Rightarrow> 'p omx_comp \<Rightarrow> (unit, 'p omx_comp) outcome" where
  "buffer_done i a s =
     ofail (Option.bind (get_port i s) BufferProcessedCallback) (\<lambda>c. Done () (emit (BufferDone c a) s))"

text \<open>A step on the heap that may be undefined.\<close>

definition on_heap :: "(omx_heap \<Rightarrow> omx_heap option) \<Rightarrow> 'p omx_comp \<Rightarrow> (unit, 'p omx_comp) outcome" where
  "on_heap f s = ofail (f (heap s)) (\<lambda>h. Done () (s\<lparr>heap := h\<rparr>))"

end
