(* ===== verification/OmxPort.thy ===== *)
theory OmxPort
  imports OmxTypes
begin

text \<open>
  The operations of a port of the OpenMAX core, \<open>libomxil-bellagio/src/base/omx_base_port.c\<close>:
  construction and destruction, allocation and release of buffers for the client and for a
  tunnel, flushing, enabling and disabling, accepting and returning buffers, and the set-up of a
  tunnel. Each acts on the component \<open>s\<close> that holds the port and names it by its index \<open>i\<close>.
\<close>

section \<open>Construction and destruction\<close>

text \<open>
  The new port structure is \<open>calloc\<close>ed by the constructor of the derived port, or here; a
  semaphore or queue that is already there is kept. \<open>ok\<close> says which of the allocations (port,
  \<open>pAllocSem\<close>, \<open>pBufferQueue\<close>, \<open>pBufferSem\<close>) succeed.
\<close>

definition zero_port :: omx_port where
  "zero_port =
     \<lparr>hTunneledComponent = 0, nTunnelFlags = 0, nTunneledPort = 0,
      eBufferSupplier = OMX_BufferSupplyUnspecified, nNumTunnelBuffer = 0, pAllocSem = None,
      bIsDestroying = False, nNumBufferFlushed = 0, bIsPortFlushed = False, pBufferQueue = None,
      pBufferSem = None, nNumAssignedBuffers = 0,
      sPortParam = \<lparr>phead = zero_head, nPortIndex = 0, eDir = OMX_DirInput, nBufferCountActual = 0,
        nBufferCountMin = 0, nBufferSize = 0, bEnabled = False, bPopulated = False,
        eDomain = OMX_PortDomainAudio, format_words = replicate 12 0,
        bBuffersContiguous = False, nBufferAlignment = 0\<rparr>,
      pInternalBufferStorage = None, bBufferStateAllocated = None,
      bIsTransientToEnabled = False, bIsTransientToDisabled = False, bIsFullOfBuffers = False,
      bIsEmptyOfBuffers = False, BufferProcessedCallback = None\<rparr>"

definition construct_param :: "u32 \<Rightarrow> bool \<Rightarrow> omx_portdef \<Rightarrow> omx_portdef" where
  "construct_param index isInput d =
     d\<lparr>phead := setHeader sizeof_PORTDEFINITIONTYPE, nPortIndex := index,
       nBufferCountActual := DEFAULT_NUMBER_BUFFERS_PER_PORT,
       nBufferCountMin := DEFAULT_MIN_NUMBER_BUFFERS_PER_PORT,
       bEnabled := True, bPopulated := False,
       eDir := (if isInput then OMX_DirInput else OMX_DirOutput)\<rparr>"

definition base_port_Constructor ::
    "bool \<times> bool \<times> bool \<times> bool \<Rightarrow> omx_port option \<Rightarrow> u32 \<Rightarrow> bool \<Rightarrow> omx_err \<times> omx_port option" where
  "base_port_Constructor ok port index isInput =
     (case ok of (ok_port, ok_alloc, ok_queue, ok_sem) \<Rightarrow>
      case (if port = None \<and> ok_port then Some zero_port else port) of
        None \<Rightarrow> (OMX_ErrorInsufficientResources, None)
      | Some p \<Rightarrow>
          let p = p\<lparr>hTunneledComponent := 0, nTunnelFlags := 0, nTunneledPort := 0,
                    eBufferSupplier := OMX_BufferSupplyUnspecified, nNumTunnelBuffer := 0\<rparr> in
          if pAllocSem p = None \<and> \<not> ok_alloc then (OMX_ErrorInsufficientResources, Some p)
          else
          let p = (if pAllocSem p = None then p\<lparr>pAllocSem := Some \<lparr>semval = 0\<rparr>\<rparr> else p);
              p = p\<lparr>nNumBufferFlushed := 0, bIsPortFlushed := False\<rparr> in
          if pBufferQueue p = None \<and> \<not> ok_queue then (OMX_ErrorInsufficientResources, Some p)
          else
          let p = (if pBufferQueue p = None then p\<lparr>pBufferQueue := Some []\<rparr> else p) in
          if pBufferSem p = None \<and> \<not> ok_sem then (OMX_ErrorInsufficientResources, Some p)
          else
          let p = (if pBufferSem p = None then p\<lparr>pBufferSem := Some \<lparr>semval = 0\<rparr>\<rparr> else p) in
          (OMX_ErrorNone,
           Some (p\<lparr>nNumAssignedBuffers := 0,
                   sPortParam := construct_param index isInput (sPortParam p),
                   bIsTransientToEnabled := False, bIsTransientToDisabled := False,
                   bIsFullOfBuffers := False, bIsEmptyOfBuffers := False,
                   bBufferStateAllocated := None, pInternalBufferStorage := None,
                   bIsDestroying := False\<rparr>)))"

text \<open>
  What the destructor has released when it frees the port structure: what is still attached to
  the result is lost.
\<close>

definition base_port_Destructor :: "omx_port \<Rightarrow> omx_err \<times> omx_port" where
  "base_port_Destructor p =
     (let p = (if pAllocSem p \<noteq> None then p\<lparr>bIsDestroying := True, pAllocSem := None\<rparr> else p);
          p = (if pBufferQueue p \<noteq> None then p\<lparr>pBufferQueue := None\<rparr> else p);
          p = (if pBufferSem p \<noteq> None then p\<lparr>pBufferSem := None\<rparr> else p)
      in (OMX_ErrorNone, p))"

section \<open>The buffers of a port\<close>

text \<open>
  The search for a slot of \<open>bBufferStateAllocated\<close>: the index of the first of \<open>n\<close> slots that
  has the property, none, or a read past the end of the array.
\<close>

fun scan_slots :: "(u32 \<Rightarrow> bool) \<Rightarrow> nat \<Rightarrow> u32 list \<Rightarrow> nat option option" where
  "scan_slots P 0 fs = Some None"
| "scan_slots P (Suc n) [] = None"
| "scan_slots P (Suc n) (f # fs) =
     (if P f then Some (Some 0) else map_option (map_option Suc) (scan_slots P n fs))"

definition slots :: "omx_port \<Rightarrow> u32 list" where
  "slots p = (case bBufferStateAllocated p of None \<Rightarrow> [] | Some fs \<Rightarrow> fs)"

definition find_slot :: "(u32 \<Rightarrow> bool) \<Rightarrow> omx_port \<Rightarrow> nat option option" where
  "find_slot P p = scan_slots P (unat (nBufferCountActual (sPortParam p))) (slots p)"

definition storage :: "omx_port \<Rightarrow> nat list" where
  "storage p = (case pInternalBufferStorage p of None \<Rightarrow> [] | Some st \<Rightarrow> st)"

definition set_slot :: "nat \<Rightarrow> nat \<Rightarrow> nat \<Rightarrow> 'p omx_comp \<Rightarrow> (unit, 'p omx_comp) outcome" where
  "set_slot i k a s =
     ofail (get_port i s) (\<lambda>p.
       if k < length (storage p)
       then Done () (upd_port i (\<lambda>p. p\<lparr>pInternalBufferStorage := Some ((storage p)[k := a])\<rparr>) s)
       else Fault)"

definition set_flag :: "nat \<Rightarrow> nat \<Rightarrow> u32 \<Rightarrow> 'p omx_comp \<Rightarrow> (unit, 'p omx_comp) outcome" where
  "set_flag i k f s =
     ofail (get_port i s) (\<lambda>p.
       if k < length (slots p)
       then Done () (upd_port i (\<lambda>p. p\<lparr>bBufferStateAllocated := Some ((slots p)[k := f])\<rparr>) s)
       else Fault)"

text \<open>The port index is entered for the direction of the port.\<close>

definition stamp :: "omx_port \<Rightarrow> omx_hdr \<Rightarrow> omx_hdr" where
  "stamp p b =
     (if eDir (sPortParam p) = OMX_DirInput
      then b\<lparr>nInputPortIndex := nPortIndex (sPortParam p)\<rparr>
      else b\<lparr>nOutputPortIndex := nPortIndex (sPortParam p)\<rparr>)"

text \<open>One buffer more is counted, and the port is full when it was the last; the result says so.\<close>

definition count_buffer :: "nat \<Rightarrow> 'p omx_comp \<Rightarrow> (bool, 'p omx_comp) outcome" where
  "count_buffer i s =
     ofail (get_port i s) (\<lambda>p.
       let p = p\<lparr>nNumAssignedBuffers := nNumAssignedBuffers p + 1\<rparr>;
           full = (nBufferCountActual (sPortParam p) = nNumAssignedBuffers p);
           p = (if full then (upd_param (\<lambda>d. d\<lparr>bPopulated := True\<rparr>) p)\<lparr>bIsFullOfBuffers := True\<rparr> else p)
       in Done full (upd_port i (\<lambda>_. p) s))"

text \<open>The guards \<open>AllocateBuffer\<close> and \<open>UseBuffer\<close> begin with.\<close>

definition buffer_guard :: "nat \<Rightarrow> u32 \<Rightarrow> u32 \<Rightarrow> 'p omx_comp \<Rightarrow> omx_err" where
  "buffer_guard i index nSizeBytes s =
     (let p = ports s ! i in
      if index \<noteq> nPortIndex (sPortParam p) then OMX_ErrorBadPortIndex
      else if PORT_IS_TUNNELED_N_BUFFER_SUPPLIER p then OMX_ErrorBadPortIndex
      else if transientState s \<noteq> OMX_TransStateLoadedToIdle \<and> \<not> bIsTransientToEnabled p
           then OMX_ErrorIncorrectStateTransition
      else if nSizeBytes < nBufferSize (sPortParam p) then OMX_ErrorIncorrectStateTransition
      else OMX_ErrorNone)"

definition alloc_slot ::
    "nat \<Rightarrow> nat \<Rightarrow> nat \<Rightarrow> u32 \<Rightarrow> 'p omx_comp \<Rightarrow> (omx_err \<times> nat option, 'p omx_comp) outcome" where
  "alloc_slot i k app nSizeBytes s =
     (case hcalloc (Header zero_hdr) (heap s) of (a, h) \<Rightarrow>
      obind (set_slot i k a (s\<lparr>heap := h\<rparr>)) (\<lambda>_ s.
      if a = 0 then Done (OMX_ErrorInsufficientResources, None) s
      else
      obind (on_heap (upd_hdr a (\<lambda>b. b\<lparr>bhead := setHeader sizeof_BUFFERHEADERTYPE\<rparr>)) s) (\<lambda>_ s.
      case hcalloc (Data nSizeBytes) (heap s) of (d, h) \<Rightarrow>
      obind (on_heap (upd_hdr a (\<lambda>b. b\<lparr>pBuffer := d\<rparr>)) (s\<lparr>heap := h\<rparr>)) (\<lambda>_ s.
      if d = 0 then Done (OMX_ErrorInsufficientResources, None) s
      else
      obind (on_heap (upd_hdr a (\<lambda>b. b\<lparr>nAllocLen := nSizeBytes, pPlatformPrivate := Some i,
                                        pAppPrivate := app\<rparr>)) s) (\<lambda>_ s.
      obind (set_flag i k (BUFFER_ALLOCATED OR HEADER_ALLOCATED) s) (\<lambda>_ s.
      obind (on_heap (upd_hdr a (stamp (ports s ! i))) s) (\<lambda>_ s.
      obind (count_buffer i s) (\<lambda>full s.
      obind (if full then up (SAlloc i) s else Done () s) (\<lambda>_ s.
      Done (OMX_ErrorNone, Some a) s)))))))))"

definition base_port_AllocateBuffer ::
    "nat \<Rightarrow> u32 \<Rightarrow> nat \<Rightarrow> u32 \<Rightarrow> 'p omx_comp \<Rightarrow> (omx_err \<times> nat option, 'p omx_comp) outcome" where
  "base_port_AllocateBuffer i index app nSizeBytes s =
     ofail (get_port i s) (\<lambda>p.
       if buffer_guard i index nSizeBytes s \<noteq> OMX_ErrorNone
       then Done (buffer_guard i index nSizeBytes s, None) s
       else ofail (find_slot (\<lambda>f. f = BUFFER_FREE) p) (\<lambda>r.
              case r of
                None \<Rightarrow> Done (OMX_ErrorInsufficientResources, None) s
              | Some k \<Rightarrow> alloc_slot i k app nSizeBytes s))"

text \<open>\<open>UseBuffer\<close> keeps one header for itself and makes a second one for the caller.\<close>

definition use_hdr :: "nat \<Rightarrow> nat \<Rightarrow> u32 \<Rightarrow> nat \<Rightarrow> omx_hdr \<Rightarrow> omx_hdr" where
  "use_hdr i app nSizeBytes pBuf b =
     b\<lparr>bhead := setHeader sizeof_BUFFERHEADERTYPE, pBuffer := pBuf, nAllocLen := nSizeBytes,
       pPlatformPrivate := Some i, pAppPrivate := app\<rparr>"

definition use_slot ::
    "nat \<Rightarrow> nat \<Rightarrow> nat \<Rightarrow> u32 \<Rightarrow> nat \<Rightarrow> 'p omx_comp \<Rightarrow> (omx_err \<times> nat option, 'p omx_comp) outcome" where
  "use_slot i k app nSizeBytes pBuf s =
     (case hcalloc (Header zero_hdr) (heap s) of (a, h) \<Rightarrow>
      obind (set_slot i k a (s\<lparr>heap := h\<rparr>)) (\<lambda>_ s.
      if a = 0 then Done (OMX_ErrorInsufficientResources, None) s
      else
      obind (on_heap (upd_hdr a (use_hdr i app nSizeBytes pBuf))
               (upd_port i (\<lambda>p. p\<lparr>bIsEmptyOfBuffers := False\<rparr>) s)) (\<lambda>_ s.
      obind (set_flag i k (BUFFER_ASSIGNED OR HEADER_ALLOCATED) s) (\<lambda>_ s.
      case hcalloc (Header zero_hdr) (heap s) of (r, h) \<Rightarrow>
      if r = 0 then Done (OMX_ErrorInsufficientResources, None) (s\<lparr>heap := h\<rparr>)
      else
      obind (on_heap (upd_hdr r (use_hdr i app nSizeBytes pBuf)) (s\<lparr>heap := h\<rparr>)) (\<lambda>_ s.
      obind (on_heap (upd_hdr a (stamp (ports s ! i))) s) (\<lambda>_ s.
      obind (on_heap (upd_hdr r (stamp (ports s ! i))) s) (\<lambda>_ s.
      obind (count_buffer i s) (\<lambda>full s.
      obind (if full then up (SAlloc i) s else Done () s) (\<lambda>_ s.
      Done (OMX_ErrorNone, Some r) s)))))))))"

definition base_port_UseBuffer ::
    "nat \<Rightarrow> u32 \<Rightarrow> nat \<Rightarrow> u32 \<Rightarrow> nat \<Rightarrow> 'p omx_comp \<Rightarrow> (omx_err \<times> nat option, 'p omx_comp) outcome" where
  "base_port_UseBuffer i index app nSizeBytes pBuf s =
     ofail (get_port i s) (\<lambda>p.
       if buffer_guard i index nSizeBytes s \<noteq> OMX_ErrorNone
       then Done (buffer_guard i index nSizeBytes s, None) s
       else ofail (find_slot (\<lambda>f. f = BUFFER_FREE) p) (\<lambda>r.
              case r of
                None \<Rightarrow> Done (OMX_ErrorInsufficientResources, None) s
              | Some k \<Rightarrow> use_slot i k app nSizeBytes pBuf s))"

definition in_use :: "u32 \<Rightarrow> bool" where
  "in_use f = (f AND (BUFFER_ASSIGNED OR BUFFER_ALLOCATED) \<noteq> 0)"

text \<open>Freeing the buffer a header points to and clearing the pointer.\<close>

definition free_data :: "nat \<Rightarrow> omx_heap \<Rightarrow> omx_heap option" where
  "free_data a h =
     Option.bind (get_hdr a h) (\<lambda>b.
       if pBuffer b = 0 then Some h
       else Option.bind (hfree (pBuffer b) h) (upd_hdr a (\<lambda>b. b\<lparr>pBuffer := 0\<rparr>)))"

text \<open>One buffer less is counted; the result says that it was the last.\<close>

definition uncount_buffer :: "nat \<Rightarrow> 'p omx_comp \<Rightarrow> (bool, 'p omx_comp) outcome" where
  "uncount_buffer i s =
     ofail (get_port i s) (\<lambda>p.
       let p = p\<lparr>nNumAssignedBuffers := nNumAssignedBuffers p - 1\<rparr>;
           empty = (nNumAssignedBuffers p = 0);
           p = (if empty then (upd_param (\<lambda>d. d\<lparr>bPopulated := False\<rparr>) p)\<lparr>bIsEmptyOfBuffers := True\<rparr> else p)
       in Done empty (upd_port i (\<lambda>_. p) s))"

definition free_slot :: "nat \<Rightarrow> nat \<Rightarrow> nat \<Rightarrow> 'p omx_comp \<Rightarrow> (omx_err, 'p omx_comp) outcome" where
  "free_slot i k pBuf s =
     (let s = upd_port i (\<lambda>p. p\<lparr>bIsFullOfBuffers := False\<rparr>) s;
          f = slots (ports s ! i) ! k in
      if k \<ge> length (storage (ports s ! i)) then Fault
      else
      let a = storage (ports s ! i) ! k in
      obind (if f AND BUFFER_ALLOCATED \<noteq> 0 then on_heap (free_data a) s
             else if f AND BUFFER_ASSIGNED \<noteq> 0 then on_heap (hfree pBuf) s
             else Done () s) (\<lambda>_ s.
      obind (if f AND HEADER_ALLOCATED \<noteq> 0
             then obind (on_heap (hfree a) s) (\<lambda>_ s. set_slot i k 0 s)
             else Done () s) (\<lambda>_ s.
      obind (set_flag i k BUFFER_FREE s) (\<lambda>_ s.
      obind (uncount_buffer i s) (\<lambda>empty s.
      obind (if empty then up (SAlloc i) s else Done () s) (\<lambda>_ s.
      Done OMX_ErrorNone s))))))"

text \<open>A client that frees at the wrong time is told, and the buffer is freed all the same.\<close>

definition free_guard :: "nat \<Rightarrow> u32 \<Rightarrow> 'p omx_comp \<Rightarrow> (unit, 'p omx_comp) outcome" where
  "free_guard i index s =
     (if transientState s \<noteq> OMX_TransStateIdleToLoaded \<and> \<not> bIsTransientToDisabled (ports s ! i)
      then event_handler (EventError OMX_ErrorPortUnpopulated index) s
      else Done () s)"

definition base_port_FreeBuffer ::
    "nat \<Rightarrow> u32 \<Rightarrow> nat \<Rightarrow> 'p omx_comp \<Rightarrow> (omx_err, 'p omx_comp) outcome" where
  "base_port_FreeBuffer i index pBuf s =
     ofail (get_port i s) (\<lambda>p.
       if index \<noteq> nPortIndex (sPortParam p) then Done OMX_ErrorBadPortIndex s
       else if PORT_IS_TUNNELED_N_BUFFER_SUPPLIER p then Done OMX_ErrorBadPortIndex s
       else obind (free_guard i index s) (\<lambda>_ s.
         ofail (find_slot in_use p) (\<lambda>r.
           case r of
             None \<Rightarrow> Done OMX_ErrorInsufficientResources s
           | Some k \<Rightarrow> free_slot i k pBuf s)))"

section \<open>Buffers of a tunnel\<close>

text \<open>
  A supplier asks the tunnelled component to use a buffer, up to 20 times as long as the answer
  is that the component is not in the right state. \<open>numRetry\<close> counts over all the buffers of one
  call. The result holds the last error and what the call stored for the header.
\<close>

function use_buffer_retry ::
    "'p omx_ext \<Rightarrow> omx_port \<Rightarrow> u32 \<Rightarrow> nat \<Rightarrow> nat \<Rightarrow> omx_err \<Rightarrow> nat \<Rightarrow> omx_heap \<Rightarrow> 'p \<Rightarrow>
      omx_err \<times> nat \<times> nat \<times> omx_heap \<times> 'p" where
  "use_buffer_retry x p nBufSize pBuf numRetry eError a h q =
     (if numRetry < TUNNEL_USE_BUFFER_RETRY then
        (case xUseBuffer x (hTunneledComponent p) (nTunneledPort p) nBufSize pBuf h q of
           (e, r, h, q) \<Rightarrow>
             let a = (case r of None \<Rightarrow> a | Some b \<Rightarrow> b) in
             if e \<noteq> OMX_ErrorNone then
               if e = OMX_ErrorIncorrectStateTransition \<and> numRetry < TUNNEL_USE_BUFFER_RETRY
               then use_buffer_retry x p nBufSize pBuf (numRetry + 1) e a h q
               else (e, numRetry, a, h, q)
             else (e, numRetry, a, h, q))
      else (eError, numRetry, a, h, q))"
  by pat_completeness auto

termination use_buffer_retry
  by (relation "measure (\<lambda>(x, p, n, d, numRetry, e, a, h, q). TUNNEL_USE_BUFFER_RETRY - numRetry)") auto

declare use_buffer_retry.simps [simp del]

text \<open>The header the tunnelled component made gets the port indices of both ends.\<close>

definition stamp_both :: "omx_port \<Rightarrow> omx_hdr \<Rightarrow> omx_hdr" where
  "stamp_both p b =
     (if eDir (sPortParam p) = OMX_DirInput
      then b\<lparr>nInputPortIndex := nPortIndex (sPortParam p), nOutputPortIndex := nTunneledPort p\<rparr>
      else b\<lparr>nInputPortIndex := nTunneledPort p, nOutputPortIndex := nPortIndex (sPortParam p)\<rparr>)"

text \<open>One free slot: the buffer, the header, the bookkeeping, the queue.\<close>

definition tunnel_slot ::
    "'p omx_ext \<Rightarrow> nat \<Rightarrow> nat \<Rightarrow> u32 \<Rightarrow> nat \<Rightarrow> omx_err \<Rightarrow> 'p omx_comp \<Rightarrow>
      (omx_err \<times> nat, 'p omx_comp) outcome" where
  "tunnel_slot x i k nBufSize numRetry eError s =
     (case hcalloc (Data nBufSize) (heap s) of (d, h) \<Rightarrow>
      if d = 0 then Done (OMX_ErrorInsufficientResources, numRetry) (s\<lparr>heap := h\<rparr>)
      else if k \<ge> length (storage (ports s ! i)) then Fault
      else case use_buffer_retry x (ports s ! i) nBufSize d numRetry eError
                  (storage (ports s ! i) ! k) h (peer s) of (e, n, a, h, q) \<Rightarrow>
      obind (set_slot i k a (s\<lparr>heap := h, peer := q\<rparr>)) (\<lambda>_ s.
      if e \<noteq> OMX_ErrorNone
      then obind (on_heap (hfree d) s) (\<lambda>_ s. Done (e, n) s)
      else
      obind (if numRetry < TUNNEL_USE_BUFFER_RETRY
             then on_heap (upd_hdr a (stamp_both (ports s ! i))) s else Done () s) (\<lambda>_ s.
      obind (set_flag i k BUFFER_ALLOCATED s) (\<lambda>_ s.
      obind (count_buffer i s) (\<lambda>_ s.
      obind (enqueue i a s) (\<lambda>ok s.
      Done (if ok then e else OMX_ErrorInsufficientResources, n) s))))))"

text \<open>
  The loop over the slots from \<open>k\<close> on, \<open>n\<close> of them: it stops at the first error, at a read past
  the end of the flags, and passes over slots that are not free.
\<close>

fun tunnel_slots ::
    "'p omx_ext \<Rightarrow> nat \<Rightarrow> u32 \<Rightarrow> nat \<Rightarrow> nat \<Rightarrow> nat \<Rightarrow> omx_err \<Rightarrow> 'p omx_comp \<Rightarrow>
      (omx_err, 'p omx_comp) outcome" where
  "tunnel_slots x i nBufSize 0 k numRetry eError s = Done OMX_ErrorNone s"
| "tunnel_slots x i nBufSize (Suc n) k numRetry eError s =
     (if k \<ge> length (slots (ports s ! i)) then Fault
      else if slots (ports s ! i) ! k \<noteq> BUFFER_FREE
      then tunnel_slots x i nBufSize n (k + 1) numRetry eError s
      else obind (tunnel_slot x i k nBufSize numRetry eError s) (\<lambda>(e, numRetry) s.
             if e \<noteq> OMX_ErrorNone then Done e s
             else tunnel_slots x i nBufSize n (k + 1) numRetry e s))"

text \<open>
  The larger buffer count of the two ports becomes that of both; the result is an error, or the
  size for the buffers.
\<close>

definition negotiate_buffers ::
    "'p omx_ext \<Rightarrow> nat \<Rightarrow> 'p omx_comp \<Rightarrow> (omx_err + u32) \<times> 'p omx_comp" where
  "negotiate_buffers x i s =
     (let p = ports s ! i in
      case xGetPortDefinition x (hTunneledComponent p) (nTunneledPort p) (peer s) of (err, def) \<Rightarrow>
      if err \<noteq> OMX_ErrorNone then (Inl OMX_ErrorPortsNotCompatible, s)
      else
      let sz = (if nBufferSize def > nBufferSize (sPortParam p) then nBufferSize def
                else nBufferSize (sPortParam p));
          mine = nBufferCountActual (sPortParam p) in
      if mine < nBufferCountActual def
      then (Inr sz, upd_port i (upd_param (\<lambda>d. d\<lparr>nBufferCountActual := nBufferCountActual def\<rparr>)) s)
      else if nBufferCountActual def < mine
      then (case xSetPortDefinition x (hTunneledComponent p) (def\<lparr>nBufferCountActual := mine\<rparr>) (peer s) of
              (err, q) \<Rightarrow> if err \<noteq> OMX_ErrorNone then (Inl OMX_ErrorPortsNotCompatible, s\<lparr>peer := q\<rparr>)
                         else (Inr sz, s\<lparr>peer := q\<rparr>))
      else (Inr sz, s))"

definition base_port_AllocateTunnelBuffer ::
    "'p omx_ext \<Rightarrow> nat \<Rightarrow> u32 \<Rightarrow> 'p omx_comp \<Rightarrow> (omx_err, 'p omx_comp) outcome" where
  "base_port_AllocateTunnelBuffer x i index s =
     ofail (get_port i s) (\<lambda>p.
       if index \<noteq> nPortIndex (sPortParam p) then Done OMX_ErrorBadPortIndex s
       else if \<not> PORT_IS_TUNNELED_N_BUFFER_SUPPLIER p then Done OMX_ErrorBadPortIndex s
       else if transientState s \<noteq> OMX_TransStateLoadedToIdle \<and> \<not> bIsTransientToEnabled p
       then Done OMX_ErrorIncorrectStateTransition s
       else case negotiate_buffers x i s of
         (Inl e, s) \<Rightarrow> Done e s
       | (Inr sz, s) \<Rightarrow>
           let n = nBufferCountActual (sPortParam (ports s ! i)) in
           if n = 0
           then Done OMX_ErrorNone
                  (upd_port i (\<lambda>p. (upd_param (\<lambda>d. d\<lparr>bPopulated := True\<rparr>) p)\<lparr>bIsFullOfBuffers := True\<rparr>) s)
           else tunnel_slots x i sz (unat n) 0 0 OMX_ErrorNone s)"

text \<open>Asking the tunnelled component to free a header, under the same retry count.\<close>

function free_buffer_retry ::
    "'p omx_ext \<Rightarrow> omx_port \<Rightarrow> nat \<Rightarrow> nat \<Rightarrow> omx_err \<Rightarrow> omx_heap \<Rightarrow> 'p \<Rightarrow>
      bool \<times> omx_err \<times> nat \<times> omx_heap \<times> 'p" where
  "free_buffer_retry x p a numRetry eError h q =
     (if numRetry < TUNNEL_USE_BUFFER_RETRY then
        (case xFreeBuffer x (hTunneledComponent p) (nTunneledPort p) a h q of
           (e, h, q) \<Rightarrow>
             if e \<noteq> OMX_ErrorNone then
               if e = OMX_ErrorIncorrectStateTransition \<and> numRetry < TUNNEL_USE_BUFFER_RETRY
               then free_buffer_retry x p a (numRetry + 1) e h q
               else (True, e, numRetry, h, q)
             else (False, e, numRetry, h, q))
      else (False, eError, numRetry, h, q))"
  by pat_completeness auto

termination free_buffer_retry
  by (relation "measure (\<lambda>(x, p, a, numRetry, e, h, q). TUNNEL_USE_BUFFER_RETRY - numRetry)") auto

declare free_buffer_retry.simps [simp del]

definition untunnel_slot ::
    "'p omx_ext \<Rightarrow> nat \<Rightarrow> nat \<Rightarrow> nat \<Rightarrow> omx_err \<Rightarrow> 'p omx_comp \<Rightarrow>
      (bool \<times> omx_err \<times> nat, 'p omx_comp) outcome" where
  "untunnel_slot x i k numRetry eError s =
     (let s = upd_port i (\<lambda>p. p\<lparr>bIsFullOfBuffers := False\<rparr>) s;
          f = slots (ports s ! i) ! k in
      if k \<ge> length (storage (ports s ! i)) then Fault
      else
      let a = storage (ports s ! i) ! k in
      obind (if f AND BUFFER_ALLOCATED \<noteq> 0
             then on_heap (\<lambda>h. Option.bind (get_hdr a h) (\<lambda>b.
                    Option.bind (hfree (pBuffer b) h) (upd_hdr a (\<lambda>b. b\<lparr>pBuffer := 0\<rparr>)))) s
             else Done () s) (\<lambda>_ s.
      case free_buffer_retry x (ports s ! i) a numRetry eError (heap s) (peer s) of (stop, e, n, h, q) \<Rightarrow>
      let s = s\<lparr>heap := h, peer := q\<rparr> in
      if stop then Done (True, e, n) s
      else obind (set_flag i k BUFFER_FREE s) (\<lambda>_ s.
           obind (uncount_buffer i s) (\<lambda>_ s. Done (False, e, n) s))))"

fun untunnel_slots ::
    "'p omx_ext \<Rightarrow> nat \<Rightarrow> nat \<Rightarrow> nat \<Rightarrow> nat \<Rightarrow> omx_err \<Rightarrow> 'p omx_comp \<Rightarrow>
      (omx_err, 'p omx_comp) outcome" where
  "untunnel_slots x i 0 k numRetry eError s = Done OMX_ErrorNone s"
| "untunnel_slots x i (Suc n) k numRetry eError s =
     (if k \<ge> length (slots (ports s ! i)) then Fault
      else if \<not> in_use (slots (ports s ! i) ! k)
      then untunnel_slots x i n (k + 1) numRetry eError s
      else obind (untunnel_slot x i k numRetry eError s) (\<lambda>(stop, e, numRetry) s.
             if stop then Done e s else untunnel_slots x i n (k + 1) numRetry e s))"

definition base_port_FreeTunnelBuffer ::
    "'p omx_ext \<Rightarrow> nat \<Rightarrow> u32 \<Rightarrow> 'p omx_comp \<Rightarrow> (omx_err, 'p omx_comp) outcome" where
  "base_port_FreeTunnelBuffer x i index s =
     ofail (get_port i s) (\<lambda>p.
       if index \<noteq> nPortIndex (sPortParam p) then Done OMX_ErrorBadPortIndex s
       else if \<not> PORT_IS_TUNNELED_N_BUFFER_SUPPLIER p then Done OMX_ErrorBadPortIndex s
       else obind (free_guard i index s) (\<lambda>_ s.
         untunnel_slots x i (unat (nBufferCountActual (sPortParam p))) 0 0 OMX_ErrorNone s))"

section \<open>Flushing\<close>

text \<open>Handing a buffer to the tunnelled component, whose answer the caller may look at.\<close>

definition peer_fill :: "'p omx_ext \<Rightarrow> nat \<Rightarrow> nat \<Rightarrow> 'p omx_comp \<Rightarrow> omx_err \<times> 'p omx_comp" where
  "peer_fill x i a s =
     (case xFillThisBuffer x (hTunneledComponent (ports s ! i)) a (heap s) (peer s) of
        (e, h, q) \<Rightarrow> (e, s\<lparr>heap := h, peer := q\<rparr>))"

definition peer_empty :: "'p omx_ext \<Rightarrow> nat \<Rightarrow> nat \<Rightarrow> 'p omx_comp \<Rightarrow> omx_err \<times> 'p omx_comp" where
  "peer_empty x i a s =
     (case xEmptyThisBuffer x (hTunneledComponent (ports s ! i)) a (heap s) (peer s) of
        (e, h, q) \<Rightarrow> (e, s\<lparr>heap := h, peer := q\<rparr>))"

definition peer_take :: "'p omx_ext \<Rightarrow> nat \<Rightarrow> nat \<Rightarrow> 'p omx_comp \<Rightarrow> omx_err \<times> 'p omx_comp" where
  "peer_take x i a s =
     (if eDir (sPortParam (ports s ! i)) = OMX_DirInput then peer_fill x i a s else peer_empty x i a s)"

text \<open>
  The wait for the buffer management thread to let go of the buffers under processing. The ports
  of the clock are left out of it.
\<close>

definition flush_request :: "'p omx_ext \<Rightarrow> nat \<Rightarrow> 'p omx_comp \<Rightarrow> (unit, 'p omx_comp) outcome" where
  "flush_request x i s =
     (if eDomain (sPortParam (ports s ! i)) = OMX_PortDomainOther then Done () s
      else
      let s = upd_port i (\<lambda>p. p\<lparr>bIsPortFlushed := True\<rparr>) s in
      ofail (get_sem SMgmt s) (\<lambda>t.
      obind (if semval t = 0 then up SMgmt s else Done () s) (\<lambda>_ s.
      obind (if state s \<noteq> OMX_StateExecuting then signal_sem SState s else Done () s) (\<lambda>_ s.
      down x SFlushAll s))))"

text \<open>
  One queued buffer: back to the tunnelled component that owns it, back into the queue when the
  port owns it, or back to the client. The result is the error code.
\<close>

definition flush_one :: "'p omx_ext \<Rightarrow> nat \<Rightarrow> 'p omx_comp \<Rightarrow> (omx_err, 'p omx_comp) outcome" where
  "flush_one x i s =
     obind (down x (SBuffer i) s) (\<lambda>_ s.
     obind (dequeue_buffer i s) (\<lambda>a s.
     let p = ports s ! i in
     if PORT_IS_TUNNELED p \<and> \<not> PORT_IS_BUFFER_SUPPLIER p
     then (case peer_take x i a s of (e, s) \<Rightarrow> Done OMX_ErrorNone s)
     else if PORT_IS_TUNNELED_N_BUFFER_SUPPLIER p
     then obind (enqueue i a s) (\<lambda>ok s.
            Done (if ok then OMX_ErrorNone else OMX_ErrorInsufficientResources) s)
     else obind (buffer_done i a s) (\<lambda>_ s. Done OMX_ErrorNone s)))"

text \<open>
  The loop runs while the semaphore is not 0; each turn takes it down once, so that its value
  before the loop is the number of turns.
\<close>

fun flush_loop :: "'p omx_ext \<Rightarrow> nat \<Rightarrow> nat \<Rightarrow> 'p omx_comp \<Rightarrow> (omx_err, 'p omx_comp) outcome" where
  "flush_loop x i 0 s = Done OMX_ErrorNone s"
| "flush_loop x i (Suc n) s =
     obind (flush_one x i s) (\<lambda>e s.
       if e \<noteq> OMX_ErrorNone then Done e s else flush_loop x i n s)"

text \<open>
  A supplier waits until all its buffers are back in its queue; \<open>Blocked\<close> when they are not after
  the wake-ups the environment grants.
\<close>

fun await_buffers :: "'p omx_ext \<Rightarrow> nat \<Rightarrow> nat \<Rightarrow> 'p omx_comp \<Rightarrow> (unit, 'p omx_comp) outcome" where
  "await_buffers x i n s =
     ofail (get_port i s) (\<lambda>p.
     ofail (pBufferQueue p) (\<lambda>q.
       if (of_nat (length q) :: u32) = nNumAssignedBuffers p then Done () s
       else case n of
         0 \<Rightarrow> Blocked s
       | Suc n \<Rightarrow> obind (down x (SBuffer i) s) (\<lambda>_ s. await_buffers x i n s)))"

declare await_buffers.simps [simp del]

definition base_port_FlushProcessingBuffers ::
    "'p omx_ext \<Rightarrow> nat \<Rightarrow> 'p omx_comp \<Rightarrow> (omx_err, 'p omx_comp) outcome" where
  "base_port_FlushProcessingBuffers x i s =
     ofail (get_port i s) (\<lambda>_.
     obind (flush_request x i s) (\<lambda>_ s.
     obind (reset SMgmt s) (\<lambda>_ s.
     ofail (get_sem (SBuffer i) s) (\<lambda>t.
     obind (flush_loop x i (unat (semval t)) s) (\<lambda>e s.
     if e \<noteq> OMX_ErrorNone then Done e s
     else
     obind (if PORT_IS_TUNNELED_N_BUFFER_SUPPLIER (ports s ! i)
            then obind (await_buffers x i (xPatience x) s) (\<lambda>_ s. reset (SBuffer i) s)
            else Done () s) (\<lambda>_ s.
     obind (up SFlush (upd_port i (\<lambda>p. p\<lparr>bIsPortFlushed := False\<rparr>) s)) (\<lambda>_ s.
     Done OMX_ErrorNone s)))))))"

section \<open>Disabling and enabling\<close>

text \<open>The loop \<open>while (nelem > 0) dequeue\<close>, which empties the queue.\<close>

definition drop_buffers :: "nat \<Rightarrow> 'p omx_comp \<Rightarrow> (unit, 'p omx_comp) outcome" where
  "drop_buffers i s =
     ofail (Option.bind (get_port i s) pBufferQueue) (\<lambda>_.
       Done () (upd_port i (\<lambda>p. p\<lparr>pBufferQueue := Some []\<rparr>) s))"

definition base_port_DisablePort ::
    "'p omx_ext \<Rightarrow> nat \<Rightarrow> 'p omx_comp \<Rightarrow> (omx_err, 'p omx_comp) outcome" where
  "base_port_DisablePort x i s =
     ofail (get_port i s) (\<lambda>p.
       if \<not> PORT_IS_ENABLED p then Done OMX_ErrorNone s
       else
       obind (if state s = OMX_StateLoaded then Done OMX_ErrorNone s
              else if \<not> PORT_IS_BUFFER_SUPPLIER p then
                ofail (get_sem SMgmt s) (\<lambda>t.
                obind (if semval t = 0 then up SMgmt s else Done () s) (\<lambda>_ s.
                obind (down x (SAlloc i) s) (\<lambda>_ s.
                obind (reset SMgmt s) (\<lambda>_ s. Done OMX_ErrorNone s))))
              else
                obind (drop_buffers i s) (\<lambda>_ s.
                base_port_FreeTunnelBuffer x i (nPortIndex (sPortParam p)) s)) (\<lambda>err s.
       Done err (upd_port i (\<lambda>p. (upd_param (\<lambda>d. d\<lparr>bEnabled := False\<rparr>) p)\<lparr>bIsTransientToDisabled := False\<rparr>) s)))"

text \<open>\<open>n\<close> buffers are announced to the buffer management thread.\<close>

fun announce :: "nat \<Rightarrow> nat \<Rightarrow> 'p omx_comp \<Rightarrow> (unit, 'p omx_comp) outcome" where
  "announce i 0 s = Done () s"
| "announce i (Suc n) s =
     obind (up (SBuffer i) s) (\<lambda>_ s. obind (up SMgmt s) (\<lambda>_ s. announce i n s))"

definition base_port_EnablePort ::
    "'p omx_ext \<Rightarrow> nat \<Rightarrow> 'p omx_comp \<Rightarrow> (omx_err, 'p omx_comp) outcome" where
  "base_port_EnablePort x i s =
     ofail (get_port i s) (\<lambda>p.
       if PORT_IS_ENABLED p then Done OMX_ErrorNone s
       else
       let s = upd_port i (upd_param (\<lambda>d. d\<lparr>bEnabled := True\<rparr>)) s;
           populate = upd_port i (upd_param (\<lambda>d. d\<lparr>bPopulated := True\<rparr>)) in
       obind (if \<not> PORT_IS_BUFFER_SUPPLIER p then
                if state s \<noteq> OMX_StateLoaded \<and> state s \<noteq> OMX_StateWaitForResources
                then obind (down x (SAlloc i) s) (\<lambda>_ s. Done OMX_ErrorNone (populate s))
                else Done OMX_ErrorNone s
              else
                obind (base_port_AllocateTunnelBuffer x i (nPortIndex (sPortParam p)) s) (\<lambda>err s.
                if err \<noteq> OMX_ErrorNone then Done err s
                else
                let s = populate s in
                obind (if state s = OMX_StateExecuting
                       then announce i (unat (nBufferCountActual (sPortParam (ports s ! i)))) s
                       else Done () s) (\<lambda>_ s. Done OMX_ErrorNone s))) (\<lambda>err s.
       if err \<noteq> OMX_ErrorNone then Done err s
       else Done OMX_ErrorNone (upd_port i (\<lambda>p. p\<lparr>bIsTransientToEnabled := False\<rparr>) s)))"

section \<open>Accepting and returning buffers\<close>

text \<open>The conditions on state and port, in the order of the code.\<close>

definition send_guard :: "omx_port \<Rightarrow> omx_hdr \<Rightarrow> 'p omx_comp \<Rightarrow> omx_err" where
  "send_guard p b s =
     (let portIndex = (if eDir (sPortParam p) = OMX_DirInput then nInputPortIndex b
                       else nOutputPortIndex b) in
      if portIndex \<noteq> nPortIndex (sPortParam p) then OMX_ErrorBadPortIndex
      else if state s = OMX_StateInvalid then OMX_ErrorInvalidState
      else if state s \<noteq> OMX_StateExecuting \<and> state s \<noteq> OMX_StatePause \<and> state s \<noteq> OMX_StateIdle
           then OMX_ErrorIncorrectStateOperation
      else if \<not> PORT_IS_ENABLED p
           \<or> PORT_IS_BEING_DISABLED p \<and> \<not> PORT_IS_TUNNELED_N_BUFFER_SUPPLIER p
           \<or> (transientState s = OMX_TransStateExecutingToIdle \<or> transientState s = OMX_TransStatePauseToIdle)
             \<and> PORT_IS_TUNNELED p \<and> \<not> PORT_IS_BUFFER_SUPPLIER p
           then OMX_ErrorIncorrectStateOperation
      else checkHeader (Some (bhead b)) sizeof_BUFFERHEADERTYPE)"

definition base_port_SendBufferFunction ::
    "nat \<Rightarrow> nat \<Rightarrow> 'p omx_comp \<Rightarrow> (omx_err, 'p omx_comp) outcome" where
  "base_port_SendBufferFunction i a s =
     ofail (get_port i s) (\<lambda>p.
     ofail (get_hdr a (heap s)) (\<lambda>b.
       if send_guard p b s \<noteq> OMX_ErrorNone then Done (send_guard p b s) s
       else if \<not> PORT_IS_BEING_FLUSHED p
              \<and> \<not> (PORT_IS_BEING_DISABLED p \<and> PORT_IS_TUNNELED_N_BUFFER_SUPPLIER p)
       then obind (enqueue i a s) (\<lambda>ok s.
              if \<not> ok then Done OMX_ErrorInsufficientResources s
              else obind (up (SBuffer i) s) (\<lambda>_ s. obind (up SMgmt s) (\<lambda>_ s. Done OMX_ErrorNone s)))
       else if PORT_IS_BUFFER_SUPPLIER p
       then obind (enqueue i a s) (\<lambda>ok s.
              if \<not> ok then Done OMX_ErrorInsufficientResources s
              else obind (up (SBuffer i) s) (\<lambda>_ s. Done OMX_ErrorNone s))
       else Done OMX_ErrorIncorrectStateOperation s))"

text \<open>The supplier's own buffer goes back into its queue when the tunnelled component refuses it.\<close>

definition requeue :: "nat \<Rightarrow> nat \<Rightarrow> 'p omx_comp \<Rightarrow> (omx_err, 'p omx_comp) outcome" where
  "requeue i a s =
     obind (enqueue i a s) (\<lambda>ok s.
       if \<not> ok then Done OMX_ErrorInsufficientResources s
       else obind (up (SBuffer i) s) (\<lambda>_ s. Done OMX_ErrorNone s))"

definition base_port_ReturnBufferFunction ::
    "'p omx_ext \<Rightarrow> nat \<Rightarrow> nat \<Rightarrow> 'p omx_comp \<Rightarrow> (omx_err, 'p omx_comp) outcome" where
  "base_port_ReturnBufferFunction x i a s =
     ofail (get_port i s) (\<lambda>p.
       if PORT_IS_TUNNELED p \<and> \<not> PORT_IS_BUFFER_SUPPLIER p then
         obind (on_heap (upd_hdr a (stamp_both p)) s) (\<lambda>_ s.
         case peer_take x i a s of (e, s) \<Rightarrow> Done OMX_ErrorNone s)
       else if PORT_IS_TUNNELED_N_BUFFER_SUPPLIER p \<and> \<not> PORT_IS_BEING_FLUSHED p then
         (case peer_take x i a s of (e, s) \<Rightarrow>
            if e \<noteq> OMX_ErrorNone then requeue i a s else Done OMX_ErrorNone s)
       else if \<not> PORT_IS_TUNNELED p then
         obind (buffer_done i a s) (\<lambda>_ s. Done OMX_ErrorNone s)
       else
         obind (enqueue i a s) (\<lambda>ok s.
           if \<not> ok then Done OMX_ErrorInsufficientResources s
           else Done OMX_ErrorNone
                  (upd_port i (\<lambda>p. p\<lparr>nNumBufferFlushed := nNumBufferFlushed p + 1\<rparr>) s)))"

section \<open>Setting up a tunnel\<close>

record omx_tunnel_setup =
  ts_nTunnelFlags :: u32
  ts_eSupplier :: omx_supplier

text \<open>The domains agree, and the coding is not the invalid one. Image ports have no such test.\<close>

definition compatible :: "omx_portdef \<Rightarrow> omx_portdef \<Rightarrow> bool" where
  "compatible d mine =
     (eDomain d = eDomain mine \<and>
      (case eDomain d of
         OMX_PortDomainAudio \<Rightarrow> audio_eEncoding d \<noteq> CodingMax
       | OMX_PortDomainVideo \<Rightarrow> video_eCompressionFormat d \<noteq> CodingMax
       | OMX_PortDomainOther \<Rightarrow> other_eFormat d \<noteq> CodingMax
       | _ \<Rightarrow> True))"

text \<open>The flags before the negotiation: proprietary communication is kept when both ends have it.\<close>

definition initial_flags :: "'p omx_ext \<Rightarrow> nat \<Rightarrow> u32 \<Rightarrow> omx_port \<Rightarrow> 'p \<Rightarrow> u32" where
  "initial_flags x hcomp tport p q =
     (if PORT_IS_DEEP_TUNNELED p then
        if xGetPropTunnelFlags x hcomp tport q \<noteq> OMX_ErrorNone then 0
        else PROPRIETARY_COMMUNICATION_ESTABLISHED
      else 0)"

text \<open>
  The input port's side of the negotiation: what it writes into the set-up structure, its flags
  and its supplier.
\<close>

definition negotiate_supplier ::
    "omx_tunnel_setup \<Rightarrow> omx_port \<Rightarrow> omx_tunnel_setup \<times> omx_port" where
  "negotiate_supplier ts p =
     (let take_over = p\<lparr>nTunnelFlags := nTunnelFlags p OR TUNNEL_IS_SUPPLIER,
                        eBufferSupplier := OMX_BufferSupplyInput\<rparr> in
      if ts_nTunnelFlags ts AND OMX_PORTTUNNELFLAG_READONLY \<noteq> 0
      then (ts\<lparr>ts_eSupplier := OMX_BufferSupplyInput\<rparr>, take_over)
      else case ts_eSupplier ts of
             OMX_BufferSupplyInput \<Rightarrow> (ts, take_over)
           | OMX_BufferSupplyUnspecified \<Rightarrow> (ts\<lparr>ts_eSupplier := OMX_BufferSupplyInput\<rparr>, take_over)
           | OMX_BufferSupplyOutput \<Rightarrow> (ts, p\<lparr>eBufferSupplier := OMX_BufferSupplyOutput\<rparr>))"

definition tunnel_input ::
    "'p omx_ext \<Rightarrow> nat \<Rightarrow> nat \<Rightarrow> u32 \<Rightarrow> omx_tunnel_setup \<Rightarrow> 'p omx_comp \<Rightarrow>
      omx_err \<times> omx_tunnel_setup \<times> 'p omx_comp" where
  "tunnel_input x i hcomp tport ts s =
     (case xGetPortDefinition x hcomp tport (peer s) of (err, d) \<Rightarrow>
      if err \<noteq> OMX_ErrorNone then (OMX_ErrorPortsNotCompatible, ts, s)
      else
      let s = upd_port i (\<lambda>p. p\<lparr>nNumTunnelBuffer := nBufferCountActual d\<rparr>) s in
      if \<not> compatible d (sPortParam (ports s ! i)) then (OMX_ErrorPortsNotCompatible, ts, s)
      else case xGetBufferSupplier x hcomp tport (peer s) of (err, _) \<Rightarrow>
      if err \<noteq> OMX_ErrorNone then (OMX_ErrorPortsNotCompatible, ts, s)
      else
      let p = (ports s ! i)\<lparr>hTunneledComponent := hcomp, nTunneledPort := tport\<rparr>;
          p = p\<lparr>nTunnelFlags := initial_flags x hcomp tport p (peer s)\<rparr>
      in case negotiate_supplier ts p of (ts, p) \<Rightarrow>
      let p = p\<lparr>nTunnelFlags := nTunnelFlags p OR TUNNEL_ESTABLISHED\<rparr>
      in case xSetBufferSupplier x hcomp tport (eBufferSupplier p) (peer s) of (err, q) \<Rightarrow>
      if err \<noteq> OMX_ErrorNone
      then (OMX_ErrorPortsNotCompatible, ts, upd_port i (\<lambda>_. p\<lparr>nTunnelFlags := 0\<rparr>) (s\<lparr>peer := q\<rparr>))
      else (OMX_ErrorNone, ts, upd_port i (\<lambda>_. p) (s\<lparr>peer := q\<rparr>)))"

definition tunnel_output ::
    "'p omx_ext \<Rightarrow> nat \<Rightarrow> nat \<Rightarrow> u32 \<Rightarrow> omx_tunnel_setup \<Rightarrow> 'p omx_comp \<Rightarrow>
      omx_err \<times> omx_tunnel_setup \<times> 'p omx_comp" where
  "tunnel_output x i hcomp tport ts s =
     (case xGetPortDefinition x hcomp tport (peer s) of (err, d) \<Rightarrow>
      if err \<noteq> OMX_ErrorNone then (OMX_ErrorPortsNotCompatible, ts, s)
      else if \<not> compatible d (sPortParam (ports s ! i)) then (OMX_ErrorPortsNotCompatible, ts, s)
      else
      let p = ports s ! i;
          f = initial_flags x hcomp tport p (peer s);
          p = p\<lparr>nTunnelFlags := (f OR TUNNEL_IS_SUPPLIER) OR TUNNEL_ESTABLISHED,
                nNumTunnelBuffer := nBufferCountActual d,
                hTunneledComponent := hcomp, nTunneledPort := tport,
                eBufferSupplier := OMX_BufferSupplyOutput\<rparr>
      in (OMX_ErrorNone, ts\<lparr>ts_eSupplier := OMX_BufferSupplyOutput\<rparr>, upd_port i (\<lambda>_. p) s))"

text \<open>No set-up structure or no component cancels the tunnel.\<close>

definition base_port_ComponentTunnelRequest ::
    "'p omx_ext \<Rightarrow> nat \<Rightarrow> nat \<Rightarrow> u32 \<Rightarrow> omx_tunnel_setup option \<Rightarrow> 'p omx_comp \<Rightarrow>
      (omx_err \<times> omx_tunnel_setup option, 'p omx_comp) outcome" where
  "base_port_ComponentTunnelRequest x i hcomp tport setup s =
     ofail (get_port i s) (\<lambda>p.
       case setup of
         None \<Rightarrow> Done (OMX_ErrorNone, None)
                  (upd_port i (\<lambda>p. p\<lparr>hTunneledComponent := 0, nTunneledPort := 0, nTunnelFlags := 0,
                     eBufferSupplier := OMX_BufferSupplyUnspecified\<rparr>) s)
       | Some ts \<Rightarrow>
           if hcomp = 0
           then Done (OMX_ErrorNone, Some ts)
                  (upd_port i (\<lambda>p. p\<lparr>hTunneledComponent := 0, nTunneledPort := 0, nTunnelFlags := 0,
                     eBufferSupplier := OMX_BufferSupplyUnspecified\<rparr>) s)
           else (case (if eDir (sPortParam p) = OMX_DirInput then tunnel_input x i hcomp tport ts s
                       else tunnel_output x i hcomp tport ts s) of
                   (err, ts, s) \<Rightarrow> Done (err, Some ts) s))"

end
