(* ===== verification/OmxPortProof.thy ===== *)
theory OmxPortProof
  imports OmxPort
begin

text \<open>
  What the operations of a port do: the accounting of its buffers and what it owns on the heap,
  allocation of a full set and its release, which buffers are accepted, what a flush returns.
\<close>

section \<open>Rewriting the state\<close>

lemma get_port_eq [simp]: "i < length (ports s) \<Longrightarrow> get_port i s = Some (ports s ! i)"
  by (simp add: get_port_def)

lemma get_port_Some: "get_port i s = Some p \<longleftrightarrow> i < length (ports s) \<and> p = ports s ! i"
  by (auto simp: get_port_def)

lemma slots_upd [simp]:
  "slots (p\<lparr>bBufferStateAllocated := x\<rparr>) = (case x of None \<Rightarrow> [] | Some fs \<Rightarrow> fs)"
  "slots (p\<lparr>pInternalBufferStorage := y\<rparr>) = slots p"
  "slots (p\<lparr>nNumAssignedBuffers := n\<rparr>) = slots p"
  "slots (p\<lparr>sPortParam := d\<rparr>) = slots p"
  "slots (p\<lparr>bIsFullOfBuffers := b\<rparr>) = slots p"
  "slots (p\<lparr>bIsEmptyOfBuffers := b\<rparr>) = slots p"
  "slots (p\<lparr>pAllocSem := t\<rparr>) = slots p"
  "slots (p\<lparr>pBufferQueue := q\<rparr>) = slots p"
  by (simp_all add: slots_def)

lemma storage_upd [simp]:
  "storage (p\<lparr>pInternalBufferStorage := y\<rparr>) = (case y of None \<Rightarrow> [] | Some st \<Rightarrow> st)"
  "storage (p\<lparr>bBufferStateAllocated := x\<rparr>) = storage p"
  "storage (p\<lparr>nNumAssignedBuffers := n\<rparr>) = storage p"
  "storage (p\<lparr>sPortParam := d\<rparr>) = storage p"
  "storage (p\<lparr>bIsFullOfBuffers := b\<rparr>) = storage p"
  "storage (p\<lparr>bIsEmptyOfBuffers := b\<rparr>) = storage p"
  "storage (p\<lparr>pAllocSem := t\<rparr>) = storage p"
  "storage (p\<lparr>pBufferQueue := q\<rparr>) = storage p"
  by (simp_all add: storage_def)

lemma stamp_upd [simp]:
  "stamp (p\<lparr>pInternalBufferStorage := y\<rparr>) = stamp p"
  "stamp (p\<lparr>bBufferStateAllocated := x\<rparr>) = stamp p"
  "stamp (p\<lparr>bIsEmptyOfBuffers := b\<rparr>) = stamp p"
  by (simp_all add: stamp_def fun_eq_iff)

lemma stamp_frame [simp]:
  "pBuffer (stamp p b) = pBuffer b" "nAllocLen (stamp p b) = nAllocLen b" "bhead (stamp p b) = bhead b"
  "pAppPrivate (stamp p b) = pAppPrivate b" "pPlatformPrivate (stamp p b) = pPlatformPrivate b"
  by (simp_all add: stamp_def)

text \<open>The rules that run the operations on a state.\<close>

lemmas port_run = set_slot_def set_flag_def on_heap_def upd_hdr_def get_hdr_def hcalloc_def
  count_buffer_def uncount_buffer_def up_def upd_port_def upd_param_def Let_def

section \<open>Allocation for the client\<close>

text \<open>The header and the port after one successful allocation.\<close>

definition buffer_hdr :: "nat \<Rightarrow> omx_port \<Rightarrow> nat \<Rightarrow> u32 \<Rightarrow> nat \<Rightarrow> omx_hdr" where
  "buffer_hdr i p app sz d = stamp p (use_hdr i app sz d zero_hdr)"

definition counted :: "omx_port \<Rightarrow> omx_port" where
  "counted p =
     (let p = p\<lparr>nNumAssignedBuffers := nNumAssignedBuffers p + 1\<rparr> in
      if nBufferCountActual (sPortParam p) = nNumAssignedBuffers p
      then (upd_param (\<lambda>d. d\<lparr>bPopulated := True\<rparr>) p)
        \<lparr>bIsFullOfBuffers := True, pAllocSem := map_option tsem_up (pAllocSem p)\<rparr>
      else p)"

definition filled :: "nat \<Rightarrow> nat \<Rightarrow> u32 \<Rightarrow> omx_port \<Rightarrow> omx_port" where
  "filled k a f p =
     p\<lparr>pInternalBufferStorage := Some ((storage p)[k := a]),
       bBufferStateAllocated := Some ((slots p)[k := f])\<rparr>"

lemma alloc_slot_done:
  fixes i k :: nat and s :: "'p omx_comp"
  defines "p \<equiv> ports s ! i" and "a \<equiv> Suc (hbrk (heap s))"
  assumes "i < length (ports s)" "k < length (storage p)" "k < length (slots p)"
    and "hbudget (heap s) \<ge> 2" "pAllocSem p = Some t"
  shows "alloc_slot i k app sz s = Done (OMX_ErrorNone, Some a)
    (s\<lparr>heap := (heap s)\<lparr>hmem := (hmem (heap s))(a \<mapsto> Header (buffer_hdr i p app sz (a + 1)), a + 1 \<mapsto> Data sz),
                      hbrk := a + 1, hbudget := hbudget (heap s) - 2\<rparr>,
      ports := (ports s)[i := counted (filled k a 5 p)]\<rparr>)"
proof -
  have b: "hbudget (heap s) \<noteq> 0" "hbudget (heap s) - Suc 0 \<noteq> 0" using assms by auto
  have h: "stamp p (zero_hdr\<lparr>bhead := setHeader sizeof_BUFFERHEADERTYPE,
                       pBuffer := Suc a, nAllocLen := sz,
                       pPlatformPrivate := Some i, pAppPrivate := app\<rparr>) = buffer_hdr i p app sz (a + 1)"
    by (simp add: buffer_hdr_def use_hdr_def zero_hdr_def)
  show ?thesis using assms(3-7) b h unfolding p_def a_def
    by (simp add: alloc_slot_def port_run counted_def filled_def fun_upd_twist)
qed

lemma alloc_slot_no_header:
  assumes "i < length (ports s)" "k < length (storage (ports s ! i))" "hbudget (heap s) = 0"
  shows "alloc_slot i k app sz s = Done (OMX_ErrorInsufficientResources, None)
    (s\<lparr>ports := (ports s)[i := (ports s ! i)\<lparr>pInternalBufferStorage := Some ((storage (ports s ! i))[k := 0])\<rparr>]\<rparr>)"
  using assms by (simp add: alloc_slot_def port_run)

text \<open>When the buffer cannot be allocated, its header stays allocated.\<close>

lemma alloc_slot_no_data:
  fixes i k :: nat and s :: "'p omx_comp"
  defines "p \<equiv> ports s ! i" and "a \<equiv> Suc (hbrk (heap s))"
  assumes "i < length (ports s)" "k < length (storage p)" "hbudget (heap s) = 1"
  shows "alloc_slot i k app sz s = Done (OMX_ErrorInsufficientResources, None)
    (s\<lparr>heap := (heap s)\<lparr>hmem := (hmem (heap s))(a \<mapsto> Header (zero_hdr\<lparr>bhead := setHeader sizeof_BUFFERHEADERTYPE\<rparr>)),
                       hbrk := a, hbudget := 0\<rparr>,
      ports := (ports s)[i := p\<lparr>pInternalBufferStorage := Some ((storage p)[k := a])\<rparr>]\<rparr>)"
  using assms by (simp add: alloc_slot_def port_run zero_hdr_def)

definition freed :: "nat \<Rightarrow> omx_port \<Rightarrow> omx_port" where
  "freed k p =
     (let p = p\<lparr>bIsFullOfBuffers := False,
                pInternalBufferStorage := Some ((storage p)[k := 0]),
                bBufferStateAllocated := Some ((slots p)[k := BUFFER_FREE]),
                nNumAssignedBuffers := nNumAssignedBuffers p - 1\<rparr> in
      if nNumAssignedBuffers p = 0
      then (upd_param (\<lambda>d. d\<lparr>bPopulated := False\<rparr>) p)
        \<lparr>bIsEmptyOfBuffers := True, pAllocSem := map_option tsem_up (pAllocSem p)\<rparr>
      else p)"

lemma free_slot_allocated:
  fixes i k :: nat and s :: "'p omx_comp"
  defines "p \<equiv> ports s ! i"
  defines "a \<equiv> storage p ! k"
  assumes "i < length (ports s)" "k < length (storage p)" "k < length (slots p)"
    and "slots p ! k = 5" "pAllocSem p = Some t"
    and "a \<noteq> 0" "pBuffer b \<noteq> 0" "pBuffer b \<noteq> a"
    and "hmem (heap s) a = Some (Header b)" "hmem (heap s) (pBuffer b) = Some v"
  shows "free_slot i k pBuf s = Done OMX_ErrorNone
    (s\<lparr>heap := (heap s)\<lparr>hmem := (hmem (heap s))(pBuffer b := None, a := None)\<rparr>,
      ports := (ports s)[i := freed k p]\<rparr>)"
  using assms(3-12) unfolding p_def a_def
  by (simp add: free_slot_def port_run free_data_def hfree_def freed_def fun_upd_twist)

lemma free_slot_assigned:
  fixes i k :: nat and s :: "'p omx_comp"
  defines "p \<equiv> ports s ! i"
  defines "a \<equiv> storage p ! k"
  assumes "i < length (ports s)" "k < length (storage p)" "k < length (slots p)"
    and "slots p ! k = 6" "pAllocSem p = Some t" "a \<noteq> 0" "a \<noteq> pBuf"
    and "hmem (heap s) a = Some (Header b)" "pBuf \<noteq> 0" "hmem (heap s) pBuf = Some v"
  shows "free_slot i k pBuf s = Done OMX_ErrorNone
    (s\<lparr>heap := (heap s)\<lparr>hmem := (hmem (heap s))(pBuf := None, a := None)\<rparr>,
      ports := (ports s)[i := freed k p]\<rparr>)"
  using assms(3-12) unfolding p_def a_def
  by (simp add: free_slot_def port_run hfree_def freed_def)

lemma use_slot_no_header:
  assumes "i < length (ports s)" "k < length (storage (ports s ! i))" "hbudget (heap s) = 0"
  shows "use_slot i k app sz d s = Done (OMX_ErrorInsufficientResources, None)
    (s\<lparr>ports := (ports s)[i := (ports s ! i)\<lparr>pInternalBufferStorage := Some ((storage (ports s ! i))[k := 0])\<rparr>]\<rparr>)"
  using assms by (simp add: use_slot_def port_run)

definition used :: "nat \<Rightarrow> nat \<Rightarrow> omx_port \<Rightarrow> omx_port" where
  "used k a p =
     p\<lparr>pInternalBufferStorage := Some ((storage p)[k := a]), bIsEmptyOfBuffers := False,
       bBufferStateAllocated := Some ((slots p)[k := 6])\<rparr>"

lemma use_slot_done:
  fixes i k :: nat and s :: "'p omx_comp"
  defines "p \<equiv> ports s ! i" and "a \<equiv> Suc (hbrk (heap s))"
  assumes "i < length (ports s)" "k < length (storage p)" "k < length (slots p)"
    and "hbudget (heap s) \<ge> 2" "pAllocSem p = Some t"
  shows "use_slot i k app sz d s = Done (OMX_ErrorNone, Some (a + 1))
    (s\<lparr>heap := (heap s)\<lparr>hmem := (hmem (heap s))(a \<mapsto> Header (buffer_hdr i p app sz d),
                                               a + 1 \<mapsto> Header (buffer_hdr i p app sz d)),
                      hbrk := a + 1, hbudget := hbudget (heap s) - 2\<rparr>,
      ports := (ports s)[i := counted (used k a p)]\<rparr>)"
proof -
  have b: "hbudget (heap s) \<noteq> 0" "hbudget (heap s) - Suc 0 \<noteq> 0" using assms by auto
  show ?thesis using assms(3-7) b unfolding p_def a_def
    by (simp add: use_slot_def port_run counted_def used_def buffer_hdr_def fun_upd_twist)
qed

section \<open>Searching for a slot\<close>

lemma scan_slots_Some:
  "scan_slots P n fs = Some (Some k) \<Longrightarrow> k < n \<and> k < length fs \<and> P (fs ! k) \<and> (\<forall>j < k. \<not> P (fs ! j))"
proof (induction P n fs arbitrary: k rule: scan_slots.induct)
  case (3 P n f fs)
  show ?case
  proof (cases "P f")
    case False
    then obtain m where m: "k = Suc m" "scan_slots P n fs = Some (Some m)" using "3.prems" by auto
    then show ?thesis using "3.IH" [OF False m(2)] False by (auto simp: less_Suc_eq_0_disj)
  qed (use "3.prems" in auto)
qed auto

lemma scan_slots_None:
  "scan_slots P n fs = Some None \<Longrightarrow> \<forall>j < n. \<not> P (fs ! j)"
  by (induction P n fs rule: scan_slots.induct) (auto simp: less_Suc_eq_0_disj split: if_splits)

lemma scan_slots_total: "n \<le> length fs \<Longrightarrow> scan_slots P n fs \<noteq> None"
  by (induction P n fs rule: scan_slots.induct) auto

lemma scan_slots_first:
  "k < n \<Longrightarrow> k < length fs \<Longrightarrow> P (fs ! k) \<Longrightarrow> \<forall>j < k. \<not> P (fs ! j) \<Longrightarrow> scan_slots P n fs = Some (Some k)"
proof (induction P n fs arbitrary: k rule: scan_slots.induct)
  case (3 P n f fs)
  show ?case
  proof (cases k)
    case (Suc m)
    then have "\<not> P f" "scan_slots P n fs = Some (Some m)"
      using "3.prems" "3.IH" [of m] by (auto simp: All_less_Suc2)
    then show ?thesis using Suc by simp
  qed (use "3.prems" in simp)
qed auto

lemma scan_slots_all: "n \<le> length fs \<Longrightarrow> \<forall>j < n. \<not> P (fs ! j) \<Longrightarrow> scan_slots P n fs = Some None"
proof (induction P n fs rule: scan_slots.induct)
  case (3 P n f fs)
  then show ?case by (simp add: All_less_Suc2)
qed auto

lemma length_filter_set:
  "k < length xs \<Longrightarrow>
     length (filter P (xs[k := v])) + (if P (xs ! k) then 1 else 0) = length (filter P xs) + (if P v then 1 else 0)"
proof (induction xs arbitrary: k)
  case (Cons x xs)
  then show ?case by (cases k) auto
qed simp

section \<open>The accounting of a port\<close>

text \<open>
  A slot is free, or holds a header with a buffer of the port, or a header for a buffer of the
  client; no two slots share a header or a buffer; the count is that of the slots in use.
\<close>

definition slot_ok :: "omx_heap \<Rightarrow> u32 \<Rightarrow> nat \<Rightarrow> bool" where
  "slot_ok h f a =
     (f = 0 \<or>
      f = 5 \<and> (\<exists>b n. hmem h a = Some (Header b) \<and> hmem h (pBuffer b) = Some (Data n)) \<or>
      f = 6 \<and> (\<exists>b. hmem h a = Some (Header b)))"

definition data_of :: "omx_heap \<Rightarrow> nat \<Rightarrow> nat" where
  "data_of h a = (case hmem h a of Some (Header b) \<Rightarrow> pBuffer b | _ \<Rightarrow> 0)"

definition storage_ok :: "omx_heap \<Rightarrow> u32 list \<Rightarrow> nat list \<Rightarrow> bool" where
  "storage_ok h fs st =
     (length st = length fs \<and>
      (\<forall>k < length fs. slot_ok h (fs ! k) (st ! k)) \<and>
      (\<forall>k < length fs. \<forall>l < length fs. k \<noteq> l \<longrightarrow> fs ! k \<noteq> 0 \<longrightarrow> fs ! l \<noteq> 0 \<longrightarrow> st ! k \<noteq> st ! l) \<and>
      (\<forall>k < length fs. \<forall>l < length fs. k \<noteq> l \<longrightarrow> fs ! k = 5 \<longrightarrow> fs ! l = 5 \<longrightarrow>
         data_of h (st ! k) \<noteq> data_of h (st ! l)))"

definition buffers_used :: "omx_port \<Rightarrow> nat" where
  "buffers_used p = length (filter (\<lambda>f. f \<noteq> BUFFER_FREE) (slots p))"

definition port_inv :: "nat \<Rightarrow> 'p omx_comp \<Rightarrow> bool" where
  "port_inv i s =
     (i < length (ports s) \<and> heap_ok (heap s) \<and>
      (let p = ports s ! i; n = unat (nBufferCountActual (sPortParam p)) in
       pAllocSem p \<noteq> None \<and> length (slots p) = n \<and> storage_ok (heap s) (slots p) (storage p) \<and>
       unat (nNumAssignedBuffers p) = buffers_used p \<and>
       bIsFullOfBuffers p = (n \<noteq> 0 \<and> buffers_used p = n) \<and>
       (bIsFullOfBuffers p \<longrightarrow> bPopulated (sPortParam p)) \<and>
       (bPopulated (sPortParam p) \<longrightarrow> n = 0 \<or> buffers_used p \<noteq> 0)))"

lemma storage_ok_fill:
  assumes ok: "storage_ok h fs st" and k: "k < length fs" "fs ! k = 0"
    and ext: "\<forall>x. hmem h x \<noteq> None \<longrightarrow> hmem h' x = hmem h x"
    and new: "slot_ok h' f a" "hmem h a = None" "f = 5 \<longrightarrow> hmem h (data_of h' a) = None"
  shows "storage_ok h' (fs[k := f]) (st[k := a])"
proof -
  have len: "length st = length fs" using ok by (simp add: storage_ok_def)
  have old: "slot_ok h' (fs ! l) (st ! l) \<and> (fs ! l \<noteq> 0 \<longrightarrow> hmem h (st ! l) \<noteq> None \<and>
      data_of h' (st ! l) = data_of h (st ! l)) \<and>
      (fs ! l = 5 \<longrightarrow> hmem h (data_of h (st ! l)) \<noteq> None)" if "l < length fs" for l
  proof -
    have "slot_ok h (fs ! l) (st ! l)" using ok that by (simp add: storage_ok_def)
    then show ?thesis using ext unfolding slot_ok_def data_of_def by (force split: option.splits omx_obj.splits)
  qed
  have neq: "a \<noteq> st ! l" if "l < length fs" "fs ! l \<noteq> 0" for l using old [OF that(1)] that new(2) by auto
  have neqd: "data_of h' a \<noteq> data_of h' (st ! l)" if "l < length fs" "fs ! l = 5" "f = 5" for l
    using old [OF that(1)] that new(3) by force
  have inj: "st ! l \<noteq> st ! m" if "l < length fs" "m < length fs" "l \<noteq> m" "fs ! l \<noteq> 0" "fs ! m \<noteq> 0" for l m
    using ok that by (simp add: storage_ok_def)
  have injd: "data_of h' (st ! l) \<noteq> data_of h' (st ! m)"
    if "l < length fs" "m < length fs" "l \<noteq> m" "fs ! l = 5" "fs ! m = 5" for l m
  proof -
    have "data_of h (st ! l) \<noteq> data_of h (st ! m)" using ok that by (simp add: storage_ok_def)
    then show ?thesis using old [OF that(1)] old [OF that(2)] that by simp
  qed
  show ?thesis unfolding storage_ok_def
  proof (intro conjI allI impI)
    show "length (st[k := a]) = length (fs[k := f])" using len by simp
  next
    fix l assume "l < length (fs[k := f])"
    then show "slot_ok h' (fs[k := f] ! l) (st[k := a] ! l)"
      using old [of l] new(1) len by (cases "l = k") simp_all
  next
    fix l m assume *: "l < length (fs[k := f])" "m < length (fs[k := f])" "l \<noteq> m"
      "fs[k := f] ! l \<noteq> 0" "fs[k := f] ! m \<noteq> 0"
    then show "st[k := a] ! l \<noteq> st[k := a] ! m"
      using neq [of l] neq [of m] inj [of l m] len k(1) by (auto simp: nth_list_update split: if_splits)
  next
    fix l m assume *: "l < length (fs[k := f])" "m < length (fs[k := f])" "l \<noteq> m"
      "fs[k := f] ! l = 5" "fs[k := f] ! m = 5"
    then show "data_of h' (st[k := a] ! l) \<noteq> data_of h' (st[k := a] ! m)"
      using neqd [of l] neqd [of m] injd [of l m] len k(1) by (auto simp: nth_list_update split: if_splits)
  qed
qed

lemma storage_ok_touch:
  assumes ok: "storage_ok h fs st" and k: "k < length fs" "fs ! k = 0"
    and ext: "\<forall>x. hmem h x \<noteq> None \<longrightarrow> hmem h' x = hmem h x"
  shows "storage_ok h' fs (st[k := a])"
proof -
  have len: "length st = length fs" using ok by (simp add: storage_ok_def)
  have old: "slot_ok h' (fs ! l) (st ! l) \<and> (fs ! l \<noteq> 0 \<longrightarrow> data_of h' (st ! l) = data_of h (st ! l))"
    if "l < length fs" for l
  proof -
    have "slot_ok h (fs ! l) (st ! l)" using ok that by (simp add: storage_ok_def)
    then show ?thesis using ext unfolding slot_ok_def data_of_def by (force split: option.splits omx_obj.splits)
  qed
  have *: "st[k := a] ! l = st ! l" if "fs ! l \<noteq> 0" for l using that k(2) by (cases "l = k") auto
  show ?thesis unfolding storage_ok_def
  proof (intro conjI allI impI)
    fix l assume l: "l < length fs"
    show "slot_ok h' (fs ! l) (st[k := a] ! l)"
      using old [OF l] * [of l] by (cases "fs ! l = 0") (simp_all add: slot_ok_def)
  qed (use ok len old * in \<open>auto simp: storage_ok_def\<close>)
qed

lemma storage_ok_remove:
  assumes ok: "storage_ok h fs st" and k: "k < length fs"
    and rem: "\<forall>x. x \<notin> X \<longrightarrow> hmem h' x = hmem h x"
    and other: "\<forall>l < length fs. l \<noteq> k \<longrightarrow> fs ! l \<noteq> 0 \<longrightarrow> st ! l \<notin> X \<and> (fs ! l = 5 \<longrightarrow> data_of h (st ! l) \<notin> X)"
  shows "storage_ok h' (fs[k := 0]) (st[k := 0])"
proof -
  have len: "length st = length fs" using ok by (simp add: storage_ok_def)
  have old: "slot_ok h' (fs ! l) (st ! l) \<and> (fs ! l = 5 \<longrightarrow> data_of h' (st ! l) = data_of h (st ! l))"
    if "l < length fs" "l \<noteq> k" for l
  proof -
    have s: "slot_ok h (fs ! l) (st ! l)" using ok that by (simp add: storage_ok_def)
    show ?thesis
    proof (cases "fs ! l = 0")
      case False
      then have "hmem h' (st ! l) = hmem h (st ! l)" "fs ! l = 5 \<longrightarrow> hmem h' (data_of h (st ! l)) = hmem h (data_of h (st ! l))"
        using other rem that by auto
      then show ?thesis using s unfolding slot_ok_def data_of_def by auto
    qed (simp add: slot_ok_def)
  qed
  show ?thesis unfolding storage_ok_def
  proof (intro conjI allI impI)
    fix l assume l: "l < length (fs[k := 0])"
    then show "slot_ok h' (fs[k := 0] ! l) (st[k := 0] ! l)"
      using old [of l] len by (cases "l = k") (simp_all add: slot_ok_def)
  next
    fix l m assume *: "l < length (fs[k := 0])" "m < length (fs[k := 0])" "l \<noteq> m"
      "fs[k := 0] ! l \<noteq> 0" "fs[k := 0] ! m \<noteq> 0"
    then have "l \<noteq> k" "m \<noteq> k" using k by (auto simp: nth_list_update split: if_splits)
    then show "st[k := 0] ! l \<noteq> st[k := 0] ! m" using * ok by (simp add: storage_ok_def)
  next
    fix l m assume *: "l < length (fs[k := 0])" "m < length (fs[k := 0])" "l \<noteq> m"
      "fs[k := 0] ! l = 5" "fs[k := 0] ! m = 5"
    then have "l \<noteq> k" "m \<noteq> k" using k by (auto simp: nth_list_update split: if_splits)
    then show "data_of h' (st[k := 0] ! l) \<noteq> data_of h' (st[k := 0] ! m)"
      using * ok old [of l] old [of m] by (simp add: storage_ok_def)
  qed (use len in simp)
qed

lemma heap_ok_ext:
  "heap_ok h \<Longrightarrow> heap_ok (h\<lparr>hmem := (hmem h)(Suc (hbrk h) \<mapsto> v, Suc (Suc (hbrk h)) \<mapsto> w),
     hbrk := Suc (Suc (hbrk h)), hbudget := n\<rparr>)"
  "heap_ok h \<Longrightarrow> heap_ok (h\<lparr>hmem := (hmem h)(Suc (hbrk h) \<mapsto> v), hbrk := Suc (hbrk h), hbudget := n\<rparr>)"
  "heap_ok h \<Longrightarrow> heap_ok (h\<lparr>hmem := (hmem h)(a := None, b := None)\<rparr>)"
  by (auto simp: heap_ok_def)

lemma heap_fresh: "heap_ok h \<Longrightarrow> hbrk h < a \<Longrightarrow> hmem h a = None"
  by (simp add: heap_ok_def)

lemma counted_fields [simp]:
  "slots (counted p) = slots p" "storage (counted p) = storage p"
  "nNumAssignedBuffers (counted p) = nNumAssignedBuffers p + 1"
  "nBufferCountActual (sPortParam (counted p)) = nBufferCountActual (sPortParam p)"
  "bIsFullOfBuffers (counted p) = (bIsFullOfBuffers p \<or> nBufferCountActual (sPortParam p) = nNumAssignedBuffers p + 1)"
  "bPopulated (sPortParam (counted p)) = (bPopulated (sPortParam p) \<or> nBufferCountActual (sPortParam p) = nNumAssignedBuffers p + 1)"
  "pAllocSem (counted p) = None \<longleftrightarrow> pAllocSem p = None"
  by (simp_all add: counted_def Let_def upd_param_def slots_def storage_def)

lemma filled_fields [simp]:
  "slots (filled k a f p) = (slots p)[k := f]" "storage (filled k a f p) = (storage p)[k := a]"
  "nNumAssignedBuffers (filled k a f p) = nNumAssignedBuffers p" "sPortParam (filled k a f p) = sPortParam p"
  "bIsFullOfBuffers (filled k a f p) = bIsFullOfBuffers p" "pAllocSem (filled k a f p) = pAllocSem p"
  by (simp_all add: filled_def)

lemma used_fields [simp]:
  "slots (used k a p) = (slots p)[k := 6]" "storage (used k a p) = (storage p)[k := a]"
  "nNumAssignedBuffers (used k a p) = nNumAssignedBuffers p" "sPortParam (used k a p) = sPortParam p"
  "bIsFullOfBuffers (used k a p) = bIsFullOfBuffers p" "pAllocSem (used k a p) = pAllocSem p"
  by (simp_all add: used_def)

lemma freed_fields [simp]:
  "slots (freed k p) = (slots p)[k := 0]" "storage (freed k p) = (storage p)[k := 0]"
  "nNumAssignedBuffers (freed k p) = nNumAssignedBuffers p - 1"
  "nBufferCountActual (sPortParam (freed k p)) = nBufferCountActual (sPortParam p)"
  "bIsFullOfBuffers (freed k p) = False"
  "bPopulated (sPortParam (freed k p)) = (bPopulated (sPortParam p) \<and> nNumAssignedBuffers p \<noteq> 1)"
  "pAllocSem (freed k p) = None \<longleftrightarrow> pAllocSem p = None"
  by (simp_all add: freed_def Let_def upd_param_def)

lemma port_invD:
  assumes "port_inv i s"
  defines "p \<equiv> ports s ! i"
  shows "i < length (ports s)" "heap_ok (heap s)" "pAllocSem p \<noteq> None"
    "length (slots p) = unat (nBufferCountActual (sPortParam p))" "length (storage p) = length (slots p)"
    "storage_ok (heap s) (slots p) (storage p)" "unat (nNumAssignedBuffers p) = buffers_used p"
    "bIsFullOfBuffers p = (slots p \<noteq> [] \<and> buffers_used p = length (slots p))"
    "bIsFullOfBuffers p \<longrightarrow> bPopulated (sPortParam p)"
    "bPopulated (sPortParam p) \<longrightarrow> slots p = [] \<or> buffers_used p \<noteq> 0"
proof -
  have "storage_ok (heap s) (slots p) (storage p)" using assms by (simp add: port_inv_def Let_def)
  then show "length (storage p) = length (slots p)" by (simp add: storage_ok_def)
  have l: "length (slots p) = unat (nBufferCountActual (sPortParam p))" using assms by (simp add: port_inv_def Let_def)
  then have z: "slots p = [] \<longleftrightarrow> nBufferCountActual (sPortParam p) = 0"
    by (metis length_0_conv unat_eq_zero)
  show "bIsFullOfBuffers p = (slots p \<noteq> [] \<and> buffers_used p = length (slots p))"
    "bPopulated (sPortParam p) \<longrightarrow> slots p = [] \<or> buffers_used p \<noteq> 0"
    using assms l z by (auto simp: port_inv_def Let_def)
qed (use assms in \<open>simp_all add: port_inv_def Let_def\<close>)

text \<open>One slot more in use.\<close>

lemma inv_take:
  fixes s :: "'p omx_comp"
  assumes inv: "port_inv i s" and p: "p = ports s ! i"
    and k: "k < length (slots p)" "slots p ! k = 0" and f: "f \<noteq> 0"
    and q: "slots q = (slots p)[k := f]" "storage q = (storage p)[k := a]"
      "nNumAssignedBuffers q = nNumAssignedBuffers p" "sPortParam q = sPortParam p"
      "bIsFullOfBuffers q = bIsFullOfBuffers p" "pAllocSem q = pAllocSem p"
    and h: "heap_ok h" "storage_ok h ((slots p)[k := f]) ((storage p)[k := a])"
  shows "port_inv i (s\<lparr>heap := h, ports := (ports s)[i := counted q]\<rparr>)"
proof -
  note I = port_invD [OF inv, folded p]
  have u: "buffers_used (counted q) = Suc (buffers_used p)"
    using length_filter_set [OF k(1), of "\<lambda>f. f \<noteq> BUFFER_FREE" f] k(2) f q(1) by (simp add: buffers_used_def)
  have "buffers_used (counted q) \<le> length (slots p)"
    using length_filter_le [of "\<lambda>f. f \<noteq> BUFFER_FREE" "(slots p)[k := f]"] q(1) by (simp add: buffers_used_def)
  then have le: "buffers_used p < length (slots p)" using u by simp
  then have "unat (nNumAssignedBuffers p) + 1 < 2 ^ 32"
    using I(4,7) unat_u32_le [of "nBufferCountActual (sPortParam p)"] by simp
  then have n: "unat (nNumAssignedBuffers p + 1) = Suc (buffers_used p)"
    using unat_inc [OF unat_not_max] I(7) by simp
  have full: "nBufferCountActual (sPortParam p) = nNumAssignedBuffers p + 1 \<longleftrightarrow> Suc (buffers_used p) = length (slots p)"
    using n I(4) by (metis word_unat_eq_iff)
  have nf: "\<not> bIsFullOfBuffers p" using le I(8) by simp
  show ?thesis using I(1,3,4,5,9,10) h q u n full nf le
    by (auto simp: port_inv_def Let_def simp del: not_None_eq)
qed

text \<open>One slot less.\<close>

lemma inv_release:
  fixes s :: "'p omx_comp"
  assumes inv: "port_inv i s" and p: "p = ports s ! i"
    and k: "k < length (slots p)" "slots p ! k \<noteq> 0"
    and h: "heap_ok h" "storage_ok h ((slots p)[k := 0]) ((storage p)[k := 0])"
  shows "port_inv i (s\<lparr>heap := h, ports := (ports s)[i := freed k p]\<rparr>)"
proof -
  note I = port_invD [OF inv, folded p]
  have u: "Suc (buffers_used (freed k p)) = buffers_used p"
    using length_filter_set [OF k(1), of "\<lambda>f. f \<noteq> BUFFER_FREE" 0] k(2) by (simp add: buffers_used_def)
  then have nz: "nNumAssignedBuffers p \<noteq> 0" using I(7) by auto
  then have n: "unat (nNumAssignedBuffers p - 1) = buffers_used (freed k p)"
    using unat_dec [of "nNumAssignedBuffers p"] I(7) u by simp
  have one: "nNumAssignedBuffers p = 1 \<longleftrightarrow> buffers_used (freed k p) = 0"
    using I(7) u by (metis One_nat_def Suc_inject unat_1 word_unat_eq_iff)
  have le: "buffers_used p \<le> length (slots p)" by (simp add: buffers_used_def)
  show ?thesis using I(1,3,4,5,9,10) h u n one le
    by (auto simp: port_inv_def Let_def simp del: not_None_eq)
qed

text \<open>A slot that stays free, with a pointer written into it.\<close>

lemma inv_touch:
  fixes s :: "'p omx_comp"
  assumes inv: "port_inv i s" and p: "p = ports s ! i"
    and h: "heap_ok h" "storage_ok h (slots p) ((storage p)[k := a])"
  shows "port_inv i (s\<lparr>heap := h, ports := (ports s)[i := p\<lparr>pInternalBufferStorage := Some ((storage p)[k := a])\<rparr>]\<rparr>)"
  using inv h p by (simp add: port_inv_def Let_def buffers_used_def)

text \<open>The calls of a client on the buffers of one port.\<close>

datatype buffer_op = AllocOp nat u32 | UseOp nat u32 nat | FreeOp nat

fun buffer_step :: "nat \<Rightarrow> u32 \<Rightarrow> buffer_op \<Rightarrow> 'p omx_comp \<Rightarrow> (omx_err, 'p omx_comp) outcome" where
  "buffer_step i index (AllocOp app n) s =
     obind (base_port_AllocateBuffer i index app n s) (\<lambda>r s. Done (fst r) s)"
| "buffer_step i index (UseOp app n d) s =
     obind (base_port_UseBuffer i index app n d s) (\<lambda>r s. Done (fst r) s)"
| "buffer_step i index (FreeOp a) s = base_port_FreeBuffer i index a s"

text \<open>
  What the client has to keep to. It frees only when the component listens (or the callbacks are
  set); and when the first slot in use holds a buffer of the client, it passes a header of its
  own: one that is allocated and not the port's. For \<open>UseBuffer\<close> the memory must suffice for
  both headers or for none: \<open>use_buffer_miscounts\<close> below is what happens otherwise.
\<close>

definition owned :: "nat \<Rightarrow> 'p omx_comp \<Rightarrow> nat \<Rightarrow> bool" where
  "owned i s a =
     (\<exists>k < length (slots (ports s ! i)). slots (ports s ! i) ! k \<noteq> 0 \<and>
        (storage (ports s ! i) ! k = a \<or>
         slots (ports s ! i) ! k = 5 \<and> data_of (heap s) (storage (ports s ! i) ! k) = a))"

fun client_ok :: "nat \<Rightarrow> buffer_op \<Rightarrow> 'p omx_comp \<Rightarrow> bool" where
  "client_ok i (AllocOp app n) s = True"
| "client_ok i (UseOp app n d) s = (hbudget (heap s) \<noteq> 1)"
| "client_ok i (FreeOp a) s =
     ((callbacks s \<or> transientState s = OMX_TransStateIdleToLoaded \<or> bIsTransientToDisabled (ports s ! i)) \<and>
      (case find_slot in_use (ports s ! i) of
         Some (Some k) \<Rightarrow>
           slots (ports s ! i) ! k = 6 \<longrightarrow> hmem (heap s) a \<noteq> None \<and> \<not> owned i s a
       | _ \<Rightarrow> True))"

lemma find_slot_inv:
  assumes "port_inv i s"
  shows "\<exists>r. find_slot P (ports s ! i) = Some r \<and>
    (case r of None \<Rightarrow> \<forall>k < length (slots (ports s ! i)). \<not> P (slots (ports s ! i) ! k)
     | Some k \<Rightarrow> k < length (slots (ports s ! i)) \<and> P (slots (ports s ! i) ! k))"
proof -
  note I = port_invD [OF assms]
  obtain r where r: "find_slot P (ports s ! i) = Some r"
    using scan_slots_total [of "length (slots (ports s ! i))" "slots (ports s ! i)" P] I(4)
    unfolding find_slot_def by auto
  then show ?thesis
    using scan_slots_Some [of P _ "slots (ports s ! i)"] scan_slots_None [of P _ "slots (ports s ! i)"] I(4)
    unfolding find_slot_def by (auto split: option.split)
qed

lemma alloc_slot_inv:
  assumes inv: "port_inv i s" and k: "k < length (slots (ports s ! i))" "slots (ports s ! i) ! k = 0"
  shows "\<exists>r s'. alloc_slot i k app n s = Done r s' \<and> port_inv i s'"
proof -
  note I = port_invD [OF inv]
  let ?p = "ports s ! i" and ?a = "Suc (hbrk (heap s))"
  obtain t where t: "pAllocSem ?p = Some t" using I(3) by auto
  have kl: "k < length (storage ?p)" using k(1) I(5) by simp
  consider "hbudget (heap s) = 0" | "hbudget (heap s) = 1" | "hbudget (heap s) \<ge> 2" by linarith
  then show ?thesis
  proof cases
    case 1
    have "port_inv i (s\<lparr>heap := heap s, ports := (ports s)[i := ?p\<lparr>pInternalBufferStorage := Some ((storage ?p)[k := 0])\<rparr>]\<rparr>)"
      by (rule inv_touch [OF inv refl I(2)], rule storage_ok_touch [OF I(6) k]) simp
    then show ?thesis using alloc_slot_no_header [OF I(1) kl 1] by auto
  next
    case 2
    let ?h = "(heap s)\<lparr>hmem := (hmem (heap s))(?a \<mapsto> Header (zero_hdr\<lparr>bhead := setHeader sizeof_BUFFERHEADERTYPE\<rparr>)),
                       hbrk := ?a, hbudget := 0\<rparr>"
    have "port_inv i (s\<lparr>heap := ?h, ports := (ports s)[i := ?p\<lparr>pInternalBufferStorage := Some ((storage ?p)[k := ?a])\<rparr>]\<rparr>)"
      by (rule inv_touch [OF inv refl heap_ok_ext(2) [OF I(2)]], rule storage_ok_touch [OF I(6) k])
        (use heap_fresh [OF I(2), of ?a] in auto)
    then show ?thesis using alloc_slot_no_data [OF I(1) kl 2] by auto
  next
    case 3
    let ?b = "buffer_hdr i ?p app n (?a + 1)"
    let ?h = "(heap s)\<lparr>hmem := (hmem (heap s))(?a \<mapsto> Header ?b, ?a + 1 \<mapsto> Data n),
                      hbrk := ?a + 1, hbudget := hbudget (heap s) - 2\<rparr>"
    have d: "pBuffer ?b = ?a + 1" by (simp add: buffer_hdr_def use_hdr_def)
    have fr: "hmem (heap s) ?a = None" "hmem (heap s) (?a + 1) = None" using heap_fresh [OF I(2)] by simp_all
    have so: "storage_ok ?h ((slots ?p)[k := 5]) ((storage ?p)[k := ?a])"
      by (rule storage_ok_fill [OF I(6) k]) (use fr d in \<open>auto simp: slot_ok_def data_of_def\<close>)
    have ho: "heap_ok ?h" using heap_ok_ext(1) [OF I(2)] by simp
    have "port_inv i (s\<lparr>heap := ?h, ports := (ports s)[i := counted (filled k ?a 5 ?p)]\<rparr>)"
      by (rule inv_take [OF inv refl k _ _ _ _ _ _ _ ho so]) simp_all
    then show ?thesis using alloc_slot_done [OF I(1) kl k(1) 3 t] by auto
  qed
qed

lemma use_slot_inv:
  assumes inv: "port_inv i s" and k: "k < length (slots (ports s ! i))" "slots (ports s ! i) ! k = 0"
    and b: "hbudget (heap s) \<noteq> 1"
  shows "\<exists>r s'. use_slot i k app n d s = Done r s' \<and> port_inv i s'"
proof -
  note I = port_invD [OF inv]
  let ?p = "ports s ! i" and ?a = "Suc (hbrk (heap s))"
  obtain t where t: "pAllocSem ?p = Some t" using I(3) by auto
  have kl: "k < length (storage ?p)" using k(1) I(5) by simp
  consider "hbudget (heap s) = 0" | "hbudget (heap s) \<ge> 2" using b by linarith
  then show ?thesis
  proof cases
    case 1
    have "port_inv i (s\<lparr>heap := heap s, ports := (ports s)[i := ?p\<lparr>pInternalBufferStorage := Some ((storage ?p)[k := 0])\<rparr>]\<rparr>)"
      by (rule inv_touch [OF inv refl I(2)], rule storage_ok_touch [OF I(6) k]) simp
    then show ?thesis using use_slot_no_header [OF I(1) kl 1] by auto
  next
    case 2
    let ?b = "buffer_hdr i ?p app n d"
    let ?h = "(heap s)\<lparr>hmem := (hmem (heap s))(?a \<mapsto> Header ?b, ?a + 1 \<mapsto> Header ?b),
                      hbrk := ?a + 1, hbudget := hbudget (heap s) - 2\<rparr>"
    have fr: "hmem (heap s) ?a = None" "hmem (heap s) (?a + 1) = None" using heap_fresh [OF I(2)] by simp_all
    have so: "storage_ok ?h ((slots ?p)[k := 6]) ((storage ?p)[k := ?a])"
      by (rule storage_ok_fill [OF I(6) k]) (use fr in \<open>auto simp: slot_ok_def data_of_def\<close>)
    have ho: "heap_ok ?h" using heap_ok_ext(1) [OF I(2)] by simp
    have "port_inv i (s\<lparr>heap := ?h, ports := (ports s)[i := counted (used k ?a ?p)]\<rparr>)"
      by (rule inv_take [OF inv refl k _ _ _ _ _ _ _ ho so]) simp_all
    then show ?thesis using use_slot_done [OF I(1) kl k(1) 2 t] by auto
  qed
qed

lemma free_slot_inv:
  assumes inv: "port_inv i s" and k: "k < length (slots (ports s ! i))" "in_use (slots (ports s ! i) ! k)"
    and c: "slots (ports s ! i) ! k = 6 \<Longrightarrow> hmem (heap s) a \<noteq> None \<and> \<not> owned i s a"
  shows "\<exists>r s'. free_slot i k a s = Done r s' \<and> port_inv i s'"
proof -
  note I = port_invD [OF inv]
  let ?p = "ports s ! i" and ?h = "heap s"
  let ?st = "storage ?p ! k"
  obtain t where t: "pAllocSem ?p = Some t" using I(3) by auto
  have kl: "k < length (storage ?p)" using k(1) I(5) by simp
  have so: "slot_ok ?h (slots ?p ! k) ?st" using I(6) k(1) by (simp add: storage_ok_def)
  have nz: "slots ?p ! k \<noteq> 0" using k(2) by (auto simp: in_use_def)
  have h0: "hmem ?h 0 = None" using I(2) by (simp add: heap_ok_def)
  have others: "storage ?p ! l \<noteq> ?st" "slots ?p ! l = 5 \<Longrightarrow> data_of ?h (storage ?p ! l) \<noteq> ?st"
    "slots ?p ! l = 5 \<Longrightarrow> slots ?p ! k = 5 \<Longrightarrow> data_of ?h (storage ?p ! l) \<noteq> data_of ?h ?st"
    "slots ?p ! k = 5 \<Longrightarrow> storage ?p ! l \<noteq> data_of ?h ?st"
    if "l < length (slots ?p)" "l \<noteq> k" "slots ?p ! l \<noteq> 0" for l
  proof -
    have sl: "slot_ok ?h (slots ?p ! l) (storage ?p ! l)" using I(6) that by (simp add: storage_ok_def)
    show "storage ?p ! l \<noteq> ?st" using I(6) that k(1) nz unfolding storage_ok_def by metis
    show "slots ?p ! l = 5 \<Longrightarrow> data_of ?h (storage ?p ! l) \<noteq> ?st"
      using so sl nz by (auto simp: slot_ok_def data_of_def)
    show "slots ?p ! k = 5 \<Longrightarrow> storage ?p ! l \<noteq> data_of ?h ?st"
      using so sl nz that(3) by (auto simp: slot_ok_def data_of_def)
    show "slots ?p ! l = 5 \<Longrightarrow> slots ?p ! k = 5 \<Longrightarrow> data_of ?h (storage ?p ! l) \<noteq> data_of ?h ?st"
      using I(6) that k(1) nz unfolding storage_ok_def by metis
  qed
  show ?thesis
  proof (cases "slots ?p ! k = 5")
    case True
    then obtain b n where b: "hmem ?h ?st = Some (Header b)" "hmem ?h (pBuffer b) = Some (Data n)"
      using so nz by (auto simp: slot_ok_def)
    have ne: "?st \<noteq> 0" "pBuffer b \<noteq> 0" "pBuffer b \<noteq> ?st" using b h0 by (force intro: gr0I)+
    have d: "data_of ?h ?st = pBuffer b" using b by (simp add: data_of_def)
    let ?g = "?h\<lparr>hmem := (hmem ?h)(pBuffer b := None, ?st := None)\<rparr>"
    have so': "storage_ok ?g ((slots ?p)[k := 0]) ((storage ?p)[k := 0])"
      by (rule storage_ok_remove [OF I(6) k(1), where X = "{pBuffer b, ?st}"])
        (use others True d in auto)
    have "port_inv i (s\<lparr>heap := ?g, ports := (ports s)[i := freed k ?p]\<rparr>)"
      by (rule inv_release [OF inv refl k(1) nz heap_ok_ext(3) [OF I(2)] so'])
    then show ?thesis using free_slot_allocated [OF I(1) kl k(1) True t ne b] by auto
  next
    case False
    then have six: "slots ?p ! k = 6" using so nz by (auto simp: slot_ok_def)
    obtain b where b: "hmem ?h ?st = Some (Header b)" using so nz False by (auto simp: slot_ok_def)
    obtain v where v: "hmem ?h a = Some v" using c [OF six] by auto
    have no: "\<not> owned i s a" using c [OF six] by simp
    then have ne: "?st \<noteq> a" using k(1) nz by (auto simp: owned_def)
    have nn: "?st \<noteq> 0" "a \<noteq> 0" using b v h0 by (force intro: gr0I)+
    let ?g = "?h\<lparr>hmem := (hmem ?h)(a := None, ?st := None)\<rparr>"
    have so': "storage_ok ?g ((slots ?p)[k := 0]) ((storage ?p)[k := 0])"
      by (rule storage_ok_remove [OF I(6) k(1), where X = "{a, ?st}"])
        (use others no in \<open>auto simp: owned_def\<close>)
    have "port_inv i (s\<lparr>heap := ?g, ports := (ports s)[i := freed k ?p]\<rparr>)"
      by (rule inv_release [OF inv refl k(1) nz heap_ok_ext(3) [OF I(2)] so'])
    then show ?thesis using free_slot_assigned [OF I(1) kl k(1) six t nn(1) ne b nn(2) v] by auto
  qed
qed


lemma free_guard_events:
  "callbacks s \<or> transientState s = OMX_TransStateIdleToLoaded \<or> bIsTransientToDisabled (ports s ! i) \<Longrightarrow>
     \<exists>l. free_guard i index s = Done () (s\<lparr>events := l\<rparr>)"
  by (rule exI [of _ "events s @ (if transientState s \<noteq> OMX_TransStateIdleToLoaded \<and> \<not> bIsTransientToDisabled (ports s ! i)
        then [EventError OMX_ErrorPortUnpopulated index] else [])"])
    (auto simp: free_guard_def event_handler_def emit_def)

lemma port_invariant:
  assumes inv: "port_inv i s" and c: "client_ok i op s"
  shows "\<exists>r s'. buffer_step i index op s = Done r s' \<and> port_inv i s'"
proof -
  note I = port_invD [OF inv]
  have gp: "get_port i s = Some (ports s ! i)" using I(1) by simp
  have free: "\<exists>r s'. (case r0 of None \<Rightarrow> Done (e, None) s | Some k \<Rightarrow> f k) = Done r s' \<and> port_inv i s'"
    if "find_slot (\<lambda>f. f = BUFFER_FREE) (ports s ! i) = Some r0"
      "\<And>k. k < length (slots (ports s ! i)) \<Longrightarrow> slots (ports s ! i) ! k = 0 \<Longrightarrow>
         \<exists>r s'. f k = Done r s' \<and> port_inv i s'" for r0 e f
    using find_slot_inv [OF inv, of "\<lambda>f. f = BUFFER_FREE"] that inv by (cases r0) auto
  obtain r0 where r0: "find_slot (\<lambda>f. f = BUFFER_FREE) (ports s ! i) = Some r0"
    using find_slot_inv [OF inv] by blast
  show ?thesis
  proof (cases op)
    case (AllocOp app n)
    show ?thesis
    proof (cases "buffer_guard i index n s = OMX_ErrorNone")
      case True
      obtain r s' where "(case r0 of None \<Rightarrow> Done (OMX_ErrorInsufficientResources, None) s
          | Some k \<Rightarrow> alloc_slot i k app n s) = Done r s'" "port_inv i s'"
        using free [OF r0, of "\<lambda>k. alloc_slot i k app n s" OMX_ErrorInsufficientResources] alloc_slot_inv [OF inv]
        by blast
      then show ?thesis using AllocOp True gp r0 by (simp add: base_port_AllocateBuffer_def)
    qed (use AllocOp gp inv in \<open>simp add: base_port_AllocateBuffer_def\<close>)
  next
    case (UseOp app n d)
    then have b: "hbudget (heap s) \<noteq> 1" using c by simp
    show ?thesis
    proof (cases "buffer_guard i index n s = OMX_ErrorNone")
      case True
      obtain r s' where "(case r0 of None \<Rightarrow> Done (OMX_ErrorInsufficientResources, None) s
          | Some k \<Rightarrow> use_slot i k app n d s) = Done r s'" "port_inv i s'"
        using free [OF r0, of "\<lambda>k. use_slot i k app n d s" OMX_ErrorInsufficientResources] use_slot_inv [OF inv _ _ b]
        by blast
      then show ?thesis using UseOp True gp r0 by (simp add: base_port_UseBuffer_def)
    qed (use UseOp gp inv in \<open>simp add: base_port_UseBuffer_def\<close>)
  next
    case (FreeOp a)
    obtain l where g: "free_guard i index s = Done () (s\<lparr>events := l\<rparr>)"
      using free_guard_events [of s i index] c FreeOp by auto
    let ?s = "s\<lparr>events := l\<rparr>"
    have inv': "port_inv i ?s" using inv by (simp add: port_inv_def)
    obtain r1 where r1: "find_slot in_use (ports s ! i) = Some r1"
      using find_slot_inv [OF inv] by blast
    show ?thesis
    proof (cases r1)
      case None
      then show ?thesis using FreeOp gp g r1 inv inv' by (auto simp: base_port_FreeBuffer_def)
    next
      case (Some k)
      have k: "k < length (slots (ports s ! i))" "in_use (slots (ports s ! i) ! k)"
        using find_slot_inv [OF inv, of in_use] r1 Some by auto
      have "slots (ports s ! i) ! k = 6 \<Longrightarrow> hmem (heap s) a \<noteq> None \<and> \<not> owned i s a"
        using c FreeOp r1 Some by auto
      then obtain r s' where "free_slot i k a ?s = Done r s'" "port_inv i s'"
        using free_slot_inv [OF inv', of k a] k by (auto simp: owned_def)
      then show ?thesis using FreeOp gp g r1 inv Some by (auto simp: base_port_FreeBuffer_def)
    qed
  qed
qed

text \<open>Sequences of calls, and a client that keeps to its side at each.\<close>

fun buffer_run :: "nat \<Rightarrow> u32 \<Rightarrow> buffer_op list \<Rightarrow> 'p omx_comp \<Rightarrow> (omx_err list, 'p omx_comp) outcome" where
  "buffer_run i index [] s = Done [] s"
| "buffer_run i index (op # ops) s =
     obind (buffer_step i index op s) (\<lambda>e s.
     obind (buffer_run i index ops s) (\<lambda>es s. Done (e # es) s))"

fun client_run :: "nat \<Rightarrow> u32 \<Rightarrow> buffer_op list \<Rightarrow> 'p omx_comp \<Rightarrow> bool" where
  "client_run i index [] s = True"
| "client_run i index (op # ops) s =
     (client_ok i op s \<and>
      (case buffer_step i index op s of Done e s' \<Rightarrow> client_run i index ops s' | _ \<Rightarrow> True))"

lemma run_invariant:
  "port_inv i s \<Longrightarrow> client_run i index ops s \<Longrightarrow>
     \<exists>es s'. buffer_run i index ops s = Done es s' \<and> length es = length ops \<and> port_inv i s'"
proof (induction ops arbitrary: s)
  case (Cons op ops)
  obtain e s1 where e: "buffer_step i index op s = Done e s1" "port_inv i s1"
    using port_invariant [OF Cons.prems(1), of op index] Cons.prems(2) by auto
  then show ?case using Cons.IH [OF e(2)] Cons.prems(2) by auto
qed simp

text \<open>A component with one input port, about to go to Idle, for the examples.\<close>

definition demo_param :: omx_portdef where
  "demo_param = \<lparr>phead = setHeader sizeof_PORTDEFINITIONTYPE, nPortIndex = 0, eDir = OMX_DirInput,
     nBufferCountActual = 2, nBufferCountMin = 2, nBufferSize = 64, bEnabled = True, bPopulated = False,
     eDomain = OMX_PortDomainAudio, format_words = replicate 12 0,
     bBuffersContiguous = False, nBufferAlignment = 0\<rparr>"

definition demo_port :: omx_port where
  "demo_port = \<lparr>hTunneledComponent = 0, nTunnelFlags = 0, nTunneledPort = 0,
     eBufferSupplier = OMX_BufferSupplyUnspecified, nNumTunnelBuffer = 0, pAllocSem = Some \<lparr>semval = 0\<rparr>,
     bIsDestroying = False, nNumBufferFlushed = 0, bIsPortFlushed = False, pBufferQueue = Some [],
     pBufferSem = Some \<lparr>semval = 0\<rparr>, nNumAssignedBuffers = 0, sPortParam = demo_param,
     pInternalBufferStorage = Some [0, 0], bBufferStateAllocated = Some [0, 0],
     bIsTransientToEnabled = False, bIsTransientToDisabled = False, bIsFullOfBuffers = False,
     bIsEmptyOfBuffers = False, BufferProcessedCallback = Some EmptyBufferDone\<rparr>"

definition demo_heap :: omx_heap where
  "demo_heap = \<lparr>hmem = (\<lambda>_. None), hbrk = 0, hbudget = 100\<rparr>"

definition demo_comp :: "omx_port list \<Rightarrow> 'p \<Rightarrow> 'p omx_comp" where
  "demo_comp ps q = \<lparr>state = OMX_StateLoaded, transientState = OMX_TransStateLoadedToIdle, callbacks = True,
     messageQueue = Some [], messageSem = Some \<lparr>semval = 0\<rparr>, bMgmtSem = Some \<lparr>semval = 0\<rparr>,
     bStateSem = Some \<lparr>semval = 0\<rparr>, flush_all_condition = Some \<lparr>semval = 0\<rparr>,
     flush_condition = Some \<lparr>semval = 0\<rparr>,
     sPortTypesParam = [\<lparr>nStartPortNumber = 0, nPorts = of_nat (length ps)\<rparr>, \<lparr>nStartPortNumber = 0, nPorts = 0\<rparr>,
       \<lparr>nStartPortNumber = 0, nPorts = 0\<rparr>, \<lparr>nStartPortNumber = 0, nPorts = 0\<rparr>],
     ports = ps, bufferMgmtThreadID = -1, bIsEOSReached = False, nGroupPriority = 100, nGroupID = 0,
     pMark = (0, 0), currentQualityLevel = 0, nqualitylevels = 0, name = None,
     bellagioThreads = Some (0, 0), heap = demo_heap, events = [], peer = q\<rparr>"

lemma demo_inv: "port_inv 0 (demo_comp [demo_port] ())"
  by (simp add: port_inv_def demo_comp_def demo_port_def demo_param_def demo_heap_def heap_ok_def
      storage_ok_def slots_def storage_def slot_ok_def buffers_used_def All_less_Suc2)

text \<open>
  C18 -- Whatever sequence of \<open>AllocateBuffer\<close>, \<open>UseBuffer\<close> and \<open>FreeBuffer\<close> calls a client makes
  that keeps to its side, none of them faults, and the port's books stay right:
  \<open>nNumAssignedBuffers\<close> is the number of slots in use, \<open>bIsFullOfBuffers\<close> says that all are, a
  populated port has a buffer, every slot in use holds its own header (and buffer) on the heap.
\<close>

theorem port_accounting:
  assumes "port_inv i s" "client_run i index ops s"
  shows "\<exists>es s'. buffer_run i index ops s = Done es s' \<and> length es = length ops \<and> port_inv i s'"
  using assms by (rule run_invariant)

lemma port_accounting_witness:
  "\<exists>es s'. buffer_run 0 0 [AllocOp 7 64, AllocOp 7 64, FreeOp 0, UseOp 9 128 77] (demo_comp [demo_port] ()) =
     Done es s' \<and> length es = 4 \<and> port_inv 0 s'"
proof -
  have "client_run 0 0 [AllocOp 7 64, AllocOp 7 64, FreeOp 0, UseOp 9 128 77] (demo_comp [demo_port] ())"
    by code_simp
  then show ?thesis using port_accounting [OF demo_inv] by fastforce
qed

section \<open>A full set of buffers\<close>

text \<open>What the operations on buffers do not change in a port.\<close>

definition static :: "omx_port \<Rightarrow> u32 \<times> bool \<times> omx_portdef" where
  "static p = (nTunnelFlags p, bIsTransientToEnabled p, (sPortParam p)\<lparr>bPopulated := False\<rparr>)"

lemma static_fields [simp]:
  "static (counted p) = static p" "static (filled k a f p) = static p" "static (freed k p) = static p"
  by (simp_all add: static_def counted_def filled_def freed_def Let_def upd_param_def)

lemma staticD:
  assumes "static p = static q"
  shows "nTunnelFlags p = nTunnelFlags q" "bIsTransientToEnabled p = bIsTransientToEnabled q"
    "eDir (sPortParam p) = eDir (sPortParam q)" "nPortIndex (sPortParam p) = nPortIndex (sPortParam q)"
    "nBufferSize (sPortParam p) = nBufferSize (sPortParam q)"
    "nBufferCountActual (sPortParam p) = nBufferCountActual (sPortParam q)"
proof -
  have "(sPortParam p)\<lparr>bPopulated := False\<rparr> = (sPortParam q)\<lparr>bPopulated := False\<rparr>"
    using assms by (simp add: static_def)
  from arg_cong [OF this, of eDir] arg_cong [OF this, of nPortIndex] arg_cong [OF this, of nBufferSize]
    arg_cong [OF this, of nBufferCountActual]
  show "eDir (sPortParam p) = eDir (sPortParam q)" "nPortIndex (sPortParam p) = nPortIndex (sPortParam q)"
    "nBufferSize (sPortParam p) = nBufferSize (sPortParam q)"
    "nBufferCountActual (sPortParam p) = nBufferCountActual (sPortParam q)" by simp_all
qed (use assms in \<open>simp_all add: static_def\<close>)

lemma static_hdr: "static p = static q \<Longrightarrow> buffer_hdr i p app sz d = buffer_hdr i q app sz d"
  using staticD(3,4) [of p q] by (simp add: buffer_hdr_def stamp_def)

lemma static_guard:
  "static (ports s ! i) = static (ports s0 ! i) \<Longrightarrow> transientState s = transientState s0 \<Longrightarrow>
     buffer_guard i index sz s = buffer_guard i index sz s0"
  using staticD [of "ports s ! i" "ports s0 ! i"]
  by (simp add: buffer_guard_def Let_def PORT_IS_TUNNELED_def PORT_IS_BUFFER_SUPPLIER_def)

text \<open>
  The heap while the buffers \<open>j\<close> to \<open>k - 1\<close> of a set live: each takes two addresses, the header
  first.
\<close>

definition live_mem ::
    "nat \<Rightarrow> omx_port \<Rightarrow> nat \<Rightarrow> u32 \<Rightarrow> omx_heap \<Rightarrow> nat \<Rightarrow> nat \<Rightarrow> nat \<Rightarrow> omx_obj option" where
  "live_mem i p app sz h j k a =
     (if hbrk h + 2 * j < a \<and> a \<le> hbrk h + 2 * k
      then (if odd (a - hbrk h) then Some (Header (buffer_hdr i p app sz (a + 1))) else Some (Data sz))
      else hmem h a)"

lemma live_mem_start [simp]: "live_mem i p app sz h j j = hmem h"
  by (rule ext) (auto simp: live_mem_def)

lemma live_mem_grow:
  assumes "j \<le> k"
  shows "(live_mem i p app sz h j k)(Suc (hbrk h + 2 * k) \<mapsto> Header (buffer_hdr i p app sz (Suc (hbrk h + 2 * k) + 1)),
            Suc (Suc (hbrk h + 2 * k)) \<mapsto> Data sz) = live_mem i p app sz h j (Suc k)"
proof
  fix a
  consider "a = Suc (hbrk h + 2 * k)" | "a = Suc (Suc (hbrk h + 2 * k))"
    | "a \<noteq> Suc (hbrk h + 2 * k)" "a \<noteq> Suc (Suc (hbrk h + 2 * k))" by blast
  then show "((live_mem i p app sz h j k)(Suc (hbrk h + 2 * k) \<mapsto> Header (buffer_hdr i p app sz (Suc (hbrk h + 2 * k) + 1)),
            Suc (Suc (hbrk h + 2 * k)) \<mapsto> Data sz)) a = live_mem i p app sz h j (Suc k) a"
  proof cases
    case 1
    moreover have "Suc (hbrk h + 2 * k) - hbrk h = Suc (2 * k)" by simp
    ultimately show ?thesis using assms by (simp add: live_mem_def)
  next
    case 2
    moreover have "Suc (Suc (hbrk h + 2 * k)) - hbrk h = Suc (Suc (2 * k))" by simp
    ultimately show ?thesis using assms by (simp add: live_mem_def)
  next
    case 3
    then have "a \<le> hbrk h + 2 * Suc k \<longleftrightarrow> a \<le> hbrk h + 2 * k" by auto
    then show ?thesis using 3 by (simp add: live_mem_def)
  qed
qed

lemma live_mem_shrink:
  assumes "j < k" "heap_ok h"
  shows "(live_mem i p app sz h j k)(Suc (Suc (hbrk h + 2 * j)) := None, Suc (hbrk h + 2 * j) := None) =
    live_mem i p app sz h (Suc j) k"
proof
  fix a
  have n: "hmem h (Suc (hbrk h + 2 * j)) = None" "hmem h (Suc (Suc (hbrk h + 2 * j))) = None"
    using heap_fresh [OF assms(2)] by simp_all
  show "((live_mem i p app sz h j k)(Suc (Suc (hbrk h + 2 * j)) := None, Suc (hbrk h + 2 * j) := None)) a =
    live_mem i p app sz h (Suc j) k a"
  proof (cases "a = Suc (hbrk h + 2 * j) \<or> a = Suc (Suc (hbrk h + 2 * j))")
    case True
    then show ?thesis using n by (auto simp: live_mem_def)
  next
    case False
    then have "hbrk h + 2 * Suc j < a \<longleftrightarrow> hbrk h + 2 * j < a" by auto
    then show ?thesis using False by (simp add: live_mem_def)
  qed
qed

lemma live_mem_at:
  assumes "j \<le> l" "l < k"
  shows "live_mem i p app sz h j k (Suc (hbrk h + 2 * l)) = Some (Header (buffer_hdr i p app sz (Suc (Suc (hbrk h + 2 * l)))))"
    "live_mem i p app sz h j k (Suc (Suc (hbrk h + 2 * l))) = Some (Data sz)"
proof -
  have "Suc (hbrk h + 2 * l) - hbrk h = Suc (2 * l)" "Suc (Suc (hbrk h + 2 * l)) - hbrk h = Suc (Suc (2 * l))" by simp_all
  then show "live_mem i p app sz h j k (Suc (hbrk h + 2 * l)) = Some (Header (buffer_hdr i p app sz (Suc (Suc (hbrk h + 2 * l)))))"
    "live_mem i p app sz h j k (Suc (Suc (hbrk h + 2 * l))) = Some (Data sz)"
    using assms by (simp_all add: live_mem_def)
qed

definition set_flags :: "nat \<Rightarrow> nat \<Rightarrow> nat \<Rightarrow> u32 list" where
  "set_flags n j k = map (\<lambda>l. if j \<le> l \<and> l < k then 5 else 0) [0..<n]"

lemma set_flags_simps [simp]: "length (set_flags n j k) = n"
  "l < n \<Longrightarrow> set_flags n j k ! l = (if j \<le> l \<and> l < k then 5 else 0)"
  by (simp_all add: set_flags_def)

lemma set_flags_grow: "k < n \<Longrightarrow> j \<le> k \<Longrightarrow> (set_flags n j k)[k := 5] = set_flags n j (Suc k)"
  by (auto simp: list_eq_iff_nth_eq nth_list_update less_Suc_eq)

lemma set_flags_shrink: "j < k \<Longrightarrow> k \<le> n \<Longrightarrow> (set_flags n j k)[j := 0] = set_flags n (Suc j) k"
  by (auto simp: list_eq_iff_nth_eq nth_list_update Suc_le_eq)

text \<open>
  The state in which the buffers \<open>j\<close> to \<open>k - 1\<close> of the port's set live, reached from a state
  \<open>s0\<close>, and what its port \<open>p\<close> looks like.
\<close>

definition stage_comp :: "nat \<Rightarrow> nat \<Rightarrow> u32 \<Rightarrow> 'p omx_comp \<Rightarrow> nat \<Rightarrow> nat \<Rightarrow> omx_port \<Rightarrow> 'p omx_comp" where
  "stage_comp i app sz s0 j k p =
     s0\<lparr>heap := (heap s0)\<lparr>hmem := live_mem i (ports s0 ! i) app sz (heap s0) j k,
                         hbrk := hbrk (heap s0) + 2 * k, hbudget := hbudget (heap s0) - 2 * k\<rparr>,
        ports := (ports s0)[i := p]\<rparr>"

definition stage_port :: "omx_port \<Rightarrow> nat \<Rightarrow> nat \<Rightarrow> nat \<Rightarrow> omx_port \<Rightarrow> bool" where
  "stage_port p0 b j k p =
     (let n = unat (nBufferCountActual (sPortParam p0)) in
      static p = static p0 \<and> slots p = set_flags n j k \<and> length (storage p) = n \<and>
      (\<forall>l. j \<le> l \<longrightarrow> l < k \<longrightarrow> storage p ! l = Suc (b + 2 * l)) \<and>
      nNumAssignedBuffers p = of_nat (k - j))"

lemma stage_comp_fields [simp]:
  "i < length (ports s0) \<Longrightarrow> ports (stage_comp i app sz s0 j k p) ! i = p"
  "length (ports (stage_comp i app sz s0 j k p)) = length (ports s0)"
  "hmem (heap (stage_comp i app sz s0 j k p)) = live_mem i (ports s0 ! i) app sz (heap s0) j k"
  "hbrk (heap (stage_comp i app sz s0 j k p)) = hbrk (heap s0) + 2 * k"
  "hbudget (heap (stage_comp i app sz s0 j k p)) = hbudget (heap s0) - 2 * k"
  "transientState (stage_comp i app sz s0 j k p) = transientState s0"
  "callbacks (stage_comp i app sz s0 j k p) = callbacks s0"
  by (simp_all add: stage_comp_def)

lemma stage_portD:
  assumes "stage_port p0 b j k p"
  defines "n \<equiv> unat (nBufferCountActual (sPortParam p0))"
  shows "static p = static p0" "slots p = set_flags n j k" "length (storage p) = n"
    "j \<le> l \<Longrightarrow> l < k \<Longrightarrow> storage p ! l = Suc (b + 2 * l)" "nNumAssignedBuffers p = of_nat (k - j)"
  using assms by (simp_all add: stage_port_def Let_def)

lemma stage_alloc:
  fixes s0 :: "'p omx_comp"
  assumes st: "stage_port (ports s0 ! i) (hbrk (heap s0)) 0 k p" and i: "i < length (ports s0)"
    and k: "k < unat (nBufferCountActual (sPortParam (ports s0 ! i)))"
    and g: "buffer_guard i index sz s0 = OMX_ErrorNone" and b: "2 * Suc k \<le> hbudget (heap s0)"
    and t: "pAllocSem p = Some t"
  defines "a \<equiv> Suc (hbrk (heap s0) + 2 * k)"
  shows "base_port_AllocateBuffer i index app sz (stage_comp i app sz s0 0 k p) =
      Done (OMX_ErrorNone, Some a) (stage_comp i app sz s0 0 (Suc k) (counted (filled k a 5 p)))"
    "stage_port (ports s0 ! i) (hbrk (heap s0)) 0 (Suc k) (counted (filled k a 5 p))"
proof -
  note I = stage_portD [OF st]
  let ?s = "stage_comp i app sz s0 0 k p" and ?n = "unat (nBufferCountActual (sPortParam (ports s0 ! i)))"
  have "buffer_guard i index sz ?s = OMX_ErrorNone" using static_guard [of ?s i s0] I(1) i g by simp
  moreover have "find_slot (\<lambda>f. f = BUFFER_FREE) p = Some (Some k)"
    unfolding find_slot_def using k I(2) staticD(6) [OF I(1)]
    by (intro scan_slots_first) auto
  ultimately have "base_port_AllocateBuffer i index app sz ?s = alloc_slot i k app sz ?s"
    using i by (simp add: base_port_AllocateBuffer_def)
  also have "\<dots> = Done (OMX_ErrorNone, Some a) (stage_comp i app sz s0 0 (Suc k) (counted (filled k a 5 p)))"
  proof -
    have l: "i < length (ports ?s)" "k < length (storage (ports ?s ! i))" "k < length (slots (ports ?s ! i))"
      "hbudget (heap ?s) \<ge> 2" "pAllocSem (ports ?s ! i) = Some t"
      using k I(2,3) b i t by auto
    have m: "(hmem (heap ?s))(Suc (hbrk (heap ?s)) \<mapsto> Header (buffer_hdr i (ports ?s ! i) app sz (Suc (hbrk (heap ?s)) + 1)),
         Suc (hbrk (heap ?s)) + 1 \<mapsto> Data sz) = live_mem i (ports s0 ! i) app sz (heap s0) 0 (Suc k)"
      using live_mem_grow [of 0 k i "ports s0 ! i" app sz "heap s0"] i static_hdr [OF I(1)] by simp
    show ?thesis
      unfolding alloc_slot_done [OF l] m using i by (simp add: stage_comp_def a_def)
  qed
  finally show "base_port_AllocateBuffer i index app sz ?s =
      Done (OMX_ErrorNone, Some a) (stage_comp i app sz s0 0 (Suc k) (counted (filled k a 5 p)))" .
  show "stage_port (ports s0 ! i) (hbrk (heap s0)) 0 (Suc k) (counted (filled k a 5 p))"
    using I k set_flags_grow [OF k, of 0] by (auto simp: stage_port_def Let_def a_def less_Suc_eq)
qed

lemma stage_free:
  fixes s0 :: "'p omx_comp" and i :: nat
  defines "k \<equiv> unat (nBufferCountActual (sPortParam (ports s0 ! i)))"
  assumes st: "stage_port (ports s0 ! i) (hbrk (heap s0)) j k p" and i: "i < length (ports s0)"
    and jk: "j < k" and h: "heap_ok (heap s0)" and idx: "index = nPortIndex (sPortParam (ports s0 ! i))"
    and nt: "\<not> (PORT_IS_TUNNELED (ports s0 ! i) \<and> PORT_IS_BUFFER_SUPPLIER (ports s0 ! i))"
    and tr: "transientState s0 = OMX_TransStateIdleToLoaded" and t: "pAllocSem p = Some t"
  shows "base_port_FreeBuffer i index a (stage_comp i app sz s0 j k p) =
      Done OMX_ErrorNone (stage_comp i app sz s0 (Suc j) k (freed j p))"
    "stage_port (ports s0 ! i) (hbrk (heap s0)) (Suc j) k (freed j p)"
proof -
  note I = stage_portD [OF st, folded k_def]
  let ?s = "stage_comp i app sz s0 j k p"
  have "find_slot in_use p = Some (Some j)"
    unfolding find_slot_def using jk I(2) staticD(6) [OF I(1)]
    by (intro scan_slots_first) (auto simp: in_use_def k_def)
  moreover have "\<not> (PORT_IS_TUNNELED p \<and> PORT_IS_BUFFER_SUPPLIER p)"
    using nt staticD(1) [OF I(1)] by (simp add: PORT_IS_TUNNELED_def PORT_IS_BUFFER_SUPPLIER_def)
  ultimately have "base_port_FreeBuffer i index a ?s = free_slot i j a ?s"
    using i idx tr staticD(4) [OF I(1)] by (auto simp: base_port_FreeBuffer_def free_guard_def)
  also have "\<dots> = Done OMX_ErrorNone (stage_comp i app sz s0 (Suc j) k (freed j p))"
  proof -
    let ?hd = "Suc (hbrk (heap s0) + 2 * j)"
    let ?b = "buffer_hdr i (ports s0 ! i) app sz (Suc ?hd)"
    have sj: "storage (ports ?s ! i) ! j = ?hd" using I(4) [of j] jk i by simp
    have l: "i < length (ports ?s)" "j < length (storage (ports ?s ! i))" "j < length (slots (ports ?s ! i))"
      "slots (ports ?s ! i) ! j = 5" "pAllocSem (ports ?s ! i) = Some t"
      using jk I(2,3) i t by auto
    have b: "pBuffer ?b = Suc ?hd" by (simp add: buffer_hdr_def use_hdr_def)
    have m: "hmem (heap ?s) (storage (ports ?s ! i) ! j) = Some (Header ?b)" "hmem (heap ?s) (pBuffer ?b) = Some (Data sz)"
      unfolding sj b using live_mem_at [of j j k i "ports s0 ! i" app sz "heap s0"] jk by simp_all
    have n: "storage (ports ?s ! i) ! j \<noteq> 0" "pBuffer ?b \<noteq> 0" "pBuffer ?b \<noteq> storage (ports ?s ! i) ! j"
      unfolding sj b by simp_all
    have e: "(hmem (heap ?s))(pBuffer ?b := None, storage (ports ?s ! i) ! j := None) =
        live_mem i (ports s0 ! i) app sz (heap s0) (Suc j) k"
      unfolding sj b using live_mem_shrink [OF jk h, of i "ports s0 ! i" app sz] by simp
    show ?thesis
      unfolding free_slot_allocated [OF l n m] e using i by (simp add: stage_comp_def)
  qed
  finally show "base_port_FreeBuffer i index a ?s =
      Done OMX_ErrorNone (stage_comp i app sz s0 (Suc j) k (freed j p))" .
  have "nNumAssignedBuffers p - 1 = of_nat (k - Suc j)"
    using I(5) jk by (simp add: of_nat_diff)
  then show "stage_port (ports s0 ! i) (hbrk (heap s0)) (Suc j) k (freed j p)"
    using I(1,2,3,4) jk set_flags_shrink [OF jk, of k]
    by (auto simp: stage_port_def Let_def k_def)
qed

fun alloc_run ::
    "nat \<Rightarrow> u32 \<Rightarrow> nat \<Rightarrow> u32 \<Rightarrow> nat \<Rightarrow> 'p omx_comp \<Rightarrow> ((omx_err \<times> nat option) list, 'p omx_comp) outcome" where
  "alloc_run i index app sz 0 s = Done [] s"
| "alloc_run i index app sz (Suc n) s =
     obind (base_port_AllocateBuffer i index app sz s) (\<lambda>r s.
     obind (alloc_run i index app sz n s) (\<lambda>rs s. Done (r # rs) s))"

fun free_run :: "nat \<Rightarrow> u32 \<Rightarrow> nat list \<Rightarrow> 'p omx_comp \<Rightarrow> (omx_err list, 'p omx_comp) outcome" where
  "free_run i index [] s = Done [] s"
| "free_run i index (a # as) s =
     obind (base_port_FreeBuffer i index a s) (\<lambda>e s.
     obind (free_run i index as s) (\<lambda>es s. Done (e # es) s))"

lemma sem_counted:
  "pAllocSem (counted q) =
     (if nBufferCountActual (sPortParam q) = nNumAssignedBuffers q + 1
      then map_option tsem_up (pAllocSem q) else pAllocSem q)"
  by (simp add: counted_def Let_def upd_param_def)

lemma sem_freed:
  "pAllocSem (freed k q) =
     (if nNumAssignedBuffers q = 1 then map_option tsem_up (pAllocSem q) else pAllocSem q)"
  "bIsEmptyOfBuffers (freed k q) = (bIsEmptyOfBuffers q \<or> nNumAssignedBuffers q = 1)"
  by (simp_all add: freed_def Let_def upd_param_def)

lemma count_eq: "n < 2 ^ 32 \<Longrightarrow> (w :: u32) = of_nat n \<longleftrightarrow> unat w = n"
  by (auto simp: unat_of_nat_fits word_unat_eq_iff)

lemma alloc_run_stage:
  fixes s0 :: "'p omx_comp" and i :: nat
  defines "p0 \<equiv> ports s0 ! i" and "b \<equiv> hbrk (heap s0)"
  defines "n \<equiv> unat (nBufferCountActual (sPortParam p0))"
  assumes i: "i < length (ports s0)" and g: "buffer_guard i index sz s0 = OMX_ErrorNone"
    and bud: "2 * n \<le> hbudget (heap s0)"
  shows "stage_port p0 b 0 k p \<Longrightarrow> k + m \<le> n \<Longrightarrow> pAllocSem p = Some t \<Longrightarrow>
    \<exists>p'. alloc_run i index app sz m (stage_comp i app sz s0 0 k p) =
      Done (map (\<lambda>l. (OMX_ErrorNone, Some (Suc (b + 2 * l)))) [k..<k + m]) (stage_comp i app sz s0 0 (k + m) p') \<and>
      stage_port p0 b 0 (k + m) p' \<and>
      pAllocSem p' = Some (if m \<noteq> 0 \<and> k + m = n then tsem_up t else t) \<and>
      (m \<noteq> 0 \<and> k + m = n \<longrightarrow> bPopulated (sPortParam p') \<and> bIsFullOfBuffers p')"
proof (induction m arbitrary: k p t)
  case 0
  then show ?case by auto
next
  case (Suc m)
  let ?a = "Suc (b + 2 * k)" and ?q = "filled k (Suc (b + 2 * k)) 5 p"
  have k: "k < n" "2 * Suc k \<le> hbudget (heap s0)" using Suc.prems(2) bud by auto
  note A = stage_alloc [OF Suc.prems(1) [unfolded p0_def b_def] i k(1) [unfolded n_def p0_def] g k(2) Suc.prems(3),
      folded p0_def b_def]
  have nn: "n < 2 ^ 32" using unat_u32_less [of "nBufferCountActual (sPortParam p0)"] by (simp add: n_def)
  have cnt: "nBufferCountActual (sPortParam ?q) = nNumAssignedBuffers ?q + 1 \<longleftrightarrow> Suc k = n"
  proof -
    have "nNumAssignedBuffers ?q + 1 = of_nat (Suc k)" using stage_portD(5) [OF Suc.prems(1)] by simp
    then show ?thesis using count_eq [of "Suc k" "nBufferCountActual (sPortParam p)"] k nn
        staticD(6) [OF stage_portD(1) [OF Suc.prems(1)]] by (simp add: n_def eq_commute add.commute)
  qed
  obtain t1 where t1: "pAllocSem (counted ?q) = Some t1" "t1 = (if Suc k = n then tsem_up t else t)"
    using Suc.prems(3) cnt by (simp add: sem_counted)
  obtain p' where p': "alloc_run i index app sz m (stage_comp i app sz s0 0 (Suc k) (counted ?q)) =
      Done (map (\<lambda>l. (OMX_ErrorNone, Some (Suc (b + 2 * l)))) [Suc k..<Suc k + m]) (stage_comp i app sz s0 0 (Suc k + m) p')"
      "stage_port p0 b 0 (Suc k + m) p'"
      "pAllocSem p' = Some (if m \<noteq> 0 \<and> Suc k + m = n then tsem_up t1 else t1)"
      "m \<noteq> 0 \<and> Suc k + m = n \<longrightarrow> bPopulated (sPortParam p') \<and> bIsFullOfBuffers p'"
    using Suc.IH [OF A(2) _ t1(1)] Suc.prems(2) by auto
  have last: "bPopulated (sPortParam p') \<and> bIsFullOfBuffers p'" if "m = 0" "Suc k = n"
  proof -
    have "stage_comp i app sz s0 0 (Suc k) (counted ?q) = stage_comp i app sz s0 0 (Suc k) p'" using p'(1) that(1) by simp
    from arg_cong [OF this, of "\<lambda>s. ports s ! i"] have "p' = counted ?q" using i by simp
    then show ?thesis using cnt that(2) by simp
  qed
  have "alloc_run i index app sz (Suc m) (stage_comp i app sz s0 0 k p) =
      Done (map (\<lambda>l. (OMX_ErrorNone, Some (Suc (b + 2 * l)))) [k..<k + Suc m]) (stage_comp i app sz s0 0 (k + Suc m) p')"
    using A(1) p'(1) by (simp add: upt_conv_Cons)
  moreover have "pAllocSem p' = Some (if Suc m \<noteq> 0 \<and> k + Suc m = n then tsem_up t else t)"
    using p'(3) t1(2) Suc.prems(2) by auto
  ultimately show ?case using p'(2,4) last by (intro exI [of _ p']) auto
qed

lemma free_run_stage:
  fixes s0 :: "'p omx_comp" and i :: nat
  defines "p0 \<equiv> ports s0 ! i" and "b \<equiv> hbrk (heap s0)"
  defines "n \<equiv> unat (nBufferCountActual (sPortParam p0))"
  assumes i: "i < length (ports s0)" and h: "heap_ok (heap s0)" and idx: "index = nPortIndex (sPortParam p0)"
    and nt: "\<not> (PORT_IS_TUNNELED p0 \<and> PORT_IS_BUFFER_SUPPLIER p0)"
    and tr: "transientState s0 = OMX_TransStateIdleToLoaded"
  shows "stage_port p0 b j n p \<Longrightarrow> j + length as \<le> n \<Longrightarrow> pAllocSem p = Some t \<Longrightarrow>
    \<exists>p'. free_run i index as (stage_comp i app sz s0 j n p) =
      Done (replicate (length as) OMX_ErrorNone) (stage_comp i app sz s0 (j + length as) n p') \<and>
      stage_port p0 b (j + length as) n p' \<and>
      pAllocSem p' = Some (if as \<noteq> [] \<and> j + length as = n then tsem_up t else t) \<and>
      (as \<noteq> [] \<and> j + length as = n \<longrightarrow> \<not> bPopulated (sPortParam p') \<and> bIsEmptyOfBuffers p') \<and>
      (as \<noteq> [] \<longrightarrow> \<not> bIsFullOfBuffers p')"
proof (induction as arbitrary: j p t)
  case Nil
  then show ?case by auto
next
  case (Cons a as)
  have j: "j < n" using Cons.prems(2) by simp
  note A = stage_free [OF Cons.prems(1) [unfolded p0_def b_def n_def] i j [unfolded n_def p0_def] h idx [unfolded p0_def]
      nt [unfolded p0_def] tr Cons.prems(3), folded p0_def b_def n_def]
  have nn: "n < 2 ^ 32" using unat_u32_less [of "nBufferCountActual (sPortParam p0)"] by (simp add: n_def)
  have "unat (nNumAssignedBuffers p) = n - j"
    unfolding stage_portD(5) [OF Cons.prems(1)] using nn by (intro unat_of_nat_fits) simp
  then have cnt: "nNumAssignedBuffers p = 1 \<longleftrightarrow> Suc j = n"
    using count_eq [of 1 "nNumAssignedBuffers p"] j by auto
  obtain t1 where t1: "pAllocSem (freed j p) = Some t1" "t1 = (if Suc j = n then tsem_up t else t)"
    using Cons.prems(3) cnt by (simp add: sem_freed)
  obtain p' where p': "free_run i index as (stage_comp i app sz s0 (Suc j) n (freed j p)) =
      Done (replicate (length as) OMX_ErrorNone) (stage_comp i app sz s0 (Suc j + length as) n p')"
      "stage_port p0 b (Suc j + length as) n p'"
      "pAllocSem p' = Some (if as \<noteq> [] \<and> Suc j + length as = n then tsem_up t1 else t1)"
      "as \<noteq> [] \<and> Suc j + length as = n \<longrightarrow> \<not> bPopulated (sPortParam p') \<and> bIsEmptyOfBuffers p'"
      "as \<noteq> [] \<longrightarrow> \<not> bIsFullOfBuffers p'"
    using Cons.IH [OF A(2) _ t1(1)] Cons.prems(2) by auto
  have last: "p' = freed j p" if "as = []"
  proof -
    have "stage_comp i app sz s0 (Suc j) n (freed j p) = stage_comp i app sz s0 (Suc j) n p'" using p'(1) that by simp
    from arg_cong [OF this, of "\<lambda>s. ports s ! i"] show ?thesis using i by simp
  qed
  have "free_run i index (a # as) (stage_comp i app sz s0 j n p) =
      Done (replicate (length (a # as)) OMX_ErrorNone) (stage_comp i app sz s0 (j + length (a # as)) n p')"
    using A(1) p'(1) by simp
  moreover have "pAllocSem p' = Some (if a # as \<noteq> [] \<and> j + length (a # as) = n then tsem_up t else t)"
    using p'(3) t1(2) Cons.prems(2) by auto
  moreover have "\<not> bIsFullOfBuffers p'" using p'(5) last by (cases "as = []") auto
  moreover have "\<not> bPopulated (sPortParam p') \<and> bIsEmptyOfBuffers p'" if "j + length (a # as) = n"
    using p'(4) last that cnt by (cases "as = []") (auto simp: sem_freed)
  ultimately show ?case using p'(2) by (intro exI [of _ p']) auto
qed

text \<open>A port whose buffers the client may now allocate, with memory for all of them.\<close>

definition ready :: "nat \<Rightarrow> u32 \<Rightarrow> u32 \<Rightarrow> 'p omx_comp \<Rightarrow> bool" where
  "ready i index sz s =
     (let p = ports s ! i; n = unat (nBufferCountActual (sPortParam p)) in
      i < length (ports s) \<and> 0 < n \<and> slots p = replicate n BUFFER_FREE \<and> length (storage p) = n \<and>
      nNumAssignedBuffers p = 0 \<and> pAllocSem p \<noteq> None \<and>
      buffer_guard i index sz s = OMX_ErrorNone \<and> 2 * n \<le> hbudget (heap s) \<and> heap_ok (heap s))"

lemma readyD:
  fixes s :: "'p omx_comp" and i :: nat
  assumes "ready i index sz s"
  defines "p \<equiv> ports s ! i"
  defines "n \<equiv> unat (nBufferCountActual (sPortParam p))"
  shows "i < length (ports s)" "0 < n" "stage_port p (hbrk (heap s)) 0 0 p" "s = stage_comp i app sz s 0 0 p"
    "pAllocSem p \<noteq> None" "buffer_guard i index sz s = OMX_ErrorNone" "2 * n \<le> hbudget (heap s)" "heap_ok (heap s)"
    "index = nPortIndex (sPortParam p)" "\<not> (PORT_IS_TUNNELED p \<and> PORT_IS_BUFFER_SUPPLIER p)"
proof -
  show "i < length (ports s)" "0 < n" "pAllocSem p \<noteq> None" "buffer_guard i index sz s = OMX_ErrorNone"
    "2 * n \<le> hbudget (heap s)" "heap_ok (heap s)"
    using assms by (simp_all add: ready_def Let_def)
  show "index = nPortIndex (sPortParam p)" "\<not> (PORT_IS_TUNNELED p \<and> PORT_IS_BUFFER_SUPPLIER p)"
    using assms by (auto simp: ready_def Let_def buffer_guard_def split: if_splits)
  show "stage_port p (hbrk (heap s)) 0 0 p" using assms
    by (simp add: ready_def Let_def stage_port_def set_flags_def map_replicate_const)
  show "s = stage_comp i app sz s 0 0 p" by (simp add: stage_comp_def p_def)
qed

lemma ready_alloc:
  fixes s :: "'p omx_comp" and i :: nat
  assumes r: "ready i index sz s" and t: "pAllocSem (ports s ! i) = Some t"
  defines "n \<equiv> unat (nBufferCountActual (sPortParam (ports s ! i)))"
  shows "\<exists>p. alloc_run i index app sz n s =
      Done (map (\<lambda>l. (OMX_ErrorNone, Some (Suc (hbrk (heap s) + 2 * l)))) [0..<n]) (stage_comp i app sz s 0 n p) \<and>
    stage_port (ports s ! i) (hbrk (heap s)) 0 n p \<and> pAllocSem p = Some (tsem_up t) \<and>
    bPopulated (sPortParam p) \<and> bIsFullOfBuffers p"
proof -
  note R = readyD [OF r, folded n_def]
  have e: "stage_comp i app sz s 0 0 (ports s ! i) = s" using R(4) [of app] by simp
  show ?thesis
    using alloc_run_stage [OF R(1,6) R(7) [unfolded n_def] R(3), of n t app] t R(2) e by (auto simp: n_def)
qed

text \<open>
  C35 -- On a port that is ready for its buffers, as many \<open>AllocateBuffer\<close> calls as the port has
  buffers all succeed and return different headers; together they raise \<open>pAllocSem\<close>, on which the state change waits, once,
  and leave the port populated and full; one more call is refused and changes nothing.
\<close>

theorem buffers_populate:
  fixes s :: "'p omx_comp"
  assumes "ready i index sz s" "pAllocSem (ports s ! i) = Some t"
  shows "\<exists>rs s'. alloc_run i index app sz (unat (nBufferCountActual (sPortParam (ports s ! i)))) s = Done rs s' \<and>
    (\<exists>as. rs = map (\<lambda>a. (OMX_ErrorNone, Some a)) as \<and> distinct as) \<and>
    pAllocSem (ports s' ! i) = Some (tsem_up t) \<and>
    bPopulated (sPortParam (ports s' ! i)) \<and> bIsFullOfBuffers (ports s' ! i) \<and>
    base_port_AllocateBuffer i index app sz s' = Done (OMX_ErrorInsufficientResources, None) s'"
proof -
  define n where "n = unat (nBufferCountActual (sPortParam (ports s ! i)))"
  note R = readyD [OF assms(1), folded n_def]
  obtain p where p: "alloc_run i index app sz n s =
      Done (map (\<lambda>l. (OMX_ErrorNone, Some (Suc (hbrk (heap s) + 2 * l)))) [0..<n]) (stage_comp i app sz s 0 n p)"
    "stage_port (ports s ! i) (hbrk (heap s)) 0 n p" "pAllocSem p = Some (tsem_up t)"
    "bPopulated (sPortParam p)" "bIsFullOfBuffers p"
    using ready_alloc [OF assms, of app] unfolding n_def by blast
  let ?s = "stage_comp i app sz s 0 n p"
  note I = stage_portD [OF p(2)]
  have "find_slot (\<lambda>f. f = BUFFER_FREE) p = Some None"
    unfolding find_slot_def using I(2) staticD(6) [OF I(1)] by (intro scan_slots_all) (auto simp: n_def)
  moreover have "buffer_guard i index sz ?s = OMX_ErrorNone"
    using static_guard [of ?s i s] I(1) R(1,6) by simp
  ultimately have "base_port_AllocateBuffer i index app sz ?s = Done (OMX_ErrorInsufficientResources, None) ?s"
    using R(1) by (simp add: base_port_AllocateBuffer_def)
  moreover have "distinct (map (\<lambda>l. Suc (hbrk (heap s) + 2 * l)) [0..<n])" by (simp add: distinct_map inj_on_def)
  moreover have "map (\<lambda>l. (OMX_ErrorNone, Some (Suc (hbrk (heap s) + 2 * l)))) [0..<n] =
      map (\<lambda>a. (OMX_ErrorNone, Some a)) (map (\<lambda>l. Suc (hbrk (heap s) + 2 * l)) [0..<n])" by simp
  ultimately show ?thesis using p(1,3,4,5) R(1) unfolding n_def
    by (metis (no_types, lifting) stage_comp_fields(1))
qed

lemma replicate_two: "replicate 2 x = [x, x]"
  by (simp add: numeral_2_eq_2)

lemma demo_ready: "ready 0 0 64 (demo_comp [demo_port] ())"
  by (simp add: ready_def demo_comp_def demo_port_def demo_param_def demo_heap_def heap_ok_def slots_def
      storage_def buffer_guard_def PORT_IS_TUNNELED_def Let_def replicate_two)

text \<open>
  C36 -- Allocating all buffers of a port and freeing them again, in whatever order the client
  passes the headers, restores the heap: nothing leaks and nothing is freed twice. The port is
  empty and not populated, all its slots are free, and \<open>pAllocSem\<close> has been raised twice, once
  for the state change in each direction.
\<close>

theorem buffers_roundtrip:
  fixes s :: "'p omx_comp"
  assumes "ready i index sz s" "pAllocSem (ports s ! i) = Some t"
    "length as = unat (nBufferCountActual (sPortParam (ports s ! i)))"
  shows "\<exists>rs s1 s2. alloc_run i index app sz (length as) s = Done rs s1 \<and>
    free_run i index as (s1\<lparr>transientState := OMX_TransStateIdleToLoaded\<rparr>) =
      Done (replicate (length as) OMX_ErrorNone) s2 \<and>
    hmem (heap s2) = hmem (heap s) \<and>
    slots (ports s2 ! i) = slots (ports s ! i) \<and> nNumAssignedBuffers (ports s2 ! i) = 0 \<and>
    \<not> bPopulated (sPortParam (ports s2 ! i)) \<and> bIsEmptyOfBuffers (ports s2 ! i) \<and>
    \<not> bIsFullOfBuffers (ports s2 ! i) \<and>
    pAllocSem (ports s2 ! i) = Some (tsem_up (tsem_up t))"
proof -
  define n where "n = unat (nBufferCountActual (sPortParam (ports s ! i)))"
  define s0 where "s0 = s\<lparr>transientState := OMX_TransStateIdleToLoaded\<rparr>"
  note R = readyD [OF assms(1), folded n_def]
  obtain p rs where p: "alloc_run i index app sz n s = Done rs (stage_comp i app sz s 0 n p)"
    "stage_port (ports s ! i) (hbrk (heap s)) 0 n p" "pAllocSem p = Some (tsem_up t)"
    using ready_alloc [OF assms(1,2), of app] unfolding n_def by blast
  have e: "(stage_comp i app sz s 0 n p)\<lparr>transientState := OMX_TransStateIdleToLoaded\<rparr> = stage_comp i app sz s0 0 n p"
    by (simp add: stage_comp_def s0_def)
  have f: "ports s0 = ports s" "heap s0 = heap s" "transientState s0 = OMX_TransStateIdleToLoaded"
    by (simp_all add: s0_def)
  have l: "length as = n" "as \<noteq> []" using assms(3) R(2) by (auto simp: n_def)
  obtain q where q: "free_run i index as (stage_comp i app sz s0 0 n p) =
      Done (replicate n OMX_ErrorNone) (stage_comp i app sz s0 n n q)" "stage_port (ports s ! i) (hbrk (heap s)) n n q"
    "pAllocSem q = Some (tsem_up (tsem_up t))" "\<not> bPopulated (sPortParam q)" "bIsEmptyOfBuffers q" "\<not> bIsFullOfBuffers q"
    using free_run_stage [of i s0 index 0 p as "tsem_up t" app sz] f R(1,8,9,10) p(2,3) l by (auto simp: n_def)
  have "hmem (heap (stage_comp i app sz s0 n n q)) = hmem (heap s)" "ports (stage_comp i app sz s0 n n q) ! i = q"
    using f R(1) by simp_all
  moreover have "slots q = slots (ports s ! i)"
  proof -
    have "slots (ports s ! i) = set_flags n 0 0" using stage_portD(2) [OF R(3)] by (simp add: n_def)
    moreover have "slots q = set_flags n n n" using stage_portD(2) [OF q(2)] by (simp add: n_def)
    ultimately show ?thesis by (simp add: set_flags_def)
  qed
  moreover have "nNumAssignedBuffers q = 0" using stage_portD(5) [OF q(2)] by simp
  ultimately show ?thesis using p(1) q e l(1) by (metis (no_types, lifting))
qed

lemma buffers_populate_witness:
  "\<exists>rs s'. alloc_run 0 0 7 64 2 (demo_comp [demo_port] ()) = Done rs s' \<and>
     pAllocSem (ports s' ! 0) = Some \<lparr>semval = 1\<rparr>"
proof -
  have *: "pAllocSem (ports (demo_comp [demo_port] ()) ! 0) = Some \<lparr>semval = 0\<rparr>"
    "unat (nBufferCountActual (sPortParam (ports (demo_comp [demo_port] ()) ! 0))) = 2"
    by (simp_all add: demo_comp_def demo_port_def demo_param_def)
  have "tsem_up \<lparr>semval = 0\<rparr> = \<lparr>semval = 1\<rparr>" by (simp add: tsem_up_def)
  then show ?thesis using buffers_populate [OF demo_ready *(1), of 7] unfolding *(2) by fastforce
qed

lemma buffers_roundtrip_witness:
  "\<exists>rs s1 s2. alloc_run 0 0 7 64 2 (demo_comp [demo_port] ()) = Done rs s1 \<and>
     free_run 0 0 [3, 1] (s1\<lparr>transientState := OMX_TransStateIdleToLoaded\<rparr>) = Done [OMX_ErrorNone, OMX_ErrorNone] s2 \<and>
     hmem (heap s2) = hmem demo_heap"
proof -
  have *: "pAllocSem (ports (demo_comp [demo_port] ()) ! 0) = Some \<lparr>semval = 0\<rparr>"
    "unat (nBufferCountActual (sPortParam (ports (demo_comp [demo_port] ()) ! 0))) = 2"
    "heap (demo_comp [demo_port] ()) = demo_heap"
    by (simp_all add: demo_comp_def demo_port_def demo_param_def)
  have l: "length [3, 1 :: nat] = 2" "replicate 2 OMX_ErrorNone = [OMX_ErrorNone, OMX_ErrorNone]"
    by (simp_all add: numeral_2_eq_2)
  have "length [3, 1 :: nat] = unat (nBufferCountActual (sPortParam (ports (demo_comp [demo_port] ()) ! 0)))"
    unfolding *(2) by simp
  from buffers_roundtrip [OF demo_ready *(1) this, of 7]
  show ?thesis unfolding *(3) l by blast
qed

section \<open>What goes wrong\<close>

text \<open>
  When the second header of \<open>UseBuffer\<close> cannot be allocated, the slot is already marked as in use but
  not counted: freeing it counts \<open>nNumAssignedBuffers\<close> below 0.
\<close>

lemma use_buffer_miscounts:
  "(case buffer_run 0 0 [UseOp 9 128 77, FreeOp 0]
      (demo_comp [demo_port] () \<lparr>heap := demo_heap\<lparr>hbudget := 1\<rparr>\<rparr>) of
      Done es s \<Rightarrow> es = [OMX_ErrorInsufficientResources, OMX_ErrorNone] \<and>
        nNumAssignedBuffers (ports s ! 0) = UINT_MAX
    | _ \<Rightarrow> False)"
  by code_simp

text \<open>
  \<open>FreeBuffer\<close> frees the first buffer in use, whichever header the client passes: after freeing the
  second header the client's first one is gone and the second still there.
\<close>

lemma free_buffer_ignores_header:
  "(case buffer_run 0 0 [AllocOp 7 64, AllocOp 7 64] (demo_comp [demo_port] ()) of
      Done _ s \<Rightarrow>
        (case (storage (ports s ! 0), base_port_FreeBuffer 0 0 (storage (ports s ! 0) ! 1) s) of
           ([a, b], Done e t) \<Rightarrow> a \<noteq> b \<and> e = OMX_ErrorNone \<and>
             get_hdr a (heap t) = None \<and> get_hdr b (heap t) \<noteq> None
         | _ \<Rightarrow> False)
    | _ \<Rightarrow> False)"
  by code_simp

end
