(* ===== verification/OmxComponent.thy ===== *)
theory OmxComponent
  imports OmxPort
begin

text \<open>
  The base component of the OpenMAX core,
  \<open>libomxil-bellagio/src/base/omx_base_component.c\<close>: construction, the state machine, the
  commands of the client and the thread that carries them out, parameters, and the calls that go
  through to a port.
\<close>

section \<open>Loops over the ports\<close>

abbreviation NUM_DOMAINS :: nat where "NUM_DOMAINS \<equiv> 4"

text \<open>The indices the double loop over domains and their ports runs through.\<close>

definition port_indices :: "'p omx_comp \<Rightarrow> nat list" where
  "port_indices s =
     concat (map (\<lambda>d. [unat (nStartPortNumber d) ..< unat (nStartPortNumber d + nPorts d)])
               (sPortTypesParam s))"

definition total_ports :: "'p omx_comp \<Rightarrow> u32" where
  "total_ports s = sum_list (map nPorts (sPortTypesParam s))"

fun for_each ::
    "(nat \<Rightarrow> 'p omx_comp \<Rightarrow> (unit, 'p omx_comp) outcome) \<Rightarrow> nat list \<Rightarrow> 'p omx_comp \<Rightarrow>
      (unit, 'p omx_comp) outcome" where
  "for_each f [] s = Done () s"
| "for_each f (i # is) s = obind (f i s) (\<lambda>_ s. for_each f is s)"

text \<open>A loop that is left with the first error.\<close>

fun for_until ::
    "(nat \<Rightarrow> 'p omx_comp \<Rightarrow> (omx_err, 'p omx_comp) outcome) \<Rightarrow> nat list \<Rightarrow> 'p omx_comp \<Rightarrow>
      (omx_err, 'p omx_comp) outcome" where
  "for_until f [] s = Done OMX_ErrorNone s"
| "for_until f (i # is) s =
     obind (f i s) (\<lambda>e s. if e \<noteq> OMX_ErrorNone then Done e s else for_until f is s)"

text \<open>A loop that remembers the error of its last turn.\<close>

fun for_last ::
    "(nat \<Rightarrow> 'p omx_comp \<Rightarrow> (omx_err, 'p omx_comp) outcome) \<Rightarrow> nat list \<Rightarrow> omx_err \<Rightarrow> 'p omx_comp \<Rightarrow>
      (omx_err, 'p omx_comp) outcome" where
  "for_last f [] err s = Done err s"
| "for_last f (i # is) err s = obind (f i s) (\<lambda>e s. for_last f is e s)"

section \<open>Construction and destruction\<close>

text \<open>
  The results of the allocations and initialisations, in the order of the code; an item that is
  already there is not allocated again, save for the name and the thread descriptors.
\<close>

record omx_construct =
  ok_messageQueue :: bool
  ok_messageSem :: bool
  ok_bMgmtSem :: bool
  ok_bStateSem :: bool
  ok_name :: bool
  ok_bellagioThreads :: bool
  ok_flush_all :: bool
  ok_flush :: bool
  ok_thread :: bool

text \<open>Everything the constructor had obtained is released.\<close>

definition base_constructor_remove_garbage_collected :: "'p omx_comp \<Rightarrow> 'p omx_comp" where
  "base_constructor_remove_garbage_collected s =
     s\<lparr>flush_condition := None, flush_all_condition := None, bellagioThreads := None, name := None,
       bStateSem := None, bMgmtSem := None, messageSem := None, messageQueue := None\<rparr>"

definition init_domains :: "omx_domain_ports list" where
  "init_domains = replicate NUM_DOMAINS \<lparr>nStartPortNumber = 0, nPorts = 0\<rparr>"

definition omx_base_component_Constructor ::
    "omx_construct \<Rightarrow> string \<Rightarrow> 'p omx_comp \<Rightarrow> (omx_err, 'p omx_comp) outcome" where
  "omx_base_component_Constructor ok cComponentName s =
     (let fail = (\<lambda>s. Done OMX_ErrorInsufficientResources (base_constructor_remove_garbage_collected s));
          sem = Some \<lparr>semval = 0\<rparr> in
      if messageQueue s = None \<and> \<not> ok_messageQueue ok then fail s
      else
      let s = (if messageQueue s = None then s\<lparr>messageQueue := Some []\<rparr> else s) in
      if messageSem s = None \<and> \<not> ok_messageSem ok then fail s
      else
      let s = (if messageSem s = None then s\<lparr>messageSem := sem\<rparr> else s) in
      if bMgmtSem s = None \<and> \<not> ok_bMgmtSem ok then fail s
      else
      let s = (if bMgmtSem s = None then s\<lparr>bMgmtSem := sem\<rparr> else s) in
      if bStateSem s = None \<and> \<not> ok_bStateSem ok then fail s
      else
      let s = (if bStateSem s = None then s\<lparr>bStateSem := sem\<rparr> else s) in
      if \<not> ok_name ok then fail (s\<lparr>name := None\<rparr>)
      else if length cComponentName \<ge> 128 then Fault
      else
      let s = s\<lparr>name := Some cComponentName, state := OMX_StateLoaded,
                transientState := OMX_TransStateMax, callbacks := False, nGroupPriority := 100,
                nGroupID := 0, pMark := (0, 0), currentQualityLevel := 0, nqualitylevels := 0,
                bufferMgmtThreadID := -1\<rparr> in
      if \<not> ok_bellagioThreads ok then fail (s\<lparr>bellagioThreads := None\<rparr>)
      else
      let s = s\<lparr>bellagioThreads := Some (0, 0), bIsEOSReached := False\<rparr> in
      if flush_all_condition s = None \<and> \<not> ok_flush_all ok then fail s
      else
      let s = (if flush_all_condition s = None then s\<lparr>flush_all_condition := sem\<rparr> else s) in
      if flush_condition s = None \<and> \<not> ok_flush ok then fail s
      else
      let s = (if flush_condition s = None then s\<lparr>flush_condition := sem\<rparr> else s);
          s = s\<lparr>sPortTypesParam := init_domains\<rparr> in
      if \<not> ok_thread ok then fail s
      else Done OMX_ErrorNone s)"

text \<open>
  The message thread is woken and joined before its queue is released; the thread descriptors
  (\<open>bellagioThreads\<close>) are not released.
\<close>

definition omx_base_component_Destructor :: "'p omx_comp \<Rightarrow> (omx_err, 'p omx_comp) outcome" where
  "omx_base_component_Destructor s =
     obind (up SMessage (s\<lparr>state := OMX_StateInvalid, callbacks := False\<rparr>)) (\<lambda>_ s.
     Done OMX_ErrorNone
       (s\<lparr>messageQueue := None, bMgmtSem := None, messageSem := None, bStateSem := None,
          name := None, flush_all_condition := None, flush_condition := None\<rparr>))"

section \<open>The state machine\<close>

text \<open>From Idle to Loaded, one port: its buffers are given back, or the client is waited for.\<close>

definition unload_port :: "'p omx_ext \<Rightarrow> nat \<Rightarrow> 'p omx_comp \<Rightarrow> (omx_err, 'p omx_comp) outcome" where
  "unload_port x i s =
     ofail (get_port i s) (\<lambda>p.
     obind (if PORT_IS_TUNNELED p \<and> PORT_IS_BUFFER_SUPPLIER p
            then obind (drop_buffers i s) (\<lambda>_ s. base_port_FreeTunnelBuffer x i (of_nat i) s)
            else if PORT_IS_ENABLED p
            then obind (down x (SAlloc i) s) (\<lambda>_ s. Done OMX_ErrorNone s)
            else Done OMX_ErrorNone s) (\<lambda>err s.
     if err \<noteq> OMX_ErrorNone then Done err s
     else Done OMX_ErrorNone
            (upd_port i (\<lambda>p. (upd_param (\<lambda>d. d\<lparr>bPopulated := False\<rparr>) p)
               \<lparr>pInternalBufferStorage := None, bBufferStateAllocated := None\<rparr>) s)))"

text \<open>The buffer management thread is told to end and joined.\<close>

definition end_buffer_thread :: "'p omx_comp \<Rightarrow> (unit, 'p omx_comp) outcome" where
  "end_buffer_thread s =
     (if bufferMgmtThreadID s = 0
      then obind (up SMgmt s) (\<lambda>_ s. Done () (s\<lparr>bufferMgmtThreadID := -1\<rparr>))
      else Done () s)"

definition set_loaded :: "'p omx_ext \<Rightarrow> 'p omx_comp \<Rightarrow> (omx_err, 'p omx_comp) outcome" where
  "set_loaded x s =
     (case state s of
        OMX_StateInvalid \<Rightarrow> Done OMX_ErrorInvalidState s
      | OMX_StateWaitForResources \<Rightarrow> Done OMX_ErrorNone (s\<lparr>state := OMX_StateLoaded\<rparr>)
      | OMX_StateLoaded \<Rightarrow> Done OMX_ErrorSameState s
      | OMX_StateIdle \<Rightarrow>
          obind (for_until (unload_port x) (port_indices s) s) (\<lambda>err s.
            if err \<noteq> OMX_ErrorNone then Done err s
            else obind (end_buffer_thread (s\<lparr>state := OMX_StateLoaded\<rparr>)) (\<lambda>_ s. Done err s))
      | _ \<Rightarrow> Done OMX_ErrorIncorrectStateTransition s)"

definition set_wait_for_resources ::
    "'p omx_ext \<Rightarrow> 'p omx_comp \<Rightarrow> (omx_err, 'p omx_comp) outcome" where
  "set_wait_for_resources x s =
     (case state s of
        OMX_StateInvalid \<Rightarrow> Done OMX_ErrorInvalidState s
      | OMX_StateLoaded \<Rightarrow>
          let s = s\<lparr>state := OMX_StateWaitForResources\<rparr> in Done (xRM_waitForResource x s) s
      | OMX_StateWaitForResources \<Rightarrow> Done OMX_ErrorSameState s
      | _ \<Rightarrow> Done OMX_ErrorIncorrectStateTransition s)"

text \<open>
  From Loaded to Idle, one port: buffers are made for a tunnel, or the client is waited for.
  The result is the error and whether the port was being destroyed meanwhile.
\<close>

definition load_port ::
    "'p omx_ext \<Rightarrow> nat \<Rightarrow> 'p omx_comp \<Rightarrow> (omx_err \<times> bool, 'p omx_comp) outcome" where
  "load_port x i s =
     ofail (get_port i s) (\<lambda>p.
       if PORT_IS_TUNNELED p \<and> PORT_IS_BUFFER_SUPPLIER p then
         if PORT_IS_ENABLED p
         then obind (base_port_AllocateTunnelBuffer x i (of_nat i) s) (\<lambda>err s. Done (err, False) s)
         else Done (OMX_ErrorNone, False) s
       else if PORT_IS_ENABLED p then
         let populate = upd_port i (upd_param (\<lambda>d. d\<lparr>bPopulated := True\<rparr>)) in
         if nBufferCountActual (sPortParam p) > 0
         then obind (down x (SAlloc i) s) (\<lambda>_ s.
                ofail (get_port i s) (\<lambda>p.
                  if bIsDestroying p then Done (OMX_ErrorNone, True) s
                  else Done (OMX_ErrorNone, False) (populate s)))
         else Done (OMX_ErrorNone, False) (populate s)
       else Done (OMX_ErrorNone, False) s)"

fun load_ports ::
    "'p omx_ext \<Rightarrow> nat list \<Rightarrow> bool \<Rightarrow> 'p omx_comp \<Rightarrow> (omx_err \<times> bool, 'p omx_comp) outcome" where
  "load_ports x [] bExit s = Done (OMX_ErrorNone, bExit) s"
| "load_ports x (i # is) bExit s =
     obind (load_port x i s) (\<lambda>(err, gone) s.
       if err \<noteq> OMX_ErrorNone then Done (err, bExit) s
       else load_ports x is (bExit \<or> gone) s)"

definition flush_enabled :: "'p omx_ext \<Rightarrow> nat \<Rightarrow> 'p omx_comp \<Rightarrow> (unit, 'p omx_comp) outcome" where
  "flush_enabled x i s =
     ofail (get_port i s) (\<lambda>p.
       if PORT_IS_ENABLED p
       then obind (base_port_FlushProcessingBuffers x i s) (\<lambda>_ s. Done () s)
       else Done () s)"

definition set_idle :: "'p omx_ext \<Rightarrow> 'p omx_comp \<Rightarrow> (omx_err, 'p omx_comp) outcome" where
  "set_idle x s =
     (case state s of
        OMX_StateInvalid \<Rightarrow> Done OMX_ErrorInvalidState s
      | OMX_StateWaitForResources \<Rightarrow> Done OMX_ErrorNone (s\<lparr>state := OMX_StateIdle\<rparr>)
      | OMX_StateLoaded \<Rightarrow>
          obind (load_ports x (port_indices s) False s) (\<lambda>(err, bExit) s.
            if err \<noteq> OMX_ErrorNone then Done err s
            else if bExit then Done OMX_ErrorNone s
            else
            let s = s\<lparr>state := OMX_StateIdle\<rparr>; tid = xPthreadCreate x s in
            Done (if tid < 0 then OMX_ErrorUndefined else OMX_ErrorNone) (s\<lparr>bufferMgmtThreadID := tid\<rparr>))
      | OMX_StateIdle \<Rightarrow> Done OMX_ErrorSameState s
      | OMX_StateExecuting \<Rightarrow>
          obind (for_each (flush_enabled x) (port_indices s) s) (\<lambda>_ s.
            Done OMX_ErrorNone (s\<lparr>state := OMX_StateIdle\<rparr>))
      | OMX_StatePause \<Rightarrow>
          obind (for_each (flush_enabled x) (port_indices s) s) (\<lambda>_ s.
          obind (signal_sem SState (s\<lparr>state := OMX_StateIdle\<rparr>)) (\<lambda>_ s. Done OMX_ErrorNone s)))"

definition set_pause :: "'p omx_comp \<Rightarrow> (omx_err, 'p omx_comp) outcome" where
  "set_pause s =
     (case state s of
        OMX_StateInvalid \<Rightarrow> Done OMX_ErrorInvalidState s
      | OMX_StatePause \<Rightarrow> Done OMX_ErrorSameState s
      | OMX_StateIdle \<Rightarrow> Done OMX_ErrorNone (s\<lparr>bIsEOSReached := False, state := OMX_StatePause\<rparr>)
      | OMX_StateExecuting \<Rightarrow> Done OMX_ErrorNone (s\<lparr>state := OMX_StatePause\<rparr>)
      | _ \<Rightarrow> Done OMX_ErrorIncorrectStateTransition s)"

text \<open>The buffers of the tunnels are announced when the component starts, or goes on.\<close>

definition start_port :: "nat \<Rightarrow> 'p omx_comp \<Rightarrow> (unit, 'p omx_comp) outcome" where
  "start_port i s =
     ofail (get_port i s) (\<lambda>p.
       if PORT_IS_TUNNELED p \<and> PORT_IS_BUFFER_SUPPLIER p \<and> PORT_IS_ENABLED p
       then announce i (unat (nNumTunnelBuffer p)) s else Done () s)"

definition resume_port :: "nat \<Rightarrow> 'p omx_comp \<Rightarrow> (unit, 'p omx_comp) outcome" where
  "resume_port i s =
     ofail (get_port i s) (\<lambda>p.
       if PORT_IS_TUNNELED_N_BUFFER_SUPPLIER p
       then ofail (pBufferQueue p) (\<lambda>q. ofail (pBufferSem p) (\<lambda>t.
              if of_nat (length q) = semval t + nBufferCountActual (sPortParam p)
              then announce i (unat (nBufferCountActual (sPortParam p))) s else Done () s))
       else Done () s)"

definition set_executing :: "'p omx_comp \<Rightarrow> (omx_err, 'p omx_comp) outcome" where
  "set_executing s =
     (case state s of
        OMX_StateInvalid \<Rightarrow> Done OMX_ErrorInvalidState s
      | OMX_StateIdle \<Rightarrow>
          obind (for_each start_port (port_indices s)
                   (s\<lparr>state := OMX_StateExecuting, bIsEOSReached := False\<rparr>)) (\<lambda>_ s.
            Done OMX_ErrorNone (s\<lparr>transientState := OMX_TransStateMax\<rparr>))
      | OMX_StatePause \<Rightarrow>
          obind (for_each resume_port (port_indices s) (s\<lparr>state := OMX_StateExecuting\<rparr>)) (\<lambda>_ s.
          obind (signal_sem SState s) (\<lambda>_ s. Done OMX_ErrorNone s))
      | OMX_StateExecuting \<Rightarrow> Done OMX_ErrorSameState s
      | _ \<Rightarrow> Done OMX_ErrorIncorrectStateTransition s)"

definition set_invalid :: "'p omx_comp \<Rightarrow> (omx_err, 'p omx_comp) outcome" where
  "set_invalid s =
     (case state s of
        OMX_StateInvalid \<Rightarrow> Done OMX_ErrorInvalidState s
      | _ \<Rightarrow>
          let s = s\<lparr>state := OMX_StateInvalid\<rparr> in
          obind (if bufferMgmtThreadID s = 0 then signal_sem SState s else Done () s) (\<lambda>_ s.
          obind (end_buffer_thread s) (\<lambda>_ s. Done OMX_ErrorInvalidState s)))"

text \<open>
  The whole state change. Releasing a resource and leaving the list of waiting components change
  the resource manager only.
\<close>

definition omx_base_component_DoStateSet ::
    "'p omx_ext \<Rightarrow> u32 \<Rightarrow> 'p omx_comp \<Rightarrow> (omx_err, 'p omx_comp) outcome" where
  "omx_base_component_DoStateSet x dest s =
     (if state s = OMX_StateLoaded \<and> dest = state_code OMX_StateIdle
         \<and> xRM_getResource x s \<noteq> OMX_ErrorNone
      then Done OMX_ErrorInsufficientResources s
      else if dest = state_code OMX_StateLoaded then set_loaded x s
      else if dest = state_code OMX_StateWaitForResources then set_wait_for_resources x s
      else if dest = state_code OMX_StateIdle then set_idle x s
      else if dest = state_code OMX_StatePause then set_pause s
      else if dest = state_code OMX_StateExecuting then set_executing s
      else if dest = state_code OMX_StateInvalid then set_invalid s
      else Done OMX_ErrorNone s)"

section \<open>Commands\<close>

text \<open>
  The arrays of a port, allocated when the client asks for Idle. Each allocation uses one of the
  budget of the heap; an array that could not be allocated is \<open>NULL\<close>, and the loop that clears the
  flags then faults unless there is nothing to clear.
\<close>

definition calloc_array :: "'p omx_comp \<Rightarrow> u32 \<Rightarrow> 'a::zero list option \<times> 'p omx_comp" where
  "calloc_array s n =
     (if hbudget (heap s) = 0 then (None, s)
      else (Some (replicate (unat n) 0), s\<lparr>heap := (heap s)\<lparr>hbudget := hbudget (heap s) - 1\<rparr>\<rparr>))"

definition prepare_port :: "nat \<Rightarrow> 'p omx_comp \<Rightarrow> (unit, 'p omx_comp) outcome" where
  "prepare_port i s =
     ofail (get_port i s) (\<lambda>p.
       let n = nBufferCountActual (sPortParam p) in
       case (if pInternalBufferStorage p = None then calloc_array s n else (pInternalBufferStorage p, s)) of
         (st, s) \<Rightarrow>
       case (if bBufferStateAllocated p = None then calloc_array s n else (bBufferStateAllocated p, s)) of
         (fs, s) \<Rightarrow>
       let fs' = (case fs of None \<Rightarrow> [] | Some l \<Rightarrow> l) in
       if length fs' < unat n then Fault
       else Done () (upd_port i (\<lambda>p. p\<lparr>pInternalBufferStorage := st,
              bBufferStateAllocated :=
                (case fs of None \<Rightarrow> None
                 | Some l \<Rightarrow> Some (replicate (unat n) BUFFER_FREE @ drop (unat n) l))\<rparr>) s))"

definition all_ports_set ::
    "(omx_port \<Rightarrow> omx_port) \<Rightarrow> 'p omx_comp \<Rightarrow> (unit, 'p omx_comp) outcome" where
  "all_ports_set f s =
     for_each (\<lambda>i s. ofail (get_port i s) (\<lambda>_. Done () (upd_port i f s))) (port_indices s) s"

text \<open>What \<open>SendCommand\<close> does to the component for a command before it is queued.\<close>

definition command_prepare ::
    "omx_command \<Rightarrow> u32 \<Rightarrow> 'p omx_comp \<Rightarrow> (omx_err, 'p omx_comp) outcome" where
  "command_prepare Cmd nParam s =
     (let bad_port = (nParam \<ge> total_ports s \<and> nParam \<noteq> OMX_ALL);
          mark = (\<lambda>f. if nParam = OMX_ALL then all_ports_set f s
                      else ofail (get_port (unat nParam) s) (\<lambda>_. Done () (upd_port (unat nParam) f s))) in
      case Cmd of
        OMX_CommandStateSet \<Rightarrow>
          if nParam = state_code OMX_StateIdle \<and> state s = OMX_StateLoaded
          then obind (for_each prepare_port (port_indices s) s) (\<lambda>_ s.
                 Done OMX_ErrorNone (s\<lparr>transientState := OMX_TransStateLoadedToIdle\<rparr>))
          else if nParam = state_code OMX_StateLoaded \<and> state s = OMX_StateIdle
          then Done OMX_ErrorNone (s\<lparr>transientState := OMX_TransStateIdleToLoaded\<rparr>)
          else if nParam = state_code OMX_StateIdle \<and> state s = OMX_StateExecuting
          then Done OMX_ErrorNone (s\<lparr>transientState := OMX_TransStateExecutingToIdle\<rparr>)
          else if nParam = state_code OMX_StateIdle \<and> state s = OMX_StatePause
          then Done OMX_ErrorNone (s\<lparr>transientState := OMX_TransStatePauseToIdle\<rparr>)
          else Done OMX_ErrorNone s
      | OMX_CommandFlush \<Rightarrow>
          if bad_port then Done OMX_ErrorBadPortIndex s else Done OMX_ErrorNone s
      | OMX_CommandPortDisable \<Rightarrow>
          if bad_port then Done OMX_ErrorBadPortIndex s
          else obind (mark (\<lambda>p. p\<lparr>bIsTransientToDisabled := True\<rparr>)) (\<lambda>_ s. Done OMX_ErrorNone s)
      | OMX_CommandPortEnable \<Rightarrow>
          if bad_port then Done OMX_ErrorBadPortIndex s
          else obind (mark (\<lambda>p. p\<lparr>bIsTransientToEnabled := True\<rparr>)) (\<lambda>_ s. Done OMX_ErrorNone s)
      | OMX_CommandMarkBuffer \<Rightarrow>
          if bad_port then Done OMX_ErrorBadPortIndex s else Done OMX_ErrorNone s
      | OMX_CommandMax \<Rightarrow> Done OMX_ErrorUnsupportedIndex s)"

text \<open>
  The message is allocated first, and written to without a test; when a later check fails it is
  not freed.
\<close>

definition omx_base_component_SendCommand ::
    "omx_command \<Rightarrow> u32 \<Rightarrow> (nat \<times> nat) option \<Rightarrow> 'p omx_comp \<Rightarrow> (omx_err, 'p omx_comp) outcome" where
  "omx_base_component_SendCommand Cmd nParam data s =
     (if state s = OMX_StateInvalid then Done OMX_ErrorInvalidState s
      else if hbudget (heap s) = 0 then Fault
      else
      let s = s\<lparr>heap := (heap s)\<lparr>hbudget := hbudget (heap s) - 1\<rparr>\<rparr>;
          message = \<lparr>messageType = Cmd, messageParam = nParam, pCmdData = data\<rparr> in
      obind (command_prepare Cmd nParam s) (\<lambda>err s.
        if err \<noteq> OMX_ErrorNone then Done err s
        else ofail (messageQueue s) (\<lambda>q.
          case fifo_step QCAP (Enqueue message) q of
            (Queued True, q) \<Rightarrow>
              obind (up SMessage (s\<lparr>messageQueue := Some q\<rparr>)) (\<lambda>_ s. Done OMX_ErrorNone s)
          | _ \<Rightarrow> Done OMX_ErrorInsufficientResources s)))"

section \<open>The message thread\<close>

text \<open>After the work of a command: an error event, or the events of its completion.\<close>

definition report ::
    "omx_err \<Rightarrow> ('p omx_comp \<Rightarrow> (unit, 'p omx_comp) outcome) \<Rightarrow> 'p omx_comp \<Rightarrow>
      (unit, 'p omx_comp) outcome" where
  "report err completed s =
     (if err \<noteq> OMX_ErrorNone then event_handler (EventError err 0) s else completed s)"

definition handle_state_set ::
    "'p omx_ext \<Rightarrow> u32 \<Rightarrow> 'p omx_comp \<Rightarrow> (unit, 'p omx_comp) outcome" where
  "handle_state_set x param s =
     obind (omx_base_component_DoStateSet x param s) (\<lambda>err s.
       report err (\<lambda>s. if callbacks s then event_handler (EventCmdComplete OMX_CommandStateSet param) s
                       else Done () s) s)"

text \<open>A flushed supplier starts to exchange its buffers again.\<close>

definition restart_port :: "nat \<Rightarrow> 'p omx_comp \<Rightarrow> (unit, 'p omx_comp) outcome" where
  "restart_port i s =
     ofail (get_port i s) (\<lambda>p.
       if PORT_IS_TUNNELED p \<and> PORT_IS_BUFFER_SUPPLIER p
       then announce i (unat (nNumTunnelBuffer p)) s else Done () s)"

definition handle_flush ::
    "'p omx_ext \<Rightarrow> u32 \<Rightarrow> 'p omx_comp \<Rightarrow> (unit, 'p omx_comp) outcome" where
  "handle_flush x param s =
     obind (if param = OMX_ALL
            then obind (all_ports_set (\<lambda>p. p\<lparr>bIsPortFlushed := True\<rparr>) s) (\<lambda>_ s.
                   for_last (base_port_FlushProcessingBuffers x) (port_indices s) OMX_ErrorNone s)
            else base_port_FlushProcessingBuffers x (unat param) s) (\<lambda>err s.
       report err
         (\<lambda>s. if param = OMX_ALL
              then for_each (\<lambda>i s.
                     obind (event_handler (EventCmdComplete OMX_CommandFlush (of_nat i)) s) (\<lambda>_ s.
                     restart_port i s)) (port_indices s) s
              else obind (event_handler (EventCmdComplete OMX_CommandFlush param) s) (\<lambda>_ s.
                   restart_port (unat param) s)) s)"

definition handle_port_disable ::
    "'p omx_ext \<Rightarrow> u32 \<Rightarrow> 'p omx_comp \<Rightarrow> (unit, 'p omx_comp) outcome" where
  "handle_port_disable x param s =
     obind (if param = OMX_ALL
            then obind (if state s \<noteq> OMX_StateLoaded
                        then for_last (base_port_FlushProcessingBuffers x) (port_indices s) OMX_ErrorNone s
                        else Done OMX_ErrorNone s) (\<lambda>err s.
                 for_last (base_port_DisablePort x) (port_indices s) err s)
            else obind (if state s \<noteq> OMX_StateLoaded
                        then base_port_FlushProcessingBuffers x (unat param) s
                        else Done OMX_ErrorNone s) (\<lambda>_ s.
                 base_port_DisablePort x (unat param) s)) (\<lambda>err s.
       report err
         (\<lambda>s. if param = OMX_ALL
              then for_each (\<lambda>i. event_handler (EventCmdComplete OMX_CommandPortDisable (of_nat i)))
                     (port_indices s) s
              else event_handler (EventCmdComplete OMX_CommandPortDisable param) s) s)"

text \<open>A supplier that has been enabled while the component executes has its buffers announced.\<close>

definition announce_supplier :: "nat \<Rightarrow> 'p omx_comp \<Rightarrow> (unit, 'p omx_comp) outcome" where
  "announce_supplier i s =
     ofail (get_port i s) (\<lambda>p.
       if PORT_IS_BUFFER_SUPPLIER p
       then announce i (unat (nBufferCountActual (sPortParam p))) s else Done () s)"

definition handle_port_enable ::
    "'p omx_ext \<Rightarrow> u32 \<Rightarrow> 'p omx_comp \<Rightarrow> (unit, 'p omx_comp) outcome" where
  "handle_port_enable x param s =
     obind (if param = OMX_ALL
            then for_last (base_port_EnablePort x) (port_indices s) OMX_ErrorNone s
            else base_port_EnablePort x (unat param) s) (\<lambda>err s.
       report err
         (\<lambda>s. if param \<noteq> OMX_ALL
              then obind (event_handler (EventCmdComplete OMX_CommandPortEnable param) s) (\<lambda>_ s.
                   if state s = OMX_StateExecuting then announce_supplier (unat param) s else Done () s)
              else obind (for_each (\<lambda>i. event_handler (EventCmdComplete OMX_CommandPortEnable (of_nat i)))
                            (port_indices s) s) (\<lambda>_ s.
                   if state s = OMX_StateExecuting then for_each announce_supplier (port_indices s) s
                   else Done () s)) s)"

definition omx_base_component_MessageHandler ::
    "'p omx_ext \<Rightarrow> omx_message \<Rightarrow> 'p omx_comp \<Rightarrow> (omx_err, 'p omx_comp) outcome" where
  "omx_base_component_MessageHandler x message s =
     obind (case messageType message of
              OMX_CommandStateSet \<Rightarrow> handle_state_set x (messageParam message) s
            | OMX_CommandFlush \<Rightarrow> handle_flush x (messageParam message) s
            | OMX_CommandPortDisable \<Rightarrow> handle_port_disable x (messageParam message) s
            | OMX_CommandPortEnable \<Rightarrow> handle_port_enable x (messageParam message) s
            | OMX_CommandMarkBuffer \<Rightarrow>
                ofail (pCmdData message) (\<lambda>m. Done () (s\<lparr>pMark := m\<rparr>))
            | OMX_CommandMax \<Rightarrow> Done () s) (\<lambda>_ s.
     Done OMX_ErrorNone s)"

text \<open>
  One turn of the message thread: \<open>True\<close> when it goes on, \<open>False\<close> when it ends. The thread makes
  turns until then; \<open>n\<close> bounds their number.
\<close>

definition message_turn :: "'p omx_ext \<Rightarrow> 'p omx_comp \<Rightarrow> (bool, 'p omx_comp) outcome" where
  "message_turn x s =
     obind (down x SMessage s) (\<lambda>_ s.
       if state s = OMX_StateInvalid then Done False s
       else ofail (messageQueue s) (\<lambda>q.
         case q of
           [] \<Rightarrow> Done False s
         | m # q \<Rightarrow>
             obind (omx_base_component_MessageHandler x m (s\<lparr>messageQueue := Some q\<rparr>)) (\<lambda>_ s.
             Done True s)))"

fun message_turns :: "'p omx_ext \<Rightarrow> nat \<Rightarrow> 'p omx_comp \<Rightarrow> (bool, 'p omx_comp) outcome" where
  "message_turns x 0 s = Done True s"
| "message_turns x (Suc n) s =
     obind (message_turn x s) (\<lambda>go s. if go then message_turns x n s else Done False s)"

definition compMessageHandlerFunction ::
    "'p omx_ext \<Rightarrow> u32 \<Rightarrow> nat \<Rightarrow> 'p omx_comp \<Rightarrow> (bool, 'p omx_comp) outcome" where
  "compMessageHandlerFunction x tid n s =
     ofail (bellagioThreads s) (\<lambda>t. message_turns x n (s\<lparr>bellagioThreads := Some (fst t, tid)\<rparr>))"

section \<open>Callbacks, state and quality level\<close>

text \<open>\<open>given\<close> says that the pointer to the callbacks is not \<open>NULL\<close>.\<close>

definition omx_base_component_SetCallbacks :: "bool \<Rightarrow> 'p omx_comp \<Rightarrow> (omx_err, 'p omx_comp) outcome" where
  "omx_base_component_SetCallbacks given s =
     obind (for_each (\<lambda>i s. ofail (get_port i s) (\<lambda>p.
              if callbacks s
              then Done () (upd_port i (\<lambda>p. p\<lparr>BufferProcessedCallback :=
                     Some (if eDir (sPortParam p) = OMX_DirInput then EmptyBufferDone else FillBufferDone)\<rparr>) s)
              else Fault))
            (port_indices s) (s\<lparr>callbacks := given\<rparr>)) (\<lambda>_ s.
     Done OMX_ErrorNone s)"

definition omx_base_component_GetState :: "'p omx_comp \<Rightarrow> omx_err \<times> omx_state" where
  "omx_base_component_GetState s = (OMX_ErrorNone, state s)"

definition omx_base_component_GetExtensionIndex :: "string \<Rightarrow> omx_err \<times> u32 option" where
  "omx_base_component_GetExtensionIndex cParameterName =
     (if cParameterName = ''OMX.st.index.param.BellagioThreadsID''
      then (OMX_ErrorNone, Some 0xFF000004) else (OMX_ErrorBadParameter, None))"

definition omx_base_getQualityLevel :: "'p omx_comp \<Rightarrow> omx_err \<times> u32" where
  "omx_base_getQualityLevel s = (OMX_ErrorNone, of_int (currentQualityLevel s))"

definition omx_base_setQualityLevel :: "u32 \<Rightarrow> 'p omx_comp \<Rightarrow> omx_err \<times> 'p omx_comp" where
  "omx_base_setQualityLevel level s =
     (if level > 0 \<and> level \<le> nqualitylevels s
      then (OMX_ErrorNone, s\<lparr>currentQualityLevel := sint level\<rparr>)
      else (OMX_ErrorBadParameter, s))"

section \<open>Parameters\<close>

datatype omx_index =
    OMX_IndexParameterThreadsID | OMX_IndexParamAudioInit | OMX_IndexParamVideoInit
  | OMX_IndexParamImageInit | OMX_IndexParamOtherInit | OMX_IndexParamPortDefinition
  | OMX_IndexParamPriorityMgmt | OMX_IndexParamCompBufferSupplier
  | OMX_IndexVendorCompPropTunnelFlags | OMX_IndexMax

text \<open>
  The structure behind the \<open>void *\<close> of a parameter call. Reading it as the structure of another
  index is a fault of the caller and outside the model (\<open>Fault\<close>).
\<close>

datatype omx_param =
    ParamThreads omx_head u32 u32
  | ParamPorts omx_head u32 u32
  | ParamPortDefinition omx_portdef
  | ParamPriority omx_head u32 u32
  | ParamSupplier omx_head u32 omx_supplier
  | ParamPropTunnel u32 u32 omx_supplier

text \<open>\<open>checkHeader\<close> before the body of a case: the structure comes back unchanged on an error.\<close>

definition checked ::
    "omx_head \<Rightarrow> u32 \<Rightarrow> omx_param \<Rightarrow> 's \<Rightarrow> (omx_err \<times> omx_param, 's) outcome \<Rightarrow>
      (omx_err \<times> omx_param, 's) outcome" where
  "checked h sz p s k =
     (if checkHeader (Some h) sz \<noteq> OMX_ErrorNone then Done (checkHeader (Some h) sz, p) s else k)"

text \<open>The supplier of a port, as the parameter shows it.\<close>

definition supplier_of :: "omx_port \<Rightarrow> omx_supplier" where
  "supplier_of p =
     (if eDir (sPortParam p) = OMX_DirInput then
        (if PORT_IS_BUFFER_SUPPLIER p then OMX_BufferSupplyInput
         else if PORT_IS_TUNNELED p then OMX_BufferSupplyOutput
         else OMX_BufferSupplyUnspecified)
      else
        (if PORT_IS_BUFFER_SUPPLIER p then OMX_BufferSupplyOutput
         else if PORT_IS_TUNNELED p then OMX_BufferSupplyInput
         else OMX_BufferSupplyUnspecified))"

definition get_parameter ::
    "omx_index \<Rightarrow> omx_param \<Rightarrow> 'p omx_comp \<Rightarrow> (omx_err \<times> omx_param, 'p omx_comp) outcome" where
  "get_parameter index p s =
     (if index = OMX_IndexParameterThreadsID then
        (case p of
           ParamThreads h _ _ \<Rightarrow> checked h sizeof_BELLAGIOTHREADS_ID p s
             (ofail (bellagioThreads s) (\<lambda>(b, m). Done (OMX_ErrorNone, ParamThreads h b m) s))
         | _ \<Rightarrow> Fault)
      else if index \<in> {OMX_IndexParamAudioInit, OMX_IndexParamVideoInit, OMX_IndexParamImageInit,
                       OMX_IndexParamOtherInit} then
        (case p of
           ParamPorts h _ _ \<Rightarrow> checked h sizeof_PORT_PARAM_TYPE p s
             (Done (OMX_ErrorNone, ParamPorts h 0 0) s)
         | _ \<Rightarrow> Fault)
      else if index = OMX_IndexParamPortDefinition then
        (case p of
           ParamPortDefinition d \<Rightarrow> checked (phead d) sizeof_PORTDEFINITIONTYPE p s
             (if nPortIndex d \<ge> total_ports s then Done (OMX_ErrorBadPortIndex, p) s
              else ofail (get_port (unat (nPortIndex d)) s) (\<lambda>q.
                     Done (OMX_ErrorNone, ParamPortDefinition (sPortParam q)) s))
         | _ \<Rightarrow> Fault)
      else if index = OMX_IndexParamPriorityMgmt then
        (case p of
           ParamPriority h _ _ \<Rightarrow> checked h sizeof_PRIORITYMGMTTYPE p s
             (Done (OMX_ErrorNone, ParamPriority h (nGroupPriority s) (nGroupID s)) s)
         | _ \<Rightarrow> Fault)
      else if index = OMX_IndexParamCompBufferSupplier then
        (case p of
           ParamSupplier h i _ \<Rightarrow> checked h sizeof_BUFFERSUPPLIERTYPE p s
             (if i \<ge> total_ports s then Done (OMX_ErrorBadPortIndex, p) s
              else ofail (get_port (unat i) s) (\<lambda>q.
                     Done (OMX_ErrorNone, ParamSupplier h i (supplier_of q)) s))
         | _ \<Rightarrow> Fault)
      else if index = OMX_IndexVendorCompPropTunnelFlags then
        (case p of
           ParamPropTunnel i _ _ \<Rightarrow>
             (if i \<ge> total_ports s then Done (OMX_ErrorBadPortIndex, p) s
              else ofail (get_port (unat i) s) (\<lambda>q.
                     Done (OMX_ErrorNone, ParamPropTunnel i (nTunnelFlags q) (eBufferSupplier q)) s))
         | _ \<Rightarrow> Fault)
      else Done (OMX_ErrorUnsupportedIndex, p) s)"

definition omx_base_component_GetParameter ::
    "omx_index \<Rightarrow> omx_param option \<Rightarrow> 'p omx_comp \<Rightarrow>
      (omx_err \<times> omx_param option, 'p omx_comp) outcome" where
  "omx_base_component_GetParameter index p s =
     (case p of
        None \<Rightarrow> Done (OMX_ErrorBadParameter, None) s
      | Some p \<Rightarrow> obind (get_parameter index p s) (\<lambda>(e, p) s. Done (e, Some p) s))"

text \<open>
  The check of a parameter that belongs to a port: the index, the state (a port in use must be
  disabled, or about to be enabled), the header.
\<close>

definition omx_base_component_ParameterSanityCheck ::
    "u32 \<Rightarrow> omx_head \<Rightarrow> u32 \<Rightarrow> 'p omx_comp \<Rightarrow> (omx_err, 'p omx_comp) outcome" where
  "omx_base_component_ParameterSanityCheck i h sz s =
     (if i \<ge> total_ports s then Done OMX_ErrorBadPortIndex s
      else ofail (get_port (unat i) s) (\<lambda>p.
        if state s \<noteq> OMX_StateLoaded \<and> state s \<noteq> OMX_StateWaitForResources
           \<and> PORT_IS_ENABLED p \<and> \<not> bIsTransientToEnabled p
        then Done OMX_ErrorIncorrectStateOperation s
        else Done (checkHeader (Some h) sz) s))"

text \<open>
  The member of the format union is copied by the domain the caller names, whatever the port's own
  domain is. For audio and other ports it is copied as a whole; of a video format the fields other than
  \<open>cMIMEType\<close>, \<open>nSliceHeight\<close> and \<open>nBitrate\<close>, of an image format those other than \<open>cMIMEType\<close>,
  \<open>pNativeRender\<close> and \<open>nSliceHeight\<close>. The fields are written at their offsets in words.
\<close>

definition copy_words :: "nat list \<Rightarrow> omx_portdef \<Rightarrow> omx_portdef \<Rightarrow> omx_portdef" where
  "copy_words offsets d mine =
     mine\<lparr>format_words := fold (\<lambda>i ws. ws[i := format_words d ! i]) offsets (format_words mine)\<rparr>"

definition copy_format :: "omx_portdef \<Rightarrow> omx_portdef \<Rightarrow> omx_err \<times> omx_portdef" where
  "copy_format d mine =
     (case eDomain d of
        OMX_PortDomainAudio \<Rightarrow> (OMX_ErrorNone, copy_words [0, 1, 2, 3] d mine)
      | OMX_PortDomainVideo \<Rightarrow> (OMX_ErrorNone, copy_words [1, 2, 3, 4, 7, 8, 9, 10, 11] d mine)
      | OMX_PortDomainImage \<Rightarrow> (OMX_ErrorNone, copy_words [2, 3, 4, 6, 7, 8, 9] d mine)
      | OMX_PortDomainOther \<Rightarrow> (OMX_ErrorNone, copy_words [0] d mine)
      | _ \<Rightarrow> (OMX_ErrorBadParameter, mine))"

text \<open>
  More buffers for a port in use: both arrays grow, the new pointers are not initialised (0
  here), and every flag is set to free.
\<close>

definition grow_arrays :: "omx_port \<Rightarrow> omx_port" where
  "grow_arrays p =
     (let n = unat (nBufferCountActual (sPortParam p)) in
      p\<lparr>pInternalBufferStorage :=
          map_option (\<lambda>st. take n (st @ replicate (n - length st) 0)) (pInternalBufferStorage p),
        bBufferStateAllocated := map_option (\<lambda>_. replicate n BUFFER_FREE) (bBufferStateAllocated p)\<rparr>)"

definition set_port_definition ::
    "omx_portdef \<Rightarrow> 'p omx_comp \<Rightarrow> (omx_err, 'p omx_comp) outcome" where
  "set_port_definition d s =
     obind (omx_base_component_ParameterSanityCheck (nPortIndex d) (phead d) sizeof_PORTDEFINITIONTYPE s)
       (\<lambda>err s.
       if err \<noteq> OMX_ErrorNone then Done err s
       else ofail (get_port (unat (nPortIndex d)) s) (\<lambda>p.
         if nBufferCountActual d < nBufferCountMin (sPortParam p) then Done OMX_ErrorBadParameter s
         else
         let old = nBufferCountActual (sPortParam p);
             mine = (sPortParam p)\<lparr>nBufferCountActual := nBufferCountActual d\<rparr>
         in case copy_format d mine of (err, mine) \<Rightarrow>
         let p = p\<lparr>sPortParam := mine\<rparr>;
             p = (if state s \<in> {OMX_StateIdle, OMX_StatePause, OMX_StateExecuting}
                     \<and> nBufferCountActual mine > old
                  then grow_arrays p else p)
         in Done err (upd_port (unat (nPortIndex d)) (\<lambda>_. p) s)))"

definition set_tunnel_flags :: "nat \<Rightarrow> (u32 \<Rightarrow> u32) \<Rightarrow> 'p omx_comp \<Rightarrow> 'p omx_comp" where
  "set_tunnel_flags i f s = upd_port i (\<lambda>p. p\<lparr>nTunnelFlags := f (nTunnelFlags p)\<rparr>) s"

text \<open>
  The client overrides the supplier of a tunnel at its input port; that port tells the output
  port. The index in the caller's structure then is that of the other end.
\<close>

definition override_supplier ::
    "'p omx_ext \<Rightarrow> omx_head \<Rightarrow> u32 \<Rightarrow> omx_supplier \<Rightarrow> omx_port \<Rightarrow> 'p omx_comp \<Rightarrow>
      omx_err \<times> omx_param \<times> 'p omx_comp" where
  "override_supplier x h i supp p s =
     (let claim = set_tunnel_flags (unat i) (\<lambda>f. f OR TUNNEL_IS_SUPPLIER);
          yield = set_tunnel_flags (unat i) (\<lambda>f. f AND NOT TUNNEL_IS_SUPPLIER);
          input = (eDir (sPortParam p) = OMX_DirInput);
          tell = (\<lambda>s. case xSetBufferSupplier x (hTunneledComponent p) (nTunneledPort p) supp (peer s) of
                        (e, q) \<Rightarrow> (e, s\<lparr>peer := q\<rparr>)) in
      if supp = OMX_BufferSupplyInput \<and> input then
        (case tell (claim s) of (e, s) \<Rightarrow> (e, ParamSupplier h (nTunneledPort p) supp, s))
      else if supp = OMX_BufferSupplyOutput \<and> input then
        (if PORT_IS_BUFFER_SUPPLIER p
         then (case tell (yield s) of (e, s) \<Rightarrow> (OMX_ErrorNone, ParamSupplier h (nTunneledPort p) supp, s))
         else (OMX_ErrorNone, ParamSupplier h i supp, s))
      else if supp = OMX_BufferSupplyOutput then (OMX_ErrorNone, ParamSupplier h i supp, claim s)
      else (OMX_ErrorNone, ParamSupplier h i supp, if PORT_IS_BUFFER_SUPPLIER p then yield s else s))"

definition set_buffer_supplier ::
    "'p omx_ext \<Rightarrow> omx_head \<Rightarrow> u32 \<Rightarrow> omx_supplier \<Rightarrow> 'p omx_comp \<Rightarrow>
      (omx_err \<times> omx_param, 'p omx_comp) outcome" where
  "set_buffer_supplier x h i supp s =
     (if i > total_ports s then Done (OMX_ErrorBadPortIndex, ParamSupplier h i supp) s
      else obind (omx_base_component_ParameterSanityCheck i h sizeof_BUFFERSUPPLIERTYPE s) (\<lambda>err s.
        if err = OMX_ErrorIncorrectStateOperation
           \<and> (case get_port (unat i) s of None \<Rightarrow> False | Some p \<Rightarrow> PORT_IS_ENABLED p)
        then Done (OMX_ErrorIncorrectStateOperation, ParamSupplier h i supp) s
        else if err \<noteq> OMX_ErrorIncorrectStateOperation \<and> err \<noteq> OMX_ErrorNone
        then Done (err, ParamSupplier h i supp) s
        else if supp = OMX_BufferSupplyUnspecified then Done (OMX_ErrorNone, ParamSupplier h i supp) s
        else ofail (get_port (unat i) s) (\<lambda>p.
          if \<not> PORT_IS_TUNNELED p then Done (OMX_ErrorNone, ParamSupplier h i supp) s
          else case override_supplier x h i supp p s of (e, r, s) \<Rightarrow> Done (e, r) s)))"

definition set_parameter ::
    "'p omx_ext \<Rightarrow> omx_index \<Rightarrow> omx_param \<Rightarrow> 'p omx_comp \<Rightarrow> (omx_err \<times> omx_param, 'p omx_comp) outcome"
  where
  "set_parameter x index p s =
     (let wrong_state = (state s \<noteq> OMX_StateLoaded \<and> state s \<noteq> OMX_StateWaitForResources) in
      if index \<in> {OMX_IndexParamAudioInit, OMX_IndexParamVideoInit, OMX_IndexParamImageInit,
                  OMX_IndexParamOtherInit} then
        (if wrong_state then Done (OMX_ErrorIncorrectStateOperation, p) s
         else case p of
           ParamPorts h _ _ \<Rightarrow> checked h sizeof_PORT_PARAM_TYPE p s (Done (OMX_ErrorUndefined, p) s)
         | _ \<Rightarrow> Fault)
      else if index = OMX_IndexParamPortDefinition then
        (case p of
           ParamPortDefinition d \<Rightarrow> obind (set_port_definition d s) (\<lambda>e s. Done (e, p) s)
         | _ \<Rightarrow> Fault)
      else if index = OMX_IndexParamPriorityMgmt then
        (if wrong_state then Done (OMX_ErrorIncorrectStateOperation, p) s
         else case p of
           ParamPriority h prio gid \<Rightarrow> checked h sizeof_PRIORITYMGMTTYPE p s
             (Done (OMX_ErrorNone, p) (s\<lparr>nGroupPriority := prio, nGroupID := gid\<rparr>))
         | _ \<Rightarrow> Fault)
      else if index = OMX_IndexParamCompBufferSupplier then
        (case p of
           ParamSupplier h i supp \<Rightarrow> set_buffer_supplier x h i supp s
         | _ \<Rightarrow> Fault)
      else Done (OMX_ErrorUnsupportedIndex, p) s)"

definition omx_base_component_SetParameter ::
    "'p omx_ext \<Rightarrow> omx_index \<Rightarrow> omx_param option \<Rightarrow> 'p omx_comp \<Rightarrow>
      (omx_err \<times> omx_param option, 'p omx_comp) outcome" where
  "omx_base_component_SetParameter x index p s =
     (case p of
        None \<Rightarrow> Done (OMX_ErrorBadParameter, None) s
      | Some p \<Rightarrow> obind (set_parameter x index p s) (\<lambda>(e, p) s. Done (e, Some p) s))"

section \<open>The calls that go through to a port\<close>

definition omx_base_component_AllocateBuffer ::
    "u32 \<Rightarrow> nat \<Rightarrow> u32 \<Rightarrow> 'p omx_comp \<Rightarrow> (omx_err \<times> nat option, 'p omx_comp) outcome" where
  "omx_base_component_AllocateBuffer i app nSizeBytes s =
     (if i \<ge> total_ports s then Done (OMX_ErrorBadPortIndex, None) s
      else base_port_AllocateBuffer (unat i) i app nSizeBytes s)"

definition omx_base_component_UseBuffer ::
    "u32 \<Rightarrow> nat \<Rightarrow> u32 \<Rightarrow> nat \<Rightarrow> 'p omx_comp \<Rightarrow> (omx_err \<times> nat option, 'p omx_comp) outcome" where
  "omx_base_component_UseBuffer i app nSizeBytes pBuf s =
     (if i \<ge> total_ports s then Done (OMX_ErrorBadPortIndex, None) s
      else base_port_UseBuffer (unat i) i app nSizeBytes pBuf s)"

definition omx_base_component_FreeBuffer ::
    "u32 \<Rightarrow> nat \<Rightarrow> 'p omx_comp \<Rightarrow> (omx_err, 'p omx_comp) outcome" where
  "omx_base_component_FreeBuffer i pBuf s =
     (if i \<ge> total_ports s then Done OMX_ErrorBadPortIndex s
      else base_port_FreeBuffer (unat i) i pBuf s)"

definition omx_base_component_EmptyThisBuffer ::
    "nat \<Rightarrow> 'p omx_comp \<Rightarrow> (omx_err, 'p omx_comp) outcome" where
  "omx_base_component_EmptyThisBuffer a s =
     ofail (get_hdr a (heap s)) (\<lambda>b.
       if nInputPortIndex b \<ge> total_ports s then Done OMX_ErrorBadPortIndex s
       else ofail (get_port (unat (nInputPortIndex b)) s) (\<lambda>p.
         if eDir (sPortParam p) \<noteq> OMX_DirInput then Done OMX_ErrorBadPortIndex s
         else base_port_SendBufferFunction (unat (nInputPortIndex b)) a s))"

definition omx_base_component_FillThisBuffer ::
    "nat \<Rightarrow> 'p omx_comp \<Rightarrow> (omx_err, 'p omx_comp) outcome" where
  "omx_base_component_FillThisBuffer a s =
     ofail (get_hdr a (heap s)) (\<lambda>b.
       if nOutputPortIndex b \<ge> total_ports s then Done OMX_ErrorBadPortIndex s
       else ofail (get_port (unat (nOutputPortIndex b)) s) (\<lambda>p.
         if eDir (sPortParam p) \<noteq> OMX_DirOutput then Done OMX_ErrorBadPortIndex s
         else base_port_SendBufferFunction (unat (nOutputPortIndex b)) a s))"

definition omx_base_component_ComponentTunnelRequest ::
    "'p omx_ext \<Rightarrow> u32 \<Rightarrow> nat \<Rightarrow> u32 \<Rightarrow> omx_tunnel_setup option \<Rightarrow> 'p omx_comp \<Rightarrow>
      (omx_err \<times> omx_tunnel_setup option, 'p omx_comp) outcome" where
  "omx_base_component_ComponentTunnelRequest x i hcomp tport setup s =
     (if i \<ge> total_ports s then Done (OMX_ErrorBadPortIndex, setup) s
      else base_port_ComponentTunnelRequest x (unat i) hcomp tport setup s)"

end
