(* ===== verification/OmxState.thy ===== *)
theory OmxState
  imports OmxPortProof OmxComponent
begin

text \<open>
  The state machine of the base component against the state diagram of OpenMAX. What an operation
  leaves alone is a relation between the state before and after it; the locale \<open>frame\<close> carries such
  a relation through every operation of a port and every loop over the ports.
\<close>

section \<open>What an operation leaves alone\<close>

fun okeeps :: "('s \<Rightarrow> 's \<Rightarrow> bool) \<Rightarrow> 's \<Rightarrow> ('a, 's) outcome \<Rightarrow> bool" where
  "okeeps R s (Done a t) = R s t"
| "okeeps R s (Blocked t) = R s t"
| "okeeps R s Fault = True"

locale frame =
  fixes R :: "'p omx_comp \<Rightarrow> 'p omx_comp \<Rightarrow> bool" and x :: "'p omx_ext"
  assumes refl: "R s s"
    and trans: "R s s1 \<Longrightarrow> R s1 s2 \<Longrightarrow> R s s2"
    and upd_port: "R s (upd_port i f s)"
    and put_sem: "n \<noteq> SMessage \<Longrightarrow> R s (put_sem n v s)"
    and heap: "R s (s\<lparr>heap := h\<rparr>)"
    and peer: "R s (s\<lparr>peer := q\<rparr>)"
    and emit: "R s (emit e s)"
    and wait: "n \<noteq> SMessage \<Longrightarrow> R s (xWait x n s)"
begin

abbreviation keeps :: "'p omx_comp \<Rightarrow> ('a, 'p omx_comp) outcome \<Rightarrow> bool" where
  "keeps \<equiv> okeeps R"

text \<open>The relation along the changes of a state, and along the operations.\<close>

lemma r_upd_port: "R s t \<Longrightarrow> R s (upd_port i f t)"
  and r_put_sem: "n \<noteq> SMessage \<Longrightarrow> R s t \<Longrightarrow> R s (put_sem n v t)"
  and r_heap: "R s t \<Longrightarrow> R s (t\<lparr>heap := h\<rparr>)"
  and r_peer: "R s t \<Longrightarrow> R s (t\<lparr>peer := q\<rparr>)"
  and r_emit: "R s t \<Longrightarrow> R s (emit e t)"
  and r_wait: "n \<noteq> SMessage \<Longrightarrow> R s t \<Longrightarrow> R s (xWait x n t)"
  and r_heap_peer: "R s t \<Longrightarrow> R s (t\<lparr>heap := h, peer := q\<rparr>)"
  using upd_port put_sem heap peer emit wait by (blast intro: trans)+

lemmas r_intros = refl r_upd_port r_put_sem r_heap r_peer r_emit r_wait r_heap_peer

lemma k_done: "R s t \<Longrightarrow> keeps s (Done a t)" by simp
lemma k_blocked: "R s t \<Longrightarrow> keeps s (Blocked t)" by simp
lemma k_fault: "keeps s Fault" by simp

lemma k_bind:
  assumes "keeps s m" "\<And>a t. R s t \<Longrightarrow> keeps s (k a t)"
  shows "keeps s (obind m k)"
  using assms by (cases m) auto

lemma k_at:
  assumes "keeps t m" "R s t" shows "keeps s m"
  using assms trans by (cases m) auto

lemma k_fail:
  assumes "\<And>a. v = Some a \<Longrightarrow> keeps s (k a)" shows "keeps s (ofail v k)"
  using assms by (cases v) auto

lemma k_if: "(c \<Longrightarrow> keeps s m) \<Longrightarrow> (\<not> c \<Longrightarrow> keeps s n) \<Longrightarrow> keeps s (if c then m else n)"
  by simp

lemma k_up: "n \<noteq> SMessage \<Longrightarrow> keeps s (up n s)"
  and k_reset: "n \<noteq> SMessage \<Longrightarrow> keeps s (reset n s)"
  and k_signal: "n \<noteq> SMessage \<Longrightarrow> keeps s (signal_sem n s)"
  by (simp_all add: up_def reset_def signal_sem_def put_sem ofail_def split: option.split)

lemma k_down: "n \<noteq> SMessage \<Longrightarrow> keeps s (down x n s)"
  unfolding down_def Let_def tsem_down_def
  by (rule k_fail, rule k_fail) (auto intro!: r_intros)

lemma k_enqueue: "keeps s (enqueue i a s)"
  by (auto simp: enqueue_def ofail_def upd_port split: option.split prod.split qresult.split)

lemma k_dequeue: "keeps s (dequeue_buffer i s)"
  by (auto simp: dequeue_buffer_def ofail_def upd_port split: option.split prod.split qresult.split)

lemma k_event: "keeps s (event_handler e s)" by (simp add: event_handler_def emit)
lemma k_buffer_done: "keeps s (buffer_done i a s)"
  by (simp add: buffer_done_def ofail_def emit split: option.split)
lemma k_on_heap: "keeps s (on_heap f s)" by (simp add: on_heap_def ofail_def heap split: option.split)
lemma k_set_slot: "keeps s (set_slot i k a s)"
  and k_set_flag: "keeps s (set_flag i k f s)"
  and k_count: "keeps s (count_buffer i s)"
  and k_uncount: "keeps s (uncount_buffer i s)"
  and k_drop: "keeps s (drop_buffers i s)"
  by (simp_all add: set_slot_def set_flag_def count_buffer_def uncount_buffer_def drop_buffers_def
      ofail_def upd_port Let_def split: option.split)

lemma r_peer_take: "R s t \<Longrightarrow> R s (snd (peer_take x i a t))"
  by (auto simp: peer_take_def peer_fill_def peer_empty_def split: prod.split intro: r_intros)

lemmas k_prims = k_up k_reset k_signal k_down k_enqueue k_dequeue k_event k_buffer_done k_on_heap
  k_set_slot k_set_flag k_count k_uncount k_drop

lemmas k_rules = k_bind k_fail k_if k_prims [THEN k_at] k_done k_blocked k_fault

text \<open>The operations of a port.\<close>

lemma k_tunnel_slot: "keeps s (tunnel_slot x i k n r e s)"
  unfolding tunnel_slot_def Let_def
  by (auto split: prod.split intro!: k_rules r_intros)

lemma k_tunnel_slots: "R s t \<Longrightarrow> keeps s (tunnel_slots x i n m k r e t)"
  by (induction m arbitrary: k r e t)
    (auto split: prod.split intro!: k_rules k_tunnel_slot [THEN k_at] r_intros)

lemma r_negotiate: "R s (snd (negotiate_buffers x i s))"
  by (auto simp: negotiate_buffers_def Let_def split: prod.split intro: r_intros)

lemma k_allocate_tunnel: "keeps s (base_port_AllocateTunnelBuffer x i index s)"
  using r_negotiate [of s i] unfolding base_port_AllocateTunnelBuffer_def Let_def
  by (auto split: prod.split sum.split intro!: k_rules k_tunnel_slots r_intros)

lemma k_untunnel_slot: "keeps s (untunnel_slot x i k r e s)"
  unfolding untunnel_slot_def Let_def
  by (auto split: prod.split intro!: k_rules r_intros)

lemma k_untunnel_slots: "R s t \<Longrightarrow> keeps s (untunnel_slots x i m k r e t)"
  by (induction m arbitrary: k r e t)
    (auto split: prod.split intro!: k_rules k_untunnel_slot [THEN k_at] r_intros)

lemma k_free_tunnel: "keeps s (base_port_FreeTunnelBuffer x i index s)"
  unfolding base_port_FreeTunnelBuffer_def free_guard_def
  by (auto intro!: k_rules k_untunnel_slots r_intros)

lemma k_flush_request: "keeps s (flush_request x i s)"
  unfolding flush_request_def Let_def by (auto intro!: k_rules r_intros)

lemma k_flush_one: "keeps s (flush_one x i s)"
  unfolding flush_one_def Let_def
  by (auto simp: split_beta intro!: k_rules r_intros r_peer_take)

lemma k_flush_loop: "R s t \<Longrightarrow> keeps s (flush_loop x i n t)"
  by (induction n arbitrary: t) (auto intro!: k_rules k_flush_one [THEN k_at])

lemma k_await: "R s t \<Longrightarrow> keeps s (await_buffers x i n t)"
  by (induction n arbitrary: t; subst await_buffers.simps) (auto intro!: k_rules)

lemma k_flush: "keeps s (base_port_FlushProcessingBuffers x i s)"
  unfolding base_port_FlushProcessingBuffers_def
  by (auto intro!: k_rules k_flush_request [THEN k_at] k_flush_loop k_await r_intros)

lemma k_disable: "keeps s (base_port_DisablePort x i s)"
  unfolding base_port_DisablePort_def
  by (auto intro!: k_rules k_free_tunnel [THEN k_at] r_intros)

lemma k_announce: "R s t \<Longrightarrow> keeps s (announce i n t)"
  by (induction n arbitrary: t) (auto intro!: k_rules)

lemma k_enable: "keeps s (base_port_EnablePort x i s)"
  unfolding base_port_EnablePort_def Let_def
  by (auto intro!: k_rules k_allocate_tunnel [THEN k_at] k_announce r_intros)

lemmas k_port = k_allocate_tunnel [THEN k_at] k_free_tunnel [THEN k_at] k_flush [THEN k_at]
  k_disable [THEN k_at] k_enable [THEN k_at] k_announce

lemma k_for_each: "R s t \<Longrightarrow> (\<And>i t. R s t \<Longrightarrow> keeps s (f i t)) \<Longrightarrow> keeps s (for_each f is t)"
  by (induction "is" arbitrary: t) (auto intro!: k_rules)

lemma k_for_until: "R s t \<Longrightarrow> (\<And>i t. R s t \<Longrightarrow> keeps s (f i t)) \<Longrightarrow> keeps s (for_until f is t)"
  by (induction "is" arbitrary: t) (auto intro!: k_rules)

lemma k_for_last: "R s t \<Longrightarrow> (\<And>i t. R s t \<Longrightarrow> keeps s (f i t)) \<Longrightarrow> keeps s (for_last f is e t)"
  by (induction "is" arbitrary: e t) (auto intro!: k_rules)

lemma k_unload_port: "keeps s (unload_port x i s)"
  unfolding unload_port_def by (auto intro!: k_rules k_port r_intros)

lemma k_load_port: "keeps s (load_port x i s)"
  unfolding load_port_def Let_def by (auto intro!: k_rules k_port r_intros)

lemma k_load_ports: "R s t \<Longrightarrow> keeps s (load_ports x is b t)"
  by (induction "is" arbitrary: b t) (auto split: prod.split intro!: k_rules k_load_port [THEN k_at])

lemma k_flush_enabled: "keeps s (flush_enabled x i s)"
  unfolding flush_enabled_def by (auto intro!: k_rules k_port r_intros)

lemma k_start_port: "keeps s (start_port i s)"
  and k_resume_port: "keeps s (resume_port i s)"
  and k_restart_port: "keeps s (restart_port i s)"
  and k_announce_supplier: "keeps s (announce_supplier i s)"
  unfolding start_port_def resume_port_def restart_port_def announce_supplier_def
  by (auto intro!: k_rules k_port r_intros)

lemmas k_ports = k_for_each k_for_until k_for_last k_load_ports
  k_unload_port [THEN k_at] k_flush_enabled [THEN k_at] k_start_port [THEN k_at]
  k_resume_port [THEN k_at] k_restart_port [THEN k_at] k_announce_supplier [THEN k_at]

end


section \<open>The state diagram\<close>

text \<open>
  The transitions of the OpenMAX state diagram, and what a request for the state \<open>d\<close> may answer
  in the state \<open>c\<close>: the error code and the state after it. A request that the diagram allows can
  fail, and the component then stays where it is; but it has already moved when the resource
  manager refuses to let it wait, or when its thread cannot be started. A port that is destroyed
  while it waits for its buffers ends the transition to Idle without an error.
\<close>

fun omx_edge :: "omx_state \<Rightarrow> omx_state \<Rightarrow> bool" where
  "omx_edge OMX_StateLoaded d = (d = OMX_StateIdle \<or> d = OMX_StateWaitForResources)"
| "omx_edge OMX_StateWaitForResources d = (d = OMX_StateLoaded \<or> d = OMX_StateIdle)"
| "omx_edge OMX_StateIdle d = (d = OMX_StateLoaded \<or> d = OMX_StateExecuting \<or> d = OMX_StatePause)"
| "omx_edge OMX_StateExecuting d = (d = OMX_StateIdle \<or> d = OMX_StatePause)"
| "omx_edge OMX_StatePause d = (d = OMX_StateIdle \<or> d = OMX_StateExecuting)"
| "omx_edge OMX_StateInvalid d = False"

definition diagram :: "omx_state \<Rightarrow> omx_state \<Rightarrow> omx_err \<Rightarrow> omx_state \<Rightarrow> bool" where
  "diagram c d e c' =
     (if c = OMX_StateInvalid \<or> d = OMX_StateInvalid
      then e = OMX_ErrorInvalidState \<and> c' = OMX_StateInvalid
      else if c = d then e = OMX_ErrorSameState \<and> c' = c
      else if \<not> omx_edge c d then e = OMX_ErrorIncorrectStateTransition \<and> c' = c
      else if e = OMX_ErrorNone
           then c' = d \<or> c = OMX_StateLoaded \<and> d = OMX_StateIdle \<and> c' = c
      else c' = c \<or> c = OMX_StateLoaded \<and> d = OMX_StateWaitForResources \<and> c' = d
           \<or> c = OMX_StateLoaded \<and> d = OMX_StateIdle \<and> e = OMX_ErrorUndefined \<and> c' = d)"

definition env_state :: "'p omx_ext \<Rightarrow> bool" where
  "env_state x = (\<forall>n s. n \<noteq> SMessage \<longrightarrow> state (xWait x n s) = state s)"

lemma put_sem_state [simp]: "state (put_sem n t s) = state s"
  by (cases n) (simp_all add: upd_port_def)

interpretation state_frame: frame "\<lambda>s t. env_state x \<longrightarrow> state t = state s" x for x
  by unfold_locales (simp_all add: env_state_def upd_port_def emit_def)

lemma done_case: "(case m of Done e t \<Rightarrow> P e t | _ \<Rightarrow> False) \<Longrightarrow> \<exists>e t. m = Done e t \<and> P e t"
  by (cases m) auto

lemma okeeps_done: "okeeps R s m \<Longrightarrow> m = Done a t \<Longrightarrow> R s t" by simp

lemma state_for_until:
  fixes x :: "'p omx_ext" and s :: "'p omx_comp"
  assumes "for_until f is s = Done e t" "env_state x"
    "\<And>i t :: 'p omx_comp. okeeps (\<lambda>s t. env_state x \<longrightarrow> state t = state s) t (f i t)"
  shows "state t = state s"
  using state_frame.k_for_until [of x s s f "is", OF _ state_frame.k_at [OF assms(3)]] assms(1,2) by simp

lemma state_for_each:
  fixes x :: "'p omx_ext" and s :: "'p omx_comp"
  assumes "for_each f is s = Done u t" "env_state x"
    "\<And>i t :: 'p omx_comp. okeeps (\<lambda>s t. env_state x \<longrightarrow> state t = state s) t (f i t)"
  shows "state t = state s"
  using state_frame.k_for_each [of x s s f "is", OF _ state_frame.k_at [OF assms(3)]] assms(1,2) by simp

lemma state_load_ports:
  "load_ports x is b s = Done r t \<Longrightarrow> env_state x \<Longrightarrow> state t = state s"
  using state_frame.k_load_ports [of x s s "is" b] by simp

lemma end_buffer_thread_state: "end_buffer_thread s = Done u t \<Longrightarrow> state t = state s"
  by (auto simp: end_buffer_thread_def up_def outcome split: if_splits)

lemma signal_state: "signal_sem n s = Done u t \<Longrightarrow> state t = state s"
  by (auto simp: signal_sem_def outcome)

lemma set_loaded_diagram:
  assumes "set_loaded x s = Done e t" "env_state x"
  shows "diagram (state s) OMX_StateLoaded e (state t)"
  using assms(1)
  by (cases "state s") (auto simp: set_loaded_def diagram_def outcome split: if_splits dest!:
      end_buffer_thread_state state_for_until [where f = "unload_port x", OF _ assms(2) state_frame.k_unload_port])

lemma set_wait_diagram:
  "set_wait_for_resources x s = Done e t \<Longrightarrow> diagram (state s) OMX_StateWaitForResources e (state t)"
  by (auto simp: set_wait_for_resources_def diagram_def Let_def split: omx_state.splits)

lemma set_idle_diagram:
  assumes "set_idle x s = Done e t" "env_state x"
  shows "diagram (state s) OMX_StateIdle e (state t)"
  using assms(1)
  by (cases "state s") (auto simp: set_idle_def diagram_def Let_def outcome split: if_splits dest!:
      signal_state state_load_ports [OF _ assms(2)]
      state_for_each [where f = "flush_enabled x", OF _ assms(2) state_frame.k_flush_enabled])

lemma set_pause_diagram: "set_pause s = Done e t \<Longrightarrow> diagram (state s) OMX_StatePause e (state t)"
  by (auto simp: set_pause_def diagram_def split: omx_state.splits)

lemma set_executing_diagram:
  fixes x :: "'p omx_ext" and s :: "'p omx_comp"
  assumes "set_executing s = Done e t" "env_state x"
  shows "diagram (state s) OMX_StateExecuting e (state t)"
  using assms(1)
  by (cases "state s") (auto simp: set_executing_def diagram_def outcome split: if_splits dest!:
      signal_state state_for_each [where f = "start_port", OF _ assms(2) state_frame.k_start_port]
      state_for_each [where f = "resume_port", OF _ assms(2) state_frame.k_resume_port])

lemma set_invalid_diagram: "set_invalid s = Done e t \<Longrightarrow> diagram (state s) OMX_StateInvalid e (state t)"
  by (auto simp: set_invalid_def diagram_def Let_def outcome dest!: signal_state end_buffer_thread_state
      split: omx_state.splits if_splits)

lemma state_code_inject [simp]: "state_code c = state_code d \<longleftrightarrow> c = d"
  by (cases c; cases d) simp_all

text \<open>A request that the diagram refuses changes nothing.\<close>

lemma refused_unchanged:
  assumes "omx_base_component_DoStateSet x (state_code d) s = Done e t"
    "state s = OMX_StateInvalid \<or> d \<noteq> OMX_StateInvalid \<and> \<not> omx_edge (state s) d"
  shows "t = s"
  using assms
  by (cases d; cases "state s")
    (auto simp: omx_base_component_DoStateSet_def set_loaded_def set_wait_for_resources_def
      set_idle_def set_pause_def set_executing_def set_invalid_def split: if_splits)

text \<open>
  Threads for the examples: whoever waits for buffers to be supplied or flushed is served, the
  tunnelled component refuses everything, the resource manager grants everything.
\<close>

definition demo_wait :: "omx_sem \<Rightarrow> 'p omx_comp \<Rightarrow> 'p omx_comp" where
  "demo_wait n s =
     (case n of
        SAlloc i \<Rightarrow> (if i < length (ports s) then put_sem n \<lparr>semval = 1\<rparr> s else s)
      | SBuffer i \<Rightarrow> s
      | SMessage \<Rightarrow> s
      | _ \<Rightarrow> put_sem n \<lparr>semval = 1\<rparr> s)"

definition demo_ext :: "'p omx_ext" where
  "demo_ext =
     \<lparr>xWait = demo_wait, xPatience = 0,
      xGetPortDefinition = (\<lambda>_ _ _. (OMX_ErrorBadPortIndex, demo_param)),
      xSetPortDefinition = (\<lambda>_ _ q. (OMX_ErrorBadPortIndex, q)),
      xGetBufferSupplier = (\<lambda>_ _ _. (OMX_ErrorBadPortIndex, OMX_BufferSupplyUnspecified)),
      xSetBufferSupplier = (\<lambda>_ _ _ q. (OMX_ErrorBadPortIndex, q)),
      xGetPropTunnelFlags = (\<lambda>_ _ _. OMX_ErrorBadPortIndex),
      xUseBuffer = (\<lambda>_ _ _ _ h q. (OMX_ErrorBadPortIndex, None, h, q)),
      xFreeBuffer = (\<lambda>_ _ _ h q. (OMX_ErrorBadPortIndex, h, q)),
      xEmptyThisBuffer = (\<lambda>_ _ h q. (OMX_ErrorBadPortIndex, h, q)),
      xFillThisBuffer = (\<lambda>_ _ h q. (OMX_ErrorBadPortIndex, h, q)),
      xRM_getResource = (\<lambda>_. OMX_ErrorNone), xRM_waitForResource = (\<lambda>_. OMX_ErrorNone),
      xPthreadCreate = (\<lambda>_. 0)\<rparr>"

lemma demo_env_state: "env_state demo_ext"
  by (simp add: env_state_def demo_ext_def demo_wait_def upd_port_def split: omx_sem.split)

text \<open>
  C17 -- \<open>omx_base_component_DoStateSet\<close> implements the OpenMAX state diagram: whatever state is
  asked for, the error code and the state afterwards are among those the diagram gives (an allowed
  transition ends in the requested state or reports why not, every other request is answered with
  the code for its reason), and a request the diagram refuses changes nothing at all. The other
  threads may do what they like while the component waits for them, save changing its state.
\<close>

theorem state_changes_follow_diagram:
  assumes "env_state x" "omx_base_component_DoStateSet x (state_code d) s = Done e t"
  shows "diagram (state s) d e (state t) \<and>
    (state s = OMX_StateInvalid \<or> d \<noteq> OMX_StateInvalid \<and> \<not> omx_edge (state s) d \<longrightarrow> t = s)"
proof (intro conjI impI)
  show "diagram (state s) d e (state t)"
  proof (cases "state s = OMX_StateLoaded \<and> d = OMX_StateIdle \<and> xRM_getResource x s \<noteq> OMX_ErrorNone")
    case True
    then show ?thesis using assms(2) by (auto simp: omx_base_component_DoStateSet_def diagram_def)
  next
    case False
    then show ?thesis
      using assms(2) set_loaded_diagram [OF _ assms(1)] set_wait_diagram set_idle_diagram [OF _ assms(1)]
        set_pause_diagram set_executing_diagram [OF _ assms(1)] set_invalid_diagram
      unfolding omx_base_component_DoStateSet_def state_code_inject
      by (cases d) (auto split: if_splits)
  qed
qed (rule refused_unchanged [OF assms(2)])

lemma state_changes_follow_diagram_witness:
  "\<exists>t. omx_base_component_DoStateSet demo_ext (state_code OMX_StateIdle) (demo_comp [demo_port] ()) =
     Done OMX_ErrorNone t \<and> diagram OMX_StateLoaded OMX_StateIdle OMX_ErrorNone (state t)"
proof -
  let ?s = "demo_comp [demo_port] ()"
  let ?r = "omx_base_component_DoStateSet demo_ext (state_code OMX_StateIdle) ?s"
  have "case ?r of Done e t \<Rightarrow> e = OMX_ErrorNone | _ \<Rightarrow> False" by code_simp
  then obtain t where r: "?r = Done OMX_ErrorNone t" by (auto dest: done_case)
  have l: "state ?s = OMX_StateLoaded" by (simp add: demo_comp_def)
  from state_changes_follow_diagram [OF demo_env_state r] l r show ?thesis by auto
qed

end
