(* ===== verification/OmxClient.thy ===== *)
theory OmxClient
  imports OmxState
begin

text \<open>
  Components whose ports belong to clients (none is tunnelled): that no call of a client and no turn
  of the message thread runs into undefined behaviour, that accepted commands are carried out, which
  buffers are accepted, and that a flush gives them back. \<open>safe\<close> is the weakest precondition of an
  outcome, \<open>comp_wf\<close> the invariant, \<open>env_wf\<close> what is asked of the other threads.
\<close>

section \<open>Outcomes\<close>

fun safe :: "bool \<Rightarrow> ('a \<Rightarrow> 's \<Rightarrow> bool) \<Rightarrow> ('a, 's) outcome \<Rightarrow> bool" where
  "safe l Q (Done a s) = Q a s"
| "safe l Q (Blocked s) = (\<not> l)"
| "safe l Q Fault = False"

lemma safe_bind:
  "safe l Q m \<Longrightarrow> (\<And>a s. Q a s \<Longrightarrow> safe l Q' (k a s)) \<Longrightarrow> safe l Q' (obind m k)"
  by (cases m) auto

lemma safe_if: "(c \<Longrightarrow> safe l Q m) \<Longrightarrow> (\<not> c \<Longrightarrow> safe l Q n) \<Longrightarrow> safe l Q (if c then m else n)"
  by simp

lemma safe_mono: "safe l Q m \<Longrightarrow> (\<And>a s. Q a s \<Longrightarrow> Q' a s) \<Longrightarrow> safe l Q' m"
  by (cases m) auto

lemma safe_fail: "v \<noteq> None \<Longrightarrow> (\<And>a. v = Some a \<Longrightarrow> safe l Q (k a)) \<Longrightarrow> safe l Q (ofail v k)"
  by auto

lemma safe_live: "safe True Q m \<longleftrightarrow> (\<exists>a s. m = Done a s \<and> Q a s)"
  by (cases m) auto

lemma safe_any: "safe False Q m \<longleftrightarrow> (\<exists>a s. m = Done a s \<and> Q a s) \<or> (\<exists>s. m = Blocked s)"
  by (cases m) auto

section \<open>Components whose ports belong to clients\<close>

definition client_port :: "omx_port \<Rightarrow> bool" where
  "client_port p =
     (\<not> PORT_IS_TUNNELED p \<and> \<not> PORT_IS_BUFFER_SUPPLIER p \<and> pAllocSem p \<noteq> None \<and>
      BufferProcessedCallback p \<noteq> None \<and>
      (case (pBufferQueue p, pBufferSem p) of
         (Some q, Some t) \<Rightarrow> length q \<le> QCAP \<and> semval t = of_nat (length q)
       | _ \<Rightarrow> False) \<and>
      (case bBufferStateAllocated p of
         None \<Rightarrow> True | Some fs \<Rightarrow> unat (nBufferCountActual (sPortParam p)) \<le> length fs))"

definition msg_ok :: "nat \<Rightarrow> omx_message \<Rightarrow> bool" where
  "msg_ok N m =
     (case messageType m of
        OMX_CommandStateSet \<Rightarrow> True
      | OMX_CommandMarkBuffer \<Rightarrow> pCmdData m \<noteq> None
      | OMX_CommandMax \<Rightarrow> True
      | _ \<Rightarrow> messageParam m = OMX_ALL \<or> unat (messageParam m) < N)"

definition messages_ok :: "nat \<Rightarrow> omx_message list option \<Rightarrow> tsem_t option \<Rightarrow> bool" where
  "messages_ok N q t =
     (case (q, t) of
        (Some ms, Some t) \<Rightarrow> length ms \<le> QCAP \<and> semval t = of_nat (length ms) \<and> list_all (msg_ok N) ms
      | _ \<Rightarrow> False)"

definition comp_wf :: "omx_domain_ports list \<Rightarrow> nat \<Rightarrow> 'p omx_comp \<Rightarrow> bool" where
  "comp_wf D N s =
     (sPortTypesParam s = D \<and> length (ports s) = N \<and> list_all (\<lambda>i. i < N) (port_indices s) \<and>
      unat (total_ports s) \<le> N \<and> callbacks s \<and>
      bMgmtSem s \<noteq> None \<and> bStateSem s \<noteq> None \<and> flush_all_condition s \<noteq> None \<and>
      flush_condition s \<noteq> None \<and> messages_ok N (messageQueue s) (messageSem s) \<and>
      list_all client_port (ports s))"

text \<open>The semaphores that do not count the elements of a queue.\<close>

fun port_sem :: "omx_sem \<Rightarrow> bool" where
  "port_sem (SBuffer i) = False"
| "port_sem SMessage = False"
| "port_sem n = True"

text \<open>
  The other threads keep the component as it should be; when \<open>l\<close> is set, they also serve
  whoever waits for anything but a buffer or a command.
\<close>

definition env_wf :: "bool \<Rightarrow> omx_domain_ports list \<Rightarrow> nat \<Rightarrow> 'p omx_ext \<Rightarrow> bool" where
  "env_wf l D N x =
     (\<forall>n s. comp_wf D N s \<longrightarrow>
        comp_wf D N (xWait x n s) \<and>
        (l \<and> port_sem n \<longrightarrow> (\<forall>t. get_sem n (xWait x n s) = Some t \<longrightarrow> semval t \<noteq> 0)))"

lemma wf_port: "comp_wf D N s \<Longrightarrow> i < N \<Longrightarrow> client_port (ports s ! i)"
  by (simp add: comp_wf_def list_all_length)

lemma wf_get_port [simp]: "comp_wf D N s \<Longrightarrow> i < N \<Longrightarrow> get_port i s = Some (ports s ! i)"
  by (simp add: comp_wf_def)

lemma wf_length: "comp_wf D N s \<Longrightarrow> length (ports s) = N" by (simp add: comp_wf_def)

lemma wf_upd_port:
  "comp_wf D N s \<Longrightarrow> (i < N \<Longrightarrow> client_port (ports s ! i) \<Longrightarrow> client_port (f (ports s ! i))) \<Longrightarrow>
    comp_wf D N (upd_port i f s)"
  by (cases "i < N")
    (auto simp: comp_wf_def upd_port_def port_indices_def total_ports_def list_all_length nth_list_update)

lemma wf_fields:
  assumes "comp_wf D N s"
  shows "comp_wf D N (s\<lparr>heap := h\<rparr>)" "comp_wf D N (s\<lparr>state := a\<rparr>)" "comp_wf D N (s\<lparr>transientState := b\<rparr>)"
    "comp_wf D N (emit e s)" "comp_wf D N (s\<lparr>bIsEOSReached := c\<rparr>)" "comp_wf D N (s\<lparr>bufferMgmtThreadID := d\<rparr>)"
    "comp_wf D N (s\<lparr>pMark := m\<rparr>)" "comp_wf D N (s\<lparr>peer := q\<rparr>)"
  using assms by (auto simp: comp_wf_def port_indices_def total_ports_def emit_def)

fun sem_in :: "nat \<Rightarrow> omx_sem \<Rightarrow> bool" where
  "sem_in N (SAlloc i) = (i < N)"
| "sem_in N (SBuffer i) = (i < N)"
| "sem_in N n = True"

lemma client_port_alloc [simp]: "client_port p \<Longrightarrow> client_port (p\<lparr>pAllocSem := Some t\<rparr>)"
  by (simp add: client_port_def PORT_IS_TUNNELED_def PORT_IS_BUFFER_SUPPLIER_def split: option.splits)

lemma wf_put_sem: "comp_wf D N s \<Longrightarrow> port_sem n \<Longrightarrow> comp_wf D N (put_sem n t s)"
proof (cases n)
  case (SAlloc i)
  then show "comp_wf D N s \<Longrightarrow> port_sem n \<Longrightarrow> comp_wf D N (put_sem n t s)"
    by (simp add: wf_upd_port)
qed (auto simp: comp_wf_def port_indices_def total_ports_def)

lemma client_port_queue:
  assumes "client_port p"
  obtains q t where "pBufferQueue p = Some q" "pBufferSem p = Some t" "length q \<le> 9"
    "semval t = of_nat (length q)"
  using assms by (auto simp: client_port_def split: option.splits)

lemma wf_get_sem:
  assumes wf: "comp_wf D N s" and n: "sem_in N n" shows "get_sem n s \<noteq> None"
proof (cases n)
  case (SAlloc i)
  then show ?thesis using wf_port [OF wf, of i] n wf by (simp add: client_port_def)
next
  case (SBuffer i)
  then show ?thesis using client_port_queue [OF wf_port [OF wf, of i]] n wf by fastforce
qed (use wf in \<open>auto simp: comp_wf_def messages_ok_def split: option.splits\<close>)

lemma safe_up: "comp_wf D N s \<Longrightarrow> port_sem n \<Longrightarrow> sem_in N n \<Longrightarrow> safe l (\<lambda>_. comp_wf D N) (up n s)"
  and safe_reset: "comp_wf D N s \<Longrightarrow> port_sem n \<Longrightarrow> sem_in N n \<Longrightarrow> safe l (\<lambda>_. comp_wf D N) (reset n s)"
  and safe_signal: "comp_wf D N s \<Longrightarrow> port_sem n \<Longrightarrow> sem_in N n \<Longrightarrow> safe l (\<lambda>_. comp_wf D N) (signal_sem n s)"
  using wf_get_sem [of D N s n] by (auto simp: up_def reset_def signal_sem_def wf_put_sem)

lemma safe_down:
  assumes "env_wf l D N x" "comp_wf D N s" "port_sem n" "sem_in N n"
  shows "safe l (\<lambda>_. comp_wf D N) (down x n s)"
proof -
  obtain t where t: "get_sem n s = Some t" using wf_get_sem [OF assms(2,4)] by auto
  let ?s = "if semval t = 0 then xWait x n s else s"
  have w: "comp_wf D N ?s" using assms(1,2) by (simp add: env_wf_def)
  obtain t' where t': "get_sem n ?s = Some t'" using wf_get_sem [OF w assms(4)] by auto
  have "l \<Longrightarrow> semval t' \<noteq> 0"
    using t' t assms(1-3) by (auto simp: env_wf_def split: if_splits)
  then show ?thesis
    using t t' w assms(3) by (auto simp: down_def tsem_down_def Let_def wf_put_sem)
qed

lemma safe_event: "comp_wf D N s \<Longrightarrow> safe l (\<lambda>_. comp_wf D N) (event_handler e s)"
  using wf_fields(4) [of D N s e] by (auto simp: event_handler_def comp_wf_def)

lemma safe_for_each:
  "comp_wf D N s \<Longrightarrow> list_all (\<lambda>i. i < N) is \<Longrightarrow>
    (\<And>i s. comp_wf D N s \<Longrightarrow> i < N \<Longrightarrow> safe l (\<lambda>_. comp_wf D N) (f i s)) \<Longrightarrow>
    safe l (\<lambda>_. comp_wf D N) (for_each f is s)"
  by (induction "is" arbitrary: s) (auto intro!: safe_bind [where Q = "\<lambda>_. comp_wf D N"])

lemma safe_for_until:
  "comp_wf D N s \<Longrightarrow> list_all (\<lambda>i. i < N) is \<Longrightarrow>
    (\<And>i s. comp_wf D N s \<Longrightarrow> i < N \<Longrightarrow> safe l (\<lambda>_. comp_wf D N) (f i s)) \<Longrightarrow>
    safe l (\<lambda>_. comp_wf D N) (for_until f is s)"
  by (induction "is" arbitrary: s) (auto intro!: safe_bind [where Q = "\<lambda>_. comp_wf D N"])

lemma safe_for_last:
  "comp_wf D N s \<Longrightarrow> list_all (\<lambda>i. i < N) is \<Longrightarrow>
    (\<And>i s. comp_wf D N s \<Longrightarrow> i < N \<Longrightarrow> safe l (\<lambda>_. comp_wf D N) (f i s)) \<Longrightarrow>
    safe l (\<lambda>_. comp_wf D N) (for_last f is e s)"
  by (induction "is" arbitrary: s e) (auto intro!: safe_bind [where Q = "\<lambda>_. comp_wf D N"])

lemma wf_indices: "comp_wf D N s \<Longrightarrow> list_all (\<lambda>i. i < N) (port_indices s)" by (simp add: comp_wf_def)


lemma client_port_fields:
  assumes "client_port p"
  shows "client_port (p\<lparr>bIsPortFlushed := a\<rparr>)" "client_port (p\<lparr>bIsTransientToDisabled := a\<rparr>)"
    "client_port (p\<lparr>bIsTransientToEnabled := a\<rparr>)"
    "client_port (upd_param (\<lambda>d. d\<lparr>bEnabled := a\<rparr>) p)" "client_port (upd_param (\<lambda>d. d\<lparr>bPopulated := a\<rparr>) p)"
    "client_port (p\<lparr>pInternalBufferStorage := b, bBufferStateAllocated := None\<rparr>)"
  using assms by (simp_all add: client_port_def PORT_IS_TUNNELED_def PORT_IS_BUFFER_SUPPLIER_def
      upd_param_def split: option.splits)

lemma client_portD:
  assumes "client_port p"
  shows "\<not> PORT_IS_TUNNELED p" "\<not> PORT_IS_BUFFER_SUPPLIER p"
  using assms by (simp_all add: client_port_def)

text \<open>One buffer of the queue of a client's port is handed back.\<close>

definition hand_back :: "nat \<Rightarrow> 'p omx_comp \<Rightarrow> 'p omx_comp" where
  "hand_back i s =
     (let p = ports s ! i; q = the (pBufferQueue p) in
      emit (BufferDone (the (BufferProcessedCallback p)) (hd q))
        (upd_port i (\<lambda>p. p\<lparr>pBufferSem := Some \<lparr>semval = of_nat (length (tl q))\<rparr>, pBufferQueue := Some (tl q)\<rparr>) s))"

lemma flush_one_client:
  assumes "i < length (ports s)" "client_port (ports s ! i)" "pBufferQueue (ports s ! i) = Some (a # q)"
  shows "flush_one x i s = Done OMX_ErrorNone (hand_back i s)"
proof -
  obtain c where c: "BufferProcessedCallback (ports s ! i) = Some c"
    using assms(2) by (auto simp: client_port_def)
  have t: "pBufferSem (ports s ! i) = Some \<lparr>semval = of_nat (length (a # q))\<rparr>" and len: "length (a # q) \<le> 9"
    using assms(2,3) by (auto simp: client_port_def split: option.splits)
  have nz: "(of_nat (length (a # q)) :: u32) \<noteq> 0"
  proof
    assume "(of_nat (length (a # q)) :: u32) = 0"
    then have "unat (of_nat (length (a # q)) :: u32) = 0" by simp
    then show False using len by (simp add: unat_of_nat_fits del: of_nat_Suc)
  qed
  show ?thesis
    using assms c t nz client_portD [OF assms(2)]
    by (simp add: flush_one_def down_def tsem_down_def dequeue_buffer_def buffer_done_def hand_back_def
        upd_port_def PORT_IS_TUNNELED_def PORT_IS_BUFFER_SUPPLIER_def)
qed


lemma wf_hand_back:
  assumes "comp_wf D N s" "i < N" "pBufferQueue (ports s ! i) = Some (a # q)"
  shows "comp_wf D N (hand_back i s)" "pBufferQueue (ports (hand_back i s) ! i) = Some q"
  using assms wf_length [OF assms(1)]
  by (auto simp: hand_back_def Let_def upd_port_def [symmetric] intro!: wf_fields(4) wf_upd_port)
    (auto simp: client_port_def PORT_IS_TUNNELED_def PORT_IS_BUFFER_SUPPLIER_def emit_def upd_port_def
      split: option.splits)

lemma flush_loop_client:
  "comp_wf D N s \<Longrightarrow> i < N \<Longrightarrow> pBufferQueue (ports s ! i) = Some q \<Longrightarrow>
    flush_loop x i (length q) s = Done OMX_ErrorNone ((hand_back i ^^ length q) s) \<and>
    comp_wf D N ((hand_back i ^^ length q) s) \<and> pBufferQueue (ports ((hand_back i ^^ length q) s) ! i) = Some []"
proof (induction q arbitrary: s)
  case (Cons a q)
  have "flush_one x i s = Done OMX_ErrorNone (hand_back i s)"
    using flush_one_client [OF _ wf_port [OF Cons.prems(1,2)] Cons.prems(3)] wf_length [OF Cons.prems(1)] Cons.prems(2)
    by simp
  then show ?case using Cons.IH [OF wf_hand_back(1) [OF Cons.prems] Cons.prems(2) wf_hand_back(2) [OF Cons.prems]]
    by (simp add: funpow_Suc_right del: funpow.simps)
qed simp

lemmas safe_rules = safe_bind [where Q = "\<lambda>_. comp_wf D N" for D N] safe_fail safe_if

lemma wf_sems:
  assumes "comp_wf D N s"
  shows "\<exists>y. bMgmtSem s = Some y" "\<exists>y. bStateSem s = Some y" "\<exists>y. flush_all_condition s = Some y"
    "\<exists>y. flush_condition s = Some y" "callbacks s"
  using assms by (simp_all add: comp_wf_def)

lemma safe_flush_request:
  assumes "env_wf l D N x" "comp_wf D N s" "i < N"
  shows "safe l (\<lambda>_. comp_wf D N) (flush_request x i s)"
proof -
  have w: "comp_wf D N (upd_port i (\<lambda>p. p\<lparr>bIsPortFlushed := True\<rparr>) s)"
    using assms(2) by (auto intro: wf_upd_port client_port_fields)
  show ?thesis using assms w wf_sems(1) [OF w] unfolding flush_request_def Let_def
    by (auto intro!: safe_rules safe_up safe_signal safe_down)
qed

lemma safe_flush_queue:
  assumes wf: "comp_wf D N s" and i: "i < N"
    and k: "\<And>s. comp_wf D N s \<Longrightarrow> pBufferQueue (ports s ! i) = Some [] \<Longrightarrow> safe l Q (k OMX_ErrorNone s)"
  shows "safe l Q (ofail (get_sem (SBuffer i) s) (\<lambda>t. obind (flush_loop x i (unat (semval t)) s) k))"
proof -
  obtain q t where q: "pBufferQueue (ports s ! i) = Some q" "pBufferSem (ports s ! i) = Some t"
    "length q \<le> 9" "semval t = of_nat (length q)"
    using client_port_queue [OF wf_port [OF wf i]] .
  have "unat (semval t) = length q" using q(3,4) by (simp add: unat_of_nat_fits)
  then show ?thesis using flush_loop_client [OF wf i q(1)] q(2) wf i k by simp
qed

text \<open>On a port of a client flushing, disabling and enabling always succeed.\<close>

definition flushed :: "omx_port \<Rightarrow> bool" where
  "flushed p = (pBufferQueue p = Some [] \<and> \<not> bIsPortFlushed p)"

lemma safe_flush_end:
  assumes "comp_wf D N s" "pBufferQueue (ports s ! i) = Some []" "i < N"
  shows "safe l (\<lambda>_ t. comp_wf D N t \<and> flushed (ports t ! i))
    (up SFlush (upd_port i (\<lambda>p. p\<lparr>bIsPortFlushed := False\<rparr>) s))"
proof -
  let ?s = "upd_port i (\<lambda>p. p\<lparr>bIsPortFlushed := False\<rparr>) s"
  have w: "comp_wf D N ?s" using assms(1) by (auto intro: wf_upd_port client_port_fields)
  have "flushed (ports ?s ! i)" using assms by (simp add: flushed_def upd_port_def wf_length)
  then show ?thesis using wf_sems(4) [OF w] wf_put_sem [OF w, of SFlush] by (auto simp: up_def)
qed

lemma safe_flush:
  assumes "env_wf l D N x" "comp_wf D N s" "i < N"
  shows "safe l (\<lambda>e t. e = OMX_ErrorNone \<and> comp_wf D N t \<and> flushed (ports t ! i))
    (base_port_FlushProcessingBuffers x i s)"
proof -
  have *: "\<not> PORT_IS_TUNNELED (ports s ! i)" if "comp_wf D N s" for s :: "'a omx_comp"
    using client_portD wf_port [OF that assms(3)] by auto
  show ?thesis
    unfolding base_port_FlushProcessingBuffers_def
    by (rule safe_fail, use assms in simp, rule safe_bind [OF safe_flush_request [OF assms]],
        rule safe_bind [where Q = "\<lambda>_. comp_wf D N"], simp add: safe_reset,
        rule safe_flush_queue [OF _ assms(3)], assumption)
      (auto simp: * intro!: safe_bind [OF safe_flush_end] assms(3))
qed

lemma safe_flush_wf:
  assumes "env_wf l D N x" "comp_wf D N s" "i < N"
  shows "safe l (\<lambda>_. comp_wf D N) (base_port_FlushProcessingBuffers x i s)"
  by (rule safe_mono [OF safe_flush [OF assms]]) simp

lemma safe_disable:
  assumes "env_wf l D N x" "comp_wf D N s" "i < N"
  shows "safe l (\<lambda>e t. e = OMX_ErrorNone \<and> comp_wf D N t \<and> \<not> PORT_IS_ENABLED (ports t ! i))
    (base_port_DisablePort x i s)"
proof (cases "PORT_IS_ENABLED (ports s ! i)")
  case True
  let ?f = "\<lambda>p. (upd_param (\<lambda>d. d\<lparr>bEnabled := False\<rparr>) p)\<lparr>bIsTransientToDisabled := False\<rparr>"
  have *: "comp_wf D N (upd_port i ?f s)" "\<not> PORT_IS_ENABLED (ports (upd_port i ?f s) ! i)"
    if "comp_wf D N s" for s :: "'a omx_comp"
  proof -
    show "comp_wf D N (upd_port i ?f s)" using that by (auto intro!: wf_upd_port client_port_fields)
    show "\<not> PORT_IS_ENABLED (ports (upd_port i ?f s) ! i)"
      using assms(3) wf_length [OF that] by (simp add: PORT_IS_ENABLED_def upd_port_def upd_param_def)
  qed
  have "safe l (\<lambda>e t. e = OMX_ErrorNone \<and> comp_wf D N t)
      (if state s = OMX_StateLoaded then Done OMX_ErrorNone s
       else ofail (get_sem SMgmt s) (\<lambda>t.
                obind (if semval t = 0 then up SMgmt s else Done () s) (\<lambda>_ s.
                obind (down x (SAlloc i) s) (\<lambda>_ s.
                obind (reset SMgmt s) (\<lambda>_ s. Done OMX_ErrorNone s)))))"
    using assms wf_sems(1) [OF assms(2)] by (auto intro!: safe_rules safe_up safe_reset safe_down)
  then show ?thesis
    using assms client_portD [OF wf_port [OF assms(2,3)]] True * unfolding base_port_DisablePort_def
    by (auto intro!: safe_bind [where Q = "\<lambda>e t. e = OMX_ErrorNone \<and> comp_wf D N t"])
qed (use assms in \<open>simp add: base_port_DisablePort_def\<close>)

text \<open>Only the message thread enables and disables ports.\<close>

definition env_enabled :: "'p omx_ext \<Rightarrow> bool" where
  "env_enabled x =
     (\<forall>n s i. PORT_IS_ENABLED (ports (xWait x n s) ! i) = PORT_IS_ENABLED (ports s ! i))"

text \<open>In the fields a thread changes while it waits for \<open>pAllocSem\<close>, the port stays enabled.\<close>

lemma down_enabled:
  assumes "env_enabled x" "down x (SAlloc i) s = Done () t" "i < length (ports s)" "length (ports t) = length (ports s)"
  shows "PORT_IS_ENABLED (ports t ! i) = PORT_IS_ENABLED (ports s ! i)"
  using assms
  by (auto simp: down_def tsem_down_def Let_def outcome upd_port_def get_port_def env_enabled_def
      PORT_IS_ENABLED_def nth_list_update split: if_splits)

lemma safe_enable:
  assumes "env_wf l D N x" "comp_wf D N s" "i < N"
  shows "safe l (\<lambda>e t. e = OMX_ErrorNone \<and> comp_wf D N t \<and> (env_enabled x \<longrightarrow> PORT_IS_ENABLED (ports t ! i)))
    (base_port_EnablePort x i s)"
proof (cases "PORT_IS_ENABLED (ports s ! i)")
  case False
  let ?enable = "upd_port i (upd_param (\<lambda>d. d\<lparr>bEnabled := True\<rparr>))"
  have w: "comp_wf D N (upd_port i (upd_param (\<lambda>d. d\<lparr>bEnabled := True\<rparr>)) s)"
    "comp_wf D N (upd_port i (upd_param (\<lambda>d. d\<lparr>bPopulated := True\<rparr>)) s)"
    "comp_wf D N (upd_port i (\<lambda>p. p\<lparr>bIsTransientToEnabled := False\<rparr>) s)"
    if "comp_wf D N s" for s :: "'a omx_comp"
    using that by (auto intro!: wf_upd_port client_port_fields)
  have e: "PORT_IS_ENABLED (ports (upd_port i (upd_param (\<lambda>d. d\<lparr>bEnabled := True\<rparr>)) s) ! i)"
    "PORT_IS_ENABLED (ports (upd_port i (upd_param (\<lambda>d. d\<lparr>bPopulated := True\<rparr>)) s) ! i) = PORT_IS_ENABLED (ports s ! i)"
    "PORT_IS_ENABLED (ports (upd_port i (\<lambda>p. p\<lparr>bIsTransientToEnabled := False\<rparr>) s) ! i) = PORT_IS_ENABLED (ports s ! i)"
    if "comp_wf D N s" for s :: "'a omx_comp"
    using assms(3) wf_length [OF that] by (simp_all add: PORT_IS_ENABLED_def upd_port_def upd_param_def)
  note * = w e
  let ?Q = "\<lambda>t. comp_wf D N t \<and> (env_enabled x \<longrightarrow> PORT_IS_ENABLED (ports t ! i))"
  have "safe l (\<lambda>_. ?Q) (down x (SAlloc i) (?enable s))"
  proof (cases "down x (SAlloc i) (?enable s)")
    case (Done a t)
    have "comp_wf D N t"
      using safe_down [OF assms(1) *(1) [OF assms(2)], of "SAlloc i"] assms(3) Done by simp
    then show ?thesis
      using Done down_enabled [of x i "?enable s" t] *(4) [OF assms(2)] assms(3)
        wf_length [of D N t] wf_length [OF *(1) [OF assms(2)]] by simp
  qed (use safe_down [OF assms(1) *(1) [OF assms(2)], of "SAlloc i"] assms(3) in simp_all)
  then have "safe l (\<lambda>e t. e = OMX_ErrorNone \<and> ?Q t)
      (if state (?enable s) \<noteq> OMX_StateLoaded \<and> state (?enable s) \<noteq> OMX_StateWaitForResources
       then obind (down x (SAlloc i) (?enable s)) (\<lambda>_ s. Done OMX_ErrorNone (upd_port i (upd_param (\<lambda>d. d\<lparr>bPopulated := True\<rparr>)) s))
       else Done OMX_ErrorNone (?enable s))"
    using *(1,4) [OF assms(2)] *(2,5) by (auto intro!: safe_bind [where Q = "\<lambda>_. ?Q"])
  then show ?thesis
    using assms client_portD [OF wf_port [OF assms(2,3)]] False *(3,6)
    unfolding base_port_EnablePort_def Let_def
    by (auto intro!: safe_bind [where Q = "\<lambda>e t. e = OMX_ErrorNone \<and> ?Q t"])
qed (use assms in \<open>simp add: base_port_EnablePort_def\<close>)

lemma safe_unload_port:
  assumes "env_wf l D N x" "comp_wf D N s" "i < N"
  shows "safe l (\<lambda>_. comp_wf D N) (unload_port x i s)"
proof -
  have *: "comp_wf D N (upd_port i (\<lambda>p. (upd_param (\<lambda>d. d\<lparr>bPopulated := False\<rparr>) p)
      \<lparr>pInternalBufferStorage := None, bBufferStateAllocated := None\<rparr>) s)"
    if "comp_wf D N s" for s :: "'a omx_comp"
    using that by (auto intro!: wf_upd_port client_port_fields)
  show ?thesis
    using assms client_portD [OF wf_port [OF assms(2,3)]] unfolding unload_port_def
    by (auto intro!: safe_rules safe_down *)
qed

lemma safe_load_port:
  assumes "env_wf l D N x" "comp_wf D N s" "i < N"
  shows "safe l (\<lambda>_. comp_wf D N) (load_port x i s)"
proof -
  have *: "comp_wf D N (upd_port i (upd_param (\<lambda>d. d\<lparr>bPopulated := True\<rparr>)) s)"
    if "comp_wf D N s" for s :: "'a omx_comp"
    using that by (auto intro!: wf_upd_port client_port_fields)
  show ?thesis
    using assms client_portD [OF wf_port [OF assms(2,3)]] unfolding load_port_def Let_def
    by (auto intro!: safe_rules safe_down *)
qed

lemma safe_load_ports:
  "env_wf l D N x \<Longrightarrow> comp_wf D N s \<Longrightarrow> list_all (\<lambda>i. i < N) is \<Longrightarrow>
    safe l (\<lambda>_. comp_wf D N) (load_ports x is b s)"
  by (induction "is" arbitrary: s b) (auto intro!: safe_rules safe_load_port split: prod.split)

lemma safe_flush_enabled:
  assumes "env_wf l D N x" "comp_wf D N s" "i < N"
  shows "safe l (\<lambda>_. comp_wf D N) (flush_enabled x i s)"
  using assms unfolding flush_enabled_def by (auto intro!: safe_rules safe_flush_wf)

lemma no_announcing:
  assumes "comp_wf D N s" "i < N"
  shows "start_port i s = Done () s" "resume_port i s = Done () s" "restart_port i s = Done () s"
    "announce_supplier i s = Done () s"
  using assms client_portD [OF wf_port [OF assms]]
  by (simp_all add: start_port_def resume_port_def restart_port_def announce_supplier_def)


lemma safe_end_thread: "comp_wf D N s \<Longrightarrow> safe l (\<lambda>_. comp_wf D N) (end_buffer_thread s)"
  unfolding end_buffer_thread_def by (auto intro!: safe_rules safe_up wf_fields)

lemma safe_for_ports:
  assumes "comp_wf D N s" "\<And>i s. comp_wf D N s \<Longrightarrow> i < N \<Longrightarrow> safe l (\<lambda>_. comp_wf D N) (f i s)"
  shows "safe l (\<lambda>_. comp_wf D N) (for_each f (port_indices s) s)"
  by (rule safe_for_each [OF assms(1) wf_indices [OF assms(1)]]) (rule assms(2))

lemma indices_fields [simp]:
  "port_indices (s\<lparr>state := a\<rparr>) = port_indices s" "port_indices (s\<lparr>bIsEOSReached := b\<rparr>) = port_indices s"
  by (simp_all add: port_indices_def)

lemma safe_set_loaded:
  assumes "env_wf l D N x" "comp_wf D N s" shows "safe l (\<lambda>_. comp_wf D N) (set_loaded x s)"
  using assms unfolding set_loaded_def
  by (cases "state s") (auto intro!: safe_rules safe_for_until safe_unload_port safe_end_thread wf_fields wf_indices)

lemma safe_set_wait:
  assumes "comp_wf D N s" shows "safe l (\<lambda>_. comp_wf D N) (set_wait_for_resources x s)"
  using assms unfolding set_wait_for_resources_def by (cases "state s") (auto simp: Let_def intro!: wf_fields)

lemma safe_set_idle:
  assumes "env_wf l D N x" "comp_wf D N s" shows "safe l (\<lambda>_. comp_wf D N) (set_idle x s)"
  using assms unfolding set_idle_def
  by (cases "state s") (auto simp: Let_def intro!: safe_rules safe_for_ports safe_load_ports
      safe_flush_enabled safe_signal wf_fields wf_indices split: prod.split)

lemma safe_set_pause:
  assumes "comp_wf D N s" shows "safe l (\<lambda>_. comp_wf D N) (set_pause s)"
  using assms wf_fields(2) [OF wf_fields(5) [OF assms]] unfolding set_pause_def
  by (cases "state s") (auto intro!: wf_fields)

lemma safe_set_executing:
  assumes "comp_wf D N s" shows "safe l (\<lambda>_. comp_wf D N) (set_executing s)"
proof -
  have w: "comp_wf D N (s\<lparr>state := OMX_StateExecuting, bIsEOSReached := False\<rparr>)"
    "comp_wf D N (s\<lparr>state := OMX_StateExecuting\<rparr>)"
    using assms by (auto intro: wf_fields)
  have f: "safe l (\<lambda>_. comp_wf D N) (for_each start_port (port_indices s) t)"
    "safe l (\<lambda>_. comp_wf D N) (for_each resume_port (port_indices s) t)" if "comp_wf D N t" for t :: "'a omx_comp"
    using that by (auto intro!: safe_for_each wf_indices [OF assms] simp: no_announcing)
  show ?thesis using assms f [OF w(1)] f [OF w(2)] unfolding set_executing_def
    by (cases "state s") (auto intro!: safe_rules safe_signal wf_fields(3))
qed

lemma safe_set_invalid:
  assumes "comp_wf D N s" shows "safe l (\<lambda>_. comp_wf D N) (set_invalid s)"
  using assms unfolding set_invalid_def
  by (cases "state s") (auto simp: Let_def intro!: safe_rules safe_signal safe_end_thread wf_fields)

lemma safe_state_set:
  assumes "env_wf l D N x" "comp_wf D N s"
  shows "safe l (\<lambda>_. comp_wf D N) (omx_base_component_DoStateSet x d s)"
  unfolding omx_base_component_DoStateSet_def using assms
  by (auto intro!: safe_if safe_set_loaded safe_set_wait safe_set_idle safe_set_pause safe_set_executing safe_set_invalid)

section \<open>The handlers of the commands\<close>

text \<open>
  What it means that a command has been carried out. A command concerns a port or all ports; an
  operation goes through them \<open>port_by_port\<close> when it succeeds at each of them and leaves the port as
  \<open>P\<close> says; after it there is one completion event for each of them, in their order.
\<close>

definition targets :: "u32 \<Rightarrow> 'p omx_comp \<Rightarrow> nat list" where
  "targets n s = (if n = OMX_ALL then port_indices s else [unat n])"

definition completions :: "omx_message \<Rightarrow> 'p omx_comp \<Rightarrow> omx_event list" where
  "completions m s = map (\<lambda>i. EventCmdComplete (messageType m)
     (if messageParam m = OMX_ALL then of_nat i else messageParam m)) (targets (messageParam m) s)"

definition append_events :: "omx_event list \<Rightarrow> 'p omx_comp \<Rightarrow> 'p omx_comp" where
  "append_events es s = s\<lparr>events := events s @ es\<rparr>"

fun port_by_port ::
    "(nat \<Rightarrow> 'p omx_comp \<Rightarrow> (omx_err, 'p omx_comp) outcome) \<Rightarrow> (omx_port \<Rightarrow> bool) \<Rightarrow> nat list \<Rightarrow>
      'p omx_comp \<Rightarrow> 'p omx_comp \<Rightarrow> bool" where
  "port_by_port f P [] s t = (t = s)"
| "port_by_port f P (i # is) s t =
     (\<exists>u. f i s = Done OMX_ErrorNone u \<and> P (ports u ! i) \<and> port_by_port f P is u t)"

definition mark_flushed :: "u32 \<Rightarrow> 'p omx_comp \<Rightarrow> 'p omx_comp" where
  "mark_flushed n s =
     (if n = OMX_ALL then fold (\<lambda>i. upd_port i (\<lambda>p. p\<lparr>bIsPortFlushed := True\<rparr>)) (port_indices s) s else s)"

definition carried_out :: "'p omx_ext \<Rightarrow> omx_message \<Rightarrow> 'p omx_comp \<Rightarrow> 'p omx_comp \<Rightarrow> bool" where
  "carried_out x m s t =
     (let n = messageParam m; is = targets n s; flush = base_port_FlushProcessingBuffers x in
      case messageType m of
        OMX_CommandStateSet \<Rightarrow>
          (\<exists>err u. omx_base_component_DoStateSet x n s = Done err u \<and>
            t = emit (if err = OMX_ErrorNone then EventCmdComplete OMX_CommandStateSet n else EventError err 0) u)
      | OMX_CommandFlush \<Rightarrow>
          (\<exists>u. port_by_port flush flushed is (mark_flushed n s) u \<and> t = append_events (completions m s) u)
      | OMX_CommandPortDisable \<Rightarrow>
          (\<exists>u v. (if state s = OMX_StateLoaded then u = s else port_by_port flush flushed is s u) \<and>
            port_by_port (base_port_DisablePort x) (\<lambda>p. \<not> PORT_IS_ENABLED p) is u v \<and>
            t = append_events (completions m s) v)
      | OMX_CommandPortEnable \<Rightarrow>
          (\<exists>u. port_by_port (base_port_EnablePort x) PORT_IS_ENABLED is s u \<and>
            t = append_events (completions m s) u)
      | OMX_CommandMarkBuffer \<Rightarrow> pCmdData m = Some (pMark t) \<and> t = s\<lparr>pMark := pMark t\<rparr>
      | OMX_CommandMax \<Rightarrow> t = s)"

lemma all_ports_set_wf:
  assumes "comp_wf D N s" "\<And>p. client_port p \<Longrightarrow> client_port (f p)"
  shows "safe l (\<lambda>_. comp_wf D N) (all_ports_set f s)"
  unfolding all_ports_set_def
  by (rule safe_for_ports [OF assms(1)]) (use assms(2) in \<open>auto intro: wf_upd_port\<close>)

lemma all_ports_set_fold:
  assumes "comp_wf D N s"
  shows "all_ports_set f s = Done () (fold (\<lambda>i. upd_port i f) (port_indices s) s)"
proof -
  have "for_each (\<lambda>i s. ofail (get_port i s) (\<lambda>_. Done () (upd_port i f s))) is t =
      Done () (fold (\<lambda>i. upd_port i f) is t)" if "list_all (\<lambda>i. i < N) is" "length (ports t) = N" for "is" and t :: "'a omx_comp"
    using that by (induction "is" arbitrary: t) (auto simp: get_port_def upd_port_def)
  then show ?thesis using assms by (simp add: all_ports_set_def comp_wf_def)
qed

lemma event_done: "comp_wf D N s \<Longrightarrow> event_handler e s = Done () (emit e s)"
  using wf_sems(5) [of D N s] by (simp add: event_handler_def)

lemma wf_same_indices: "comp_wf D N s \<Longrightarrow> comp_wf D N t \<Longrightarrow> port_indices t = port_indices s"
  unfolding comp_wf_def by (auto simp: port_indices_def)

lemma append_nothing [simp]: "append_events [] s = s"
  and emit_append: "emit e s = append_events [e] s"
  by (simp_all add: append_events_def emit_def)

lemma wf_append: "comp_wf D N s \<Longrightarrow> comp_wf D N (append_events es s)"
  by (auto simp: append_events_def comp_wf_def port_indices_def total_ports_def)

lemma append_append [simp]: "append_events es (append_events fs s) = append_events (fs @ es) s"
  by (simp add: append_events_def)

text \<open>The events of a command for several ports; none of them starts to exchange buffers.\<close>

lemma emit_all:
  "comp_wf D N s \<Longrightarrow> list_all (\<lambda>i. i < N) is \<Longrightarrow>
    for_each (\<lambda>i. event_handler (e i)) is s = Done () (append_events (map e is) s) \<and>
    for_each (\<lambda>i s. obind (event_handler (e i) s) (\<lambda>_ s. restart_port i s)) is s =
      Done () (append_events (map e is) s) \<and>
    for_each announce_supplier is s = Done () s"
proof (induction "is" arbitrary: s)
  case (Cons i "is")
  have w: "comp_wf D N (append_events [e i] s)" by (rule wf_append [OF Cons.prems(1)])
  have i: "i < N" "list_all (\<lambda>i. i < N) is" using Cons.prems(2) by simp_all
  show ?case
    using Cons.IH [OF w i(2)] Cons.IH [OF Cons.prems(1) i(2)] no_announcing(3) [OF w i(1)]
      no_announcing(4) [OF Cons.prems(1) i(1)] by (simp add: event_done [OF Cons.prems(1)] emit_append)
qed simp

lemma safe_port_by_port:
  assumes "\<And>i s. comp_wf D N s \<Longrightarrow> i < N \<Longrightarrow> safe l (\<lambda>e t. e = OMX_ErrorNone \<and> comp_wf D N t \<and> P (ports t ! i)) (f i s)"
  shows "comp_wf D N s \<Longrightarrow> list_all (\<lambda>i. i < N) is \<Longrightarrow>
    safe l (\<lambda>e t. e = OMX_ErrorNone \<and> comp_wf D N t \<and> port_by_port f P is s t) (for_last f is OMX_ErrorNone s)"
proof (induction "is" arbitrary: s)
  case (Cons i "is")
  have "safe l (\<lambda>e t. e = OMX_ErrorNone \<and> comp_wf D N t \<and> P (ports t ! i)) (f i s)"
    using assms Cons.prems by simp
  then show ?case using Cons.IH Cons.prems(2)
    by (cases "f i s") (auto intro: safe_mono)
qed simp

lemma for_last_one: "for_last f [i] e s = f i s"
  by (cases "f i s") auto

lemma for_each_one: "for_each f [i] s = f i s"
  by (cases "f i s") auto

lemma targets_wf: "comp_wf D N s \<Longrightarrow> n = OMX_ALL \<or> unat n < N \<Longrightarrow> list_all (\<lambda>i. i < N) (targets n s)"
  by (auto simp: targets_def wf_indices)

lemma wf_mark_flushed: "comp_wf D N s \<Longrightarrow> comp_wf D N (mark_flushed n s)"
  using all_ports_set_wf [of D N s "\<lambda>p. p\<lparr>bIsPortFlushed := True\<rparr>" True]
  by (auto simp: mark_flushed_def safe_live all_ports_set_fold client_port_fields)

lemma safe_flush_targets:
  assumes "env_wf l D N x" "comp_wf D N s" "list_all (\<lambda>i. i < N) is"
  shows "safe l (\<lambda>e t. e = OMX_ErrorNone \<and> comp_wf D N t \<and>
      port_by_port (base_port_FlushProcessingBuffers x) flushed is s t)
    (for_last (base_port_FlushProcessingBuffers x) is OMX_ErrorNone s)"
  by (rule safe_port_by_port [OF _ assms(2,3)]) (rule safe_mono [OF safe_flush [OF assms(1)]], auto)

lemma safe_handle_state_set:
  assumes "env_wf l D N x" "comp_wf D N s" "messageType m = OMX_CommandStateSet"
  shows "safe l (\<lambda>_ t. comp_wf D N t \<and> carried_out x m s t) (handle_state_set x (messageParam m) s)"
proof (cases "omx_base_component_DoStateSet x (messageParam m) s")
  case (Done err u)
  then have wf: "comp_wf D N u" using safe_state_set [OF assms(1,2), of "messageParam m"] by simp
  then show ?thesis using Done assms(3) wf_sems(5) [OF wf] wf_append [OF wf]
    by (auto simp: handle_state_set_def report_def event_done [OF wf] emit_append carried_out_def Let_def)
qed (use safe_state_set [OF assms(1,2), of "messageParam m"] in \<open>simp_all add: handle_state_set_def\<close>)

lemma safe_handle_flush:
  assumes "env_wf l D N x" "comp_wf D N s" "messageType m = OMX_CommandFlush" "msg_ok N m"
  shows "safe l (\<lambda>_ t. comp_wf D N t \<and> carried_out x m s t) (handle_flush x (messageParam m) s)"
proof -
  let ?n = "messageParam m" and ?s = "mark_flushed (messageParam m) s"
  have n: "?n = OMX_ALL \<or> unat ?n < N" using assms(3,4) by (simp add: msg_ok_def)
  have w: "comp_wf D N ?s" by (rule wf_mark_flushed [OF assms(2)])
  have "(if ?n = OMX_ALL
            then obind (all_ports_set (\<lambda>p. p\<lparr>bIsPortFlushed := True\<rparr>) s) (\<lambda>_ s.
                   for_last (base_port_FlushProcessingBuffers x) (port_indices s) OMX_ErrorNone s)
            else base_port_FlushProcessingBuffers x (unat ?n) s) =
      for_last (base_port_FlushProcessingBuffers x) (targets ?n s) OMX_ErrorNone ?s" (is "?code = _")
    using all_ports_set_fold [OF assms(2)] wf_same_indices [OF assms(2) w]
    by (auto simp: targets_def mark_flushed_def for_last_one simp del: for_last.simps)
  then have "safe l (\<lambda>e t. e = OMX_ErrorNone \<and> comp_wf D N t \<and>
      port_by_port (base_port_FlushProcessingBuffers x) flushed (targets ?n s) ?s t) ?code"
    using safe_flush_targets [OF assms(1) w targets_wf [OF assms(2) n]] by simp
  moreover have "safe l (\<lambda>_ t. comp_wf D N t \<and> carried_out x m s t) (report e
         (\<lambda>s. if ?n = OMX_ALL
              then for_each (\<lambda>i s.
                     obind (event_handler (EventCmdComplete OMX_CommandFlush (of_nat i)) s) (\<lambda>_ s.
                     restart_port i s)) (port_indices s) s
              else obind (event_handler (EventCmdComplete OMX_CommandFlush ?n) s) (\<lambda>_ s.
                   restart_port (unat ?n) s)) t)" (is "safe l _ (report e ?completed t)")
    if t: "e = OMX_ErrorNone \<and> comp_wf D N t \<and>
      port_by_port (base_port_FlushProcessingBuffers x) flushed (targets ?n s) ?s t" for e t
  proof -
    have wt: "comp_wf D N t" using t by simp
    have "?completed t = Done () (append_events (completions m s) t)"
      using emit_all [OF wt targets_wf [OF assms(2) n], of "\<lambda>i. EventCmdComplete OMX_CommandFlush
          (if ?n = OMX_ALL then of_nat i else ?n)"] wf_same_indices [OF assms(2) wt] assms(3)
      by (auto simp: targets_def completions_def for_each_one simp del: for_each.simps)
    then show ?thesis using t wf_append [OF wt] assms(3) by (auto simp: report_def carried_out_def Let_def)
  qed
  ultimately show ?thesis unfolding handle_flush_def by (rule safe_bind)
qed

lemma safe_handle_disable:
  assumes "env_wf l D N x" "comp_wf D N s" "messageType m = OMX_CommandPortDisable" "msg_ok N m"
  shows "safe l (\<lambda>_ t. comp_wf D N t \<and> carried_out x m s t) (handle_port_disable x (messageParam m) s)"
proof -
  let ?n = "messageParam m" and ?f = "base_port_FlushProcessingBuffers x"
  let ?flush = "if state s \<noteq> OMX_StateLoaded then for_last ?f (targets ?n s) OMX_ErrorNone s else Done OMX_ErrorNone s"
  let ?Q = "\<lambda>e u. e = OMX_ErrorNone \<and> comp_wf D N u \<and>
    (if state s = OMX_StateLoaded then u = s else port_by_port ?f flushed (targets ?n s) s u)"
  let ?R = "\<lambda>e v. e = OMX_ErrorNone \<and> comp_wf D N v \<and> (\<exists>u. ?Q e u \<and>
    port_by_port (base_port_DisablePort x) (\<lambda>p. \<not> PORT_IS_ENABLED p) (targets ?n s) u v)"
  have n: "?n = OMX_ALL \<or> unat ?n < N" using assms(3,4) by (simp add: msg_ok_def)
  note ts = targets_wf [OF assms(2) n]
  have flush: "safe l ?Q ?flush"
    using safe_flush_targets [OF assms(1,2) ts] assms(2) by (auto intro: safe_mono)
  have step: "safe l ?R (for_last (base_port_DisablePort x) (targets ?n s) OMX_ErrorNone u)" if "?Q OMX_ErrorNone u" for u
    using that by (intro safe_mono [OF safe_port_by_port [OF safe_disable [OF assms(1)] _ ts]]) auto
  have whole: "safe l ?R (obind ?flush (\<lambda>e u. for_last (base_port_DisablePort x) (targets ?n s) OMX_ErrorNone u))"
    using step by (intro safe_bind [OF flush]) blast
  have "safe l ?R (if ?n = OMX_ALL
            then obind (if state s \<noteq> OMX_StateLoaded
                        then for_last ?f (port_indices s) OMX_ErrorNone s
                        else Done OMX_ErrorNone s) (\<lambda>err s.
                 for_last (base_port_DisablePort x) (port_indices s) err s)
            else obind (if state s \<noteq> OMX_StateLoaded then ?f (unat ?n) s else Done OMX_ErrorNone s) (\<lambda>_ s.
                 base_port_DisablePort x (unat ?n) s))" (is "safe l ?R ?code")
  proof (cases "?n = OMX_ALL")
    case True
    have "safe l ?R (obind ?flush (\<lambda>err u. for_last (base_port_DisablePort x) (port_indices u) err u))"
    proof (rule safe_bind [OF flush])
      fix e u assume q: "?Q e u"
      then have e: "e = OMX_ErrorNone" "port_indices u = targets ?n s"
        using True wf_same_indices [OF assms(2), of u] by (simp_all add: targets_def)
      show "safe l ?R (for_last (base_port_DisablePort x) (port_indices u) e u)" unfolding e by (rule step) (use q in simp)
    qed
    moreover have "?code = obind ?flush (\<lambda>err u. for_last (base_port_DisablePort x) (port_indices u) err u)"
      using True by (simp add: targets_def)
    ultimately show ?thesis by (simp only:)
  next
    case False
    then have "?code = obind ?flush (\<lambda>e u. for_last (base_port_DisablePort x) (targets ?n s) OMX_ErrorNone u)"
      by (simp add: targets_def for_last_one del: for_last.simps)
    then show ?thesis using whole by (simp only:)
  qed
  moreover have "safe l (\<lambda>_ t. comp_wf D N t \<and> carried_out x m s t) (report e
         (\<lambda>s. if ?n = OMX_ALL
              then for_each (\<lambda>i. event_handler (EventCmdComplete OMX_CommandPortDisable (of_nat i))) (port_indices s) s
              else event_handler (EventCmdComplete OMX_CommandPortDisable ?n) s) t)" (is "safe l _ (report e ?completed t)")
    if t: "?R e t" for e t
  proof -
    have wt: "comp_wf D N t" using t by simp
    have "?completed t = Done () (append_events (completions m s) t)"
      using emit_all [OF wt ts, of "\<lambda>i. EventCmdComplete OMX_CommandPortDisable
          (if ?n = OMX_ALL then of_nat i else ?n)"] wf_same_indices [OF assms(2) wt] assms(3)
      by (auto simp: targets_def completions_def for_each_one simp del: for_each.simps)
    then show ?thesis using t wf_append [OF wt] assms(3) by (auto simp: report_def carried_out_def Let_def)
  qed
  ultimately show ?thesis unfolding handle_port_disable_def by (rule safe_bind)
qed

lemma safe_handle_enable:
  assumes "env_wf l D N x" "comp_wf D N s" "messageType m = OMX_CommandPortEnable" "msg_ok N m"
  shows "safe l (\<lambda>_ t. comp_wf D N t \<and> (env_enabled x \<longrightarrow> carried_out x m s t)) (handle_port_enable x (messageParam m) s)"
proof -
  let ?n = "messageParam m" and ?P = "\<lambda>p. env_enabled x \<longrightarrow> PORT_IS_ENABLED p"
  have n: "?n = OMX_ALL \<or> unat ?n < N" using assms(3,4) by (simp add: msg_ok_def)
  note ts = targets_wf [OF assms(2) n]
  let ?R = "\<lambda>e t. e = OMX_ErrorNone \<and> comp_wf D N t \<and> port_by_port (base_port_EnablePort x) ?P (targets ?n s) s t"
  have "safe l ?R (if ?n = OMX_ALL
            then for_last (base_port_EnablePort x) (port_indices s) OMX_ErrorNone s
            else base_port_EnablePort x (unat ?n) s)" (is "safe l ?R ?code")
    using safe_port_by_port [where f = "base_port_EnablePort x" and P = ?P, OF safe_enable [OF assms(1)] assms(2) ts]
    by (simp add: targets_def for_last_one split: if_splits del: for_last.simps)
  moreover have "safe l (\<lambda>_ t. comp_wf D N t \<and> (env_enabled x \<longrightarrow> carried_out x m s t)) (report e
         (\<lambda>s. if ?n \<noteq> OMX_ALL
              then obind (event_handler (EventCmdComplete OMX_CommandPortEnable ?n) s) (\<lambda>_ s.
                   if state s = OMX_StateExecuting then announce_supplier (unat ?n) s else Done () s)
              else obind (for_each (\<lambda>i. event_handler (EventCmdComplete OMX_CommandPortEnable (of_nat i)))
                            (port_indices s) s) (\<lambda>_ s.
                   if state s = OMX_StateExecuting then for_each announce_supplier (port_indices s) s
                   else Done () s)) t)" (is "safe l _ (report e ?completed t)")
    if t: "?R e t" for e t
  proof -
    have wt: "comp_wf D N t" using t by simp
    let ?t = "append_events (completions m s) t"
    have w: "comp_wf D N ?t" by (rule wf_append [OF wt])
    have "?completed t = Done () ?t"
      using emit_all [OF wt ts, of "\<lambda>i. EventCmdComplete OMX_CommandPortEnable
          (if ?n = OMX_ALL then of_nat i else ?n)"] emit_all [OF w ts] wf_same_indices [OF assms(2) wt]
        wf_same_indices [OF assms(2) w] assms(3)
      by (auto simp: targets_def completions_def for_each_one simp del: for_each.simps)
    then show ?thesis using t w assms(3) by (auto simp: report_def carried_out_def Let_def)
  qed
  ultimately show ?thesis unfolding handle_port_enable_def by (rule safe_bind)
qed

lemma safe_handler:
  assumes "env_wf l D N x" "comp_wf D N s" "msg_ok N m"
  shows "safe l (\<lambda>e t. e = OMX_ErrorNone \<and> comp_wf D N t \<and> (env_enabled x \<longrightarrow> carried_out x m s t))
    (omx_base_component_MessageHandler x m s)"
  unfolding omx_base_component_MessageHandler_def
proof (rule safe_bind [where Q = "\<lambda>_ t. comp_wf D N t \<and> (env_enabled x \<longrightarrow> carried_out x m s t)"])
  show "safe l (\<lambda>_ t. comp_wf D N t \<and> (env_enabled x \<longrightarrow> carried_out x m s t)) (case messageType m of
              OMX_CommandStateSet \<Rightarrow> handle_state_set x (messageParam m) s
            | OMX_CommandFlush \<Rightarrow> handle_flush x (messageParam m) s
            | OMX_CommandPortDisable \<Rightarrow> handle_port_disable x (messageParam m) s
            | OMX_CommandPortEnable \<Rightarrow> handle_port_enable x (messageParam m) s
            | OMX_CommandMarkBuffer \<Rightarrow>
                ofail (pCmdData m) (\<lambda>m. Done () (s\<lparr>pMark := m\<rparr>))
            | OMX_CommandMax \<Rightarrow> Done () s)"
    using safe_mono [OF safe_handle_state_set [OF assms(1,2), of m]] safe_mono [OF safe_handle_flush [OF assms(1,2) _ assms(3)]]
      safe_mono [OF safe_handle_disable [OF assms(1,2) _ assms(3)]] safe_handle_enable [OF assms(1,2) _ assms(3)] assms(2,3)
    by (cases "messageType m") (auto simp: msg_ok_def carried_out_def Let_def wf_fields(7))
qed simp

text \<open>
  A message at the head of the queue is taken and carried out. The messages other threads append
  while the thread sleeps come behind it, but the head may be a new one when the queue was empty.
\<close>

lemma of_nat_small:
  assumes "n \<le> 9" shows "(of_nat n :: u32) = 0 \<longleftrightarrow> n = 0"
proof
  assume z: "(of_nat n :: u32) = 0"
  have "unat (of_nat n :: u32) = n" using assms by (intro unat_of_nat_fits) simp
  then show "n = 0" unfolding z by simp
qed simp

lemma wf_take_message:
  assumes "comp_wf D N s" "messageQueue s = Some (m # q)"
  shows "comp_wf D N (s\<lparr>messageSem := Some \<lparr>semval = of_nat (length q)\<rparr>, messageQueue := Some q\<rparr>)" "msg_ok N m"
  using assms by (auto simp: comp_wf_def port_indices_def total_ports_def messages_ok_def split: option.splits)

lemma wf_messages:
  assumes "comp_wf D N s" "messageQueue s = Some ms"
  obtains t where "messageSem s = Some t" "semval t = of_nat (length ms)" "semval t = 0 \<longleftrightarrow> ms = []"
  using assms of_nat_small [of "length ms"] by (auto simp: comp_wf_def messages_ok_def split: option.splits)

lemma wf_queue: "comp_wf D N s \<Longrightarrow> \<exists>ms. messageQueue s = Some ms"
  by (auto simp: comp_wf_def messages_ok_def split: option.splits)

definition taken :: "omx_message list \<Rightarrow> 'p omx_comp \<Rightarrow> 'p omx_comp" where
  "taken q s = s\<lparr>messageSem := Some \<lparr>semval = of_nat (length q)\<rparr>, messageQueue := Some q\<rparr>"

lemma turn_message:
  assumes "comp_wf D N s" "messageQueue s = Some (m # q)" "state s \<noteq> OMX_StateInvalid"
  shows "message_turn x s = obind (omx_base_component_MessageHandler x m (taken q s)) (\<lambda>_ s. Done True s)"
proof -
  obtain t where t: "messageSem s = Some t" "semval t = of_nat (length (m # q))" "semval t = 0 \<longleftrightarrow> m # q = []"
    using wf_messages [OF assms(1,2)] .
  then show ?thesis using assms(2,3) by (cases t) (simp add: message_turn_def down_def tsem_down_def taken_def)
qed

lemma turn_invalid:
  assumes "comp_wf D N s" "messageQueue s = Some (m # q)" "state s = OMX_StateInvalid"
  shows "\<exists>s'. message_turn x s = Done False s' \<and> state s' = OMX_StateInvalid"
proof -
  obtain t where t: "messageSem s = Some t" "semval t = of_nat (length (m # q))" "semval t = 0 \<longleftrightarrow> m # q = []"
    using wf_messages [OF assms(1,2)] .
  then show ?thesis using assms(3) by (simp add: message_turn_def down_def tsem_down_def)
qed

lemma turn_wait:
  assumes "comp_wf D N s" "messageQueue s = Some []" "comp_wf D N (xWait x SMessage s)"
  shows "message_turn x s =
    (if messageQueue (xWait x SMessage s) = Some [] then Blocked (xWait x SMessage s)
     else message_turn x (xWait x SMessage s))"
proof -
  let ?s = "xWait x SMessage s"
  obtain t where t: "messageSem s = Some t" "semval t = 0" using wf_messages [OF assms(1,2)] by metis
  obtain ms where ms: "messageQueue ?s = Some ms" using wf_queue [OF assms(3)] by auto
  obtain t' where t': "messageSem ?s = Some t'" "semval t' = 0 \<longleftrightarrow> ms = []"
    using wf_messages [OF assms(3) ms] by metis
  have "down x SMessage s = (if ms = [] then Blocked ?s else down x SMessage ?s)"
    using t t' by (simp add: down_def tsem_down_def Let_def)
  then show ?thesis using ms by (simp add: message_turn_def)
qed

lemma safe_turn_message:
  assumes "env_wf l D N x" "comp_wf D N s" "messageQueue s = Some (m # q)" "state s \<noteq> OMX_StateInvalid"
  shows "safe l (\<lambda>go t. go \<and> comp_wf D N t \<and> (env_enabled x \<longrightarrow> carried_out x m (taken q s) t)) (message_turn x s)"
proof -
  have "comp_wf D N (taken q s)" "msg_ok N m" using wf_take_message [OF assms(2,3)] by (simp_all add: taken_def)
  then show ?thesis unfolding turn_message [OF assms(2-4)]
    by (auto intro!: safe_bind [OF safe_handler [OF assms(1)]])
qed

text \<open>The thread has gone on with its component as it should be, or has ended because it is invalid.\<close>

definition thread_ok :: "omx_domain_ports list \<Rightarrow> nat \<Rightarrow> bool \<Rightarrow> 'p omx_comp \<Rightarrow> bool" where
  "thread_ok D N go s = (if go then comp_wf D N s else state s = OMX_StateInvalid)"

lemma thread_ok_simps [simp]:
  "thread_ok D N True s = comp_wf D N s" "thread_ok D N False s = (state s = OMX_StateInvalid)"
  by (simp_all add: thread_ok_def)

lemma safe_turn:
  assumes "env_wf False D N x" "comp_wf D N s"
  shows "safe False (thread_ok D N) (message_turn x s)"
proof -
  have *: "safe False (thread_ok D N) (message_turn x s)"
    if "comp_wf D N s" "messageQueue s = Some (m # q)" for s m q
    using turn_invalid [OF that, of x] safe_mono [OF safe_turn_message [OF assms(1) that]] by fastforce
  obtain ms where ms: "messageQueue s = Some ms" using wf_queue [OF assms(2)] by auto
  have w: "comp_wf D N (xWait x SMessage s)" using assms by (simp add: env_wf_def)
  obtain ms' where ms': "messageQueue (xWait x SMessage s) = Some ms'" using wf_queue [OF w] by auto
  show ?thesis
  proof (cases ms)
    case Nil
    then show ?thesis using turn_wait [OF assms(2) _ w] * [OF w] ms ms' by (cases ms') auto
  qed (use * [OF assms(2)] ms in auto)
qed

section \<open>Commands and buffers of the client\<close>

definition command_ok :: "omx_command \<Rightarrow> (nat \<times> nat) option \<Rightarrow> 'p omx_comp \<Rightarrow> bool" where
  "command_ok Cmd data s =
     (hbudget (heap s) > 2 * length (port_indices s) \<and> (Cmd = OMX_CommandMarkBuffer \<longrightarrow> data \<noteq> None))"

lemma calloc_array_wf:
  assumes "comp_wf D N s" "hbudget (heap s) > 0"
  obtains st where "calloc_array s n = (Some (replicate (unat n) 0), st)" "comp_wf D N st"
    "hbudget (heap st) = hbudget (heap s) - 1" "ports st = ports s" "port_indices st = port_indices s"
  using assms wf_fields(1) [OF assms(1)] by (auto simp: calloc_array_def port_indices_def)

lemma prepare_port_wf:
  assumes "comp_wf D N s" "i < N" "hbudget (heap s) \<ge> 2"
  shows "\<exists>t. prepare_port i s = Done () t \<and> comp_wf D N t \<and> hbudget (heap t) \<ge> hbudget (heap s) - 2
    \<and> port_indices t = port_indices s"
proof -
  let ?p = "ports s ! i" and ?n = "nBufferCountActual (sPortParam (ports s ! i))"
  have c: "client_port ?p" by (rule wf_port [OF assms(1,2)])
  obtain st s1 where 1: "(if pInternalBufferStorage ?p = None then calloc_array s ?n else (pInternalBufferStorage ?p, s)) = (st, s1)"
    "comp_wf D N s1" "hbudget (heap s1) \<ge> hbudget (heap s) - 1" "ports s1 = ports s" "port_indices s1 = port_indices s"
  proof (cases "pInternalBufferStorage ?p = None")
    case True
    have "hbudget (heap s) > 0" using assms(3) by linarith
    then show ?thesis using True that calloc_array_wf [OF assms(1), of ?n] by (metis order_refl)
  qed (use that assms(1) in auto)
  obtain fs s2 where 2: "(if bBufferStateAllocated ?p = None then calloc_array s1 ?n else (bBufferStateAllocated ?p, s1)) = (Some fs, s2)"
    "comp_wf D N s2" "hbudget (heap s2) \<ge> hbudget (heap s1) - 1" "ports s2 = ports s1" "port_indices s2 = port_indices s1"
    "unat ?n \<le> length fs"
  proof (cases "bBufferStateAllocated ?p")
    case None
    have "hbudget (heap s1) > 0" using 1(3) assms(3) by linarith
    then obtain s2 where "calloc_array s1 ?n = (Some (replicate (unat ?n) (0 :: u32)), s2)" "comp_wf D N s2"
      "hbudget (heap s2) = hbudget (heap s1) - 1" "ports s2 = ports s1" "port_indices s2 = port_indices s1"
      using calloc_array_wf [OF 1(2), of ?n] by metis
    then show ?thesis using None that [of "replicate (unat ?n) 0" s2] by simp
  next
    case (Some fs)
    then show ?thesis using that [of fs s1] 1(2) c by (simp add: client_port_def)
  qed
  let ?f = "\<lambda>p. p\<lparr>pInternalBufferStorage := st,
     bBufferStateAllocated := Some (replicate (unat ?n) BUFFER_FREE @ drop (unat ?n) fs)\<rparr>"
  have "prepare_port i s = Done () (upd_port i ?f s2)"
    using assms(1,2) 1 2 by (simp add: prepare_port_def Let_def)
  moreover have "comp_wf D N (upd_port i ?f s2)"
    using 1(4) 2(2,4,6) c by (intro wf_upd_port)
      (auto simp: client_port_def PORT_IS_TUNNELED_def PORT_IS_BUFFER_SUPPLIER_def split: option.splits)
  ultimately show ?thesis using 1(3,5) 2(3,5) by (auto simp: upd_port_def port_indices_def)
qed


lemma prepare_ports_wf:
  "comp_wf D N s \<Longrightarrow> list_all (\<lambda>i. i < N) is \<Longrightarrow> hbudget (heap s) \<ge> 2 * length is \<Longrightarrow>
    \<exists>t. for_each prepare_port is s = Done () t \<and> comp_wf D N t"
proof (induction "is" arbitrary: s)
  case (Cons i "is")
  then obtain t where t: "prepare_port i s = Done () t" "comp_wf D N t" "hbudget (heap t) \<ge> hbudget (heap s) - 2"
    using prepare_port_wf [OF Cons.prems(1), of i] by auto
  then have "hbudget (heap t) \<ge> 2 * length is" using Cons.prems(3) by simp
  then show ?case using Cons.IH [OF t(2)] Cons.prems(2) t(1) by simp
qed simp

lemma bad_port_false: "\<not> (n \<ge> total_ports s \<and> n \<noteq> OMX_ALL) \<Longrightarrow> comp_wf D N s \<Longrightarrow> n = OMX_ALL \<or> unat n < N"
proof -
  assume a: "\<not> (n \<ge> total_ports s \<and> n \<noteq> OMX_ALL)" "comp_wf D N s"
  have "unat (total_ports s) \<le> N" using a(2) by (simp add: comp_wf_def)
  moreover have "unat n < unat (total_ports s)" if "n \<noteq> OMX_ALL"
    using a(1) that by (intro unat_mono) (simp add: not_le)
  ultimately show ?thesis by (cases "n = OMX_ALL") auto
qed

lemma mark_ports_wf:
  assumes "comp_wf D N s" "n = OMX_ALL \<or> unat n < N" "\<And>p. client_port p \<Longrightarrow> client_port (f p)"
  shows "safe True (\<lambda>_. comp_wf D N) (if n = OMX_ALL then all_ports_set f s
     else ofail (get_port (unat n) s) (\<lambda>_. Done () (upd_port (unat n) f s)))"
  using assms by (auto intro!: all_ports_set_wf wf_upd_port)

lemma command_prepare_wf:
  assumes "comp_wf D N s" "hbudget (heap s) \<ge> 2 * length (port_indices s)"
    "Cmd = OMX_CommandMarkBuffer \<longrightarrow> data \<noteq> None"
  shows "safe True (\<lambda>e t. comp_wf D N t \<and>
      (e = OMX_ErrorNone \<longrightarrow> msg_ok N \<lparr>messageType = Cmd, messageParam = n, pCmdData = data\<rparr>))
    (command_prepare Cmd n s)"
proof -
  obtain t where t: "for_each prepare_port (port_indices s) s = Done () t" "comp_wf D N t"
    using prepare_ports_wf [OF assms(1) wf_indices [OF assms(1)] assms(2)] by auto
  have b: "n = OMX_ALL \<or> unat n < N" if "\<not> (n \<ge> total_ports s \<and> n \<noteq> OMX_ALL)"
    using bad_port_false [OF that assms(1)] .
  show ?thesis
  proof (cases Cmd)
    case OMX_CommandStateSet
    then show ?thesis using assms(1) t by (auto simp: command_prepare_def Let_def msg_ok_def wf_fields)
  next
    case OMX_CommandPortDisable
    then show ?thesis using b assms(1) safe_bind [OF mark_ports_wf [OF assms(1) b, of "\<lambda>p. p\<lparr>bIsTransientToDisabled := True\<rparr>"],
          of "\<lambda>e t. comp_wf D N t \<and> msg_ok N \<lparr>messageType = Cmd, messageParam = n, pCmdData = data\<rparr>"
            "\<lambda>_ s. Done OMX_ErrorNone s"]
      by (auto simp: command_prepare_def Let_def msg_ok_def client_port_fields safe_live)
  next
    case OMX_CommandPortEnable
    then show ?thesis using b assms(1) safe_bind [OF mark_ports_wf [OF assms(1) b, of "\<lambda>p. p\<lparr>bIsTransientToEnabled := True\<rparr>"],
          of "\<lambda>e t. comp_wf D N t \<and> msg_ok N \<lparr>messageType = Cmd, messageParam = n, pCmdData = data\<rparr>"
            "\<lambda>_ s. Done OMX_ErrorNone s"]
      by (auto simp: command_prepare_def Let_def msg_ok_def client_port_fields safe_live)
  qed (use assms(1,3) b in \<open>auto simp: command_prepare_def msg_ok_def Let_def\<close>)
qed

lemma wf_queue_message:
  assumes "comp_wf D N s" "messageQueue s = Some q" "length q < QCAP" "msg_ok N m" "messageSem s = Some t"
  shows "comp_wf D N (s\<lparr>messageQueue := Some (q @ [m]), messageSem := Some (tsem_up t)\<rparr>)"
  using assms by (auto simp: comp_wf_def messages_ok_def port_indices_def total_ports_def tsem_up_def)

lemma send_command_wf:
  assumes "comp_wf D N s" "command_ok Cmd data s"
  shows "safe True (\<lambda>_. comp_wf D N) (omx_base_component_SendCommand Cmd n data s)"
proof (cases "state s = OMX_StateInvalid")
  case False
  let ?s = "s\<lparr>heap := (heap s)\<lparr>hbudget := hbudget (heap s) - 1\<rparr>\<rparr>"
  let ?m = "\<lparr>messageType = Cmd, messageParam = n, pCmdData = data\<rparr>"
  have w: "comp_wf D N ?s" "hbudget (heap ?s) \<ge> 2 * length (port_indices ?s)" "hbudget (heap s) \<noteq> 0"
    "Cmd = OMX_CommandMarkBuffer \<longrightarrow> data \<noteq> None"
    using assms wf_fields(1) [OF assms(1)] by (auto simp: command_ok_def port_indices_def)
  have "safe True (\<lambda>_. comp_wf D N) (obind (command_prepare Cmd n ?s) (\<lambda>err s.
        if err \<noteq> OMX_ErrorNone then Done err s
        else ofail (messageQueue s) (\<lambda>q.
          case fifo_step QCAP (Enqueue ?m) q of
            (Queued True, q) \<Rightarrow>
              obind (up SMessage (s\<lparr>messageQueue := Some q\<rparr>)) (\<lambda>_ s. Done OMX_ErrorNone s)
          | _ \<Rightarrow> Done OMX_ErrorInsufficientResources s)))"
  proof (rule safe_bind [OF command_prepare_wf [OF w(1,2,4), of n]], elim conjE)
    fix e and t :: "'a omx_comp"
    assume t: "comp_wf D N t" "e = OMX_ErrorNone \<longrightarrow> msg_ok N ?m"
    obtain q where q: "messageQueue t = Some q" using wf_queue [OF t(1)] by auto
    obtain v where v: "messageSem t = Some v" using wf_messages [OF t(1) q] by metis
    show "safe True (\<lambda>_. comp_wf D N) (if e \<noteq> OMX_ErrorNone then Done e t
        else ofail (messageQueue t) (\<lambda>q.
          case fifo_step QCAP (Enqueue ?m) q of
            (Queued True, q) \<Rightarrow>
              obind (up SMessage (t\<lparr>messageQueue := Some q\<rparr>)) (\<lambda>_ s. Done OMX_ErrorNone s)
          | _ \<Rightarrow> Done OMX_ErrorInsufficientResources t))"
      using t q v wf_queue_message [OF t(1) q, of ?m v] by (auto simp: up_def)
  qed
  then show ?thesis using False w(3) by (simp add: omx_base_component_SendCommand_def Let_def)
qed (use assms(1) in \<open>simp add: omx_base_component_SendCommand_def\<close>)


text \<open>A buffer that is accepted goes to the end of the queue and is counted.\<close>

definition queued :: "nat \<Rightarrow> nat \<Rightarrow> 'p omx_comp \<Rightarrow> 'p omx_comp" where
  "queued i a s =
     upd_port i (\<lambda>p. let q = the (pBufferQueue p) in
       p\<lparr>pBufferQueue := Some (q @ [a]), pBufferSem := Some \<lparr>semval = of_nat (Suc (length q))\<rparr>\<rparr>) s"

lemma wf_queued:
  assumes "comp_wf D N s" "pBufferQueue (ports s ! i) = Some q" "length q < QCAP"
  shows "comp_wf D N (queued i a s)"
  unfolding queued_def using assms(2,3)
  by (intro wf_upd_port [OF assms(1)])
    (auto simp: client_port_def PORT_IS_TUNNELED_def PORT_IS_BUFFER_SUPPLIER_def split: option.splits)

text \<open>The answer of a client's port to a buffer.\<close>

definition send_answer :: "omx_port \<Rightarrow> omx_hdr \<Rightarrow> 'p omx_comp \<Rightarrow> omx_err" where
  "send_answer p b s =
     (if send_guard p b s \<noteq> OMX_ErrorNone then send_guard p b s
      else if bIsPortFlushed p then OMX_ErrorIncorrectStateOperation
      else if length (the (pBufferQueue p)) = QCAP then OMX_ErrorInsufficientResources
      else OMX_ErrorNone)"

lemma keep_queue: "pBufferQueue p = Some q \<Longrightarrow> p\<lparr>pBufferQueue := Some q\<rparr> = p"
  by (cases p) simp

lemma send_client:
  assumes wf: "comp_wf D N s" and i: "i < N" and b: "get_hdr a (heap s) = Some b" and a: "a \<noteq> 0"
    and m: "bMgmtSem s = Some m"
  shows "base_port_SendBufferFunction i a s =
    (if send_answer (ports s ! i) b s = OMX_ErrorNone
     then Done OMX_ErrorNone ((queued i a s)\<lparr>bMgmtSem := Some (tsem_up m)\<rparr>)
     else Done (send_answer (ports s ! i) b s) s)"
proof -
  note c = wf_port [OF wf i] and n = wf_length [OF wf]
  obtain q t where q: "pBufferQueue (ports s ! i) = Some q" "pBufferSem (ports s ! i) = Some t"
    "length q \<le> 9" "semval t = of_nat (length q)"
    using client_port_queue [OF c] .
  have g: "get_port i s = Some (ports s ! i)" using wf i by simp
  have t: "tsem_up t = \<lparr>semval = of_nat (Suc (length q))\<rparr>" using q(4) by (cases t) (simp add: tsem_up_def)
  note [simp] = g b base_port_SendBufferFunction_def send_answer_def PORT_IS_BEING_FLUSHED_def client_portD [OF c] q(1,2)
  consider "send_guard (ports s ! i) b s \<noteq> OMX_ErrorNone"
    | "send_guard (ports s ! i) b s = OMX_ErrorNone" "bIsPortFlushed (ports s ! i)"
    | "send_guard (ports s ! i) b s = OMX_ErrorNone" "\<not> bIsPortFlushed (ports s ! i)" "length q = 9"
    | "send_guard (ports s ! i) b s = OMX_ErrorNone" "\<not> bIsPortFlushed (ports s ! i)" "length q < 9"
    using q(3) by linarith
  then show ?thesis
  proof cases
    case 3
    have "upd_port i (\<lambda>p. p\<lparr>pBufferQueue := Some q\<rparr>) s = s" using i n by (simp add: upd_port_def keep_queue)
    then have "enqueue i a s = Done False s" using 3(3) a by (simp add: enqueue_def)
    then show ?thesis using 3 by simp
  next
    case 4
    let ?s = "upd_port i (\<lambda>p. p\<lparr>pBufferQueue := Some (q @ [a])\<rparr>) s"
    have "enqueue i a s = Done True ?s" using 4(3) a by (simp add: enqueue_def)
    moreover have "up (SBuffer i) ?s = Done () (queued i a s)"
      using i n t by (simp add: up_def upd_port_def queued_def)
    moreover have "up SMgmt (queued i a s) = Done () ((queued i a s)\<lparr>bMgmtSem := Some (tsem_up m)\<rparr>)"
      using m by (simp add: up_def queued_def upd_port_def)
    ultimately show ?thesis using 4 by simp
  qed simp_all
qed

text \<open>What the calls of a client need: memory, a header that exists.\<close>

datatype omx_call =
    Command omx_command u32 "(nat \<times> nat) option"
  | EmptyThis nat
  | FillThis nat
  | Turn

fun call_ok :: "omx_call \<Rightarrow> 'p omx_comp \<Rightarrow> bool" where
  "call_ok (Command Cmd n data) s = command_ok Cmd data s"
| "call_ok (EmptyThis a) s = (a \<noteq> 0 \<and> get_hdr a (heap s) \<noteq> None)"
| "call_ok (FillThis a) s = (a \<noteq> 0 \<and> get_hdr a (heap s) \<noteq> None)"
| "call_ok Turn s = True"

text \<open>\<open>True\<close> as long as the message thread goes on.\<close>

fun omx_call_step :: "'p omx_ext \<Rightarrow> omx_call \<Rightarrow> 'p omx_comp \<Rightarrow> (bool, 'p omx_comp) outcome" where
  "omx_call_step x (Command Cmd n data) s =
     obind (omx_base_component_SendCommand Cmd n data s) (\<lambda>_ s. Done True s)"
| "omx_call_step x (EmptyThis a) s = obind (omx_base_component_EmptyThisBuffer a s) (\<lambda>_ s. Done True s)"
| "omx_call_step x (FillThis a) s = obind (omx_base_component_FillThisBuffer a s) (\<lambda>_ s. Done True s)"
| "omx_call_step x Turn s = message_turn x s"

fun omx_calls :: "'p omx_ext \<Rightarrow> omx_call list \<Rightarrow> 'p omx_comp \<Rightarrow> (bool, 'p omx_comp) outcome" where
  "omx_calls x [] s = Done True s"
| "omx_calls x (c # cs) s = obind (omx_call_step x c s) (\<lambda>go s. if go then omx_calls x cs s else Done False s)"

fun calls_ok :: "'p omx_ext \<Rightarrow> omx_call list \<Rightarrow> 'p omx_comp \<Rightarrow> bool" where
  "calls_ok x [] s = True"
| "calls_ok x (c # cs) s =
     (call_ok c s \<and> (case omx_call_step x c s of Done True t \<Rightarrow> calls_ok x cs t | _ \<Rightarrow> True))"

lemma send_wf:
  assumes "comp_wf D N s" "i < N" "get_hdr a (heap s) \<noteq> None" "a \<noteq> 0"
  shows "safe l (\<lambda>_. comp_wf D N) (base_port_SendBufferFunction i a s)"
proof -
  obtain b where b: "get_hdr a (heap s) = Some b" using assms(3) by auto
  obtain m where m: "bMgmtSem s = Some m" using wf_sems(1) [OF assms(1)] by auto
  obtain q t where q: "pBufferQueue (ports s ! i) = Some q" "pBufferSem (ports s ! i) = Some t"
    "length q \<le> 9" "semval t = of_nat (length q)"
    using client_port_queue [OF wf_port [OF assms(1,2)]] .
  have "comp_wf D N ((queued i a s)\<lparr>bMgmtSem := Some (tsem_up m)\<rparr>)" if "length q \<noteq> 9"
    using wf_put_sem [OF wf_queued [OF assms(1) q(1)], of SMgmt "tsem_up m" a] that q(3) by simp
  then show ?thesis using send_client [OF assms(1,2) b assms(4) m] assms(1) q(1)
    by (auto simp: send_answer_def split: if_splits)
qed

lemma below_total: "comp_wf D N s \<Longrightarrow> \<not> i \<ge> total_ports s \<Longrightarrow> unat i < N"
  using unat_mono [of i "total_ports s"] by (auto simp: comp_wf_def not_le)

lemma below_total_port: "comp_wf D N s \<Longrightarrow> \<not> i \<ge> total_ports s \<Longrightarrow> \<exists>p. get_port (unat i) s = Some p"
  using below_total [of D N s i] by simp

lemma step_wf:
  assumes "env_wf False D N x" "comp_wf D N s" "call_ok c s"
  shows "safe False (thread_ok D N) (omx_call_step x c s)"
proof (cases c)
  case (Command Cmd n data)
  then obtain e t where "omx_base_component_SendCommand Cmd n data s = Done e t" "comp_wf D N t"
    using send_command_wf [OF assms(2), of Cmd data n] assms(3) by (auto simp: safe_live)
  then show ?thesis using Command by simp
next
  case (EmptyThis a)
  have "safe False (\<lambda>_. comp_wf D N) (omx_base_component_EmptyThisBuffer a s)"
    using assms(2,3) EmptyThis unfolding omx_base_component_EmptyThisBuffer_def
    by (auto intro!: safe_fail safe_if send_wf below_total intro: below_total_port)
  then show ?thesis using EmptyThis by (cases "omx_base_component_EmptyThisBuffer a s") auto
next
  case (FillThis a)
  have "safe False (\<lambda>_. comp_wf D N) (omx_base_component_FillThisBuffer a s)"
    using assms(2,3) FillThis unfolding omx_base_component_FillThisBuffer_def
    by (auto intro!: safe_fail safe_if send_wf below_total intro: below_total_port)
  then show ?thesis using FillThis by (cases "omx_base_component_FillThisBuffer a s") auto
qed (use safe_turn [OF assms(1,2)] in simp)

lemma calls_wf:
  assumes "env_wf False D N x"
  shows "comp_wf D N s \<Longrightarrow> calls_ok x cs s \<Longrightarrow>
    safe False (thread_ok D N) (omx_calls x cs s)"
proof (induction cs arbitrary: s)
  case (Cons c cs)
  have "safe False (thread_ok D N) (omx_call_step x c s)"
    using step_wf [OF assms Cons.prems(1)] Cons.prems(2) by simp
  then show ?case using Cons.IH Cons.prems(2)
    by (cases "omx_call_step x c s") (auto split: bool.splits)
qed simp


section \<open>What a client can rely on\<close>

lemma demo_client_port: "client_port demo_port"
  by (simp add: client_port_def demo_port_def demo_param_def PORT_IS_TUNNELED_def PORT_IS_BUFFER_SUPPLIER_def)

lemma demo_wf: "comp_wf (sPortTypesParam (demo_comp [demo_port] ())) 1 (demo_comp [demo_port] ())"
  by (simp add: comp_wf_def demo_client_port port_indices_def total_ports_def messages_ok_def demo_comp_def)

lemma demo_env_wf: "env_wf l D N demo_ext"
proof -
  have "comp_wf D N (demo_wait n s)" if "comp_wf D N s" for n and s :: "'a omx_comp"
    using that by (cases n) (auto simp: demo_wait_def simp del: put_sem.simps intro!: wf_put_sem)
  moreover have "semval t \<noteq> 0" if "port_sem n" "get_sem n (demo_wait n s) = Some t" for n t and s :: "'a omx_comp"
    using that by (cases n) (auto simp: demo_wait_def get_port_def upd_port_def split: if_splits)
  ultimately show ?thesis by (auto simp: env_wf_def demo_ext_def)
qed

text \<open>
  C5 -- In a component whose ports are not tunnelled, no sequence of commands, buffers and turns of
  the message thread ever dereferences an invalid pointer or leaves an array: the calls return, or
  the thread waits. Afterwards every queue, semaphore and array of the component is again as it
  should be (in particular each semaphore counts its queue, and every queued command names
  existing ports), or the component was made invalid and its thread has ended. The client must pass
  headers that exist, give \<open>MarkBuffer\<close> its data and leave memory for the message and the arrays.
\<close>

theorem client_calls_never_fault:
  assumes "env_wf False D N x" "comp_wf D N s" "calls_ok x cs s"
  shows "(\<exists>t. omx_calls x cs s = Done True t \<and> comp_wf D N t) \<or>
    (\<exists>t. omx_calls x cs s = Done False t \<and> state t = OMX_StateInvalid) \<or>
    (\<exists>t. omx_calls x cs s = Blocked t)"
  using calls_wf [OF assms] by (cases "omx_calls x cs s") (auto simp: thread_ok_def split: if_splits)

definition demo_calls :: "omx_call list" where
  "demo_calls = [Command OMX_CommandStateSet 2 None, Turn, Command OMX_CommandStateSet 3 None, Turn,
     Command OMX_CommandFlush OMX_ALL None, Turn, Command OMX_CommandPortDisable 0 None, Turn,
     Command OMX_CommandPortEnable 7 None]"

lemma client_calls_never_fault_witness:
  "\<exists>t. omx_calls demo_ext demo_calls (demo_comp [demo_port] ()) = Done True t \<and>
     comp_wf (sPortTypesParam (demo_comp [demo_port] ())) 1 t"
proof -
  let ?s = "demo_comp [demo_port] ()"
  have ok: "calls_ok demo_ext demo_calls ?s" by code_simp
  have "case omx_calls demo_ext demo_calls ?s of Done go _ \<Rightarrow> go | _ \<Rightarrow> False" by code_simp
  then obtain t where "omx_calls demo_ext demo_calls ?s = Done True t" by (auto dest: done_case)
  then show ?thesis using client_calls_never_fault [OF demo_env_wf demo_wf ok] by auto
qed

text \<open>
  C9 -- A command that has been accepted is carried out and answered. When the other threads serve
  whoever waits for buffers to be supplied, freed or let go of, and leave it to the message thread to
  enable and disable ports, the message thread takes the command at the head of the queue, finishes it
  and goes on. A state change ends as \<open>DoStateSet\<close> decides, with the completion event or the event of
  its error code. Flushing empties the queue of every port concerned, all ports for \<open>OMX_ALL\<close>, and ends
  the flushing; disabling flushes them first unless the component is loaded and leaves each disabled;
  enabling leaves each enabled. None of these fails, and after the last port there is exactly one
  completion event for each, in their order and with no other event between or behind them. A mark is
  stored.
\<close>

theorem accepted_command_is_answered:
  assumes "env_wf True D N x" "env_enabled x" "comp_wf D N s" "messageQueue s = Some (m # q)"
    "state s \<noteq> OMX_StateInvalid"
  shows "\<exists>t. message_turn x s = Done True t \<and> comp_wf D N t \<and> carried_out x m (taken q s) t"
  using safe_turn_message [OF assms(1,3-5)] assms(2) by (auto simp: safe_live)

definition demo_message :: omx_message where
  "demo_message = \<lparr>messageType = OMX_CommandFlush, messageParam = OMX_ALL, pCmdData = None\<rparr>"

lemma demo_env_enabled: "env_enabled demo_ext"
  unfolding env_enabled_def
proof (intro allI)
  fix n :: omx_sem and s :: "'a omx_comp" and i
  show "PORT_IS_ENABLED (ports (xWait demo_ext n s) ! i) = PORT_IS_ENABLED (ports s ! i)"
    by (cases n) (auto simp: demo_ext_def demo_wait_def upd_port_def PORT_IS_ENABLED_def nth_list_update_eq
        nth_list_update list_update_beyond split: if_splits)
qed

lemma accepted_command_is_answered_witness:
  "\<exists>t. message_turn demo_ext (demo_comp [demo_port] () \<lparr>messageQueue := Some [demo_message],
       messageSem := Some \<lparr>semval = 1\<rparr>\<rparr>) = Done True t \<and>
     last (events t) = EventCmdComplete OMX_CommandFlush 0"
proof -
  let ?s = "demo_comp [demo_port] () \<lparr>messageQueue := Some [demo_message], messageSem := Some \<lparr>semval = 1\<rparr>\<rparr>"
  have w: "comp_wf (sPortTypesParam ?s) 1 ?s"
    by (simp add: comp_wf_def demo_client_port port_indices_def total_ports_def messages_ok_def
        msg_ok_def demo_message_def demo_comp_def)
  have m: "messageQueue ?s = Some [demo_message]" "state ?s \<noteq> OMX_StateInvalid" by (simp_all add: demo_comp_def)
  have "port_indices (taken [] ?s) = [0]" by (simp add: port_indices_def taken_def demo_comp_def)
  then have c: "completions demo_message (taken [] ?s) = [EventCmdComplete OMX_CommandFlush 0]"
    by (simp add: completions_def targets_def demo_message_def)
  show ?thesis using accepted_command_is_answered [OF demo_env_wf demo_env_enabled w m] c
    by (fastforce simp: carried_out_def Let_def demo_message_def append_events_def)
qed


text \<open>
  \<open>SetParameter\<close> is not among these calls, because it can break the component: in the state Loaded
  it changes the number of buffers and leaves the arrays as they are. When the client has already
  asked for Idle (and its buffers are not there yet), asking again clears flags past the end of the
  array.
\<close>

lemma count_raised_overflows:
  "(case omx_base_component_SendCommand OMX_CommandStateSet 2 None
      (demo_comp [demo_port\<lparr>pInternalBufferStorage := None, bBufferStateAllocated := None\<rparr>] ()) of
      Done e1 s \<Rightarrow>
        (case omx_base_component_SetParameter demo_ext OMX_IndexParamPortDefinition
           (Some (ParamPortDefinition (demo_param\<lparr>nBufferCountActual := 3\<rparr>))) s of
           Done (e2, _) s \<Rightarrow> e1 = OMX_ErrorNone \<and> e2 = OMX_ErrorNone \<and>
             (case omx_base_component_SendCommand OMX_CommandStateSet 2 None s of Fault \<Rightarrow> True | _ \<Rightarrow> False)
         | _ \<Rightarrow> False)
    | _ \<Rightarrow> False)"
  by code_simp

text \<open>
  C37 -- Which buffers a client's port accepts, and what becomes of the others. A buffer is accepted
  exactly when it carries the index of the port and a header of the right size and version, the
  component is executing, paused or idle, the port is enabled and neither being disabled nor
  flushed, and the queue has room; it is then the last of the queue and announced to the buffer
  management thread. A buffer that is refused leaves the component as it was.
\<close>

theorem send_accepts:
  assumes "comp_wf D N s" "i < N" "get_hdr a (heap s) = Some b" "a \<noteq> 0" "pBufferQueue (ports s ! i) = Some q"
    "bMgmtSem s = Some m"
  shows "\<exists>e t. base_port_SendBufferFunction i a s = Done e t \<and>
    (e = OMX_ErrorNone \<longleftrightarrow>
       (if eDir (sPortParam (ports s ! i)) = OMX_DirInput then nInputPortIndex b else nOutputPortIndex b)
         = nPortIndex (sPortParam (ports s ! i)) \<and>
       checkHeader (Some (bhead b)) sizeof_BUFFERHEADERTYPE = OMX_ErrorNone \<and>
       state s \<in> {OMX_StateExecuting, OMX_StatePause, OMX_StateIdle} \<and>
       bEnabled (sPortParam (ports s ! i)) \<and> \<not> bIsTransientToDisabled (ports s ! i) \<and>
       \<not> bIsPortFlushed (ports s ! i) \<and> length q < 9) \<and>
    (e \<noteq> OMX_ErrorNone \<longrightarrow> t = s) \<and>
    (e = OMX_ErrorNone \<longrightarrow>
       pBufferQueue (ports t ! i) = Some (q @ [a]) \<and>
       semval (the (pBufferSem (ports t ! i))) = of_nat (length (q @ [a])) \<and>
       bMgmtSem t = Some (tsem_up m) \<and> events t = events s)"
proof -
  have len: "length q \<le> 9" using client_port_queue [OF wf_port [OF assms(1,2)]] assms(5) by auto
  have g: "send_guard (ports s ! i) b s = OMX_ErrorNone \<longleftrightarrow>
       (if eDir (sPortParam (ports s ! i)) = OMX_DirInput then nInputPortIndex b else nOutputPortIndex b)
         = nPortIndex (sPortParam (ports s ! i)) \<and>
       checkHeader (Some (bhead b)) sizeof_BUFFERHEADERTYPE = OMX_ErrorNone \<and>
       state s \<in> {OMX_StateExecuting, OMX_StatePause, OMX_StateIdle} \<and>
       bEnabled (sPortParam (ports s ! i)) \<and> \<not> bIsTransientToDisabled (ports s ! i)"
    using client_portD [OF wf_port [OF assms(1,2)]]
    by (cases "state s") (auto simp: send_guard_def PORT_IS_ENABLED_def PORT_IS_BEING_DISABLED_def)
  have q: "pBufferQueue (ports (queued i a s) ! i) = Some (q @ [a])"
    "semval (the (pBufferSem (ports (queued i a s) ! i))) = of_nat (length (q @ [a]))"
    "events (queued i a s) = events s"
    using assms(2,5) wf_length [OF assms(1)] by (simp_all add: queued_def upd_port_def)
  show ?thesis unfolding send_client [OF assms(1-4,6)] send_answer_def
    using g len q assms(5) by auto
qed

definition demo_header :: omx_hdr where
  "demo_header = \<lparr>bhead = setHeader sizeof_BUFFERHEADERTYPE, pBuffer = 0, nAllocLen = 64, pAppPrivate = 0,
     pPlatformPrivate = Some 0, nOutputPortIndex = 0, nInputPortIndex = 0\<rparr>"

definition demo_running :: "unit omx_comp" where
  "demo_running = demo_comp [demo_port] ()
     \<lparr>state := OMX_StateExecuting, heap := demo_heap\<lparr>hmem := [7 \<mapsto> Header demo_header, 8 \<mapsto> Header demo_header]\<rparr>\<rparr>"

lemma demo_running_wf: "comp_wf (sPortTypesParam demo_running) 1 demo_running"
  by (simp add: comp_wf_def demo_client_port port_indices_def total_ports_def messages_ok_def demo_comp_def
      demo_running_def)

lemma send_accepts_witness:
  "\<exists>t. base_port_SendBufferFunction 0 7 demo_running = Done OMX_ErrorNone t \<and>
     pBufferQueue (ports t ! 0) = Some [7]"
proof -
  have "get_hdr 7 (heap demo_running) = Some demo_header" "pBufferQueue (ports demo_running ! 0) = Some []"
    "bMgmtSem demo_running = Some \<lparr>semval = 0\<rparr>"
    by (simp_all add: demo_running_def demo_comp_def demo_port_def get_hdr_def)
  from send_accepts [OF demo_running_wf _ this(1) _ this(2,3)]
  show ?thesis
    by (auto simp: demo_running_def demo_comp_def demo_port_def demo_param_def demo_header_def)
qed

section \<open>A flush gives the buffers back\<close>

definition env_quiet :: "'p omx_ext \<Rightarrow> bool" where
  "env_quiet x = (\<forall>n s. port_sem n \<longrightarrow> events (xWait x n s) = events s \<and>
     (\<forall>i. pBufferQueue (ports (xWait x n s) ! i) = pBufferQueue (ports s ! i) \<and>
          BufferProcessedCallback (ports (xWait x n s) ! i) = BufferProcessedCallback (ports s ! i)))"

text \<open>The queue and the callback of a port and the events are the same.\<close>

definition same_buffers :: "nat \<Rightarrow> 'p omx_comp \<Rightarrow> 'p omx_comp \<Rightarrow> bool" where
  "same_buffers i s t =
     (events t = events s \<and> pBufferQueue (ports t ! i) = pBufferQueue (ports s ! i) \<and>
      BufferProcessedCallback (ports t ! i) = BufferProcessedCallback (ports s ! i))"

lemma nth_update: "xs[j := v] ! i = (if i = j \<and> j < length xs then v else xs ! i)"
  by (cases "j < length xs") (auto simp: nth_list_update list_update_beyond)

lemma same_put_sem: "port_sem n \<Longrightarrow> same_buffers i s t \<Longrightarrow> same_buffers i s (put_sem n v t)"
  by (cases n) (auto simp: same_buffers_def upd_port_def nth_update)

lemma same_flushed: "same_buffers i s t \<Longrightarrow> same_buffers i s (upd_port j (\<lambda>p. p\<lparr>bIsPortFlushed := f\<rparr>) t)"
  by (auto simp: same_buffers_def upd_port_def nth_update)

lemma same_ops:
  assumes "same_buffers i s t" "port_sem n"
  shows "up n t = Done () u \<Longrightarrow> same_buffers i s u" "reset n t = Done () u \<Longrightarrow> same_buffers i s u"
    "signal_sem n t = Done () u \<Longrightarrow> same_buffers i s u"
    "env_quiet x \<Longrightarrow> down x n t = Done () u \<Longrightarrow> same_buffers i s u"
proof -
  show "up n t = Done () u \<Longrightarrow> same_buffers i s u" "reset n t = Done () u \<Longrightarrow> same_buffers i s u"
    "signal_sem n t = Done () u \<Longrightarrow> same_buffers i s u"
    using same_put_sem [OF assms(2,1)] by (auto simp: up_def reset_def signal_sem_def outcome)
  assume q: "env_quiet x" and d: "down x n t = Done () u"
  have "same_buffers i s (xWait x n t)" using q assms by (auto simp: env_quiet_def same_buffers_def)
  then show "same_buffers i s u" using d assms(1) same_put_sem [OF assms(2)]
    by (auto simp: down_def tsem_down_def Let_def outcome split: if_splits)
qed


lemma same_flush_request:
  assumes "env_quiet x" "flush_request x i s = Done () t" shows "same_buffers i s t"
proof (cases "eDomain (sPortParam (ports s ! i)) = OMX_PortDomainOther")
  case False
  let ?s = "upd_port i (\<lambda>p. p\<lparr>bIsPortFlushed := True\<rparr>) s"
  have s: "same_buffers i s ?s" by (rule same_flushed) (simp add: same_buffers_def)
  from assms(2) False obtain t1 t2 where
    1: "(if semval (the (get_sem SMgmt ?s)) = 0 then up SMgmt ?s else Done () ?s) = Done () t1" and
    2: "(if state t1 \<noteq> OMX_StateExecuting then signal_sem SState t1 else Done () t1) = Done () t2" and
    3: "down x SFlushAll t2 = Done () t"
    by (auto simp: flush_request_def Let_def outcome)
  have "same_buffers i s t1" using 1 s same_ops(1) [OF s, of SMgmt t1] by (auto split: if_splits)
  then have "same_buffers i s t2" using 2 same_ops(3) [of i s t1 SState t2] by (auto split: if_splits)
  then show ?thesis using 3 same_ops(4) [OF _ _ assms(1), of i s t2 SFlushAll t] by simp
qed (use assms(2) in \<open>auto simp: flush_request_def same_buffers_def\<close>)

lemma hand_back_all:
  assumes "i < length (ports s)" "pBufferQueue (ports s ! i) = Some q" "BufferProcessedCallback (ports s ! i) = Some c"
  shows "events ((hand_back i ^^ length q) s) = events s @ map (BufferDone c) q
    \<and> pBufferQueue (ports ((hand_back i ^^ length q) s) ! i) = Some []
    \<and> length (ports ((hand_back i ^^ length q) s)) = length (ports s)"
  using assms
proof (induction q arbitrary: s)
  case (Cons a q)
  have "length (ports (hand_back i s)) = length (ports s)" "pBufferQueue (ports (hand_back i s) ! i) = Some q"
    "BufferProcessedCallback (ports (hand_back i s) ! i) = Some c" "events (hand_back i s) = events s @ [BufferDone c a]"
    using Cons.prems by (simp_all add: hand_back_def Let_def emit_def upd_port_def)
  then show ?case using Cons.IH [of "hand_back i s"] Cons.prems(1) by (simp add: funpow_Suc_right del: funpow.simps)
qed simp

lemma flush_returns:
  assumes e: "env_wf True D N x" "env_quiet x" and wf: "comp_wf D N s" and i: "i < N"
    and q: "pBufferQueue (ports s ! i) = Some q" and c: "BufferProcessedCallback (ports s ! i) = Some c"
  shows "\<exists>t. base_port_FlushProcessingBuffers x i s = Done OMX_ErrorNone t \<and> comp_wf D N t \<and>
    events t = events s @ map (BufferDone c) q \<and> pBufferQueue (ports t ! i) = Some [] \<and>
    \<not> bIsPortFlushed (ports t ! i)"
proof -
  obtain t1 where 1: "flush_request x i s = Done () t1" "comp_wf D N t1"
    using safe_flush_request [OF e(1) wf i] by (auto simp: safe_live)
  obtain t2 where 2: "reset SMgmt t1 = Done () t2" "comp_wf D N t2"
    using safe_reset [OF 1(2), of SMgmt True] by (auto simp: safe_live)
  have "same_buffers i s t2" using same_ops(2) [OF same_flush_request [OF e(2) 1(1)] _ 2(1)] by simp
  then have s: "events t2 = events s" "pBufferQueue (ports t2 ! i) = Some q"
    "BufferProcessedCallback (ports t2 ! i) = Some c"
    using q c by (auto simp: same_buffers_def)
  obtain v where v: "pBufferSem (ports t2 ! i) = Some v" "length q \<le> 9" "semval v = of_nat (length q)"
    using client_port_queue [OF wf_port [OF 2(2) i]] s(2) by auto
  have n: "unat (semval v) = length q" using v(2,3) by (simp add: unat_of_nat_fits)
  let ?t = "(hand_back i ^^ length q) t2"
  have f: "flush_loop x i (unat (semval v)) t2 = Done OMX_ErrorNone ?t" "comp_wf D N ?t"
    using flush_loop_client [OF 2(2) i s(2)] n by auto
  have h: "events ?t = events s @ map (BufferDone c) q" "pBufferQueue (ports ?t ! i) = Some []"
    using hand_back_all [OF _ s(2,3)] s(1) i wf_length [OF 2(2)] by auto
  let ?u = "upd_port i (\<lambda>p. p\<lparr>bIsPortFlushed := False\<rparr>) ?t"
  have w: "comp_wf D N ?u" using f(2) by (auto intro: wf_upd_port client_port_fields)
  obtain u where u: "up SFlush ?u = Done () u" "comp_wf D N u"
    using safe_up [OF w, of SFlush True] by (auto simp: safe_live)
  have "same_buffers i ?t ?u" by (rule same_flushed) (simp add: same_buffers_def)
  then have b: "same_buffers i ?t u" using same_ops(1) [OF _ _ u(1)] by simp
  have p: "ports u = ports ?u" using u(1) by (auto simp: up_def outcome)
  have "\<not> bIsPortFlushed (ports u ! i)" using p i wf_length [OF f(2)] by (simp add: upd_port_def)
  moreover have "base_port_FlushProcessingBuffers x i s = Done OMX_ErrorNone u"
    using 1(1) 2 v(1) f u(1) wf i client_portD [OF wf_port [OF f(2) i]]
    by (simp add: base_port_FlushProcessingBuffers_def)
  ultimately show ?thesis using u(2) b h by (auto simp: same_buffers_def)
qed

fun send_run :: "nat \<Rightarrow> nat list \<Rightarrow> 'p omx_comp \<Rightarrow> (omx_err list, 'p omx_comp) outcome" where
  "send_run i [] s = Done [] s"
| "send_run i (a # as) s =
     obind (base_port_SendBufferFunction i a s) (\<lambda>e s. obind (send_run i as s) (\<lambda>es s. Done (e # es) s))"

lemma send_run_queue:
  assumes "comp_wf D N s" "i < N" "list_all (\<lambda>a. a \<noteq> 0) as" "send_run i as s = Done es t"
    "set es \<subseteq> {OMX_ErrorNone}" "pBufferQueue (ports s ! i) = Some q"
  shows "comp_wf D N t \<and> pBufferQueue (ports t ! i) = Some (q @ as) \<and> events t = events s \<and>
    BufferProcessedCallback (ports t ! i) = BufferProcessedCallback (ports s ! i)"
  using assms
proof (induction as arbitrary: s es q)
  case (Cons a as)
  obtain e u es' where u: "base_port_SendBufferFunction i a s = Done e u" "send_run i as u = Done es' t" "es = e # es'"
    using Cons.prems(4) by (auto simp: outcome)
  have e: "e = OMX_ErrorNone" using u(3) Cons.prems(5) by simp
  obtain b where b: "get_hdr a (heap s) = Some b"
    using u(1) by (auto simp: base_port_SendBufferFunction_def outcome)
  obtain m where m: "bMgmtSem s = Some m" using wf_sems(1) [OF Cons.prems(1)] by auto
  have a: "a \<noteq> 0" using Cons.prems(3) by simp
  have "base_port_SendBufferFunction i a s = Done OMX_ErrorNone ((queued i a s)\<lparr>bMgmtSem := Some (tsem_up m)\<rparr>)"
    using send_client [OF Cons.prems(1,2) b a m] u(1) e by (auto split: if_splits)
  then have s: "u = (queued i a s)\<lparr>bMgmtSem := Some (tsem_up m)\<rparr>" using u(1) by simp
  have w: "comp_wf D N u"
    using send_wf [OF Cons.prems(1,2) _ a, of False] b u(1) by simp
  have f: "pBufferQueue (ports u ! i) = Some (q @ [a])" "events u = events s"
    "BufferProcessedCallback (ports u ! i) = BufferProcessedCallback (ports s ! i)"
    using Cons.prems(2,6) wf_length [OF Cons.prems(1)] s by (simp_all add: queued_def upd_port_def Let_def)
  show ?case using Cons.IH [OF w Cons.prems(2) _ u(2) _ f(1)] Cons.prems(3,5) u(3) f(2,3) by simp
qed simp

text \<open>
  C38 -- The buffers a client has had accepted come back when the port is flushed: the flush ends,
  the callback of the port has been called with each of them exactly once and in the order they were
  sent, after whatever was in the queue before, and the queue is empty.
\<close>

theorem flush_returns_buffers:
  assumes "env_wf True D N x" "env_quiet x" "comp_wf D N s" "i < N" "pBufferQueue (ports s ! i) = Some q"
    "list_all (\<lambda>a. a \<noteq> 0) as" "send_run i as s = Done (replicate (length as) OMX_ErrorNone) t"
  shows "\<exists>u c. base_port_FlushProcessingBuffers x i t = Done OMX_ErrorNone u \<and> comp_wf D N u \<and>
    BufferProcessedCallback (ports s ! i) = Some c \<and>
    events u = events s @ map (BufferDone c) (q @ as) \<and> pBufferQueue (ports u ! i) = Some []"
proof -
  obtain c where c: "BufferProcessedCallback (ports s ! i) = Some c"
    using wf_port [OF assms(3,4)] by (auto simp: client_port_def)
  have t: "comp_wf D N t \<and> pBufferQueue (ports t ! i) = Some (q @ as) \<and> events t = events s \<and>
      BufferProcessedCallback (ports t ! i) = Some c"
    using send_run_queue [OF assms(3,4,6,7) _ assms(5)] c by (auto simp: set_replicate_conv_if)
  then show ?thesis using flush_returns [OF assms(1,2) _ assms(4), of t "q @ as" c] c by auto
qed

lemma demo_env_quiet: "env_quiet demo_ext"
  unfolding env_quiet_def
proof (intro allI impI)
  fix n :: omx_sem and s :: "'a omx_comp" assume "port_sem n"
  then show "events (xWait demo_ext n s) = events s \<and>
     (\<forall>i. pBufferQueue (ports (xWait demo_ext n s) ! i) = pBufferQueue (ports s ! i) \<and>
          BufferProcessedCallback (ports (xWait demo_ext n s) ! i) = BufferProcessedCallback (ports s ! i))"
    by (cases n) (auto simp: demo_ext_def demo_wait_def upd_port_def nth_update)
qed

lemma flush_returns_buffers_witness:
  "\<exists>t u. send_run 0 [8, 7] demo_running = Done [OMX_ErrorNone, OMX_ErrorNone] t \<and>
     base_port_FlushProcessingBuffers demo_ext 0 t = Done OMX_ErrorNone u \<and>
     events u = [BufferDone EmptyBufferDone 8, BufferDone EmptyBufferDone 7]"
proof -
  have "case send_run 0 [8, 7] demo_running of
      Done es _ \<Rightarrow> es = replicate (length [8, 7 :: nat]) OMX_ErrorNone | _ \<Rightarrow> False" by code_simp
  then obtain t where t: "send_run 0 [8, 7] demo_running = Done (replicate (length [8, 7 :: nat]) OMX_ErrorNone) t"
    by (auto dest: done_case)
  have "pBufferQueue (ports demo_running ! 0) = Some []" "BufferProcessedCallback (ports demo_running ! 0) = Some EmptyBufferDone"
    "events demo_running = []"
    by (simp_all add: demo_running_def demo_comp_def demo_port_def)
  with flush_returns_buffers [OF demo_env_wf demo_env_quiet demo_running_wf _ this(1) _ t] t
  show ?thesis by (auto simp: numeral_2_eq_2)
qed

section \<open>Construction\<close>

text \<open>A structure fresh from \<open>calloc\<close>, and what a component holds.\<close>

definition fresh_comp :: "'p omx_comp \<Rightarrow> bool" where
  "fresh_comp s =
     (messageQueue s = None \<and> messageSem s = None \<and> bMgmtSem s = None \<and> bStateSem s = None \<and>
      flush_all_condition s = None \<and> flush_condition s = None \<and> ports s = [])"

definition holds_nothing :: "'p omx_comp \<Rightarrow> bool" where
  "holds_nothing s =
     (messageQueue s = None \<and> messageSem s = None \<and> bMgmtSem s = None \<and> bStateSem s = None \<and>
      flush_all_condition s = None \<and> flush_condition s = None \<and> name s = None \<and> bellagioThreads s = None)"

definition all_ok :: "omx_construct \<Rightarrow> bool" where
  "all_ok ok = (ok_messageQueue ok \<and> ok_messageSem ok \<and> ok_bMgmtSem ok \<and> ok_bStateSem ok \<and> ok_name ok \<and>
     ok_bellagioThreads ok \<and> ok_flush_all ok \<and> ok_flush ok \<and> ok_thread ok)"

text \<open>
  C23 -- Construction is all or nothing: it succeeds exactly when every allocation and the start of
  the message thread do; then the component is loaded and, once its callbacks are set, satisfies
  the invariant under which no call faults. Otherwise the answer is
  \<open>OMX_ErrorInsufficientResources\<close> and everything obtained so far has been released.
\<close>

theorem construction_all_or_nothing:
  assumes "fresh_comp s" "length nm < 128"
  shows "\<exists>e t. omx_base_component_Constructor ok nm s = Done e t \<and>
    (if all_ok ok
     then e = OMX_ErrorNone \<and> state t = OMX_StateLoaded \<and> name t = Some nm \<and>
       (\<exists>u. omx_base_component_SetCallbacks True t = Done OMX_ErrorNone u \<and> comp_wf init_domains 0 u)
     else e = OMX_ErrorInsufficientResources \<and> holds_nothing t)"
proof -
  have f: "messageQueue s = None" "messageSem s = None" "bMgmtSem s = None" "bStateSem s = None"
    "flush_all_condition s = None" "flush_condition s = None" "ports s = []"
    using assms(1) by (simp_all add: fresh_comp_def)
  have n: "\<not> length nm \<ge> 128" using assms(2) by simp
  have i: "init_domains = [\<lparr>nStartPortNumber = 0, nPorts = 0\<rparr>, \<lparr>nStartPortNumber = 0, nPorts = 0\<rparr>,
      \<lparr>nStartPortNumber = 0, nPorts = 0\<rparr>, \<lparr>nStartPortNumber = 0, nPorts = 0\<rparr>]"
    by (simp add: init_domains_def numeral_eq_Suc)
  show ?thesis
  proof (cases "all_ok ok")
    case True
    then show ?thesis using f n
      by (simp add: omx_base_component_Constructor_def all_ok_def Let_def omx_base_component_SetCallbacks_def
          comp_wf_def messages_ok_def port_indices_def total_ports_def i)
  next
    case False
    then show ?thesis using f n
      by (auto simp: omx_base_component_Constructor_def all_ok_def Let_def holds_nothing_def
          base_constructor_remove_garbage_collected_def)
  qed
qed

definition demo_blank :: "unit omx_comp" where
  "demo_blank = demo_comp [] () \<lparr>messageQueue := None, messageSem := None, bMgmtSem := None, bStateSem := None,
     flush_all_condition := None, flush_condition := None\<rparr>"

definition demo_construct :: omx_construct where
  "demo_construct = \<lparr>ok_messageQueue = True, ok_messageSem = True, ok_bMgmtSem = True, ok_bStateSem = True,
     ok_name = True, ok_bellagioThreads = True, ok_flush_all = True, ok_flush = True, ok_thread = False\<rparr>"

lemma construction_all_or_nothing_witness:
  "\<exists>t. omx_base_component_Constructor demo_construct ''video'' demo_blank =
     Done OMX_ErrorInsufficientResources t \<and> holds_nothing t"
proof -
  have "fresh_comp demo_blank" by (simp add: fresh_comp_def demo_blank_def demo_comp_def)
  then show ?thesis using construction_all_or_nothing [of demo_blank "''video''" demo_construct]
    by (simp add: all_ok_def demo_construct_def)
qed

text \<open>The destructor leaves the thread descriptors allocated.\<close>

lemma destructor_leaks_threads:
  assumes "messageSem s \<noteq> None" "bellagioThreads s = Some t"
  shows "\<exists>u. omx_base_component_Destructor s = Done OMX_ErrorNone u \<and> bellagioThreads u = Some t"
  using assms by (auto simp: omx_base_component_Destructor_def up_def)

end
