(* ===== verification/OmxTunnel.thy ===== *)
theory OmxTunnel
  imports OmxClient
begin

text \<open>
  Tunnels: \<open>OMX_SetupTunnel\<close> of \<open>libomxil-bellagio/src/omxcore.c\<close> over two components of the model,
  each the peer of the other; who supplies the buffers after the set-up and after the client
  overrides it; how often a component that is not ready is asked.
\<close>

section \<open>Two components\<close>

text \<open>A component with another peer.\<close>

definition with_peer :: "'q \<Rightarrow> 'p omx_comp \<Rightarrow> 'q omx_comp" where
  "with_peer q s =
     \<lparr>state = state s, transientState = transientState s, callbacks = callbacks s,
      messageQueue = messageQueue s, messageSem = messageSem s, bMgmtSem = bMgmtSem s,
      bStateSem = bStateSem s, flush_all_condition = flush_all_condition s,
      flush_condition = flush_condition s, sPortTypesParam = sPortTypesParam s, ports = ports s,
      bufferMgmtThreadID = bufferMgmtThreadID s, bIsEOSReached = bIsEOSReached s,
      nGroupPriority = nGroupPriority s, nGroupID = nGroupID s, pMark = pMark s,
      currentQualityLevel = currentQualityLevel s, nqualitylevels = nqualitylevels s, name = name s,
      bellagioThreads = bellagioThreads s, heap = heap s, events = events s, peer = q\<rparr>"

text \<open>
  The calls of a component into the tunnelled component are the calls of that component, which
  shares the heap. \<open>y\<close> is what the tunnelled component in turn calls; an outcome that is not
  \<open>Done\<close> counts as an error of the call.
\<close>

definition answer :: "('a, 's) outcome \<Rightarrow> 'a \<Rightarrow> 's \<Rightarrow> 'a \<times> 's" where
  "answer m a s = (case m of Done b t \<Rightarrow> (b, t) | _ \<Rightarrow> (a, s))"

definition peer_get_definition :: "u32 \<Rightarrow> 'p omx_comp \<Rightarrow> omx_err \<times> omx_portdef" where
  "peer_get_definition port q =
     (case omx_base_component_GetParameter OMX_IndexParamPortDefinition
        (Some (ParamPortDefinition (sPortParam zero_port\<lparr>phead := setHeader sizeof_PORTDEFINITIONTYPE, nPortIndex := port\<rparr>))) q
      of Done (e, Some (ParamPortDefinition d)) _ \<Rightarrow> (e, d)
       | _ \<Rightarrow> (OMX_ErrorUndefined, sPortParam zero_port))"

definition peer_set_definition :: "'p omx_ext \<Rightarrow> omx_portdef \<Rightarrow> 'p omx_comp \<Rightarrow> omx_err \<times> 'p omx_comp" where
  "peer_set_definition y d q =
     (case omx_base_component_SetParameter y OMX_IndexParamPortDefinition (Some (ParamPortDefinition d)) q of
        Done (e, _) q \<Rightarrow> (e, q) | _ \<Rightarrow> (OMX_ErrorUndefined, q))"

definition peer_get_supplier :: "u32 \<Rightarrow> 'p omx_comp \<Rightarrow> omx_err \<times> omx_supplier" where
  "peer_get_supplier port q =
     (case omx_base_component_GetParameter OMX_IndexParamCompBufferSupplier
        (Some (ParamSupplier (setHeader sizeof_BUFFERSUPPLIERTYPE) port OMX_BufferSupplyUnspecified)) q
      of Done (e, Some (ParamSupplier _ _ supp)) _ \<Rightarrow> (e, supp)
       | _ \<Rightarrow> (OMX_ErrorUndefined, OMX_BufferSupplyUnspecified))"

definition peer_set_supplier ::
    "'p omx_ext \<Rightarrow> u32 \<Rightarrow> omx_supplier \<Rightarrow> 'p omx_comp \<Rightarrow> omx_err \<times> 'p omx_comp" where
  "peer_set_supplier y port supp q =
     (case omx_base_component_SetParameter y OMX_IndexParamCompBufferSupplier
        (Some (ParamSupplier (setHeader sizeof_BUFFERSUPPLIERTYPE) port supp)) q of
        Done (e, _) q \<Rightarrow> (e, q) | _ \<Rightarrow> (OMX_ErrorUndefined, q))"

definition peer_get_flags :: "u32 \<Rightarrow> 'p omx_comp \<Rightarrow> omx_err" where
  "peer_get_flags port q =
     (case omx_base_component_GetParameter OMX_IndexVendorCompPropTunnelFlags
        (Some (ParamPropTunnel port 0 OMX_BufferSupplyUnspecified)) q of
        Done (e, _) _ \<Rightarrow> e | _ \<Rightarrow> OMX_ErrorUndefined)"

definition linked :: "'p omx_ext \<Rightarrow> 'p omx_comp omx_ext \<Rightarrow> 'p omx_comp omx_ext" where
  "linked y x =
     x\<lparr>xGetPortDefinition := (\<lambda>_. peer_get_definition),
       xSetPortDefinition := (\<lambda>_. peer_set_definition y),
       xGetBufferSupplier := (\<lambda>_. peer_get_supplier),
       xSetBufferSupplier := (\<lambda>_. peer_set_supplier y),
       xGetPropTunnelFlags := (\<lambda>_. peer_get_flags),
       xUseBuffer := (\<lambda>_ port sz d h q.
         (case answer (omx_base_component_UseBuffer port 0 sz d (q\<lparr>heap := h\<rparr>)) (OMX_ErrorUndefined, None) q of
            ((e, r), q) \<Rightarrow> (e, r, heap q, q))),
       xFreeBuffer := (\<lambda>_ port a h q.
         (case answer (omx_base_component_FreeBuffer port a (q\<lparr>heap := h\<rparr>)) OMX_ErrorUndefined q of
            (e, q) \<Rightarrow> (e, heap q, q))),
       xEmptyThisBuffer := (\<lambda>_ a h q.
         (case answer (omx_base_component_EmptyThisBuffer a (q\<lparr>heap := h\<rparr>)) OMX_ErrorUndefined q of
            (e, q) \<Rightarrow> (e, heap q, q))),
       xFillThisBuffer := (\<lambda>_ a h q.
         (case answer (omx_base_component_FillThisBuffer a (q\<lparr>heap := h\<rparr>)) OMX_ErrorUndefined q of
            (e, q) \<Rightarrow> (e, heap q, q)))\<rparr>"

section \<open>\<open>OMX_SetupTunnel\<close>\<close>

text \<open>One end's \<open>ComponentTunnelRequest\<close> while the other end is the component \<open>q\<close>.\<close>

definition request ::
    "'p omx_ext \<Rightarrow> 'p omx_comp omx_ext \<Rightarrow> u32 \<Rightarrow> nat \<Rightarrow> u32 \<Rightarrow> omx_tunnel_setup \<Rightarrow>
      'p omx_comp \<times> 'p omx_comp \<Rightarrow> (omx_err \<times> omx_tunnel_setup, 'p omx_comp \<times> 'p omx_comp) outcome" where
  "request y x port h tport ts c =
     (case omx_base_component_ComponentTunnelRequest (linked y x) port h tport (Some ts)
             (with_peer (snd c) (fst c)) of
        Done (e, ts') s \<Rightarrow> Done (e, case ts' of None \<Rightarrow> ts | Some ts' \<Rightarrow> ts') (with_peer (peer (fst c)) s, peer s)
      | Blocked s \<Rightarrow> Blocked (with_peer (peer (fst c)) s, peer s)
      | Fault \<Rightarrow> Fault)"

text \<open>
  The handles \<open>hOutput\<close> and \<open>hInput\<close> may be 0; the components are the pair, output first. Calling
  the output component to cancel when there is none is a fault.
\<close>

fun swapped :: "('a, 's \<times> 's) outcome \<Rightarrow> ('a, 's \<times> 's) outcome" where
  "swapped (Done a (s, t)) = Done a (t, s)"
| "swapped (Blocked (s, t)) = Blocked (t, s)"
| "swapped Fault = Fault"

definition OMX_SetupTunnel ::
    "'p omx_ext \<Rightarrow> 'p omx_comp omx_ext \<Rightarrow> nat \<Rightarrow> u32 \<Rightarrow> nat \<Rightarrow> u32 \<Rightarrow>
      'p omx_comp \<times> 'p omx_comp \<Rightarrow> (omx_err, 'p omx_comp \<times> 'p omx_comp) outcome" where
  "OMX_SetupTunnel y x hOutput nPortOutput hInput nPortInput c =
     (let ts = \<lparr>ts_nTunnelFlags = 0, ts_eSupplier = OMX_BufferSupplyUnspecified\<rparr> in
      if hOutput = 0 \<and> hInput = 0 then Done OMX_ErrorBadParameter c
      else
      obind (if hOutput \<noteq> 0 then request y x nPortOutput hInput nPortInput ts c
             else Done (OMX_ErrorNone, ts) c) (\<lambda>(err, ts) c.
      if err \<noteq> OMX_ErrorNone then Done err c
      else if hInput = 0 then Done OMX_ErrorNone c
      else
      obind (swapped (request y x nPortInput hOutput nPortOutput ts (snd c, fst c))) (\<lambda>(err, ts) c.
      if err = OMX_ErrorNone then Done OMX_ErrorNone c
      else if hOutput = 0 then Fault
      else
      obind (request y x nPortOutput 0 0 ts c) (\<lambda>(err, ts) c.
      Done (if err \<noteq> OMX_ErrorNone then OMX_ErrorUndefined else OMX_ErrorPortsNotCompatible) c))))"


section \<open>What the two ends do\<close>

definition port_of :: "u32 \<Rightarrow> 'p omx_comp \<Rightarrow> bool" where
  "port_of i s = (i < total_ports s \<and> unat i < length (ports s))"

abbreviation port_at :: "'p omx_comp \<Rightarrow> u32 \<Rightarrow> omx_port" where
  "port_at s i \<equiv> ports s ! unat i"

text \<open>The state lets the supplier of a port be set.\<close>

definition settable :: "omx_port \<Rightarrow> 'p omx_comp \<Rightarrow> bool" where
  "settable p s =
     (state s = OMX_StateLoaded \<or> state s = OMX_StateWaitForResources \<or>
      \<not> PORT_IS_ENABLED p \<or> bIsTransientToEnabled p)"

lemma with_peer_fields [simp]:
  "ports (with_peer q s) = ports s" "state (with_peer q s) = state s" "peer (with_peer q s) = q"
  "sPortTypesParam (with_peer q s) = sPortTypesParam s"
  "total_ports (with_peer q s) = total_ports s"
  by (simp_all add: with_peer_def total_ports_def)

lemma with_peer_upd [simp]:
  "with_peer q ((with_peer r s)\<lparr>ports := ps\<rparr>) = (with_peer q s)\<lparr>ports := ps\<rparr>"
  "with_peer q ((with_peer r s)\<lparr>peer := u\<rparr>) = with_peer q s"
  "with_peer q ((with_peer r s)\<lparr>ports := ps, peer := u\<rparr>) = (with_peer q s)\<lparr>ports := ps\<rparr>"
  "with_peer q ((with_peer r s)\<lparr>peer := u, ports := ps\<rparr>) = (with_peer q s)\<lparr>ports := ps\<rparr>"
  "with_peer (peer t) (t :: 'p omx_comp) = t"
  by (simp_all add: with_peer_def)

lemma peer_ports [simp]: "peer (s\<lparr>ports := ps\<rparr>) = peer s" "ports (s\<lparr>peer := q\<rparr>) = ports s"
  by (cases s; simp)+

lemma with_peer_twice [simp]: "with_peer q (with_peer r s) = with_peer q s"
  "with_peer (peer (t :: 'p omx_comp)) t = t"
  by (simp_all add: with_peer_def)

lemma peer_get_definition [simp]:
  "port_of i q \<Longrightarrow> peer_get_definition i q = (OMX_ErrorNone, sPortParam (port_at q i))"
  by (simp add: peer_get_definition_def omx_base_component_GetParameter_def get_parameter_def checked_def
      port_of_def not_le)

lemma peer_get_supplier [simp]:
  "port_of i q \<Longrightarrow> peer_get_supplier i q = (OMX_ErrorNone, supplier_of (port_at q i))"
  by (simp add: peer_get_supplier_def omx_base_component_GetParameter_def get_parameter_def checked_def
      port_of_def not_le)

lemma peer_get_flags [simp]: "port_of i q \<Longrightarrow> peer_get_flags i q = OMX_ErrorNone"
  by (simp add: peer_get_flags_def omx_base_component_GetParameter_def get_parameter_def port_of_def not_le)

text \<open>Telling an output port who the supplier is.\<close>

definition told :: "omx_supplier \<Rightarrow> omx_port \<Rightarrow> omx_port" where
  "told supp p =
     (if supp = OMX_BufferSupplyOutput then p\<lparr>nTunnelFlags := nTunnelFlags p OR TUNNEL_IS_SUPPLIER\<rparr>
      else if PORT_IS_BUFFER_SUPPLIER p then p\<lparr>nTunnelFlags := nTunnelFlags p AND NOT TUNNEL_IS_SUPPLIER\<rparr>
      else p)"

lemma upd_port_same: "i < length (ports s) \<Longrightarrow> f (ports s ! i) = ports s ! i \<Longrightarrow> upd_port i f s = s"
  by (simp add: upd_port_def)

lemma sanity_supplier:
  "port_of i q \<Longrightarrow> omx_base_component_ParameterSanityCheck i (setHeader sizeof_BUFFERSUPPLIERTYPE)
      sizeof_BUFFERSUPPLIERTYPE q =
    Done (if settable (port_at q i) q then OMX_ErrorNone else OMX_ErrorIncorrectStateOperation) q"
  by (simp add: omx_base_component_ParameterSanityCheck_def settable_def port_of_def not_le)

lemma peer_set_supplier_output:
  assumes "port_of i q" "eDir (sPortParam (port_at q i)) = OMX_DirOutput" "PORT_IS_TUNNELED (port_at q i)"
    "supp \<noteq> OMX_BufferSupplyUnspecified"
  shows "peer_set_supplier y i supp q =
    (if settable (port_at q i) q then (OMX_ErrorNone, upd_port (unat i) (told supp) q)
     else (OMX_ErrorIncorrectStateOperation, q))"
proof -
  have n: "unat i < length (ports q)" "\<not> i > total_ports q" using assms(1) by (auto simp: port_of_def)
  have "PORT_IS_ENABLED (port_at q i)" if "\<not> settable (port_at q i) q" using that by (simp add: settable_def)
  then show ?thesis using assms n
    by (cases supp) (auto simp: peer_set_supplier_def omx_base_component_SetParameter_def set_parameter_def
        set_buffer_supplier_def sanity_supplier override_supplier_def set_tunnel_flags_def told_def Let_def
        upd_port_def)
qed

text \<open>The flags of a port, as bits.\<close>

lemma established_bit: "(w :: u32) AND TUNNEL_ESTABLISHED = 0 \<longleftrightarrow> \<not> bit w 0"
  and supplier_bit: "(w :: u32) AND TUNNEL_IS_SUPPLIER = 0 \<longleftrightarrow> \<not> bit w 1"
  using and_exp_eq_0_iff_not_bit [of w 0] and_exp_eq_0_iff_not_bit [of w 1] by simp_all

lemmas flag_bits = established_bit supplier_bit bit_simps

lemma linked_fields [simp]:
  "xGetPortDefinition (linked y x) h = peer_get_definition" "xGetBufferSupplier (linked y x) h = peer_get_supplier"
  "xSetBufferSupplier (linked y x) h = peer_set_supplier y" "xGetPropTunnelFlags (linked y x) h = peer_get_flags"
  "xSetPortDefinition (linked y x) h = peer_set_definition y"
  by (simp_all add: linked_def)

definition deep_flag :: "omx_port \<Rightarrow> u32" where
  "deep_flag p = (if PORT_IS_DEEP_TUNNELED p then PROPRIETARY_COMMUNICATION_ESTABLISHED else 0)"

definition output_end :: "nat \<Rightarrow> u32 \<Rightarrow> omx_portdef \<Rightarrow> omx_port \<Rightarrow> omx_port" where
  "output_end h tport d p =
     p\<lparr>nTunnelFlags := (deep_flag p OR TUNNEL_IS_SUPPLIER) OR TUNNEL_ESTABLISHED,
       nNumTunnelBuffer := nBufferCountActual d, hTunneledComponent := h, nTunneledPort := tport,
       eBufferSupplier := OMX_BufferSupplyOutput\<rparr>"

lemma request_output:
  assumes "port_of pout out" "port_of pin inp" "eDir (sPortParam (port_at out pout)) = OMX_DirOutput" "h \<noteq> 0"
  shows "request y x pout h pin ts (out, inp) =
    (if compatible (sPortParam (port_at inp pin)) (sPortParam (port_at out pout))
     then Done (OMX_ErrorNone, ts\<lparr>ts_eSupplier := OMX_BufferSupplyOutput\<rparr>)
            (upd_port (unat pout) (output_end h pin (sPortParam (port_at inp pin))) out, inp)
     else Done (OMX_ErrorPortsNotCompatible, ts) (out, inp))"
  using assms
  by (simp add: request_def omx_base_component_ComponentTunnelRequest_def base_port_ComponentTunnelRequest_def
      port_of_def not_le tunnel_output_def initial_flags_def deep_flag_def output_end_def Let_def upd_port_def)

text \<open>The input port, after the output port has claimed the supply.\<close>

definition input_end :: "nat \<Rightarrow> u32 \<Rightarrow> omx_portdef \<Rightarrow> u32 \<Rightarrow> omx_port \<Rightarrow> omx_port" where
  "input_end h tport d f p =
     p\<lparr>nNumTunnelBuffer := nBufferCountActual d, hTunneledComponent := h, nTunneledPort := tport,
       eBufferSupplier := OMX_BufferSupplyOutput, nTunnelFlags := f\<rparr>"

lemma request_input:
  assumes "port_of pout out" "port_of pin inp" "eDir (sPortParam (port_at inp pin)) = OMX_DirInput" "h \<noteq> 0"
    "eDir (sPortParam (port_at out pout)) = OMX_DirOutput" "PORT_IS_TUNNELED (port_at out pout)"
    "ts = \<lparr>ts_nTunnelFlags = 0, ts_eSupplier = OMX_BufferSupplyOutput\<rparr>"
  shows "request y x pin h pout ts (inp, out) =
    (let p = port_at inp pin; d = sPortParam (port_at out pout) in
     if \<not> compatible d (sPortParam p)
     then Done (OMX_ErrorPortsNotCompatible, ts)
            (upd_port (unat pin) (\<lambda>p. p\<lparr>nNumTunnelBuffer := nBufferCountActual d\<rparr>) inp, out)
     else if settable (port_at out pout) out
     then Done (OMX_ErrorNone, ts)
            (upd_port (unat pin) (input_end h pout d (deep_flag p OR TUNNEL_ESTABLISHED)) inp,
             upd_port (unat pout) (told OMX_BufferSupplyOutput) out)
     else Done (OMX_ErrorPortsNotCompatible, ts) (upd_port (unat pin) (input_end h pout d 0) inp, out))"
  using assms peer_set_supplier_output [OF assms(1,5,6), of OMX_BufferSupplyOutput y]
  by (simp add: request_def omx_base_component_ComponentTunnelRequest_def base_port_ComponentTunnelRequest_def
      port_of_def not_le tunnel_input_def initial_flags_def deep_flag_def input_end_def Let_def upd_port_def
      negotiate_supplier_def PORT_IS_DEEP_TUNNELED_def)

lemma request_cancel:
  assumes "port_of pout out"
  shows "request y x pout 0 0 ts (out, inp) = Done (OMX_ErrorNone, ts)
    (upd_port (unat pout) (\<lambda>p. p\<lparr>hTunneledComponent := 0, nTunneledPort := 0, nTunnelFlags := 0,
                     eBufferSupplier := OMX_BufferSupplyUnspecified\<rparr>) out, inp)"
  using assms
  by (simp add: request_def omx_base_component_ComponentTunnelRequest_def base_port_ComponentTunnelRequest_def
      port_of_def not_le upd_port_def)


section \<open>Tunnels\<close>

text \<open>
  The output port \<open>pout\<close> of one component and the input port \<open>pin\<close> of another are a tunnel: each
  names the other, and exactly one of them supplies the buffers.
\<close>

definition tunnel_pair ::
    "nat \<Rightarrow> u32 \<Rightarrow> nat \<Rightarrow> u32 \<Rightarrow> 'p omx_comp \<times> 'p omx_comp \<Rightarrow> bool" where
  "tunnel_pair hOutput pout hInput pin c =
     (let p = port_at (fst c) pout; q = port_at (snd c) pin in
      PORT_IS_TUNNELED p \<and> hTunneledComponent p = hInput \<and> nTunneledPort p = pin \<and>
      PORT_IS_TUNNELED q \<and> hTunneledComponent q = hOutput \<and> nTunneledPort q = pout \<and>
      PORT_IS_BUFFER_SUPPLIER p \<noteq> PORT_IS_BUFFER_SUPPLIER q)"

lemma output_end_flags [simp]:
  "PORT_IS_TUNNELED (output_end h pn d p)" "PORT_IS_BUFFER_SUPPLIER (output_end h pn d p)"
  by (simp_all add: output_end_def PORT_IS_TUNNELED_def PORT_IS_BUFFER_SUPPLIER_def flag_bits)

lemma told_output_flags [simp]:
  "PORT_IS_TUNNELED (told s p) = PORT_IS_TUNNELED p"
  "PORT_IS_BUFFER_SUPPLIER (told s p) = (s = OMX_BufferSupplyOutput)"
  by (auto simp: told_def PORT_IS_TUNNELED_def PORT_IS_BUFFER_SUPPLIER_def flag_bits)

lemma told_fields [simp]:
  "hTunneledComponent (told s p) = hTunneledComponent p" "nTunneledPort (told s p) = nTunneledPort p"
  "sPortParam (told s p) = sPortParam p" "bIsTransientToEnabled (told s p) = bIsTransientToEnabled p"
  by (simp_all add: told_def)

lemma output_end_fields [simp]:
  "hTunneledComponent (output_end h pn d p) = h" "nTunneledPort (output_end h pn d p) = pn"
  "sPortParam (output_end h pn d p) = sPortParam p"
  "bIsTransientToEnabled (output_end h pn d p) = bIsTransientToEnabled p"
  by (simp_all add: output_end_def)

lemma input_end_fields [simp]:
  "hTunneledComponent (input_end h pn d f p) = h" "nTunneledPort (input_end h pn d f p) = pn"
  "sPortParam (input_end h pn d f p) = sPortParam p"
  "PORT_IS_TUNNELED (input_end h pn d f p) = (f AND TUNNEL_ESTABLISHED \<noteq> 0)"
  "PORT_IS_BUFFER_SUPPLIER (input_end h pn d f p) = (f AND TUNNEL_IS_SUPPLIER \<noteq> 0)"
  by (simp_all add: input_end_def PORT_IS_TUNNELED_def PORT_IS_BUFFER_SUPPLIER_def)

lemma deep_flag_bits [simp]:
  "(deep_flag p OR TUNNEL_ESTABLISHED) AND TUNNEL_IS_SUPPLIER = 0"
  "(deep_flag p OR TUNNEL_ESTABLISHED) AND TUNNEL_ESTABLISHED \<noteq> 0"
  by (simp_all add: deep_flag_def)

lemma port_flags_upd [simp]:
  "PORT_IS_TUNNELED (p\<lparr>nNumTunnelBuffer := n\<rparr>) = PORT_IS_TUNNELED p"
  "PORT_IS_BUFFER_SUPPLIER (p\<lparr>nNumTunnelBuffer := n\<rparr>) = PORT_IS_BUFFER_SUPPLIER p"
  "PORT_IS_TUNNELED (p\<lparr>hTunneledComponent := h, nTunneledPort := t, nTunnelFlags := f, eBufferSupplier := u\<rparr>)
     = (f AND TUNNEL_ESTABLISHED \<noteq> 0)"
  "PORT_IS_BUFFER_SUPPLIER (p\<lparr>hTunneledComponent := h, nTunneledPort := t, nTunnelFlags := f, eBufferSupplier := u\<rparr>)
     = (f AND TUNNEL_IS_SUPPLIER \<noteq> 0)"
  by (simp_all add: PORT_IS_TUNNELED_def PORT_IS_BUFFER_SUPPLIER_def)

lemma port_at_upd [simp]:
  "unat i < length (ports s) \<Longrightarrow> port_at (upd_port (unat i) f s) i = f (port_at s i)"
  by (simp add: upd_port_def)

lemma port_of_upd [simp]: "port_of i (upd_port j f s) = port_of i s"
  by (simp add: port_of_def upd_port_def total_ports_def)

lemma settable_upd [simp]:
  "settable (output_end h pn d p) (upd_port j f s) = settable p s"
  by (simp add: settable_def PORT_IS_ENABLED_def upd_port_def)

lemma upd_twice: "upd_port i f (upd_port i g s) = upd_port i (\<lambda>p. f (g p)) s"
  by (cases "i < length (ports s)") (simp_all add: upd_port_def list_update_beyond)

text \<open>
  C14 -- Setting up a tunnel between an output and an input port that are free gives exactly one
  supplier. The request ends; it succeeds just when the two port definitions are compatible in both
  directions and the state of the output component lets its supplier be set. Then each port names
  the other, both report the output port as the supplier, and only that one is. When the tunnel is
  refused the answer is \<open>OMX_ErrorPortsNotCompatible\<close> and neither port is left tunnelled or a
  supplier, even though the output port had already agreed.
\<close>

theorem tunnel_has_one_supplier:
  fixes out inp :: "'p omx_comp" and pout pin :: u32
  defines "p \<equiv> port_at out pout" and "q \<equiv> port_at inp pin"
  assumes "port_of pout out" "port_of pin inp" "eDir (sPortParam p) = OMX_DirOutput"
    "eDir (sPortParam q) = OMX_DirInput" "hOutput \<noteq> 0" "hInput \<noteq> 0"
    "\<not> PORT_IS_TUNNELED p" "\<not> PORT_IS_TUNNELED q" "\<not> PORT_IS_BUFFER_SUPPLIER p" "\<not> PORT_IS_BUFFER_SUPPLIER q"
  shows "\<exists>e out' inp'. OMX_SetupTunnel y x hOutput pout hInput pin (out, inp) = Done e (out', inp') \<and>
    (e = OMX_ErrorNone \<longleftrightarrow> compatible (sPortParam q) (sPortParam p) \<and> compatible (sPortParam p) (sPortParam q)
       \<and> settable p out) \<and>
    (e = OMX_ErrorNone \<longrightarrow> tunnel_pair hOutput pout hInput pin (out', inp') \<and>
       snd (peer_get_supplier pout out') = OMX_BufferSupplyOutput \<and>
       snd (peer_get_supplier pin inp') = OMX_BufferSupplyOutput) \<and>
    (e \<noteq> OMX_ErrorNone \<longrightarrow> e = OMX_ErrorPortsNotCompatible \<and>
       \<not> PORT_IS_TUNNELED (port_at out' pout) \<and> \<not> PORT_IS_BUFFER_SUPPLIER (port_at out' pout) \<and>
       \<not> PORT_IS_TUNNELED (port_at inp' pin) \<and> \<not> PORT_IS_BUFFER_SUPPLIER (port_at inp' pin))"
proof -
  have l: "unat pout < length (ports out)" "unat pin < length (ports inp)"
    using assms(3,4) by (simp_all add: port_of_def)
  let ?ts = "\<lparr>ts_nTunnelFlags = 0, ts_eSupplier = OMX_BufferSupplyUnspecified\<rparr>"
  let ?ts2 = "\<lparr>ts_nTunnelFlags = 0, ts_eSupplier = OMX_BufferSupplyOutput\<rparr>"
  let ?out = "upd_port (unat pout) (output_end hInput pin (sPortParam q)) out"
  note o = request_output [OF assms(3,4) _ assms(8), of y x ?ts]
  show ?thesis
  proof (cases "compatible (sPortParam q) (sPortParam p)")
    case False
    then show ?thesis using o assms by (simp add: OMX_SetupTunnel_def Let_def)
  next
    case True
    note i = request_input [of pout ?out pin inp hOutput ?ts2 y x]
    note c = request_cancel [of pout ?out y x ?ts2]
    show ?thesis
      using True o i c assms l
      by (simp add: OMX_SetupTunnel_def Let_def tunnel_pair_def supplier_of_def upd_twice)
  qed
qed


definition demo_out :: omx_port where
  "demo_out = demo_port\<lparr>sPortParam := demo_param\<lparr>eDir := OMX_DirOutput\<rparr>\<rparr>"

lemma demo_port_of: "port_of 0 (demo_comp [p] ())"
  by (simp add: port_of_def total_ports_def demo_comp_def)

lemma tunnel_has_one_supplier_witness:
  "\<exists>c. OMX_SetupTunnel demo_ext demo_ext 1 0 2 0 (demo_comp [demo_out] (), demo_comp [demo_port] ()) =
     Done OMX_ErrorNone c \<and> tunnel_pair 1 0 2 0 c"
proof -
  have d: "eDir (sPortParam (port_at (demo_comp [demo_out] ()) 0)) = OMX_DirOutput"
    "eDir (sPortParam (port_at (demo_comp [demo_port] ()) 0)) = OMX_DirInput"
    "compatible (sPortParam (port_at (demo_comp [demo_out] ()) 0)) (sPortParam (port_at (demo_comp [demo_port] ()) 0))"
    "compatible (sPortParam (port_at (demo_comp [demo_port] ()) 0)) (sPortParam (port_at (demo_comp [demo_out] ()) 0))"
    "settable (port_at (demo_comp [demo_out] ()) 0) (demo_comp [demo_out] ())"
    "\<not> PORT_IS_TUNNELED (port_at (demo_comp [demo_out] ()) 0)" "\<not> PORT_IS_TUNNELED (port_at (demo_comp [demo_port] ()) 0)"
    "\<not> PORT_IS_BUFFER_SUPPLIER (port_at (demo_comp [demo_out] ()) 0)"
    "\<not> PORT_IS_BUFFER_SUPPLIER (port_at (demo_comp [demo_port] ()) 0)"
    by (simp_all add: demo_comp_def demo_out_def demo_port_def demo_param_def compatible_def audio_eEncoding_def settable_def
        PORT_IS_TUNNELED_def PORT_IS_BUFFER_SUPPLIER_def)
  show ?thesis
    using tunnel_has_one_supplier [OF demo_port_of demo_port_of d(1,2) _ _ d(6-9), of 1 2 demo_ext demo_ext] d(3-5)
    by fastforce
qed

section \<open>The client overrides the supplier\<close>

text \<open>The client sets the supplier at the input port, which tells the output port.\<close>

definition override ::
    "'p omx_ext \<Rightarrow> 'p omx_comp omx_ext \<Rightarrow> u32 \<Rightarrow> omx_supplier \<Rightarrow> 'p omx_comp \<times> 'p omx_comp \<Rightarrow>
      (omx_err, 'p omx_comp \<times> 'p omx_comp) outcome" where
  "override y x pin supp c =
     (case omx_base_component_SetParameter (linked y x) OMX_IndexParamCompBufferSupplier
             (Some (ParamSupplier (setHeader sizeof_BUFFERSUPPLIERTYPE) pin supp))
             (with_peer (fst c) (snd c)) of
        Done (e, _) s \<Rightarrow> Done e (peer s, with_peer (peer (snd c)) s)
      | Blocked s \<Rightarrow> Blocked (peer s, with_peer (peer (snd c)) s)
      | Fault \<Rightarrow> Fault)"

definition yields :: "omx_port \<Rightarrow> omx_port" where
  "yields p = p\<lparr>nTunnelFlags := nTunnelFlags p AND NOT TUNNEL_IS_SUPPLIER\<rparr>"

definition claims :: "omx_port \<Rightarrow> omx_port" where
  "claims p = p\<lparr>nTunnelFlags := nTunnelFlags p OR TUNNEL_IS_SUPPLIER\<rparr>"

lemma claims_yields [simp]:
  "PORT_IS_BUFFER_SUPPLIER (claims p)" "\<not> PORT_IS_BUFFER_SUPPLIER (yields p)"
  "PORT_IS_TUNNELED (claims p) = PORT_IS_TUNNELED p" "PORT_IS_TUNNELED (yields p) = PORT_IS_TUNNELED p"
  "hTunneledComponent (claims p) = hTunneledComponent p" "hTunneledComponent (yields p) = hTunneledComponent p"
  "nTunneledPort (claims p) = nTunneledPort p" "nTunneledPort (yields p) = nTunneledPort p"
  by (auto simp: claims_def yields_def PORT_IS_TUNNELED_def PORT_IS_BUFFER_SUPPLIER_def flag_bits)

lemma settable_peer [simp]: "settable p (with_peer q s) = settable p s"
  by (simp add: settable_def)

lemma port_of_peer [simp]: "port_of i (with_peer q s) = port_of i s"
  by (simp add: port_of_def)

lemma override_input:
  fixes out inp :: "'p omx_comp" and pout pin :: u32
  defines "p \<equiv> port_at out pout" and "q \<equiv> port_at inp pin"
  assumes "port_of pout out" "port_of pin inp" "eDir (sPortParam p) = OMX_DirOutput"
    "eDir (sPortParam q) = OMX_DirInput" "tunnel_pair hOutput pout hInput pin (out, inp)" "settable q inp"
  shows "override y x pin supp (out, inp) =
    (case supp of
       OMX_BufferSupplyUnspecified \<Rightarrow> Done OMX_ErrorNone (out, inp)
     | OMX_BufferSupplyInput \<Rightarrow>
         if settable p out then Done OMX_ErrorNone (upd_port (unat pout) (told supp) out, upd_port (unat pin) claims inp)
         else Done OMX_ErrorIncorrectStateOperation (out, upd_port (unat pin) claims inp)
     | OMX_BufferSupplyOutput \<Rightarrow>
         if \<not> PORT_IS_BUFFER_SUPPLIER q then Done OMX_ErrorNone (out, inp)
         else Done OMX_ErrorNone
           (if settable p out then upd_port (unat pout) (told supp) out else out, upd_port (unat pin) yields inp))"
proof -
  have t: "PORT_IS_TUNNELED p" "PORT_IS_TUNNELED q" "hTunneledComponent q = hOutput" "nTunneledPort q = pout"
    using assms(7) by (simp_all add: tunnel_pair_def p_def q_def Let_def)
  have n: "\<not> pin > total_ports inp" "unat pin < length (ports inp)" "unat pout < length (ports out)"
    using assms(3,4) by (auto simp: port_of_def)
  note o = peer_set_supplier_output [OF assms(3) assms(5) [unfolded p_def] t(1) [unfolded p_def], of _ y]
  note s = sanity_supplier [of pin "with_peer out inp", simplified]
  show ?thesis
    using o [of supp] s assms(3-6,8) t n unfolding p_def q_def
    by (cases supp) (auto simp: override_def omx_base_component_SetParameter_def set_parameter_def
        set_buffer_supplier_def override_supplier_def set_tunnel_flags_def claims_def yields_def
        Let_def upd_port_def)
qed


text \<open>
  C39 -- Overriding the supplier of a tunnel at its input port, whose component lets its supplier be
  set. When the component of the output port does too, the call succeeds, the tunnel keeps exactly one
  supplier, and that one is the port the client asked for (it is left as it is when the client leaves
  it open). When the output's component refuses, a tunnel with one supplier is left exactly when
  nothing had to change; otherwise both ports supply, with an error, or neither does, without one.
\<close>

theorem override_keeps_one_supplier:
  fixes out inp :: "'p omx_comp" and pout pin :: u32
  defines "p \<equiv> port_at out pout" and "q \<equiv> port_at inp pin"
  assumes "port_of pout out" "port_of pin inp" "eDir (sPortParam p) = OMX_DirOutput"
    "eDir (sPortParam q) = OMX_DirInput" "tunnel_pair hOutput pout hInput pin (out, inp)"
    "settable q inp"
  shows "\<exists>e out' inp'. override y x pin supp (out, inp) = Done e (out', inp') \<and>
    (e = OMX_ErrorNone \<longleftrightarrow> settable p out \<or> supp \<noteq> OMX_BufferSupplyInput) \<and>
    (if settable p out \<or> supp = OMX_BufferSupplyUnspecified \<or>
        PORT_IS_BUFFER_SUPPLIER q = (supp = OMX_BufferSupplyInput)
     then tunnel_pair hOutput pout hInput pin (out', inp') \<and>
       (supp = OMX_BufferSupplyInput \<longrightarrow> PORT_IS_BUFFER_SUPPLIER (port_at inp' pin)) \<and>
       (supp = OMX_BufferSupplyOutput \<longrightarrow> PORT_IS_BUFFER_SUPPLIER (port_at out' pout)) \<and>
       (supp = OMX_BufferSupplyUnspecified \<longrightarrow> out' = out \<and> inp' = inp)
     else out' = out \<and> PORT_IS_BUFFER_SUPPLIER p = (supp = OMX_BufferSupplyInput) \<and>
       PORT_IS_BUFFER_SUPPLIER (port_at inp' pin) = (supp = OMX_BufferSupplyInput))"
proof -
  have l: "unat pin < length (ports inp)" "unat pout < length (ports out)"
    using assms(3,4) by (auto simp: port_of_def)
  note o = override_input [OF assms(3-6) [unfolded p_def q_def] assms(7) assms(8) [unfolded q_def], of y x supp]
  show ?thesis
    using o l assms(7) by (cases supp; cases "settable p out"; cases "PORT_IS_BUFFER_SUPPLIER q")
      (auto simp: tunnel_pair_def Let_def p_def q_def)
qed

definition demo_tunnel :: "unit omx_comp \<times> unit omx_comp" where
  "demo_tunnel =
     (demo_comp [demo_out\<lparr>hTunneledComponent := 2, nTunnelFlags := 3\<rparr>] (),
      demo_comp [demo_port\<lparr>hTunneledComponent := 1, nTunnelFlags := 1\<rparr>] ())"

lemma demo_tunnel_facts:
  "port_of 0 (fst demo_tunnel)" "port_of 0 (snd demo_tunnel)"
  "eDir (sPortParam (port_at (fst demo_tunnel) 0)) = OMX_DirOutput"
  "eDir (sPortParam (port_at (snd demo_tunnel) 0)) = OMX_DirInput"
  "tunnel_pair 1 0 2 0 (fst demo_tunnel, snd demo_tunnel)"
  "settable (port_at (snd demo_tunnel) 0) (snd demo_tunnel)"
  by (simp_all add: demo_tunnel_def port_of_def total_ports_def tunnel_pair_def demo_comp_def demo_out_def demo_port_def
      demo_param_def settable_def PORT_IS_TUNNELED_def PORT_IS_BUFFER_SUPPLIER_def)

lemma override_keeps_one_supplier_witness:
  "\<exists>c. override demo_ext demo_ext 0 OMX_BufferSupplyInput demo_tunnel = Done OMX_ErrorNone c \<and>
     tunnel_pair 1 0 2 0 c \<and> PORT_IS_BUFFER_SUPPLIER (port_at (snd c) 0)"
proof -
  have "settable (port_at (fst demo_tunnel) 0) (fst demo_tunnel)"
    by (simp add: demo_tunnel_def demo_comp_def demo_out_def demo_port_def demo_param_def settable_def)
  then show ?thesis
    using override_keeps_one_supplier [OF demo_tunnel_facts, of demo_ext demo_ext OMX_BufferSupplyInput]
    by (fastforce simp: prod.collapse)
qed

text \<open>
  When the output component is in a state that refuses (executing, say), the input port has already
  claimed or given up the supply: the tunnel is left with two suppliers, or with none and without an
  error.
\<close>

lemma override_refused:
  fixes out inp :: "'p omx_comp" and pout pin :: u32
  defines "p \<equiv> port_at out pout" and "q \<equiv> port_at inp pin"
  assumes "port_of pout out" "port_of pin inp" "eDir (sPortParam p) = OMX_DirOutput"
    "eDir (sPortParam q) = OMX_DirInput" "tunnel_pair hOutput pout hInput pin (out, inp)"
    "settable q inp" "\<not> settable p out"
  shows "PORT_IS_BUFFER_SUPPLIER p \<Longrightarrow> \<exists>inp'. override y x pin OMX_BufferSupplyInput (out, inp) =
      Done OMX_ErrorIncorrectStateOperation (out, inp') \<and> PORT_IS_BUFFER_SUPPLIER (port_at inp' pin)"
    "PORT_IS_BUFFER_SUPPLIER q \<Longrightarrow> \<exists>inp'. override y x pin OMX_BufferSupplyOutput (out, inp) =
      Done OMX_ErrorNone (out, inp') \<and> \<not> PORT_IS_BUFFER_SUPPLIER (port_at inp' pin) \<and>
      \<not> PORT_IS_BUFFER_SUPPLIER p"
proof -
  have l: "unat pin < length (ports inp)" using assms(4) by (simp add: port_of_def)
  note o = override_input [OF assms(3-6) [unfolded p_def q_def] assms(7) assms(8) [unfolded q_def], of y x]
  show "PORT_IS_BUFFER_SUPPLIER p \<Longrightarrow> \<exists>inp'. override y x pin OMX_BufferSupplyInput (out, inp) =
      Done OMX_ErrorIncorrectStateOperation (out, inp') \<and> PORT_IS_BUFFER_SUPPLIER (port_at inp' pin)"
    using o [of OMX_BufferSupplyInput] assms(9) l by (simp add: p_def)
  show "PORT_IS_BUFFER_SUPPLIER q \<Longrightarrow> \<exists>inp'. override y x pin OMX_BufferSupplyOutput (out, inp) =
      Done OMX_ErrorNone (out, inp') \<and> \<not> PORT_IS_BUFFER_SUPPLIER (port_at inp' pin) \<and>
      \<not> PORT_IS_BUFFER_SUPPLIER p"
    using o [of OMX_BufferSupplyOutput] assms(7,9) l by (auto simp: p_def q_def tunnel_pair_def Let_def)
qed

section \<open>Asking a component that is not ready\<close>

text \<open>How often the tunnelled component has been asked, by a measure of its state.\<close>

definition asks_once :: "('p \<Rightarrow> nat) \<Rightarrow> 'p omx_ext \<Rightarrow> bool" where
  "asks_once calls x =
     ((\<forall>h port sz d hp q. calls (snd (snd (snd (xUseBuffer x h port sz d hp q)))) \<le> calls q + 1) \<and>
      (\<forall>h d q. calls (snd (xSetPortDefinition x h d q)) \<le> calls q))"

lemma use_buffer_retry_calls:
  assumes "asks_once calls x"
  shows "use_buffer_retry x p sz d r e a h q = (e', n, a', h', q') \<Longrightarrow> r \<le> 20 \<Longrightarrow>
    r \<le> n \<and> n \<le> 20 \<and> calls q' + r \<le> calls q + n + 1"
proof (induction "20 - r" arbitrary: r e a h q rule: less_induct)
  case less
  show ?case
  proof (cases "r < 20")
    case True
    obtain e1 r1 h1 q1 where u: "xUseBuffer x (hTunneledComponent p) (nTunneledPort p) sz d h q = (e1, r1, h1, q1)"
      by (metis prod_cases4)
    then have c: "calls q1 \<le> calls q + 1" using assms unfolding asks_once_def by (metis snd_conv)
    show ?thesis
    proof (cases "e1 = OMX_ErrorIncorrectStateTransition")
      case e1: True
      have "use_buffer_retry x p sz d (r + 1) e1 (case r1 of None \<Rightarrow> a | Some b \<Rightarrow> b) h1 q1 = (e', n, a', h', q')"
        using less.prems(1) True u e1 by (simp add: use_buffer_retry.simps [of x p sz d r])
      then have "r + 1 \<le> n \<and> n \<le> 20 \<and> calls q' + (r + 1) \<le> calls q1 + n + 1"
        using less.hyps [of "r + 1"] True by simp
      then show ?thesis using c by auto
    next
      case False
      then have "n = r \<and> q' = q1"
        using less.prems(1) True u by (auto simp: use_buffer_retry.simps [of x p sz d r] Let_def split: if_splits)
      then show ?thesis using c True by simp
    qed
  next
    case False
    then show ?thesis using less.prems use_buffer_retry.simps [of x p sz d r e a h q] by auto
  qed
qed

text \<open>The primitives leave the tunnelled component and the number of buffers alone.\<close>

definition actual :: "nat \<Rightarrow> 'p omx_comp \<Rightarrow> u32" where
  "actual i s = nBufferCountActual (sPortParam (ports s ! i))"

definition same_peer :: "'p omx_comp \<Rightarrow> 'p omx_comp \<Rightarrow> bool" where
  "same_peer s t = (peer t = peer s \<and> (\<forall>j. actual j t = actual j s))"

lemma same_upd_port:
  "(\<And>p. nBufferCountActual (sPortParam (f p)) = nBufferCountActual (sPortParam p)) \<Longrightarrow>
    same_peer s (upd_port i f s)"
  by (simp add: same_peer_def actual_def upd_port_def nth_update)

lemma prims_peer:
  "set_slot i k a s = Done u t \<Longrightarrow> same_peer s t" "set_flag i k f s = Done u t \<Longrightarrow> same_peer s t"
  by (auto simp: set_slot_def set_flag_def outcome intro: same_upd_port split: if_splits)

lemma on_heap_peer: "on_heap g s = Done u t \<Longrightarrow> same_peer s t"
  by (auto simp: on_heap_def outcome same_peer_def actual_def)

lemma enqueue_peer: "enqueue i a s = Done b t \<Longrightarrow> same_peer s t"
  by (auto simp: enqueue_def outcome intro: same_upd_port split: if_splits prod.splits qresult.splits)

lemma count_buffer_peer: "count_buffer i s = Done b t \<Longrightarrow> same_peer s t"
  by (auto simp: count_buffer_def outcome Let_def get_port_def same_peer_def actual_def upd_port_def
      upd_param_def nth_update split: if_splits)

lemma tunnel_slot_calls:
  assumes "asks_once calls x" "tunnel_slot x i k sz r e s = Done (e', n) t" "r \<le> 20"
  shows "r \<le> n \<and> n \<le> 20 \<and> calls (peer t) + r \<le> calls (peer s) + n + 1 \<and> actual i t = actual i s"
proof (cases "fst (hcalloc (Data sz) (heap s)) = 0")
  case True
  then show ?thesis using assms(2,3) by (auto simp: tunnel_slot_def actual_def split: prod.splits)
next
  case False
  obtain d h where d: "hcalloc (Data sz) (heap s) = (d, h)" by fastforce
  obtain e1 n1 a h1 q1 where u: "use_buffer_retry x (ports s ! i) sz d r e (storage (ports s ! i) ! k) h (peer s)
      = (e1, n1, a, h1, q1)" by (metis prod_cases5)
  note c = use_buffer_retry_calls [OF assms(1) u assms(3)]
  let ?s = "s\<lparr>heap := h1, peer := q1\<rparr>"
  have "n = n1 \<and> same_peer ?s t"
    using assms(2) False d u
    by (auto simp: tunnel_slot_def outcome split: if_splits dest!: prims_peer on_heap_peer enqueue_peer
        count_buffer_peer) (auto simp: same_peer_def)
  then have "n = n1 \<and> peer t = q1 \<and> actual i t = actual i s" by (auto simp: same_peer_def actual_def)
  then show ?thesis using c by simp
qed

lemma tunnel_slots_calls:
  assumes "asks_once calls x"
  shows "tunnel_slots x i sz m k r e s = Done e' t \<Longrightarrow> r \<le> 20 \<Longrightarrow>
    calls (peer t) + r \<le> calls (peer s) + 20 + m \<and> actual i t = actual i s"
proof (induction m arbitrary: k r e s)
  case (Suc m)
  show ?case
  proof (cases "slots (ports s ! i) ! k = BUFFER_FREE")
    case True
    then obtain e1 n1 u where u: "tunnel_slot x i k sz r e s = Done (e1, n1) u"
      "if e1 \<noteq> OMX_ErrorNone then Done e1 u = Done e' t else tunnel_slots x i sz m (k + 1) n1 e1 u = Done e' t"
      using Suc.prems(1) by (auto simp: outcome split: if_splits)
    note c = tunnel_slot_calls [OF assms u(1) Suc.prems(2)]
    show ?thesis using u(2) c Suc.IH [of "k + 1" n1 e1 u] by (auto split: if_splits)
  next
    case False
    then show ?thesis using Suc.prems Suc.IH [of "k + 1" r e s] by (auto split: if_splits)
  qed
qed simp


lemma negotiate_calls:
  assumes "asks_once calls x" "negotiate_buffers x i s = (r, t)"
  shows "calls (peer t) \<le> calls (peer s)"
proof -
  have "calls q' \<le> calls q" if "xSetPortDefinition x h d q = (e, q')" for h d q e q'
    using assms(1) that unfolding asks_once_def by (metis snd_conv)
  then show ?thesis using assms(2)
    by (auto simp: negotiate_buffers_def Let_def upd_port_def split: prod.splits if_splits)
qed

text \<open>
  What the supplier relies on when it makes the buffers: the tunnelled component does not free the
  buffer it is lent, and when it accepts one it answers with a header that exists; the port is there
  with its queue, and its arrays have room for the number of buffers the two components agree on.
\<close>

definition keeps_lent :: "'p omx_ext \<Rightarrow> bool" where
  "keeps_lent x =
     (\<forall>h port sz d hp q. case xUseBuffer x h port sz d hp q of (e, r, hp', q') \<Rightarrow>
        (hmem hp d \<noteq> None \<longrightarrow> hmem hp' d \<noteq> None) \<and>
        (e = OMX_ErrorNone \<longrightarrow> (\<exists>a. r = Some a \<and> a \<noteq> 0 \<and> get_hdr a hp' \<noteq> None)))"

definition room :: "nat \<Rightarrow> nat \<Rightarrow> 'p omx_comp \<Rightarrow> bool" where
  "room i n s =
     (i < length (ports s) \<and> n \<le> length (slots (ports s ! i)) \<and> n \<le> length (storage (ports s ! i)) \<and>
      pBufferQueue (ports s ! i) \<noteq> None)"

definition agreed_count :: "'p omx_ext \<Rightarrow> nat \<Rightarrow> 'p omx_comp \<Rightarrow> nat" where
  "agreed_count x i s =
     (let p = ports s ! i in
      max (unat (actual i s))
        (unat (nBufferCountActual (snd (xGetPortDefinition x (hTunneledComponent p) (nTunneledPort p) (peer s))))))"

lemma use_buffer_retry_lent:
  assumes "keeps_lent x"
  shows "use_buffer_retry x p sz d r e a h q = (e', n, a', h', q') \<Longrightarrow> r < 20 \<Longrightarrow> hmem h d \<noteq> None \<Longrightarrow>
    hmem h' d \<noteq> None \<and> (e' = OMX_ErrorNone \<longrightarrow> n < 20 \<and> a' \<noteq> 0 \<and> get_hdr a' h' \<noteq> None)"
proof (induction "20 - r" arbitrary: r e a h q rule: less_induct)
  case less
  obtain e1 r1 h1 q1 where u: "xUseBuffer x (hTunneledComponent p) (nTunneledPort p) sz d h q = (e1, r1, h1, q1)"
    by (metis prod_cases4)
  have k: "hmem h1 d \<noteq> None" "e1 = OMX_ErrorNone \<Longrightarrow> \<exists>b. r1 = Some b \<and> b \<noteq> 0 \<and> get_hdr b h1 \<noteq> None"
    using assms [unfolded keeps_lent_def, rule_format, of h d "hTunneledComponent p" "nTunneledPort p" sz q] u
      less.prems(3) by simp_all
  note step = less.prems(1) [unfolded use_buffer_retry.simps [of x p sz d r]] u less.prems(2)
  show ?case
  proof (cases "e1 = OMX_ErrorIncorrectStateTransition")
    case True
    have s: "use_buffer_retry x p sz d (r + 1) e1 (case r1 of None \<Rightarrow> a | Some b \<Rightarrow> b) h1 q1 = (e', n, a', h', q')"
      using step True by simp
    show ?thesis
    proof (cases "r + 1 < 20")
      case True
      then show ?thesis using less.hyps [OF _ s] k(1) by simp
    next
      case False
      then have "e' = e1 \<and> h' = h1" using s by (simp add: use_buffer_retry.simps [of x p sz d "Suc r"])
      then show ?thesis using True k(1) by simp
    qed
  next
    case False
    then show ?thesis using step k by (auto simp: Let_def split: if_splits)
  qed
qed

lemma room_upd:
  assumes "room i n s" "length (slots (f (ports s ! i))) = length (slots (ports s ! i))"
    "length (storage (f (ports s ! i))) = length (storage (ports s ! i))" "pBufferQueue (f (ports s ! i)) \<noteq> None"
  shows "room i n (upd_port i f s)"
  using assms by (simp add: room_def upd_port_def)

lemma heap_upd_port [simp]: "heap (upd_port i f s) = heap s"
  by (simp add: upd_port_def)

lemma room_fields [simp]: "room i n (s\<lparr>heap := h\<rparr>) = room i n s" "room i n (s\<lparr>peer := q\<rparr>) = room i n s"
  by (simp_all add: room_def)

lemma safe_slot:
  assumes "room i n s" "k < n"
  shows "safe True (\<lambda>_ t. room i n t \<and> heap t = heap s) (set_slot i k a s)"
    "safe True (\<lambda>_ t. room i n t \<and> heap t = heap s) (set_flag i k f s)"
    "safe True (\<lambda>_ t. room i n t \<and> heap t = heap s) (count_buffer i s)"
    "a \<noteq> 0 \<Longrightarrow> safe True (\<lambda>_ t. room i n t \<and> heap t = heap s) (enqueue i a s)"
proof -
  have r: "get_port i s = Some (ports s ! i)" "k < length (slots (ports s ! i))" "k < length (storage (ports s ! i))"
    using assms by (auto simp: room_def get_port_def)
  obtain q where q: "pBufferQueue (ports s ! i) = Some q" using assms(1) by (auto simp: room_def)
  show "safe True (\<lambda>_ t. room i n t \<and> heap t = heap s) (set_slot i k a s)"
    using r q assms(1) by (auto simp: set_slot_def slots_def storage_def intro!: room_upd)
  show "safe True (\<lambda>_ t. room i n t \<and> heap t = heap s) (set_flag i k f s)"
    using r q assms(1) by (auto simp: set_flag_def slots_def storage_def intro!: room_upd)
  show "safe True (\<lambda>_ t. room i n t \<and> heap t = heap s) (count_buffer i s)"
    using r q assms(1)
    by (auto simp: count_buffer_def Let_def slots_def storage_def upd_param_def intro!: room_upd)
  show "safe True (\<lambda>_ t. room i n t \<and> heap t = heap s) (enqueue i a s)" if "a \<noteq> 0"
    using r q assms(1) that
    by (auto simp: enqueue_def slots_def storage_def intro!: room_upd split: if_splits)
qed

lemma tunnel_slot_done:
  assumes "keeps_lent x" "room i n s" "k < n" "r < 20"
  shows "safe True (\<lambda>(e, r') t. room i n t \<and> (e = OMX_ErrorNone \<longrightarrow> r' < 20)) (tunnel_slot x i k sz r e0 s)"
proof -
  obtain d h where d: "hcalloc (Data sz) (heap s) = (d, h)" by fastforce
  obtain e m a h1 q1 where u: "use_buffer_retry x (ports s ! i) sz d r e0 (storage (ports s ! i) ! k) h (peer s)
      = (e, m, a, h1, q1)" by (metis prod_cases5)
  let ?s = "s\<lparr>heap := h1, peer := q1\<rparr>"
  let ?Q = "\<lambda>_ t. room i n t \<and> heap t = h1"
  show ?thesis
  proof (cases "d = 0")
    case False
    have "hmem h d \<noteq> None" using d False by (auto simp: hcalloc_def split: if_splits)
    from use_buffer_retry_lent [OF assms(1) u assms(4) this]
    have l: "hmem h1 d \<noteq> None" "e = OMX_ErrorNone \<Longrightarrow> m < 20 \<and> a \<noteq> 0 \<and> get_hdr a h1 \<noteq> None" by auto
    have st: "\<not> k \<ge> length (storage (ports s ! i))" using assms(2,3) by (simp add: room_def)
    have slot: "safe True ?Q (set_slot i k a ?s)" using safe_slot(1) [of i n ?s k a] assms(2,3) by simp
    have free: "safe True (\<lambda>_. room i n) (on_heap (hfree d) t)" if "?Q () t" for t :: "'a omx_comp"
      using that l(1) False by (auto simp: on_heap_def hfree_def)
    have stamp: "safe True (\<lambda>_. room i n) (on_heap (upd_hdr a (stamp_both (ports t ! i))) t)"
      if "?Q () t" "e = OMX_ErrorNone" for t :: "'a omx_comp"
      using that l(2) by (auto simp: on_heap_def upd_hdr_def)
    have book: "safe True (\<lambda>(e, r') t. room i n t \<and> (e = OMX_ErrorNone \<longrightarrow> r' < 20))
        (obind (set_flag i k BUFFER_ALLOCATED t) (\<lambda>_ s. obind (count_buffer i s) (\<lambda>_ s. obind (enqueue i a s)
          (\<lambda>ok s. Done (if ok then e else OMX_ErrorInsufficientResources, m) s))))"
      if "room i n t" "e = OMX_ErrorNone" for t :: "'a omx_comp"
    proof (rule safe_bind [OF safe_slot(2) [OF that(1) assms(3)]], goal_cases)
      case (1 _ t)
      then have "room i n t" by simp
      from safe_slot(3) [OF this assms(3)] show ?case
      proof (rule safe_bind, goal_cases)
        case (1 _ u)
        then have "room i n u" by simp
        from safe_slot(4) [OF this assms(3)] show ?case
          using l(2) [OF that(2)] by (intro safe_bind [where Q = "\<lambda>_. room i n"]) (auto intro: safe_mono)
      qed
    qed
    have "safe True (\<lambda>(e, r') t. room i n t \<and> (e = OMX_ErrorNone \<longrightarrow> r' < 20))
       (obind (set_slot i k a ?s) (\<lambda>_ s. if e \<noteq> OMX_ErrorNone then obind (on_heap (hfree d) s) (\<lambda>_ s. Done (e, m) s)
        else obind (if r < TUNNEL_USE_BUFFER_RETRY then on_heap (upd_hdr a (stamp_both (ports s ! i))) s else Done () s) (\<lambda>_ s.
          obind (set_flag i k BUFFER_ALLOCATED s) (\<lambda>_ s. obind (count_buffer i s) (\<lambda>_ s. obind (enqueue i a s)
          (\<lambda>ok s. Done (if ok then e else OMX_ErrorInsufficientResources, m) s))))))"
    proof (rule safe_bind [OF slot], goal_cases)
      case (1 _ t)
      show ?case
      proof (cases "e = OMX_ErrorNone")
        case True
        have "safe True (\<lambda>_. room i n) (on_heap (upd_hdr a (stamp_both (ports t ! i))) t)" using stamp 1 True by simp
        from safe_bind [OF this book [OF _ True]] True assms(4) show ?thesis by simp
      next
        case False
        have "safe True (\<lambda>_. room i n) (on_heap (hfree d) t)" using free 1 by simp
        then show ?thesis using False by (auto intro: safe_bind)
      qed
    qed
    then show ?thesis unfolding tunnel_slot_def using d u False st by simp
  qed (use d assms in \<open>simp add: tunnel_slot_def\<close>)
qed

lemma tunnel_slots_done:
  assumes "keeps_lent x"
  shows "room i n s \<Longrightarrow> k + m \<le> n \<Longrightarrow> r < 20 \<Longrightarrow> safe True (\<lambda>_ t. True) (tunnel_slots x i sz m k r e s)"
proof (induction m arbitrary: k r e s)
  case (Suc m)
  have k: "k < n" "\<not> k \<ge> length (slots (ports s ! i))" using Suc.prems(1,2) by (auto simp: room_def)
  show ?case
  proof (cases "slots (ports s ! i) ! k = BUFFER_FREE")
    case True
    have rest: "safe True (\<lambda>_ t. True) (if e' \<noteq> OMX_ErrorNone then Done e' t else tunnel_slots x i sz m (k + 1) r' e' t)"
      if "room i n t \<and> (e' = OMX_ErrorNone \<longrightarrow> r' < 20)" for e' r' and t :: "'a omx_comp"
      using that Suc.IH [of t "k + 1" r' e'] Suc.prems(2) by auto
    have "safe True (\<lambda>_ t. True) (obind (tunnel_slot x i k sz r e s) (\<lambda>(e, r) s.
        if e \<noteq> OMX_ErrorNone then Done e s else tunnel_slots x i sz m (k + 1) r e s))"
    proof (rule safe_bind [OF tunnel_slot_done [OF assms Suc.prems(1) k(1) Suc.prems(3)]], goal_cases)
      case (1 er t)
      obtain e' r' where er: "er = (e', r')" by (cases er)
      have "room i n t \<and> (e' = OMX_ErrorNone \<longrightarrow> r' < 20)" using 1 by (simp add: er)
      from rest [OF this] show ?case unfolding er prod.case .
    qed
    then show ?thesis using True k(2) by simp
  next
    case False
    then show ?thesis using Suc.IH [of s "k + 1" r e] Suc.prems k(2) by simp
  qed
qed simp

lemma negotiate_room:
  assumes "room i (agreed_count x i s) s" "negotiate_buffers x i s = (Inr sz, t)"
  shows "room i (unat (actual i t)) t"
proof -
  have "room i (agreed_count x i s) t"
    using assms by (auto simp: negotiate_buffers_def Let_def upd_param_def slots_def storage_def room_def upd_port_def
        split: prod.splits if_splits)
  moreover have "unat (actual i t) \<le> agreed_count x i s"
    using assms by (auto simp: negotiate_buffers_def Let_def upd_param_def room_def upd_port_def agreed_count_def
        actual_def word_less_nat_alt split: prod.splits if_splits)
  ultimately show ?thesis by (simp add: room_def)
qed

lemma allocate_tunnel_done:
  assumes "keeps_lent x" "room i (agreed_count x i s) s"
  shows "safe True (\<lambda>_ t. True) (base_port_AllocateTunnelBuffer x i index s)"
proof -
  have p: "get_port i s = Some (ports s ! i)" using assms(2) by (simp add: room_def)
  have "safe True (\<lambda>_ t. True) (tunnel_slots x i sz (unat (nBufferCountActual (sPortParam (ports t ! i)))) 0 0 OMX_ErrorNone t)"
    if "negotiate_buffers x i s = (Inr sz, t)" for sz t
    using tunnel_slots_done [OF assms(1) negotiate_room [OF assms(2) that], of 0 "unat (actual i t)" 0]
    by (simp add: actual_def)
  then show ?thesis using p unfolding base_port_AllocateTunnelBuffer_def
    by (auto simp: Let_def split: prod.split sum.split)
qed

text \<open>
  C15 -- A supplier does not ask a component that is not ready for ever. As long as the tunnelled
  component keeps what it is lent and hands out headers when it accepts, with whatever error it
  otherwise answers, and the port's arrays have room for the number of buffers agreed on, making the
  buffers of a tunnel ends and returns: it neither waits nor goes astray, and asks that component to
  use a buffer at most once for each buffer of the port and twenty times more in all.
\<close>

theorem tunnel_allocation_ends:
  assumes "asks_once calls x" "keeps_lent x" "room i (agreed_count x i s) s"
  shows "\<exists>e t. base_port_AllocateTunnelBuffer x i index s = Done e t \<and>
    calls (peer t) \<le> calls (peer s) + 20 + unat (actual i t)"
proof -
  obtain e t where D: "base_port_AllocateTunnelBuffer x i index s = Done e t"
    using allocate_tunnel_done [OF assms(2,3), of index] by (auto simp: safe_live)
  have "calls (peer t) \<le> calls (peer s) + 20 + unat (actual i t)"
  proof (cases "\<exists>sz s1. negotiate_buffers x i s = (Inr sz, s1) \<and> actual i s1 \<noteq> 0 \<and>
      tunnel_slots x i sz (unat (actual i s1)) 0 0 OMX_ErrorNone s1 = Done e t")
    case True
    then obtain sz s1 where n: "negotiate_buffers x i s = (Inr sz, s1)"
      "tunnel_slots x i sz (unat (actual i s1)) 0 0 OMX_ErrorNone s1 = Done e t" by auto
    have "calls (peer t) + 0 \<le> calls (peer s1) + 20 + unat (actual i s1) \<and> actual i t = actual i s1"
      by (rule tunnel_slots_calls [OF assms(1) n(2)]) simp
    then show ?thesis using negotiate_calls [OF assms(1) n(1)] by simp
  next
    case False
    then have "calls (peer t) \<le> calls (peer s)"
      using D negotiate_calls [OF assms(1), of i s]
      by (auto simp: base_port_AllocateTunnelBuffer_def actual_def Let_def outcome upd_port_def
          split: if_splits prod.splits sum.splits)
    then show ?thesis by simp
  qed
  then show ?thesis using D by blast
qed


text \<open>A tunnelled component that is never ready, and counts how often it is asked.\<close>

definition busy_ext :: "nat omx_ext" where
  "busy_ext = demo_ext
     \<lparr>xGetPortDefinition := (\<lambda>_ _ _. (OMX_ErrorNone, demo_param)),
      xUseBuffer := (\<lambda>_ _ _ _ h q. (OMX_ErrorIncorrectStateTransition, None, h, q + 1))\<rparr>"

lemma tunnel_allocation_ends_witness:
  "\<exists>t. base_port_AllocateTunnelBuffer busy_ext 0 0 (demo_comp [demo_out\<lparr>nTunnelFlags := 3\<rparr>] 0) =
     Done OMX_ErrorIncorrectStateTransition t \<and> peer t = 20 \<and> peer t \<le> 20 + unat (actual 0 t)"
proof -
  let ?s = "demo_comp [demo_out\<lparr>nTunnelFlags := 3\<rparr>] 0"
  have a: "asks_once id busy_ext" by (simp add: asks_once_def busy_ext_def demo_ext_def)
  have "case base_port_AllocateTunnelBuffer busy_ext 0 0 ?s of
      Done e t \<Rightarrow> e = OMX_ErrorIncorrectStateTransition \<and> peer t = 20 | _ \<Rightarrow> False" by code_simp
  then obtain t where t: "base_port_AllocateTunnelBuffer busy_ext 0 0 ?s = Done OMX_ErrorIncorrectStateTransition t"
    "peer t = 20" by (auto dest: done_case)
  have "keeps_lent busy_ext" by (simp add: keeps_lent_def busy_ext_def demo_ext_def)
  moreover have "room 0 (agreed_count busy_ext 0 ?s) ?s"
    by (simp add: room_def agreed_count_def actual_def busy_ext_def demo_ext_def demo_comp_def demo_out_def
        demo_port_def demo_param_def slots_def storage_def)
  moreover have "peer ?s = 0" by (simp add: demo_comp_def)
  ultimately show ?thesis using tunnel_allocation_ends [OF a, where i = 0 and index = 0 and s = ?s] t by fastforce
qed


section \<open>What goes wrong\<close>

text \<open>
  Freeing the buffers of a tunnel counts the attempts over all buffers and never starts again: once
  the tunnelled component has refused twenty times, every buffer that is left is marked as free
  without being asked for, and the call succeeds.
\<close>

lemma free_tunnel_gives_up:
  "(case base_port_FreeTunnelBuffer
      (demo_ext\<lparr>xFreeBuffer := (\<lambda>_ _ _ h q. (OMX_ErrorIncorrectStateTransition, h, q + 1))\<rparr>) 0 0
      (demo_comp [demo_out\<lparr>nTunnelFlags := 3, bBufferStateAllocated := Some [1, 1],
         pInternalBufferStorage := Some [1, 2], nNumAssignedBuffers := 2\<rparr>] 0
       \<lparr>heap := demo_heap\<lparr>hmem := [1 \<mapsto> Header zero_hdr, 2 \<mapsto> Header zero_hdr]\<rparr>\<rparr>) of
      Done e t \<Rightarrow> e = OMX_ErrorNone \<and> peer t = (20 :: nat) \<and> slots (ports t ! 0) = [0, 0] \<and>
        nNumAssignedBuffers (ports t ! 0) = 0 \<and> get_hdr 1 (heap t) \<noteq> None \<and> get_hdr 2 (heap t) \<noteq> None
    | _ \<Rightarrow> False)"
  by code_simp

text \<open>
  Agreeing on the larger number of buffers raises \<open>nBufferCountActual\<close> of the supplier but not its
  arrays: the third slot of two is read.
\<close>

lemma negotiated_count_overflows:
  "(case base_port_AllocateTunnelBuffer
      (demo_ext\<lparr>xGetPortDefinition := (\<lambda>_ _ _. (OMX_ErrorNone, demo_param\<lparr>nBufferCountActual := 3\<rparr>)),
                xUseBuffer := (\<lambda>_ _ _ _ h q. case hcalloc (Header zero_hdr) h of (a, h) \<Rightarrow> (OMX_ErrorNone, Some a, h, q))\<rparr>)
      0 0 (demo_comp [demo_out\<lparr>nTunnelFlags := 3\<rparr>] ()) of
      Fault \<Rightarrow> True | _ \<Rightarrow> False)"
  by code_simp

end
