(* ===== verification/ListHead.thy ===== *)
theory ListHead
  imports Prelude
begin

text \<open>
  The intrusive doubly linked rings of \<open>libasound/include/list.h\<close>. A node is an address, a
  \<open>list_head\<close> holds the addresses of its neighbours, and a store of links maps the addresses of
  the nodes that are allocated; following or writing a node that is not is \<open>None\<close>. A ring
  consists of a head and the nodes linked into it, and \<open>ring\<close> relates the store to the list of
  these nodes; the last section shows that the operations are the list operations they are
  meant to be.
\<close>

section \<open>Operations\<close>

record list_head =
  nxt :: nat
  prv :: nat

type_synonym links = "nat \<Rightarrow> list_head option"

definition set_next :: "nat \<Rightarrow> nat \<Rightarrow> links \<Rightarrow> links option" where
  "set_next a b L = map_option (\<lambda>c. L(a \<mapsto> c\<lparr>nxt := b\<rparr>)) (L a)"

definition set_prev :: "nat \<Rightarrow> nat \<Rightarrow> links \<Rightarrow> links option" where
  "set_prev a b L = map_option (\<lambda>c. L(a \<mapsto> c\<lparr>prv := b\<rparr>)) (L a)"

definition INIT_LIST_HEAD :: "nat \<Rightarrow> links \<Rightarrow> links option" where
  "INIT_LIST_HEAD p L = Option.bind (set_next p p L) (set_prev p p)"

definition list_add_between :: "nat \<Rightarrow> nat \<Rightarrow> nat \<Rightarrow> links \<Rightarrow> links option" where
  "list_add_between new prev succ L =
     Option.bind (set_prev succ new L) (\<lambda>L.
     Option.bind (set_next new succ L) (\<lambda>L.
     Option.bind (set_prev new prev L) (\<lambda>L.
     set_next prev new L)))"

definition list_add :: "nat \<Rightarrow> nat \<Rightarrow> links \<Rightarrow> links option" where
  "list_add new head L = Option.bind (L head) (\<lambda>c. list_add_between new head (nxt c) L)"

definition list_add_tail :: "nat \<Rightarrow> nat \<Rightarrow> links \<Rightarrow> links option" where
  "list_add_tail new head L = Option.bind (L head) (\<lambda>c. list_add_between new (prv c) head L)"

definition list_del_between :: "nat \<Rightarrow> nat \<Rightarrow> links \<Rightarrow> links option" where
  "list_del_between prev succ L = Option.bind (set_prev succ prev L) (set_next prev succ)"

definition list_del :: "nat \<Rightarrow> links \<Rightarrow> links option" where
  "list_del entry L = Option.bind (L entry) (\<lambda>c. list_del_between (prv c) (nxt c) L)"

definition list_del_init :: "nat \<Rightarrow> links \<Rightarrow> links option" where
  "list_del_init entry L = Option.bind (list_del entry L) (INIT_LIST_HEAD entry)"

definition list_empty :: "nat \<Rightarrow> links \<Rightarrow> bool option" where
  "list_empty head L = map_option (\<lambda>c. nxt c = head) (L head)"

definition list_splice :: "nat \<Rightarrow> nat \<Rightarrow> links \<Rightarrow> links option" where
  "list_splice lst head L =
     Option.bind (L lst) (\<lambda>c. let first = nxt c in
       if first = lst then Some L
       else let final = prv c in
         Option.bind (L head) (\<lambda>d. let after = nxt d in
         Option.bind (set_prev first head L) (\<lambda>L.
         Option.bind (set_next head first L) (\<lambda>L.
         Option.bind (set_next final after L) (\<lambda>L.
         set_prev after final L)))))"

text \<open>The positions that \<open>list_for_each\<close> visits when its body leaves the ring alone.\<close>

partial_function (option) visited :: "nat \<Rightarrow> nat \<Rightarrow> links \<Rightarrow> nat list option" where
  "visited pos head L =
     (if pos = head then Some []
      else Option.bind (L pos) (\<lambda>c.
           Option.bind (visited (nxt c) head L) (\<lambda>ps. Some (pos # ps))))"

definition list_for_each :: "nat \<Rightarrow> links \<Rightarrow> nat list option" where
  "list_for_each head L = Option.bind (L head) (\<lambda>c. visited (nxt c) head L)"

section \<open>Rings\<close>

text \<open>
  The successor and predecessor maps of a store, and a segment: the nodes \<open>xs\<close> strictly
  between \<open>a\<close> and \<open>b\<close>, linked both ways.
\<close>

definition nx :: "links \<Rightarrow> nat \<Rightarrow> nat option" where
  "nx L a = map_option nxt (L a)"

definition pv :: "links \<Rightarrow> nat \<Rightarrow> nat option" where
  "pv L a = map_option prv (L a)"

fun lseg :: "(nat \<Rightarrow> nat option) \<Rightarrow> (nat \<Rightarrow> nat option) \<Rightarrow> nat \<Rightarrow> nat list \<Rightarrow> nat \<Rightarrow> bool" where
  "lseg N P a [] b = (N a = Some b \<and> P b = Some a)"
| "lseg N P a (x # xs) b = (N a = Some x \<and> P x = Some a \<and> lseg N P x xs b)"

definition ring :: "links \<Rightarrow> nat \<Rightarrow> nat list \<Rightarrow> bool" where
  "ring L h xs = (distinct (h # xs) \<and> lseg (nx L) (pv L) h xs h)"

lemma lseg_append [simp]: "lseg N P a (xs @ y # ys) b = (lseg N P a xs y \<and> lseg N P y ys b)"
  by (induction xs arbitrary: a) auto

lemma lseg_upd_next [simp]: "p \<noteq> a \<Longrightarrow> p \<notin> set xs \<Longrightarrow> lseg (N(p := v)) P a xs b = lseg N P a xs b"
  by (induction xs arbitrary: a) auto

lemma lseg_upd_prev [simp]: "p \<noteq> b \<Longrightarrow> p \<notin> set xs \<Longrightarrow> lseg N (P(p := v)) a xs b = lseg N P a xs b"
  by (induction xs arbitrary: a) auto

lemma lseg_cong:
  "(\<And>p. p \<in> insert a (set xs) \<Longrightarrow> N' p = N p) \<Longrightarrow> (\<And>p. p \<in> insert b (set xs) \<Longrightarrow> P' p = P p) \<Longrightarrow>
   lseg N' P' a xs b = lseg N P a xs b"
  by (induction xs arbitrary: a) auto

lemma lseg_unique:
  "lseg N P a xs b \<Longrightarrow> lseg N P a ys b \<Longrightarrow> b \<notin> set xs \<Longrightarrow> b \<notin> set ys \<Longrightarrow> xs = ys"
proof (induction xs arbitrary: a ys)
  case Nil
  then show ?case by (cases ys) auto
next
  case (Cons x xs)
  then show ?case by (cases ys) auto
qed

lemma ring_unique: "ring L h xs \<Longrightarrow> ring L h ys \<Longrightarrow> xs = ys"
  unfolding ring_def using lseg_unique by (metis distinct.simps(2))

text \<open>A ring depends on the links of its own nodes only, and these are allocated.\<close>

lemma ring_cong: "(\<And>p. p \<in> set (h # xs) \<Longrightarrow> L' p = L p) \<Longrightarrow> ring L' h xs = ring L h xs"
  unfolding ring_def nx_def pv_def by (subst lseg_cong [where N = "\<lambda>a. map_option nxt (L a)" and
    P = "\<lambda>a. map_option prv (L a)"]) auto

lemma lseg_alloc: "lseg N P a xs b \<Longrightarrow> p \<in> insert a (set xs) \<Longrightarrow> N p \<noteq> None"
  by (induction xs arbitrary: a) auto

lemma ring_alloc: "ring L h xs \<Longrightarrow> p \<in> set (h # xs) \<Longrightarrow> p \<in> dom L"
  unfolding ring_def using lseg_alloc [of "nx L" "pv L" h xs h p] by (auto simp: nx_def)

lemma ring_neighbours:
  assumes "ring L h (xs @ ys)"
  shows "nx L (last (h # xs)) = Some (hd (ys @ [h]))" "pv L (hd (ys @ [h])) = Some (last (h # xs))"
  using assms by (cases xs rule: rev_cases; cases ys; auto simp: ring_def)+

section \<open>The operations are list operations\<close>

lemma set_next_ok:
  "a \<in> dom L \<Longrightarrow> \<exists>L'. set_next a b L = Some L' \<and> nx L' = (nx L)(a \<mapsto> b) \<and> pv L' = pv L \<and>
     dom L' = dom L \<and> (\<forall>p. p \<noteq> a \<longrightarrow> L' p = L p)"
  by (rule exI [of _ "L(a \<mapsto> (the (L a))\<lparr>nxt := b\<rparr>)"]) (auto simp: set_next_def nx_def pv_def fun_eq_iff)

lemma set_prev_ok:
  "a \<in> dom L \<Longrightarrow> \<exists>L'. set_prev a b L = Some L' \<and> pv L' = (pv L)(a \<mapsto> b) \<and> nx L' = nx L \<and>
     dom L' = dom L \<and> (\<forall>p. p \<noteq> a \<longrightarrow> L' p = L p)"
  by (rule exI [of _ "L(a \<mapsto> (the (L a))\<lparr>prv := b\<rparr>)"]) (auto simp: set_prev_def nx_def pv_def fun_eq_iff)

lemma list_add_between_ok:
  assumes "new \<in> dom L" "prev \<in> dom L" "succ \<in> dom L"
  shows "\<exists>L'. list_add_between new prev succ L = Some L' \<and>
     nx L' = (nx L)(new \<mapsto> succ, prev \<mapsto> new) \<and> pv L' = (pv L)(succ \<mapsto> new, new \<mapsto> prev) \<and>
     dom L' = dom L \<and> (\<forall>p. p \<notin> {new, prev, succ} \<longrightarrow> L' p = L p)"
proof -
  obtain L1 where 1: "set_prev succ new L = Some L1" "pv L1 = (pv L)(succ \<mapsto> new)" "nx L1 = nx L"
    "dom L1 = dom L" "\<forall>p. p \<noteq> succ \<longrightarrow> L1 p = L p" using set_prev_ok assms by metis
  obtain L2 where 2: "set_next new succ L1 = Some L2" "nx L2 = (nx L1)(new \<mapsto> succ)" "pv L2 = pv L1"
    "dom L2 = dom L" "\<forall>p. p \<noteq> new \<longrightarrow> L2 p = L1 p" using set_next_ok [of new L1] assms 1(4) by metis
  obtain L3 where 3: "set_prev new prev L2 = Some L3" "pv L3 = (pv L2)(new \<mapsto> prev)" "nx L3 = nx L2"
    "dom L3 = dom L" "\<forall>p. p \<noteq> new \<longrightarrow> L3 p = L2 p" using set_prev_ok [of new L2] assms 2(4) by metis
  obtain L4 where 4: "set_next prev new L3 = Some L4" "nx L4 = (nx L3)(prev \<mapsto> new)" "pv L4 = pv L3"
    "dom L4 = dom L" "\<forall>p. p \<noteq> prev \<longrightarrow> L4 p = L3 p" using set_next_ok [of prev L3] assms 3(4) by metis
  show ?thesis using 1 2 3 4 by (intro exI [of _ L4]) (simp add: list_add_between_def)
qed

lemma ring_insert:
  assumes "ring L h (xs @ ys)" "new \<in> dom L" "new \<notin> set (h # xs @ ys)"
  shows "\<exists>L'. list_add_between new (last (h # xs)) (hd (ys @ [h])) L = Some L' \<and>
     ring L' h (xs @ new # ys) \<and> dom L' = dom L \<and>
     (\<forall>p. p \<notin> set (h # xs @ new # ys) \<longrightarrow> L' p = L p)"
proof -
  let ?p = "last (h # xs)" and ?n = "hd (ys @ [h])"
  have mem: "?p \<in> set (h # xs @ ys)" "?n \<in> set (h # xs @ ys)" by (cases ys; auto)+
  then have "?p \<in> dom L" "?n \<in> dom L" using ring_alloc [OF assms(1)] by blast+
  then obtain L' where L': "list_add_between new ?p ?n L = Some L'"
    "nx L' = (nx L)(new \<mapsto> ?n, ?p \<mapsto> new)" "pv L' = (pv L)(?n \<mapsto> new, new \<mapsto> ?p)" "dom L' = dom L"
    "\<forall>p. p \<notin> {new, ?p, ?n} \<longrightarrow> L' p = L p"
    using list_add_between_ok [OF assms(2)] by blast
  have "ring L' h (xs @ new # ys)"
    using assms(1,3) unfolding ring_def L'(2,3)
    by (cases xs rule: rev_cases; cases ys) auto
  then show ?thesis using L' mem by (intro exI [of _ L']) auto
qed

lemma list_add_after:
  assumes "ring L h (xs @ ys)" "new \<in> dom L" "new \<notin> set (h # xs @ ys)" "p = last (h # xs)"
  shows "\<exists>L'. list_add new p L = Some L' \<and> ring L' h (xs @ new # ys) \<and> dom L' = dom L \<and>
     (\<forall>q. q \<notin> set (h # xs @ new # ys) \<longrightarrow> L' q = L q)"
  using ring_insert [OF assms(1-3)] ring_neighbours(1) [OF assms(1)] assms(4)
  by (auto simp: list_add_def nx_def)

lemma list_add_before:
  assumes "ring L h (xs @ ys)" "new \<in> dom L" "new \<notin> set (h # xs @ ys)" "p = hd (ys @ [h])"
  shows "\<exists>L'. list_add_tail new p L = Some L' \<and> ring L' h (xs @ new # ys) \<and> dom L' = dom L \<and>
     (\<forall>q. q \<notin> set (h # xs @ new # ys) \<longrightarrow> L' q = L q)"
  using ring_insert [OF assms(1-3)] ring_neighbours(2) [OF assms(1)] assms(4)
  by (auto simp: list_add_tail_def pv_def)

lemma list_add_front:
  "ring L h xs \<Longrightarrow> new \<in> dom L \<Longrightarrow> new \<notin> set (h # xs) \<Longrightarrow>
   \<exists>L'. list_add new h L = Some L' \<and> ring L' h (new # xs) \<and> dom L' = dom L \<and>
     (\<forall>q. q \<notin> set (h # new # xs) \<longrightarrow> L' q = L q)"
  using list_add_after [of L h "[]" xs new h] by simp

lemma list_add_back:
  "ring L h xs \<Longrightarrow> new \<in> dom L \<Longrightarrow> new \<notin> set (h # xs) \<Longrightarrow>
   \<exists>L'. list_add_tail new h L = Some L' \<and> ring L' h (xs @ [new]) \<and> dom L' = dom L \<and>
     (\<forall>q. q \<notin> set (h # xs @ [new]) \<longrightarrow> L' q = L q)"
  using list_add_before [of L h xs "[]" new h] by simp

lemma list_del_between_ok:
  assumes "prev \<in> dom L" "succ \<in> dom L"
  shows "\<exists>L'. list_del_between prev succ L = Some L' \<and>
     nx L' = (nx L)(prev \<mapsto> succ) \<and> pv L' = (pv L)(succ \<mapsto> prev) \<and>
     dom L' = dom L \<and> (\<forall>p. p \<notin> {prev, succ} \<longrightarrow> L' p = L p)"
proof -
  obtain L1 where 1: "set_prev succ prev L = Some L1" "pv L1 = (pv L)(succ \<mapsto> prev)" "nx L1 = nx L"
    "dom L1 = dom L" "\<forall>p. p \<noteq> succ \<longrightarrow> L1 p = L p" using set_prev_ok assms by metis
  obtain L2 where 2: "set_next prev succ L1 = Some L2" "nx L2 = (nx L1)(prev \<mapsto> succ)" "pv L2 = pv L1"
    "dom L2 = dom L" "\<forall>p. p \<noteq> prev \<longrightarrow> L2 p = L1 p" using set_next_ok [of prev L1] assms 1(4) by metis
  show ?thesis using 1 2 by (intro exI [of _ L2]) (simp add: list_del_between_def)
qed

lemma list_del_mid:
  assumes "ring L h (xs @ x # ys)"
  shows "\<exists>L'. list_del x L = Some L' \<and> ring L' h (xs @ ys) \<and> dom L' = dom L \<and>
     (\<forall>p. p \<notin> set (h # xs @ ys) \<longrightarrow> L' p = L p)"
proof -
  let ?p = "last (h # xs)" and ?n = "hd (ys @ [h])"
  have mem: "?p \<in> set (h # xs @ ys)" "?n \<in> set (h # xs @ ys)" by (cases ys; auto)+
  then have "?p \<in> dom L" "?n \<in> dom L" using ring_alloc [OF assms] by auto
  then obtain L' where L': "list_del_between ?p ?n L = Some L'" "nx L' = (nx L)(?p \<mapsto> ?n)"
    "pv L' = (pv L)(?n \<mapsto> ?p)" "dom L' = dom L" "\<forall>p. p \<notin> {?p, ?n} \<longrightarrow> L' p = L p"
    using list_del_between_ok by blast
  have nb: "nx L x = Some ?n" "pv L x = Some ?p"
    using ring_neighbours(1) [of L h "xs @ [x]" ys] ring_neighbours(2) [of L h xs "x # ys"] assms by simp_all
  have "ring L' h (xs @ ys)"
    using assms unfolding ring_def L'(2,3) by (cases xs rule: rev_cases; cases ys) auto
  moreover have "\<forall>p. p \<notin> set (h # xs @ ys) \<longrightarrow> L' p = L p"
    using L'(5) mem by (metis empty_iff insert_iff)
  moreover have "list_del x L = Some L'"
    using nb L'(1) by (auto simp: list_del_def nx_def pv_def simp del: last.simps)
  ultimately show ?thesis using L'(4) by blast
qed

lemma list_del_member:
  assumes "ring L h xs" "x \<in> set xs"
  shows "\<exists>L'. list_del x L = Some L' \<and> ring L' h (remove1 x xs) \<and> dom L' = dom L \<and>
     (\<forall>p. p \<notin> set (h # remove1 x xs) \<longrightarrow> L' p = L p)"
proof -
  obtain ys zs where "xs = ys @ x # zs" "x \<notin> set ys" using assms(2) split_list_first by metis
  then show ?thesis using list_del_mid [of L h ys x zs] assms(1) by (simp add: remove1_append)
qed

lemma INIT_LIST_HEAD_ok:
  assumes "h \<in> dom L"
  shows "\<exists>L'. INIT_LIST_HEAD h L = Some L' \<and> ring L' h [] \<and> dom L' = dom L \<and> (\<forall>p. p \<noteq> h \<longrightarrow> L' p = L p)"
proof -
  obtain L1 where 1: "set_next h h L = Some L1" "nx L1 = (nx L)(h \<mapsto> h)" "pv L1 = pv L"
    "dom L1 = dom L" "\<forall>p. p \<noteq> h \<longrightarrow> L1 p = L p" using set_next_ok assms by metis
  obtain L2 where 2: "set_prev h h L1 = Some L2" "pv L2 = (pv L1)(h \<mapsto> h)" "nx L2 = nx L1"
    "dom L2 = dom L" "\<forall>p. p \<noteq> h \<longrightarrow> L2 p = L1 p" using set_prev_ok [of h L1] assms 1(4) by metis
  show ?thesis using 1 2 by (intro exI [of _ L2]) (simp add: INIT_LIST_HEAD_def ring_def)
qed

lemma list_empty_ring: "ring L h xs \<Longrightarrow> list_empty h L = Some (xs = [])"
  using ring_neighbours(1) [of L h "[]" xs] by (cases xs) (auto simp: list_empty_def nx_def ring_def)

lemma visited_seg:
  "lseg (nx L) (pv L) a xs h \<Longrightarrow> h \<notin> set xs \<Longrightarrow> nx L a = Some p \<Longrightarrow> visited p h L = Some xs"
proof (induction xs arbitrary: a p)
  case Nil
  then show ?case by (simp add: visited.simps)
next
  case (Cons x xs)
  obtain c where c: "L x = Some c" using lseg_alloc [OF Cons.prems(1), of x] by (auto simp: nx_def)
  have "visited (nxt c) h L = Some xs"
    using Cons.IH [of x "nxt c"] Cons.prems c by (simp add: nx_def)
  then show ?case using Cons.prems c by (subst visited.simps) simp
qed

lemma list_for_each_ring: "ring L h xs \<Longrightarrow> list_for_each h L = Some xs"
  using visited_seg [of L h xs h] ring_neighbours(1) [of L h "[]" xs] ring_alloc [of L h xs h]
  by (auto simp: list_for_each_def ring_def nx_def)


section \<open>A script of operations\<close>

text \<open>
  What the callers do to a ring: each operation on the store, what it means for the list of
  nodes, and when it may be called. Inserting next to a node takes any node of the ring, the
  head included.
\<close>

datatype ring_op =
    Reset | Push nat | Append nat | After nat nat | Before nat nat | Remove nat

fun ring_step :: "nat \<Rightarrow> ring_op \<Rightarrow> links \<Rightarrow> links option" where
  "ring_step h Reset L = INIT_LIST_HEAD h L"
| "ring_step h (Push n) L = list_add n h L"
| "ring_step h (Append n) L = list_add_tail n h L"
| "ring_step h (After p n) L = list_add n p L"
| "ring_step h (Before p n) L = list_add_tail n p L"
| "ring_step h (Remove n) L = list_del n L"

fun ring_run :: "nat \<Rightarrow> ring_op list \<Rightarrow> links \<Rightarrow> links option" where
  "ring_run h [] L = Some L"
| "ring_run h (p # ps) L = Option.bind (ring_step h p L) (ring_run h ps)"

definition insert_after :: "nat \<Rightarrow> nat \<Rightarrow> nat list \<Rightarrow> nat list" where
  "insert_after p n xs = takeWhile ((\<noteq>) p) xs @ p # n # tl (dropWhile ((\<noteq>) p) xs)"

definition insert_before :: "nat \<Rightarrow> nat \<Rightarrow> nat list \<Rightarrow> nat list" where
  "insert_before p n xs = takeWhile ((\<noteq>) p) xs @ n # dropWhile ((\<noteq>) p) xs"

fun seq_step :: "ring_op \<Rightarrow> nat list \<Rightarrow> nat list" where
  "seq_step Reset xs = []"
| "seq_step (Push n) xs = n # xs"
| "seq_step (Append n) xs = xs @ [n]"
| "seq_step (After p n) xs = insert_after p n xs"
| "seq_step (Before p n) xs = insert_before p n xs"
| "seq_step (Remove n) xs = remove1 n xs"

fun allowed :: "nat \<Rightarrow> nat set \<Rightarrow> ring_op \<Rightarrow> nat list \<Rightarrow> bool" where
  "allowed h A Reset xs = True"
| "allowed h A (Push n) xs = (n \<in> A \<and> n \<notin> set (h # xs))"
| "allowed h A (Append n) xs = (n \<in> A \<and> n \<notin> set (h # xs))"
| "allowed h A (After p n) xs = (n \<in> A \<and> n \<notin> set (h # xs) \<and> p \<in> set xs)"
| "allowed h A (Before p n) xs = (n \<in> A \<and> n \<notin> set (h # xs) \<and> p \<in> set xs)"
| "allowed h A (Remove n) xs = (n \<in> set xs)"

fun all_allowed :: "nat \<Rightarrow> nat set \<Rightarrow> ring_op list \<Rightarrow> nat list \<Rightarrow> bool" where
  "all_allowed h A [] xs = True"
| "all_allowed h A (p # ps) xs = (allowed h A p xs \<and> all_allowed h A ps (seq_step p xs))"

fun op_nodes :: "ring_op \<Rightarrow> nat set" where
  "op_nodes (Push n) = {n}"
| "op_nodes (Append n) = {n}"
| "op_nodes (After p n) = {n}"
| "op_nodes (Before p n) = {n}"
| "op_nodes p = {}"

lemma insert_at:
  assumes "p \<in> set xs"
  obtains ys zs where "xs = ys @ p # zs" "insert_after p n xs = (ys @ [p]) @ n # zs"
    "insert_before p n xs = ys @ n # p # zs"
proof -
  obtain ys zs where s: "xs = ys @ p # zs" "p \<notin> set ys" using assms split_list_first by metis
  have "takeWhile ((\<noteq>) p) xs = ys" "dropWhile ((\<noteq>) p) xs = p # zs"
    using s by (simp_all add: takeWhile_tail takeWhile_append dropWhile_append)
  then show thesis using that [OF s(1)] by (simp add: insert_after_def insert_before_def)
qed

lemma set_insert_at [simp]:
  assumes "p \<in> set xs"
  shows "set (insert_after p n xs) = insert n (set xs)" "set (insert_before p n xs) = insert n (set xs)"
  by (rule insert_at [OF assms, of n]; auto)+

lemma ring_step_ok:
  assumes "ring L h xs" "allowed h (dom L) p xs"
  shows "\<exists>L'. ring_step h p L = Some L' \<and> ring L' h (seq_step p xs) \<and> dom L' = dom L \<and>
     (\<forall>q. q \<notin> set (h # xs) \<union> op_nodes p \<longrightarrow> L' q = L q)"
proof (cases p)
  case Reset
  then show ?thesis using INIT_LIST_HEAD_ok [of h L] ring_alloc [OF assms(1)] by auto
next
  case (Push n)
  then show ?thesis using list_add_front [OF assms(1), of n] assms(2) by auto
next
  case (Append n)
  then show ?thesis using list_add_back [OF assms(1), of n] assms(2) by auto
next
  case (After q n)
  then have q: "q \<in> set xs" using assms(2) by simp
  obtain ys zs where "xs = ys @ q # zs" "insert_after q n xs = (ys @ [q]) @ n # zs"
    using insert_at [OF q, of n] by blast
  then show ?thesis using list_add_after [of L h "ys @ [q]" zs n q] assms After by auto
next
  case (Before q n)
  then have q: "q \<in> set xs" using assms(2) by simp
  obtain ys zs where "xs = ys @ q # zs" "insert_before q n xs = ys @ n # q # zs"
    using insert_at [OF q, of n] by blast
  then show ?thesis using list_add_before [of L h ys "q # zs" n q] assms Before by auto
next
  case (Remove n)
  then obtain L' where "list_del n L = Some L'" "ring L' h (remove1 n xs)" "dom L' = dom L"
    "\<forall>q. q \<notin> set (h # remove1 n xs) \<longrightarrow> L' q = L q" using list_del_member [OF assms(1), of n] assms(2) by auto
  then show ?thesis using Remove notin_set_remove1 [of _ xs n] by auto
qed

text \<open>
  C12 -- The rings of list.h are lists: whatever sequence of insertions and removals the callers
  make, no link of an unallocated node is followed, a traversal visits exactly the nodes the
  list operations leave, in their order, and a node outside the ring keeps its links.
\<close>

theorem ring_is_sequence:
  assumes "ring L h xs" "all_allowed h (dom L) ps xs"
  shows "\<exists>L'. ring_run h ps L = Some L' \<and> ring L' h (fold seq_step ps xs) \<and>
     list_for_each h L' = Some (fold seq_step ps xs) \<and>
     list_empty h L' = Some (fold seq_step ps xs = []) \<and>
     (\<forall>q. q \<in> set (h # xs) \<union> \<Union> (op_nodes ` set ps) \<or> L' q = L q)"
proof -
  have "\<exists>L'. ring_run h ps L = Some L' \<and> ring L' h (fold seq_step ps xs) \<and>
     (\<forall>q. q \<notin> set (h # xs) \<union> \<Union> (op_nodes ` set ps) \<longrightarrow> L' q = L q)"
    using assms
  proof (induction ps arbitrary: L xs)
    case (Cons p ps)
    obtain L1 where 1: "ring_step h p L = Some L1" "ring L1 h (seq_step p xs)" "dom L1 = dom L"
      "\<forall>q. q \<notin> set (h # xs) \<union> op_nodes p \<longrightarrow> L1 q = L q"
      using ring_step_ok [OF Cons.prems(1), of p] Cons.prems(2) by auto
    obtain L2 where 2: "ring_run h ps L1 = Some L2" "ring L2 h (fold seq_step ps (seq_step p xs))"
      "\<forall>q. q \<notin> set (h # seq_step p xs) \<union> \<Union> (op_nodes ` set ps) \<longrightarrow> L2 q = L1 q"
      using Cons.IH [OF 1(2)] Cons.prems(2) 1(3) by auto
    have sub: "set (seq_step p xs) \<subseteq> set xs \<union> op_nodes p"
      using Cons.prems(2) by (cases p) (auto dest: set_remove1_subset [THEN subsetD])
    have "L2 q = L q" if q: "q \<notin> set (h # xs) \<union> \<Union> (op_nodes ` set (p # ps))" for q
    proof -
      have "q \<notin> set (h # seq_step p xs) \<union> \<Union> (op_nodes ` set ps)" "q \<notin> set (h # xs) \<union> op_nodes p"
        using q sub by auto
      then show ?thesis using 1(4) 2(3) by metis
    qed
    moreover have "ring_run h (p # ps) L = Some L2" using 1(1) 2(1) by simp
    ultimately show ?case using 2(2) by (intro exI [of _ L2]) simp
  qed auto
  then obtain L' where L': "ring_run h ps L = Some L'" "ring L' h (fold seq_step ps xs)"
    "\<forall>q. q \<notin> set (h # xs) \<union> \<Union> (op_nodes ` set ps) \<longrightarrow> L' q = L q" by blast
  show ?thesis
    by (intro exI [of _ L'] conjI L'(1,2) list_for_each_ring list_empty_ring) (use L'(3) in metis)
qed

definition ring_demo :: links where
  "ring_demo = (\<lambda>p. None)(1 \<mapsto> \<lparr>nxt = 1, prv = 1\<rparr>, 2 \<mapsto> \<lparr>nxt = 0, prv = 0\<rparr>,
     3 \<mapsto> \<lparr>nxt = 0, prv = 0\<rparr>, 4 \<mapsto> \<lparr>nxt = 0, prv = 0\<rparr>)"

theorem ring_is_sequence_witness:
  "\<exists>L'. ring_run 1 [Append 2, Push 3, Before 2 4, Remove 3] ring_demo = Some L' \<and>
     list_for_each 1 L' = Some [4, 2]"
proof -
  have "ring ring_demo 1 []" by (simp add: ring_def ring_demo_def nx_def pv_def)
  moreover have "all_allowed 1 (dom ring_demo) [Append 2, Push 3, Before 2 4, Remove 3] []"
    by (simp add: ring_demo_def insert_before_def)
  ultimately show ?thesis
    using ring_is_sequence [of ring_demo 1 "[]" "[Append 2, Push 3, Before 2 4, Remove 3]"]
    by (auto simp: insert_before_def)
qed

end
