(* ===== verification/SortedArray.thy ===== *)
theory SortedArray
  imports Prelude "HOL-Library.Multiset"
begin

text \<open>
  The arrays of pointers that \<open>libasound/src/control/hcontrol.c\<close> and
  \<open>libasound/src/mixer/mixer.c\<close> keep sorted: the binary search both files contain, the
  \<open>memmove\<close> and \<open>qsort\<close> they call, and the contract of a comparison function. The locale
  \<open>three_way\<close> has what the two files need of a comparison and proves once what search,
  insertion, removal and sorting do to a sorted array; the comparison functions of the two
  files provide it in their theories.
\<close>

section \<open>Arrays\<close>

definition array_get :: "'a list \<Rightarrow> nat \<Rightarrow> 'a option" where
  "array_get xs i = (if i < length xs then Some (xs ! i) else None)"

definition array_set :: "'a list \<Rightarrow> nat \<Rightarrow> 'a \<Rightarrow> 'a list option" where
  "array_set xs i x = (if i < length xs then Some (xs[i := x]) else None)"

text \<open>\<open>memmove(xs + dst, xs + src, n * sizeof(*xs))\<close>; outside the array it is \<open>None\<close>.\<close>

definition memmove :: "nat \<Rightarrow> nat \<Rightarrow> nat \<Rightarrow> 'a list \<Rightarrow> 'a list option" where
  "memmove dst src n xs =
     (if dst + n \<le> length xs \<and> src + n \<le> length xs
      then Some (take dst xs @ take n (drop src xs) @ drop (dst + n) xs) else None)"

text \<open>
  The loop of the binary search: \<open>f i\<close> compares the key with element \<open>i\<close>, and is \<open>None\<close> when
  that element cannot be read. The result is the index probed last and its comparison.
\<close>

function bisect :: "(nat \<Rightarrow> int option) \<Rightarrow> nat \<Rightarrow> nat \<Rightarrow> int \<Rightarrow> int \<Rightarrow> (int \<times> int) option" where
  "bisect f l u idx c =
     (if l < u then
        Option.bind (f ((l + u) div 2)) (\<lambda>d.
          if d < 0 then bisect f l ((l + u) div 2) (int ((l + u) div 2)) d
          else if 0 < d then bisect f ((l + u) div 2 + 1) u (int ((l + u) div 2)) d
          else Some (int ((l + u) div 2), d))
      else Some (idx, c))"
  by pat_completeness auto
termination by (relation "measure (\<lambda>(f, l, u, idx, c). u - l)") auto

declare bisect.simps [simp del]

lemma bisect_left:
  "l < u \<Longrightarrow> f ((l + u) div 2) = Some d \<Longrightarrow> d < 0 \<Longrightarrow>
   bisect f l u idx c = bisect f l ((l + u) div 2) (int ((l + u) div 2)) d"
  by (subst bisect.simps) simp

lemma bisect_right:
  "l < u \<Longrightarrow> f ((l + u) div 2) = Some d \<Longrightarrow> 0 < d \<Longrightarrow>
   bisect f l u idx c = bisect f ((l + u) div 2 + 1) u (int ((l + u) div 2)) d"
  by (subst bisect.simps) simp

lemma bisect_end [simp]: "bisect f l l idx c = Some (idx, c)"
  by (simp add: bisect.simps)

text \<open>
  \<open>qsort\<close> with a comparison of elements. The C library leaves the order of equal elements
  open; the arrays sorted here have none (\<open>sorted_unique\<close>).
\<close>

fun qinsert :: "('a \<Rightarrow> 'a \<Rightarrow> int) \<Rightarrow> 'a \<Rightarrow> 'a list \<Rightarrow> 'a list" where
  "qinsert cmp x [] = [x]"
| "qinsert cmp x (y # ys) = (if cmp x y \<le> 0 then x # y # ys else y # qinsert cmp x ys)"

definition qsort :: "('a \<Rightarrow> 'a \<Rightarrow> int) \<Rightarrow> 'a list \<Rightarrow> 'a list" where
  "qsort cmp xs = foldr (qinsert cmp) xs []"

lemma set_qinsert [simp]: "set (qinsert cmp x xs) = insert x (set xs)"
  by (induction xs) auto

lemma mset_qinsert [simp]: "mset (qinsert cmp x xs) = add_mset x (mset xs)"
  by (induction xs) auto

lemma mset_qsort [simp]: "mset (qsort cmp xs) = mset xs"
  by (induction xs) (auto simp: qsort_def)

lemma set_qsort [simp]: "set (qsort cmp xs) = set xs"
  by (rule mset_eq_setD) simp

lemma length_qsort [simp]: "length (qsort cmp xs) = length xs"
  by (rule mset_eq_length) simp

lemma distinct_qsort [simp]: "distinct (qsort cmp xs) = distinct xs"
  using mset_qsort mset_eq_imp_distinct_iff by blast

section \<open>Making room and closing the gap\<close>

lemma memmove_open:
  "\<exists>y. memmove (length as + 1) (length as) (length bs) (as @ bs @ r # rs) = Some (as @ y # bs @ rs)"
  by (cases bs) (auto simp: memmove_def)

lemma insert_open:
  assumes "i \<le> length xs" "rest \<noteq> []"
  shows "Option.bind (memmove (i + 1) i (length xs - i) (xs @ rest)) (\<lambda>ys. array_set ys i x) =
    Some ((take i xs @ x # drop i xs) @ tl rest)"
proof -
  obtain r rs where r: "rest = r # rs" using assms(2) by (cases rest) auto
  obtain y where "memmove (i + 1) i (length xs - i) (xs @ rest) = Some (take i xs @ y # drop i xs @ rs)"
    using memmove_open [of "take i xs" "drop i xs" r rs] assms(1) r by (auto simp flip: append_assoc)
  then show ?thesis using assms(1) r by (simp add: array_set_def list_update_append)
qed

lemma memmove_close:
  assumes "length xs = n" "i < n" "n \<le> length (xs @ rest)"
  shows "\<exists>y. memmove i (i + 1) (n - 1 - i) (xs @ rest) = Some ((take i xs @ drop (i + 1) xs) @ y # rest)"
proof -
  have "drop (i + (n - 1 - i)) (xs @ rest) = last xs # rest"
    using assms by (cases xs rule: rev_cases) auto
  then show ?thesis using assms by (auto simp: memmove_def)
qed

lemma remove_at:
  assumes "distinct xs" "i < length xs"
  shows "take i xs @ drop (i + 1) xs = remove1 (xs ! i) xs"
proof -
  have "xs ! i \<notin> set (take i xs)" using assms by (auto simp: in_set_conv_nth nth_eq_iff_index_eq)
  then show ?thesis using id_take_nth_drop [OF assms(2)] by (metis Suc_eq_plus1 remove1_append remove1.simps(2))
qed

section \<open>The contract of a comparison function\<close>

locale three_way =
  fixes cmp :: "'a \<Rightarrow> 'a \<Rightarrow> int" and D :: "'a set"
  assumes swap: "x \<in> D \<Longrightarrow> y \<in> D \<Longrightarrow> cmp x y < 0 \<longleftrightarrow> 0 < cmp y x"
    and trans: "x \<in> D \<Longrightarrow> y \<in> D \<Longrightarrow> z \<in> D \<Longrightarrow> cmp x y \<le> 0 \<Longrightarrow> cmp y z \<le> 0 \<Longrightarrow> cmp x z \<le> 0"
begin

lemma refl: "x \<in> D \<Longrightarrow> cmp x x = 0"
  using swap [of x x] by linarith

lemma zero_sym: "x \<in> D \<Longrightarrow> y \<in> D \<Longrightarrow> cmp x y = 0 \<longleftrightarrow> cmp y x = 0"
  using swap [of x y] swap [of y x] by linarith

lemma less_trans: "x \<in> D \<Longrightarrow> y \<in> D \<Longrightarrow> z \<in> D \<Longrightarrow> cmp x y < 0 \<Longrightarrow> cmp y z \<le> 0 \<Longrightarrow> cmp x z < 0"
  using trans [of x y z] trans [of y z x] swap [of x y] swap [of z x] swap [of x z] by linarith

lemma less_trans': "x \<in> D \<Longrightarrow> y \<in> D \<Longrightarrow> z \<in> D \<Longrightarrow> cmp x y \<le> 0 \<Longrightarrow> cmp y z < 0 \<Longrightarrow> cmp x z < 0"
  using trans [of x y z] trans [of z x y] swap [of y z] swap [of z x] swap [of x z] by linarith

lemma zero_cong: "x \<in> D \<Longrightarrow> y \<in> D \<Longrightarrow> z \<in> D \<Longrightarrow> cmp x y = 0 \<Longrightarrow> (cmp x z < 0 \<longleftrightarrow> cmp y z < 0)"
  using less_trans' [of y x z] less_trans' [of x y z] zero_sym [of x y] by auto

definition ordered :: "'a list \<Rightarrow> bool" where
  "ordered xs = (set xs \<subseteq> D \<and> sorted_wrt (\<lambda>x y. cmp x y < 0) xs)"

lemma ordered_Nil [simp]: "ordered []"
  by (simp add: ordered_def)

lemma ordered_append: "ordered (xs @ ys) \<longleftrightarrow> ordered xs \<and> ordered ys \<and> (\<forall>x \<in> set xs. \<forall>y \<in> set ys. cmp x y < 0)"
  by (auto simp: ordered_def sorted_wrt_append)

lemma ordered_Cons: "ordered (x # xs) \<longleftrightarrow> x \<in> D \<and> ordered xs \<and> (\<forall>y \<in> set xs. cmp x y < 0)"
  by (auto simp: ordered_def)

lemma ordered_nth_less: "ordered xs \<Longrightarrow> i < j \<Longrightarrow> j < length xs \<Longrightarrow> cmp (xs ! i) (xs ! j) < 0"
  by (simp add: ordered_def sorted_wrt_iff_nth_less)

lemma ordered_mem: "ordered xs \<Longrightarrow> i < length xs \<Longrightarrow> xs ! i \<in> D"
  by (auto simp: ordered_def)

lemma ordered_distinct: "ordered xs \<Longrightarrow> distinct xs"
proof (induction xs)
  case (Cons x xs)
  then show ?case using refl [of x] by (auto simp: ordered_Cons)
qed simp

lemma ordered_remove1: "ordered xs \<Longrightarrow> ordered (remove1 x xs)"
  by (induction xs) (auto simp: ordered_Cons dest: set_remove1_subset [THEN subsetD])

text \<open>Two sorted arrays of the same elements are equal.\<close>

lemma sorted_unique: "ordered xs \<Longrightarrow> ordered ys \<Longrightarrow> set xs = set ys \<Longrightarrow> xs = ys"
proof (induction xs arbitrary: ys)
  case (Cons x xs)
  obtain y zs where y: "ys = y # zs" using Cons.prems(3) by (cases ys) auto
  have "x = y"
  proof (rule ccontr)
    assume "x \<noteq> y"
    then have "x \<in> set zs" "y \<in> set xs" using Cons.prems(3) y by auto
    then show False using Cons.prems(1,2) y swap [of x y] by (auto simp: ordered_Cons ordered_def)
  qed
  then have "set xs = set zs" using Cons.prems y ordered_distinct by fastforce
  then show ?case using Cons y \<open>x = y\<close> by (auto simp: ordered_Cons)
qed simp

text \<open>
  Searching. Below the lower bound every element is less than the key, from the upper bound
  on greater; so an unequal last probe is next to the place of the key.
\<close>


lemma bisect_found:
  assumes "ordered xs" "k \<in> D" "\<And>i. i < length xs \<Longrightarrow> f i = Some (cmp k (xs ! i))"
    and "u \<le> length xs" "\<forall>j < l. 0 < cmp k (xs ! j)" "\<forall>j. u \<le> j \<and> j < length xs \<longrightarrow> cmp k (xs ! j) < 0"
    and "l \<le> u"
    and "l = u \<Longrightarrow> idx = int i \<and> i < length xs \<and> c = cmp k (xs ! i) \<and> (c < 0 \<and> i = u \<or> 0 < c \<and> i + 1 = l)"
  shows "\<exists>i < length xs. bisect f l u idx c = Some (int i, cmp k (xs ! i)) \<and>
    (cmp k (xs ! i) < 0 \<longrightarrow> (\<forall>j < i. 0 < cmp k (xs ! j))) \<and>
    (0 < cmp k (xs ! i) \<longrightarrow> (\<forall>j. i < j \<and> j < length xs \<longrightarrow> cmp k (xs ! j) < 0))"
  using assms(4-)
proof (induction "u - l" arbitrary: l u idx c i rule: less_induct)
  case less
  show ?case
  proof (cases "l < u")
    case False
    then have e: "l = u" using less.prems by simp
    show ?thesis using less.prems(5) [OF e] less.prems(1-4) e
      by (intro exI [of _ i]) auto
  next
    case True
    let ?m = "(l + u) div 2"
    have m: "l \<le> ?m" "?m < u" "?m < length xs" using True less.prems(1) by auto
    have D: "xs ! j \<in> D" if "j < length xs" for j using assms(1) that by (rule ordered_mem)
    have f: "f ?m = Some (cmp k (xs ! ?m))" using assms(3) m by simp
    consider "cmp k (xs ! ?m) < 0" | "0 < cmp k (xs ! ?m)" | "cmp k (xs ! ?m) = 0" by linarith
    then show ?thesis
    proof cases
      case 1
      have "cmp k (xs ! j) < 0" if "?m \<le> j" "j < length xs" for j
        using less_trans [OF assms(2) D D 1, of j] ordered_nth_less [OF assms(1), of ?m j] m that 1
        by (cases "j = ?m") auto
      then show ?thesis
        unfolding bisect_left [where f = f, OF True f 1]
        using less.hyps [of ?m l "int ?m" ?m "cmp k (xs ! ?m)"] less.prems m 1 by simp
    next
      case 2
      have "0 < cmp k (xs ! j)" if "j < ?m + 1" for j
        using less_trans [OF D D assms(2), of j ?m] ordered_nth_less [OF assms(1), of j ?m] m that 2
          swap [OF assms(2) D, of j] swap [OF D assms(2), of j] swap [OF D assms(2), of ?m]
        by (cases "j = ?m") auto
      then show ?thesis
        unfolding bisect_right [where f = f, OF True f 2]
        using less.hyps [of u "?m + 1" "int ?m" ?m "cmp k (xs ! ?m)"] less.prems m 2 by simp
    next
      case 3
      then show ?thesis using m f by (intro exI [of _ ?m]) (simp add: bisect.simps [of f l u])
    qed
  qed
qed

lemma search:
  assumes "ordered xs" "k \<in> D" "\<And>i. i < length xs \<Longrightarrow> f i = Some (cmp k (xs ! i))" "xs \<noteq> []"
  obtains i where "i < length xs" "bisect f 0 (length xs) (-1) 0 = Some (int i, cmp k (xs ! i))"
    "cmp k (xs ! i) < 0 \<Longrightarrow> \<forall>j < i. 0 < cmp k (xs ! j)"
    "0 < cmp k (xs ! i) \<Longrightarrow> \<forall>j. i < j \<and> j < length xs \<longrightarrow> cmp k (xs ! j) < 0"
  using bisect_found [OF assms(1-3), of "length xs" 0 "-1" 0 0] assms(4) by auto

definition place :: "'a \<Rightarrow> 'a list \<Rightarrow> nat" where
  "place k xs = length (takeWhile (\<lambda>x. 0 < cmp k x) xs)"

lemma place_unique:
  assumes "i \<le> length xs" "\<forall>j < i. 0 < cmp k (xs ! j)" "\<forall>j. i \<le> j \<and> j < length xs \<longrightarrow> cmp k (xs ! j) < 0"
  shows "i = place k xs"
proof -
  have "takeWhile (\<lambda>x. 0 < cmp k x) xs = take i xs"
    by (rule takeWhile_eq_take_P_nth) (use assms in \<open>auto simp: not_less\<close>)
  then show ?thesis using assms(1) by (simp add: place_def)
qed

lemma insert_place:
  assumes "ordered xs" "k \<in> D" "\<forall>x \<in> set xs. cmp k x \<noteq> 0"
  shows "ordered (take (place k xs) xs @ k # drop (place k xs) xs)"
proof -
  let ?t = "takeWhile (\<lambda>x. 0 < cmp k x) xs" and ?d = "dropWhile (\<lambda>x. 0 < cmp k x) xs"
  have o: "ordered ?t" "ordered ?d" "\<forall>x \<in> set ?t. \<forall>y \<in> set ?d. cmp x y < 0"
    using assms(1) ordered_append [of ?t ?d] by simp_all
  have D: "set xs \<subseteq> D" using assms(1) by (simp add: ordered_def)
  have t: "\<forall>x \<in> set ?t. cmp x k < 0"
    using D assms(2) swap [of _ k] by (auto dest: set_takeWhileD)
  have d: "\<forall>y \<in> set ?d. cmp k y < 0"
  proof (cases ?d)
    case (Cons z zs)
    then have "\<not> 0 < cmp k z" by (metis dropWhile_eq_Cons_conv)
    moreover have "z \<in> set xs" using Cons by (metis list.set_intros(1) set_dropWhileD)
    ultimately have z: "cmp k z < 0" "z \<in> D" using assms(3) D by force+
    then have "cmp k y < 0" if "y \<in> set zs" for y
      using less_trans [OF assms(2) z(2), of y] o(2) Cons that by (auto simp: ordered_Cons ordered_def less_imp_le)
    then show ?thesis using z Cons by simp
  next
    case Nil
    then show ?thesis by (simp only: Nil) simp
  qed
  have "take (place k xs) xs = ?t" "drop (place k xs) xs = ?d"
    by (simp_all add: place_def takeWhile_eq_take [symmetric] dropWhile_eq_drop [symmetric])
  then show ?thesis using o t d assms(2) by (auto simp: ordered_append ordered_Cons)
qed

text \<open>The search decides whether an element equal to the key is there, and else where it belongs.\<close>

lemma search_cases:
  assumes "ordered xs" "k \<in> D" "\<And>i. i < length xs \<Longrightarrow> f i = Some (cmp k (xs ! i))" "xs \<noteq> []"
  obtains (found) i where "i < length xs" "bisect f 0 (length xs) (-1) 0 = Some (int i, 0)"
      "cmp k (xs ! i) = 0"
  | (absent) i c where "i < length xs" "bisect f 0 (length xs) (-1) 0 = Some (int i, c)" "c \<noteq> 0"
      "\<forall>x \<in> set xs. cmp k x \<noteq> 0" "place k xs = (if 0 < c then i + 1 else i)"
proof -
  obtain i where i: "i < length xs" "bisect f 0 (length xs) (-1) 0 = Some (int i, cmp k (xs ! i))"
    "cmp k (xs ! i) < 0 \<Longrightarrow> \<forall>j < i. 0 < cmp k (xs ! j)"
    "0 < cmp k (xs ! i) \<Longrightarrow> \<forall>j. i < j \<and> j < length xs \<longrightarrow> cmp k (xs ! j) < 0"
    using search [OF assms] by metis
  have D: "xs ! j \<in> D" if "j < length xs" for j using assms(1) that by (rule ordered_mem)
  consider "cmp k (xs ! i) = 0" | "cmp k (xs ! i) < 0" | "0 < cmp k (xs ! i)" by linarith
  then show thesis
  proof cases
    case 1
    then show thesis using i by (auto intro: found)
  next
    case 2
    have g: "cmp k (xs ! j) < 0" if "i \<le> j" "j < length xs" for j
      using less_trans [OF assms(2) D D 2, of j] ordered_nth_less [OF assms(1), of i j] i(1) that 2
      by (cases "j = i") auto
    then have "i = place k xs" using i(1) i(3) [OF 2] by (intro place_unique) auto
    moreover have "cmp k (xs ! j) \<noteq> 0" if "j < length xs" for j
      using i(3) [OF 2] g [of j] that by (cases "j < i") auto
    then have "\<forall>x \<in> set xs. cmp k x \<noteq> 0" by (metis in_set_conv_nth)
    ultimately show thesis using i 2 by (intro absent [of i "cmp k (xs ! i)"]) auto
  next
    case 3
    have g: "0 < cmp k (xs ! j)" if "j \<le> i" for j
      using less_trans [OF D D assms(2), of j i] ordered_nth_less [OF assms(1), of j i] i(1) that 3
        swap [OF assms(2) D, of j] swap [OF D assms(2), of j] swap [OF D assms(2), of i]
      by (cases "j = i") auto
    then have "i + 1 = place k xs" using i(1) i(4) [OF 3] by (intro place_unique) auto
    moreover have "cmp k (xs ! j) \<noteq> 0" if "j < length xs" for j
      using i(4) [OF 3] g [of j] that by (cases "j \<le> i") (auto dest: spec [of _ j])
    then have "\<forall>x \<in> set xs. cmp k x \<noteq> 0" by (metis in_set_conv_nth)
    ultimately show thesis using i 3 by (intro absent [of i "cmp k (xs ! i)"]) auto
  qed
qed

text \<open>Sorting elements of which no two are equal.\<close>

lemma ordered_qinsert:
  assumes "ordered xs" "x \<in> D" "\<forall>y \<in> set xs. cmp x y \<noteq> 0"
  shows "ordered (qinsert cmp x xs)"
  using assms
proof (induction xs)
  case (Cons y ys)
  have D: "y \<in> D" "set ys \<subseteq> D" using Cons.prems(1) by (auto simp: ordered_Cons ordered_def)
  show ?case
  proof (cases "cmp x y \<le> 0")
    case True
    then have "cmp x y < 0" using Cons.prems(3) by force
    moreover have "\<forall>z \<in> set ys. cmp x z < 0"
      using less_trans [OF assms(2) D(1) _ \<open>cmp x y < 0\<close>] Cons.prems(1) D
      by (auto simp: ordered_Cons less_imp_le subset_iff)
    ultimately show ?thesis using True Cons.prems by (auto simp: ordered_Cons)
  next
    case False
    then have "cmp y x < 0" using swap [OF D(1) assms(2)] by simp
    then show ?thesis using False Cons by (auto simp: ordered_Cons)
  qed
qed (simp add: ordered_Cons)

lemma ordered_qsort:
  "set xs \<subseteq> D \<Longrightarrow> distinct xs \<Longrightarrow> \<forall>x \<in> set xs. \<forall>y \<in> set xs. x \<noteq> y \<longrightarrow> cmp x y \<noteq> 0 \<Longrightarrow> ordered (qsort cmp xs)"
proof (induction xs)
  case (Cons x xs)
  have "qsort cmp (x # xs) = qinsert cmp x (qsort cmp xs)" by (simp add: qsort_def)
  then show ?case using Cons by (auto intro!: ordered_qinsert)
qed (simp add: qsort_def)

end

end
