(* ===== verification/Hcontrol.thy ===== *)
theory Hcontrol
  imports ListHead SortedArray
begin

text \<open>
  The high level control interface, \<open>libasound/src/control/hcontrol.c\<close>: a cache of the
  controls of a card, kept in an array sorted by a comparison function and in a ring in the
  same order. The elements are on a heap and their list nodes in a store of links, both by
  address; the callbacks of the user and the calls into the control device are parameters.
  This theory has the data, the comparison functions and the operations.
\<close>

named_theorems hctl_defs

section \<open>Data\<close>

text \<open>\<open>struct sndrv_ctl_elem_id\<close>; the name is the string before its terminating NUL.\<close>

record snd_ctl_elem_id =
  numid :: u32
  iface :: int
  device :: u32
  subdevice :: u32
  ename :: string
  eindex :: u32

abbreviation (input) SNDRV_CTL_ELEM_IFACE_MIXER :: int where "SNDRV_CTL_ELEM_IFACE_MIXER \<equiv> 2"
abbreviation (input) MASK_VALUE :: u32 where "MASK_VALUE \<equiv> 1"
abbreviation (input) MASK_INFO :: u32 where "MASK_INFO \<equiv> 2"
abbreviation (input) MASK_ADD :: u32 where "MASK_ADD \<equiv> 4"
abbreviation (input) MASK_REMOVE :: u32 where "MASK_REMOVE \<equiv> 0xFFFFFFFF"

abbreviation (input) neg_ENOENT :: int where "neg_ENOENT \<equiv> -2"
abbreviation (input) neg_EAGAIN :: int where "neg_EAGAIN \<equiv> -11"
abbreviation (input) neg_ENOMEM :: int where "neg_ENOMEM \<equiv> -12"

text \<open>
  An element. A comparison function sees the first part, the identifier and the weight.
  Function pointers are numbers, 0 is \<open>NULL\<close>. The address of an element is also that of its
  list node.
\<close>

record hkey =
  eid :: snd_ctl_elem_id
  compare_weight :: int

record snd_hctl_elem = hkey +
  callback :: nat
  callback_private :: nat

type_synonym snd_hctl_compare_t = "hkey \<Rightarrow> hkey \<Rightarrow> int"

text \<open>The handle; \<open>elems\<close> is the address of the head of its ring, \<open>pelems\<close> the array or \<open>NULL\<close>.\<close>

record snd_hctl =
  elems :: nat
  alloc :: nat
  count :: nat
  pelems :: "nat list option"
  compare :: "snd_hctl_compare_t option"
  hcallback :: nat
  hcallback_private :: nat

text \<open>
  The memory: elements, links, the highest address in use, how many allocations will still
  succeed, and the data of the user's callbacks.
\<close>

record 'x hworld =
  helems :: "nat \<Rightarrow> snd_hctl_elem option"
  hlinks :: links
  hbrk :: nat
  hbudget :: nat
  client :: 'x

text \<open>
  The code behind the function pointers: the callback of a handle (pointer, private value,
  mask, element) and of an element (pointer, mask, element). Then the device: the answer to
  the nth call of \<open>snd_ctl_elem_list\<close> with room for some identifiers (an error or the number
  of elements, and the identifiers written), and the result of \<open>snd_ctl_subscribe_events\<close>.
\<close>

record 'x henv =
  hctl_cb :: "nat \<Rightarrow> nat \<Rightarrow> u32 \<Rightarrow> nat \<Rightarrow> 'x hworld \<Rightarrow> (int \<times> 'x hworld) cres"
  elem_cb :: "nat \<Rightarrow> u32 \<Rightarrow> nat \<Rightarrow> 'x hworld \<Rightarrow> (int \<times> 'x hworld) cres"
  elem_list :: "nat \<Rightarrow> nat \<Rightarrow> int \<times> nat \<times> snd_ctl_elem_id list"
  subscribe :: int

section \<open>Weights\<close>

text \<open>\<open>strncmp(s, p, strlen(p)) == 0\<close> is that \<open>p\<close> is a prefix of \<open>s\<close>.\<close>

definition starts_with :: "string \<Rightarrow> string \<Rightarrow> bool" where
  "starts_with p s = (take (length p) s = p)"

abbreviation (input) NOT_FOUND :: int where "NOT_FOUND \<equiv> 1000000000"

text \<open>The result and where the name pointer is left.\<close>

fun priority_lookup :: "string \<Rightarrow> string list \<Rightarrow> int \<Rightarrow> int \<Rightarrow> int \<times> string" where
  "priority_lookup name [] coef res = (NOT_FOUND, name)"
| "priority_lookup name (n # names) coef res =
     (if starts_with n name
      then (let rest = drop (length n) name
            in (res + 1, case rest of c # cs \<Rightarrow> (if c = CHR '' '' then cs else rest) | [] \<Rightarrow> rest))
      else priority_lookup name names coef (res + coef))"

definition names :: "string list" where
  "names = [''Master'', ''Hardware Master'', ''Headphone'', ''Tone Control'', ''3D Control'',
     ''PCM'', ''Front'', ''Surround'', ''Center'', ''LFE'', ''Synth'', ''FM'', ''Wave'', ''Music'',
     ''DSP'', ''Line'', ''CD'', ''Mic'', ''Phone'', ''Video'', ''Zoom Video'', ''PC Speaker'',
     ''Aux'', ''Mono'', ''ADC'', ''Capture Source'', ''Capture'', ''Playback'', ''Loopback'',
     ''Analog Loopback'', ''Digital Loopback'', ''I2S'', ''IEC958'']"

definition names1 :: "string list" where
  "names1 = [''Switch'', ''Volume'', ''Playback'', ''Capture'', ''Bypass'', ''Mono'', ''Front'',
     ''Rear'', ''Pan'', ''Output'', ''-'']"

definition names2 :: "string list" where
  "names2 = [''Switch'', ''Volume'', ''Bypass'', ''Depth'', ''Wide'', ''Space'', ''Level'', ''Center'']"

text \<open>
  The pointer \<open>name1\<close> is an index into what is left of the name: \<open>step_back P name i\<close> is the loop
  that steps it back as long as it is not at the beginning and its character satisfies \<open>P\<close>.
\<close>

fun step_back :: "(char \<Rightarrow> bool) \<Rightarrow> string \<Rightarrow> nat \<Rightarrow> nat" where
  "step_back P name 0 = 0"
| "step_back P name (Suc i) = (if P (name ! Suc i) then step_back P name i else Suc i)"

definition get_compare_weight :: "snd_ctl_elem_id \<Rightarrow> int" where
  "get_compare_weight i =
     (case priority_lookup (ename i) names 1000000 0 of (res, name) \<Rightarrow>
        if res = NOT_FOUND then NOT_FOUND
        else if name = [] then res
        else
          let name1 = step_back (\<lambda>c. c \<noteq> CHR '' '') name (length name - 1);
              name1 = step_back (\<lambda>c. c = CHR '' '') name name1
          in if name1 \<noteq> 0
             then let name1 = step_back (\<lambda>c. c \<noteq> CHR '' '') name name1 in
               (case priority_lookup (drop name1 name) names1 1000 0 of (res1, name) \<Rightarrow>
                  if res1 = NOT_FOUND then res
                  else case priority_lookup name names2 1 0 of (res2, _) \<Rightarrow>
                    if res2 = NOT_FOUND then res + res1 else res + res1 + res2)
             else
               (case priority_lookup (drop name1 name) names2 1 0 of (res2, _) \<Rightarrow>
                  if res2 = NOT_FOUND then res else res + res2))"

section \<open>Comparison\<close>

text \<open>\<open>strcmp\<close>, of which only the sign is used.\<close>

fun strcmp :: "string \<Rightarrow> string \<Rightarrow> int" where
  "strcmp [] [] = 0"
| "strcmp [] (y # ys) = -1"
| "strcmp (x # xs) [] = 1"
| "strcmp (x # xs) (y # ys) =
     (if of_char x < (of_char y :: nat) then -1 else if (of_char y :: nat) < of_char x then 1 else strcmp xs ys)"

text \<open>The differences of unsigned fields are taken modulo \<open>2^32\<close> and returned as \<open>int\<close>.\<close>

definition snd_hctl_compare_default :: snd_hctl_compare_t where
  "snd_hctl_compare_default c1 c2 =
     (let d = iface (eid c1) - iface (eid c2) in
      if d \<noteq> 0 then d
      else
        let d = compare_weight c1 - compare_weight c2 in
        if iface (eid c1) = SNDRV_CTL_ELEM_IFACE_MIXER \<and> d \<noteq> 0 then d
        else
          let res = strcmp (ename (eid c1)) (ename (eid c2)) in
          if res \<noteq> 0 then res else sint (eindex (eid c1) - eindex (eid c2)))"

definition snd_hctl_compare_fast :: snd_hctl_compare_t where
  "snd_hctl_compare_fast c1 c2 = sint (numid (eid c1) - numid (eid c2))"

section \<open>Memory and events\<close>

text \<open>\<open>calloc\<close> of an element: its address, 0 when it fails.\<close>

definition calloc_elem :: "'x hworld \<Rightarrow> nat \<times> 'x hworld" where
  "calloc_elem w =
     (if hbudget w = 0 then (0, w)
      else let p = Suc (hbrk w);
               zero_id = \<lparr>numid = 0, iface = 0, device = 0, subdevice = 0, ename = [], eindex = 0\<rparr>
           in (p, w\<lparr>helems := (helems w)(p \<mapsto> \<lparr>eid = zero_id, compare_weight = 0, callback = 0,
                                              callback_private = 0\<rparr>),
                    hlinks := (hlinks w)(p \<mapsto> \<lparr>nxt = 0, prv = 0\<rparr>),
                    hbrk := p, hbudget := hbudget w - 1\<rparr>))"

definition free_elem :: "nat \<Rightarrow> 'x hworld \<Rightarrow> 'x hworld option" where
  "free_elem p w =
     (if helems w p = None then None
      else Some (w\<lparr>helems := (helems w)(p := None), hlinks := (hlinks w)(p := None)\<rparr>))"

definition upd_elem :: "nat \<Rightarrow> (snd_hctl_elem \<Rightarrow> snd_hctl_elem) \<Rightarrow> 'x hworld \<Rightarrow> 'x hworld option" where
  "upd_elem p f w = map_option (\<lambda>e. w\<lparr>helems := (helems w)(p \<mapsto> f e)\<rparr>) (helems w p)"

text \<open>An operation of the rings on the links of the memory.\<close>

definition on_links :: "(links \<Rightarrow> links option) \<Rightarrow> 'x hworld \<Rightarrow> 'x hworld option" where
  "on_links f w = map_option (\<lambda>L. w\<lparr>hlinks := L\<rparr>) (f (hlinks w))"

definition snd_hctl_throw_event ::
    "'x henv \<Rightarrow> snd_hctl \<Rightarrow> u32 \<Rightarrow> nat \<Rightarrow> 'x hworld \<Rightarrow> (int \<times> 'x hworld) cres" where
  "snd_hctl_throw_event E H emask p w =
     (if hcallback H \<noteq> 0 then hctl_cb E (hcallback H) (hcallback_private H) emask p w else Inr (0, w))"

definition snd_hctl_elem_throw_event ::
    "'x henv \<Rightarrow> nat \<Rightarrow> u32 \<Rightarrow> 'x hworld \<Rightarrow> (int \<times> 'x hworld) cres" where
  "snd_hctl_elem_throw_event E p emask w =
     need (helems w p) (\<lambda>e. if callback e \<noteq> 0 then elem_cb E (callback e) emask p w else Inr (0, w))"

section \<open>Searching, adding and removing\<close>

definition array_at :: "snd_hctl \<Rightarrow> nat \<Rightarrow> nat option" where
  "array_at H i = Option.bind (pelems H) (\<lambda>ps. array_get ps i)"

definition key_of :: "snd_hctl_elem \<Rightarrow> hkey" where
  "key_of e = \<lparr>eid = eid e, compare_weight = compare_weight e\<rparr>"

definition key_at :: "snd_hctl \<Rightarrow> 'x hworld \<Rightarrow> nat \<Rightarrow> hkey option" where
  "key_at H w i = map_option key_of (Option.bind (array_at H i) (helems w))"

definition find_elem_idx :: "snd_hctl \<Rightarrow> 'x hworld \<Rightarrow> snd_ctl_elem_id \<Rightarrow> (int \<times> int) cres" where
  "find_elem_idx H w i =
     (case compare H of
        None \<Rightarrow> Inl ABORT
      | Some cmp \<Rightarrow>
          let el = \<lparr>eid = i, compare_weight = get_compare_weight i\<rparr> in
          need (bisect (\<lambda>j. map_option (cmp el) (key_at H w j)) 0 (count H) (-1) 0) Inr)"

text \<open>Making room for one more element: 32 more slots, or failure and no change.\<close>

definition hctl_grow :: "snd_hctl \<Rightarrow> 'x hworld \<Rightarrow> bool \<times> snd_hctl \<times> 'x hworld" where
  "hctl_grow H w =
     (if count H = alloc H
      then if hbudget w = 0 then (False, H, w)
           else (True,
             H\<lparr>alloc := alloc H + 32,
               pelems := Some ((case pelems H of None \<Rightarrow> [] | Some ps \<Rightarrow> ps) @
                 replicate (alloc H + 32 - length (case pelems H of None \<Rightarrow> [] | Some ps \<Rightarrow> ps)) 0)\<rparr>,
             w\<lparr>hbudget := hbudget w - 1\<rparr>)
      else (True, H, w))"

definition array_put :: "nat \<Rightarrow> nat \<Rightarrow> snd_hctl \<Rightarrow> snd_hctl option" where
  "array_put i p H =
     Option.bind (pelems H) (\<lambda>ps. map_option (\<lambda>qs. H\<lparr>pelems := Some qs\<rparr>) (array_set ps i p))"

definition array_move :: "nat \<Rightarrow> nat \<Rightarrow> nat \<Rightarrow> snd_hctl \<Rightarrow> snd_hctl option" where
  "array_move dst src n H =
     Option.bind (pelems H) (\<lambda>ps. map_option (\<lambda>qs. H\<lparr>pelems := Some qs\<rparr>) (memmove dst src n ps))"

text \<open>Linking the element into the ring and into the array.\<close>

definition hctl_place :: "nat \<Rightarrow> snd_hctl_elem \<Rightarrow> snd_hctl \<Rightarrow> 'x hworld \<Rightarrow> (snd_hctl \<times> 'x hworld) cres" where
  "hctl_place p e H w =
     (if count H = 0
      then need (on_links (list_add_tail p (elems H)) w) (\<lambda>w.
           need (array_put 0 p H) (\<lambda>H. Inr (H, w)))
      else cbind (find_elem_idx H w (eid e)) (\<lambda>(idx, dir).
           asserting (dir \<noteq> 0) (
           need (array_at H (nat idx)) (\<lambda>q.
           need (on_links (if 0 < dir then list_add p q else list_add_tail p q) w) (\<lambda>w.
           let i = (if 0 < dir then nat idx + 1 else nat idx) in
           need (array_move (i + 1) i (count H - i) H) (\<lambda>H.
           need (array_put i p H) (\<lambda>H. Inr (H, w))))))))"

definition snd_hctl_elem_add ::
    "'x henv \<Rightarrow> nat \<Rightarrow> snd_hctl \<Rightarrow> 'x hworld \<Rightarrow> (int \<times> snd_hctl \<times> 'x hworld) cres" where
  "snd_hctl_elem_add E p H w =
     need (helems w p) (\<lambda>e.
     need (upd_elem p (\<lambda>e. e\<lparr>compare_weight := get_compare_weight (eid e)\<rparr>) w) (\<lambda>w.
     case hctl_grow H w of (ok, H, w) \<Rightarrow>
       if \<not> ok then Inr (neg_ENOMEM, H, w)
       else cbind (hctl_place p e H w) (\<lambda>(H, w).
            let H = H\<lparr>count := count H + 1\<rparr> in
            cbind (snd_hctl_throw_event E H MASK_ADD p w) (\<lambda>(r, w). Inr (r, H, w)))))"

definition snd_hctl_elem_remove ::
    "'x henv \<Rightarrow> nat \<Rightarrow> snd_hctl \<Rightarrow> 'x hworld \<Rightarrow> (snd_hctl \<times> 'x hworld) cres" where
  "snd_hctl_elem_remove E idx H w =
     need (array_at H idx) (\<lambda>p.
     cbind (snd_hctl_elem_throw_event E p MASK_REMOVE w) (\<lambda>(r, w).
     need (on_links (list_del p) w) (\<lambda>w.
     need (free_elem p w) (\<lambda>w.
     if count H \<le> idx then Inl UNDEF
     else
       let H = H\<lparr>count := count H - 1\<rparr>; m = count H - idx in
       if 0 < m then need (array_move idx (idx + 1) m H) (\<lambda>H. Inr (H, w)) else Inr (H, w)))))"

section \<open>Loading, sorting and releasing\<close>

text \<open>The loop runs once for every element, as each removal lowers the count by one.\<close>

fun free_elems :: "'x henv \<Rightarrow> nat \<Rightarrow> snd_hctl \<Rightarrow> 'x hworld \<Rightarrow> (snd_hctl \<times> 'x hworld) cres" where
  "free_elems E 0 H w = Inr (H, w)"
| "free_elems E (Suc n) H w =
     cbind (snd_hctl_elem_remove E (count H - 1) H w) (\<lambda>(H, w). free_elems E n H w)"

definition snd_hctl_free :: "'x henv \<Rightarrow> snd_hctl \<Rightarrow> 'x hworld \<Rightarrow> (snd_hctl \<times> 'x hworld) cres" where
  "snd_hctl_free E H w =
     cbind (free_elems E (count H) H w) (\<lambda>(H, w).
     need (on_links (INIT_LIST_HEAD (elems H)) w) (\<lambda>w.
     Inr (H\<lparr>pelems := None, alloc := 0\<rparr>, w)))"

fun append_all :: "nat \<Rightarrow> nat list \<Rightarrow> links \<Rightarrow> links option" where
  "append_all h [] L = Some L"
| "append_all h (p # ps) L = Option.bind (list_add_tail p h L) (append_all h ps)"

text \<open>The first \<open>n\<close> values of an array of options, when all are there.\<close>

fun all_some :: "(nat \<Rightarrow> 'a option) \<Rightarrow> nat list \<Rightarrow> 'a list option" where
  "all_some f [] = Some []"
| "all_some f (i # ids) = Option.bind (f i) (\<lambda>x. Option.bind (all_some f ids) (\<lambda>xs. Some (x # xs)))"

definition hctl_compare :: "snd_hctl_compare_t \<Rightarrow> 'x hworld \<Rightarrow> nat \<Rightarrow> nat \<Rightarrow> int" where
  "hctl_compare cmp w p q = cmp (key_of (the (helems w p))) (key_of (the (helems w q)))"

definition snd_hctl_sort :: "snd_hctl \<Rightarrow> 'x hworld \<Rightarrow> (snd_hctl \<times> 'x hworld) cres" where
  "snd_hctl_sort H w =
     (case compare H of
        None \<Rightarrow> Inl ABORT
      | Some cmp \<Rightarrow>
          need (on_links (INIT_LIST_HEAD (elems H)) w) (\<lambda>w.
          need (all_some (array_at H) [0..<count H]) (\<lambda>ps.
          need (all_some (helems w) ps) (\<lambda>_.
          let qs = qsort (hctl_compare cmp w) ps;
              H = H\<lparr>pelems := map_option (\<lambda>rs. qs @ drop (count H) rs) (pelems H)\<rparr> in
          need (on_links (append_all (elems H) qs) w) (\<lambda>w. Inr (H, w))))))"

definition snd_hctl_set_compare ::
    "snd_hctl_compare_t option \<Rightarrow> snd_hctl \<Rightarrow> 'x hworld \<Rightarrow> (int \<times> snd_hctl \<times> 'x hworld) cres" where
  "snd_hctl_set_compare c H w =
     cbind (snd_hctl_sort
       (H\<lparr>compare := Some (case c of None \<Rightarrow> snd_hctl_compare_default | Some f \<Rightarrow> f)\<rparr>) w)
       (\<lambda>(H, w). Inr (0, H, w))"

text \<open>
  Asking the device for its elements until the list has room for all of them. \<open>None\<close>: the
  device never gives a consistent answer. The result is an error or the identifiers.
\<close>

partial_function (option) list_elems ::
    "'x henv \<Rightarrow> nat \<Rightarrow> nat \<times> snd_ctl_elem_id list \<Rightarrow> 'x hworld \<Rightarrow> ((int + snd_ctl_elem_id list) \<times> 'x hworld) option" where
  "list_elems E k l w =
     (if fst l = length (snd l) then Some (Inr (snd l), w)
      else if hbudget w = 0 then Some (Inl neg_ENOMEM, w)
      else
        let w = w\<lparr>hbudget := hbudget w - 1\<rparr> in
        if fst (elem_list E k (fst l)) < 0 then Some (Inl (fst (elem_list E k (fst l))), w)
        else list_elems E (Suc k) (snd (elem_list E k (fst l))) w)"

definition snd_ctl_elems ::
    "'x henv \<Rightarrow> 'x hworld \<Rightarrow> ((int + snd_ctl_elem_id list) \<times> 'x hworld) option" where
  "snd_ctl_elems E w =
     (if fst (elem_list E 0 0) < 0 then Some (Inl (fst (elem_list E 0 0)), w)
      else list_elems E 1 (snd (elem_list E 0 0)) w)"

text \<open>Making the elements, each appended to the ring and the array; \<open>False\<close> when \<open>calloc\<close> fails.\<close>

fun load_elems ::
    "snd_ctl_elem_id list \<Rightarrow> snd_hctl \<Rightarrow> 'x hworld \<Rightarrow> (bool \<times> snd_hctl \<times> 'x hworld) cres" where
  "load_elems [] H w = Inr (True, H, w)"
| "load_elems (i # ids) H w =
     (case calloc_elem w of (p, w) \<Rightarrow>
        if p = 0 then Inr (False, H, w)
        else
          need (upd_elem p (\<lambda>e. e\<lparr>eid := i, compare_weight := get_compare_weight i\<rparr>) w) (\<lambda>w.
          need (array_put (count H) p H) (\<lambda>H.
          need (on_links (list_add_tail p (elems H)) w) (\<lambda>w.
          load_elems ids (H\<lparr>count := count H + 1\<rparr>) w))))"

text \<open>Announcing the elements in order, up to the first callback that fails.\<close>

fun announce :: "'x henv \<Rightarrow> snd_hctl \<Rightarrow> nat list \<Rightarrow> 'x hworld \<Rightarrow> (int \<times> 'x hworld) cres" where
  "announce E H [] w = Inr (0, w)"
| "announce E H (i # ids) w =
     need (array_at H i) (\<lambda>p.
     cbind (snd_hctl_throw_event E H MASK_ADD p w) (\<lambda>(r, w).
     if r < 0 then Inr (r, w) else announce E H ids w))"

definition load_array :: "nat \<Rightarrow> snd_hctl \<Rightarrow> 'x hworld \<Rightarrow> bool \<times> snd_hctl \<times> 'x hworld" where
  "load_array n H w =
     (if alloc H < n
      then if hbudget w = 0 then (False, H\<lparr>alloc := n, pelems := None\<rparr>, w)
           else (True, H\<lparr>alloc := n, pelems := Some (replicate n 0)\<rparr>, w\<lparr>hbudget := hbudget w - 1\<rparr>)
      else (True, H, w))"

definition load_list ::
    "'x henv \<Rightarrow> snd_ctl_elem_id list \<Rightarrow> snd_hctl \<Rightarrow> 'x hworld \<Rightarrow> (int \<times> snd_hctl \<times> 'x hworld) cres" where
  "load_list E ids H w =
     (case load_array (length ids) H w of (ok, H, w) \<Rightarrow>
        if \<not> ok then Inr (neg_ENOMEM, H, w)
        else cbind (load_elems ids H w) (\<lambda>(ok, H, w).
          if \<not> ok then cbind (snd_hctl_free E H w) (\<lambda>(H, w). Inr (neg_ENOMEM, H, w))
          else
            let H = H\<lparr>compare := Some (case compare H of None \<Rightarrow> snd_hctl_compare_default | Some c \<Rightarrow> c)\<rparr> in
            cbind (snd_hctl_sort H w) (\<lambda>(H, w).
            cbind (announce E H [0..<count H] w) (\<lambda>(r, w).
            if r < 0 then Inr (r, H, w) else Inr (subscribe E, H, w)))))"

definition snd_hctl_load ::
    "'x henv \<Rightarrow> snd_hctl \<Rightarrow> 'x hworld \<Rightarrow> (int \<times> snd_hctl \<times> 'x hworld) cres option" where
  "snd_hctl_load E H w =
     (if count H \<noteq> 0 then Some (Inl ABORT)
      else case list_empty (elems H) (hlinks w) of
        None \<Rightarrow> Some (Inl UNDEF)
      | Some False \<Rightarrow> Some (Inl ABORT)
      | Some True \<Rightarrow>
          map_option (\<lambda>(l, w). case l of Inl e \<Rightarrow> Inr (e, H, w) | Inr ids \<Rightarrow> load_list E ids H w)
            (snd_ctl_elems E w))"

section \<open>Opening and closing\<close>

text \<open>\<open>snd_hctl_open_ctl\<close>: the handle, or \<open>None\<close> for \<open>-ENOMEM\<close>.\<close>

definition snd_hctl_open_ctl :: "'x hworld \<Rightarrow> snd_hctl option \<times> 'x hworld" where
  "snd_hctl_open_ctl w =
     (if hbudget w = 0 then (None, w)
      else let p = Suc (hbrk w) in
        (Some \<lparr>elems = p, alloc = 0, count = 0, pelems = None, compare = None, hcallback = 0,
               hcallback_private = 0\<rparr>,
         w\<lparr>hlinks := (hlinks w)(p \<mapsto> \<lparr>nxt = p, prv = p\<rparr>), hbrk := p, hbudget := hbudget w - 1\<rparr>))"

text \<open>Closing, with the result of \<open>snd_ctl_close\<close>; the handle is gone afterwards.\<close>

definition snd_hctl_close :: "'x henv \<Rightarrow> int \<Rightarrow> snd_hctl \<Rightarrow> 'x hworld \<Rightarrow> (int \<times> 'x hworld) cres" where
  "snd_hctl_close E err H w =
     cbind (snd_hctl_free E H w) (\<lambda>(H, w).
     Inr (err, w\<lparr>hlinks := (hlinks w)(elems H := None)\<rparr>))"

definition snd_hctl_set_callback :: "nat \<Rightarrow> snd_hctl \<Rightarrow> snd_hctl" where
  "snd_hctl_set_callback c H = H\<lparr>hcallback := c\<rparr>"

definition snd_hctl_set_callback_private :: "nat \<Rightarrow> snd_hctl \<Rightarrow> snd_hctl" where
  "snd_hctl_set_callback_private c H = H\<lparr>hcallback_private := c\<rparr>"

definition snd_hctl_elem_set_callback :: "nat \<Rightarrow> nat \<Rightarrow> 'x hworld \<Rightarrow> 'x hworld option" where
  "snd_hctl_elem_set_callback p c w = upd_elem p (\<lambda>e. e\<lparr>callback := c\<rparr>) w"

definition snd_hctl_elem_set_callback_private :: "nat \<Rightarrow> nat \<Rightarrow> 'x hworld \<Rightarrow> 'x hworld option" where
  "snd_hctl_elem_set_callback_private p c w = upd_elem p (\<lambda>e. e\<lparr>callback_private := c\<rparr>) w"

section \<open>Lookup\<close>

definition snd_hctl_first_elem :: "snd_hctl \<Rightarrow> 'x hworld \<Rightarrow> nat option cres" where
  "snd_hctl_first_elem H w =
     need (hlinks w (elems H)) (\<lambda>c. Inr (if nxt c = elems H then None else Some (nxt c)))"

definition snd_hctl_last_elem :: "snd_hctl \<Rightarrow> 'x hworld \<Rightarrow> nat option cres" where
  "snd_hctl_last_elem H w =
     need (hlinks w (elems H)) (\<lambda>c. Inr (if nxt c = elems H then None else Some (prv c)))"

definition snd_hctl_elem_next :: "snd_hctl \<Rightarrow> nat \<Rightarrow> 'x hworld \<Rightarrow> nat option cres" where
  "snd_hctl_elem_next H p w =
     need (hlinks w p) (\<lambda>c. Inr (if nxt c = elems H then None else Some (nxt c)))"

definition snd_hctl_elem_prev :: "snd_hctl \<Rightarrow> nat \<Rightarrow> 'x hworld \<Rightarrow> nat option cres" where
  "snd_hctl_elem_prev H p w =
     need (hlinks w p) (\<lambda>c. Inr (if prv c = elems H then None else Some (prv c)))"

definition snd_hctl_find_elem :: "snd_hctl \<Rightarrow> snd_ctl_elem_id \<Rightarrow> 'x hworld \<Rightarrow> nat option cres" where
  "snd_hctl_find_elem H i w =
     cbind (find_elem_idx H w i) (\<lambda>(res, dir).
     if res < 0 \<or> dir \<noteq> 0 then Inr None else need (array_at H (nat res)) (\<lambda>p. Inr (Some p)))"

section \<open>Events\<close>

datatype ctl_event = Elem_event u32 snd_ctl_elem_id | Other_event

definition hctl_remove_event ::
    "'x henv \<Rightarrow> snd_ctl_elem_id \<Rightarrow> snd_hctl \<Rightarrow> 'x hworld \<Rightarrow> (int \<times> snd_hctl \<times> 'x hworld) cres" where
  "hctl_remove_event E i H w =
     cbind (find_elem_idx H w i) (\<lambda>(res, dir).
     asserting (0 \<le> res \<and> dir = 0)
       (cbind (snd_hctl_elem_remove E (nat res) H w) (\<lambda>(H, w). Inr (0, H, w))))"

definition hctl_add_event ::
    "'x henv \<Rightarrow> snd_ctl_elem_id \<Rightarrow> snd_hctl \<Rightarrow> 'x hworld \<Rightarrow> (int \<times> snd_hctl \<times> 'x hworld) cres" where
  "hctl_add_event E i H w =
     (case calloc_elem w of (p, w) \<Rightarrow>
        if p = 0 then Inr (neg_ENOMEM, H, w)
        else need (upd_elem p (\<lambda>e. e\<lparr>eid := i\<rparr>) w) (snd_hctl_elem_add E p H))"

definition hctl_change_event ::
    "'x henv \<Rightarrow> u32 \<Rightarrow> snd_ctl_elem_id \<Rightarrow> snd_hctl \<Rightarrow> 'x hworld \<Rightarrow> (int \<times> snd_hctl \<times> 'x hworld) cres" where
  "hctl_change_event E emask i H w =
     cbind (snd_hctl_find_elem H i w) (\<lambda>elem.
     case elem of
       None \<Rightarrow> Inl ABORT
     | Some p \<Rightarrow>
         cbind (snd_hctl_elem_throw_event E p (and emask (or MASK_VALUE MASK_INFO)) w) (\<lambda>(res, w).
         if res < 0 then Inr (res, H, w) else Inr (0, H, w)))"

definition snd_hctl_handle_event ::
    "'x henv \<Rightarrow> ctl_event \<Rightarrow> snd_hctl \<Rightarrow> 'x hworld \<Rightarrow> (int \<times> snd_hctl \<times> 'x hworld) cres" where
  "snd_hctl_handle_event E ev H w =
     (case ev of
        Other_event \<Rightarrow> Inr (0, H, w)
      | Elem_event emask i \<Rightarrow>
          if emask = MASK_REMOVE then hctl_remove_event E i H w
          else
            cbind (if and emask MASK_ADD \<noteq> 0 then hctl_add_event E i H w else Inr (0, H, w)) (\<lambda>(res, H, w).
            if res < 0 then Inr (res, H, w)
            else if and emask (or MASK_VALUE MASK_INFO) \<noteq> 0 then hctl_change_event E emask i H w
            else Inr (0, H, w)))"

text \<open>
  The loop that reads and handles events; the results of \<open>snd_ctl_read\<close> are a list of codes
  and events, and when it is used up the device has nothing more (\<open>-EAGAIN\<close>).
\<close>

fun handle_events ::
    "'x henv \<Rightarrow> int \<Rightarrow> (int \<times> ctl_event) list \<Rightarrow> snd_hctl \<Rightarrow> 'x hworld \<Rightarrow> (int \<times> snd_hctl \<times> 'x hworld) cres" where
  "handle_events E n [] H w = Inr (n, H, w)"
| "handle_events E n ((res, ev) # rs) H w =
     (if res = 0 \<or> res = neg_EAGAIN then Inr (n, H, w)
      else if res < 0 then Inr (res, H, w)
      else cbind (snd_hctl_handle_event E ev H w) (\<lambda>(res, H, w).
           if res < 0 then Inr (res, H, w) else handle_events E (n + 1) rs H w))"

definition snd_hctl_handle_events ::
    "'x henv \<Rightarrow> (int \<times> ctl_event) list \<Rightarrow> snd_hctl \<Rightarrow> 'x hworld \<Rightarrow> (int \<times> snd_hctl \<times> 'x hworld) cres" where
  "snd_hctl_handle_events E rs H w = handle_events E 0 rs H w"

end
