(* ===== verification/HctlOrder.thy ===== *)
theory HctlOrder
  imports Hcontrol
begin

text \<open>
  The comparison functions of the high level control interface are orders: on the identifiers
  a card can have, \<open>snd_hctl_compare_default\<close> compares interface, weight of the name (for mixer
  controls), name and index, and \<open>snd_hctl_compare_fast\<close> the numbers. The weights are in range, so
  that the differences the code computes do not overflow.
\<close>

section \<open>The comparison functions are orders\<close>

lemma three_way_int: "three_way (\<lambda>x y. f x - f y :: int) D"
  by unfold_locales auto

lemma three_way_lex:
  assumes "three_way f D" "three_way g D"
  shows "three_way (\<lambda>x y. if f x y = 0 then g x y else f x y) D"
proof
  fix x y assume D: "x \<in> D" "y \<in> D"
  show "(if f x y = 0 then g x y else f x y) < 0 \<longleftrightarrow> 0 < (if f y x = 0 then g y x else f y x)"
    using three_way.swap [OF assms(1) D] three_way.swap [OF assms(2) D]
      three_way.zero_sym [OF assms(1) D] by auto
next
  fix x y z assume D: "x \<in> D" "y \<in> D" "z \<in> D"
    and le: "(if f x y = 0 then g x y else f x y) \<le> 0" "(if f y z = 0 then g y z else f y z) \<le> 0"
  then have f: "f x y \<le> 0" "f y z \<le> 0" by (auto split: if_splits)
  have fz: "f x z \<le> 0" using three_way.trans [OF assms(1) D f] .
  have "f x z = 0 \<Longrightarrow> f x y = 0 \<and> f y z = 0"
    using three_way.less_trans [OF assms(1) D] three_way.less_trans' [OF assms(1) D] f by fastforce
  then show "(if f x z = 0 then g x z else f x z) \<le> 0"
    using le fz three_way.trans [OF assms(2) D] by (auto split: if_splits)
qed

lemma three_way_cong:
  assumes "three_way f D" "\<And>x y. x \<in> D \<Longrightarrow> y \<in> D \<Longrightarrow> g x y = f x y"
  shows "three_way g D"
proof
  fix x y assume D: "x \<in> D" "y \<in> D"
  show "g x y < 0 \<longleftrightarrow> 0 < g y x"
    using three_way.swap [OF assms(1) D] by (simp only: assms(2) [OF D] assms(2) [OF D(2,1)])
next
  fix x y z assume D: "x \<in> D" "y \<in> D" "z \<in> D" and "g x y \<le> 0" "g y z \<le> 0"
  then show "g x z \<le> 0"
    using three_way.trans [OF assms(1) D] by (simp only: assms(2))
qed

lemma strcmp_swap: "strcmp xs ys < 0 \<longleftrightarrow> 0 < strcmp ys xs"
proof (induction xs ys rule: strcmp.induct)
  case (4 x xs y ys)
  then show ?case
    by (cases rule: linorder_cases [of "of_char x :: nat" "of_char y"]) auto
qed simp_all

lemma strcmp_zero: "strcmp xs ys = 0 \<longleftrightarrow> xs = ys"
proof (induction xs ys rule: strcmp.induct)
  case (4 x xs y ys)
  then show ?case
    by (cases rule: linorder_cases [of "of_char x :: nat" "of_char y"]) auto
qed simp_all

lemma strcmp_trans: "strcmp xs ys \<le> 0 \<Longrightarrow> strcmp ys zs \<le> 0 \<Longrightarrow> strcmp xs zs \<le> 0"
proof (induction xs arbitrary: ys zs)
  case Nil
  then show ?case by (cases zs) auto
next
  case (Cons x xs)
  then show ?case by (cases ys; cases zs) (auto split: if_splits)
qed

lemma three_way_strcmp: "three_way (\<lambda>x y. strcmp (f x) (f y)) D"
  by unfold_locales (rule strcmp_swap, erule (1) strcmp_trans)

lemma uint_small: "unat (w :: u32) < 2 ^ 31 \<Longrightarrow> uint w < 2 ^ 31"
proof -
  assume "unat w < 2 ^ 31"
  then have "int (unat w) < int (2 ^ 31)" unfolding of_nat_less_iff .
  then show ?thesis by simp
qed

lemma three_way_sint:
  assumes "\<forall>x \<in> D. unat (f x :: u32) < 2 ^ 31"
  shows "three_way (\<lambda>x y. sint (f x - f y)) D"
proof (rule three_way_cong)
  show "three_way (\<lambda>x y. int (unat (f x)) - int (unat (f y))) D" by (rule three_way_int)
  fix x y assume "x \<in> D" "y \<in> D"
  then have b: "unat (f x) < 2 ^ 31" "unat (f y) < 2 ^ 31" using assms by auto
  then have b': "uint (f x) < 2 ^ 31" "uint (f y) < 2 ^ 31" using uint_small by blast+
  have "f x - f y = word_of_int (int (unat (f x)) - int (unat (f y)))" by simp
  then have "sint (f x - f y) = signed_take_bit 31 (int (unat (f x)) - int (unat (f y)))"
    by (simp only: signed_of_int) simp
  also have "signed_take_bit 31 (int (unat (f x)) - int (unat (f y))) = int (unat (f x)) - int (unat (f y))"
  proof (rule signed_take_bit_int_eq_self)
    have "int (unat (f x)) < 2 ^ 31" "int (unat (f y)) < 2 ^ 31" using b' by simp_all
    then show "- (2 ^ 31) \<le> int (unat (f x)) - int (unat (f y))" "int (unat (f x)) - int (unat (f y)) < 2 ^ 31"
      by linarith+
  qed
  finally show "sint (f x - f y) = int (unat (f x)) - int (unat (f y))" .
qed


text \<open>
  The identifiers the default order is meant for: their interface is one of the seven, and
  their index is below 2^31. The weight of an element is that of its name.
\<close>

definition key_for :: "snd_ctl_elem_id \<Rightarrow> hkey" where
  "key_for i = \<lparr>eid = i, compare_weight = get_compare_weight i\<rparr>"

definition card_id :: "snd_ctl_elem_id \<Rightarrow> bool" where
  "card_id i = (0 \<le> iface i \<and> iface i \<le> 6 \<and> unat (eindex i) < 2 ^ 31)"

definition default_keys :: "hkey set" where
  "default_keys = key_for ` {i. card_id i}"

definition fast_keys :: "hkey set" where
  "fast_keys = key_for ` {i. unat (numid i) < 2 ^ 31}"

definition mixer_weight :: "hkey \<Rightarrow> int" where
  "mixer_weight k = (if iface (eid k) = SNDRV_CTL_ELEM_IFACE_MIXER then compare_weight k else 0)"

lemma compare_default_lex:
  "snd_hctl_compare_default x y =
     (if iface (eid x) - iface (eid y) = 0
      then if mixer_weight x - mixer_weight y = 0
           then if strcmp (ename (eid x)) (ename (eid y)) = 0
                then sint (eindex (eid x) - eindex (eid y)) else strcmp (ename (eid x)) (ename (eid y))
           else mixer_weight x - mixer_weight y
      else iface (eid x) - iface (eid y))"
  by (simp add: snd_hctl_compare_default_def mixer_weight_def Let_def)

lemma three_way_default: "three_way snd_hctl_compare_default default_keys"
proof (rule three_way_cong [OF _ compare_default_lex])
  show "three_way (\<lambda>x y. if iface (eid x) - iface (eid y) = 0
      then if mixer_weight x - mixer_weight y = 0
           then if strcmp (ename (eid x)) (ename (eid y)) = 0
                then sint (eindex (eid x) - eindex (eid y)) else strcmp (ename (eid x)) (ename (eid y))
           else mixer_weight x - mixer_weight y
      else iface (eid x) - iface (eid y)) default_keys"
    by (intro three_way_lex three_way_int three_way_strcmp three_way_sint)
      (auto simp: default_keys_def card_id_def key_for_def)
qed

lemma three_way_fast: "three_way snd_hctl_compare_fast fast_keys"
  unfolding snd_hctl_compare_fast_def [abs_def]
  by (rule three_way_sint) (auto simp: fast_keys_def key_for_def)

text \<open>
  The weights are far from the limits of \<open>int\<close>, so the differences the code returns do not
  overflow.
\<close>

lemma priority_lookup_range:
  "priority_lookup name ns coef res = (r, rest) \<Longrightarrow> 0 \<le> coef \<Longrightarrow> r \<noteq> NOT_FOUND \<Longrightarrow>
   res < r \<and> r \<le> res + coef * int (length ns) + 1"
proof (induction ns arbitrary: res)
  case (Cons n ns)
  show ?case
  proof (cases "starts_with n name")
    case True
    then show ?thesis using Cons.prems by (auto simp: Let_def)
  next
    case False
    then show ?thesis using Cons.IH [of "res + coef"] Cons.prems by (auto simp: algebra_simps)
  qed
qed simp

lemma lookup_range:
  "priority_lookup name ns coef 0 = (r, rest) \<Longrightarrow> 0 \<le> coef \<Longrightarrow>
   r = NOT_FOUND \<or> 0 < r \<and> r \<le> coef * int (length ns) + 1"
  using priority_lookup_range [of name ns coef 0 r rest] by auto

lemma last_word_range:
  "(case priority_lookup name names2 1 0 of (r, _) \<Rightarrow> if r = NOT_FOUND then a else a + r) \<in> {a..a + 9}"
  using lookup_range [of name names2 1]
  by (cases "priority_lookup name names2 1 0") (fastforce simp: names2_def)

lemma words_range:
  "(case priority_lookup name names1 1000 0 of (r1, name1) \<Rightarrow>
      if r1 = NOT_FOUND then a
      else case priority_lookup name1 names2 1 0 of (r2, _) \<Rightarrow>
        if r2 = NOT_FOUND then a + r1 else a + r1 + r2) \<in> {a..a + 11010}"
proof -
  obtain r1 name1 where r: "priority_lookup name names1 1000 0 = (r1, name1)" by fastforce
  show ?thesis
    using lookup_range [OF r] last_word_range [where name = name1 and a = "a + r1"] r by (auto simp: names1_def)
qed

lemma if_mem: "(P \<Longrightarrow> x \<in> S) \<Longrightarrow> (\<not> P \<Longrightarrow> y \<in> S) \<Longrightarrow> (if P then x else y) \<in> S"
  by simp

lemma weight_range: "get_compare_weight i \<in> {1..1000000000}"
proof -
  obtain r name where r: "priority_lookup (ename i) names 1000000 0 = (r, name)" by fastforce
  have b: "1 \<le> r \<and> r \<le> 33000001" if "r \<noteq> NOT_FOUND"
    using lookup_range [OF r] that by (simp add: names_def)
  then have sub: "{r..r + 11010} \<subseteq> {1..1000000000}" "{r..r + 9} \<subseteq> {1..1000000000}" if "r \<noteq> NOT_FOUND"
    using that by auto
  show ?thesis
    unfolding get_compare_weight_def Let_def r prod.case
    by (intro if_mem subsetD [OF sub(1) words_range] subsetD [OF sub(2) last_word_range]) (use b in auto)
qed

lemma strcmp_range: "strcmp xs ys \<in> {-1, 0, 1}"
  by (induction xs ys rule: strcmp.induct) auto

lemma compare_default_fits:
  assumes "x \<in> default_keys" "y \<in> default_keys"
  shows "- (2 ^ 31) \<le> snd_hctl_compare_default x y \<and> snd_hctl_compare_default x y < 2 ^ 31"
proof -
  have "0 \<le> iface (eid x) \<and> iface (eid x) \<le> 6" "0 \<le> iface (eid y) \<and> iface (eid y) \<le> 6"
    using assms by (auto simp: default_keys_def card_id_def key_for_def)
  moreover have "0 \<le> mixer_weight k \<and> mixer_weight k \<le> 1000000000" if "k \<in> default_keys" for k
  proof -
    from that obtain i where "k = key_for i" by (auto simp: default_keys_def)
    then show ?thesis using weight_range [of i] by (simp add: key_for_def mixer_weight_def)
  qed
  note this [OF assms(1)] this [OF assms(2)]
  moreover have "- (2 ^ 31) \<le> sint (eindex (eid x) - eindex (eid y))"
    "sint (eindex (eid x) - eindex (eid y)) < 2 ^ 31"
    using sint_ge [of "eindex (eid x) - eindex (eid y)"] sint_lt [of "eindex (eid x) - eindex (eid y)"]
    by simp_all
  ultimately show ?thesis
    using strcmp_range [of "ename (eid x)" "ename (eid y)"] by (auto simp: compare_default_lex)
qed

text \<open>
  Two identifiers are the same to the default order when interface, name and index agree;
  number, device and subdevice do not count.
\<close>

lemma compare_default_zero:
  assumes "card_id i" "card_id j"
  shows "snd_hctl_compare_default (key_for i) (key_for j) = 0 \<longleftrightarrow>
    iface i = iface j \<and> ename i = ename j \<and> eindex i = eindex j"
proof -
  have "sint (eindex i - eindex j) = 0 \<longleftrightarrow> eindex i = eindex j"
    by (metis right_minus_eq signed_eq_0_iff)
  then show ?thesis
    by (auto simp: compare_default_lex strcmp_zero key_for_def mixer_weight_def get_compare_weight_def)
qed

section \<open>Properties\<close>

text \<open>
  C40 -- The default comparison of controls is an order on the identifiers of a card: exchanging
  the arguments changes the sign, it is transitive, it is 0 exactly for the same interface,
  name and index, and its value is an \<open>int\<close> without overflow.
\<close>

theorem compare_default_order:
  assumes "card_id i" "card_id j" "card_id k"
  shows "(snd_hctl_compare_default (key_for i) (key_for j) < 0 \<longleftrightarrow>
           0 < snd_hctl_compare_default (key_for j) (key_for i)) \<and>
    (snd_hctl_compare_default (key_for i) (key_for j) \<le> 0 \<and>
     snd_hctl_compare_default (key_for j) (key_for k) \<le> 0 \<longrightarrow>
     snd_hctl_compare_default (key_for i) (key_for k) \<le> 0) \<and>
    (snd_hctl_compare_default (key_for i) (key_for j) = 0 \<longleftrightarrow>
     iface i = iface j \<and> ename i = ename j \<and> eindex i = eindex j) \<and>
    - (2 ^ 31) \<le> snd_hctl_compare_default (key_for i) (key_for j) \<and>
    snd_hctl_compare_default (key_for i) (key_for j) < 2 ^ 31"
proof -
  have k: "key_for i \<in> default_keys" "key_for j \<in> default_keys" "key_for k \<in> default_keys"
    using assms by (simp_all add: default_keys_def)
  show ?thesis
    using three_way.swap [OF three_way_default k(1,2)] three_way.trans [OF three_way_default k]
      compare_default_zero [OF assms(1,2)] compare_default_fits [OF k(1,2)] by blast
qed

definition named :: "string \<Rightarrow> u32 \<Rightarrow> snd_ctl_elem_id" where
  "named s n = \<lparr>numid = n, iface = 2, device = 0, subdevice = 0, ename = s, eindex = n\<rparr>"

theorem compare_default_order_witness:
  "(snd_hctl_compare_default (key_for (named ''Master Volume'' 0)) (key_for (named ''PCM Volume'' 1)) < 0 \<longleftrightarrow>
    0 < snd_hctl_compare_default (key_for (named ''PCM Volume'' 1)) (key_for (named ''Master Volume'' 0))) \<and>
   snd_hctl_compare_default (key_for (named ''Master Volume'' 0)) (key_for (named ''PCM Volume'' 1)) \<noteq> 0"
  using compare_default_order [of "named ''Master Volume'' 0" "named ''PCM Volume'' 1" "named ''PCM'' 2"]
  by (simp add: card_id_def named_def)

text \<open>
  \<open>snd_hctl_compare_fast\<close> is no order on numbers further apart than 2^31: with these three each
  one is less than the next, and the last less than the first.
\<close>

lemma compare_fast_wraps:
  "snd_hctl_compare_fast (key_for (named [] 0)) (key_for (named [] 0x50000000)) < 0"
  "snd_hctl_compare_fast (key_for (named [] 0x50000000)) (key_for (named [] 0xA0000000)) < 0"
  "snd_hctl_compare_fast (key_for (named [] 0xA0000000)) (key_for (named [] 0)) < 0"
  by code_simp+

text \<open>
  The weight of the second to last word is not found when a word stands between it and the
  prefix of the name: the pointer is left on the space before it, and the words of the table
  do not start with one.
\<close>

lemma weight_ignores_third_word:
  "get_compare_weight (named ''PCM Playback Volume'' 0) = get_compare_weight (named ''PCM'' 0) + 2003"
  "get_compare_weight (named ''PCM Rear Playback Volume'' 0) = get_compare_weight (named ''PCM'' 0)"
  by code_simp+

end
