(* ===== verification/HctlProof.thy ===== *)
theory HctlProof
  imports HctlOrder
begin

text \<open>
  What the high level control interface guarantees. With a comparison that is an order, the
  handle keeps its array strictly sorted and its ring in the same order, whatever events
  arrive, and an event does to the set of cached identifiers what it says. The only other
  outcome is a failed assertion, for an event that contradicts the cache.
\<close>

section \<open>The invariant\<close>

definition elem_key :: "'x hworld \<Rightarrow> nat \<Rightarrow> hkey" where
  "elem_key w p = key_of (the (helems w p))"

definition cached :: "'x hworld \<Rightarrow> nat list \<Rightarrow> snd_ctl_elem_id list" where
  "cached w xs = map (\<lambda>p. eid (the (helems w p))) xs"

text \<open>The array has the elements \<open>xs\<close> in front, and as many slots as \<open>alloc\<close> says.\<close>

definition array_holds :: "snd_hctl \<Rightarrow> nat list \<Rightarrow> bool" where
  "array_holds H xs =
     (count H = length xs \<and> length xs \<le> alloc H \<and>
      (case pelems H of
         None \<Rightarrow> alloc H = 0
       | Some ps \<Rightarrow> length ps = alloc H \<and> take (length xs) ps = xs))"

text \<open>Nothing is allocated above the break, and the head of the ring is not an element.\<close>

definition memory_ok :: "nat \<Rightarrow> 'x hworld \<Rightarrow> bool" where
  "memory_ok h w = ((\<forall>p. hbrk w < p \<longrightarrow> helems w p = None \<and> hlinks w p = None) \<and> h \<le> hbrk w \<and>
     helems w h = None \<and> dom (helems w) \<subseteq> dom (hlinks w))"

definition hctl_inv :: "snd_hctl_compare_t \<Rightarrow> hkey set \<Rightarrow> snd_hctl \<Rightarrow> 'x hworld \<Rightarrow> nat list \<Rightarrow> bool" where
  "hctl_inv cmp D H w xs =
     (compare H = Some cmp \<and> array_holds H xs \<and> ring (hlinks w) (elems H) xs \<and>
      memory_ok (elems H) w \<and>
      (\<forall>p \<in> set xs. \<exists>e. helems w p = Some e \<and> key_of e = key_for (eid e) \<and> key_of e \<in> D) \<and>
      sorted_wrt (\<lambda>x y. cmp x y < 0) (map (elem_key w) xs))"

text \<open>
  What the callbacks of the user may not do: touch the identifiers, weights and links of the
  elements, make or free elements, or stop.
\<close>

definition quiet :: "'x hworld \<Rightarrow> 'x hworld \<Rightarrow> bool" where
  "quiet w w' = ((\<forall>p. map_option key_of (helems w' p) = map_option key_of (helems w p)) \<and>
     hlinks w' = hlinks w \<and> hbrk w' = hbrk w)"

definition callbacks_ok :: "'x henv \<Rightarrow> bool" where
  "callbacks_ok E =
     ((\<forall>c v m p w. p \<in> dom (helems w) \<longrightarrow> (\<exists>r w'. hctl_cb E c v m p w = Inr (r, w') \<and> quiet w w')) \<and>
      (\<forall>c m p w. p \<in> dom (helems w) \<longrightarrow> (\<exists>r w'. elem_cb E c m p w = Inr (r, w') \<and> quiet w w')))"

lemma memory_links:
  assumes "memory_ok h w" "dom L = dom (hlinks w)"
  shows "memory_ok h (w\<lparr>hlinks := L\<rparr>)"
proof -
  have "L p = None \<longleftrightarrow> hlinks w p = None" for p using assms(2) by (metis domIff)
  then show ?thesis using assms by (simp add: memory_ok_def)
qed

lemma memory_free:
  "memory_ok h w \<Longrightarrow> memory_ok h (w\<lparr>helems := (helems w)(p := None), hlinks := (hlinks w)(p := None)\<rparr>)"
  by (auto simp: memory_ok_def)

lemma elem_key_links [simp]: "elem_key (w\<lparr>hlinks := L\<rparr>) = elem_key w"
  by (simp add: elem_key_def fun_eq_iff)

lemma cached_links [simp]: "cached (w\<lparr>hlinks := L\<rparr>) = cached w"
  by (simp add: cached_def fun_eq_iff)

lemma quiet_refl [simp]: "quiet w w"
  by (simp add: quiet_def)

lemma quiet_elem:
  assumes "quiet w w'"
  shows "helems w p = Some e \<Longrightarrow> \<exists>e'. helems w' p = Some e' \<and> key_of e' = key_of e"
    and "helems w p = None \<Longrightarrow> helems w' p = None"
  using assms unfolding quiet_def by (metis map_option_eq_Some option.simps(9), metis map_option_is_None)

lemma quiet_dom: "quiet w w' \<Longrightarrow> dom (helems w') = dom (helems w)"
  unfolding quiet_def dom_def by (metis map_option_is_None)

lemma key_of_eid: "key_of e = key_of e' \<Longrightarrow> eid e = eid e'"
  by (simp add: key_of_def)

lemma quiet_memory: "quiet w w' \<Longrightarrow> memory_ok h w \<Longrightarrow> memory_ok h w'"
  using quiet_dom [of w w'] quiet_elem(2) [of w w'] unfolding memory_ok_def by (auto simp: quiet_def)

lemma quiet_key: "quiet w w' \<Longrightarrow> p \<in> dom (helems w) \<Longrightarrow> elem_key w' p = elem_key w p"
  using quiet_elem(1) unfolding elem_key_def by fastforce

lemma quiet_cached: "quiet w w' \<Longrightarrow> set xs \<subseteq> dom (helems w) \<Longrightarrow> cached w' xs = cached w xs"
  using quiet_elem(1) [of w w'] unfolding cached_def by (fastforce dest: key_of_eid)

lemma inv_elem:
  assumes "hctl_inv cmp D H w xs" "p \<in> set xs"
  obtains e where "helems w p = Some e" "key_of e = key_for (eid e)" "key_of e \<in> D"
  using assms by (auto simp: hctl_inv_def)

lemma inv_dom: "hctl_inv cmp D H w xs \<Longrightarrow> set xs \<subseteq> dom (helems w)"
  by (auto simp: hctl_inv_def)

lemma inv_agree:
  assumes "hctl_inv cmp D H w xs" "memory_ok (elems H) w'"
    and "\<And>q. q \<in> set xs \<Longrightarrow> helems w' q = helems w q"
    and "\<And>q. q \<in> set (elems H # xs) \<Longrightarrow> hlinks w' q = hlinks w q"
  shows "hctl_inv cmp D H w' xs" "cached w' xs = cached w xs"
proof -
  have "map (elem_key w') xs = map (elem_key w) xs" using assms(3) by (simp add: elem_key_def)
  moreover have "ring (hlinks w') (elems H) xs = ring (hlinks w) (elems H) xs"
    by (rule ring_cong) (rule assms(4))
  moreover have "\<forall>q \<in> set xs. \<exists>e. helems w' q = Some e \<and> key_of e = key_for (eid e) \<and> key_of e \<in> D"
    using assms(1,3) by (simp add: hctl_inv_def)
  ultimately show "hctl_inv cmp D H w' xs"
    using assms(1,2) by (simp add: hctl_inv_def del: map_eq_conv)
  show "cached w' xs = cached w xs" using assms(3) by (simp add: cached_def)
qed

lemma inv_array:
  "hctl_inv cmp D H w xs \<Longrightarrow> array_holds H' xs \<Longrightarrow> elems H' = elems H \<Longrightarrow> compare H' = compare H \<Longrightarrow>
   hctl_inv cmp D H' w xs"
  by (simp add: hctl_inv_def)

lemma inv_quiet:
  assumes "hctl_inv cmp D H w xs" "quiet w w'"
  shows "hctl_inv cmp D H w' xs"
proof -
  have "\<exists>e. helems w' p = Some e \<and> key_of e = key_for (eid e) \<and> key_of e \<in> D" if "p \<in> set xs" for p
    using inv_elem [OF assms(1) that] quiet_elem(1) [OF assms(2)] by (metis key_of_eid)
  moreover have "map (elem_key w') xs = map (elem_key w) xs"
    using quiet_key [OF assms(2)] inv_dom [OF assms(1)] by (intro map_cong) blast+
  ultimately show ?thesis
    using assms quiet_memory [OF assms(2)] by (simp add: hctl_inv_def quiet_def del: map_eq_conv)
qed

lemma throw_quiet:
  assumes "callbacks_ok E" "p \<in> dom (helems w)"
  obtains r w' where "snd_hctl_throw_event E H m p w = Inr (r, w')" "quiet w w'"
proof (cases "hcallback H = 0")
  case True
  then show thesis using that by (simp add: snd_hctl_throw_event_def)
next
  case False
  then show thesis using that assms unfolding callbacks_ok_def snd_hctl_throw_event_def by (metis (full_types))
qed

lemma elem_throw_quiet:
  assumes "callbacks_ok E" "helems w p = Some e"
  obtains r w' where "snd_hctl_elem_throw_event E p m w = Inr (r, w')" "quiet w w'"
proof (cases "callback e = 0")
  case True
  then show thesis using that assms(2) by (simp add: snd_hctl_elem_throw_event_def)
next
  case False
  moreover obtain r w' where "elem_cb E (callback e) m p w = Inr (r, w')" "quiet w w'"
    using assms unfolding callbacks_ok_def by blast
  ultimately show thesis using that assms(2) by (simp add: snd_hctl_elem_throw_event_def)
qed


section \<open>Searching, adding and removing\<close>

text \<open>An order on keys is all that the array and the ring need.\<close>

locale hctl_order = three_way cmp D for cmp :: snd_hctl_compare_t and D :: "hkey set"
begin

lemma inv_ordered: "hctl_inv cmp D H w xs \<Longrightarrow> ordered (map (elem_key w) xs)"
  unfolding ordered_def by (force simp: hctl_inv_def elem_key_def)

lemma inv_key_at:
  assumes "hctl_inv cmp D H w xs" "i < length xs"
  shows "array_at H i = Some (xs ! i)" "key_at H w i = Some (elem_key w (xs ! i))"
proof -
  obtain ps where "pelems H = Some ps" "take (length xs) ps = xs" "length xs \<le> length ps"
    using assms by (auto simp: hctl_inv_def array_holds_def split: option.splits)
  then show a: "array_at H i = Some (xs ! i)"
    using assms(2) by (metis Option.bind.bind_lunit array_at_def array_get_def nth_take order_less_le_trans)
  obtain e where "helems w (xs ! i) = Some e" using inv_elem [OF assms(1), of "xs ! i"] assms(2) by auto
  then show "key_at H w i = Some (elem_key w (xs ! i))" using a by (simp add: key_at_def elem_key_def)
qed

definition known :: "snd_ctl_elem_id \<Rightarrow> snd_ctl_elem_id list \<Rightarrow> bool" where
  "known i ids = (\<exists>j \<in> set ids. cmp (key_for i) (key_for j) = 0)"

lemma inv_key_for:
  assumes "hctl_inv cmp D H w xs" "p \<in> set xs"
  shows "elem_key w p = key_for (eid (the (helems w p)))"
  by (rule inv_elem [OF assms]) (simp add: elem_key_def)

lemma known_iff:
  "hctl_inv cmp D H w xs \<Longrightarrow> known i (cached w xs) \<longleftrightarrow> (\<exists>p \<in> set xs. cmp (key_for i) (elem_key w p) = 0)"
  by (auto simp: known_def cached_def inv_key_for)

lemma find_cases:
  assumes "hctl_inv cmp D H w xs" "key_for i \<in> D"
  obtains (found) k where "k < length xs" "find_elem_idx H w i = Inr (int k, 0)"
      "cmp (key_for i) (elem_key w (xs ! k)) = 0" "known i (cached w xs)"
  | (empty) "xs = []" "find_elem_idx H w i = Inr (-1, 0)" "\<not> known i (cached w xs)"
  | (absent) k c where "k < length xs" "find_elem_idx H w i = Inr (int k, c)" "c \<noteq> 0"
      "\<not> known i (cached w xs)"
      "place (key_for i) (map (elem_key w) xs) = (if 0 < c then k + 1 else k)"
proof -
  let ?f = "\<lambda>j. map_option (cmp (key_for i)) (key_at H w j)"
  have c: "compare H = Some cmp" "count H = length xs"
    using assms(1) by (auto simp: hctl_inv_def array_holds_def)
  have fe: "find_elem_idx H w i = need (bisect ?f 0 (length xs) (-1) 0) Inr"
    using c by (simp add: find_elem_idx_def key_for_def)
  show thesis
  proof (cases "xs = []")
    case True
    then show thesis using fe by (intro empty) (simp_all add: known_def cached_def)
  next
    case False
    have f: "?f k = Some (cmp (key_for i) (map (elem_key w) xs ! k))" if "k < length (map (elem_key w) xs)" for k
      using inv_key_at(2) [OF assms(1), of k] that by simp
    show thesis
    proof (rule search_cases [OF inv_ordered [OF assms(1)] assms(2) f])
      show "map (elem_key w) xs \<noteq> []" using False by simp
    next
      fix k assume "k < length (map (elem_key w) xs)"
        "bisect ?f 0 (length (map (elem_key w) xs)) (-1) 0 = Some (int k, 0)"
        "cmp (key_for i) (map (elem_key w) xs ! k) = 0"
      then show thesis using fe known_iff [OF assms(1)] by (intro found [of k]) auto
    next
      fix k c assume "k < length (map (elem_key w) xs)"
        "bisect ?f 0 (length (map (elem_key w) xs)) (-1) 0 = Some (int k, c)" "c \<noteq> 0"
        "\<forall>x \<in> set (map (elem_key w) xs). cmp (key_for i) x \<noteq> 0"
        "place (key_for i) (map (elem_key w) xs) = (if 0 < c then k + 1 else k)"
      then show thesis using fe known_iff [OF assms(1)] by (intro absent [of k c]) auto
    qed
  qed
qed

end

text \<open>Putting an element at its place in the array and in the ring.\<close>

lemma array_insert:
  assumes "array_holds H xs" "count H < alloc H" "k \<le> length xs"
  obtains H1 qs where "array_move (k + 1) k (count H - k) H = Some H1"
    "array_put k p H1 = Some (H\<lparr>pelems := Some qs\<rparr>)"
    "array_holds (H\<lparr>pelems := Some qs, count := count H + 1\<rparr>) (take k xs @ p # drop k xs)"
proof -
  let ?ys = "take k xs @ p # drop k xs"
  obtain ps where ps: "pelems H = Some ps" "length ps = alloc H" "take (length xs) ps = xs" "count H = length xs"
    using assms(1,2) by (auto simp: array_holds_def split: option.splits)
  then obtain rest where r: "ps = xs @ rest" "rest \<noteq> []"
    using assms(2) by (metis append_Nil2 append_take_drop_id less_irrefl)
  obtain qs where m: "memmove (k + 1) k (length xs - k) ps = Some qs" "array_set qs k p = Some (?ys @ tl rest)"
    using insert_open [OF assms(3) r(2), of p] r(1) by (auto simp: bind_eq_Some_conv)
  have len: "length ?ys = Suc (length xs)" using assms(3) by simp
  then have "take (Suc (length xs)) (?ys @ tl rest) = ?ys" by (metis append_eq_conv_conj)
  moreover have "length (?ys @ tl rest) = alloc H" using ps(2) r assms(3) by (cases rest) auto
  ultimately show thesis
    using ps m assms(2) len
    by (intro that [of "H\<lparr>pelems := Some qs\<rparr>" "?ys @ tl rest"])
      (simp_all add: array_move_def array_put_def array_holds_def)
qed

lemma array_first:
  assumes "array_holds H []" "0 < alloc H"
  obtains qs where "array_put 0 p H = Some (H\<lparr>pelems := Some qs\<rparr>)"
    "array_holds (H\<lparr>pelems := Some qs, count := 1\<rparr>) [p]"
proof -
  obtain q qs where "pelems H = Some (q # qs)" "length (q # qs) = alloc H" "count H = 0"
    using assms by (auto simp: array_holds_def length_Suc_conv gr0_conv_Suc split: option.splits)
  then show thesis using assms
    by (intro that [of "p # qs"]) (auto simp: array_put_def array_set_def array_holds_def)
qed

lemma set_insert_nth: "set (take k xs @ p # drop k xs) = insert p (set xs)"
  by (metis append_take_drop_id list.simps(15) set_append Un_insert_right)

lemma ring_place:
  assumes "ring L h xs" "k < length xs" "p \<in> dom L" "p \<notin> set (h # xs)"
  obtains L' where "(if 0 < (c :: int) then list_add p (xs ! k) else list_add_tail p (xs ! k)) L = Some L'"
    "ring L' h (take (if 0 < c then k + 1 else k) xs @ p # drop (if 0 < c then k + 1 else k) xs)"
    "dom L' = dom L"
proof (cases "0 < c")
  case True
  have "last (h # take (k + 1) xs) = xs ! k" using assms(2) by (simp add: take_Suc_conv_app_nth)
  then show thesis
    using list_add_after [of L h "take (k + 1) xs" "drop (k + 1) xs" p "xs ! k"] assms True that by auto
next
  case False
  have "hd (drop k xs @ [h]) = xs ! k" using assms(2) by (simp add: hd_drop_conv_nth)
  then show thesis
    using list_add_before [of L h "take k xs" "drop k xs" p "xs ! k"] assms False that by auto
qed

context hctl_order
begin

lemma inv_insert:
  assumes "hctl_inv cmp D H w xs" "p \<notin> set xs" "\<not> known (eid e) (cached w xs)"
    and e: "helems w p = Some e" "key_of e = key_for (eid e)" "key_for (eid e) \<in> D"
    and k: "k = place (key_for (eid e)) (map (elem_key w) xs)"
    and a: "array_holds (H\<lparr>pelems := Some qs, count := count H + 1\<rparr>) (take k xs @ p # drop k xs)"
    and L: "ring L' (elems H) (take k xs @ p # drop k xs)" "dom L' = dom (hlinks w)"
  shows "hctl_inv cmp D (H\<lparr>pelems := Some qs, count := count H + 1\<rparr>) (w\<lparr>hlinks := L'\<rparr>)
    (take k xs @ p # drop k xs)"
proof -
  have "\<forall>x \<in> set (map (elem_key w) xs). cmp (key_for (eid e)) x \<noteq> 0"
    using assms(3) known_iff [OF assms(1)] by auto
  then have "ordered (take k (map (elem_key w) xs) @ key_for (eid e) # drop k (map (elem_key w) xs))"
    using insert_place [OF inv_ordered [OF assms(1)] e(3)] k by simp
  then have "ordered (map (elem_key w) (take k xs @ p # drop k xs))"
    using e by (simp add: elem_key_def take_map drop_map)
  moreover have "memory_ok (elems H) (w\<lparr>hlinks := L'\<rparr>)"
    using assms(1) L(2) by (auto simp: hctl_inv_def intro: memory_links)
  moreover have "\<forall>q \<in> set (take k xs @ p # drop k xs). \<exists>e. helems w q = Some e \<and> key_of e = key_for (eid e) \<and> key_of e \<in> D"
    unfolding set_insert_nth using assms(1) e by (auto simp: hctl_inv_def)
  ultimately show ?thesis
    using assms(1) a L(1) by (simp add: hctl_inv_def ordered_def)
qed

lemma place_ok:
  assumes "hctl_inv cmp D H w xs" "p \<notin> set xs" "count H < alloc H"
    and e: "helems w p = Some e" "key_of e = key_for (eid e)" "key_for (eid e) \<in> D"
  obtains "known (eid e) (cached w xs)" "hctl_place p e H w = Inl ABORT"
  | qs L' ys where "\<not> known (eid e) (cached w xs)"
      "hctl_place p e H w = Inr (H\<lparr>pelems := Some qs\<rparr>, w\<lparr>hlinks := L'\<rparr>)"
      "hctl_inv cmp D (H\<lparr>pelems := Some qs, count := count H + 1\<rparr>) (w\<lparr>hlinks := L'\<rparr>) ys"
      "set ys = insert p (set xs)"
proof -
  have inv: "array_holds H xs" "ring (hlinks w) (elems H) xs" "memory_ok (elems H) w" "count H = length xs"
    using assms(1) by (auto simp: hctl_inv_def array_holds_def)
  have p: "p \<in> dom (hlinks w)" "p \<notin> set (elems H # xs)"
    using inv(3) e(1) assms(2) by (auto simp: memory_ok_def)
  show thesis
  proof (rule find_cases [OF assms(1) e(3)])
    fix k assume "k < length xs" "find_elem_idx H w (eid e) = Inr (int k, 0)" "known (eid e) (cached w xs)"
    then show thesis using inv(4) by (intro that(1)) (auto simp: hctl_place_def)
  next
    assume x: "xs = []" "\<not> known (eid e) (cached w xs)"
    obtain qs where H2: "array_put 0 p H = Some (H\<lparr>pelems := Some qs\<rparr>)"
      "array_holds (H\<lparr>pelems := Some qs, count := 1\<rparr>) [p]"
      using array_first [of H p] inv(1,4) assms(3) x by auto
    obtain L' where L: "list_add_tail p (elems H) (hlinks w) = Some L'" "ring L' (elems H) [p]" "dom L' = dom (hlinks w)"
      using list_add_back [OF inv(2) p] x by auto
    have "hctl_place p e H w = Inr (H\<lparr>pelems := Some qs\<rparr>, w\<lparr>hlinks := L'\<rparr>)"
      using H2(1) L(1) x(1) inv(4) by (simp add: hctl_place_def on_links_def)
    moreover have "hctl_inv cmp D (H\<lparr>pelems := Some qs, count := count H + 1\<rparr>) (w\<lparr>hlinks := L'\<rparr>) [p]"
      using inv_insert [OF assms(1,2) x(2) e, of 0 qs L'] H2(2) L(2,3) x(1) inv(4) by (simp add: place_def)
    ultimately show thesis using x by (intro that(2)) auto
  next
    fix k c assume f: "k < length xs" "find_elem_idx H w (eid e) = Inr (int k, c)" "c \<noteq> 0"
      and n: "\<not> known (eid e) (cached w xs)"
      and pl: "place (key_for (eid e)) (map (elem_key w) xs) = (if 0 < c then k + 1 else k)"
    let ?i = "if 0 < c then k + 1 else k"
    obtain L' where L: "(if 0 < c then list_add p (xs ! k) else list_add_tail p (xs ! k)) (hlinks w) = Some L'"
      "ring L' (elems H) (take ?i xs @ p # drop ?i xs)" "dom L' = dom (hlinks w)"
      using ring_place [OF inv(2) f(1) p, of c] by blast
    have "?i \<le> length xs" using f(1) by simp
    then obtain H1 qs where H: "array_move (?i + 1) ?i (count H - ?i) H = Some H1"
      "array_put ?i p H1 = Some (H\<lparr>pelems := Some qs\<rparr>)"
      "array_holds (H\<lparr>pelems := Some qs, count := count H + 1\<rparr>) (take ?i xs @ p # drop ?i xs)"
      using array_insert [OF inv(1) assms(3)] by metis
    have "hctl_place p e H w = Inr (H\<lparr>pelems := Some qs\<rparr>, w\<lparr>hlinks := L'\<rparr>)"
      using f inv(4) inv_key_at(1) [OF assms(1) f(1)] L(1) H(1,2)
      by (cases "0 < c") (auto simp: hctl_place_def on_links_def Let_def)
    then show thesis
      using inv_insert [OF assms(1,2) n e pl [symmetric] H(3) L(2,3)] n set_insert_nth [of ?i xs p]
      by (intro that(2))
  qed
qed

text \<open>Adding an element that is not in the array yet.\<close>

lemma grow_ok:
  assumes "array_holds H xs"
  obtains "hctl_grow H w = (False, H, w)" "hbudget w = 0"
  | ps a b where "hctl_grow H w = (True, H\<lparr>alloc := a, pelems := ps\<rparr>, w\<lparr>hbudget := b\<rparr>)"
      "array_holds (H\<lparr>alloc := a, pelems := ps\<rparr>) xs" "count H < a"
proof (cases "count H = alloc H")
  case True
  show thesis
  proof (cases "hbudget w = 0")
    case True
    then show thesis using that(1) \<open>count H = alloc H\<close> by (simp add: hctl_grow_def)
  next
    case False
    let ?ps = "case pelems H of None \<Rightarrow> [] | Some ps \<Rightarrow> ps"
    have "length ?ps = alloc H" "take (length xs) ?ps = xs" "count H = length xs"
      using assms by (auto simp: array_holds_def split: option.splits)
    then show thesis
      using True False by (intro that(2) [of "Some (?ps @ replicate 32 0)" "alloc H + 32" "hbudget w - 1"])
        (auto simp: hctl_grow_def array_holds_def)
  qed
next
  case False
  then have "count H < alloc H" using assms by (auto simp: array_holds_def)
  then show thesis
    using False assms by (intro that(2) [of "pelems H" "alloc H" "hbudget w"]) (simp_all add: hctl_grow_def)
qed

lemma elem_add_ok:
  assumes "hctl_inv cmp D H w xs" "p \<notin> set xs" "helems w p = Some e" "key_for (eid e) \<in> D" "callbacks_ok E"
  obtains (nomem) w' where "hbudget w = 0" "snd_hctl_elem_add E p H w = Inr (neg_ENOMEM, H, w')"
      "hctl_inv cmp D H w' xs" "cached w' xs = cached w xs"
  | (abort) "known (eid e) (cached w xs)" "snd_hctl_elem_add E p H w = Inl ABORT"
  | (added) r H' w' ys where "\<not> known (eid e) (cached w xs)" "snd_hctl_elem_add E p H w = Inr (r, H', w')"
      "hctl_inv cmp D H' w' ys" "set (cached w' ys) = insert (eid e) (set (cached w xs))"
      "elems H' = elems H" "compare H' = compare H"
proof -
  let ?e = "e\<lparr>compare_weight := get_compare_weight (eid e)\<rparr>"
  let ?w = "w\<lparr>helems := (helems w)(p \<mapsto> ?e)\<rparr>"
  have same: "elem_key ?w q = elem_key w q" "eid (the (helems ?w q)) = eid (the (helems w q))" if "q \<in> set xs" for q
    using that assms(2) by (auto simp: elem_key_def)
  have "memory_ok (elems H) ?w" using assms(1,3) by (auto simp: hctl_inv_def memory_ok_def)
  moreover have "map (elem_key ?w) xs = map (elem_key w) xs" using same by simp
  moreover have "\<forall>q \<in> set xs. helems ?w q = helems w q" using assms(2) by auto
  ultimately have inv: "hctl_inv cmp D H ?w xs"
    using assms(1) by (simp add: hctl_inv_def del: map_eq_conv fun_upd_apply)
  have ids: "cached ?w xs = cached w xs" using same by (simp add: cached_def)
  have "hctl_place p e = (hctl_place p ?e :: snd_hctl \<Rightarrow> 'a hworld \<Rightarrow> _)"
    by (simp add: hctl_place_def [abs_def] cong: if_cong)
  then have add: "snd_hctl_elem_add E p H w = (case hctl_grow H ?w of (ok, H, w) \<Rightarrow>
       if \<not> ok then Inr (neg_ENOMEM, H, w)
       else cbind (hctl_place p ?e H w) (\<lambda>(H, w).
            let H = H\<lparr>count := count H + 1\<rparr> in
            cbind (snd_hctl_throw_event E H MASK_ADD p w) (\<lambda>(r, w). Inr (r, H, w))))"
    using assms(3) by (simp add: snd_hctl_elem_add_def upd_elem_def cong: if_cong)
  have "array_holds H xs" using inv by (simp add: hctl_inv_def)
  then show thesis
  proof (rule grow_ok [where w = ?w])
    assume "hctl_grow H ?w = (False, H, ?w)" "hbudget ?w = 0"
    then show thesis using add inv ids by (intro nomem [of ?w]) simp_all
  next
    fix ps a b
    let ?H1 = "H\<lparr>alloc := a, pelems := ps\<rparr>" and ?w1 = "?w\<lparr>hbudget := b\<rparr>"
    assume g: "hctl_grow H ?w = (True, ?H1, ?w1)" "array_holds ?H1 xs" "count H < a"
    have "quiet ?w ?w1" by (simp add: quiet_def)
    then have "hctl_inv cmp D H ?w1 xs" and ids1: "cached ?w1 xs = cached w xs"
      using inv_quiet [OF inv] quiet_cached [of ?w ?w1 xs] inv_dom [OF inv] ids by simp_all
    then have inv1: "hctl_inv cmp D ?H1 ?w1 xs" using g(2) by (auto intro: inv_array)
    have e: "helems ?w1 p = Some ?e" "key_of ?e = key_for (eid ?e)" "key_for (eid ?e) \<in> D"
      using assms(4) by (simp_all add: key_of_def key_for_def)
    show thesis
    proof (rule place_ok [OF inv1 assms(2) _ e])
      show "count ?H1 < alloc ?H1" using g(3) by simp
    next
      assume "known (eid ?e) (cached ?w1 xs)" "hctl_place p ?e ?H1 ?w1 = Inl ABORT"
      then show thesis using add g(1) ids1 by (intro abort) simp_all
    next
      fix qs L' ys
      let ?H2 = "?H1\<lparr>pelems := Some qs, count := count ?H1 + 1\<rparr>" and ?w2 = "?w1\<lparr>hlinks := L'\<rparr>"
      assume k: "\<not> known (eid ?e) (cached ?w1 xs)"
        and pl: "hctl_place p ?e ?H1 ?w1 = Inr (?H1\<lparr>pelems := Some qs\<rparr>, ?w2)"
        and inv2: "hctl_inv cmp D ?H2 ?w2 ys" and ys: "set ys = insert p (set xs)"
      obtain r w3 where t: "snd_hctl_throw_event E ?H2 MASK_ADD p ?w2 = Inr (r, w3)" "quiet ?w2 w3"
        by (rule throw_quiet [OF assms(5), of p ?w2]) auto
      have "set (cached w3 ys) = set (cached ?w2 ys)"
        using quiet_cached [OF t(2)] inv_dom [OF inv2] by simp
      also have "\<dots> = insert (eid e) (set (cached w xs))"
        using ys ids1 by (simp add: cached_def)
      finally show thesis
        using add g(1) pl t(1) k ids1 inv_quiet [OF inv2 t(2)]
        by (intro added [of r ?H2 w3 ys]) (simp_all add: Let_def)
    qed
  qed
qed

lemma calloc_ok:
  assumes "hctl_inv cmp D H w xs" "hbudget w \<noteq> 0"
  obtains p w' where "calloc_elem w = (p, w')" "p \<noteq> 0" "p \<notin> set (elems H # xs)" "p = Suc (hbrk w)"
    "p \<in> dom (helems w')" "\<And>f. memory_ok (elems H) (w'\<lparr>helems := (helems w')(p \<mapsto> f)\<rparr>)"
    "\<And>f. hctl_inv cmp D H (w'\<lparr>helems := (helems w')(p \<mapsto> f)\<rparr>) xs"
    "\<And>f. cached (w'\<lparr>helems := (helems w')(p \<mapsto> f)\<rparr>) xs = cached w xs"
proof -
  let ?p = "Suc (hbrk w)"
  have m: "memory_ok (elems H) w" using assms(1) by (simp add: hctl_inv_def)
  then have p: "?p \<notin> set (elems H # xs)"
    using inv_dom [OF assms(1)] by (auto simp: memory_ok_def)
  obtain w' where w': "calloc_elem w = (?p, w')" "?p \<in> dom (helems w')" "hbrk w' = ?p"
    "\<And>q. q \<noteq> ?p \<Longrightarrow> helems w' q = helems w q" "\<And>q. q \<noteq> ?p \<Longrightarrow> hlinks w' q = hlinks w q"
    "?p \<in> dom (hlinks w')"
    using assms(2) by (auto simp: calloc_elem_def)
  have mem: "memory_ok (elems H) (w'\<lparr>helems := (helems w')(?p \<mapsto> f)\<rparr>)" for f
  proof -
    have "q \<in> dom (hlinks w')" if "q \<in> dom (helems w')" for q
      using m that w'(4) [of q] w'(5) [of q] w'(6)
      by (cases "q = ?p") (auto simp: memory_ok_def domIff subset_iff)
    then show ?thesis using m p w'(2-6) unfolding memory_ok_def by (auto split: if_splits)
  qed
  note a = inv_agree [OF assms(1) mem]
  have h: "helems (w'\<lparr>helems := (helems w')(?p \<mapsto> f)\<rparr>) q = helems w q" if "q \<in> set xs" for f q
    using that p by (subst w'(4) [symmetric]) auto
  have l: "hlinks (w'\<lparr>helems := (helems w')(?p \<mapsto> f)\<rparr>) q = hlinks w q" if "q \<in> set (elems H # xs)" for f q
    using that p by (simp, intro w'(5)) auto
  show thesis
    by (rule that [OF w'(1) _ p _ w'(2) mem a(1) [OF h l] a(2) [OF h l]]) simp_all
qed

lemma add_event_ok:
  assumes "hctl_inv cmp D H w xs" "key_for i \<in> D" "callbacks_ok E"
  obtains (nomem) w' where "hbudget w < 2" "hctl_add_event E i H w = Inr (neg_ENOMEM, H, w')"
      "hctl_inv cmp D H w' xs" "cached w' xs = cached w xs"
  | (abort) "known i (cached w xs)" "hctl_add_event E i H w = Inl ABORT"
  | (added) r H' w' ys where "\<not> known i (cached w xs)" "hctl_add_event E i H w = Inr (r, H', w')"
      "hctl_inv cmp D H' w' ys" "set (cached w' ys) = insert i (set (cached w xs))"
proof (cases "hbudget w = 0")
  case True
  then show thesis using assms(1) by (intro nomem [of w]) (simp_all add: hctl_add_event_def calloc_elem_def)
next
  case False
  obtain p w1 where c: "calloc_elem w = (p, w1)" "p \<noteq> 0" "p \<notin> set (elems H # xs)" "p \<in> dom (helems w1)"
    and inv: "\<And>f. hctl_inv cmp D H (w1\<lparr>helems := (helems w1)(p \<mapsto> f)\<rparr>) xs"
    and ids: "\<And>f. cached (w1\<lparr>helems := (helems w1)(p \<mapsto> f)\<rparr>) xs = cached w xs"
    by (rule calloc_ok [OF assms(1) False]) blast
  from c(4) obtain e where e: "helems w1 p = Some e" by blast
  let ?w = "w1\<lparr>helems := (helems w1)(p \<mapsto> e\<lparr>eid := i\<rparr>)\<rparr>"
  have b: "hbudget ?w = hbudget w - 1" using c(1) False by (auto simp: calloc_elem_def)
  have ev: "hctl_add_event E i H w = snd_hctl_elem_add E p H ?w"
    using c(1,2) e by (simp add: hctl_add_event_def upd_elem_def)
  show thesis
    by (rule elem_add_ok [OF inv, of p "e\<lparr>eid := i\<rparr>" "e\<lparr>eid := i\<rparr>" E])
      (use c(3) assms(2,3) b False ids ev in \<open>auto intro: nomem abort added\<close>)
qed

text \<open>Removing the element at an index.\<close>

lemma array_delete:
  assumes "array_holds H xs" "k < length xs"
  obtains H' where "(if 0 < count H - 1 - k then array_move k (k + 1) (count H - 1 - k) (H\<lparr>count := count H - 1\<rparr>)
      else Some (H\<lparr>count := count H - 1\<rparr>)) = Some H'"
    "array_holds H' (take k xs @ drop (k + 1) xs)" "elems H' = elems H" "compare H' = compare H"
    "hcallback H' = hcallback H"
proof -
  obtain ps where ps: "pelems H = Some ps" "length ps = alloc H" "take (length xs) ps = xs" "count H = length xs"
    "length xs \<le> alloc H"
    using assms by (auto simp: array_holds_def split: option.splits)
  then obtain rest where r: "ps = xs @ rest" by (metis append_take_drop_id)
  let ?ys = "take k xs @ drop (k + 1) xs"
  have len: "length ?ys = length xs - 1" using assms(2) by simp
  show thesis
  proof (cases "0 < length xs - 1 - k")
    case True
    obtain y where y: "memmove k (k + 1) (length xs - 1 - k) ps = Some (?ys @ y # rest)"
      using memmove_close [of xs "length xs" k rest] assms(2) ps(2,5) r by auto
    have "take (length xs - 1) (?ys @ y # rest) = ?ys" using len by (metis append_eq_conv_conj)
    moreover have "length (?ys @ y # rest) = alloc H" using ps(2) r assms(2) by simp
    ultimately show thesis
      using True ps len y by (intro that [of "H\<lparr>count := count H - 1, pelems := Some (?ys @ y # rest)\<rparr>"])
        (simp_all add: array_move_def array_holds_def)
  next
    case False
    then have k: "k = length xs - 1" using assms(2) by simp
    then have "take (length xs - 1) ps = ?ys" using ps(3) r assms(2) by simp
    then show thesis
      using False ps len by (intro that [of "H\<lparr>count := count H - 1\<rparr>"]) (simp_all add: array_holds_def)
  qed
qed

lemma elem_remove_ok:
  assumes "hctl_inv cmp D H w xs" "k < length xs" "callbacks_ok E"
  obtains H' w' where "snd_hctl_elem_remove E k H w = Inr (H', w')"
    "hctl_inv cmp D H' w' (take k xs @ drop (k + 1) xs)"
    "cached w' (take k xs @ drop (k + 1) xs) = cached w (take k xs @ drop (k + 1) xs)"
    "elems H' = elems H" "compare H' = compare H" "dom (helems w') = dom (helems w) - {xs ! k}"
proof -
  let ?p = "xs ! k" and ?ys = "take k xs @ drop (k + 1) xs"
  have p: "?p \<in> set xs" using assms(2) by simp
  obtain e where e: "helems w ?p = Some e" by (rule inv_elem [OF assms(1) p])
  obtain r w1 where t: "snd_hctl_elem_throw_event E ?p MASK_REMOVE w = Inr (r, w1)" "quiet w w1"
    by (rule elem_throw_quiet [OF assms(3) e])
  have inv1: "hctl_inv cmp D H w1 xs" by (rule inv_quiet [OF assms(1) t(2)])
  have d: "distinct xs" "ring (hlinks w1) (elems H) xs" "array_holds H xs" "count H = length xs"
    "memory_ok (elems H) w1"
    using inv1 by (auto simp: hctl_inv_def ring_def array_holds_def)
  have ys: "remove1 ?p xs = ?ys" using remove_at [OF d(1) assms(2)] by simp
  obtain L where L: "list_del ?p (hlinks w1) = Some L" "ring L (elems H) ?ys" "dom L = dom (hlinks w1)"
    using list_del_member [OF d(2) p] ys by auto
  let ?w2 = "w1\<lparr>hlinks := L\<rparr>"
  let ?w3 = "?w2\<lparr>helems := (helems ?w2)(?p := None), hlinks := (hlinks ?w2)(?p := None)\<rparr>"
  have ps: "?p \<notin> set (elems H # ?ys)"
    using d(1,2) p unfolding ys [symmetric] by (auto simp: ring_def)
  obtain e1 where e1: "helems w1 ?p = Some e1" by (rule inv_elem [OF inv1 p])
  obtain H' where H': "(if 0 < count H - 1 - k then array_move k (k + 1) (count H - 1 - k) (H\<lparr>count := count H - 1\<rparr>)
      else Some (H\<lparr>count := count H - 1\<rparr>)) = Some H'" "array_holds H' ?ys" "elems H' = elems H"
    "compare H' = compare H" "hcallback H' = hcallback H"
    by (rule array_delete [OF d(3) assms(2)])
  have rem: "snd_hctl_elem_remove E k H w = Inr (H', ?w3)"
    using inv_key_at(1) [OF assms(1,2)] t(1) L(1) e1 H'(1) d(4) assms(2)
    by (auto simp: snd_hctl_elem_remove_def on_links_def free_elem_def Let_def split: if_splits)
  have sub: "set ?ys \<subseteq> set xs" unfolding ys [symmetric] by (rule set_remove1_subset)
  have "map (elem_key w1) xs = map (elem_key w1) (take k xs) @ elem_key w1 ?p # map (elem_key w1) (drop (k + 1) xs)"
    using id_take_nth_drop [OF assms(2)] by (metis Suc_eq_plus1 list.simps(9) map_append)
  then have o: "sorted_wrt (\<lambda>x y. cmp x y < 0) (map (elem_key w1) ?ys)"
    using inv_ordered [OF inv1] by (simp add: ordered_append ordered_Cons ordered_def sorted_wrt_append)
  have i2: "hctl_inv cmp D H' ?w2 ?ys"
    using inv1 H'(2-4) L(2) o sub memory_links [OF d(5), of L] L(3) unfolding hctl_inv_def by auto
  have m3: "memory_ok (elems H') ?w3"
    using memory_free [OF memory_links [OF d(5) L(3)], of ?p] H'(3) by simp
  have q: "q \<noteq> ?p" if "q \<in> set (elems H' # ?ys)" for q
    using ps that unfolding H'(3) by metis
  then have "hctl_inv cmp D H' ?w3 ?ys"
    by (intro inv_agree(1) [OF i2 m3]) simp_all
  moreover have "cached ?w3 ?ys = cached w1 ?ys"
    using q by (simp add: cached_def)
  moreover have "cached w1 ?ys = cached w ?ys"
    by (rule quiet_cached [OF t(2)]) (use sub inv_dom [OF assms(1)] in blast)
  moreover have "dom (helems ?w3) = dom (helems w) - {?p}" using quiet_dom [OF t(2)] by auto
  ultimately show thesis using H'(3,4) by (intro that [OF rem]) simp_all
qed

text \<open>Looking an identifier up.\<close>

lemma find_elem_ok:
  assumes "hctl_inv cmp D H w xs" "key_for i \<in> D"
  obtains (found) p where "snd_hctl_find_elem H i w = Inr (Some p)" "p \<in> set xs" "cmp (key_for i) (elem_key w p) = 0"
      "known i (cached w xs)"
  | (none) "snd_hctl_find_elem H i w = Inr None" "\<not> known i (cached w xs)"
proof (rule find_cases [OF assms])
  fix k assume "k < length xs" "find_elem_idx H w i = Inr (int k, 0)"
    "cmp (key_for i) (elem_key w (xs ! k)) = 0" "known i (cached w xs)"
  then show thesis
    using inv_key_at(1) [OF assms(1)] by (intro found [of "xs ! k"]) (simp_all add: snd_hctl_find_elem_def)
qed (use none in \<open>simp_all add: snd_hctl_find_elem_def\<close>)

lemma remove_event_ok:
  assumes "hctl_inv cmp D H w xs" "key_for i \<in> D" "callbacks_ok E"
  obtains (abort) "\<not> known i (cached w xs)" "hctl_remove_event E i H w = Inl ABORT"
  | (removed) H' w' ys where "known i (cached w xs)" "hctl_remove_event E i H w = Inr (0, H', w')"
      "hctl_inv cmp D H' w' ys"
      "set (cached w' ys) = {j \<in> set (cached w xs). cmp (key_for i) (key_for j) \<noteq> 0}"
proof (rule find_cases [OF assms(1,2)])
  fix k assume f: "k < length xs" "find_elem_idx H w i = Inr (int k, 0)"
    "cmp (key_for i) (elem_key w (xs ! k)) = 0" "known i (cached w xs)"
  let ?ys = "take k xs @ drop (k + 1) xs"
  obtain H' w' where r: "snd_hctl_elem_remove E k H w = Inr (H', w')" "hctl_inv cmp D H' w' ?ys"
    "cached w' ?ys = cached w ?ys"
    by (rule elem_remove_ok [OF assms(1) f(1) assms(3)])
  have d: "distinct xs" using assms(1) by (simp add: hctl_inv_def ring_def)
  have o: "ordered (map (elem_key w) xs)" by (rule inv_ordered [OF assms(1)])
  have D: "elem_key w (xs ! j) \<in> D" if "j < length xs" for j using ordered_mem [OF o, of j] that by simp
  have "cmp (key_for i) (elem_key w (xs ! j)) \<noteq> 0" if j: "j < length xs" "j \<noteq> k" for j
  proof
    assume z: "cmp (key_for i) (elem_key w (xs ! j)) = 0"
    have "cmp (elem_key w (xs ! a)) (elem_key w (xs ! b)) < 0" if "a < b" "b < length xs" for a b
      using ordered_nth_less [OF o that(1)] that by simp
    then consider "cmp (elem_key w (xs ! j)) (elem_key w (xs ! k)) < 0" | "cmp (elem_key w (xs ! k)) (elem_key w (xs ! j)) < 0"
      using j f(1) by (metis linorder_neqE_nat)
    then show False
      using zero_cong [OF assms(2) D [OF j(1)] D [OF f(1)] z] zero_cong [OF assms(2) D [OF f(1)] D [OF j(1)] f(3)] z f(3)
      by cases auto
  qed
  then have "cmp (key_for i) (elem_key w p) \<noteq> 0 \<longleftrightarrow> p \<noteq> xs ! k" if "p \<in> set xs" for p
    using that f(3) by (metis in_set_conv_nth)
  moreover have "set ?ys = set xs - {xs ! k}"
    using remove_at [OF d f(1)] set_remove1_eq [OF d] by metis
  ultimately have m: "set ?ys = {p \<in> set xs. cmp (key_for i) (elem_key w p) \<noteq> 0}" by auto
  have "set (cached w ?ys) = {j \<in> set (cached w xs). cmp (key_for i) (key_for j) \<noteq> 0}"
    unfolding cached_def set_map m using inv_key_for [OF assms(1)] by auto
  then show thesis using removed [OF f(4) _ r(2)] f(2) r(1,3) by (simp add: hctl_remove_event_def)
qed (use abort in \<open>simp_all add: hctl_remove_event_def\<close>)

lemma change_event_ok:
  assumes "hctl_inv cmp D H w xs" "key_for i \<in> D" "callbacks_ok E"
  obtains (abort) "\<not> known i (cached w xs)" "hctl_change_event E m i H w = Inl ABORT"
  | (changed) r w' where "known i (cached w xs)" "hctl_change_event E m i H w = Inr (r, H, w')"
      "hctl_inv cmp D H w' xs" "cached w' xs = cached w xs"
proof (rule find_elem_ok [OF assms(1,2)])
  fix p assume f: "snd_hctl_find_elem H i w = Inr (Some p)" "p \<in> set xs" "known i (cached w xs)"
  obtain e where e: "helems w p = Some e" by (rule inv_elem [OF assms(1) f(2)])
  obtain r w' where t: "snd_hctl_elem_throw_event E p (and m (or MASK_VALUE MASK_INFO)) w = Inr (r, w')" "quiet w w'"
    by (rule elem_throw_quiet [OF assms(3) e])
  show thesis
    by (rule changed [of "if r < 0 then r else 0" w'])
      (use f t inv_quiet [OF assms(1) t(2)] quiet_cached [OF t(2) inv_dom [OF assms(1)]] in
        \<open>simp_all add: hctl_change_event_def\<close>)
qed (use abort in \<open>simp_all add: hctl_change_event_def\<close>)

end

section \<open>Events\<close>

text \<open>
  What an event does to the set of cached identifiers; \<open>None\<close> for an event that contradicts
  it. Identifiers are the same when the comparison of their keys is 0.
\<close>

definition cached_as :: "snd_hctl_compare_t \<Rightarrow> snd_ctl_elem_id \<Rightarrow> snd_ctl_elem_id set \<Rightarrow> bool" where
  "cached_as cmp i S = (\<exists>j \<in> S. cmp (key_for i) (key_for j) = 0)"

fun event_spec :: "snd_hctl_compare_t \<Rightarrow> ctl_event \<Rightarrow> snd_ctl_elem_id set \<Rightarrow> snd_ctl_elem_id set option" where
  "event_spec cmp Other_event S = Some S"
| "event_spec cmp (Elem_event m i) S =
     (if m = MASK_REMOVE
      then if cached_as cmp i S then Some {j \<in> S. cmp (key_for i) (key_for j) \<noteq> 0} else None
      else if and m MASK_ADD \<noteq> 0
           then if cached_as cmp i S then None else Some (insert i S)
      else if and m (or MASK_VALUE MASK_INFO) \<noteq> 0
           then if cached_as cmp i S then Some S else None
      else Some S)"

fun event_id :: "ctl_event \<Rightarrow> snd_ctl_elem_id list" where
  "event_id Other_event = []"
| "event_id (Elem_event m i) = [i]"

definition event_result :: "snd_hctl_compare_t \<Rightarrow> hkey set \<Rightarrow> bool \<Rightarrow> snd_ctl_elem_id set option \<Rightarrow>
    snd_ctl_elem_id set \<Rightarrow> (int \<times> snd_hctl \<times> 'x hworld) cres \<Rightarrow> bool" where
  "event_result cmp D short spec S res =
     (case res of
        Inl err \<Rightarrow> err = ABORT \<and> spec = None
      | Inr (r, H', w') \<Rightarrow> \<exists>ys. hctl_inv cmp D H' w' ys \<and>
          (spec = Some (set (cached w' ys)) \<or> short \<and> r = neg_ENOMEM \<and> set (cached w' ys) = S))"

context hctl_order
begin

lemma known_cached_as: "known i ids = cached_as cmp i (set ids)"
  by (simp add: known_def cached_as_def)

lemma handle_event_ok:
  assumes "hctl_inv cmp D H w xs" "\<forall>i \<in> set (event_id ev). key_for i \<in> D" "callbacks_ok E"
  shows "event_result cmp D (hbudget w < 2) (event_spec cmp ev (set (cached w xs))) (set (cached w xs))
    (snd_hctl_handle_event E ev H w)"
proof (cases ev)
  case Other_event
  then show ?thesis using assms(1) by (auto simp: snd_hctl_handle_event_def event_result_def)
next
  case (Elem_event m i)
  then have D: "key_for i \<in> D" using assms(2) by simp
  note defs = Elem_event snd_hctl_handle_event_def event_result_def
  consider (remove) "m = MASK_REMOVE" | (add) "m \<noteq> MASK_REMOVE" "and m MASK_ADD \<noteq> 0"
    | (other) "m \<noteq> MASK_REMOVE" "and m MASK_ADD = 0" by blast
  then show ?thesis
  proof cases
    case remove
    then show ?thesis
      by (rule_tac remove_event_ok [OF assms(1) D assms(3)]) (auto simp: defs known_cached_as)
  next
    case add
    show ?thesis
    proof (rule add_event_ok [OF assms(1) D assms(3)])
      fix w' assume "hbudget w < 2" "hctl_add_event E i H w = Inr (neg_ENOMEM, H, w')"
        "hctl_inv cmp D H w' xs" "cached w' xs = cached w xs"
      then show ?thesis using add by (auto simp: defs intro!: exI [of _ xs])
    next
      assume "known i (cached w xs)" "hctl_add_event E i H w = Inl ABORT"
      then show ?thesis using add by (simp add: defs known_cached_as)
    next
      fix r H' w' ys
      assume a: "\<not> known i (cached w xs)" "hctl_add_event E i H w = Inr (r, H', w')"
        "hctl_inv cmp D H' w' ys" "set (cached w' ys) = insert i (set (cached w xs))"
      have k: "known i (cached w' ys)" using a(4) refl [OF D] by (auto simp: known_def)
      have "\<exists>r' w''. snd_hctl_handle_event E ev H w = Inr (r', H', w'') \<and> hctl_inv cmp D H' w'' ys \<and>
        cached w'' ys = cached w' ys"
      proof (cases "0 \<le> r \<and> and m (or MASK_VALUE MASK_INFO) \<noteq> 0")
        case False
        then show ?thesis
          using a(2,3) add by (cases "r < 0") (simp_all add: Elem_event snd_hctl_handle_event_def)
      next
        case True
        show ?thesis
          by (rule change_event_ok [OF a(3) D assms(3), of m])
            (use True a(2) add k in \<open>simp_all add: Elem_event snd_hctl_handle_event_def\<close>)
      qed
      moreover have "event_spec cmp ev (set (cached w xs)) = Some (insert i (set (cached w xs)))"
        using add a(1) by (simp add: Elem_event known_cached_as)
      ultimately show ?thesis using a(4) by (auto simp: event_result_def intro!: exI [of _ ys])
    qed
  next
    case other
    show ?thesis
    proof (cases "and m (or MASK_VALUE MASK_INFO) = 0")
      case True
      then show ?thesis using other assms(1) by (auto simp: defs)
    next
      case False
      show ?thesis
        by (rule change_event_ok [OF assms(1) D assms(3), of m])
          (use False other in \<open>auto simp: defs known_cached_as intro!: exI [of _ xs]\<close>)
    qed
  qed
qed

end

end
