(* ===== verification/HctlLoad.thy ===== *)
theory HctlLoad
  imports HctlProof
begin

text \<open>
  Loading the high level control interface from the device, sorting it and releasing it, on
  top of the invariant of HctlProof; and the properties of the whole interface for the
  comparison functions of the library.
\<close>

section \<open>Releasing, sorting and loading\<close>

lemma append_all_ok:
  assumes "ring L h xs" "distinct qs" "set qs \<subseteq> dom L" "set qs \<inter> set (h # xs) = {}"
  shows "\<exists>L'. append_all h qs L = Some L' \<and> ring L' h (xs @ qs) \<and> dom L' = dom L"
  using assms
proof (induction qs arbitrary: L xs)
  case (Cons q qs)
  obtain L1 where 1: "list_add_tail q h L = Some L1" "ring L1 h (xs @ [q])" "dom L1 = dom L"
    using list_add_back [OF Cons.prems(1), of q] Cons.prems(3,4) by auto
  then show ?case using Cons.IH [OF 1(2)] Cons.prems by auto
qed auto

lemma all_some_map: "(\<And>i. i \<in> set is \<Longrightarrow> f i = Some (g i)) \<Longrightarrow> all_some f is = Some (map g is)"
  by (induction "is") auto

lemma map_qinsert: "map f (qinsert (\<lambda>p q. cmp (f p) (f q)) p ps) = qinsert cmp (f p) (map f ps)"
  by (induction ps) auto

lemma map_qsort: "map f (qsort (\<lambda>p q. cmp (f p) (f q)) ps) = qsort cmp (map f ps)"
  by (induction ps) (simp_all add: qsort_def map_qinsert)

text \<open>The elements and the array before they are sorted.\<close>

definition unsorted :: "snd_hctl \<Rightarrow> 'x hworld \<Rightarrow> nat list \<Rightarrow> bool" where
  "unsorted H w xs =
     (array_holds H xs \<and> ring (hlinks w) (elems H) xs \<and> memory_ok (elems H) w \<and>
      (\<forall>p \<in> set xs. \<exists>e. helems w p = Some e \<and> key_of e = key_for (eid e)))"

lemma array_holds_at: "array_holds H xs \<Longrightarrow> i < length xs \<Longrightarrow> array_at H i = Some (xs ! i)"
  by (auto simp: array_holds_def array_at_def array_get_def split: option.splits)
    (metis nth_take)

context hctl_order
begin

lemma free_elems_ok:
  assumes "hctl_inv cmp D H w xs" "callbacks_ok E"
  shows "\<exists>H' w'. free_elems E (length xs) H w = Inr (H', w') \<and> hctl_inv cmp D H' w' [] \<and>
    dom (helems w') = dom (helems w) - set xs \<and> elems H' = elems H"
  using assms(1)
proof (induction xs arbitrary: H w rule: rev_induct)
  case Nil
  then show ?case by auto
next
  case (snoc x xs)
  obtain H1 w1 where r: "snd_hctl_elem_remove E (length xs) H w = Inr (H1, w1)"
    "hctl_inv cmp D H1 w1 (take (length xs) (xs @ [x]) @ drop (length xs + 1) (xs @ [x]))"
    "elems H1 = elems H" "dom (helems w1) = dom (helems w) - {(xs @ [x]) ! length xs}"
    by (rule elem_remove_ok [OF snoc.prems _ assms(2), of "length xs"]) auto
  have "count H = Suc (length xs)" using snoc.prems by (simp add: hctl_inv_def array_holds_def)
  moreover obtain H2 w2 where "free_elems E (length xs) H1 w1 = Inr (H2, w2)" "hctl_inv cmp D H2 w2 []"
    "dom (helems w2) = dom (helems w1) - set xs" "elems H2 = elems H1"
    using snoc.IH [of H1 w1] r(2) by auto
  ultimately show ?case using r by auto
qed

lemma sort_ok:
  assumes u: "unsorted H w xs" "compare H = Some cmp"
    and D: "\<forall>p \<in> set xs. elem_key w p \<in> D"
    and diff: "\<forall>p \<in> set xs. \<forall>q \<in> set xs. p \<noteq> q \<longrightarrow> cmp (elem_key w p) (elem_key w q) \<noteq> 0"
  obtains H' L ys where "snd_hctl_sort H w = Inr (H', w\<lparr>hlinks := L\<rparr>)" "hctl_inv cmp D H' (w\<lparr>hlinks := L\<rparr>) ys"
    "mset ys = mset xs" "count H' = count H"
proof -
  have i: "array_holds H xs" "ring (hlinks w) (elems H) xs" "memory_ok (elems H) w" "count H = length xs"
    using u(1) by (auto simp: unsorted_def array_holds_def)
  have e: "\<exists>e. helems w p = Some e \<and> key_of e = key_for (eid e)" if "p \<in> set xs" for p
    using u(1) that by (simp add: unsorted_def)
  let ?ys = "qsort (hctl_compare cmp w) xs"
  have c: "hctl_compare cmp w = (\<lambda>p q. cmp (elem_key w p) (elem_key w q))"
    by (simp add: hctl_compare_def elem_key_def fun_eq_iff)
  have "distinct (map (elem_key w) xs)"
    unfolding distinct_map using i(2) diff D refl by (fastforce simp: ring_def inj_on_def)
  then have "ordered (qsort cmp (map (elem_key w) xs))"
    using D diff by (intro ordered_qsort) auto
  then have o: "ordered (map (elem_key w) ?ys)" unfolding c by (simp add: map_qsort)
  obtain L0 where L0: "INIT_LIST_HEAD (elems H) (hlinks w) = Some L0" "ring L0 (elems H) []" "dom L0 = dom (hlinks w)"
    using INIT_LIST_HEAD_ok [of "elems H" "hlinks w"] ring_alloc [OF i(2)] by auto
  have "set xs \<subseteq> dom (hlinks w)" using ring_alloc [OF i(2)] by auto
  then obtain L where L: "append_all (elems H) ?ys L0 = Some L" "ring L (elems H) ?ys" "dom L = dom (hlinks w)"
    using append_all_ok [OF L0(2), of ?ys] L0(3) i(2) by (auto simp: ring_def)
  have a: "all_some (array_at H) [0..<count H] = Some xs"
    using all_some_map [of "[0..<count H]" "array_at H" "(!) xs"] array_holds_at [OF i(1)] i(4) by (simp add: map_nth)
  have h: "\<exists>es. all_some (helems w) xs = Some es"
    using all_some_map [of xs "helems w" "\<lambda>p. the (helems w p)"] e by force
  let ?H = "H\<lparr>pelems := map_option (\<lambda>rs. ?ys @ drop (count H) rs) (pelems H)\<rparr>"
  have "compare H = Some cmp" by (rule u(2))
  then have s: "snd_hctl_sort H w = Inr (?H, w\<lparr>hlinks := L\<rparr>)"
    using L0(1) a h L(1) by (auto simp: snd_hctl_sort_def on_links_def Let_def hctl_compare_def [abs_def])
  have "array_holds ?H ?ys"
    using i(1) by (auto simp: array_holds_def split: option.splits)
  moreover have "\<forall>p \<in> set ?ys. \<exists>e. helems w p = Some e \<and> key_of e = key_for (eid e) \<and> key_of e \<in> D"
    using e D by (fastforce simp: elem_key_def)
  ultimately have "hctl_inv cmp D ?H (w\<lparr>hlinks := L\<rparr>) ?ys"
    using u(2) L(2) o memory_links [OF i(3) L(3)] by (simp add: hctl_inv_def ordered_def)
  then show thesis using s by (intro that [of ?H L ?ys]) simp_all
qed

end

text \<open>Making the elements: as many as there are identifiers, in the order given.\<close>

lemma array_put_holds:
  assumes "array_holds H xs" "length xs < alloc H"
  obtains qs where "array_put (count H) p H = Some (H\<lparr>pelems := Some qs\<rparr>)"
    "array_holds (H\<lparr>pelems := Some qs, count := count H + 1\<rparr>) (xs @ [p])"
proof -
  obtain ps where ps: "pelems H = Some ps" "length ps = alloc H" "take (length xs) ps = xs" "count H = length xs"
    using assms by (auto simp: array_holds_def split: option.splits)
  moreover have "take (Suc (length xs)) (ps[length xs := p]) = xs @ [p]"
    using ps assms(2) by (simp add: take_Suc_conv_app_nth)
  ultimately show thesis
    using assms(2) by (intro that [of "ps[length xs := p]"])
      (simp_all add: array_put_def array_set_def array_holds_def)
qed

lemma load_elems_ok:
  assumes "unsorted H w xs" "length xs + length ids \<le> alloc H" "length ids \<le> hbudget w"
  shows "\<exists>H' w' ps. load_elems ids H w = Inr (True, H', w') \<and> unsorted H' w' (xs @ ps) \<and>
    cached w' (xs @ ps) = cached w xs @ ids \<and> elems H' = elems H \<and> compare H' = compare H \<and>
    alloc H' = alloc H \<and> count H' = count H + length ids"
  using assms
proof (induction ids arbitrary: H w xs)
  case Nil
  then show ?case by (auto intro!: exI [of _ "[]"])
next
  case (Cons i ids)
  let ?p = "Suc (hbrk w)"
  let ?e = "\<lparr>eid = i, compare_weight = get_compare_weight i, callback = 0, callback_private = 0\<rparr>"
  have u: "array_holds H xs" "ring (hlinks w) (elems H) xs" "memory_ok (elems H) w"
    "\<forall>p \<in> set xs. \<exists>e. helems w p = Some e \<and> key_of e = key_for (eid e)"
    using Cons.prems(1) by (auto simp: unsorted_def)
  obtain w1 where w1: "calloc_elem w = (?p, w1)" "hlinks w1 = (hlinks w)(?p \<mapsto> \<lparr>nxt = 0, prv = 0\<rparr>)"
    "hbudget w1 = hbudget w - 1" "upd_elem ?p (\<lambda>e. e\<lparr>eid := i, compare_weight := get_compare_weight i\<rparr>) w1 =
      Some (w1\<lparr>helems := (helems w)(?p \<mapsto> ?e)\<rparr>)" "hbrk w1 = ?p"
    using Cons.prems(3) by (auto simp: calloc_elem_def upd_elem_def)
  let ?w2 = "w1\<lparr>helems := (helems w)(?p \<mapsto> ?e)\<rparr>"
  have new: "?p \<notin> set (elems H # xs)"
    using u(3,4) unfolding memory_ok_def by force
  have "ring (hlinks ?w2) (elems H) xs = ring (hlinks w) (elems H) xs"
    by (rule ring_cong) (use new w1(2) in auto)
  then obtain L where L: "list_add_tail ?p (elems H) (hlinks ?w2) = Some L" "ring L (elems H) (xs @ [?p])"
    "dom L = dom (hlinks ?w2)"
    using list_add_back [of "hlinks ?w2" "elems H" xs ?p] new u(2) w1(2) by auto
  obtain qs where q: "array_put (count H) ?p H = Some (H\<lparr>pelems := Some qs\<rparr>)"
    "array_holds (H\<lparr>pelems := Some qs, count := count H + 1\<rparr>) (xs @ [?p])"
    using array_put_holds [OF u(1), of ?p] Cons.prems(2) by auto
  let ?H = "H\<lparr>pelems := Some qs, count := count H + 1\<rparr>" and ?w3 = "?w2\<lparr>hlinks := L\<rparr>"
  have "memory_ok (elems H) ?w2"
    using u(3) new w1(2,5) unfolding memory_ok_def by auto
  then have "memory_ok (elems H) ?w3" using L(3) by (rule memory_links)
  moreover have "\<forall>p \<in> set (xs @ [?p]). \<exists>e. helems ?w3 p = Some e \<and> key_of e = key_for (eid e)"
    using u(4) by (auto simp: key_of_def key_for_def)
  ultimately have un: "unsorted ?H ?w3 (xs @ [?p])" using q(2) L(2) by (simp add: unsorted_def)
  have ids: "cached ?w3 (xs @ [?p]) = cached w xs @ [i]" using new by (auto simp: cached_def)
  have "load_elems (i # ids) H w = load_elems ids ?H ?w3"
    using w1(1,4) q(1) L(1) by (simp add: on_links_def)
  moreover have room: "length (xs @ [?p]) + length ids \<le> alloc ?H" "length ids \<le> hbudget ?w3"
    using Cons.prems(2,3) w1(3) by simp_all
  obtain H' w' ps where "load_elems ids ?H ?w3 = Inr (True, H', w')" "unsorted H' w' ((xs @ [?p]) @ ps)"
    "cached w' ((xs @ [?p]) @ ps) = cached ?w3 (xs @ [?p]) @ ids" "elems H' = elems ?H" "compare H' = compare ?H"
    "alloc H' = alloc ?H" "count H' = count ?H + length ids"
    using Cons.IH [OF un] room by auto
  ultimately show ?case using ids by (intro exI [of _ H'] exI [of _ w'] exI [of _ "?p # ps"]) simp
qed

lemma load_array_ok:
  assumes "array_holds H []" "hbudget w \<noteq> 0"
  obtains a ps b where "load_array n H w = (True, H\<lparr>alloc := a, pelems := ps\<rparr>, w\<lparr>hbudget := b\<rparr>)"
    "array_holds (H\<lparr>alloc := a, pelems := ps\<rparr>) []" "n \<le> a" "hbudget w - 1 \<le> b"
proof (cases "alloc H < n")
  case True
  then show thesis using assms
    by (intro that [of "Some (replicate n 0)" n "hbudget w - 1"]) (simp_all add: load_array_def array_holds_def)
next
  case False
  then show thesis using assms
    by (intro that [of "pelems H" "alloc H" "hbudget w"]) (simp_all add: load_array_def)
qed

lemma announce_ok:
  assumes "hctl_inv cmp D H w xs" "callbacks_ok E" "\<forall>i \<in> set is. i < length xs"
  shows "\<exists>r w'. announce E H is w = Inr (r, w') \<and> quiet w w'"
  using assms(1,3)
proof (induction "is" arbitrary: w)
  case Nil
  then show ?case by auto
next
  case (Cons i ids)
  have i: "i < length xs" using Cons.prems(2) by simp
  then have a: "array_at H i = Some (xs ! i)"
    using array_holds_at Cons.prems(1) by (simp add: hctl_inv_def)
  have "xs ! i \<in> dom (helems w)" using inv_dom [OF Cons.prems(1)] i by (meson nth_mem subsetD)
  then obtain r w1 where t: "snd_hctl_throw_event E H MASK_ADD (xs ! i) w = Inr (r, w1)" "quiet w w1"
    by (rule throw_quiet [OF assms(2)])
  obtain r2 w2 where "announce E H ids w1 = Inr (r2, w2)" "quiet w1 w2"
    using Cons.IH [OF inv_quiet [OF Cons.prems(1) t(2)]] Cons.prems(2) by auto
  then show ?case using a t by (auto simp: quiet_def)
qed

text \<open>The device gives consistent answers about its identifiers.\<close>

definition device_has :: "'x henv \<Rightarrow> snd_ctl_elem_id list \<Rightarrow> bool" where
  "device_has E ids = (\<forall>k n. elem_list E k n = (0, length ids, take n ids))"

lemma snd_ctl_elems_ok:
  assumes "device_has E ids" "hbudget w \<noteq> 0"
  obtains b where "snd_ctl_elems E w = Some (Inr ids, w\<lparr>hbudget := b\<rparr>)" "hbudget w - 1 \<le> b"
proof (cases "ids = []")
  case True
  then show thesis using assms that [of "hbudget w"]
    by (simp add: snd_ctl_elems_def device_has_def list_elems.simps)
next
  case False
  have "snd_ctl_elems E w = Some (Inr ids, w\<lparr>hbudget := hbudget w - 1\<rparr>)"
    using assms False unfolding snd_ctl_elems_def device_has_def
    by (subst list_elems.simps, subst list_elems.simps) (simp add: Let_def)
  then show thesis using that by simp
qed

context hctl_order
begin

lemma load_list_ok:
  assumes "array_holds H []" "ring (hlinks w) (elems H) []" "memory_ok (elems H) w"
    and "(case compare H of None \<Rightarrow> snd_hctl_compare_default | Some c \<Rightarrow> c) = cmp" "callbacks_ok E"
    and "length ids < hbudget w" "\<forall>i \<in> set ids. key_for i \<in> D" "distinct ids"
    and "\<forall>i \<in> set ids. \<forall>j \<in> set ids. i \<noteq> j \<longrightarrow> cmp (key_for i) (key_for j) \<noteq> 0"
  obtains r H' w' ys where "load_list E ids H w = Inr (r, H', w')" "hctl_inv cmp D H' w' ys"
    "mset (cached w' ys) = mset ids"
proof -
  obtain a ps b where la: "load_array (length ids) H w = (True, H\<lparr>alloc := a, pelems := ps\<rparr>, w\<lparr>hbudget := b\<rparr>)"
    "array_holds (H\<lparr>alloc := a, pelems := ps\<rparr>) []" "length ids \<le> a" "hbudget w - 1 \<le> b"
    by (rule load_array_ok [OF assms(1), of w "length ids"]) (use assms(6) in auto)
  let ?H1 = "H\<lparr>alloc := a, pelems := ps\<rparr>" and ?w1 = "w\<lparr>hbudget := b\<rparr>"
  have "unsorted ?H1 ?w1 []" using la(2) assms(2,3) by (simp add: unsorted_def memory_ok_def)
  moreover have "length ids \<le> hbudget ?w1" using la(4) assms(6) by simp
  ultimately obtain H2 w2 xs where l: "load_elems ids ?H1 ?w1 = Inr (True, H2, w2)" "unsorted H2 w2 xs"
    "cached w2 xs = ids" "compare H2 = compare H"
    using load_elems_ok [of ?H1 ?w1 "[]" ids] la(3) by (auto simp: cached_def)
  let ?H3 = "H2\<lparr>compare := Some cmp\<rparr>"
  have u: "unsorted ?H3 w2 xs"
    using l(2) by (auto simp: unsorted_def array_holds_def split: option.splits)
  have key: "elem_key w2 p = key_for (eid (the (helems w2 p)))" "eid (the (helems w2 p)) \<in> set ids" if "p \<in> set xs" for p
    using l(2,3) that by (auto simp: unsorted_def elem_key_def cached_def)
  have "inj_on (\<lambda>p. eid (the (helems w2 p))) (set xs)"
    using assms(8) l(3) by (auto simp: cached_def distinct_map)
  then have diff: "cmp (elem_key w2 p) (elem_key w2 q) \<noteq> 0" if "p \<in> set xs" "q \<in> set xs" "p \<noteq> q" for p q
    using assms(9) key that by (metis inj_onD)
  obtain H4 L ys where s: "snd_hctl_sort ?H3 w2 = Inr (H4, w2\<lparr>hlinks := L\<rparr>)"
    "hctl_inv cmp D H4 (w2\<lparr>hlinks := L\<rparr>) ys" "mset ys = mset xs" "count H4 = count ?H3"
    by (rule sort_ok [OF u, of thesis]) (use key diff assms(7) in auto)
  have "count H4 = length ys" using s(2) by (simp add: hctl_inv_def array_holds_def)
  then obtain r w5 where an: "announce E H4 [0..<count H4] (w2\<lparr>hlinks := L\<rparr>) = Inr (r, w5)" "quiet (w2\<lparr>hlinks := L\<rparr>) w5"
    using announce_ok [OF s(2) assms(5), of "[0..<count H4]"] by auto
  have "cached w5 ys = cached w2 ys"
    using quiet_cached [OF an(2)] inv_dom [OF s(2)] by simp
  then have "mset (cached w5 ys) = mset ids"
    using s(3) l(3) by (metis cached_def mset_map)
  moreover have "\<exists>r. load_list E ids H w = Inr (r, H4, w5)"
    using la(1) l(1,4) s(1) an(1) assms(4) by (auto simp: load_list_def Let_def)
  ultimately show thesis using that inv_quiet [OF s(2) an(2)] by blast
qed

lemma load_ok:
  assumes "snd_hctl_open_ctl w0 = (Some H, w)" "\<forall>p. hbrk w0 < p \<longrightarrow> helems w0 p = None \<and> hlinks w0 p = None"
    "dom (helems w0) \<subseteq> dom (hlinks w0)"
    and "cmp = snd_hctl_compare_default" "callbacks_ok E" "device_has E ids"
    and "length ids + 2 < hbudget w0" "\<forall>i \<in> set ids. key_for i \<in> D" "distinct ids"
    and "\<forall>i \<in> set ids. \<forall>j \<in> set ids. i \<noteq> j \<longrightarrow> cmp (key_for i) (key_for j) \<noteq> 0"
  obtains r H' w' ys where "snd_hctl_load E H w = Some (Inr (r, H', w'))" "hctl_inv cmp D H' w' ys"
    "mset (cached w' ys) = mset ids"
proof -
  let ?p = "Suc (hbrk w0)"
  have w: "w = w0\<lparr>hlinks := (hlinks w0)(?p \<mapsto> \<lparr>nxt = ?p, prv = ?p\<rparr>), hbrk := ?p, hbudget := hbudget w0 - 1\<rparr>"
    and H: "H = \<lparr>elems = ?p, alloc = 0, count = 0, pelems = None, compare = None, hcallback = 0, hcallback_private = 0\<rparr>"
    using assms(1,7) by (auto simp: snd_hctl_open_ctl_def split: if_splits)
  have m: "memory_ok (elems H) w" using assms(2,3) unfolding w H memory_ok_def by (auto dest: Suc_lessD)
  have r: "ring (hlinks w) (elems H) []" unfolding w H by (simp add: ring_def nx_def pv_def)
  obtain b where b: "snd_ctl_elems E w = Some (Inr ids, w\<lparr>hbudget := b\<rparr>)" "hbudget w - 1 \<le> b"
    by (rule snd_ctl_elems_ok [OF assms(6), of w]) (use assms(7) w in auto)
  let ?w = "w\<lparr>hbudget := b\<rparr>"
  have 1: "array_holds H []" "ring (hlinks ?w) (elems H) []" "memory_ok (elems H) ?w"
    using m r unfolding H by (simp_all add: array_holds_def memory_ok_def)
  have 2: "(case compare H of None \<Rightarrow> snd_hctl_compare_default | Some c \<Rightarrow> c) = cmp"
    using assms(4) unfolding H by simp
  have 3: "length ids < hbudget ?w" using b(2) assms(7) unfolding w by simp
  obtain r H' w' ys where l: "load_list E ids H ?w = Inr (r, H', w')" "hctl_inv cmp D H' w' ys"
    "mset (cached w' ys) = mset ids"
    by (rule load_list_ok [OF 1 2 assms(5) 3 assms(8-10)])
  have "snd_hctl_load E H w = Some (Inr (r, H', w'))"
    using l(1) b(1) list_empty_ring [OF r] unfolding snd_hctl_load_def H by simp
  then show thesis using that l(2,3) by blast
qed

lemma find_cached:
  assumes "hctl_inv cmp D H w xs" "i \<in> set (cached w xs)"
  shows "\<exists>p \<in> set xs. snd_hctl_find_elem H i w = Inr (Some p) \<and> eid (the (helems w p)) = i"
proof -
  obtain q where q: "q \<in> set xs" "eid (the (helems w q)) = i" using assms(2) by (auto simp: cached_def)
  then have k: "elem_key w q = key_for i" using inv_key_for [OF assms(1)] by simp
  have o: "ordered (map (elem_key w) xs)" by (rule inv_ordered [OF assms(1)])
  then have D: "key_for i \<in> D" using q(1) k by (fastforce simp: ordered_def)
  have n: "known i (cached w xs)" using assms(2) refl [OF D] by (auto simp: known_def)
  obtain p where p: "snd_hctl_find_elem H i w = Inr (Some p)" "p \<in> set xs" "cmp (key_for i) (elem_key w p) = 0"
    by (rule find_elem_ok [OF assms(1) D]) (use n in auto)
  obtain a b where ab: "a < length xs" "xs ! a = p" "b < length xs" "xs ! b = q"
    using p(2) q(1) by (metis in_set_conv_nth)
  have Dp: "elem_key w p \<in> D" using o p(2) by (auto simp: ordered_def)
  have "cmp (elem_key w p) (elem_key w q) = 0" "cmp (elem_key w q) (elem_key w p) = 0"
    using p(3) k zero_sym [OF D Dp] by simp_all
  then have "a = b"
    using ordered_nth_less [OF o, of a b] ordered_nth_less [OF o, of b a] ab
    by (cases rule: linorder_cases [of a b]) auto
  then show ?thesis using p(1,2) q(2) ab by auto
qed

lemma stream_ok:
  assumes "hctl_inv cmp D H w xs" "\<forall>(r, ev) \<in> set rs. \<forall>i \<in> set (event_id ev). key_for i \<in> D" "callbacks_ok E"
  shows "case handle_events E n rs H w of Inl err \<Rightarrow> err = ABORT
    | Inr (r, H', w') \<Rightarrow> \<exists>ys. hctl_inv cmp D H' w' ys"
  using assms(1,2)
proof (induction rs arbitrary: n H w xs)
  case Nil
  then show ?case by auto
next
  case (Cons e rs)
  obtain res ev where re: "e = (res, ev)" by fastforce
  have ev: "event_result cmp D (hbudget w < 2) (event_spec cmp ev (set (cached w xs))) (set (cached w xs))
    (snd_hctl_handle_event E ev H w)"
    using Cons.prems re assms(3) by (intro handle_event_ok) auto
  show ?case
  proof (cases "snd_hctl_handle_event E ev H w")
    case (Inl err)
    then show ?thesis using ev Cons.prems(1) re by (auto simp: event_result_def)
  next
    case (Inr x)
    obtain r H1 w1 where x: "x = (r, H1, w1)" by (cases x)
    obtain ys where "hctl_inv cmp D H1 w1 ys" using ev Inr x by (auto simp: event_result_def)
    then show ?thesis
      using Cons.IH [of H1 w1 ys "n + 1"] Cons.prems Inr x re by auto
  qed
qed

lemma free_ok:
  assumes "hctl_inv cmp D H w xs" "callbacks_ok E"
  obtains H' w' where "snd_hctl_free E H w = Inr (H', w')" "dom (helems w') = dom (helems w) - set xs"
    "count H' = 0" "pelems H' = None" "ring (hlinks w') (elems H') []"
proof -
  obtain H1 w1 where f: "free_elems E (length xs) H w = Inr (H1, w1)" "hctl_inv cmp D H1 w1 []"
    "dom (helems w1) = dom (helems w) - set xs"
    using free_elems_ok [OF assms] by blast
  have c: "count H = length xs" "count H1 = 0"
    using assms(1) f(2) by (auto simp: hctl_inv_def array_holds_def)
  have "elems H1 \<in> dom (hlinks w1)" using f(2) ring_alloc by (fastforce simp: hctl_inv_def)
  then obtain L where "INIT_LIST_HEAD (elems H1) (hlinks w1) = Some L" "ring L (elems H1) []"
    using INIT_LIST_HEAD_ok by blast
  then show thesis
    using f c by (intro that [of "H1\<lparr>pelems := None, alloc := 0\<rparr>" "w1\<lparr>hlinks := L\<rparr>"])
      (simp_all add: snd_hctl_free_def on_links_def)
qed

end

text \<open>Both comparison functions of the library provide the order the lemmas above rest on.\<close>

interpretation by_name: hctl_order snd_hctl_compare_default default_keys
  by (rule hctl_order.intro) (rule three_way_default)

interpretation by_number: hctl_order snd_hctl_compare_fast fast_keys
  by (rule hctl_order.intro) (rule three_way_fast)

lemma card_id_keys: "card_id i \<Longrightarrow> key_for i \<in> default_keys"
  by (simp add: default_keys_def)

section \<open>Properties\<close>

text \<open>
  C3 -- An event does to the cache what it says: from a consistent handle with the default
  order, an added identifier is cached, a removed one is not any more, a change leaves the
  set as it is, and the handle is consistent again: array strictly sorted, ring in the same
  order, every element with its weight. The only exceptions are an assertion that fails
  because the event contradicts the cache, and \<open>-ENOMEM\<close> with the cache unchanged.
\<close>

theorem hctl_event_refines_set:
  assumes "hctl_inv snd_hctl_compare_default default_keys H w xs" "callbacks_ok E"
    and "\<forall>i \<in> set (event_id ev). card_id i"
  shows "event_result snd_hctl_compare_default default_keys (hbudget w < 2)
    (event_spec snd_hctl_compare_default ev (set (cached w xs))) (set (cached w xs))
    (snd_hctl_handle_event E ev H w)"
  by (rule by_name.handle_event_ok [OF assms(1) _ assms(2)]) (use assms(3) card_id_keys in blast)

definition demo_id :: "string \<Rightarrow> u32 \<Rightarrow> snd_ctl_elem_id" where
  "demo_id s n = \<lparr>numid = n, iface = 2, device = 0, subdevice = n, ename = s, eindex = 0\<rparr>"

definition demo_ids :: "snd_ctl_elem_id list" where
  "demo_ids = [demo_id ''PCM Volume'' 1, demo_id ''Master Switch'' 2, demo_id ''Tone'' 3]"

definition demo_henv :: "unit henv" where
  "demo_henv = \<lparr>hctl_cb = \<lambda>c v m p w. Inr (0, w), elem_cb = \<lambda>c m p w. Inr (0, w),
     elem_list = \<lambda>k n. (0, length demo_ids, take n demo_ids), subscribe = 0\<rparr>"

definition demo_world :: "nat \<Rightarrow> unit hworld" where
  "demo_world b = \<lparr>helems = \<lambda>p. None, hlinks = \<lambda>p. None, hbrk = 0, hbudget = b, client = ()\<rparr>"

definition demo_hctl :: "snd_hctl_compare_t option \<Rightarrow> snd_hctl" where
  "demo_hctl c = \<lparr>elems = 1, alloc = 0, count = 0, pelems = None, compare = c, hcallback = 0,
     hcallback_private = 0\<rparr>"

definition demo_open :: "nat \<Rightarrow> unit hworld" where
  "demo_open b = snd (snd_hctl_open_ctl (demo_world b))"

lemma demo_callbacks: "callbacks_ok demo_henv"
  by (simp add: callbacks_ok_def demo_henv_def)

lemma demo_hctl_inv: "b \<noteq> 0 \<Longrightarrow>
  hctl_inv snd_hctl_compare_default default_keys (demo_hctl (Some snd_hctl_compare_default)) (demo_open b) []"
  by (simp add: hctl_inv_def demo_hctl_def demo_open_def demo_world_def snd_hctl_open_ctl_def
      array_holds_def memory_ok_def ring_def nx_def pv_def)

theorem hctl_event_refines_set_witness:
  "\<exists>r H' w' ys. snd_hctl_handle_event demo_henv (Elem_event MASK_ADD (demo_id ''Tone'' 7))
       (demo_hctl (Some snd_hctl_compare_default)) (demo_open 9) = Inr (r, H', w') \<and>
     hctl_inv snd_hctl_compare_default default_keys H' w' ys \<and> set (cached w' ys) = {demo_id ''Tone'' 7}"
proof -
  have "hbudget (demo_open 9) = 8" by (simp add: demo_open_def demo_world_def snd_hctl_open_ctl_def)
  then show ?thesis
    using hctl_event_refines_set [OF demo_hctl_inv demo_callbacks, of 9 "Elem_event MASK_ADD (demo_id ''Tone'' 7)"]
    by (auto simp: event_result_def cached_as_def cached_def card_id_def demo_id_def split: sum.splits)
qed

text \<open>
  C13 -- Whatever events the device reports, a consistent handle stays consistent, or the
  process stops in an assertion: no array bound is passed, no freed element or link is
  followed; and afterwards the handle can be released, which frees exactly its elements and
  leaves an empty ring and no array.
\<close>

theorem hctl_stream_safe:
  assumes "hctl_inv snd_hctl_compare_default default_keys H w xs" "callbacks_ok E"
    and "\<forall>(r, ev) \<in> set rs. \<forall>i \<in> set (event_id ev). card_id i"
  shows "case snd_hctl_handle_events E rs H w of
      Inl err \<Rightarrow> err = ABORT
    | Inr (r, H', w') \<Rightarrow> \<exists>ys. hctl_inv snd_hctl_compare_default default_keys H' w' ys \<and>
        (\<exists>H2 w2. snd_hctl_free E H' w' = Inr (H2, w2) \<and> dom (helems w2) = dom (helems w') - set ys \<and>
          count H2 = 0 \<and> pelems H2 = None \<and> ring (hlinks w2) (elems H2) [])"
proof -
  have "\<forall>(r, ev) \<in> set rs. \<forall>i \<in> set (event_id ev). key_for i \<in> default_keys"
    using assms(3) card_id_keys by blast
  from by_name.stream_ok [OF assms(1) this assms(2), of 0]
  have s: "case snd_hctl_handle_events E rs H w of Inl err \<Rightarrow> err = ABORT
    | Inr (r, H', w') \<Rightarrow> \<exists>ys. hctl_inv snd_hctl_compare_default default_keys H' w' ys"
    by (simp add: snd_hctl_handle_events_def)
  show ?thesis
  proof (cases "snd_hctl_handle_events E rs H w")
    case (Inl err)
    then show ?thesis using s by simp
  next
    case (Inr x)
    then obtain r H' w' ys where x: "x = (r, H', w')" "hctl_inv snd_hctl_compare_default default_keys H' w' ys"
      using s by (cases x) auto
    then show ?thesis using Inr by_name.free_ok [OF x(2) assms(2)] by (simp, metis)
  qed
qed

theorem hctl_stream_safe_witness:
  "case snd_hctl_handle_events demo_henv
      [(1, Elem_event MASK_ADD (demo_id ''Tone'' 7)), (1, Elem_event MASK_ADD (demo_id ''PCM'' 8)),
       (1, Elem_event MASK_REMOVE (demo_id ''Tone'' 7)), (0, Other_event)]
      (demo_hctl (Some snd_hctl_compare_default)) (demo_open 9) of
     Inl err \<Rightarrow> err = ABORT
   | Inr (r, H', w') \<Rightarrow> \<exists>ys. hctl_inv snd_hctl_compare_default default_keys H' w' ys \<and>
        (\<exists>H2 w2. snd_hctl_free demo_henv H' w' = Inr (H2, w2) \<and> dom (helems w2) = dom (helems w') - set ys \<and>
          count H2 = 0 \<and> pelems H2 = None \<and> ring (hlinks w2) (elems H2) [])"
  by (rule hctl_stream_safe [OF demo_hctl_inv demo_callbacks]) (auto simp: card_id_def demo_id_def)

text \<open>
  C19 -- Loading a new handle from a device that lists pairwise different identifiers gives a
  consistent handle that caches exactly these, each once, in the default order, and finds
  each of them again.
\<close>

theorem hctl_load_sorts:
  assumes "snd_hctl_open_ctl w0 = (Some H, w)" "callbacks_ok E" "device_has E ids"
    and "\<forall>p. hbrk w0 < p \<longrightarrow> helems w0 p = None \<and> hlinks w0 p = None" "dom (helems w0) \<subseteq> dom (hlinks w0)"
    and "length ids + 2 < hbudget w0" "distinct ids" "\<forall>i \<in> set ids. card_id i"
    and "\<forall>i \<in> set ids. \<forall>j \<in> set ids. (iface i, ename i, eindex i) = (iface j, ename j, eindex j) \<longrightarrow> i = j"
  shows "\<exists>r H' w' ys. snd_hctl_load E H w = Some (Inr (r, H', w')) \<and>
    hctl_inv snd_hctl_compare_default default_keys H' w' ys \<and> mset (cached w' ys) = mset ids \<and>
    (\<forall>i \<in> set ids. \<exists>p \<in> set ys. snd_hctl_find_elem H' i w' = Inr (Some p) \<and> eid (the (helems w' p)) = i)"
proof -
  have D: "\<forall>i \<in> set ids. key_for i \<in> default_keys" using assms(8) card_id_keys by blast
  have diff: "\<forall>i \<in> set ids. \<forall>j \<in> set ids. i \<noteq> j \<longrightarrow> snd_hctl_compare_default (key_for i) (key_for j) \<noteq> 0"
    using assms(8,9) compare_default_zero by (metis (no_types, lifting) prod.inject)
  obtain r H' w' ys where l: "snd_hctl_load E H w = Some (Inr (r, H', w'))"
    "hctl_inv snd_hctl_compare_default default_keys H' w' ys" "mset (cached w' ys) = mset ids"
    by (rule by_name.load_ok [OF assms(1,4,5) HOL.refl assms(2,3,6) D assms(7) diff])
  have "set (cached w' ys) = set ids" using l(3) by (rule mset_eq_setD)
  then show ?thesis using l by_name.find_cached [OF l(2)] by blast
qed

theorem hctl_load_sorts_witness:
  "\<exists>r H' w' ys. snd_hctl_load demo_henv (demo_hctl None) (demo_open 9) = Some (Inr (r, H', w')) \<and>
    mset (cached w' ys) = mset demo_ids \<and>
    (\<exists>p. snd_hctl_find_elem H' (demo_id ''Tone'' 3) w' = Inr (Some p) \<and> eid (the (helems w' p)) = demo_id ''Tone'' 3)"
proof -
  have o: "snd_hctl_open_ctl (demo_world 9) = (Some (demo_hctl None), demo_open 9)"
    by (simp add: demo_open_def demo_world_def demo_hctl_def snd_hctl_open_ctl_def)
  have d: "device_has demo_henv demo_ids" by (simp add: device_has_def demo_henv_def)
  have m: "demo_id ''Tone'' 3 \<in> set demo_ids" by (simp add: demo_ids_def)
  show ?thesis
    using hctl_load_sorts [OF o demo_callbacks d] m
    by (fastforce simp: demo_world_def demo_ids_def demo_id_def card_id_def)
qed

section \<open>What the code does wrong\<close>

text \<open>
  Two elements that differ only in device or subdevice are the same to the default order: the
  event that announces the second one stops the process.
\<close>

lemma same_name_aborts:
  "case snd_hctl_handle_event demo_henv (Elem_event MASK_ADD (demo_id ''Tone'' 7))
      (demo_hctl (Some snd_hctl_compare_default)) (demo_open 9) of
     Inl _ \<Rightarrow> False
   | Inr (r, H, w) \<Rightarrow>
       (case snd_hctl_handle_event demo_henv (Elem_event MASK_ADD (demo_id ''Tone'' 8)) H w of
          Inl e \<Rightarrow> e = ABORT | Inr _ \<Rightarrow> False)"
  by code_simp

text \<open>
  When the array of \<open>snd_hctl_load\<close> cannot be allocated, \<open>alloc\<close> keeps the size asked for while
  the array is \<open>NULL\<close>; the next element is written through it.
\<close>

lemma load_nomem_leaves_null:
  "snd_ctl_elems demo_henv (demo_open 2) = Some (Inr demo_ids, (demo_open 2)\<lparr>hbudget := 0\<rparr>)"
  "case load_list demo_henv demo_ids (demo_hctl (Some snd_hctl_compare_default)) ((demo_open 2)\<lparr>hbudget := 0\<rparr>) of
     Inl _ \<Rightarrow> False
   | Inr (r, H, w) \<Rightarrow>
       r = neg_ENOMEM \<and> alloc H = 3 \<and> pelems H = None \<and>
       (case snd_hctl_handle_event demo_henv (Elem_event MASK_ADD (demo_id ''Tone'' 7)) H (w\<lparr>hbudget := 9\<rparr>) of
          Inl e \<Rightarrow> e = UNDEF | Inr _ \<Rightarrow> False)"
proof -
  have b: "hbudget (demo_open 2) = 1" by (simp add: demo_open_def demo_world_def snd_hctl_open_ctl_def)
  show "snd_ctl_elems demo_henv (demo_open 2) = Some (Inr demo_ids, (demo_open 2)\<lparr>hbudget := 0\<rparr>)"
    unfolding snd_ctl_elems_def
    by (subst list_elems.simps, subst list_elems.simps) (simp add: demo_henv_def demo_ids_def b Let_def)
qed code_simp

text \<open>An element that cannot be added for lack of memory is not freed.\<close>

lemma add_nomem_leaks:
  "case snd_hctl_handle_event demo_henv (Elem_event MASK_ADD (demo_id ''Tone'' 7))
      (demo_hctl (Some snd_hctl_compare_default)) (demo_open 2) of
     Inl _ \<Rightarrow> False
   | Inr (r, H, w) \<Rightarrow> r = neg_ENOMEM \<and> count H = 0 \<and> helems w 2 \<noteq> None"
  by code_simp

end
