(* ===== verification/OmxResource.thy ===== *)
theory OmxResource
  imports OmxClient
begin

text \<open>
  The resource manager of the OpenMAX core,
  \<open>libomxil-bellagio/src/omx_reference_resource_manager.c\<close>: for each of four kinds of components
  (told apart by name) a list of the components that hold the resource and a list of those that
  wait for it, as singly linked cells on a heap. A world holds the components themselves (the model
  of OmxComponent), the cells, the heads of the eight lists and the counter that stamps the cells.
  Addresses are numbers and 0 is \<open>NULL\<close>; \<open>malloc\<close> succeeds as long as its budget lasts. The
  \<open>printf\<close> of \<open>RM_printList\<close> is not modelled. The part on \<open>rm_spec\<close> says what the manager does
  with the lists as sequences, and which of the holders has to give way.
\<close>

section \<open>Resources and their lists\<close>

datatype rm_class = RVolume | RMixer | RVideosched | RClock

text \<open>The kind of a component, by the comparisons of its name in the order of the code.\<close>

definition rm_class_of :: "string \<Rightarrow> rm_class option" where
  "rm_class_of n =
     (if n = ''OMX.st.volume.component'' then Some RVolume
      else if n = ''OMX.st.audio.mixer'' then Some RMixer
      else if n = ''OMX.st.video.scheduler'' then Some RVideosched
      else if n = ''OMX.st.clocksrc'' then Some RClock
      else None)"

fun MAX_RESOURCE :: "rm_class \<Rightarrow> int" where
  "MAX_RESOURCE RVolume = 10"
| "MAX_RESOURCE RMixer = 10"
| "MAX_RESOURCE RVideosched = 10"
| "MAX_RESOURCE RClock = 5"

text \<open>The static variables: \<open>volumeComponentList\<close>, \<open>volumeWaitingList\<close> and so on.\<close>

datatype rm_list = ComponentList rm_class | WaitingList rm_class

record ComponentListType =
  openmaxStandComp :: nat
  lGroupPriority :: u32
  timestamp :: u32
  lnext :: nat

type_synonym rm_cells = "nat \<Rightarrow> ComponentListType option"

record 'p rm_world =
  comps :: "nat \<Rightarrow> 'p omx_comp option"
  lheads :: "rm_list \<Rightarrow> nat"
  lcells :: rm_cells
  lbrk :: nat
  lbudget :: nat
  globalTimestamp :: int

abbreviation (input) INT_MAX :: int where "INT_MAX \<equiv> 2147483647"

definition rm_malloc :: "'p rm_world \<Rightarrow> nat \<times> 'p rm_world" where
  "rm_malloc w =
     (if lbudget w = 0 then (0, w)
      else (Suc (lbrk w), w\<lparr>lbrk := Suc (lbrk w), lbudget := lbudget w - 1\<rparr>))"

definition rm_free :: "nat \<Rightarrow> 'p rm_world \<Rightarrow> (unit, 'p rm_world) outcome" where
  "rm_free a w =
     ofail (lcells w a) (\<lambda>_. Done () (w\<lparr>lcells := (lcells w)(a := None)\<rparr>))"

text \<open>A step of one of the components, within the world.\<close>

definition on_comp ::
    "nat \<Rightarrow> ('p omx_comp \<Rightarrow> ('a, 'p omx_comp) outcome) \<Rightarrow> 'p rm_world \<Rightarrow> ('a, 'p rm_world) outcome" where
  "on_comp c f w =
     ofail (comps w c) (\<lambda>s.
       case f s of
         Done r t \<Rightarrow> Done r (w\<lparr>comps := (comps w)(c \<mapsto> t)\<rparr>)
       | Blocked t \<Rightarrow> Blocked (w\<lparr>comps := (comps w)(c \<mapsto> t)\<rparr>)
       | Fault \<Rightarrow> Fault)"

section \<open>The linked lists\<close>

text \<open>
  A new cell is filled in; its time stamp is the counter, which then grows (past \<open>INT_MAX\<close> that is
  undefined).
\<close>

definition fill_cell ::
    "nat \<Rightarrow> nat \<Rightarrow> u32 \<Rightarrow> 'p rm_world \<Rightarrow> (omx_err, 'p rm_world) outcome" where
  "fill_cell a c prio w =
     (if globalTimestamp w \<ge> INT_MAX then Fault
      else Done OMX_ErrorNone
             (w\<lparr>lcells := (lcells w)(a \<mapsto> \<lparr>openmaxStandComp = c, lGroupPriority = prio,
                             timestamp = word_of_int (globalTimestamp w), lnext = 0\<rparr>),
                globalTimestamp := globalTimestamp w + 1\<rparr>))"

partial_function (option) last_cell :: "rm_cells \<Rightarrow> nat \<Rightarrow> nat option" where
  "last_cell m a =
     (case m a of
        None \<Rightarrow> None
      | Some t \<Rightarrow> if lnext t = 0 then Some a else last_cell m (lnext t))"

definition addElemToList ::
    "rm_list \<Rightarrow> nat \<Rightarrow> 'p rm_world \<Rightarrow> (omx_err, 'p rm_world) outcome" where
  "addElemToList l c w =
     ofail (comps w c) (\<lambda>p.
       if lheads w l = 0 then
         (case rm_malloc w of (a, w) \<Rightarrow>
            if a = 0 then Done OMX_ErrorInsufficientResources w
            else fill_cell a c (nGroupPriority p) (w\<lparr>lheads := (lheads w)(l := a)\<rparr>))
       else
         ofail (last_cell (lcells w) (lheads w l)) (\<lambda>t.
         case rm_malloc w of (a, w) \<Rightarrow>
           if a = 0 then Done OMX_ErrorInsufficientResources w
           else ofail (lcells w t) (\<lambda>u.
             fill_cell a c (nGroupPriority p) (w\<lparr>lcells := (lcells w)(t \<mapsto> u\<lparr>lnext := a\<rparr>)\<rparr>))))"

text \<open>The search of \<open>removeElemFromList\<close>: the cell found, or 0, and the one before it.\<close>

partial_function (option) find_cell ::
    "rm_cells \<Rightarrow> nat \<Rightarrow> nat \<Rightarrow> nat \<Rightarrow> nat \<Rightarrow> (nat \<times> nat) option" where
  "find_cell m first c prev temp =
     (if temp = 0 then Some (prev, 0)
      else case m temp of
        None \<Rightarrow> None
      | Some t \<Rightarrow>
          if openmaxStandComp t = c then Some (prev, temp)
          else if temp \<noteq> first
          then (case m prev of None \<Rightarrow> None | Some p \<Rightarrow> find_cell m first c (lnext p) (lnext t))
          else find_cell m first c prev (lnext t))"

definition removeElemFromList ::
    "rm_list \<Rightarrow> nat \<Rightarrow> 'p rm_world \<Rightarrow> (omx_err, 'p rm_world) outcome" where
  "removeElemFromList l c w =
     (if lheads w l = 0 then Done OMX_ErrorUndefined w
      else ofail (find_cell (lcells w) (lheads w l) c (lheads w l) (lheads w l)) (\<lambda>(prev, temp).
        if temp = 0 then Done OMX_ErrorComponentNotFound w
        else ofail (lcells w temp) (\<lambda>t.
          obind (if temp = lheads w l
                 then rm_free temp (w\<lparr>lheads := (lheads w)(l := lnext t)\<rparr>)
                 else ofail (lcells w prev) (\<lambda>p.
                   rm_free temp (w\<lparr>lcells := (lcells w)(prev \<mapsto> p\<lparr>lnext := lnext t\<rparr>)\<rparr>)))
            (\<lambda>_ w. Done OMX_ErrorNone w))))"

partial_function (option) count_cells :: "rm_cells \<Rightarrow> nat \<Rightarrow> int \<Rightarrow> int option" where
  "count_cells m a n =
     (if a = 0 then Some n
      else case m a of None \<Rightarrow> None | Some t \<Rightarrow> count_cells m (lnext t) (n + 1))"

definition numElemInList :: "rm_list \<Rightarrow> 'p rm_world \<Rightarrow> int option" where
  "numElemInList l w = count_cells (lcells w) (lheads w l) 0"

partial_function (option) free_cells :: "nat \<Rightarrow> rm_cells \<Rightarrow> rm_cells option" where
  "free_cells a m =
     (if a = 0 then Some m
      else case m a of None \<Rightarrow> None | Some t \<Rightarrow> free_cells (lnext t) (m(a := None)))"

definition clearList :: "rm_list \<Rightarrow> 'p rm_world \<Rightarrow> (omx_err, 'p rm_world) outcome" where
  "clearList l w =
     ofail (free_cells (lheads w l) (lcells w)) (\<lambda>m.
       Done OMX_ErrorNone (w\<lparr>lcells := m, lheads := (lheads w)(l := 0)\<rparr>))"

section \<open>Preemption\<close>

text \<open>
  The loop of \<open>searchLowerPriority\<close> with \<open>nComp\<close> and \<open>componentCandidate\<close>. Once a component of
  lower priority (a greater number) has been seen, every further one is compared with the candidate.
  The priority of the caller passes through an \<open>int\<close> and is compared as unsigned again.
\<close>

partial_function (option) search_cells ::
    "rm_cells \<Rightarrow> u32 \<Rightarrow> nat \<Rightarrow> int \<Rightarrow> nat \<Rightarrow> (int \<times> nat) option" where
  "search_cells m prio a nComp candidate =
     (if a = 0 then Some (nComp, candidate)
      else case m a of
        None \<Rightarrow> None
      | Some t \<Rightarrow>
          let nComp' = (if lGroupPriority t > prio then nComp + 1 else nComp) in
          if nComp' > 0 then
            if candidate \<noteq> 0 then
              (case m candidate of
                 None \<Rightarrow> None
               | Some d \<Rightarrow>
                   search_cells m prio (lnext t) nComp' (if timestamp d > timestamp t then a else candidate))
            else search_cells m prio (lnext t) nComp' a
          else search_cells m prio (lnext t) nComp' candidate)"

text \<open>
  For an empty list the result is the error code \<open>OMX_ErrorUndefined\<close> as a number, and the candidate
  of the caller stays uninitialised: \<open>None\<close>.
\<close>

definition searchLowerPriority :: "rm_list \<Rightarrow> u32 \<Rightarrow> 'p rm_world \<Rightarrow> (int \<times> nat option) option" where
  "searchLowerPriority l prio w =
     (if lheads w l = 0 then Some (- 2147479551, None)
      else map_option (\<lambda>(n, a). (n, Some a)) (search_cells (lcells w) prio (lheads w l) 0 0))"

definition preemptComponent :: "nat \<Rightarrow> 'p rm_world \<Rightarrow> (omx_err, 'p rm_world) outcome" where
  "preemptComponent c w =
     ofail (comps w c) (\<lambda>s.
       if state s = OMX_StateIdle then
         obind (on_comp c (event_handler (EventError OMX_ErrorResourcesLost 0)) w) (\<lambda>_ w.
         obind (on_comp c (omx_base_component_SendCommand OMX_CommandStateSet
                             (state_code OMX_StateLoaded) None) w) (\<lambda>err w.
         if err \<noteq> OMX_ErrorNone then Done OMX_ErrorUndefined w else Done OMX_ErrorNone w))
       else Done OMX_ErrorNone w)"

declare last_cell.simps [code] find_cell.simps [code] count_cells.simps [code] free_cells.simps [code]
  search_cells.simps [code]

section \<open>The calls of the components\<close>

definition RM_Init :: "'p rm_world \<Rightarrow> (omx_err, 'p rm_world) outcome" where
  "RM_Init w = Done OMX_ErrorNone w"

definition rm_lists :: "rm_list list" where
  "rm_lists = [ComponentList RVolume, WaitingList RVolume, ComponentList RMixer, WaitingList RMixer,
     ComponentList RVideosched, WaitingList RVideosched, ComponentList RClock, WaitingList RClock]"

fun clear_lists :: "rm_list list \<Rightarrow> 'p rm_world \<Rightarrow> (omx_err, 'p rm_world) outcome" where
  "clear_lists [] w = Done OMX_ErrorNone w"
| "clear_lists (l # ls) w = obind (clearList l w) (\<lambda>_ w. clear_lists ls w)"

definition RM_Deinit :: "'p rm_world \<Rightarrow> (omx_err, 'p rm_world) outcome" where
  "RM_Deinit w = clear_lists rm_lists w"

text \<open>What a call does for a component depends on the kind; other components get \<open>OMX_ErrorNone\<close>.\<close>

definition by_class ::
    "nat \<Rightarrow> (rm_class \<Rightarrow> 'p rm_world \<Rightarrow> (omx_err, 'p rm_world) outcome) \<Rightarrow> 'p rm_world \<Rightarrow>
      (omx_err, 'p rm_world) outcome" where
  "by_class c f w =
     ofail (comps w c) (\<lambda>p. ofail (name p) (\<lambda>n.
       case rm_class_of n of None \<Rightarrow> Done OMX_ErrorNone w | Some k \<Rightarrow> f k w))"

text \<open>A holder is preempted and its place given to the caller.\<close>

definition preempt_for ::
    "rm_class \<Rightarrow> nat \<Rightarrow> nat \<Rightarrow> 'p rm_world \<Rightarrow> (omx_err, 'p rm_world) outcome" where
  "preempt_for k a c w =
     ofail (lcells w a) (\<lambda>t.
       obind (preemptComponent (openmaxStandComp t) w) (\<lambda>err w.
         if err \<noteq> OMX_ErrorNone then Done OMX_ErrorInsufficientResources w
         else ofail (lcells w a) (\<lambda>t.
           obind (removeElemFromList (ComponentList k) (openmaxStandComp t) w) (\<lambda>_ w.
           obind (addElemToList (ComponentList k) c w) (\<lambda>err w.
             if err \<noteq> OMX_ErrorNone then Done OMX_ErrorInsufficientResources w
             else Done OMX_ErrorNone w)))))"

definition get_resource ::
    "nat \<Rightarrow> rm_class \<Rightarrow> 'p rm_world \<Rightarrow> (omx_err, 'p rm_world) outcome" where
  "get_resource c k w =
     ofail (numElemInList (ComponentList k) w) (\<lambda>n.
       if n \<ge> MAX_RESOURCE k then
         ofail (comps w c) (\<lambda>p.
         ofail (searchLowerPriority (ComponentList k) (nGroupPriority p) w) (\<lambda>(candidates, candidate).
           if candidates \<noteq> 0 then ofail candidate (\<lambda>a. preempt_for k a c w)
           else Done OMX_ErrorInsufficientResources w))
       else obind (addElemToList (ComponentList k) c w) (\<lambda>_ w. Done OMX_ErrorNone w))"

definition RM_getResource :: "nat \<Rightarrow> 'p rm_world \<Rightarrow> (omx_err, 'p rm_world) outcome" where
  "RM_getResource c = by_class c (get_resource c)"

text \<open>The first component that waits leaves the waiting list and is sent to Idle.\<close>

definition serve_waiting :: "rm_class \<Rightarrow> 'p rm_world \<Rightarrow> (omx_err, 'p rm_world) outcome" where
  "serve_waiting k w =
     ofail (numElemInList (WaitingList k) w) (\<lambda>n.
       if n \<noteq> 0 then
         ofail (lcells w (lheads w (WaitingList k))) (\<lambda>t.
           let c = openmaxStandComp t in
           obind (removeElemFromList (WaitingList k) c w) (\<lambda>_ w.
           obind (on_comp c (omx_base_component_SendCommand OMX_CommandStateSet
                               (state_code OMX_StateIdle) None) w) (\<lambda>_ w.
           Done OMX_ErrorNone w)))
       else Done OMX_ErrorNone w)"

definition release_resource ::
    "nat \<Rightarrow> rm_class \<Rightarrow> 'p rm_world \<Rightarrow> (omx_err, 'p rm_world) outcome" where
  "release_resource c k w =
     (if lheads w (ComponentList k) = 0 then Done OMX_ErrorUndefined w
      else obind (removeElemFromList (ComponentList k) c w) (\<lambda>err w.
        if err \<noteq> OMX_ErrorNone then Done OMX_ErrorUndefined w
        else serve_waiting k w))"

definition RM_releaseResource :: "nat \<Rightarrow> 'p rm_world \<Rightarrow> (omx_err, 'p rm_world) outcome" where
  "RM_releaseResource c = by_class c (release_resource c)"

definition RM_waitForResource :: "nat \<Rightarrow> 'p rm_world \<Rightarrow> (omx_err, 'p rm_world) outcome" where
  "RM_waitForResource c =
     by_class c (\<lambda>k w. obind (addElemToList (WaitingList k) c w) (\<lambda>_ w. Done OMX_ErrorNone w))"

definition RM_removeFromWaitForResource :: "nat \<Rightarrow> 'p rm_world \<Rightarrow> (omx_err, 'p rm_world) outcome" where
  "RM_removeFromWaitForResource c =
     by_class c (\<lambda>k w. obind (removeElemFromList (WaitingList k) c w) (\<lambda>_ w. Done OMX_ErrorNone w))"

section \<open>State changes of a component under the manager\<close>

text \<open>
  \<open>omx_base_component_DoStateSet\<close> with its four calls of the manager. The model of the state change
  takes the answers of the manager as parameters; here they are the manager's own.
\<close>

definition managed_DoStateSet ::
    "'p omx_ext \<Rightarrow> nat \<Rightarrow> u32 \<Rightarrow> 'p rm_world \<Rightarrow> (omx_err, 'p rm_world) outcome" where
  "managed_DoStateSet x c dest w =
     (let change = (\<lambda>got waits. on_comp c (omx_base_component_DoStateSet
                (x\<lparr>xRM_getResource := (\<lambda>_. got), xRM_waitForResource := (\<lambda>_. waits)\<rparr>) dest)) in
      ofail (comps w c) (\<lambda>s.
        if state s = OMX_StateLoaded \<and> dest = state_code OMX_StateIdle
        then obind (RM_getResource c w) (\<lambda>err w. change err OMX_ErrorNone w)
        else if state s = OMX_StateIdle \<and> dest = state_code OMX_StateLoaded
        then obind (RM_releaseResource c w) (\<lambda>_ w. change OMX_ErrorNone OMX_ErrorNone w)
        else if state s = OMX_StateWaitForResources \<and> dest = state_code OMX_StateLoaded
        then obind (RM_removeFromWaitForResource c w) (\<lambda>_ w. change OMX_ErrorNone OMX_ErrorNone w)
        else if state s = OMX_StateLoaded \<and> dest = state_code OMX_StateWaitForResources
        then obind (RM_waitForResource c w) (\<lambda>err w. change OMX_ErrorNone err w)
        else change OMX_ErrorNone OMX_ErrorNone w))"

end
