(* ===== verification/OmxPolicy.thy ===== *)
theory OmxPolicy
  imports OmxResource
begin

text \<open>
  What the resource manager does, without cells and links: lists of entries, the policy by which a
  holder gives way, and the proof that the code of OmxResource does the same, error codes and
  undefined behaviour included. On top of it, what holds after any sequence of calls.
\<close>

section \<open>The policy\<close>

record rm_entry =
  eComp :: nat
  ePriority :: u32
  eTime :: u32

record 'p rm_spec =
  scomps :: "nat \<Rightarrow> 'p omx_comp option"
  slist :: "rm_list \<Rightarrow> rm_entry list"
  sclock :: int
  sbudget :: nat

definition spec_comp ::
    "nat \<Rightarrow> ('p omx_comp \<Rightarrow> ('a, 'p omx_comp) outcome) \<Rightarrow> 'p rm_spec \<Rightarrow> ('a, 'p rm_spec) outcome" where
  "spec_comp c f s =
     ofail (scomps s c) (\<lambda>p.
       case f p of
         Done r t \<Rightarrow> Done r (s\<lparr>scomps := (scomps s)(c \<mapsto> t)\<rparr>)
       | Blocked t \<Rightarrow> Blocked (s\<lparr>scomps := (scomps s)(c \<mapsto> t)\<rparr>)
       | Fault \<Rightarrow> Fault)"

definition spec_add :: "rm_list \<Rightarrow> nat \<Rightarrow> 'p rm_spec \<Rightarrow> (omx_err, 'p rm_spec) outcome" where
  "spec_add l c s =
     ofail (scomps s c) (\<lambda>p.
       if sbudget s = 0 then Done OMX_ErrorInsufficientResources s
       else if sclock s \<ge> INT_MAX then Fault
       else Done OMX_ErrorNone
         (s\<lparr>slist := (slist s)(l := slist s l @ [\<lparr>eComp = c, ePriority = nGroupPriority p,
                                                  eTime = word_of_int (sclock s)\<rparr>]),
            sclock := sclock s + 1, sbudget := sbudget s - 1\<rparr>))"

fun drop_first :: "('a \<Rightarrow> bool) \<Rightarrow> 'a list \<Rightarrow> 'a list" where
  "drop_first P [] = []"
| "drop_first P (x # xs) = (if P x then xs else x # drop_first P xs)"

definition spec_remove :: "rm_list \<Rightarrow> nat \<Rightarrow> 'p rm_spec \<Rightarrow> (omx_err, 'p rm_spec) outcome" where
  "spec_remove l c s =
     (if slist s l = [] then Done OMX_ErrorUndefined s
      else if list_all (\<lambda>e. eComp e \<noteq> c) (slist s l) then Done OMX_ErrorComponentNotFound s
      else Done OMX_ErrorNone (s\<lparr>slist := (slist s)(l := drop_first (\<lambda>e. eComp e = c) (slist s l))\<rparr>))"

text \<open>The holder that gives way to a component: the oldest of those with lower priority.\<close>

definition oldest_lower :: "u32 \<Rightarrow> rm_entry list \<Rightarrow> rm_entry option" where
  "oldest_lower prio es =
     find (\<lambda>e. ePriority e > prio \<and> list_all (\<lambda>e'. ePriority e' > prio \<longrightarrow> eTime e \<le> eTime e') es) es"

text \<open>What is done to it: an idle component is told and sent to Loaded, another one is not told.\<close>

definition resources_lost :: "'p omx_comp \<Rightarrow> (omx_err, 'p omx_comp) outcome" where
  "resources_lost p =
     (if state p = OMX_StateIdle then
        obind (event_handler (EventError OMX_ErrorResourcesLost 0) p) (\<lambda>_ p.
        obind (omx_base_component_SendCommand OMX_CommandStateSet (state_code OMX_StateLoaded) None p) (\<lambda>err p.
        Done (if err \<noteq> OMX_ErrorNone then OMX_ErrorUndefined else OMX_ErrorNone) p))
      else Done OMX_ErrorNone p)"

definition spec_class ::
    "nat \<Rightarrow> (rm_class \<Rightarrow> 'p rm_spec \<Rightarrow> (omx_err, 'p rm_spec) outcome) \<Rightarrow> 'p rm_spec \<Rightarrow>
      (omx_err, 'p rm_spec) outcome" where
  "spec_class c f s =
     ofail (scomps s c) (\<lambda>p. ofail (name p) (\<lambda>n.
       case rm_class_of n of None \<Rightarrow> Done OMX_ErrorNone s | Some k \<Rightarrow> f k s))"

definition spec_get :: "nat \<Rightarrow> rm_class \<Rightarrow> 'p rm_spec \<Rightarrow> (omx_err, 'p rm_spec) outcome" where
  "spec_get c k s =
     (if int (length (slist s (ComponentList k))) < MAX_RESOURCE k
      then obind (spec_add (ComponentList k) c s) (\<lambda>_ s. Done OMX_ErrorNone s)
      else ofail (scomps s c) (\<lambda>p.
        case oldest_lower (nGroupPriority p) (slist s (ComponentList k)) of
          None \<Rightarrow> Done OMX_ErrorInsufficientResources s
        | Some e \<Rightarrow>
            obind (spec_comp (eComp e) resources_lost s) (\<lambda>err s.
            if err \<noteq> OMX_ErrorNone then Done OMX_ErrorInsufficientResources s
            else obind (spec_remove (ComponentList k) (eComp e) s) (\<lambda>_ s.
                 obind (spec_add (ComponentList k) c s) (\<lambda>err s.
                 Done (if err \<noteq> OMX_ErrorNone then OMX_ErrorInsufficientResources else OMX_ErrorNone) s)))))"

definition spec_serve :: "rm_class \<Rightarrow> 'p rm_spec \<Rightarrow> (omx_err, 'p rm_spec) outcome" where
  "spec_serve k s =
     (case slist s (WaitingList k) of
        [] \<Rightarrow> Done OMX_ErrorNone s
      | e # es \<Rightarrow>
          obind (spec_comp (eComp e)
                   (omx_base_component_SendCommand OMX_CommandStateSet (state_code OMX_StateIdle) None)
                   (s\<lparr>slist := (slist s)(WaitingList k := es)\<rparr>)) (\<lambda>_ s.
          Done OMX_ErrorNone s))"

definition spec_release :: "nat \<Rightarrow> rm_class \<Rightarrow> 'p rm_spec \<Rightarrow> (omx_err, 'p rm_spec) outcome" where
  "spec_release c k s =
     obind (spec_remove (ComponentList k) c s) (\<lambda>err s.
       if err \<noteq> OMX_ErrorNone then Done OMX_ErrorUndefined s else spec_serve k s)"

datatype rm_call = RmGet nat | RmRelease nat | RmWait nat | RmLeave nat | RmDeinit

fun rm_exec :: "rm_call \<Rightarrow> 'p rm_world \<Rightarrow> (omx_err, 'p rm_world) outcome" where
  "rm_exec (RmGet c) w = RM_getResource c w"
| "rm_exec (RmRelease c) w = RM_releaseResource c w"
| "rm_exec (RmWait c) w = RM_waitForResource c w"
| "rm_exec (RmLeave c) w = RM_removeFromWaitForResource c w"
| "rm_exec RmDeinit w = RM_Deinit w"

fun rm_policy :: "rm_call \<Rightarrow> 'p rm_spec \<Rightarrow> (omx_err, 'p rm_spec) outcome" where
  "rm_policy (RmGet c) s = spec_class c (spec_get c) s"
| "rm_policy (RmRelease c) s = spec_class c (spec_release c) s"
| "rm_policy (RmWait c) s =
     spec_class c (\<lambda>k s. obind (spec_add (WaitingList k) c s) (\<lambda>_ s. Done OMX_ErrorNone s)) s"
| "rm_policy (RmLeave c) s =
     spec_class c (\<lambda>k s. obind (spec_remove (WaitingList k) c s) (\<lambda>_ s. Done OMX_ErrorNone s)) s"
| "rm_policy RmDeinit s = Done OMX_ErrorNone (s\<lparr>slist := (\<lambda>_. [])\<rparr>)"

section \<open>Cells on the heap\<close>

fun path :: "rm_cells \<Rightarrow> nat \<Rightarrow> nat list \<Rightarrow> bool" where
  "path m a [] = (a = 0)"
| "path m a (x # xs) = (a = x \<and> x \<noteq> 0 \<and> (\<exists>t. m x = Some t \<and> path m (lnext t) xs))"

lemma path_frame: "path m a xs \<Longrightarrow> (\<And>x. x \<in> set xs \<Longrightarrow> m' x = m x) \<Longrightarrow> path m' a xs"
  by (induction xs arbitrary: a) auto

lemma path_mem: "path m a xs \<Longrightarrow> x \<in> set xs \<Longrightarrow> \<exists>t. m x = Some t \<and> x \<noteq> 0"
  by (induction xs arbitrary: a) auto

lemma path_last: "path m a (xs @ [y]) \<Longrightarrow> last_cell m a = Some y \<and> (\<exists>t. m y = Some t \<and> lnext t = 0)"
proof (induction xs arbitrary: a)
  case Nil
  then show ?case by (subst last_cell.simps) auto
next
  case (Cons x xs)
  then obtain t where t: "m x = Some t" "path m (lnext t) (xs @ [y])" "a = x" by auto
  moreover have "lnext t \<noteq> 0" using t(2) by (cases xs) auto
  ultimately show ?case using Cons.IH [OF t(2)] by (subst last_cell.simps) simp
qed

lemma path_append:
  "path m a (xs @ [y]) \<Longrightarrow> distinct (xs @ [y, z]) \<Longrightarrow> z \<noteq> 0 \<Longrightarrow> m y = Some u \<Longrightarrow> lnext t = 0 \<Longrightarrow>
    path (m(y \<mapsto> u\<lparr>lnext := z\<rparr>, z \<mapsto> t)) a (xs @ [y, z])"
proof (induction xs arbitrary: a)
  case (Cons x xs)
  then show ?case by (cases xs) auto
qed auto

lemma path_remove:
  "path m a (us @ [u, b] @ vs) \<Longrightarrow> distinct (us @ [u, b] @ vs) \<Longrightarrow> m u = Some p \<Longrightarrow> m b = Some t \<Longrightarrow>
    path (m(u \<mapsto> p\<lparr>lnext := lnext t\<rparr>, b := None)) a (us @ [u] @ vs)"
proof (induction us arbitrary: a)
  case Nil
  then have "path m (lnext t) vs" "u \<noteq> b" "u \<notin> set vs" "b \<notin> set vs" by auto
  then have "path (m(u \<mapsto> p\<lparr>lnext := lnext t\<rparr>, b := None)) (lnext t) vs"
    by (auto intro: path_frame)
  then show ?case using Nil by (simp add: fun_upd_def)
qed auto

lemma path_count: "path m a xs \<Longrightarrow> count_cells m a n = Some (n + int (length xs))"
  by (induction xs arbitrary: a n) (subst count_cells.simps; force)+

lemma path_free:
  "path m a xs \<Longrightarrow> distinct xs \<Longrightarrow> free_cells a m = Some (\<lambda>b. if b \<in> set xs then None else m b)"
proof (induction xs arbitrary: a m)
  case (Cons x xs)
  then obtain t where t: "m x = Some t" "path m (lnext t) xs" "a = x" "x \<noteq> 0" by auto
  have "path (m(x := None)) (lnext t) xs" using t(2) Cons.prems(2) by (auto intro: path_frame)
  moreover have "(\<lambda>b. if b \<in> set xs then None else (m(x := None)) b) =
      (\<lambda>b. if b \<in> set (x # xs) then None else m b)" by auto
  ultimately have "free_cells (lnext t) (m(x := None)) =
      Some (\<lambda>b. if b \<in> set (x # xs) then None else m b)"
    using Cons.IH [of "m(x := None)" "lnext t"] Cons.prems(2) by (metis distinct.simps(2))
  then show ?case using t by (subst free_cells.simps) simp
qed (subst free_cells.simps; simp)

text \<open>The search for a component, going on behind the first cell.\<close>

abbreviation not_comp :: "rm_cells \<Rightarrow> nat \<Rightarrow> nat \<Rightarrow> bool" where
  "not_comp m c x \<equiv> openmaxStandComp (the (m x)) \<noteq> c"

lemma find_walk_none:
  "path m temp xs \<Longrightarrow> \<forall>x \<in> set xs. not_comp m c x \<Longrightarrow> first \<notin> set xs \<Longrightarrow> m prev = Some p \<Longrightarrow>
    lnext p = temp \<Longrightarrow> \<exists>q. find_cell m first c prev temp = Some (q, 0)"
proof (induction xs arbitrary: temp prev p)
  case (Cons x xs)
  then obtain t where t: "m x = Some t" "path m (lnext t) xs" "temp = x" "x \<noteq> 0" by auto
  from Cons.IH [OF t(2) _ _ t(1) refl] show ?case
    using t Cons.prems by (subst find_cell.simps) auto
qed (subst find_cell.simps; simp)

lemma find_walk_some:
  "path m temp (xs @ b # ys) \<Longrightarrow> \<forall>x \<in> set xs. not_comp m c x \<Longrightarrow> \<not> not_comp m c b \<Longrightarrow>
    first \<notin> set xs \<Longrightarrow> m prev = Some p \<Longrightarrow> lnext p = temp \<Longrightarrow>
    find_cell m first c prev temp = Some (last (prev # xs), b)"
proof (induction xs arbitrary: temp prev p)
  case (Cons x xs)
  then obtain t where t: "m x = Some t" "path m (lnext t) (xs @ b # ys)" "temp = x" "x \<noteq> 0" by auto
  from Cons.IH [OF t(2) _ _ _ t(1) refl] show ?case
    using t Cons.prems by (subst find_cell.simps) auto
qed (subst find_cell.simps; force)

lemma find_none:
  assumes "path m a xs" "distinct xs" "xs \<noteq> []" "\<forall>x \<in> set xs. not_comp m c x"
  shows "\<exists>q. find_cell m a c a a = Some (q, 0)"
proof -
  obtain x ys t where x: "xs = x # ys" "m x = Some t" "path m (lnext t) ys" "a = x" "x \<noteq> 0"
    using assms(1,3) by (cases xs) auto
  then show ?thesis using find_walk_none [OF x(3) _ _ x(2) refl] assms
    by (subst find_cell.simps) auto
qed

lemma find_some:
  assumes "path m a (us @ b # vs)" "distinct (us @ b # vs)" "\<forall>x \<in> set us. not_comp m c x" "\<not> not_comp m c b"
  shows "find_cell m a c a a = Some (if us = [] then b else last us, b)"
proof (cases us)
  case Nil
  then show ?thesis using assms by (subst find_cell.simps) auto
next
  case (Cons x ys)
  then obtain t where x: "m x = Some t" "path m (lnext t) (ys @ b # vs)" "a = x" "x \<noteq> 0"
    using assms(1) by auto
  then show ?thesis using find_walk_some [OF x(2) _ assms(4) _ x(1) refl] assms Cons
    by (subst find_cell.simps) auto
qed

text \<open>
  The search for a candidate: with time stamps that grow along the list, the first component of
  lower priority stays the candidate.
\<close>

abbreviation lower :: "rm_cells \<Rightarrow> u32 \<Rightarrow> nat \<Rightarrow> bool" where
  "lower m prio x \<equiv> lGroupPriority (the (m x)) > prio"

lemma search_none:
  "path m a xs \<Longrightarrow> \<forall>x \<in> set xs. \<not> lower m prio x \<Longrightarrow> search_cells m prio a 0 0 = Some (0, 0)"
  by (induction xs arbitrary: a) (subst search_cells.simps; force)+

lemma search_found:
  "path m a xs \<Longrightarrow> n > 0 \<Longrightarrow> b \<noteq> 0 \<Longrightarrow> m b = Some d \<Longrightarrow>
    \<forall>x \<in> set xs. timestamp d \<le> timestamp (the (m x)) \<Longrightarrow>
    \<exists>k > 0. search_cells m prio a n b = Some (k, b)"
proof (induction xs arbitrary: a n)
  case (Cons x xs)
  then obtain t where t: "m x = Some t" "path m (lnext t) xs" "a = x" "x \<noteq> 0" by auto
  let ?n = "if lGroupPriority t > prio then n + 1 else n"
  have "\<not> timestamp d > timestamp t" using Cons.prems t by auto
  then have "search_cells m prio a n b = search_cells m prio (lnext t) ?n b"
    using Cons.prems t by (subst search_cells.simps) (simp add: Let_def)
  then show ?case using Cons.IH [OF t(2), of ?n] Cons.prems by simp
qed (subst search_cells.simps; simp)

lemma search_first:
  "path m a (us @ b # vs) \<Longrightarrow> \<forall>x \<in> set us. \<not> lower m prio x \<Longrightarrow> lower m prio b \<Longrightarrow>
    \<forall>x \<in> set vs. timestamp (the (m b)) \<le> timestamp (the (m x)) \<Longrightarrow>
    \<exists>k > 0. search_cells m prio a 0 0 = Some (k, b)"
proof (induction us arbitrary: a)
  case Nil
  then obtain t where t: "m b = Some t" "path m (lnext t) vs" "a = b" "b \<noteq> 0" by auto
  then have "search_cells m prio a 0 0 = search_cells m prio (lnext t) 1 b"
    using Nil by (subst search_cells.simps) (simp add: Let_def)
  then show ?case using search_found [OF t(2) _ t(4,1), of 1] Nil t by simp
next
  case (Cons x us)
  then obtain t where t: "m x = Some t" "path m (lnext t) (us @ b # vs)" "a = x" "x \<noteq> 0" by auto
  then have "search_cells m prio a 0 0 = search_cells m prio (lnext t) 0 0"
    using Cons.prems by (subst search_cells.simps) (simp add: Let_def)
  then show ?case using Cons.IH [OF t(2)] Cons.prems by simp
qed

section \<open>Worlds and lists of entries\<close>

definition entry_of :: "ComponentListType \<Rightarrow> rm_entry" where
  "entry_of t = \<lparr>eComp = openmaxStandComp t, ePriority = lGroupPriority t, eTime = timestamp t\<rparr>"

abbreviation entries :: "rm_cells \<Rightarrow> nat list \<Rightarrow> rm_entry list" where
  "entries m \<equiv> map (\<lambda>x. entry_of (the (m x)))"

text \<open>The eight lists share no cell, and there is no cell outside them.\<close>

definition owns :: "rm_cells \<Rightarrow> (rm_list \<Rightarrow> nat) \<Rightarrow> (rm_list \<Rightarrow> nat list) \<Rightarrow> bool" where
  "owns m hs A =
     ((\<forall>l. path m (hs l) (A l) \<and> distinct (A l)) \<and>
      (\<forall>l l'. l \<noteq> l' \<longrightarrow> set (A l) \<inter> set (A l') = {}) \<and>
      (\<forall>a. m a \<noteq> None \<longrightarrow> (\<exists>l. a \<in> set (A l))))"

text \<open>Entries are in the order of their time stamps, and older than the next one.\<close>

definition in_order :: "int \<Rightarrow> rm_entry list \<Rightarrow> bool" where
  "in_order now es =
     (sorted_wrt (\<lambda>e e'. eTime e < eTime e') es \<and> list_all (\<lambda>e. int (unat (eTime e)) < now) es)"

definition rm_rep :: "'p rm_world \<Rightarrow> 'p rm_spec \<Rightarrow> bool" where
  "rm_rep w s =
     ((\<exists>A. owns (lcells w) (lheads w) A \<and> (\<forall>l. slist s l = entries (lcells w) (A l))) \<and>
      (\<forall>a > lbrk w. lcells w a = None) \<and>
      comps w = scomps s \<and> globalTimestamp w = sclock s \<and> lbudget w = sbudget s \<and>
      0 \<le> sclock s \<and> sclock s \<le> INT_MAX \<and> (\<forall>l. in_order (sclock s) (slist s l)))"

fun sim :: "('a, 'p rm_world) outcome \<Rightarrow> ('a, 'p rm_spec) outcome \<Rightarrow> bool" where
  "sim (Done r w) (Done r' s) = (r = r' \<and> rm_rep w s)"
| "sim (Blocked w) (Blocked s) = rm_rep w s"
| "sim Fault Fault = True"
| "sim _ _ = False"

lemma sim_bind:
  "sim m n \<Longrightarrow> (\<And>r w s. rm_rep w s \<Longrightarrow> sim (f r w) (g r s)) \<Longrightarrow> sim (obind m f) (obind n g)"
  by (cases m; cases n) auto

lemma sim_fail: "(\<And>v. x = Some v \<Longrightarrow> sim (f v) (g v)) \<Longrightarrow> sim (ofail x f) (ofail x g)"
  by (cases x) auto

lemma rep_fields:
  assumes "rm_rep w s"
  shows "comps w = scomps s" "globalTimestamp w = sclock s" "lbudget w = sbudget s"
  using assms by (auto simp: rm_rep_def)

lemma rep_lists:
  assumes "rm_rep w s"
  obtains A where "owns (lcells w) (lheads w) A" "\<And>l. slist s l = entries (lcells w) (A l)"
  using assms by (auto simp: rm_rep_def)

lemma ownsD:
  assumes "owns m hs A"
  shows "path m (hs l) (A l)" "distinct (A l)" "l \<noteq> l' \<Longrightarrow> x \<in> set (A l) \<Longrightarrow> x \<notin> set (A l')"
  using assms by (auto simp: owns_def)

lemma rep_comps: "rm_rep w s \<Longrightarrow> rm_rep (w\<lparr>comps := cs\<rparr>) (s\<lparr>scomps := cs\<rparr>)"
  by (simp add: rm_rep_def)

lemma sim_comp: "rm_rep w s \<Longrightarrow> sim (on_comp c f w) (spec_comp c f s)"
  by (auto simp: on_comp_def spec_comp_def rep_fields intro!: sim_fail rep_comps split: outcome.splits)

lemma rep_count: "rm_rep w s \<Longrightarrow> numElemInList l w = Some (int (length (slist s l)))"
  by (elim rep_lists) (simp add: numElemInList_def path_count [OF ownsD(1)])

lemma rep_head:
  assumes "rm_rep w s"
  shows "lheads w l = 0 \<longleftrightarrow> slist s l = []"
proof -
  obtain A where A: "owns (lcells w) (lheads w) A" "\<And>l. slist s l = entries (lcells w) (A l)"
    using rep_lists [OF assms] by blast
  show ?thesis using ownsD(1) [OF A(1), of l] A(2) [of l] by (cases "A l") auto
qed

lemma entries_frame: "(\<And>x. x \<in> set xs \<Longrightarrow> m' x = m x) \<Longrightarrow> entries m' xs = entries m xs"
  by simp

text \<open>One list is changed, and the cells of the others are not.\<close>

lemma owns_update:
  assumes "owns m hs A" "path m' h xs" "distinct xs"
    "\<And>l' x. l' \<noteq> l \<Longrightarrow> x \<in> set (A l') \<Longrightarrow> m' x = m x \<and> x \<notin> set xs"
    "\<And>a. m' a \<noteq> None \<Longrightarrow> a \<in> set xs \<or> (m a \<noteq> None \<and> a \<notin> set (A l))"
  shows "owns m' (hs(l := h)) (A(l := xs))"
  unfolding owns_def
proof (intro conjI allI impI)
  show "path m' ((hs(l := h)) l') ((A(l := xs)) l')" for l'
    using assms(2) path_frame [OF ownsD(1) [OF assms(1), of l'], of m'] assms(4) by auto
  show "distinct ((A(l := xs)) l')" for l' using assms(3) ownsD(2) [OF assms(1)] by simp
  show "set ((A(l := xs)) l1) \<inter> set ((A(l := xs)) l2) = {}" if "l1 \<noteq> l2" for l1 l2
    using that assms(4) ownsD(3) [OF assms(1)] by (auto split: if_splits)
  show "\<exists>l'. a \<in> set ((A(l := xs)) l')" if "m' a \<noteq> None" for a
  proof (cases "a \<in> set xs")
    case True
    then show ?thesis by (intro exI [of _ l]) simp
  next
    case False
    then have a: "m a \<noteq> None" "a \<notin> set (A l)" using assms(5) [OF that] by blast+
    then obtain l' where "a \<in> set (A l')" using assms(1) unfolding owns_def by blast
    then show ?thesis using a(2) by (intro exI [of _ l']) auto
  qed
qed

lemma in_order_mono: "in_order n es \<Longrightarrow> n \<le> n' \<Longrightarrow> in_order n' es"
  by (auto simp: in_order_def list_all_iff)

lemma in_order_snoc:
  assumes "in_order n es" "0 \<le> n" "n < INT_MAX"
  shows "in_order (n + 1) (es @ [\<lparr>eComp = c, ePriority = p, eTime = word_of_int n\<rparr>])"
proof -
  have "int (unat (word_of_int n :: u32)) = n"
    using assms(2,3) by (simp add: unsigned_of_int take_bit_int_eq_self)
  then show ?thesis using assms(1)
    by (auto simp: in_order_def sorted_wrt_append list_all_iff word_less_def)
qed

lemma in_order_drop: "in_order n (us @ e # vs) \<Longrightarrow> in_order n (us @ vs)"
  by (auto simp: in_order_def sorted_wrt_append)

lemma drop_first_split:
  "\<forall>x \<in> set us. \<not> P x \<Longrightarrow> P e \<Longrightarrow> drop_first P (us @ e # vs) = us @ vs"
  by (induction us) auto

lemma rep_change:
  assumes rep: "rm_rep w s" and A: "owns (lcells w) (lheads w) A" "\<And>l. slist s l = entries (lcells w) (A l)"
    and new: "owns m' hs' (A(l := xs))" "\<And>l' x. l' \<noteq> l \<Longrightarrow> x \<in> set (A l') \<Longrightarrow> m' x = lcells w x"
    "entries m' xs = es" "in_order t' es" "\<And>a. a > b' \<Longrightarrow> m' a = None"
    and t: "sclock s \<le> t'" "t' \<le> INT_MAX"
  shows "rm_rep (w\<lparr>lbrk := b', lbudget := n', lheads := hs', lcells := m', globalTimestamp := t'\<rparr>)
      (s\<lparr>slist := (slist s)(l := es), sclock := t', sbudget := n'\<rparr>)"
proof -
  have "((slist s)(l := es)) l' = entries m' ((A(l := xs)) l')" for l'
    using A(2) [of l'] new(2) [of l'] new(3) by auto
  moreover have "in_order t' (((slist s)(l := es)) l')" for l'
    using rep new(4) t(1) by (auto simp: rm_rep_def intro: in_order_mono)
  ultimately show ?thesis using rep new(1,5) t by (auto simp: rm_rep_def)
qed

lemma rep_shrink:
  assumes rep: "rm_rep w s" and A: "owns (lcells w) (lheads w) A" "\<And>l. slist s l = entries (lcells w) (A l)"
    and new: "owns m' hs' (A(l := xs))" "\<And>l' x. l' \<noteq> l \<Longrightarrow> x \<in> set (A l') \<Longrightarrow> m' x = lcells w x"
    "entries m' xs = es" "in_order (sclock s) es" "\<And>a. a > lbrk w \<Longrightarrow> m' a = None"
  shows "rm_rep (w\<lparr>lheads := hs', lcells := m'\<rparr>) (s\<lparr>slist := (slist s)(l := es)\<rparr>)"
proof -
  have "sclock s \<le> INT_MAX" using rep by (simp add: rm_rep_def)
  from rep_change [OF rep A new(1,2,3,4,5) order_refl this, where n' = "lbudget w"] show ?thesis
    using rep by (auto simp: rm_rep_def)
qed

lemma rep_fresh: "rm_rep w s \<Longrightarrow> owns (lcells w) hs A \<Longrightarrow> Suc (lbrk w) \<notin> set (A l)"
  using path_mem [OF ownsD(1)] by (fastforce simp: rm_rep_def)

text \<open>A filled cell at the end of a list.\<close>

lemma rep_append:
  assumes rep: "rm_rep w s" and A: "owns (lcells w) (lheads w) A" "\<And>l. slist s l = entries (lcells w) (A l)"
    and n: "globalTimestamp w < INT_MAX"
    and m: "m = (if A l = [] then lcells w
               else (lcells w)(last (A l) \<mapsto> the (lcells w (last (A l)))\<lparr>lnext := Suc (lbrk w)\<rparr>))"
  shows "rm_rep (w\<lparr>lbrk := Suc (lbrk w), lbudget := b,
          lheads := (lheads w)(l := if A l = [] then Suc (lbrk w) else lheads w l),
          lcells := m(Suc (lbrk w) \<mapsto> \<lparr>openmaxStandComp = c, lGroupPriority = q,
            timestamp = word_of_int (globalTimestamp w), lnext = 0\<rparr>),
          globalTimestamp := globalTimestamp w + 1\<rparr>)
      (s\<lparr>slist := (slist s)(l := slist s l @ [\<lparr>eComp = c, ePriority = q, eTime = word_of_int (sclock s)\<rparr>]),
        sclock := sclock s + 1, sbudget := b\<rparr>)"
proof -
  let ?a = "Suc (lbrk w)"
  let ?t = "\<lparr>openmaxStandComp = c, lGroupPriority = q, timestamp = word_of_int (globalTimestamp w), lnext = 0\<rparr>"
  let ?m = "m(?a \<mapsto> ?t)" and ?h = "if A l = [] then ?a else lheads w l"
  note P = ownsD(1) [OF A(1), of l] and D = ownsD(2) [OF A(1), of l] and F = rep_fresh [OF rep A(1)]
  have p: "path ?m ?h (A l @ [?a])"
  proof (cases "A l" rule: rev_cases)
    case (snoc xs y)
    then obtain u where "lcells w y = Some u" using path_mem [OF P, of y] by auto
    then show ?thesis using path_append [of "lcells w" "lheads w l" xs y ?a u ?t] P D F [of l] snoc m by auto
  qed simp
  have other: "?m x = lcells w x" if "x \<in> set (A l')" "l' \<noteq> l" for x l'
  proof -
    have "x \<noteq> ?a" using F [of l'] that(1) by auto
    moreover have "A l \<noteq> [] \<Longrightarrow> x \<noteq> last (A l)" using ownsD(3) [OF A(1) that(2,1)] last_in_set by metis
    ultimately show ?thesis using m by auto
  qed
  have keep: "entry_of (the (?m x)) = entry_of (the (lcells w x))" if "x \<in> set (A l)" for x
    using that F [of l] m by (auto simp: entry_of_def)
  have g: "globalTimestamp w = sclock s" "0 \<le> sclock s" "in_order (sclock s) (slist s l)"
    "\<And>a. a > lbrk w \<Longrightarrow> lcells w a = None" using rep by (auto simp: rm_rep_def)
  have o: "owns ?m ((lheads w)(l := ?h)) (A(l := A l @ [?a]))"
  proof (rule owns_update [OF A(1) p])
    show "distinct (A l @ [?a])" using D F [of l] by simp
    show "?m x = lcells w x \<and> x \<notin> set (A l @ [?a])" if "l' \<noteq> l" "x \<in> set (A l')" for l' x
      using other [OF that(2,1)] ownsD(3) [OF A(1) that] F [of l'] that(2) by auto
    show "b \<in> set (A l @ [?a]) \<or> (lcells w b \<noteq> None \<and> b \<notin> set (A l))" if "?m b \<noteq> None" for b
      using that m by (auto split: if_splits)
  qed
  have e: "entries ?m (A l @ [?a]) = slist s l @ [\<lparr>eComp = c, ePriority = q, eTime = word_of_int (sclock s)\<rparr>]"
    using keep A(2) [of l] g(1) by (simp add: entry_of_def)
  have b: "?m x = None" if "x > ?a" for x
    using that g(4) [of x] path_mem [OF P, of "last (A l)"] last_in_set [of "A l"] g(4) m
    by (cases "A l = []") fastforce+
  show ?thesis unfolding g(1)
    by (rule rep_change [OF rep A o [unfolded g(1)] other [unfolded g(1)] e [unfolded g(1)] _ b [unfolded g(1)]])
      (use in_order_snoc [OF g(3,2)] n g in auto)
qed

lemma sim_add:
  assumes rep: "rm_rep w s" shows "sim (addElemToList l c w) (spec_add l c s)"
proof (cases "comps w c")
  case None
  then show ?thesis using rep by (simp add: addElemToList_def spec_add_def rep_fields)
next
  case (Some p)
  obtain A where A: "owns (lcells w) (lheads w) A" "\<And>l. slist s l = entries (lcells w) (A l)"
    using rep_lists [OF rep] by blast
  note P = ownsD(1) [OF A(1), of l]
  have last: "last_cell (lcells w) (lheads w l) = Some (last (A l)) \<and> lcells w (last (A l)) \<noteq> None \<and> A l \<noteq> []"
    if "lheads w l \<noteq> 0"
  proof (cases "A l" rule: rev_cases)
    case (snoc xs y)
    then show ?thesis using path_last [of "lcells w" "lheads w l" xs y] P by auto
  qed (use that P in auto)
  have empty: "A l = []" if "lheads w l = 0" using P that by (cases "A l") auto
  note F = rep_fields [OF rep]
  note R = rep_append [OF rep A _ refl, where l = l and c = c and q = "nGroupPriority p" and b = "lbudget w - 1"]
  show ?thesis
    using Some F rep last empty R
    by (auto simp: addElemToList_def spec_add_def rm_malloc_def fill_cell_def)
qed

text \<open>A cell is unlinked and freed.\<close>

lemma rep_unlink:
  assumes rep: "rm_rep w s" and A: "owns (lcells w) (lheads w) A" "\<And>l. slist s l = entries (lcells w) (A l)"
    and b: "A l = us @ b # vs" "lcells w b = Some t"
    and m: "m = (if us = [] then lcells w
               else (lcells w)(last us \<mapsto> the (lcells w (last us))\<lparr>lnext := lnext t\<rparr>))"
  shows "rm_rep (w\<lparr>lheads := (lheads w)(l := if us = [] then lnext t else lheads w l), lcells := m(b := None)\<rparr>)
      (s\<lparr>slist := (slist s)(l := entries (lcells w) (us @ vs))\<rparr>)"
proof -
  note P = ownsD(1) [OF A(1), of l] and D = ownsD(2) [OF A(1), of l]
  let ?m = "m(b := None)" and ?h = "if us = [] then lnext t else lheads w l"
  have mem: "A l \<noteq> []" "b \<in> set (A l)" "us \<noteq> [] \<Longrightarrow> last us \<in> set (A l)" using b by auto
  have p: "path ?m ?h (us @ vs)"
  proof (cases us rule: rev_cases)
    case Nil
    then have "path (lcells w) (lnext t) vs" "b \<notin> set vs" using P D b by auto
    then show ?thesis using Nil m by (auto intro: path_frame)
  next
    case (snoc xs y)
    then obtain u where "lcells w y = Some u" using path_mem [OF P, of y] b(1) by auto
    then show ?thesis using path_remove [of "lcells w" "lheads w l" xs y b vs u t] P D b snoc m by simp
  qed
  have other: "?m x = lcells w x \<and> x \<notin> set (us @ vs)" if "x \<in> set (A l')" "l' \<noteq> l" for x l'
    using ownsD(3) [OF A(1) that(2,1)] mem b(1) m by auto
  have keep: "entry_of (the (?m x)) = entry_of (the (lcells w x))" if "x \<in> set (us @ vs)" for x
    using that D b(1) m by (auto simp: entry_of_def)
  have e: "entries ?m (us @ vs) = entries (lcells w) (us @ vs)" using keep by auto
  have g: "in_order (sclock s) (slist s l)" "\<And>a. a > lbrk w \<Longrightarrow> lcells w a = None"
    using rep by (auto simp: rm_rep_def)
  have i: "in_order (sclock s) (entries (lcells w) (us @ vs))"
    using g(1) in_order_drop [of "sclock s" "entries (lcells w) us"] A(2) [of l] b(1) by simp
  have o: "owns ?m ((lheads w)(l := ?h)) (A(l := us @ vs))"
  proof (rule owns_update [OF A(1) p])
    show "distinct (us @ vs)" using D b(1) by simp
    show "?m x = lcells w x \<and> x \<notin> set (us @ vs)" if "l' \<noteq> l" "x \<in> set (A l')" for l' x
      using other [OF that(2,1)] .
    show "a \<in> set (us @ vs) \<or> (lcells w a \<noteq> None \<and> a \<notin> set (A l))" if "?m a \<noteq> None" for a
      using that m b(1) by (auto split: if_splits)
  qed
  have z: "?m x = None" if "x > lbrk w" for x
    using that g(2) [of x] g(2) [of "last us"] path_mem [OF P mem(3)]
    by (cases "us = []"; cases "x = last us") (auto simp: m)
  show ?thesis by (rule rep_shrink [OF rep A o _ e i z]) (use other in auto)
qed

lemma sim_remove:
  assumes rep: "rm_rep w s" shows "sim (removeElemFromList l c w) (spec_remove l c s)"
proof -
  obtain A where A: "owns (lcells w) (lheads w) A" "\<And>l. slist s l = entries (lcells w) (A l)"
    using rep_lists [OF rep] by blast
  note P = ownsD(1) [OF A(1), of l] and D = ownsD(2) [OF A(1), of l] and H = rep_head [OF rep, of l]
  have C: "eComp (entry_of (the (lcells w x))) = openmaxStandComp (the (lcells w x))" for x
    by (simp add: entry_of_def)
  show ?thesis
  proof (cases "\<exists>x \<in> set (A l). \<not> not_comp (lcells w) c x")
    case False
    then show ?thesis using find_none [OF P D, of c] H A(2) [of l] rep
      by (auto simp: removeElemFromList_def spec_remove_def C list_all_iff)
  next
    case True
    then obtain us b vs where b: "A l = us @ b # vs" "\<not> not_comp (lcells w) c b"
      "\<forall>x \<in> set us. not_comp (lcells w) c x"
      using split_list_first_prop [OF True] by blast
    then obtain t where t: "lcells w b = Some t" "b \<noteq> 0" using path_mem [OF P, of b] by auto
    have u: "us \<noteq> [] \<Longrightarrow> \<exists>p. lcells w (last us) = Some p" using path_mem [OF P, of "last us"] b(1) by auto
    have f: "find_cell (lcells w) (lheads w l) c (lheads w l) (lheads w l) =
        Some (if us = [] then b else last us, b)"
      using find_some [of "lcells w" "lheads w l" us b vs c] P D b by simp
    have h: "b = lheads w l \<longleftrightarrow> us = []" using P D b(1) by (cases us) auto
    have "drop_first (\<lambda>e. eComp e = c) (slist s l) = entries (lcells w) (us @ vs)"
      using drop_first_split [of "entries (lcells w) us" "\<lambda>e. eComp e = c"] b C A(2) [of l] by simp
    moreover have "\<not> list_all (\<lambda>e. eComp e \<noteq> c) (slist s l)" "slist s l \<noteq> []" "lheads w l \<noteq> 0"
      using b C A(2) [of l] H by (auto simp: list_all_iff)
    ultimately show ?thesis
      using rep_unlink [OF rep A b(1) t(1) refl] f h t u
      by (cases "us = []") (auto simp: removeElemFromList_def spec_remove_def rm_free_def)
  qed
qed

text \<open>
  The candidate the search finds is the oldest component of lower priority, because the time stamps
  grow along the list.
\<close>

lemma oldest_first:
  assumes "in_order n (us @ e # vs)" "\<forall>x \<in> set us. \<not> ePriority x > q" "ePriority e > q"
  shows "oldest_lower q (us @ e # vs) = Some e"
proof -
  let ?P = "\<lambda>x. ePriority x > q \<and> list_all (\<lambda>y. ePriority y > q \<longrightarrow> eTime x \<le> eTime y) (us @ e # vs)"
  have "find ?P (us @ xs) = find ?P xs" for xs using assms(2) by (induction us) auto
  moreover have "?P e" using assms by (auto simp: in_order_def sorted_wrt_append list_all_iff less_imp_le)
  ultimately show ?thesis unfolding oldest_lower_def by simp
qed

lemma rep_search:
  assumes rep: "rm_rep w s" and n: "slist s l \<noteq> []"
  shows "case oldest_lower q (slist s l) of
      None \<Rightarrow> searchLowerPriority l q w = Some (0, Some 0)
    | Some e \<Rightarrow> \<exists>k a t. k > 0 \<and> searchLowerPriority l q w = Some (k, Some a) \<and> lcells w a = Some t \<and>
        openmaxStandComp t = eComp e"
proof -
  obtain A where A: "owns (lcells w) (lheads w) A" "\<And>l. slist s l = entries (lcells w) (A l)"
    using rep_lists [OF rep] by blast
  note P = ownsD(1) [OF A(1), of l]
  have h: "lheads w l \<noteq> 0" using rep_head [OF rep] n by blast
  have o: "in_order (sclock s) (slist s l)" using rep by (simp add: rm_rep_def)
  show ?thesis
  proof (cases "\<exists>x \<in> set (A l). lower (lcells w) q x")
    case False
    moreover have "oldest_lower q (slist s l) = None"
      using False A(2) [of l] by (auto simp: oldest_lower_def find_None_iff entry_of_def)
    ultimately show ?thesis using search_none [OF P, of q] h by (simp add: searchLowerPriority_def)
  next
    case True
    then obtain us b vs where b: "A l = us @ b # vs" "lower (lcells w) q b"
      "\<forall>x \<in> set us. \<not> lower (lcells w) q x"
      using split_list_first_prop [OF True] by blast
    obtain t where t: "lcells w b = Some t" "b \<noteq> 0" using path_mem [OF P, of b] b(1) by auto
    have l: "slist s l = entries (lcells w) us @ entry_of t # entries (lcells w) vs"
      using A(2) [of l] b(1) t(1) by simp
    have "\<forall>x \<in> set vs. timestamp (the (lcells w b)) \<le> timestamp (the (lcells w x))"
      using o t(1) unfolding l by (auto simp: in_order_def sorted_wrt_append entry_of_def less_imp_le)
    then obtain k where k: "k > 0" "search_cells (lcells w) q (lheads w l) 0 0 = Some (k, b)"
      using search_first [of "lcells w" "lheads w l" us b vs q] P b by auto
    have "oldest_lower q (slist s l) = Some (entry_of t)"
      using o b(2,3) t(1) unfolding l by (intro oldest_first [where n = "sclock s"]) (auto simp: entry_of_def)
    then show ?thesis using k t h by (auto simp: searchLowerPriority_def entry_of_def)
  qed
qed

section \<open>The calls follow the policy\<close>

lemma on_comp_cells: "on_comp c f w = Done r w' \<Longrightarrow> lcells w' = lcells w"
  by (cases "comps w c"; cases "f (the (comps w c))") (auto simp: on_comp_def)

lemma preempt_lost: "preemptComponent c w = on_comp c resources_lost w"
  by (cases "comps w c")
    (auto simp: preemptComponent_def resources_lost_def on_comp_def event_handler_def fun_upd_idem
      split: outcome.splits)

lemma sim_class:
  "rm_rep w s \<Longrightarrow> (\<And>k. sim (f k w) (g k s)) \<Longrightarrow> sim (by_class c f w) (spec_class c g s)"
  by (auto simp: by_class_def spec_class_def rep_fields intro!: sim_fail split: option.splits)

lemma sim_get:
  assumes rep: "rm_rep w s" shows "sim (get_resource c k w) (spec_get c k s)"
proof (cases "int (length (slist s (ComponentList k))) < MAX_RESOURCE k")
  case True
  then show ?thesis using rep
    by (auto simp: get_resource_def spec_get_def rep_count intro!: sim_bind sim_add)
next
  case False
  then have "slist s (ComponentList k) \<noteq> []" by (cases k) auto
  note S = rep_search [OF rep this]
  have P: "preempt_for k a c w = obind (on_comp (eComp e) resources_lost w) (\<lambda>err w.
            if err \<noteq> OMX_ErrorNone then Done OMX_ErrorInsufficientResources w
            else obind (removeElemFromList (ComponentList k) (eComp e) w) (\<lambda>_ w.
                 obind (addElemToList (ComponentList k) c w) (\<lambda>err w.
                 if err \<noteq> OMX_ErrorNone then Done OMX_ErrorInsufficientResources w
                 else Done OMX_ErrorNone w)))"
    if "lcells w a = Some t" "openmaxStandComp t = eComp e" for a t e
    using that on_comp_cells [of "eComp e" resources_lost w]
    by (cases "on_comp (eComp e) resources_lost w") (auto simp: preempt_for_def preempt_lost)
  have "sim (preempt_for k a c w) (obind (spec_comp (eComp e) resources_lost s) (\<lambda>err s.
            if err \<noteq> OMX_ErrorNone then Done OMX_ErrorInsufficientResources s
            else obind (spec_remove (ComponentList k) (eComp e) s) (\<lambda>_ s.
                 obind (spec_add (ComponentList k) c s) (\<lambda>err s.
                 Done (if err \<noteq> OMX_ErrorNone then OMX_ErrorInsufficientResources else OMX_ErrorNone) s))))"
    if "lcells w a = Some t" "openmaxStandComp t = eComp e" for a t e
    unfolding P [OF that] using rep by (auto intro!: sim_bind sim_comp sim_remove sim_add)
  note P = this
  show ?thesis
  proof (cases "scomps s c")
    case (Some p)
    then show ?thesis using S [of "nGroupPriority p"] P False rep
      by (cases "oldest_lower (nGroupPriority p) (slist s (ComponentList k))")
        (auto simp: get_resource_def spec_get_def rep_count rep_fields)
  qed (use False rep in \<open>simp add: get_resource_def spec_get_def rep_count rep_fields\<close>)
qed

lemma sim_serve:
  assumes rep: "rm_rep w s" shows "sim (serve_waiting k w) (spec_serve k s)"
proof (cases "slist s (WaitingList k)")
  case Nil
  then show ?thesis using rep by (simp add: serve_waiting_def spec_serve_def rep_count)
next
  case (Cons e es)
  obtain A where A: "owns (lcells w) (lheads w) A" "\<And>l. slist s l = entries (lcells w) (A l)"
    using rep_lists [OF rep] by blast
  obtain t where t: "lcells w (lheads w (WaitingList k)) = Some t" "entry_of t = e"
    using ownsD(1) [OF A(1), of "WaitingList k"] A(2) [of "WaitingList k"] Cons
    by (cases "A (WaitingList k)") auto
  have "spec_remove (WaitingList k) (eComp e) s = Done OMX_ErrorNone (s\<lparr>slist := (slist s)(WaitingList k := es)\<rparr>)"
    using Cons by (simp add: spec_remove_def)
  then have "spec_serve k s = obind (spec_remove (WaitingList k) (eComp e) s) (\<lambda>_ s.
      obind (spec_comp (eComp e) (omx_base_component_SendCommand OMX_CommandStateSet
        (state_code OMX_StateIdle) None) s) (\<lambda>_ s. Done OMX_ErrorNone s))"
    using Cons by (simp add: spec_serve_def)
  then show ?thesis using rep t Cons
    by (auto simp: serve_waiting_def rep_count entry_of_def Let_def intro!: sim_bind sim_comp sim_remove)
qed

lemma sim_release:
  assumes rep: "rm_rep w s" shows "sim (release_resource c k w) (spec_release c k s)"
proof (cases "slist s (ComponentList k) = []")
  case True
  then show ?thesis using rep_head [OF rep, of "ComponentList k"] rep
    by (simp add: release_resource_def spec_release_def spec_remove_def)
next
  case False
  then show ?thesis using rep_head [OF rep, of "ComponentList k"] rep
    by (auto simp: release_resource_def spec_release_def intro!: sim_bind sim_remove sim_serve)
qed

lemma sim_clear:
  assumes rep: "rm_rep w s" shows "sim (clearList l w) (Done OMX_ErrorNone (s\<lparr>slist := (slist s)(l := [])\<rparr>))"
proof -
  obtain A where A: "owns (lcells w) (lheads w) A" "\<And>l. slist s l = entries (lcells w) (A l)"
    using rep_lists [OF rep] by blast
  let ?m = "\<lambda>b. if b \<in> set (A l) then None else lcells w b"
  have f: "free_cells (lheads w l) (lcells w) = Some ?m"
    using path_free [OF ownsD(1,2) [OF A(1)]] .
  have o: "owns ?m ((lheads w)(l := 0)) (A(l := []))"
    by (rule owns_update [OF A(1)]) (use ownsD(3) [OF A(1)] in \<open>auto split: if_splits\<close>)
  have "?m a = None" if "a > lbrk w" for a using rep that by (auto simp: rm_rep_def)
  then have "rm_rep (w\<lparr>lheads := (lheads w)(l := 0), lcells := ?m\<rparr>) (s\<lparr>slist := (slist s)(l := [])\<rparr>)"
    by (intro rep_shrink [OF rep A o]) (use ownsD(3) [OF A(1)] in \<open>auto simp: in_order_def split: if_splits\<close>)
  moreover have "w\<lparr>lheads := hs, lcells := m\<rparr> = w\<lparr>lcells := m, lheads := hs\<rparr>" for hs m by simp
  ultimately show ?thesis using f by (simp add: clearList_def)
qed

lemma sim_clear_lists:
  "rm_rep w s \<Longrightarrow> sim (clear_lists ls w) (Done OMX_ErrorNone (s\<lparr>slist := (\<lambda>l. if l \<in> set ls then [] else slist s l)\<rparr>))"
proof (induction ls arbitrary: w s)
  case (Cons l ls)
  obtain w' where w: "clearList l w = Done OMX_ErrorNone w'" "rm_rep w' (s\<lparr>slist := (slist s)(l := [])\<rparr>)"
    using sim_clear [OF Cons.prems, of l] by (cases "clearList l w") auto
  let ?s = "s\<lparr>slist := (slist s)(l := [])\<rparr>"
  have eq: "s\<lparr>slist := (\<lambda>l'. if l' \<in> set (l # ls) then [] else slist s l')\<rparr> =
      ?s\<lparr>slist := (\<lambda>l'. if l' \<in> set ls then [] else slist ?s l')\<rparr>"
    by (simp add: fun_eq_iff)
  show ?case unfolding eq clear_lists.simps w(1) obind.simps by (rule Cons.IH [OF w(2)])
qed simp

lemma all_lists: "l \<in> set rm_lists"
  by (cases l; rename_tac k; case_tac k) (auto simp: rm_lists_def)

lemma sim_call: "rm_rep w s \<Longrightarrow> sim (rm_exec op w) (rm_policy op s)"
proof (cases op)
  case RmDeinit
  then show "rm_rep w s \<Longrightarrow> ?thesis" using sim_clear_lists [of w s rm_lists] by (simp add: RM_Deinit_def all_lists)
qed (auto simp: RM_getResource_def RM_releaseResource_def RM_waitForResource_def
    RM_removeFromWaitForResource_def intro!: sim_class sim_get sim_release sim_bind sim_add sim_remove)

section \<open>What holds after any sequence of calls\<close>

definition spec_inv :: "'p rm_spec \<Rightarrow> bool" where
  "spec_inv s =
     ((\<forall>k. int (length (slist s (ComponentList k))) \<le> MAX_RESOURCE k) \<and>
      (\<forall>l. \<forall>e \<in> set (slist s l). scomps s (eComp e) \<noteq> None))"

lemma drop_first_set: "set (drop_first P xs) \<subseteq> set xs"
  by (induction xs) auto

lemma drop_first_length:
  "length (drop_first P xs) \<le> length xs"
  "x \<in> set xs \<Longrightarrow> P x \<Longrightarrow> length (drop_first P xs) < length xs"
  by (induction xs) auto

lemma spec_inv_smaller:
  assumes "spec_inv s" "set xs \<subseteq> set (slist s l)" "length xs \<le> length (slist s l)"
  shows "spec_inv (s\<lparr>slist := (slist s)(l := xs)\<rparr>)"
proof -
  have "int (length xs) \<le> MAX_RESOURCE k" if "l = ComponentList k" for k
    using assms(1,3) that by (auto simp: spec_inv_def intro: order_trans [of _ "int (length (slist s l))"])
  moreover have "scomps s (eComp e) \<noteq> None" if "e \<in> set xs" for e
    using assms(1,2) that unfolding spec_inv_def by blast
  ultimately show ?thesis using assms(1) by (simp add: spec_inv_def)
qed

lemma spec_comp_inv: "spec_inv s \<Longrightarrow> spec_comp c f s = Done r s' \<Longrightarrow> spec_inv s' \<and> slist s' = slist s"
  by (cases "f (the (scomps s c))") (auto simp: spec_inv_def spec_comp_def outcome)

lemma spec_remove_inv:
  assumes "spec_inv s" "spec_remove l c s = Done r s'"
  shows "spec_inv s'"
  using assms spec_inv_smaller [OF assms(1) drop_first_set drop_first_length(1)]
  by (auto simp: spec_remove_def split: if_splits)

lemma spec_remove_length:
  assumes "spec_remove l c s = Done r s'" "e \<in> set (slist s l)" "eComp e = c"
  shows "length (slist s' l) < length (slist s l)"
  using assms drop_first_length(2) [OF assms(2), of "\<lambda>e. eComp e = c"]
  by (auto simp: spec_remove_def list_all_iff split: if_splits)

lemma spec_add_inv:
  assumes "spec_inv s" "spec_add l c s = Done r s'"
    "\<And>k. l = ComponentList k \<Longrightarrow> int (length (slist s l)) < MAX_RESOURCE k"
  shows "spec_inv s'"
  using assms by (fastforce simp: spec_inv_def spec_add_def outcome split: if_splits)

lemma spec_get_inv:
  assumes inv: "spec_inv s" and get: "spec_get c k s = Done r s'" shows "spec_inv s'"
proof (cases "int (length (slist s (ComponentList k))) < MAX_RESOURCE k")
  case True
  then show ?thesis using get spec_add_inv [OF inv] by (auto simp: spec_get_def outcome)
next
  case False
  then obtain p where p: "scomps s c = Some p" using get by (auto simp: spec_get_def outcome)
  show ?thesis
  proof (cases "oldest_lower (nGroupPriority p) (slist s (ComponentList k))")
    case (Some e)
    then have e: "e \<in> set (slist s (ComponentList k))"
      by (auto simp: oldest_lower_def find_Some_iff)
    obtain err t where t: "spec_comp (eComp e) resources_lost s = Done err t"
      using get False p Some by (auto simp: spec_get_def outcome)
    note T = spec_comp_inv [OF inv t]
    show ?thesis
    proof (cases "err = OMX_ErrorNone")
      case True
      then obtain a u b v where u: "spec_remove (ComponentList k) (eComp e) t = Done a u"
        and v: "spec_add (ComponentList k) c u = Done b s'"
        using get False p Some t by (auto simp: spec_get_def outcome)
      have "length (slist u (ComponentList k)) < length (slist s (ComponentList k))"
        using spec_remove_length [OF u] T e by auto
      moreover have "int (length (slist s (ComponentList k))) \<le> MAX_RESOURCE k"
        using inv by (simp add: spec_inv_def)
      ultimately show ?thesis
        by (intro spec_add_inv [OF spec_remove_inv [OF conjunct1 [OF T] u] v]) auto
    qed (use get False p Some t T in \<open>auto simp: spec_get_def\<close>)
  qed (use get False p inv in \<open>simp add: spec_get_def\<close>)
qed

lemma spec_serve_inv:
  assumes inv: "spec_inv s" and serve: "spec_serve k s = Done r s'" shows "spec_inv s'"
proof (cases "slist s (WaitingList k)")
  case (Cons e es)
  then have "spec_inv (s\<lparr>slist := (slist s)(WaitingList k := es)\<rparr>)"
    using inv by (intro spec_inv_smaller) auto
  then show ?thesis using serve Cons spec_comp_inv by (fastforce simp: spec_serve_def outcome)
qed (use inv serve in \<open>simp add: spec_serve_def\<close>)

lemma policy_inv:
  assumes inv: "spec_inv s" and op: "rm_policy op s = Done r s'" shows "spec_inv s'"
proof -
  have cl: "spec_inv s'" if "spec_class c f s = Done r s'" "\<And>k. f k s = Done r s' \<Longrightarrow> spec_inv s'" for c f
    using that inv by (auto simp: spec_class_def outcome split: option.splits)
  have release: "spec_inv s'" if "spec_release c k s = Done r s'" for c k
    using that by (auto simp: spec_release_def outcome split: if_splits
        intro: spec_serve_inv [OF spec_remove_inv [OF inv]] spec_remove_inv [OF inv])
  have wait: "spec_inv s'" if "obind (spec_add (WaitingList k) c s) (\<lambda>_. Done OMX_ErrorNone) = Done r s'" for c k
    using that spec_add_inv [OF inv] by (auto simp: outcome)
  have leave: "spec_inv s'" if "obind (spec_remove (WaitingList k) c s) (\<lambda>_. Done OMX_ErrorNone) = Done r s'" for c k
    using that spec_remove_inv [OF inv] by (auto simp: outcome)
  have "0 \<le> MAX_RESOURCE k" for k by (cases k) auto
  then have "spec_inv (s\<lparr>slist := \<lambda>_. []\<rparr>)" by (simp add: spec_inv_def)
  then show ?thesis using op cl [OF _ spec_get_inv [OF inv]] cl [OF _ release] cl [OF _ wait] cl [OF _ leave]
    by (cases op) auto
qed

text \<open>
  The worlds that occur: no list at first, then calls of the manager and, between them, anything
  the components do, as long as no component disappears.
\<close>

inductive rm_reach :: "'p rm_world \<Rightarrow> bool" where
  rm_start: "lheads w = (\<lambda>_. 0) \<Longrightarrow> lcells w = Map.empty \<Longrightarrow> globalTimestamp w = 0 \<Longrightarrow> rm_reach w"
| rm_calls: "rm_reach w \<Longrightarrow> rm_exec op w = Done r w' \<Longrightarrow> rm_reach w'"
| rm_others: "rm_reach w \<Longrightarrow> dom (comps w) \<subseteq> dom cs \<Longrightarrow> rm_reach (w\<lparr>comps := cs\<rparr>)"

lemma sim_Done: "sim (Done r w) m \<Longrightarrow> \<exists>s. m = Done r s \<and> rm_rep w s"
  by (cases m) auto

lemma reach_rep: "rm_reach w \<Longrightarrow> \<exists>s. rm_rep w s \<and> spec_inv s"
proof (induction rule: rm_reach.induct)
  case (rm_start w)
  let ?s = "\<lparr>scomps = comps w, slist = (\<lambda>_. []), sclock = 0, sbudget = lbudget w\<rparr>"
  have "rm_rep w ?s" using rm_start
    by (auto simp: rm_rep_def owns_def in_order_def intro!: exI [of _ "\<lambda>_. []"])
  moreover have "0 \<le> MAX_RESOURCE k" for k by (cases k) auto
  then have "spec_inv ?s" by (simp add: spec_inv_def)
  ultimately show ?case by blast
next
  case (rm_calls w op r w')
  then obtain s where s: "rm_rep w s" "spec_inv s" by blast
  have "sim (Done r w') (rm_policy op s)" using sim_call [OF s(1), of op] rm_calls.hyps(2) by simp
  then show ?case using policy_inv [OF s(2)] by (metis sim_Done)
next
  case (rm_others w cs)
  then obtain s where s: "rm_rep w s" "spec_inv s" by blast
  have "spec_inv (s\<lparr>scomps := cs\<rparr>)" using s(2) rm_others.hyps(2) rep_fields(1) [OF s(1)]
    by (fastforce simp: spec_inv_def)
  then show ?case using rep_comps [OF s(1)] by blast
qed

section \<open>Calls that return\<close>

text \<open>
  The components in the table are well-formed clients' components with a name and memory for a
  command.
\<close>

definition comps_ok :: "(nat \<Rightarrow> 'p omx_comp option) \<Rightarrow> bool" where
  "comps_ok cs =
     (\<forall>c p. cs c = Some p \<longrightarrow>
        name p \<noteq> None \<and> (\<exists>D N. comp_wf D N p) \<and> command_ok OMX_CommandStateSet None p)"

fun known :: "rm_call \<Rightarrow> (nat \<Rightarrow> 'p omx_comp option) \<Rightarrow> bool" where
  "known (RmGet c) cs = (cs c \<noteq> None)"
| "known (RmRelease c) cs = (cs c \<noteq> None)"
| "known (RmWait c) cs = (cs c \<noteq> None)"
| "known (RmLeave c) cs = (cs c \<noteq> None)"
| "known RmDeinit cs = True"

lemma send_done:
  assumes "comp_wf D N p" "command_ok OMX_CommandStateSet None p"
  shows "\<exists>r q. omx_base_component_SendCommand OMX_CommandStateSet n None p = Done r q"
  using send_command_wf [OF assms] unfolding safe_live by blast

lemma lost_done:
  assumes "comp_wf D N p" "command_ok OMX_CommandStateSet None p"
  shows "\<exists>r q. resources_lost p = Done r q"
proof -
  let ?p = "emit (EventError OMX_ErrorResourcesLost 0) p"
  have "command_ok OMX_CommandStateSet None ?p"
    using assms(2) by (simp add: command_ok_def port_indices_def emit_def)
  then obtain r q where "omx_base_component_SendCommand OMX_CommandStateSet 1 None ?p = Done r q"
    using send_done [OF wf_fields(4) [OF assms(1)]] by blast
  then show ?thesis using event_done [OF assms(1)] by (simp add: resources_lost_def)
qed

lemma spec_comp_done:
  "scomps s c = Some p \<Longrightarrow> \<exists>r q. f p = Done r q \<Longrightarrow> \<exists>r s'. spec_comp c f s = Done r s' \<and>
    sclock s' = sclock s \<and> slist s' = slist s \<and> dom (scomps s') = dom (scomps s)"
  by (auto simp: spec_comp_def)

lemma spec_add_done:
  "scomps s c \<noteq> None \<Longrightarrow> sclock s < INT_MAX \<Longrightarrow> \<exists>r s'. spec_add l c s = Done r s'"
  by (auto simp: spec_add_def)

lemma spec_remove_done: "\<exists>r s'. spec_remove l c s = Done r s' \<and> sclock s' = sclock s \<and> scomps s' = scomps s"
  by (auto simp: spec_remove_def)

lemma spec_get_done:
  assumes inv: "spec_inv s" and ok: "comps_ok (scomps s)" and c: "scomps s c \<noteq> None" and n: "sclock s < INT_MAX"
  shows "\<exists>r s'. spec_get c k s = Done r s'"
proof (cases "int (length (slist s (ComponentList k))) < MAX_RESOURCE k")
  case True
  then show ?thesis using spec_add_done [OF c n, of "ComponentList k"] by (auto simp: spec_get_def)
next
  case False
  obtain p where p: "scomps s c = Some p" using c by blast
  show ?thesis
  proof (cases "oldest_lower (nGroupPriority p) (slist s (ComponentList k))")
    case (Some e)
    then have "e \<in> set (slist s (ComponentList k))" by (auto simp: oldest_lower_def find_Some_iff)
    then obtain q where q: "scomps s (eComp e) = Some q" using inv unfolding spec_inv_def by blast
    then obtain D N where "comp_wf D N q" "command_ok OMX_CommandStateSet None q"
      using ok unfolding comps_ok_def by blast
    then have "\<exists>r p. resources_lost q = Done r p" by (rule lost_done)
    from spec_comp_done [where f = resources_lost, OF q this] obtain r t where t: "spec_comp (eComp e) resources_lost s = Done r t"
      "sclock t = sclock s" "dom (scomps t) = dom (scomps s)" by blast
    obtain a u where u: "spec_remove (ComponentList k) (eComp e) t = Done a u" "sclock u = sclock t"
      "scomps u = scomps t"
      using spec_remove_done by blast
    have "\<exists>b v. spec_add (ComponentList k) c u = Done b v"
      using u t c n by (intro spec_add_done) (auto simp: dom_def)
    then show ?thesis using False p Some t(1) u(1) by (auto simp: spec_get_def)
  qed (use False p in \<open>simp add: spec_get_def\<close>)
qed

lemma spec_release_done:
  assumes inv: "spec_inv s" and ok: "comps_ok (scomps s)" shows "\<exists>r s'. spec_release c k s = Done r s'"
proof -
  obtain a u where u: "spec_remove (ComponentList k) c s = Done a u" "scomps u = scomps s"
    using spec_remove_done by blast
  have "\<exists>r s'. spec_serve k u = Done r s'"
  proof (cases "slist u (WaitingList k)")
    case (Cons e es)
    then obtain q where q: "scomps u (eComp e) = Some q"
      using spec_remove_inv [OF inv u(1)] unfolding spec_inv_def by (metis list.set_intros(1) not_None_eq)
    then obtain D N where "comp_wf D N q" "command_ok OMX_CommandStateSet None q"
      using ok u(2) unfolding comps_ok_def by metis
    then have "\<exists>r p. omx_base_component_SendCommand OMX_CommandStateSet (state_code OMX_StateIdle) None q = Done r p"
      by (rule send_done)
    from spec_comp_done [where f = "omx_base_component_SendCommand OMX_CommandStateSet (state_code OMX_StateIdle) None"
        and s = "u\<lparr>slist := (slist u)(WaitingList k := es)\<rparr>" and c = "eComp e", OF _ this]
    obtain r t where "spec_comp (eComp e) (omx_base_component_SendCommand OMX_CommandStateSet
        (state_code OMX_StateIdle) None) (u\<lparr>slist := (slist u)(WaitingList k := es)\<rparr>) = Done r t"
      using q by auto
    then show ?thesis using Cons by (simp add: spec_serve_def)
  qed (simp add: spec_serve_def)
  then show ?thesis using u(1) by (auto simp: spec_release_def)
qed

lemma policy_done:
  assumes inv: "spec_inv s" and ok: "comps_ok (scomps s)" and n: "sclock s < INT_MAX" and c: "known op (scomps s)"
  shows "\<exists>r s'. rm_policy op s = Done r s'"
proof -
  have cl: "\<exists>r s'. spec_class c f s = Done r s'" if c: "scomps s c \<noteq> None" and f: "\<And>k. \<exists>r s'. f k s = Done r s'" for c f
  proof -
    obtain p m where "scomps s c = Some p" "name p = Some m" using c ok unfolding comps_ok_def by blast
    then show ?thesis using f by (auto simp: spec_class_def split: option.splits)
  qed
  show ?thesis
  proof (cases op)
    case (RmGet c)
    then show ?thesis using cl [where f = "spec_get c"] spec_get_done [OF inv ok _ n] assms(4) by simp
  next
    case (RmRelease c)
    then show ?thesis using cl [where f = "spec_release c"] spec_release_done [OF inv ok] assms(4) by simp
  next
    case (RmWait c)
    then have "\<exists>r s'. obind (spec_add (WaitingList k) c s) (\<lambda>_. Done OMX_ErrorNone) = Done r s'" for k
      using spec_add_done [OF _ n, of c "WaitingList k"] assms(4) by auto
    then show ?thesis using cl RmWait assms(4) by simp
  next
    case (RmLeave c)
    have "\<exists>r s'. obind (spec_remove (WaitingList k) c s) (\<lambda>_. Done OMX_ErrorNone) = Done r s'" for k
      using spec_remove_done [of "WaitingList k" c s] by auto
    then show ?thesis using cl RmLeave assms(4) by simp
  qed simp
qed

section \<open>What the components can rely on\<close>

text \<open>A history of the manager: calls and, in between, what the components do by themselves.\<close>

datatype 'p rm_action = Call rm_call | Others "(nat \<Rightarrow> 'p omx_comp option) \<Rightarrow> nat \<Rightarrow> 'p omx_comp option"

fun rm_run :: "'p rm_action list \<Rightarrow> 'p rm_world \<Rightarrow> (omx_err list, 'p rm_world) outcome" where
  "rm_run [] w = Done [] w"
| "rm_run (Call op # as) w = obind (rm_exec op w) (\<lambda>r w. obind (rm_run as w) (\<lambda>rs w. Done (r # rs) w))"
| "rm_run (Others f # as) w = rm_run as (w\<lparr>comps := f (comps w)\<rparr>)"

fun policy_run :: "'p rm_action list \<Rightarrow> 'p rm_spec \<Rightarrow> (omx_err list, 'p rm_spec) outcome" where
  "policy_run [] s = Done [] s"
| "policy_run (Call op # as) s = obind (rm_policy op s) (\<lambda>r s. obind (policy_run as s) (\<lambda>rs s. Done (r # rs) s))"
| "policy_run (Others f # as) s = policy_run as (s\<lparr>scomps := f (scomps s)\<rparr>)"

lemma sim_run: "rm_rep w s \<Longrightarrow> sim (rm_run as w) (policy_run as s)"
proof (induction as arbitrary: w s)
  case (Cons a as)
  show ?case
  proof (cases a)
    case (Call op)
    then show ?thesis using Cons.IH Cons.prems by (auto intro!: sim_bind sim_call)
  next
    case (Others f)
    then show ?thesis using Cons.IH rep_comps [OF Cons.prems] rep_fields(1) [OF Cons.prems] by simp
  qed
qed simp

definition rm_empty :: "(nat \<Rightarrow> 'p omx_comp option) \<Rightarrow> nat \<Rightarrow> 'p rm_world" where
  "rm_empty cs n =
     \<lparr>comps = cs, lheads = (\<lambda>_. 0), lcells = (\<lambda>_. None), lbrk = 0, lbudget = n, globalTimestamp = 0\<rparr>"

definition spec_empty :: "(nat \<Rightarrow> 'p omx_comp option) \<Rightarrow> nat \<Rightarrow> 'p rm_spec" where
  "spec_empty cs n = \<lparr>scomps = cs, slist = (\<lambda>_. []), sclock = 0, sbudget = n\<rparr>"

lemma rep_empty: "rm_rep (rm_empty cs n) (spec_empty cs n)"
  by (auto simp: rm_rep_def owns_def in_order_def rm_empty_def spec_empty_def intro!: exI [of _ "\<lambda>_. []"])

text \<open>
  C4 -- Whatever calls the components make of the resource manager, and whatever they do in between,
  the linked lists of the code behave as lists of entries under this policy: a resource with a free
  place is granted; when all places are taken, the oldest holder of lower priority gives way (it is
  told so and sent to Loaded if it is idle, and only then) and the caller takes its place; without
  such a holder the call is refused and nothing changes. A released place is offered to the
  component that has waited longest. The error codes, the effects on the components and the cases of
  undefined behaviour are the same.
\<close>

theorem resource_manager_refines_policy:
  "sim (rm_run as (rm_empty cs n)) (policy_run as (spec_empty cs n))"
  by (rule sim_run [OF rep_empty])

lemma reach_call:
  assumes "rm_reach w" "comps_ok (comps w)" "known op (comps w)" "globalTimestamp w < INT_MAX"
  shows "\<exists>r w'. rm_exec op w = Done r w' \<and> rm_reach w'"
proof -
  obtain s where s: "rm_rep w s" "spec_inv s" using reach_rep [OF assms(1)] by blast
  then obtain r s' where "rm_policy op s = Done r s'"
    using policy_done [OF s(2), of op] assms(2-4) by (auto simp: rep_fields)
  then obtain w' where "rm_exec op w = Done r w'"
    using sim_call [OF s(1), of op] by (cases "rm_exec op w") auto
  then show ?thesis using rm_calls [OF assms(1)] by blast
qed

lemma reach_quota: "rm_reach w \<Longrightarrow> \<exists>n. numElemInList (ComponentList k) w = Some n \<and> 0 \<le> n \<and> n \<le> MAX_RESOURCE k"
  using reach_rep [of w] by (auto simp: rep_count spec_inv_def)

lemma reach_deinit:
  assumes "rm_reach w" shows "\<exists>w'. RM_Deinit w = Done OMX_ErrorNone w' \<and> lcells w' = Map.empty"
proof -
  obtain s where s: "rm_rep w s" using reach_rep [OF assms] by blast
  from sim_call [OF s, of RmDeinit] obtain w' where w: "RM_Deinit w = Done OMX_ErrorNone w'"
    "rm_rep w' (s\<lparr>slist := \<lambda>_. []\<rparr>)"
    by (cases "RM_Deinit w") auto
  from w(2) obtain A where "owns (lcells w') (lheads w') A" "\<And>l. A l = []"
    by (auto elim!: rep_lists)
  then have "lcells w' a = None" for a using empty_iff unfolding owns_def by fastforce
  then show ?thesis using w(1) by blast
qed

text \<open>
  C11 -- From every state the resource manager can get into, a call for a component of the table
  returns, without touching a cell that is not allocated, as long as the components are well-formed
  and the time stamps have not run out; afterwards no resource has more holders than it has places.
  And in every such state \<open>RM_Deinit\<close> frees every cell.
\<close>

theorem resource_manager_safe:
  assumes "rm_reach w" "comps_ok (comps w)" "known op (comps w)" "globalTimestamp w < INT_MAX"
  shows "(\<exists>r w' n. rm_exec op w = Done r w' \<and> rm_reach w' \<and>
      numElemInList (ComponentList k) w' = Some n \<and> 0 \<le> n \<and> n \<le> MAX_RESOURCE k) \<and>
    (\<exists>w'. RM_Deinit w = Done OMX_ErrorNone w' \<and> lcells w' = Map.empty)"
  using reach_call [OF assms] reach_quota [of _ k] reach_deinit [OF assms(1)] by metis

text \<open>A table of seven clock sources, the fourth one with the highest priority.\<close>

definition demo_clock :: "nat \<Rightarrow> unit omx_comp" where
  "demo_clock c = (demo_comp [demo_port] ())\<lparr>name := Some ''OMX.st.clocksrc'',
     nGroupPriority := (if c = 4 then 1 else of_nat c), state := (if c = 2 then OMX_StateIdle else OMX_StateLoaded)\<rparr>"

definition demo_clocks :: "nat \<Rightarrow> unit omx_comp option" where
  "demo_clocks c = (if c < 7 then Some (demo_clock c) else None)"

lemma demo_comps_ok: "comps_ok demo_clocks"
proof -
  have "comp_wf (sPortTypesParam (demo_comp [demo_port] ())) 1 (demo_clock c)" for c
    using demo_wf by (simp add: demo_clock_def comp_wf_def port_indices_def total_ports_def)
  moreover have "command_ok OMX_CommandStateSet None (demo_clock c)" "name (demo_clock c) \<noteq> None" for c
    by (simp_all add: demo_clock_def command_ok_def port_indices_def demo_comp_def demo_heap_def)
  ultimately show ?thesis unfolding comps_ok_def demo_clocks_def by (metis option.distinct(1) option.inject)
qed

lemma resource_manager_safe_witness:
  "\<exists>r w' n. rm_exec (RmGet 4) (rm_empty demo_clocks 20) = Done r w' \<and>
     numElemInList (ComponentList RClock) w' = Some n \<and> n \<le> 5"
proof -
  have "rm_reach (rm_empty demo_clocks 20)" by (intro rm_start) (simp_all add: rm_empty_def)
  then show ?thesis
    using resource_manager_safe [of "rm_empty demo_clocks 20" "RmGet 4" RClock] demo_comps_ok
    by (fastforce simp: rm_empty_def demo_clocks_def)
qed

text \<open>
  Five sources take the five places (2, idle, is the first of lower priority than 4), a sixth is
  refused, and the one with the high priority replaces the oldest; the component that waits is
  served when a place is released. What the policy computes, the code does.
\<close>

definition demo_history :: "unit rm_action list" where
  "demo_history = [Call (RmGet 0), Call (RmGet 2), Call (RmGet 3), Call (RmGet 5), Call (RmGet 6),
     Call (RmWait 1), Call (RmGet 6), Call (RmGet 4), Call (RmRelease 2), Call (RmRelease 3)]"

lemma demo_history_runs:
  "case policy_run demo_history (spec_empty demo_clocks 20) of
     Done rs s \<Rightarrow>
       rs = replicate 6 OMX_ErrorNone @ [OMX_ErrorInsufficientResources, OMX_ErrorNone, OMX_ErrorUndefined, OMX_ErrorNone] \<and>
       map eComp (slist s (ComponentList RClock)) = [0, 5, 6, 4] \<and> slist s (WaitingList RClock) = [] \<and>
       map_option events (scomps s 2) = Some [EventError OMX_ErrorResourcesLost 0] \<and>
       map_option messageQueue (scomps s 1) = Some (Some [\<lparr>messageType = OMX_CommandStateSet, messageParam = 2, pCmdData = None\<rparr>])
   | _ \<Rightarrow> False"
  by code_simp

section \<open>Where the places are not counted\<close>

lemma on_comp_reach: "rm_reach w \<Longrightarrow> on_comp c f w = Done r w' \<Longrightarrow> rm_reach w'"
  by (cases "comps w c"; cases "f (the (comps w c))")
    (auto simp: on_comp_def intro!: rm_others)

lemma managed_reach:
  assumes w: "rm_reach w" and d: "managed_DoStateSet x c dest w = Done r w'" shows "rm_reach w'"
  using d rm_calls [OF w, of "RmGet c"] rm_calls [OF w, of "RmRelease c"] rm_calls [OF w, of "RmLeave c"]
    rm_calls [OF w, of "RmWait c"] w
  by (auto simp: managed_DoStateSet_def Let_def outcome split: if_splits intro: on_comp_reach)

text \<open>
  A component that is served after waiting enters Idle without asking for the resource, and is in no
  list: five sources hold the five places, one of them gives its place to a sixth that waits, and
  then gets it again. Six are in Idle.
\<close>

lemma served_without_place:
  "case obind (rm_run (map (\<lambda>c. Call (RmGet c)) [0..<5]) (rm_empty (\<lambda>c. if c < 5 then Some ((demo_clock c)\<lparr>state := OMX_StateIdle\<rparr>)
         else Some (demo_clock 5)) 20)) (\<lambda>_ w.
       obind (managed_DoStateSet demo_ext 5 (state_code OMX_StateWaitForResources) w) (\<lambda>r1 w.
       obind (managed_DoStateSet demo_ext 0 (state_code OMX_StateLoaded) w) (\<lambda>r2 w.
       obind (managed_DoStateSet demo_ext 5 (state_code OMX_StateIdle) w) (\<lambda>r3 w.
       obind (managed_DoStateSet demo_ext 0 (state_code OMX_StateIdle) w) (\<lambda>r4 w.
       Done (r1, r2, r3, r4) w))))) of
     Done rs w \<Rightarrow> rs = (OMX_ErrorNone, OMX_ErrorNone, OMX_ErrorNone, OMX_ErrorNone) \<and>
       numElemInList (ComponentList RClock) w = Some 5 \<and>
       list_all (\<lambda>c. map_option state (comps w c) = Some OMX_StateIdle) [0..<6]
   | _ \<Rightarrow> False"
  by code_simp

text \<open>
  Without memory for a cell a free place is granted all the same, and not recorded; a holder that is
  running loses its place without being told.
\<close>

lemma grant_without_cell:
  "comps w c = Some p \<Longrightarrow> name p = Some n \<Longrightarrow> rm_class_of n = Some k \<Longrightarrow> lbudget w = 0 \<Longrightarrow>
    lheads w (ComponentList k) = 0 \<Longrightarrow> RM_getResource c w = Done OMX_ErrorNone w"
  by (cases k)
    (simp_all add: RM_getResource_def by_class_def get_resource_def numElemInList_def count_cells.simps
      addElemToList_def rm_malloc_def)

lemma running_not_told: "comps w c = Some p \<Longrightarrow> state p = OMX_StateExecuting \<Longrightarrow> preemptComponent c w = Done OMX_ErrorNone w"
  by (simp add: preemptComponent_def)

end
