(* ===== verification/Spec2Isabelle.thy ===== *)
theory Spec2Isabelle
  imports PcmSet PcmCodec PcmStream SeqMidiProof OmxQueue OmxSem OmxTunnel HctlLoad OmxPolicy
begin

text \<open>
  Verification of the native libraries of the device tree. Of the libraries built from
  \<open>src/opensource\<close> two keep state and algorithms of their own that can be stated apart from a driver:
  the ALSA library (\<open>libasound\<close>) and the OpenMAX core (\<open>libomxil-bellagio\<close>). This development models
  the parts of them that compute, and proves what these parts promise. Definitions carry the names of
  the C functions they translate; a helper that translates a part of a function is named after what
  it does. Nothing is assumed about the code: what lies outside (the kernel, a driver's callback, another
  component, the other threads) is an argument, and what is asked of it is a hypothesis with a name.

  \<^bold>\<open>How the parts interact.\<close>

  A PCM stream is opened, a configuration is chosen from the space of those the driver allows, and
  then frames are moved through a ring buffer. The space is three bit masks and twelve intervals; the
  solver narrows them by rules until nothing changes, using the operations on intervals and masks, and
  the setting functions call the driver, which calls the solver. The transfer functions move the two
  pointers of the ring, copy sample areas, and call the device through a record of operations; the
  codecs and the format tables give the samples their meaning. Beside this stand the high level control
  interface, which caches the controls of a card in a sorted array and a ring of links, and the MIDI
  parser of the sequencer.

  An OpenMAX component is a record with ports; clients send commands that a message thread takes from
  a queue and carries out, and exchange buffers with the ports; queues and semaphores connect the
  threads. Two components can be connected by a tunnel, and a resource manager decides which
  components may leave the state Loaded.

  \<^bold>\<open>Theories and sources\<close>, from the leaves up (paths under \<open>src/opensource\<close>):

  \<^item> \<open>Prelude\<close>: machine integers, the error type of functions that return a negative \<open>errno\<close>
    (with a failed assertion and an invalid access as two more values), results of calls that can
    block, and the lemmas the components share.
  \<^item> \<open>Refinable\<close>: the locale \<open>refinable\<close>, the contract between the solver and its two kinds of sets.
  \<^item> \<open>PcmInterval\<close>: \<open>libasound/src/pcm/interval.c\<close>, \<open>interval_inline.h\<close>. Refinement is intersection; for
    positive operands the arithmetic encloses every exact result below \<open>UINT_MAX\<close>. Interpretation \<open>ivl\<close> of \<open>refinable\<close>.
  \<^item> \<open>PcmMask\<close>: \<open>mask_inline.h\<close>. The structure has eight words of 32 bits; \<open>SND_MASK_MAX\<close> of
    \<open>mask.h\<close> is 64, so every loop looks at the first \<open>MASK_SIZE\<close> = 2 of them and refinement leaves the others
    alone. Interpretation \<open>msk\<close>.
  \<^item> \<open>PcmParams\<close>, \<open>PcmSolve\<close>, \<open>PcmSet\<close>: \<open>pcm_params.c\<close>: one parameter at a time; the rule table, the rules
    and the loop of \<open>snd_pcm_hw_refine_soft\<close>; the functions that set a parameter, in their three modes,
    with the local variables of each function and its label \<open>_fail\<close>. \<open>config\<close> is a concrete configuration; on
    a space that admits a consistent one within the tables of the rules the solver ends, keeps it and
    adds none.
  \<^item> \<open>PcmFormat\<close>: the tables of \<open>pcm_misc.c\<close> and the filling of a buffer with silence.
  \<^item> \<open>PcmCodec\<close>: mu-law, A-law and IMA ADPCM of \<open>pcm_mulaw.c\<close>, \<open>pcm_alaw.c\<close>, \<open>pcm_adpcm.c\<close>.
  \<^item> \<open>PcmAreas\<close>, \<open>PcmCopy\<close>: silencing and copying areas of samples in \<open>pcm.c\<close>. \<open>copied\<close> is the
    specification, sample by sample; the merging of adjacent channels and \<open>memcpy\<close> implement it. The
    code compares the two areas as pointers: whether they are the same object is the argument \<open>same\<close>.
  \<^item> \<open>PcmRing\<close>: the pointers of the ring and the transfer functions (\<open>pcm_mmap.c\<close>, \<open>pcm_local.h\<close>,
    \<open>pcm.c\<close>); \<open>PcmDevice\<close>: the null device (\<open>pcm_null.c\<close>) and the kernel device (\<open>pcm_hw.c\<close>).
  \<^item> \<open>PcmWrite\<close>: the ring as a queue of frames; the locale \<open>playback_device\<close> is what the write functions
    ask of a device, and what they do with it is proved inside. \<open>PcmStream\<close>: the interpretation \<open>null\<close>
    for the null device, \<open>hw_device\<close> for every kernel that plays from the front of the ring, and the
    default boundary of the pointers.
  \<^item> \<open>ListHead\<close>: the rings of \<open>libasound/include/list.h\<close> over a store of links; \<open>ring\<close> relates them to lists.
  \<^item> \<open>SortedArray\<close>: binary search, insertion and sorting on an array of pointers; the locale \<open>three_way\<close> is
    the contract of a comparison function.
  \<^item> \<open>Hcontrol\<close>, \<open>HctlOrder\<close>, \<open>HctlProof\<close>, \<open>HctlLoad\<close>: \<open>control/hcontrol.c\<close>. The locale \<open>hctl_order\<close> extends
    \<open>three_way\<close>; \<open>by_name\<close> and \<open>by_number\<close> interpret it on the two comparison functions of the library.
  \<^item> \<open>SeqMidi\<close>, \<open>SeqMidiProof\<close>: \<open>seq/seq_midi_event.c\<close>, encoder and decoder with running status.
  \<^item> \<open>OmxQueue\<close>, \<open>OmxSem\<close>: \<open>libomxil-bellagio/src/queue.c\<close> and \<open>tsemaphore.c\<close>. The locale \<open>bounded_fifo\<close>
    and its interpretation \<open>rq\<close>: run one after the other, the operations make the ring of cells a bounded
    queue. The code tests for a full and an empty ring before it takes the mutex, so the concurrent queue
    is the step relation \<open>q_step\<close>, one step for each access; it refines the bounded queue for one producer and one
    consumer, and what goes wrong with two of either kind is a finding. The semaphore is a step
    relation over all threads, \<open>tsem_reset\<close> included.
  \<^item> \<open>OmxTypes\<close>, \<open>OmxPort\<close>, \<open>OmxPortProof\<close>: the structures of a component and \<open>base/omx_base_port.c\<close>.
    The union \<open>format\<close> of a port definition is its words; each domain reads and writes its own members there.
  \<^item> \<open>OmxComponent\<close>, \<open>OmxState\<close>, \<open>OmxClient\<close>: \<open>base/omx_base_component.c\<close>. The locale \<open>frame\<close> carries what an
    operation leaves alone through every loop; \<open>state_frame\<close> interprets it for the component's state.
    \<open>omx_calls\<close> and the invariant \<open>comp_wf\<close> cover any sequence of calls of a client and turns of the
    message thread; \<open>carried_out\<close> says what each command leaves behind and which events answer it.
  \<^item> \<open>OmxTunnel\<close>: \<open>OMX_SetupTunnel\<close> of \<open>omxcore.c\<close> over two components, and the allocation of the tunnel's
    buffers. \<open>keeps_lent\<close> asks of the tunnelled component that it does not free the memory lent to it,
    \<open>room\<close> of the port that its arrays hold the negotiated number of buffers.
  \<^item> \<open>OmxResource\<close>, \<open>OmxPolicy\<close>: \<open>omx_reference_resource_manager.c\<close> over the components. The policy is
    stated on lists of entries; \<open>sim\<close> relates them to the cells of the code, call by call, and \<open>rm_reach\<close>
    is what any sequence of calls can lead to.

  \<^bold>\<open>Conventions.\<close> Machine integers are words of their width where they can wrap (32 bit \<open>size_t\<close> and
  \<open>unsigned long\<close>, as on the device), and integers with stated bounds elsewhere. A pointer is a number,
  0 is \<open>NULL\<close>; structures the code allocates lie on a heap with a budget after which \<open>malloc\<close> fails. A
  failed \<open>assert\<close> is the value \<open>ABORT\<close>: assertions are compiled into the ALSA library, because
  \<open>local.h\<close> includes \<open>assert.h\<close> before \<open>config.h\<close> defines \<open>NDEBUG\<close>, while \<open>CHECK_SANITY\<close> is not evaluated.
  An access outside a structure is the value \<open>UNDEF\<close>; a call that blocks for ever or a loop that does not
  end is \<open>None\<close>, or a blocked outcome.

  \<^bold>\<open>Bounds and fuel.\<close> Loops that need not end are partial functions; that they return is proved where
  it holds. The message thread takes \<open>n\<close> turns in \<open>message_turns n\<close>, one message each; the
  theorems hold for every \<open>n\<close>. A thread that waits for its tunnelled buffers to come back looks \<open>xPatience\<close> times
  before the model calls it blocked; the theorems about commands are for ports that are not tunnelled
  and do not use it. Tunnelled buffers are asked for at most twenty times, the limit of the code. The ring
  of a queue has \<open>MAX_QUEUE_ELEMENTS\<close> - 1 cells (\<open>QCAP\<close>), all of which can be used. Time stamps of the resource manager stay below \<open>INT_MAX\<close> by hypothesis: the
  code's counter is an \<open>int\<close> that is never reset.

  \<^bold>\<open>Findings\<close> are lemmas of their own: a behaviour outside what a function promises is shown on a
  concrete input next to the theory it belongs to (\<open>silence_leaves_tail\<close>, \<open>blocking_write_is_short\<close>,
  \<open>served_without_place\<close>, \<open>count_raised_overflows\<close>, \<open>same_name_aborts\<close>, \<open>two_producers_overwrite\<close>,
  \<open>override_refused\<close>, \<open>negotiated_count_overflows\<close> and others).

  \<^bold>\<open>Not modelled.\<close> Of the files above: the search for the nearest value of a parameter and the
  refinement of a slave's space, which repeat the modelled operations on copies; opening and mapping of
  streams; the poll descriptors, time stamps and status calls; printing. Of the libraries: the PCM
  plugins, which move samples through computed gotos, shared memory or library callbacks; the
  configuration parser and the script interpreter of ALSA; control, timer, raw MIDI and sequencer
  devices, which pass arguments to \<open>ioctl\<close>; the simple mixer, mostly tables of names; the loaders,
  content pipes and port kinds of OpenMAX, which load libraries, access files or call codecs that are
  not in the repository. Of the tree: graphics, sensors, lights, power and recovery, which talk to
  drivers and \<open>sysfs\<close>; the component manager proxy and the multiprocessing framework, which marshal
  calls or run on a coprocessor; tracing; and the C++ glue. A kernel that moves its pointer between two
  reads of shared memory, and the read side of a ring, are in the model of the transfer functions only
  as far as their definitions; the theorems are about writing.
\<close>

end
